(* ===== verification/OLM_Prelude.thy ===== *)
theory OLM_Prelude
  imports Main "HOL-Library.List_Lexorder" "HOL-Library.Char_ord" "HOL-Library.Sublist"
    "HOL-Library.Multiset"
begin

text \<open>
  The prelude of the development: the Go library functions on strings that the modelled
  code calls, the error-or-value type that fallible code returns, and the list facts that
  several components share.

  A Go string is a \<^typ>\<open>string\<close>, one \<^typ>\<open>char\<close> per byte; Go's \<open><\<close> on strings is the
  bytewise lexicographic order, which is the order of \<open>List_Lexorder\<close> over \<open>Char_ord\<close>.
  A pair \<open>(value, error)\<close> of Go is a value of \<open>'e + 'a\<close>, \<open>Inl\<close> for a non-nil error.
  A Go map is an association list when the code ranges over it and a function otherwise;
  the order in which Go ranges over a map is arbitrary, so code whose result can depend on
  it takes that order as an argument.
\<close>

section \<open>Collections of facts\<close>

named_theorems go_string \<open>unfolding rules of the Go string functions\<close>
named_theorems go_err \<open>rules of the error-or-value combinators\<close>

section \<open>Package strings\<close>

definition HasPrefix :: "string \<Rightarrow> string \<Rightarrow> bool" where
  "HasPrefix s p \<longleftrightarrow> take (length p) s = p"

definition HasSuffix :: "string \<Rightarrow> string \<Rightarrow> bool" where
  "HasSuffix s p \<longleftrightarrow> HasPrefix (rev s) (rev p)"

definition TrimRight :: "string \<Rightarrow> char \<Rightarrow> string" where
  "TrimRight s c = rev (dropWhile (\<lambda>x. x = c) (rev s))"

fun Split :: "char \<Rightarrow> string \<Rightarrow> string list" where
  "Split c [] = [[]]"
| "Split c (x # xs) =
     (if x = c then [] # Split c xs
      else (case Split c xs of [] \<Rightarrow> [[x]] | w # ws \<Rightarrow> (x # w) # ws))"

definition SplitN2 :: "char \<Rightarrow> string \<Rightarrow> string list" where
  "SplitN2 c s =
     (if c \<in> set s then [takeWhile (\<lambda>x. x \<noteq> c) s, tl (dropWhile (\<lambda>x. x \<noteq> c) s)] else [s])"

fun Join :: "string list \<Rightarrow> string \<Rightarrow> string" where
  "Join [] sep = []"
| "Join [s] sep = s"
| "Join (s # t # ss) sep = s @ sep @ Join (t # ss) sep"

section \<open>Fallible code\<close>

text \<open>The text of an aggregated error has each message once, at its first place.\<close>

definition aggregateText :: "string list \<Rightarrow> string option" where
  "aggregateText es = (case rev (remdups (rev es)) of [] \<Rightarrow> None | [e] \<Rightarrow> Some e | ms \<Rightarrow> Some (''['' @ Join ms '', '' @ '']''))"

definition bind_err :: "'e + 'a \<Rightarrow> ('a \<Rightarrow> 'e + 'b) \<Rightarrow> 'e + 'b" where
  "bind_err r f = (case r of Inl e \<Rightarrow> Inl e | Inr a \<Rightarrow> f a)"

fun map_err :: "('a \<Rightarrow> 'e + 'b) \<Rightarrow> 'a list \<Rightarrow> 'e + 'b list" where
  "map_err f [] = Inr []"
| "map_err f (x # xs) =
     bind_err (f x) (\<lambda>y. bind_err (map_err f xs) (\<lambda>ys. Inr (y # ys)))"

section \<open>Lemmas on strings\<close>

lemma HasPrefix_iff_prefix [go_string]: "HasPrefix s p \<longleftrightarrow> prefix p s"
  by (metis HasPrefix_def append_eq_conv_conj prefix_def)

lemma HasSuffix_iff_suffix [go_string]: "HasSuffix s p \<longleftrightarrow> suffix p s"
  by (simp add: HasSuffix_def HasPrefix_iff_prefix suffix_to_prefix)

lemma HasPrefix_Nil [simp]: "HasPrefix s []"
  by (simp add: HasPrefix_def)

lemma HasPrefix_append [simp]: "HasPrefix (p @ s) p"
  by (simp add: HasPrefix_def)

lemma TrimRight_decompose: "\<exists>n. s = TrimRight s c @ replicate n c"
proof -
  let ?w = "takeWhile (\<lambda>x. x = c) (rev s)"
  have "rev (rev s) = rev (?w @ dropWhile (\<lambda>x. x = c) (rev s))"
    by (simp only: takeWhile_dropWhile_id)
  then have "s = TrimRight s c @ rev ?w"
    by (simp only: TrimRight_def rev_append rev_rev_ident)
  moreover have "replicate (length ?w) c = ?w"
    by (rule replicate_length_same) (auto dest: set_takeWhileD)
  ultimately show ?thesis by (metis rev_replicate)
qed

lemma TrimRight_last: "TrimRight s c \<noteq> [] \<Longrightarrow> last (TrimRight s c) \<noteq> c"
  unfolding TrimRight_def
  using hd_dropWhile [of "\<lambda>x. x = c" "rev s"] by (auto simp: last_rev)

text \<open>A path that is covered by a trimmed pattern and does not itself end in the trimmed
  character is covered inside the trimmed part.\<close>

lemma prefix_TrimRight:
  assumes "prefix (TrimRight o1 c) u"
  shows "prefix (TrimRight o1 c) (TrimRight u c)"
proof -
  let ?p = "TrimRight o1 c" and ?t = "TrimRight u c"
  obtain n where u: "u = ?t @ replicate n c" using TrimRight_decompose by blast
  have "prefix ?p (?t @ replicate n c)" using assms u by simp
  then consider "prefix ?p ?t" | us where "?p = ?t @ us" "us \<noteq> []" "prefix us (replicate n c)"
    by (fastforce simp: prefix_append)
  then show ?thesis
  proof cases
    case 2
    then have "last ?p = last us" and "last us \<in> set us" by simp_all
    with 2(3) have "last ?p = c"
      by (metis in_set_replicate set_mono_prefix subsetD)
    then show ?thesis using TrimRight_last [of o1 c] 2 by auto
  qed
qed

lemma Split_nonempty [simp]: "Split c s \<noteq> []"
  by (induction s) (auto split: list.splits)

lemma Split_no_sep [simp]: "c \<notin> set s \<Longrightarrow> Split c s = [s]"
  by (induction s) auto

lemma Split_append: "c \<notin> set s \<Longrightarrow> Split c (s @ c # t) = s # Split c t"
  by (induction s) auto

lemma SplitN2_append: "c \<notin> set s \<Longrightarrow> SplitN2 c (s @ c # t) = [s, t]"
  by (induction s) (auto simp: SplitN2_def)

section \<open>Lemmas on fallible code\<close>

lemma bind_err_simps [simp]:
  "bind_err (Inl e) f = Inl e" "bind_err (Inr a) f = f a"
  by (simp_all add: bind_err_def)

lemma bind_err_eq_Inr [go_err]:
  "bind_err r f = Inr b \<longleftrightarrow> (\<exists>a. r = Inr a \<and> f a = Inr b)"
  by (cases r) simp_all

lemma bind_err_eq_Inl [go_err]:
  "bind_err r f = Inl e \<longleftrightarrow> r = Inl e \<or> (\<exists>a. r = Inr a \<and> f a = Inl e)"
  by (cases r) simp_all

lemma map_err_eq_Inr:
  "map_err f xs = Inr ys \<longleftrightarrow> list_all2 (\<lambda>x y. f x = Inr y) xs ys"
  by (induction xs arbitrary: ys) (auto simp: go_err list_all2_Cons1)

lemma map_err_mem: "map_err f xs = Inr ys \<Longrightarrow> y \<in> set ys \<Longrightarrow> \<exists>x\<in>set xs. f x = Inr y"
  by (induction xs arbitrary: ys) (auto simp: bind_err_eq_Inr)

section \<open>Package sort\<close>

text \<open>\<open>le\<close> is a total preorder on \<open>A\<close> and \<open>lt\<close> is its strict part between different elements.\<close>

definition orders :: "('a \<Rightarrow> 'a \<Rightarrow> bool) \<Rightarrow> ('a \<Rightarrow> 'a \<Rightarrow> bool) \<Rightarrow> 'a set \<Rightarrow> bool" where
  "orders lt le A \<longleftrightarrow>
     (\<forall>x\<in>A. \<forall>y\<in>A. le x y \<or> le y x)
     \<and> (\<forall>x\<in>A. \<forall>y\<in>A. \<forall>z\<in>A. le x y \<longrightarrow> le y z \<longrightarrow> le x z)
     \<and> (\<forall>x\<in>A. \<forall>y\<in>A. x \<noteq> y \<longrightarrow> lt x y = (\<not> le y x))"

lemma ordersD:
  assumes "orders lt le A"
  shows "x \<in> A \<Longrightarrow> y \<in> A \<Longrightarrow> le x y \<or> le y x"
    "x \<in> A \<Longrightarrow> y \<in> A \<Longrightarrow> z \<in> A \<Longrightarrow> le x y \<Longrightarrow> le y z \<Longrightarrow> le x z"
    "x \<in> A \<Longrightarrow> y \<in> A \<Longrightarrow> x \<noteq> y \<Longrightarrow> lt x y = (\<not> le y x)"
  using assms unfolding orders_def by blast+

lemma orders_subset: "orders lt le A \<Longrightarrow> B \<subseteq> A \<Longrightarrow> orders lt le B"
  unfolding orders_def by (meson subsetD)

text \<open>What \<open>sort.Sort\<close> and \<open>sort.Slice\<close> promise: the same elements, in order when the
  comparison orders them; nothing about the order of equal elements.\<close>

locale go_sort =
  fixes srt :: "('a \<Rightarrow> 'a \<Rightarrow> bool) \<Rightarrow> 'a list \<Rightarrow> 'a list"
  assumes perm: "mset (srt lt xs) = mset xs"
    and sorts: "distinct xs \<Longrightarrow> orders lt le (set xs) \<Longrightarrow> sorted_wrt le (srt lt xs)"
begin

lemma set_srt [simp]: "set (srt lt xs) = set xs"
  using perm mset_eq_setD by blast

lemma distinct_srt [simp]: "distinct (srt lt xs) = distinct xs"
  using perm mset_eq_imp_distinct_iff by blast

text \<open>A strictly smaller element comes first.\<close>

lemma srt_before:
  assumes "distinct xs" "orders lt le (set xs)" "x \<in> set xs" "y \<in> set xs" "\<not> le y x"
  shows "\<exists>us vs ws. srt lt xs = us @ x # vs @ y # ws"
proof -
  have "x \<noteq> y" using ordersD(1) [OF assms(2,3,3)] assms(5) by blast
  obtain us vs where us: "srt lt xs = us @ x # vs" using assms(3) by (metis set_srt split_list)
  have "y \<notin> set us"
    using sorts [OF assms(1,2)] assms(5) unfolding us by (auto simp: sorted_wrt_append)
  then have "y \<in> set vs" using assms(4) us \<open>x \<noteq> y\<close> by (metis (no_types) Un_iff set_append set_ConsD set_srt)
  then show ?thesis using us by (metis split_list)
qed

end

text \<open>\<open>sort.SliceStable\<close>: insertion behind the elements that are not greater.\<close>

fun insertStable :: "('a \<Rightarrow> 'a \<Rightarrow> bool) \<Rightarrow> 'a \<Rightarrow> 'a list \<Rightarrow> 'a list" where
  "insertStable lt x [] = [x]"
| "insertStable lt x (y # ys) = (if lt x y then x # y # ys else y # insertStable lt x ys)"

definition SliceStable :: "('a \<Rightarrow> 'a \<Rightarrow> bool) \<Rightarrow> 'a list \<Rightarrow> 'a list" where
  "SliceStable lt xs = fold (insertStable lt) xs []"

lemma mset_insertStable [simp]: "mset (insertStable lt x ys) = add_mset x (mset ys)"
  by (induction ys) auto

lemma set_insertStable [simp]: "set (insertStable lt x ys) = insert x (set ys)"
  by (induction ys) auto

lemma mset_fold_insertStable: "mset (fold (insertStable lt) xs acc) = mset xs + mset acc"
  by (induction xs arbitrary: acc) auto

lemma mset_SliceStable [simp]: "mset (SliceStable lt xs) = mset xs"
  by (simp add: SliceStable_def mset_fold_insertStable)

lemma set_SliceStable [simp]: "set (SliceStable lt xs) = set xs"
  by (rule mset_eq_setD) simp

lemma sorted_insertStable:
  assumes "sorted_wrt le ys" "orders lt le (insert x (set ys))" "x \<notin> set ys"
  shows "sorted_wrt le (insertStable lt x ys)"
  using assms
proof (induction ys)
  case (Cons y ys)
  have o: "orders lt le (insert x (set ys))" by (rule orders_subset [OF Cons.prems(2)]) auto
  note d = ordersD [OF Cons.prems(2)]
  have "x \<noteq> y" using Cons.prems(3) by simp
  show ?case
  proof (cases "lt x y")
    case True
    then have xy: "le x y" using d(1,3) [of x y] \<open>x \<noteq> y\<close> by simp
    have "le x z" if "z \<in> set ys" for z
      using d(2) [of x y z] xy Cons.prems(1) that by simp
    then show ?thesis using True xy Cons.prems(1) by simp
  next
    case False
    then have "le y x" using d(3) [of x y] \<open>x \<noteq> y\<close> by simp
    then show ?thesis using False Cons.IH [OF _ o] Cons.prems(1,3) by simp
  qed
qed simp

lemma sorted_SliceStable:
  assumes "distinct xs" "orders lt le (set xs)"
  shows "sorted_wrt le (SliceStable lt xs)"
proof -
  have "sorted_wrt le (fold (insertStable lt) xs acc)"
    if "distinct xs" "set xs \<inter> set acc = {}" "sorted_wrt le acc" "orders lt le (set xs \<union> set acc)" for xs acc
    using that
  proof (induction xs arbitrary: acc)
    case (Cons x xs)
    have "orders lt le (insert x (set acc))" by (rule orders_subset [OF Cons.prems(4)]) auto
    then have "sorted_wrt le (insertStable lt x acc)" using Cons.prems by (intro sorted_insertStable) auto
    moreover have "orders lt le (set xs \<union> set (insertStable lt x acc))" using Cons.prems(4) by simp
    ultimately show ?case using Cons.IH [of "insertStable lt x acc"] Cons.prems by auto
  qed simp
  from this [of xs "[]"] assms show ?thesis by (simp add: SliceStable_def)
qed

interpretation stable: go_sort SliceStable
  by unfold_locales (auto intro: sorted_SliceStable)

section \<open>Decimal numbers\<close>

text \<open>The decimal digits of a number, as \<open>strconv.Itoa\<close> and \<open>%d\<close> print them.\<close>

fun showNat :: "nat \<Rightarrow> string" where
  "showNat n = (if n < 10 then [char_of (48 + n)] else showNat (n div 10) @ [char_of (48 + n mod 10)])"

declare showNat.simps [simp del]

end
