(* ===== verification/RBAC.thy ===== *)
theory RBAC
  imports OLM_Prelude
begin

text \<open>
  Role-based access control, as OLM uses it to decide whether a ClusterServiceVersion's
  permissions are already granted: the rule evaluation of
  \<open>pkg/lib/kubernetes/pkg/apis/rbac/v1/evaluation_helpers.go\<close>, the cover check and the
  compaction of \<open>.../registry/rbac/validation\<close>, the rule resolver \<open>rule.go\<close>, the
  authorizer \<open>plugin/pkg/auth/authorizer/rbac/rbac.go\<close>, and OLM's own
  \<open>CSVRuleChecker\<close> (\<open>pkg/controller/install/rule_checker.go\<close>, \<open>attributes_util.go\<close>)
  with the owner references of \<open>pkg/lib/ownerutil/util.go\<close>.

  Listers are arguments (the cluster's state is outside the program). Messages are
  constructors of an error datatype that carry the same arguments.
\<close>

section \<open>Policy rules and requests\<close>

record PolicyRule =
  Verbs :: "string list"
  APIGroups :: "string list"
  Resources :: "string list"
  ResourceNames :: "string list"
  NonResourceURLs :: "string list"

record UserInfo =
  UserName :: string
  UserUID :: string
  UserGroups :: "string list"

record Attributes =
  GetUser :: UserInfo
  GetVerb :: string
  GetNamespace :: string
  GetAPIGroup :: string
  GetResource :: string
  GetSubresource :: string
  GetName :: string
  IsResourceRequest :: bool
  GetPath :: string

abbreviation star :: string where
  "star \<equiv> ''*''"

abbreviation slash :: char where
  "slash \<equiv> CHR ''/''"

fun VerbMatches_loop :: "string list \<Rightarrow> string \<Rightarrow> bool" where
  "VerbMatches_loop [] requestedVerb = False"
| "VerbMatches_loop (ruleVerb # rest) requestedVerb =
     (if ruleVerb = star then True
      else if ruleVerb = requestedVerb then True
      else VerbMatches_loop rest requestedVerb)"

definition VerbMatches :: "PolicyRule \<Rightarrow> string \<Rightarrow> bool" where
  "VerbMatches rule requestedVerb = VerbMatches_loop (Verbs rule) requestedVerb"

fun APIGroupMatches_loop :: "string list \<Rightarrow> string \<Rightarrow> bool" where
  "APIGroupMatches_loop [] requestedGroup = False"
| "APIGroupMatches_loop (ruleGroup # rest) requestedGroup =
     (if ruleGroup = star then True
      else if ruleGroup = requestedGroup then True
      else APIGroupMatches_loop rest requestedGroup)"

definition APIGroupMatches :: "PolicyRule \<Rightarrow> string \<Rightarrow> bool" where
  "APIGroupMatches rule requestedGroup = APIGroupMatches_loop (APIGroups rule) requestedGroup"

fun ResourceMatches_loop :: "string list \<Rightarrow> string \<Rightarrow> string \<Rightarrow> bool" where
  "ResourceMatches_loop [] combined sub = False"
| "ResourceMatches_loop (ruleResource # rest) combined sub =
     (if ruleResource = star then True
      else if ruleResource = combined then True
      else if length sub = 0 then ResourceMatches_loop rest combined sub
      else if length ruleResource = length sub + 2 \<and> HasPrefix ruleResource ''*/''
              \<and> HasSuffix ruleResource sub then True
      else ResourceMatches_loop rest combined sub)"

definition ResourceMatches :: "PolicyRule \<Rightarrow> string \<Rightarrow> string \<Rightarrow> bool" where
  "ResourceMatches rule combined sub = ResourceMatches_loop (Resources rule) combined sub"

definition ResourceNameMatches :: "PolicyRule \<Rightarrow> string \<Rightarrow> bool" where
  "ResourceNameMatches rule requestedName =
     (if length (ResourceNames rule) = 0 then True
      else list_ex (\<lambda>ruleName. ruleName = requestedName) (ResourceNames rule))"

fun NonResourceURLMatches_loop :: "string list \<Rightarrow> string \<Rightarrow> bool" where
  "NonResourceURLMatches_loop [] requestedURL = False"
| "NonResourceURLMatches_loop (ruleURL # rest) requestedURL =
     (if ruleURL = star then True
      else if ruleURL = requestedURL then True
      else if HasSuffix ruleURL ''*'' \<and> HasPrefix requestedURL (TrimRight ruleURL CHR ''*'')
        then True
      else NonResourceURLMatches_loop rest requestedURL)"

definition NonResourceURLMatches :: "PolicyRule \<Rightarrow> string \<Rightarrow> bool" where
  "NonResourceURLMatches rule requestedURL =
     NonResourceURLMatches_loop (NonResourceURLs rule) requestedURL"

definition combinedResource :: "Attributes \<Rightarrow> string" where
  "combinedResource a =
     (if length (GetSubresource a) > 0 then GetResource a @ ''/'' @ GetSubresource a
      else GetResource a)"

definition RuleAllows :: "Attributes \<Rightarrow> PolicyRule \<Rightarrow> bool" where
  "RuleAllows a rule =
     (if IsResourceRequest a then
        VerbMatches rule (GetVerb a) \<and> APIGroupMatches rule (GetAPIGroup a)
        \<and> ResourceMatches rule (combinedResource a) (GetSubresource a)
        \<and> ResourceNameMatches rule (GetName a)
      else VerbMatches rule (GetVerb a) \<and> NonResourceURLMatches rule (GetPath a))"

fun RulesAllow :: "Attributes \<Rightarrow> PolicyRule list \<Rightarrow> bool" where
  "RulesAllow a [] = False"
| "RulesAllow a (rule # rules) = (if RuleAllows a rule then True else RulesAllow a rules)"

section \<open>The cover check (policy\_comparator.go)\<close>

fun has :: "string list \<Rightarrow> string \<Rightarrow> bool" where
  "has [] ele = False"
| "has (s # ss) ele = (if s = ele then True else has ss ele)"

definition hasAll :: "string list \<Rightarrow> string list \<Rightarrow> bool" where
  "hasAll owning contains = list_all (\<lambda>ele. ele \<in> set owning) contains"

fun resourceCoversAll_loop :: "string list \<Rightarrow> string list \<Rightarrow> bool" where
  "resourceCoversAll_loop setResources [] = True"
| "resourceCoversAll_loop setResources (path # paths) =
     (if has setResources path then resourceCoversAll_loop setResources paths
      else if slash \<notin> set path then False
      else if \<not> has setResources (''*/'' @ (SplitN2 slash path ! 1)) then False
      else resourceCoversAll_loop setResources paths)"

definition resourceCoversAll :: "string list \<Rightarrow> string list \<Rightarrow> bool" where
  "resourceCoversAll setResources coversResources =
     (if has setResources star \<or> hasAll setResources coversResources then True
      else resourceCoversAll_loop setResources coversResources)"

definition nonResourceURLCovers :: "string \<Rightarrow> string \<Rightarrow> bool" where
  "nonResourceURLCovers ownerPath subPath =
     (if ownerPath = subPath then True
      else HasSuffix ownerPath ''*'' \<and> HasPrefix subPath (TrimRight ownerPath CHR ''*''))"

definition nonResourceURLsCoversAll :: "string list \<Rightarrow> string list \<Rightarrow> bool" where
  "nonResourceURLsCoversAll owners covers =
     list_all (\<lambda>path. list_ex (\<lambda>ownr. nonResourceURLCovers ownr path) owners) covers"

definition ruleCovers :: "PolicyRule \<Rightarrow> PolicyRule \<Rightarrow> bool" where
  "ruleCovers ownerRule subRule =
     (let verbMatches = has (Verbs ownerRule) star \<or> hasAll (Verbs ownerRule) (Verbs subRule);
          groupMatches = has (APIGroups ownerRule) star
            \<or> hasAll (APIGroups ownerRule) (APIGroups subRule);
          resourceMatches = resourceCoversAll (Resources ownerRule) (Resources subRule);
          nonResourceURLMatches =
            nonResourceURLsCoversAll (NonResourceURLs ownerRule) (NonResourceURLs subRule);
          resourceNameMatches =
            (if length (ResourceNames subRule) = 0 then length (ResourceNames ownerRule) = 0
             else length (ResourceNames ownerRule) = 0
               \<or> hasAll (ResourceNames ownerRule) (ResourceNames subRule))
      in verbMatches \<and> groupMatches \<and> resourceMatches \<and> resourceNameMatches
         \<and> nonResourceURLMatches)"

definition resourceSubrules :: "PolicyRule \<Rightarrow> string \<Rightarrow> string \<Rightarrow> string \<Rightarrow> PolicyRule list" where
  "resourceSubrules rule grp resource verb =
     (if length (ResourceNames rule) > 0 then
        map (\<lambda>resourceName. \<lparr>Verbs = [verb], APIGroups = [grp], Resources = [resource],
               ResourceNames = [resourceName], NonResourceURLs = []\<rparr>) (ResourceNames rule)
      else [\<lparr>Verbs = [verb], APIGroups = [grp], Resources = [resource],
               ResourceNames = [], NonResourceURLs = []\<rparr>])"

definition BreakdownRule :: "PolicyRule \<Rightarrow> PolicyRule list" where
  "BreakdownRule rule =
     concat (map (\<lambda>grp. concat (map (\<lambda>resource.
       concat (map (\<lambda>verb. resourceSubrules rule grp resource verb) (Verbs rule)))
       (Resources rule))) (APIGroups rule))
     @ concat (map (\<lambda>nonResourceURL. map (\<lambda>verb.
         \<lparr>Verbs = [verb], APIGroups = [], Resources = [], ResourceNames = [],
          NonResourceURLs = [nonResourceURL]\<rparr>) (Verbs rule)) (NonResourceURLs rule))"

definition Covers :: "PolicyRule list \<Rightarrow> PolicyRule list \<Rightarrow> bool \<times> PolicyRule list" where
  "Covers ownerRules servantRules =
     (let subrules = concat (map BreakdownRule servantRules);
          uncoveredRules = filter (\<lambda>subrule.
            \<not> list_ex (\<lambda>ownerRule. ruleCovers ownerRule subrule) ownerRules) subrules
      in (length uncoveredRules = 0, uncoveredRules))"

section \<open>Compaction (policy\_compact.go)\<close>

record simpleResource =
  Group :: string
  Resource :: string
  ResourceNameExist :: bool
  ResourceName :: string

definition isSimpleResourceRule :: "PolicyRule \<Rightarrow> simpleResource option" where
  "isSimpleResourceRule rule =
     (if length (ResourceNames rule) > 1 \<or> length (NonResourceURLs rule) > 0 then None
      else if length (APIGroups rule) \<noteq> 1 \<or> length (Resources rule) \<noteq> 1 then None
      else if \<lparr>Verbs = Verbs rule, APIGroups = APIGroups rule, Resources = Resources rule,
               ResourceNames = ResourceNames rule, NonResourceURLs = []\<rparr> \<noteq> rule then None
      else if length (ResourceNames rule) = 0 then
        Some \<lparr>Group = APIGroups rule ! 0, Resource = Resources rule ! 0,
              ResourceNameExist = False, ResourceName = []\<rparr>
      else Some \<lparr>Group = APIGroups rule ! 0, Resource = Resources rule ! 0,
              ResourceNameExist = True, ResourceName = ResourceNames rule ! 0\<rparr>)"

text \<open>The map \<open>simpleRules\<close> is an association list; an update in place keeps the key's
  position, and the final range over the map takes its order from \<open>ord\<close>.\<close>

fun addSimple :: "simpleResource \<Rightarrow> PolicyRule \<Rightarrow> (simpleResource \<times> PolicyRule) list
    \<Rightarrow> (simpleResource \<times> PolicyRule) list" where
  "addSimple k rule [] = [(k, rule)]"
| "addSimple k rule ((k', existingRule) # m) =
     (if k' = k then (k', existingRule\<lparr>Verbs := Verbs existingRule @ Verbs rule\<rparr>) # m
      else (k', existingRule) # addSimple k rule m)"

fun CompactRules_loop :: "PolicyRule list \<Rightarrow> PolicyRule list
    \<Rightarrow> (simpleResource \<times> PolicyRule) list
    \<Rightarrow> PolicyRule list \<times> (simpleResource \<times> PolicyRule) list" where
  "CompactRules_loop [] compacted simpleRules = (compacted, simpleRules)"
| "CompactRules_loop (rule # rules) compacted simpleRules =
     (case isSimpleResourceRule rule of
        Some resource \<Rightarrow> CompactRules_loop rules compacted (addSimple resource rule simpleRules)
      | None \<Rightarrow> CompactRules_loop rules (compacted @ [rule]) simpleRules)"

definition CompactRules :: "((simpleResource \<times> PolicyRule) list \<Rightarrow> (simpleResource \<times> PolicyRule) list)
    \<Rightarrow> PolicyRule list \<Rightarrow> PolicyRule list" where
  "CompactRules ord rules =
     (let (compacted, simpleRules) = CompactRules_loop rules [] []
      in compacted @ map snd (ord simpleRules))"

section \<open>Facts about matching\<close>

lemma VerbMatches_iff [simp]:
  "VerbMatches rule v \<longleftrightarrow> star \<in> set (Verbs rule) \<or> v \<in> set (Verbs rule)"
proof -
  have "VerbMatches_loop vs v \<longleftrightarrow> star \<in> set vs \<or> v \<in> set vs" for vs
    by (induction vs) auto
  then show ?thesis by (simp add: VerbMatches_def)
qed

lemma APIGroupMatches_iff [simp]:
  "APIGroupMatches rule g \<longleftrightarrow> star \<in> set (APIGroups rule) \<or> g \<in> set (APIGroups rule)"
proof -
  have "APIGroupMatches_loop gs g \<longleftrightarrow> star \<in> set gs \<or> g \<in> set gs" for gs
    by (induction gs) auto
  then show ?thesis by (simp add: APIGroupMatches_def)
qed

lemma star_slash_suffix:
  "length r = length sub + 2 \<and> HasPrefix r ''*/'' \<and> HasSuffix r sub \<longleftrightarrow> r = ''*/'' @ sub"
proof
  assume a: "length r = length sub + 2 \<and> HasPrefix r ''*/'' \<and> HasSuffix r sub"
  then obtain p where p: "r = p @ sub" by (auto simp: HasSuffix_iff_suffix suffix_def)
  with a have "length p = 2" by simp
  moreover have "take 2 r = ''*/''" using a by (simp add: HasPrefix_def numeral_2_eq_2)
  ultimately show "r = ''*/'' @ sub" using p by simp
qed (auto simp: go_string suffix_def)

lemma ResourceMatches_iff [simp]:
  "ResourceMatches rule c sub \<longleftrightarrow> star \<in> set (Resources rule) \<or> c \<in> set (Resources rule)
     \<or> (sub \<noteq> [] \<and> ''*/'' @ sub \<in> set (Resources rule))"
proof -
  have "ResourceMatches_loop rs c sub \<longleftrightarrow> star \<in> set rs \<or> c \<in> set rs
      \<or> (sub \<noteq> [] \<and> ''*/'' @ sub \<in> set rs)" for rs
  proof (induction rs)
    case (Cons r rs)
    then show ?case unfolding ResourceMatches_loop.simps star_slash_suffix by auto
  qed simp
  then show ?thesis by (simp add: ResourceMatches_def)
qed

lemma ResourceNameMatches_iff [simp]:
  "ResourceNameMatches rule n \<longleftrightarrow> ResourceNames rule = [] \<or> n \<in> set (ResourceNames rule)"
  by (auto simp: ResourceNameMatches_def list_ex_iff)

lemma NonResourceURLMatches_iff:
  "NonResourceURLMatches rule u \<longleftrightarrow>
     (\<exists>r\<in>set (NonResourceURLs rule). r = star \<or> nonResourceURLCovers r u)"
proof -
  have "NonResourceURLMatches_loop rs u \<longleftrightarrow> (\<exists>r\<in>set rs. r = star \<or> nonResourceURLCovers r u)" for rs
    by (induction rs) (auto simp: nonResourceURLCovers_def)
  then show ?thesis by (simp add: NonResourceURLMatches_def)
qed

lemma nonResourceURLCovers_star: "nonResourceURLCovers star u"
  by (simp add: nonResourceURLCovers_def HasSuffix_def HasPrefix_def TrimRight_def)

lemma NonResourceURLMatches_covers [simp]:
  "NonResourceURLMatches rule u \<longleftrightarrow> (\<exists>r\<in>set (NonResourceURLs rule). nonResourceURLCovers r u)"
  using nonResourceURLCovers_star by (auto simp: NonResourceURLMatches_iff)

lemma RulesAllow_iff: "RulesAllow a rules \<longleftrightarrow> (\<exists>rule\<in>set rules. RuleAllows a rule)"
  by (induction rules) auto

lemma has_iff [simp]: "has ss e \<longleftrightarrow> e \<in> set ss"
  by (induction ss) auto

lemma hasAll_iff [simp]: "hasAll owning contains \<longleftrightarrow> set contains \<subseteq> set owning"
  by (auto simp: hasAll_def list_all_iff)

lemmas rule_match_defs = RuleAllows_def combinedResource_def

section \<open>Soundness of the cover check\<close>

lemma ruleCovers_iff:
  "ruleCovers ownr sub \<longleftrightarrow>
     (star \<in> set (Verbs ownr) \<or> set (Verbs sub) \<subseteq> set (Verbs ownr))
     \<and> (star \<in> set (APIGroups ownr) \<or> set (APIGroups sub) \<subseteq> set (APIGroups ownr))
     \<and> resourceCoversAll (Resources ownr) (Resources sub)
     \<and> (ResourceNames ownr = []
         \<or> ResourceNames sub \<noteq> [] \<and> set (ResourceNames sub) \<subseteq> set (ResourceNames ownr))
     \<and> (\<forall>p\<in>set (NonResourceURLs sub). \<exists>q\<in>set (NonResourceURLs ownr). nonResourceURLCovers q p)"
  by (auto simp: ruleCovers_def nonResourceURLsCoversAll_def list_all_iff list_ex_iff)

lemma resourceCoversAll_singleton:
  "resourceCoversAll rs [r] \<longleftrightarrow> star \<in> set rs \<or> r \<in> set rs
     \<or> slash \<in> set r \<and> ''*/'' @ (SplitN2 slash r ! 1) \<in> set rs"
  by (auto simp: resourceCoversAll_def)

lemma Covers_fst_iff:
  "fst (Covers ownr servant) \<longleftrightarrow>
     (\<forall>s\<in>set servant. \<forall>sub\<in>set (BreakdownRule s). \<exists>r\<in>set ownr. ruleCovers r sub)"
  by (auto simp: Covers_def Let_def filter_empty_conv list_ex_iff)

lemma Covers_snd_empty: "fst (Covers ownr servant) \<longleftrightarrow> snd (Covers ownr servant) = []"
  by (simp add: Covers_def Let_def)

lemma BreakdownRule_resource:
  assumes "g \<in> set (APIGroups s)" "r \<in> set (Resources s)" "v \<in> set (Verbs s)"
    and "if ResourceNames s = [] then ns = [] else (\<exists>n\<in>set (ResourceNames s). ns = [n])"
  shows "\<lparr>Verbs = [v], APIGroups = [g], Resources = [r], ResourceNames = ns,
           NonResourceURLs = []\<rparr> \<in> set (BreakdownRule s)"
  using assms by (fastforce simp: BreakdownRule_def resourceSubrules_def split: if_splits)

lemma BreakdownRule_url:
  assumes "u \<in> set (NonResourceURLs s)" "v \<in> set (Verbs s)"
  shows "\<lparr>Verbs = [v], APIGroups = [], Resources = [], ResourceNames = [],
           NonResourceURLs = [u]\<rparr> \<in> set (BreakdownRule s)"
  using assms by (auto simp: BreakdownRule_def)

text \<open>The resource pattern that matched the request is covered by a pattern of the owner
  that matches the request too.\<close>

lemma resource_cover_trans:
  assumes cov: "resourceCoversAll rs [r]"
    and plain: "slash \<notin> set (GetResource a)"
    and mat: "r = star \<or> r = combinedResource a
           \<or> GetSubresource a \<noteq> [] \<and> r = ''*/'' @ GetSubresource a"
  shows "star \<in> set rs \<or> combinedResource a \<in> set rs
           \<or> GetSubresource a \<noteq> [] \<and> ''*/'' @ GetSubresource a \<in> set rs"
proof -
  from cov consider "star \<in> set rs" | "r \<in> set rs"
    | "slash \<in> set r" "''*/'' @ (SplitN2 slash r ! 1) \<in> set rs"
    by (auto simp: resourceCoversAll_singleton)
  then show ?thesis
  proof cases
    case 3
    from mat 3(1) consider "r = combinedResource a" | "GetSubresource a \<noteq> []" "r = ''*/'' @ GetSubresource a"
      by auto
    then show ?thesis
    proof cases
      case 1
      with 3(1) plain have sub: "GetSubresource a \<noteq> []" and r: "r = GetResource a @ slash # GetSubresource a"
        by (auto simp: combinedResource_def split: if_splits)
      then show ?thesis using 3(2) SplitN2_append [OF plain] by simp
    next
      case 2
      then have "SplitN2 slash r = [star, GetSubresource a]"
        using SplitN2_append [of slash star "GetSubresource a"] by simp
      with 2 3(2) show ?thesis by simp
    qed
  qed (use mat in auto)
qed

lemma nonResourceURLCovers_trans:
  assumes "nonResourceURLCovers p q" "nonResourceURLCovers q u"
  shows "nonResourceURLCovers p u"
  using assms prefix_TrimRight [of p "CHR ''*''" q]
  unfolding nonResourceURLCovers_def go_string
  by (metis prefix_order.order_trans)

lemma Covers_allows:
  assumes cov: "fst (Covers ownerRules servantRules)"
    and plain: "slash \<notin> set (GetResource a)"
    and allow: "RulesAllow a servantRules"
  shows "RulesAllow a ownerRules"
proof -
  from allow obtain s where s: "s \<in> set servantRules" and al: "RuleAllows a s"
    by (auto simp: RulesAllow_iff)
  have covered: "\<exists>r\<in>set ownerRules. ruleCovers r sub" if "sub \<in> set (BreakdownRule s)" for sub
    using cov s that by (auto simp: Covers_fst_iff)
  from al obtain v where v: "v \<in> set (Verbs s)" "v = star \<or> v = GetVerb a"
    by (auto simp: RuleAllows_def split: if_splits)
  show ?thesis
  proof (cases "IsResourceRequest a")
    case True
    with al obtain g r where g: "g \<in> set (APIGroups s)" "g = star \<or> g = GetAPIGroup a"
      and r: "r \<in> set (Resources s)" "r = star \<or> r = combinedResource a
           \<or> GetSubresource a \<noteq> [] \<and> r = ''*/'' @ GetSubresource a"
      by (auto simp: RuleAllows_def)
    define ns where "ns = (if ResourceNames s = [] then [] else [GetName a])"
    have ns: "if ResourceNames s = [] then ns = [] else (\<exists>n\<in>set (ResourceNames s). ns = [n])"
      using al True by (auto simp: ns_def RuleAllows_def)
    from covered [OF BreakdownRule_resource [OF g(1) r(1) v(1) ns]]
    obtain w where w: "w \<in> set ownerRules" and c: "ruleCovers w \<lparr>Verbs = [v], APIGroups = [g],
        Resources = [r], ResourceNames = ns, NonResourceURLs = []\<rparr>" by blast
    have "resourceCoversAll (Resources w) [r]" using c by (simp add: ruleCovers_iff)
    from resource_cover_trans [OF this plain r(2)] have "RuleAllows a w"
      using c v(2) g(2) True by (auto simp: RuleAllows_def ruleCovers_iff ns_def split: if_splits)
    with w show ?thesis by (auto simp: RulesAllow_iff)
  next
    case False
    with al obtain u where u: "u \<in> set (NonResourceURLs s)" "nonResourceURLCovers u (GetPath a)"
      by (auto simp: RuleAllows_def)
    from covered [OF BreakdownRule_url [OF u(1) v(1)]]
    obtain w q where w: "w \<in> set ownerRules" and q: "q \<in> set (NonResourceURLs w)" "nonResourceURLCovers q u"
      and vs: "star \<in> set (Verbs w) \<or> v \<in> set (Verbs w)"
      by (auto simp: ruleCovers_iff)
    from nonResourceURLCovers_trans [OF q(2) u(2)] have "RuleAllows a w"
      using q(1) vs v(2) False by (auto simp: RuleAllows_def)
    with w show ?thesis by (auto simp: RulesAllow_iff)
  qed
qed

text \<open>A request may carry its subresource in its resource, as the attributes that OLM builds from a
  rule do (\<open>attributesRecord\<close>). The same request with the two apart is allowed by every rule that
  allows the request as it is.\<close>

definition separated :: "Attributes \<Rightarrow> Attributes" where
  "separated a = (case SplitN2 slash (GetResource a) of
     [r, s] \<Rightarrow> if GetSubresource a = [] \<and> s \<noteq> [] then a\<lparr>GetResource := r, GetSubresource := s\<rparr> else a
   | _ \<Rightarrow> a)"

lemma separated_plain: "slash \<notin> set (GetResource a) \<Longrightarrow> separated a = a"
  by (simp add: separated_def SplitN2_def)

lemma separated_joined:
  "GetSubresource a = [] \<Longrightarrow> GetResource a = r @ slash # s \<Longrightarrow> slash \<notin> set r \<Longrightarrow> s \<noteq> []
    \<Longrightarrow> separated a = a\<lparr>GetResource := r, GetSubresource := s\<rparr>"
  by (simp add: separated_def SplitN2_append)

lemma separated_allows: "RuleAllows a rule \<Longrightarrow> RuleAllows (separated a) rule"
proof (cases "slash \<in> set (GetResource a) \<and> GetSubresource a = []")
  case True
  assume allow: "RuleAllows a rule"
  from True obtain r s where r: "GetResource a = r @ slash # s" "slash \<notin> set r" by (meson split_list_first)
  show ?thesis
  proof (cases "s = []")
    case False
    with True r have "separated a = a\<lparr>GetResource := r, GetSubresource := s\<rparr>" by (simp add: separated_joined)
    with allow True r False show ?thesis by (auto simp: rule_match_defs)
  qed (use allow r in \<open>simp add: separated_def SplitN2_append\<close>)
qed (auto simp: separated_def SplitN2_def split: list.split)

text \<open>C14. If the cover check accepts, every request that some servant rule allows is allowed by some
  owner rule, for requests whose resource has no slash, as those of the API server have it. A
  request that carries its subresource in the resource, as OLM's own attributes do, is allowed to
  the owner once it is read with the two apart.\<close>

theorem Covers_sound:
  assumes "fst (Covers ownerRules servantRules)" "RulesAllow a servantRules" "slash \<notin> set (GetResource (separated a))"
  shows "RulesAllow (separated a) ownerRules \<and> (slash \<notin> set (GetResource a) \<longrightarrow> RulesAllow a ownerRules)"
proof -
  have "RulesAllow (separated a) servantRules" using assms(2) separated_allows by (auto simp: RulesAllow_iff)
  from Covers_allows [OF assms(1,3) this] have "RulesAllow (separated a) ownerRules" .
  then show ?thesis using separated_plain [of a] by auto
qed

definition podReader :: PolicyRule where
  "podReader = \<lparr>Verbs = [''get'', ''list''], APIGroups = [''''], Resources = [''pods'', ''pods/log''],
     ResourceNames = [], NonResourceURLs = []\<rparr>"

definition podAdmin :: PolicyRule where
  "podAdmin = \<lparr>Verbs = [star], APIGroups = [''''], Resources = [''pods'', ''*/log''],
     ResourceNames = [], NonResourceURLs = []\<rparr>"

definition getLog :: Attributes where
  "getLog = \<lparr>GetUser = \<lparr>UserName = ''u'', UserUID = '''', UserGroups = []\<rparr>, GetVerb = ''get'',
     GetNamespace = ''ns'', GetAPIGroup = '''', GetResource = ''pods'', GetSubresource = ''log'',
     GetName = ''p'', IsResourceRequest = True, GetPath = ''''\<rparr>"

definition joinedLog :: Attributes where
  "joinedLog = getLog\<lparr>GetResource := ''pods/log'', GetSubresource := []\<rparr>"

theorem Covers_sound_witness: "RulesAllow getLog [podAdmin] \<and> RulesAllow (separated joinedLog) [podAdmin]"
proof -
  have cov: "fst (Covers [podAdmin] [podReader])" by code_simp
  have "RulesAllow getLog [podReader]" "slash \<notin> set (GetResource (separated getLog))" "slash \<notin> set (GetResource getLog)" by code_simp+
  moreover have "RulesAllow joinedLog [podReader]" "slash \<notin> set (GetResource (separated joinedLog))" by code_simp+
  ultimately show ?thesis using Covers_sound [OF cov] by blast
qed

text \<open>The separation matters: the owner's rule does not allow the request as OLM builds it.\<close>

lemma Covers_joined: "fst (Covers [podAdmin] [podReader]) \<and> RulesAllow joinedLog [podReader] \<and> \<not> RulesAllow joinedLog [podAdmin]"
  by code_simp

section \<open>Compaction keeps the granted requests\<close>

lemma isSimple_fields:
  assumes "isSimpleResourceRule rule = Some k"
  shows "APIGroups rule = [Group k]" "Resources rule = [Resource k]" "NonResourceURLs rule = []"
    "ResourceNames rule = (if ResourceNameExist k then [ResourceName k] else [])"
proof -
  have one: "xs = [xs ! 0]" if "length xs = 1" for xs :: "string list"
    using that by (cases xs) auto
  have "ResourceNames rule = [] \<or> length (ResourceNames rule) = 1"
    using assms by (cases "ResourceNames rule") (auto simp: isSimpleResourceRule_def split: if_splits)
  then show "APIGroups rule = [Group k]" "Resources rule = [Resource k]" "NonResourceURLs rule = []"
    "ResourceNames rule = (if ResourceNameExist k then [ResourceName k] else [])"
    using assms one by (auto simp: isSimpleResourceRule_def split: if_splits)
qed

text \<open>Every entry of the map of simple rules has the shape of its key.\<close>

definition keyed :: "(simpleResource \<times> PolicyRule) list \<Rightarrow> bool" where
  "keyed m \<longleftrightarrow> (\<forall>(k, r)\<in>set m. isSimpleResourceRule r = Some k)"

lemma isSimple_verbs [simp]:
  "isSimpleResourceRule (r\<lparr>Verbs := vs\<rparr>) = isSimpleResourceRule r"
  by (cases r) (simp add: isSimpleResourceRule_def)

lemma RuleAllows_append_verbs:
  assumes "isSimpleResourceRule r = Some k" "isSimpleResourceRule r' = Some k"
  shows "RuleAllows a (r\<lparr>Verbs := Verbs r @ Verbs r'\<rparr>) \<longleftrightarrow> RuleAllows a r \<or> RuleAllows a r'"
  using isSimple_fields [OF assms(1)] isSimple_fields [OF assms(2)]
  by (auto simp: RuleAllows_def)

lemma addSimple_keyed:
  "keyed m \<Longrightarrow> isSimpleResourceRule r = Some k \<Longrightarrow> keyed (addSimple k r m)"
  by (induction k r m rule: addSimple.induct) (auto simp: keyed_def)

lemma addSimple_allows:
  "keyed m \<Longrightarrow> isSimpleResourceRule r = Some k \<Longrightarrow>
   RulesAllow a (map snd (addSimple k r m)) \<longleftrightarrow> RuleAllows a r \<or> RulesAllow a (map snd m)"
  by (induction k r m rule: addSimple.induct) (auto simp: keyed_def RuleAllows_append_verbs)

lemma RulesAllow_append [simp]: "RulesAllow a (xs @ ys) \<longleftrightarrow> RulesAllow a xs \<or> RulesAllow a ys"
  by (auto simp: RulesAllow_iff)

lemma CompactRules_loop_allows:
  assumes "keyed m" "CompactRules_loop rules acc m = (acc', m')"
  shows "keyed m' \<and> (RulesAllow a (acc' @ map snd m') \<longleftrightarrow>
           RulesAllow a rules \<or> RulesAllow a (acc @ map snd m))"
  using assms
  by (induction rules acc m rule: CompactRules_loop.induct)
    (auto simp: addSimple_keyed addSimple_allows split: option.splits)

text \<open>C15. Compacting a rule list, in whatever order Go ranges over its map of simple
  rules, allows exactly the requests the list allows.\<close>

theorem CompactRules_equiv:
  assumes "\<And>m. set (ord m) = set m"
  shows "RulesAllow a (CompactRules ord rules) \<longleftrightarrow> RulesAllow a rules"
proof -
  obtain acc' m' where l: "CompactRules_loop rules [] [] = (acc', m')" by fastforce
  have "RulesAllow a (acc' @ map snd m') \<longleftrightarrow> RulesAllow a rules"
    using CompactRules_loop_allows [OF _ l, of a] by (simp add: keyed_def)
  then show ?thesis using assms l by (auto simp: CompactRules_def RulesAllow_iff)
qed

theorem CompactRules_equiv_witness:
  "RulesAllow getLog (CompactRules rev [podReader, podAdmin]) \<longleftrightarrow> RulesAllow getLog [podReader, podAdmin]"
  by (rule CompactRules_equiv) simp

end
