(* ===== verification/Ownerutil.thy ===== *)
theory Ownerutil
  imports OLM_Prelude "HOL-Library.AList"
begin

text \<open>
  Ownership of Kubernetes objects, \<open>pkg/lib/ownerutil/util.go\<close>: owner references, the
  labels that stand in for them across namespaces, and the checks built on both.

  An object carries the dynamic Go type that \<open>InferGroupVersionKind\<close> switches on, its
  TypeMeta (a group, version and kind, empty until inferred), its name, namespace and UID,
  its owner references and its labels (\<open>None\<close> for a nil
  map, otherwise an association list).  Functions that mutate an
  object return it.
\<close>

section \<open>Objects\<close>

record GVK =
  GVK_Group :: string
  GVK_Version :: string
  GVK_Kind :: string

record OwnerReference =
  Oref_APIVersion :: string
  Oref_Kind :: string
  Oref_Name :: string
  Oref_UID :: string
  Oref_Controller :: "bool option"
  Oref_BlockOwnerDeletion :: "bool option"

datatype GoType = T_Service | T_ServiceAccount | T_ConfigMap | T_Secret | T_ClusterRole
  | T_ClusterRoleBinding | T_Role | T_RoleBinding | T_ClusterServiceVersion | T_InstallPlan
  | T_Subscription | T_CatalogSource | T_OperatorGroup | T_OperatorCondition | T_APIService
  | T_CRDv1beta1 | T_CRDv1 | T_Other

record Object =
  Obj_Type :: GoType
  Obj_GVK :: GVK
  Obj_Name :: string
  Obj_Namespace :: string
  Obj_UID :: string
  Obj_OwnerReferences :: "OwnerReference list"
  Obj_Labels :: "(string \<times> string) list option"

definition gvk_empty :: "GVK \<Rightarrow> bool" where
  "gvk_empty g \<longleftrightarrow> GVK_Group g = [] \<and> GVK_Version g = [] \<and> GVK_Kind g = []"

definition gvk_apiVersion :: "GVK \<Rightarrow> string" where
  "gvk_apiVersion g =
     (if gvk_empty g then []
      else if length (GVK_Group g) > 0 then GVK_Group g @ ''/'' @ GVK_Version g
      else GVK_Version g)"

abbreviation OwnerKey :: string where
  "OwnerKey \<equiv> ''olm.owner''"

abbreviation OwnerNamespaceKey :: string where
  "OwnerNamespaceKey \<equiv> ''olm.owner.namespace''"

abbreviation OwnerKind :: string where
  "OwnerKind \<equiv> ''olm.owner.kind''"

text \<open>A read of a missing key of a \<open>map[string]string\<close> gives the empty string.\<close>

definition lbl :: "(string \<times> string) list \<Rightarrow> string \<Rightarrow> string" where
  "lbl m k = (case map_of m k of None \<Rightarrow> [] | Some v \<Rightarrow> v)"

section \<open>Type inference\<close>

fun gvkOfType :: "GoType \<Rightarrow> GVK option" where
  "gvkOfType T_Service = Some \<lparr>GVK_Group = '''', GVK_Version = ''v1'', GVK_Kind = ''Service''\<rparr>"
| "gvkOfType T_ServiceAccount =
     Some \<lparr>GVK_Group = '''', GVK_Version = ''v1'', GVK_Kind = ''ServiceAccount''\<rparr>"
| "gvkOfType T_ConfigMap = Some \<lparr>GVK_Group = '''', GVK_Version = ''v1'', GVK_Kind = ''ConfigMap''\<rparr>"
| "gvkOfType T_Secret = Some \<lparr>GVK_Group = '''', GVK_Version = ''v1'', GVK_Kind = ''Secret''\<rparr>"
| "gvkOfType T_ClusterRole = Some \<lparr>GVK_Group = ''rbac.authorization.k8s.io'',
     GVK_Version = ''v1'', GVK_Kind = ''ClusterRole''\<rparr>"
| "gvkOfType T_ClusterRoleBinding = Some \<lparr>GVK_Group = ''rbac.authorization.k8s.io'',
     GVK_Version = ''v1'', GVK_Kind = ''ClusterRoleBinding''\<rparr>"
| "gvkOfType T_Role = Some \<lparr>GVK_Group = ''rbac.authorization.k8s.io'',
     GVK_Version = ''v1'', GVK_Kind = ''Role''\<rparr>"
| "gvkOfType T_RoleBinding = Some \<lparr>GVK_Group = ''rbac.authorization.k8s.io'',
     GVK_Version = ''v1'', GVK_Kind = ''RoleBinding''\<rparr>"
| "gvkOfType T_ClusterServiceVersion = Some \<lparr>GVK_Group = ''operators.coreos.com'',
     GVK_Version = ''v1alpha1'', GVK_Kind = ''ClusterServiceVersion''\<rparr>"
| "gvkOfType T_InstallPlan = Some \<lparr>GVK_Group = ''operators.coreos.com'',
     GVK_Version = ''v1alpha1'', GVK_Kind = ''InstallPlan''\<rparr>"
| "gvkOfType T_Subscription = Some \<lparr>GVK_Group = ''operators.coreos.com'',
     GVK_Version = ''v1alpha1'', GVK_Kind = ''Subscription''\<rparr>"
| "gvkOfType T_CatalogSource = Some \<lparr>GVK_Group = ''operators.coreos.com'',
     GVK_Version = ''v1alpha1'', GVK_Kind = ''CatalogSource''\<rparr>"
| "gvkOfType T_OperatorGroup = Some \<lparr>GVK_Group = ''operators.coreos.com'',
     GVK_Version = ''v1'', GVK_Kind = ''OperatorGroup''\<rparr>"
| "gvkOfType T_OperatorCondition = Some \<lparr>GVK_Group = ''operators.coreos.com'',
     GVK_Version = ''v2'', GVK_Kind = ''OperatorCondition''\<rparr>"
| "gvkOfType T_APIService = Some \<lparr>GVK_Group = ''apiregistration.k8s.io'',
     GVK_Version = ''v1'', GVK_Kind = ''APIService''\<rparr>"
| "gvkOfType T_CRDv1beta1 = Some \<lparr>GVK_Group = ''apiextensions.k8s.io'',
     GVK_Version = ''v1beta1'', GVK_Kind = ''CustomResourceDefinition''\<rparr>"
| "gvkOfType T_CRDv1 = Some \<lparr>GVK_Group = ''apiextensions.k8s.io'',
     GVK_Version = ''v1'', GVK_Kind = ''CustomResourceDefinition''\<rparr>"
| "gvkOfType T_Other = None"

text \<open>The result is the error flag and the object, whose TypeMeta is set where inferred.\<close>

definition InferGroupVersionKind :: "Object \<Rightarrow> bool \<times> Object" where
  "InferGroupVersionKind obj =
     (if \<not> gvk_empty (Obj_GVK obj) then (True, obj)
      else case gvkOfType (Obj_Type obj) of
             Some g \<Rightarrow> (True, obj\<lparr>Obj_GVK := g\<rparr>)
           | None \<Rightarrow> (False, obj))"

section \<open>Ownership checks\<close>

definition IsOwnedBy :: "Object \<Rightarrow> Object \<Rightarrow> bool" where
  "IsOwnedBy obj ownr = list_ex (\<lambda>oref. Oref_UID oref = Obj_UID ownr) (Obj_OwnerReferences obj)"

definition IsOwnedByKind :: "Object \<Rightarrow> string \<Rightarrow> bool" where
  "IsOwnedByKind obj ownerKind =
     list_ex (\<lambda>oref. Oref_Kind oref = ownerKind) (Obj_OwnerReferences obj)"

definition GetOwnerByKind :: "Object \<Rightarrow> string \<Rightarrow> OwnerReference option" where
  "GetOwnerByKind obj ownerKind =
     find (\<lambda>oref. Oref_Kind oref = ownerKind) (Obj_OwnerReferences obj)"

definition GetOwnersByKind :: "Object \<Rightarrow> string \<Rightarrow> OwnerReference list" where
  "GetOwnersByKind obj ownerKind =
     filter (\<lambda>oref. Oref_Kind oref = ownerKind) (Obj_OwnerReferences obj)"

definition IsOwnedByKindLabel :: "Object \<Rightarrow> string \<Rightarrow> bool" where
  "IsOwnedByKindLabel obj ownerKind =
     (case Obj_Labels obj of None \<Rightarrow> False | Some m \<Rightarrow> lbl m OwnerKind = ownerKind)"

definition GetOwnerByKindLabel :: "Object \<Rightarrow> string \<Rightarrow> string \<times> string \<times> bool" where
  "GetOwnerByKindLabel obj ownerKind =
     (if \<not> IsOwnedByKindLabel obj ownerKind then ([], [], False)
      else case Obj_Labels obj of
             None \<Rightarrow> ([], [], False)
           | Some m \<Rightarrow>
               (case map_of m OwnerNamespaceKey of
                  None \<Rightarrow> ([], [], False)
                | Some namespace \<Rightarrow>
                    (case map_of m OwnerKey of
                       None \<Rightarrow> ([], namespace, False)
                     | Some name \<Rightarrow> (name, namespace, True))))"

definition IsOwnedByLabel :: "Object \<Rightarrow> Object \<Rightarrow> bool" where
  "IsOwnedByLabel obj ownr =
     (case GetOwnerByKindLabel obj (GVK_Kind (Obj_GVK ownr)) of
        (name, namespace, ok) \<Rightarrow>
          if \<not> ok then False
          else namespace = Obj_Namespace ownr \<and> name = Obj_Name ownr)"

fun HasOwnerConflict_loop :: "Object \<Rightarrow> OwnerReference list \<Rightarrow> bool \<Rightarrow> bool" where
  "HasOwnerConflict_loop target [] conflicts = conflicts"
| "HasOwnerConflict_loop target (ownr # owners) conflicts =
     (if Oref_Kind ownr = GVK_Kind (Obj_GVK target)
         \<and> Oref_APIVersion ownr = GVK_Version (Obj_GVK target) then
        (if Oref_Name ownr = Obj_Name target \<and> Oref_UID ownr = Obj_UID target then False
         else HasOwnerConflict_loop target owners True)
      else HasOwnerConflict_loop target owners conflicts)"

definition HasOwnerConflict :: "Object \<Rightarrow> OwnerReference list \<Rightarrow> bool" where
  "HasOwnerConflict target owners =
     HasOwnerConflict_loop (snd (InferGroupVersionKind target)) owners False"

definition Adoptable :: "Object \<Rightarrow> OwnerReference list \<Rightarrow> bool" where
  "Adoptable target owners =
     (if length owners = 0 then False
      else let target' = snd (InferGroupVersionKind target)
           in list_ex (\<lambda>ownr. Oref_Kind ownr = GVK_Kind (Obj_GVK target')) owners)"

definition AdoptableLabels :: "(string \<times> string) list option \<Rightarrow> bool \<Rightarrow> Object list \<Rightarrow> bool" where
  "AdoptableLabels labels checkName targets =
     (case labels of
        None \<Rightarrow> False
      | Some m \<Rightarrow>
          if length m = 0 then False
          else list_ex (\<lambda>t. let target = snd (InferGroupVersionKind t) in
                 lbl m OwnerKind = GVK_Kind (Obj_GVK target)
                 \<and> lbl m OwnerNamespaceKey = Obj_Namespace target
                 \<and> (\<not> checkName \<or> lbl m OwnerKey = Obj_Name target)) targets)"

section \<open>Adding owners\<close>

definition NonBlockingOwner :: "Object \<Rightarrow> OwnerReference" where
  "NonBlockingOwner ownr =
     (let ownr' = snd (InferGroupVersionKind ownr)
      in \<lparr>Oref_APIVersion = gvk_apiVersion (Obj_GVK ownr'), Oref_Kind = GVK_Kind (Obj_GVK ownr'),
          Oref_Name = Obj_Name ownr', Oref_UID = Obj_UID ownr',
          Oref_Controller = Some False, Oref_BlockOwnerDeletion = Some False\<rparr>)"

definition same_owner :: "OwnerReference \<Rightarrow> OwnerReference \<Rightarrow> bool" where
  "same_owner r s \<longleftrightarrow>
     Oref_Kind r = Oref_Kind s \<and> Oref_Name r = Oref_Name s \<and> Oref_UID r = Oref_UID s"

definition AddNonBlockingOwner :: "Object \<Rightarrow> Object \<Rightarrow> Object" where
  "AddNonBlockingOwner obj ownr =
     (let nonBlockingOwner = NonBlockingOwner ownr
      in if list_ex (\<lambda>item. same_owner item nonBlockingOwner) (Obj_OwnerReferences obj) then obj
         else obj\<lparr>Obj_OwnerReferences := Obj_OwnerReferences obj @ [nonBlockingOwner]\<rparr>)"

definition AddOwner :: "Object \<Rightarrow> Object \<Rightarrow> bool \<Rightarrow> bool \<Rightarrow> Object" where
  "AddOwner obj ownr blockOwnerDeletion isController =
     (let ownr' = snd (InferGroupVersionKind ownr);
          ownerRef = \<lparr>Oref_APIVersion = gvk_apiVersion (Obj_GVK ownr'),
            Oref_Kind = GVK_Kind (Obj_GVK ownr'), Oref_Name = Obj_Name ownr',
            Oref_UID = Obj_UID ownr', Oref_Controller = Some isController,
            Oref_BlockOwnerDeletion = Some blockOwnerDeletion\<rparr>
      in if list_ex (\<lambda>ref. same_owner ref ownerRef) (Obj_OwnerReferences obj) then obj
         else obj\<lparr>Obj_OwnerReferences := Obj_OwnerReferences obj @ [ownerRef]\<rparr>)"

definition EnsureOwner :: "Object \<Rightarrow> Object \<Rightarrow> bool \<times> Object" where
  "EnsureOwner obj ownr =
     (if IsOwnedBy obj ownr then (True, obj) else (False, AddNonBlockingOwner obj ownr))"

definition OwnerLabel :: "Object \<Rightarrow> string \<Rightarrow> (string \<times> string) list" where
  "OwnerLabel ownr kind =
     [(OwnerKey, Obj_Name ownr), (OwnerNamespaceKey, Obj_Namespace ownr), (OwnerKind, kind)]"

definition AddOwnerLabelsForKind :: "Object \<Rightarrow> Object \<Rightarrow> string \<Rightarrow> Object" where
  "AddOwnerLabelsForKind obj ownr kind =
     (let labels = (case Obj_Labels obj of None \<Rightarrow> [] | Some m \<Rightarrow> m)
      in obj\<lparr>Obj_Labels := Some (fold (\<lambda>(key, val). AList.update key val) (OwnerLabel ownr kind) labels)\<rparr>)"

definition AddOwnerLabels :: "Object \<Rightarrow> Object \<Rightarrow> (Object \<times> Object) option" where
  "AddOwnerLabels obj ownr =
     (case InferGroupVersionKind ownr of
        (ok, ownr') \<Rightarrow>
          if \<not> ok then None
          else Some (AddOwnerLabelsForKind obj ownr' (GVK_Kind (Obj_GVK ownr')), ownr'))"

section \<open>Facts about inference\<close>

lemma Infer_frame [simp]:
  "Obj_Name (snd (InferGroupVersionKind x)) = Obj_Name x"
  "Obj_Namespace (snd (InferGroupVersionKind x)) = Obj_Namespace x"
  "Obj_UID (snd (InferGroupVersionKind x)) = Obj_UID x"
  by (auto simp: InferGroupVersionKind_def split: option.splits)

lemma Infer_idem [simp]:
  "InferGroupVersionKind (snd (InferGroupVersionKind x)) = InferGroupVersionKind x"
proof -
  have ne: "\<not> gvk_empty g" if "gvkOfType t = Some g" for t g
    using that by (cases t) (auto simp: gvk_empty_def)
  show ?thesis
    by (cases "gvkOfType (Obj_Type x)") (auto simp: InferGroupVersionKind_def dest: ne)
qed

lemma Infer_ok_nonempty:
  assumes "InferGroupVersionKind x = (True, y)"
  shows "\<not> gvk_empty (Obj_GVK y)"
proof -
  have "\<not> gvk_empty g" if "gvkOfType t = Some g" for t g
    using that by (cases t) (auto simp: gvk_empty_def)
  then show ?thesis using assms
    by (auto simp: InferGroupVersionKind_def split: if_splits option.splits)
qed

section \<open>Owner references\<close>

lemma HasOwnerConflict_loop_iff:
  "HasOwnerConflict_loop t rs c \<longleftrightarrow>
     (c \<or> (\<exists>r\<in>set rs. Oref_Kind r = GVK_Kind (Obj_GVK t) \<and> Oref_APIVersion r = GVK_Version (Obj_GVK t)))
     \<and> \<not> (\<exists>r\<in>set rs. Oref_Kind r = GVK_Kind (Obj_GVK t) \<and> Oref_APIVersion r = GVK_Version (Obj_GVK t)
            \<and> Oref_Name r = Obj_Name t \<and> Oref_UID r = Obj_UID t)"
  by (induction t rs c rule: HasOwnerConflict_loop.induct) auto

lemma IsOwnedBy_AddNonBlockingOwner:
  "IsOwnedBy (AddNonBlockingOwner x w) w"
  by (auto simp: AddNonBlockingOwner_def IsOwnedBy_def NonBlockingOwner_def same_owner_def
      list_ex_iff Let_def)

text \<open>Ensuring an owner establishes ownership, keeps every reference the object had, in
  order, and adds at most one; a second call finds the owner and changes nothing.\<close>

lemma EnsureOwner_establishes:
  assumes "EnsureOwner obj ownr = (had, obj')"
  shows "IsOwnedBy obj' ownr \<and> EnsureOwner obj' ownr = (True, obj') \<and> (had \<longleftrightarrow> IsOwnedBy obj ownr)
    \<and> (\<exists>new. Obj_OwnerReferences obj' = Obj_OwnerReferences obj @ new \<and> length new \<le> 1)"
proof (intro conjI)
  show own: "IsOwnedBy obj' ownr"
    using assms IsOwnedBy_AddNonBlockingOwner by (auto simp: EnsureOwner_def split: if_splits)
  then show "EnsureOwner obj' ownr = (True, obj')" by (simp add: EnsureOwner_def)
  show "had \<longleftrightarrow> IsOwnedBy obj ownr"
    using assms by (auto simp: EnsureOwner_def split: if_splits)
  show "\<exists>new. Obj_OwnerReferences obj' = Obj_OwnerReferences obj @ new \<and> length new \<le> 1"
    using assms by (auto simp: EnsureOwner_def AddNonBlockingOwner_def Let_def split: if_splits)
qed

definition csvObject :: "string \<Rightarrow> string \<Rightarrow> Object" where
  "csvObject name uid = \<lparr>Obj_Type = T_ClusterServiceVersion,
     Obj_GVK = \<lparr>GVK_Group = '''', GVK_Version = '''', GVK_Kind = ''''\<rparr>,
     Obj_Name = name, Obj_Namespace = ''ns'', Obj_UID = uid, Obj_OwnerReferences = [],
     Obj_Labels = None\<rparr>"

lemma EnsureOwner_establishes_witness:
  "IsOwnedBy (snd (EnsureOwner (csvObject ''a'' ''1'') (csvObject ''b'' ''2''))) (csvObject ''b'' ''2'')"
  using EnsureOwner_establishes [where had = "fst (EnsureOwner (csvObject ''a'' ''1'') (csvObject ''b'' ''2''))"]
  by (metis prod.collapse)

section \<open>Owner labels\<close>

lemma map_of_OwnerLabel:
  "map_of (fold (\<lambda>(key, val). AList.update key val) (OwnerLabel w k) m)
     = (map_of m)(OwnerKey \<mapsto> Obj_Name w, OwnerNamespaceKey \<mapsto> Obj_Namespace w, OwnerKind \<mapsto> k)"
  by (simp add: OwnerLabel_def AList.update_conv')

text \<open>The labels written for an owner read back as that owner: the owner's name and
  namespace, ownership by label, and adoption by that owner, also with the name checked.\<close>

lemma AddOwnerLabels_roundtrip:
  assumes "AddOwnerLabels obj ownr = Some (obj', ownr')"
  shows "GetOwnerByKindLabel obj' (GVK_Kind (Obj_GVK ownr')) = (Obj_Name ownr, Obj_Namespace ownr, True)
    \<and> IsOwnedByLabel obj' ownr' \<and> AdoptableLabels (Obj_Labels obj') checkName [ownr]"
proof -
  define m where "m = fold (\<lambda>(key, val). AList.update key val)
    (OwnerLabel ownr' (GVK_Kind (Obj_GVK ownr'))) (case Obj_Labels obj of None \<Rightarrow> [] | Some m \<Rightarrow> m)"
  have ownr': "ownr' = snd (InferGroupVersionKind ownr)" and lab: "Obj_Labels obj' = Some m"
    using assms by (auto simp: AddOwnerLabels_def AddOwnerLabelsForKind_def m_def split: prod.splits if_splits)
  have m: "map_of m OwnerKind = Some (GVK_Kind (Obj_GVK ownr'))"
    "map_of m OwnerNamespaceKey = Some (Obj_Namespace ownr)" "map_of m OwnerKey = Some (Obj_Name ownr)"
    by (simp_all add: m_def map_of_OwnerLabel ownr')
  then have "m \<noteq> []" by auto
  have get: "GetOwnerByKindLabel obj' (GVK_Kind (Obj_GVK ownr')) = (Obj_Name ownr, Obj_Namespace ownr, True)"
    using m lab by (simp add: GetOwnerByKindLabel_def IsOwnedByKindLabel_def lbl_def)
  moreover from this have "IsOwnedByLabel obj' ownr'" by (simp add: IsOwnedByLabel_def ownr')
  moreover have "AdoptableLabels (Obj_Labels obj') checkName [ownr]"
    using m lab \<open>m \<noteq> []\<close> by (simp add: AdoptableLabels_def lbl_def ownr')
  ultimately show ?thesis by blast
qed

lemma AddOwnerLabels_roundtrip_witness:
  "IsOwnedByLabel (fst (the (AddOwnerLabels (csvObject ''a'' ''1'') (csvObject ''b'' ''2''))))
     (snd (the (AddOwnerLabels (csvObject ''a'' ''1'') (csvObject ''b'' ''2''))))"
proof -
  have "AddOwnerLabels (csvObject ''a'' ''1'') (csvObject ''b'' ''2'') =
    Some (fst (the (AddOwnerLabels (csvObject ''a'' ''1'') (csvObject ''b'' ''2''))),
          snd (the (AddOwnerLabels (csvObject ''a'' ''1'') (csvObject ''b'' ''2''))))"
    by (simp add: AddOwnerLabels_def InferGroupVersionKind_def csvObject_def gvk_empty_def)
  from AddOwnerLabels_roundtrip [OF this] show ?thesis by blast
qed

section \<open>Owner conflicts are never seen between grouped kinds\<close>

lemma apiVersion_ne_version:
  assumes "CHR ''/'' \<notin> set v" "GVK_Group g \<noteq> []"
  shows "gvk_apiVersion g \<noteq> v"
  using assms by (auto simp: gvk_apiVersion_def gvk_empty_def)

text \<open>The owner-conflict check compares the reference's \<open>apiVersion\<close> with the bare
  version of the target. A reference written by this package to an owner whose API has a
  group carries \<open>group/version\<close>, so it is never seen as a conflict, whatever object it
  points to.\<close>

lemma HasOwnerConflict_blind:
  assumes "CHR ''/'' \<notin> set (GVK_Version (Obj_GVK (snd (InferGroupVersionKind target))))"
    and "\<And>r. r \<in> set owners \<Longrightarrow>
           \<exists>w. r = NonBlockingOwner w \<and> GVK_Group (Obj_GVK (snd (InferGroupVersionKind w))) \<noteq> []"
  shows "\<not> HasOwnerConflict target owners"
proof -
  have "Oref_APIVersion r \<noteq> GVK_Version (Obj_GVK (snd (InferGroupVersionKind target)))"
    if r: "r \<in> set owners" for r
  proof -
    from assms(2) [OF r] obtain w where "r = NonBlockingOwner w"
      and "GVK_Group (Obj_GVK (snd (InferGroupVersionKind w))) \<noteq> []" by blast
    then show ?thesis using apiVersion_ne_version [OF assms(1)]
      by (simp add: NonBlockingOwner_def Let_def)
  qed
  then show ?thesis by (auto simp: HasOwnerConflict_def HasOwnerConflict_loop_iff)
qed

lemma HasOwnerConflict_blind_witness:
  "\<not> HasOwnerConflict (csvObject ''mine'' ''1'') [NonBlockingOwner (csvObject ''other'' ''2'')]"
proof (rule HasOwnerConflict_blind)
  show "CHR ''/'' \<notin> set (GVK_Version (Obj_GVK (snd (InferGroupVersionKind (csvObject ''mine'' ''1'')))))"
    by code_simp
next
  fix r assume "r \<in> set [NonBlockingOwner (csvObject ''other'' ''2'')]"
  moreover have "GVK_Group (Obj_GVK (snd (InferGroupVersionKind (csvObject ''other'' ''2'')))) \<noteq> []"
    by code_simp
  ultimately show "\<exists>w. r = NonBlockingOwner w \<and> GVK_Group (Obj_GVK (snd (InferGroupVersionKind w))) \<noteq> []"
    by auto
qed

end
