(* ===== verification/Rule_Checker.thy ===== *)
theory Rule_Checker
  imports RBAC Ownerutil
begin

text \<open>
  The rule resolver (\<open>validation/rule.go\<close>), the RBAC authorizer
  (\<open>authorizer/rbac/rbac.go\<close>) and OLM's \<open>CSVRuleChecker\<close>
  (\<open>install/rule_checker.go\<close>, \<open>install/attributes_util.go\<close>).

  The cluster's role and binding listers are the fields of \<open>rule_sources\<close>; a visitor is a
  function that threads its own state and says whether to go on.  Descriptions of the
  binding that granted a rule are the describer structs themselves.
\<close>

section \<open>Roles, bindings and their sources\<close>

record Subject =
  Subject_Kind :: string
  Subject_Name :: string
  Subject_Namespace :: string

record RoleRef =
  RoleRef_Kind :: string
  RoleRef_Name :: string

record Role =
  Role_OwnerReferences :: "OwnerReference list"
  Role_Rules :: "PolicyRule list"

record Binding =
  Binding_Name :: string
  Binding_Namespace :: string
  Binding_OwnerReferences :: "OwnerReference list"
  Binding_Subjects :: "Subject list"
  Binding_RoleRef :: RoleRef

datatype rbac_error = ListerError string | UnsupportedRoleRefKind string
  | NoVerbs | MixedRule | RuleInvalid rbac_error

record rule_sources =
  GetRole :: "string \<Rightarrow> string \<Rightarrow> rbac_error + Role"
  ListRoleBindings :: "string \<Rightarrow> rbac_error + Binding list"
  GetClusterRole :: "string \<Rightarrow> rbac_error + Role"
  ListClusterRoleBindings :: "rbac_error + Binding list"

datatype describer = clusterRoleBindingDescriber Binding Subject
  | roleBindingDescriber Binding Subject

type_synonym 'st visitor =
  "describer option \<Rightarrow> PolicyRule option \<Rightarrow> rbac_error option \<Rightarrow> 'st \<Rightarrow> bool \<times> 'st"

section \<open>Which bindings apply (rule.go)\<close>

definition MakeUsername :: "string \<Rightarrow> string \<Rightarrow> string" where
  "MakeUsername namespace name = ''system:serviceaccount:'' @ namespace @ '':'' @ name"

definition MatchesUsername :: "string \<Rightarrow> string \<Rightarrow> string \<Rightarrow> bool" where
  "MatchesUsername namespace name username =
     (if \<not> HasPrefix username ''system:serviceaccount:'' then False
      else let u1 = drop (length ''system:serviceaccount:'') username in
        if \<not> HasPrefix u1 namespace then False
        else let u2 = drop (length namespace) u1 in
          if \<not> HasPrefix u2 '':'' then False
          else drop (length '':'') u2 = name)"

definition appliesToUser :: "UserInfo \<Rightarrow> Subject \<Rightarrow> string \<Rightarrow> bool" where
  "appliesToUser user subject namespace =
     (if Subject_Kind subject = ''User'' then UserName user = Subject_Name subject
      else if Subject_Kind subject = ''Group'' then has (UserGroups user) (Subject_Name subject)
      else if Subject_Kind subject = ''ServiceAccount'' then
        (let saNamespace =
           (if length (Subject_Namespace subject) > 0 then Subject_Namespace subject else namespace)
         in if length saNamespace = 0 then False
            else MatchesUsername saNamespace (Subject_Name subject) (UserName user))
      else False)"

fun appliesTo :: "UserInfo \<Rightarrow> Subject list \<Rightarrow> string \<Rightarrow> Subject option" where
  "appliesTo user [] namespace = None"
| "appliesTo user (s # ss) namespace =
     (if appliesToUser user s namespace then Some s else appliesTo user ss namespace)"

definition GetRoleReferenceRules ::
  "rule_sources \<Rightarrow> RoleRef \<Rightarrow> string \<Rightarrow> rbac_error + PolicyRule list" where
  "GetRoleReferenceRules r roleRef bindingNamespace =
     (if RoleRef_Kind roleRef = ''Role'' then
        bind_err (GetRole r bindingNamespace (RoleRef_Name roleRef)) (\<lambda>role. Inr (Role_Rules role))
      else if RoleRef_Kind roleRef = ''ClusterRole'' then
        bind_err (GetClusterRole r (RoleRef_Name roleRef)) (\<lambda>role. Inr (Role_Rules role))
      else Inl (UnsupportedRoleRefKind (RoleRef_Kind roleRef)))"

section \<open>Visiting the rules of a user (rule.go)\<close>

fun visitRules :: "'st visitor \<Rightarrow> describer \<Rightarrow> PolicyRule list \<Rightarrow> 'st \<Rightarrow> bool \<times> 'st" where
  "visitRules visitor d [] st = (True, st)"
| "visitRules visitor d (rule # rules) st =
     (case visitor (Some d) (Some rule) None st of
        (True, st') \<Rightarrow> visitRules visitor d rules st'
      | (False, st') \<Rightarrow> (False, st'))"

fun visitBindings :: "rule_sources \<Rightarrow> UserInfo \<Rightarrow> string \<Rightarrow> (Binding \<Rightarrow> Subject \<Rightarrow> describer)
    \<Rightarrow> 'st visitor \<Rightarrow> Binding list \<Rightarrow> 'st \<Rightarrow> bool \<times> 'st" where
  "visitBindings r user namespace desc visitor [] st = (True, st)"
| "visitBindings r user namespace desc visitor (b # bs) st =
     (case appliesTo user (Binding_Subjects b) namespace of
        None \<Rightarrow> visitBindings r user namespace desc visitor bs st
      | Some subj \<Rightarrow>
          (case GetRoleReferenceRules r (Binding_RoleRef b) namespace of
             Inl err \<Rightarrow>
               (case visitor None None (Some err) st of
                  (True, st') \<Rightarrow> visitBindings r user namespace desc visitor bs st'
                | (False, st') \<Rightarrow> (False, st'))
           | Inr rules \<Rightarrow>
               (case visitRules visitor (desc b subj) rules st of
                  (True, st') \<Rightarrow> visitBindings r user namespace desc visitor bs st'
                | (False, st') \<Rightarrow> (False, st'))))"

definition VisitRulesFor :: "rule_sources \<Rightarrow> UserInfo \<Rightarrow> string \<Rightarrow> 'st visitor \<Rightarrow> 'st \<Rightarrow> 'st" where
  "VisitRulesFor r user namespace visitor st =
     (let (continue, st1) =
        (case ListClusterRoleBindings r of
           Inl err \<Rightarrow> visitor None None (Some err) st
         | Inr bs \<Rightarrow> visitBindings r user [] clusterRoleBindingDescriber visitor bs st)
      in if \<not> continue then st1
         else if length namespace > 0 then
           snd (case ListRoleBindings r namespace of
                  Inl err \<Rightarrow> visitor None None (Some err) st1
                | Inr bs \<Rightarrow> visitBindings r user namespace roleBindingDescriber visitor bs st1)
         else st1)"

record ruleAccumulator =
  acc_rules :: "PolicyRule list"
  acc_errors :: "rbac_error list"

definition accumulate :: "ruleAccumulator visitor" where
  "accumulate source rule err st =
     (let st1 = (case rule of None \<Rightarrow> st | Some x \<Rightarrow> st\<lparr>acc_rules := acc_rules st @ [x]\<rparr>);
          st2 = (case err of None \<Rightarrow> st1 | Some e \<Rightarrow> st1\<lparr>acc_errors := acc_errors st1 @ [e]\<rparr>)
      in (True, st2))"

definition RulesFor :: "rule_sources \<Rightarrow> UserInfo \<Rightarrow> string \<Rightarrow> PolicyRule list \<times> rbac_error list" where
  "RulesFor r user namespace =
     (let v = VisitRulesFor r user namespace accumulate \<lparr>acc_rules = [], acc_errors = []\<rparr>
      in (acc_rules v, acc_errors v))"

section \<open>The authorizer (rbac.go)\<close>

record authorizingVisitor =
  av_allowed :: bool
  av_reason :: "describer option"
  av_errors :: "rbac_error list"

datatype Decision = DecisionDeny | DecisionAllow | DecisionNoOpinion

definition visit :: "Attributes \<Rightarrow> authorizingVisitor visitor" where
  "visit a source rule err v =
     (if (case rule of None \<Rightarrow> False | Some x \<Rightarrow> RuleAllows a x) then
        (False, v\<lparr>av_allowed := True, av_reason := source\<rparr>)
      else (True, (case err of None \<Rightarrow> v | Some e \<Rightarrow> v\<lparr>av_errors := av_errors v @ [e]\<rparr>)))"

definition Authorize :: "rule_sources \<Rightarrow> Attributes \<Rightarrow> Decision \<times> describer option \<times> rbac_error list" where
  "Authorize r a =
     (let v = VisitRulesFor r (GetUser a) (GetNamespace a) (visit a)
                \<lparr>av_allowed = False, av_reason = None, av_errors = []\<rparr>
      in if av_allowed v then (DecisionAllow, av_reason v, [])
         else (DecisionNoOpinion, None, av_errors v))"

section \<open>The rule checker (rule\_checker.go, attributes\_util.go)\<close>

record ServiceAccount =
  SA_Namespace :: string
  SA_Name :: string
  SA_UID :: string

definition toDefaultInfo :: "ServiceAccount \<Rightarrow> UserInfo" where
  "toDefaultInfo sa = \<lparr>UserName = MakeUsername (SA_Namespace sa) (SA_Name sa), UserUID = SA_UID sa,
     UserGroups = []\<rparr>"

definition attributesRecord :: "UserInfo \<Rightarrow> string \<Rightarrow> string \<Rightarrow> string \<Rightarrow> string \<Rightarrow> string \<Rightarrow> string
    \<Rightarrow> Attributes" where
  "attributesRecord user namespace verb apiGroup resource name path =
     \<lparr>GetUser = user, GetVerb = verb, GetNamespace = namespace, GetAPIGroup = apiGroup,
      GetResource = resource, GetSubresource = [], GetName = name,
      IsResourceRequest = (path = []), GetPath = path\<rparr>"

definition attributesKey :: "UserInfo \<Rightarrow> string \<Rightarrow> string \<Rightarrow> string \<Rightarrow> string \<Rightarrow> string \<Rightarrow> string
    \<Rightarrow> string" where
  "attributesKey user namespace verb apiGroup resource name path =
     Join [UserName user, verb, namespace, apiGroup, resource, name, resource, path] ''|''"

definition orEmpty :: "string list \<Rightarrow> string list" where
  "orEmpty xs = (if length xs = 0 then [[]] else xs)"

text \<open>The key-attribute pairs in the order the nested loops store them; a later pair with
  the same key replaces an earlier one. \<open>ord\<close> is the order in which Go ranges over the
  finished map.\<close>

definition attributePairs :: "UserInfo \<Rightarrow> string \<Rightarrow> PolicyRule \<Rightarrow> (string \<times> Attributes) list" where
  "attributePairs user namespace rule =
     concat (map (\<lambda>verb. concat (map (\<lambda>grp. concat (map (\<lambda>resource. concat (map (\<lambda>name.
       map (\<lambda>url. (attributesKey user namespace verb grp resource name url,
                   attributesRecord user namespace verb grp resource name url))
         (orEmpty (NonResourceURLs rule))) (orEmpty (ResourceNames rule))))
         (orEmpty (Resources rule)))) (orEmpty (APIGroups rule)))) (Verbs rule))"

definition toAttributesSet :: "((string \<times> Attributes) list \<Rightarrow> (string \<times> Attributes) list)
    \<Rightarrow> UserInfo \<Rightarrow> string \<Rightarrow> PolicyRule \<Rightarrow> Attributes list" where
  "toAttributesSet ord user namespace rule =
     map snd (ord (fold (\<lambda>(k, a). AList.update k a) (attributePairs user namespace rule) []))"

definition ruleValid :: "PolicyRule \<Rightarrow> rbac_error option" where
  "ruleValid rule =
     (if length (Verbs rule) = 0 then Some NoVerbs
      else if length (APIGroups rule) + length (Resources rule) + length (ResourceNames rule) > 0
              \<and> length (NonResourceURLs rule) > 0 then Some MixedRule
      else None)"

text \<open>The checker's own view of the cluster: roles and bindings with an owner conflict with
  the CSV are replaced by empty ones or dropped.\<close>

definition CSVRuleChecker :: "rule_sources \<Rightarrow> Object \<Rightarrow> rule_sources" where
  "CSVRuleChecker ls csv =
     \<lparr>GetRole = (\<lambda>namespace name. bind_err (GetRole ls namespace name) (\<lambda>role.
        if HasOwnerConflict csv (Role_OwnerReferences role)
        then Inr \<lparr>Role_OwnerReferences = [], Role_Rules = []\<rparr> else Inr role)),
      ListRoleBindings = (\<lambda>namespace. bind_err (ListRoleBindings ls namespace) (\<lambda>bs.
        Inr (filter (\<lambda>b. \<not> HasOwnerConflict csv (Binding_OwnerReferences b)) bs))),
      GetClusterRole = (\<lambda>name. bind_err (GetClusterRole ls name) (\<lambda>role.
        if HasOwnerConflict csv (Role_OwnerReferences role)
        then Inr \<lparr>Role_OwnerReferences = [], Role_Rules = []\<rparr> else Inr role)),
      ListClusterRoleBindings = bind_err (ListClusterRoleBindings ls) (\<lambda>bs.
        Inr (filter (\<lambda>b. \<not> HasOwnerConflict csv (Binding_OwnerReferences b)) bs))\<rparr>"

fun allAuthorized :: "rule_sources \<Rightarrow> Attributes list \<Rightarrow> bool" where
  "allAuthorized r [] = True"
| "allAuthorized r (a # as) =
     (let decision = fst (Authorize r a)
      in if decision = DecisionDeny \<or> decision = DecisionNoOpinion then False
         else allAuthorized r as)"

definition RuleSatisfied :: "((string \<times> Attributes) list \<Rightarrow> (string \<times> Attributes) list)
    \<Rightarrow> rule_sources \<Rightarrow> ServiceAccount \<Rightarrow> string \<Rightarrow> PolicyRule \<Rightarrow> rbac_error + bool" where
  "RuleSatisfied ord r sa namespace rule =
     (case ruleValid rule of
        Some err \<Rightarrow> Inl (RuleInvalid err)
      | None \<Rightarrow> Inr (allAuthorized r (toAttributesSet ord (toDefaultInfo sa) namespace rule)))"

section \<open>The authorizer decides by the collected rules\<close>

text \<open>Folding the authorizing visitor over an event sequence is the same as collecting the
  rules and asking \<open>RulesAllow\<close>.  \<open>events_*\<close> are the calls the visits make when no visitor
  stops them.\<close>

definition bindingEvents :: "rule_sources \<Rightarrow> UserInfo \<Rightarrow> string \<Rightarrow> (Binding \<Rightarrow> Subject \<Rightarrow> describer)
    \<Rightarrow> Binding \<Rightarrow> (describer option \<times> PolicyRule option \<times> rbac_error option) list" where
  "bindingEvents r user namespace desc b =
     (case appliesTo user (Binding_Subjects b) namespace of
        None \<Rightarrow> []
      | Some subj \<Rightarrow>
          (case GetRoleReferenceRules r (Binding_RoleRef b) namespace of
             Inl err \<Rightarrow> [(None, None, Some err)]
           | Inr rules \<Rightarrow> map (\<lambda>x. (Some (desc b subj), Some x, None)) rules))"

definition ruleEvents :: "rule_sources \<Rightarrow> UserInfo \<Rightarrow> string
    \<Rightarrow> (describer option \<times> PolicyRule option \<times> rbac_error option) list" where
  "ruleEvents r user namespace =
     (case ListClusterRoleBindings r of
        Inl err \<Rightarrow> [(None, None, Some err)]
      | Inr bs \<Rightarrow> concat (map (bindingEvents r user [] clusterRoleBindingDescriber) bs))
     @ (if length namespace > 0 then
          (case ListRoleBindings r namespace of
             Inl err \<Rightarrow> [(None, None, Some err)]
           | Inr bs \<Rightarrow> concat (map (bindingEvents r user namespace roleBindingDescriber) bs))
        else [])"

fun runVisitor :: "'st visitor \<Rightarrow> (describer option \<times> PolicyRule option \<times> rbac_error option) list
    \<Rightarrow> 'st \<Rightarrow> bool \<times> 'st" where
  "runVisitor v [] st = (True, st)"
| "runVisitor v ((d, x, e) # es) st =
     (case v d x e st of (True, st') \<Rightarrow> runVisitor v es st' | (False, st') \<Rightarrow> (False, st'))"

lemma runVisitor_append:
  "runVisitor v (xs @ ys) st =
     (case runVisitor v xs st of (True, st') \<Rightarrow> runVisitor v ys st' | (False, st') \<Rightarrow> (False, st'))"
  by (induction v xs st rule: runVisitor.induct) (auto split: prod.splits bool.splits)

lemma visitRules_run:
  "visitRules v d rules st = runVisitor v (map (\<lambda>x. (Some d, Some x, None)) rules) st"
  by (induction v d rules st rule: visitRules.induct) (auto split: prod.splits bool.splits)

lemma visitBindings_run:
  "visitBindings r u ns desc v bs st = runVisitor v (concat (map (bindingEvents r u ns desc) bs)) st"
  by (induction r u ns desc v bs st rule: visitBindings.induct)
    (auto simp: bindingEvents_def runVisitor_append visitRules_run split: option.splits sum.splits
      prod.splits bool.splits)

lemma VisitRulesFor_run:
  "VisitRulesFor r u ns v st = snd (runVisitor v (ruleEvents r u ns) st)"
  by (auto simp: VisitRulesFor_def ruleEvents_def visitBindings_run runVisitor_append Let_def
      split: sum.splits prod.splits bool.splits)

lemma run_accumulate:
  "runVisitor accumulate es st =
     (True, \<lparr>acc_rules = acc_rules st @ List.map_filter (\<lambda>(d, x, e). x) es,
             acc_errors = acc_errors st @ List.map_filter (\<lambda>(d, x, e). e) es\<rparr>)"
  by (induction "accumulate" es st rule: runVisitor.induct)
    (auto simp: accumulate_def List.map_filter_def split: option.splits)

lemma RulesFor_events: "fst (RulesFor r u ns) = List.map_filter (\<lambda>(d, x, e). x) (ruleEvents r u ns)"
  by (simp add: RulesFor_def VisitRulesFor_run run_accumulate Let_def)

lemma run_visit_allowed:
  "av_allowed (snd (runVisitor (visit a) es st)) \<longleftrightarrow>
     av_allowed st \<or> RulesAllow a (List.map_filter (\<lambda>(d, x, e). x) es)"
  by (induction "visit a" es st rule: runVisitor.induct)
    (auto simp: visit_def List.map_filter_def split: option.splits if_splits)

lemma Authorize_allow:
  "fst (Authorize r a) = DecisionAllow
     \<longleftrightarrow> (\<exists>w\<in>set (fst (RulesFor r (GetUser a) (GetNamespace a))). RuleAllows a w)"
  using run_visit_allowed [of a "ruleEvents r (GetUser a) (GetNamespace a)"
      "\<lparr>av_allowed = False, av_reason = None, av_errors = []\<rparr>"]
  by (simp add: Authorize_def VisitRulesFor_run RulesFor_events Let_def RulesAllow_iff)

text \<open>The authorizer, which stops at the first rule that allows the request, allows
  exactly the requests that the full list of the user's rules allows; errors met while
  resolving rules never turn into an allow.\<close>

lemma Authorize_iff_RulesFor:
  "fst (Authorize r a) = DecisionAllow
     \<longleftrightarrow> RulesAllow a (fst (RulesFor r (GetUser a) (GetNamespace a)))"
  by (simp add: Authorize_allow RulesAllow_iff)

section \<open>Soundness of the rule checker\<close>

lemma sep_cancel:
  assumes "c \<notin> set a" "c \<notin> set b"
  shows "a @ c # x = b @ c # y \<longleftrightarrow> a = b \<and> x = y"
proof -
  have sp: "takeWhile (\<lambda>z. z \<noteq> c) (d @ c # z) = d" if "c \<notin> set d" for d z
    using that by (induction d) auto
  show ?thesis
    using sp [OF assms(1), of x] sp [OF assms(2), of y] by auto
qed

abbreviation bar :: char where
  "bar \<equiv> CHR ''|''"

definition barFree :: "PolicyRule \<Rightarrow> bool" where
  "barFree rule \<longleftrightarrow> (\<forall>s\<in>set (Verbs rule) \<union> set (APIGroups rule) \<union> set (Resources rule)
     \<union> set (ResourceNames rule). bar \<notin> set s)"

lemma attributesKey_inj:
  assumes "bar \<notin> set v" "bar \<notin> set v'" "bar \<notin> set g" "bar \<notin> set g'"
    "bar \<notin> set s" "bar \<notin> set s'" "bar \<notin> set n" "bar \<notin> set n'"
  shows "attributesKey u ns v g s n p = attributesKey u ns v' g' s' n' p'
     \<longleftrightarrow> v = v' \<and> g = g' \<and> s = s' \<and> n = n' \<and> p = p'"
  using assms by (auto simp: attributesKey_def sep_cancel)

lemma attributePairs_iff:
  "(k, a) \<in> set (attributePairs u ns rule) \<longleftrightarrow>
     (\<exists>v\<in>set (Verbs rule). \<exists>g\<in>set (orEmpty (APIGroups rule)). \<exists>s\<in>set (orEmpty (Resources rule)).
      \<exists>n\<in>set (orEmpty (ResourceNames rule)). \<exists>p\<in>set (orEmpty (NonResourceURLs rule)).
        k = attributesKey u ns v g s n p \<and> a = attributesRecord u ns v g s n p)"
  by (simp add: attributePairs_def image_iff)

lemma orEmpty_mem: "x \<in> set xs \<Longrightarrow> x \<in> set (orEmpty xs)" "[] \<in> set (orEmpty [])"
  by (auto simp: orEmpty_def)

lemma attributePairs_functional:
  assumes "barFree rule" "(k, a) \<in> set (attributePairs u ns rule)"
    "(k, a') \<in> set (attributePairs u ns rule)"
  shows "a = a'"
proof -
  have bf: "bar \<notin> set s" if "s \<in> set (Verbs rule) \<or> s \<in> set (orEmpty (APIGroups rule))
      \<or> s \<in> set (orEmpty (Resources rule)) \<or> s \<in> set (orEmpty (ResourceNames rule))" for s
    using that assms(1) by (auto simp: barFree_def orEmpty_def split: if_splits)
  from assms(2) obtain v g s n p where 1: "v \<in> set (Verbs rule)" "g \<in> set (orEmpty (APIGroups rule))"
    "s \<in> set (orEmpty (Resources rule))" "n \<in> set (orEmpty (ResourceNames rule))"
    "k = attributesKey u ns v g s n p" "a = attributesRecord u ns v g s n p"
    unfolding attributePairs_iff by blast
  from assms(3) obtain v' g' s' n' p' where 2: "v' \<in> set (Verbs rule)" "g' \<in> set (orEmpty (APIGroups rule))"
    "s' \<in> set (orEmpty (Resources rule))" "n' \<in> set (orEmpty (ResourceNames rule))"
    "k = attributesKey u ns v' g' s' n' p'" "a' = attributesRecord u ns v' g' s' n' p'"
    unfolding attributePairs_iff by blast
  have "v = v' \<and> g = g' \<and> s = s' \<and> n = n' \<and> p = p'"
    using 1(5) 2(5) attributesKey_inj [of v v' g g' s s' n n' u ns p p'] bf 1(1-4) 2(1-4) by simp
  with 1(6) 2(6) show ?thesis by simp
qed

lemma AList_update_other: "(k, a) \<in> set m \<Longrightarrow> k \<noteq> k' \<Longrightarrow> (k, a) \<in> set (AList.update k' a' m)"
  by (induction m) auto

lemma fold_update_functional:
  assumes "\<And>k a a'. (k, a) \<in> set xs \<Longrightarrow> (k, a') \<in> set xs \<Longrightarrow> a = a'" "(k, a) \<in> set xs"
  shows "(k, a) \<in> set (fold (\<lambda>(k, a). AList.update k a) xs m)"
  using assms
proof (induction xs rule: rev_induct)
  case (snoc x xs)
  obtain k' a' where x: "x = (k', a')" by fastforce
  let ?m = "fold (\<lambda>(k, a). AList.update k a) xs m"
  show ?case
  proof (cases "k = k'")
    case True
    then have "a = a'" using snoc.prems x by auto
    then show ?thesis using x True by (simp add: AList.update_conv map_of_SomeD)
  next
    case False
    then have "(k, a) \<in> set ?m" using snoc x by auto
    then show ?thesis using x False by (simp add: AList_update_other)
  qed
qed simp

lemma toAttributesSet_member:
  assumes "\<And>m. set (ord m) = set m" "barFree rule" "v \<in> set (Verbs rule)"
    "g \<in> set (orEmpty (APIGroups rule))" "s \<in> set (orEmpty (Resources rule))"
    "n \<in> set (orEmpty (ResourceNames rule))" "p \<in> set (orEmpty (NonResourceURLs rule))"
  shows "attributesRecord u ns v g s n p \<in> set (toAttributesSet ord u ns rule)"
proof -
  have "(attributesKey u ns v g s n p, attributesRecord u ns v g s n p)
      \<in> set (attributePairs u ns rule)"
    unfolding attributePairs_iff using assms by blast
  then have "(attributesKey u ns v g s n p, attributesRecord u ns v g s n p)
      \<in> set (fold (\<lambda>(k, a). AList.update k a) (attributePairs u ns rule) [])"
    by (rule fold_update_functional [rotated]) (rule attributePairs_functional [OF assms(2)])
  then show ?thesis using assms(1) by (force simp: toAttributesSet_def)
qed

lemma allAuthorized_iff: "allAuthorized r as \<longleftrightarrow> (\<forall>a\<in>set as. fst (Authorize r a) = DecisionAllow)"
proof -
  have "fst (Authorize r a) \<noteq> DecisionDeny" for a by (simp add: Authorize_def Let_def)
  then show ?thesis
    by (induction r as rule: allAuthorized.induct) (auto simp: Let_def, (metis Decision.exhaust)+)
qed

text \<open>An attribute record built from parts of the rule is authorized, so some rule of the
  user allows it.\<close>

lemma RuleSatisfied_part:
  assumes sat: "RuleSatisfied ord r sa ns rule = Inr True" and ord: "\<And>m. set (ord m) = set m"
    and parts: "barFree rule" "v \<in> set (Verbs rule)"
    "g \<in> set (orEmpty (APIGroups rule))" "s \<in> set (orEmpty (Resources rule))"
    "n \<in> set (orEmpty (ResourceNames rule))" "p \<in> set (orEmpty (NonResourceURLs rule))"
  shows "\<exists>w\<in>set (fst (RulesFor r (toDefaultInfo sa) ns)).
           RuleAllows (attributesRecord (toDefaultInfo sa) ns v g s n p) w"
proof -
  let ?a = "attributesRecord (toDefaultInfo sa) ns v g s n p"
  have "fst (Authorize r ?a) = DecisionAllow"
    using sat toAttributesSet_member [OF ord parts]
    by (auto simp: RuleSatisfied_def allAuthorized_iff split: option.splits)
  then show ?thesis
    by (simp add: Authorize_allow attributesRecord_def)
qed

lemma RuleSatisfied_authorizes:
  assumes sat: "RuleSatisfied ord r sa ns rule = Inr True" and ord: "\<And>m. set (ord m) = set m"
    and bars: "barFree rule" and urls: "[] \<notin> set (NonResourceURLs rule)"
    and names: "\<And>w. w \<in> set (fst (RulesFor r (toDefaultInfo sa) ns)) \<Longrightarrow> [] \<notin> set (ResourceNames w)"
    and req: "GetUser a = toDefaultInfo sa" "GetNamespace a = ns" "RuleAllows a rule"
  shows "fst (Authorize r a) = DecisionAllow"
proof -
  have valid: "ruleValid rule = None"
    using sat by (auto simp: RuleSatisfied_def split: option.splits)
  from req(3) obtain v where v: "v \<in> set (Verbs rule)" "v = star \<or> v = GetVerb a"
    by (auto simp: RuleAllows_def split: if_splits)
  have "\<exists>w\<in>set (fst (RulesFor r (toDefaultInfo sa) ns)). RuleAllows a w"
  proof (cases "IsResourceRequest a")
    case True
    with req(3) obtain g s where g: "g \<in> set (APIGroups rule)" "g = star \<or> g = GetAPIGroup a"
      and s: "s \<in> set (Resources rule)" "s = star \<or> s = combinedResource a
           \<or> GetSubresource a \<noteq> [] \<and> s = ''*/'' @ GetSubresource a"
      by (auto simp: RuleAllows_def)
    define n where "n = (if ResourceNames rule = [] then [] else GetName a)"
    have "NonResourceURLs rule = []" using valid g(1) by (auto simp: ruleValid_def split: if_splits)
    moreover have "n \<in> set (orEmpty (ResourceNames rule))"
      using req(3) True by (auto simp: n_def orEmpty_def RuleAllows_def)
    ultimately obtain w where w: "w \<in> set (fst (RulesFor r (toDefaultInfo sa) ns))"
      "RuleAllows (attributesRecord (toDefaultInfo sa) ns v g s n []) w"
      using RuleSatisfied_part [OF sat ord bars v(1) orEmpty_mem(1) [OF g(1)] orEmpty_mem(1) [OF s(1)]]
        orEmpty_mem(2) by metis
    then have "RuleAllows a w"
      using v(2) g(2) s(2) True names [OF w(1)]
      by (auto simp: RuleAllows_def attributesRecord_def combinedResource_def n_def split: if_splits)
    with w(1) show ?thesis by blast
  next
    case False
    with req(3) obtain u where u: "u \<in> set (NonResourceURLs rule)" "nonResourceURLCovers u (GetPath a)"
      by (auto simp: RuleAllows_def)
    then have "orEmpty (APIGroups rule) = [[]]" "orEmpty (Resources rule) = [[]]"
      "orEmpty (ResourceNames rule) = [[]]"
      using valid by (auto simp: ruleValid_def orEmpty_def split: if_splits)
    then obtain w where w: "w \<in> set (fst (RulesFor r (toDefaultInfo sa) ns))"
      "RuleAllows (attributesRecord (toDefaultInfo sa) ns v [] [] [] u) w"
      using RuleSatisfied_part [OF sat ord bars v(1) _ _ _ orEmpty_mem(1) [OF u(1)], of "[]" "[]" "[]"]
      by auto
    moreover have "u \<noteq> []" using u(1) urls by auto
    ultimately obtain q where "q \<in> set (NonResourceURLs w)" "nonResourceURLCovers q u"
      and vs: "star \<in> set (Verbs w) \<or> v \<in> set (Verbs w)"
      by (auto simp: RuleAllows_def attributesRecord_def)
    with nonResourceURLCovers_trans [OF _ u(2)] have "RuleAllows a w"
      using v(2) False by (auto simp: RuleAllows_def)
    with w(1) show ?thesis by blast
  qed
  then show ?thesis using req(1,2) by (simp add: Authorize_allow)
qed

text \<open>C10. If the rule checker reports a rule as satisfied for a service account, every request of that
  account in that namespace that the rule would allow is authorized by the cluster's roles, provided
  that no part of the rule contains the separator of the attribute keys, that the rule has no empty URL,
  and that no rule that applies to the account names the empty resource.\<close>

theorem RuleSatisfied_sound:
  assumes sat: "RuleSatisfied ord r sa ns rule = Inr True" and ord: "\<And>m. set (ord m) = set m"
    and bars: "barFree rule" and urls: "[] \<notin> set (NonResourceURLs rule)"
    and names: "\<And>w. w \<in> set (fst (RulesFor r (toDefaultInfo sa) ns)) \<Longrightarrow> [] \<notin> set (ResourceNames w)"
    and req: "GetUser a = toDefaultInfo sa" "GetNamespace a = ns" "RuleAllows a rule"
  shows "fst (Authorize r a) = DecisionAllow"
  using assms by (rule RuleSatisfied_authorizes)

definition exampleSA :: ServiceAccount where
  "exampleSA = \<lparr>SA_Namespace = ''ns'', SA_Name = ''sa'', SA_UID = ''7''\<rparr>"

definition exampleSources :: rule_sources where
  "exampleSources =
     \<lparr>GetRole = (\<lambda>ns n. Inr \<lparr>Role_OwnerReferences = [], Role_Rules = [podAdmin, podReader]\<rparr>),
      ListRoleBindings = (\<lambda>ns. Inr [\<lparr>Binding_Name = ''b'', Binding_Namespace = ns,
        Binding_OwnerReferences = [],
        Binding_Subjects = [\<lparr>Subject_Kind = ''ServiceAccount'', Subject_Name = ''sa'', Subject_Namespace = ''''\<rparr>],
        Binding_RoleRef = \<lparr>RoleRef_Kind = ''Role'', RoleRef_Name = ''r''\<rparr>\<rparr>]),
      GetClusterRole = (\<lambda>n. Inl (ListerError n)), ListClusterRoleBindings = Inr []\<rparr>"

theorem RuleSatisfied_sound_witness:
  "fst (Authorize exampleSources (getLog\<lparr>GetUser := toDefaultInfo exampleSA\<rparr>)) = DecisionAllow"
proof (rule RuleSatisfied_sound [where ord = id and sa = exampleSA and rule = podReader])
  show "RuleSatisfied id exampleSources exampleSA ''ns'' podReader = Inr True" by code_simp
  show "barFree podReader" by code_simp
  show "[] \<notin> set (NonResourceURLs podReader)" by code_simp
  have "list_all (\<lambda>w. [] \<notin> set (ResourceNames w)) (fst (RulesFor exampleSources (toDefaultInfo exampleSA) ''ns''))"
    by code_simp
  then show "[] \<notin> set (ResourceNames w)"
    if "w \<in> set (fst (RulesFor exampleSources (toDefaultInfo exampleSA) ''ns''))" for w
    using that by (simp add: list_all_iff)
  show "GetUser (getLog\<lparr>GetUser := toDefaultInfo exampleSA\<rparr>) = toDefaultInfo exampleSA" by simp
  show "GetNamespace (getLog\<lparr>GetUser := toDefaultInfo exampleSA\<rparr>) = ''ns''" by (simp add: getLog_def)
  show "RuleAllows (getLog\<lparr>GetUser := toDefaultInfo exampleSA\<rparr>) podReader" by code_simp
qed simp

text \<open>The condition on the separator is needed: two requests of this rule have the same key, the one that
  is checked last replaces the other, and the rule is reported as satisfied although a request that it
  allows is not authorized.\<close>

definition barRule :: PolicyRule where
  "barRule = \<lparr>Verbs = [''get''], APIGroups = [''a|x|b'', ''a''], Resources = [''x''], ResourceNames = [''c'', ''b|x|c''], NonResourceURLs = []\<rparr>"

definition barSources :: rule_sources where
  "barSources = exampleSources\<lparr>GetRole := (\<lambda>ns n. Inr \<lparr>Role_OwnerReferences = [],
     Role_Rules = [barRule\<lparr>APIGroups := [''a'']\<rparr>, barRule\<lparr>APIGroups := [''a|x|b''], ResourceNames := [''b|x|c'']\<rparr>]\<rparr>)\<rparr>"

lemma RuleSatisfied_collision:
  "let a = getLog\<lparr>GetUser := toDefaultInfo exampleSA, GetAPIGroup := ''a|x|b'', GetResource := ''x'', GetSubresource := [], GetName := ''c''\<rparr>
   in RuleSatisfied id barSources exampleSA ''ns'' barRule = Inr True \<and> RuleAllows a barRule \<and> fst (Authorize barSources a) \<noteq> DecisionAllow"
  by code_simp

text \<open>In the other direction, the checker asks for a subresource as part of the resource, so a rule for
  the logs of pods is not satisfied by a role for the subresource, although every request it allows
  is authorized.\<close>

lemma subresource_refused:
  "let rule = podReader\<lparr>Resources := [''pods/log'']\<rparr>;
       sources = exampleSources\<lparr>GetRole := (\<lambda>ns n. Inr \<lparr>Role_OwnerReferences = [], Role_Rules = [podAdmin]\<rparr>)\<rparr>
   in RuleSatisfied id sources exampleSA ''ns'' rule = Inr False
     \<and> fst (Authorize sources (getLog\<lparr>GetUser := toDefaultInfo exampleSA\<rparr>)) = DecisionAllow"
  by code_simp

end
