(* ===== verification/Lit_Mapping.thy ===== *)
theory Lit_Mapping
  imports OLM_Prelude
begin

text \<open>
  The vocabulary of the dependency solver: variables and constraints
  (\<open>resolver/solver/variable.go\<close>, \<open>constraints.go\<close>, and the implementations of both in
  \<open>resolver/variable_types.go\<close>), and the translation between them and the literals of the
  SAT solver (\<open>solver/lit_mapping.go\<close>).

  The circuit \<open>logic.C\<close> and the solver \<open>inter.S\<close> belong to the vendored package
  \<open>github.com/go-air/gini\<close>. They are the argument \<open>G\<close> of the definitions, a record of the
  operations that the code calls; what the code relies on is \<open>circuit_contract\<close> and
  \<open>solver_contract\<close>, which restate gini's documentation.
\<close>

section \<open>Identifiers, constraints, variables\<close>

type_synonym Identifier = string

datatype Constraint =
    zeroConstraint
  | mandatory
  | prohibited
  | dependency "Identifier list"
  | conflict Identifier
  | leq "Identifier list" int
  | prettyConstraint Constraint string

datatype Variable =
    zeroVariable
  | BundleVariable Identifier "Constraint list" string
  | GenericVariable Identifier "Constraint list"

fun Identifier :: "Variable \<Rightarrow> Identifier" where
  "Identifier zeroVariable = []"
| "Identifier (BundleVariable i cs replaces) = i"
| "Identifier (GenericVariable i cs) = i"

fun Constraints :: "Variable \<Rightarrow> Constraint list" where
  "Constraints zeroVariable = []"
| "Constraints (BundleVariable i cs replaces) = cs"
| "Constraints (GenericVariable i cs) = cs"

fun order :: "Constraint \<Rightarrow> Identifier list" where
  "order (dependency ids) = ids"
| "order (prettyConstraint c msg) = order c"
| "order _ = []"

fun anchor :: "Constraint \<Rightarrow> bool" where
  "anchor mandatory = True"
| "anchor (prettyConstraint c msg) = anchor c"
| "anchor _ = False"

definition showInt :: "int \<Rightarrow> string" where
  "showInt i = (if i < 0 then ''-'' @ showNat (nat (- i)) else showNat (nat i))"

fun constraintString :: "Constraint \<Rightarrow> Identifier \<Rightarrow> string" where
  "constraintString zeroConstraint subject = []"
| "constraintString mandatory subject = subject @ '' is mandatory''"
| "constraintString prohibited subject = subject @ '' is prohibited''"
| "constraintString (dependency ids) subject =
     (if length ids = 0 then subject @ '' has a dependency without any candidates to satisfy it''
      else subject @ '' requires at least one of '' @ Join ids '', '')"
| "constraintString (conflict i) subject = subject @ '' conflicts with '' @ i"
| "constraintString (leq ids n) subject =
     subject @ '' permits at most '' @ showInt n @ '' of '' @ Join ids '', ''"
| "constraintString (prettyConstraint c msg) subject = msg"

record AppliedConstraint =
  AC_Variable :: Variable
  AC_Constraint :: Constraint

definition appliedString :: "AppliedConstraint \<Rightarrow> string" where
  "appliedString a = constraintString (AC_Constraint a) (Identifier (AC_Variable a))"

section \<open>The interface of gini\<close>

type_synonym Lit = nat

abbreviation (input) LitNull :: Lit where
  "LitNull \<equiv> 0"

definition lit_not :: "Lit \<Rightarrow> Lit" where
  "lit_not m = (if even m then m + 1 else m - 1)"

record ('c, 's, 'k) gini =
  C_New :: 'c
  C_Lit :: "'c \<Rightarrow> Lit \<times> 'c"
  C_Or :: "'c \<Rightarrow> Lit \<Rightarrow> Lit \<Rightarrow> Lit \<times> 'c"
  C_CardSort :: "'c \<Rightarrow> Lit list \<Rightarrow> 'k \<times> 'c"
  C_Len :: "'c \<Rightarrow> nat"
  C_ToCnf :: "'c \<Rightarrow> 's \<Rightarrow> 's"
  C_CnfSince :: "'c \<Rightarrow> 's \<Rightarrow> int list \<Rightarrow> Lit \<Rightarrow> int list \<times> 's"
  CS_Leq :: "'k \<Rightarrow> int \<Rightarrow> Lit"
  CS_N :: "'k \<Rightarrow> nat"
  S_Assume :: "'s \<Rightarrow> Lit list \<Rightarrow> 's"
  S_Test :: "'s \<Rightarrow> int \<times> 's"
  S_Untest :: "'s \<Rightarrow> int \<times> 's"
  S_Solve :: "'s \<Rightarrow> int \<times> 's"
  S_Value :: "'s \<Rightarrow> Lit \<Rightarrow> bool"
  S_Why :: "'s \<Rightarrow> Lit list"

section \<open>The literal mapping\<close>

datatype lm_error = notProvided Identifier | noVariable Lit | noConstraint Lit

text \<open>\<open>variables\<close> and \<open>lits\<close> are maps that are only read by key; \<open>constraints\<close> is ranged
  over, so it is an association list, in an order on which nothing relies.\<close>

record 'c litMapping =
  inorder :: "Variable list"
  variables :: "Lit \<rightharpoonup> Variable"
  lits :: "Identifier \<rightharpoonup> Lit"
  constraints :: "(Lit \<times> AppliedConstraint) list"
  circuit :: 'c
  errs :: "lm_error list"

definition LitOf :: "'c litMapping \<Rightarrow> Identifier \<Rightarrow> Lit \<times> 'c litMapping" where
  "LitOf d i = (case lits d i of
       Some m \<Rightarrow> (m, d)
     | None \<Rightarrow> (LitNull, d\<lparr>errs := errs d @ [notProvided i]\<rparr>))"

definition VariableOf :: "'c litMapping \<Rightarrow> Lit \<Rightarrow> Variable \<times> 'c litMapping" where
  "VariableOf d m = (case variables d m of
       Some v \<Rightarrow> (v, d)
     | None \<Rightarrow> (zeroVariable, d\<lparr>errs := errs d @ [noVariable m]\<rparr>))"

definition ConstraintOf :: "'c litMapping \<Rightarrow> Lit \<Rightarrow> AppliedConstraint \<times> 'c litMapping" where
  "ConstraintOf d m = (case map_of (constraints d) m of
       Some a \<Rightarrow> (a, d)
     | None \<Rightarrow> (\<lparr>AC_Variable = zeroVariable, AC_Constraint = zeroConstraint\<rparr>,
                d\<lparr>errs := errs d @ [noConstraint m]\<rparr>))"

fun LitsOf :: "'c litMapping \<Rightarrow> Identifier list \<Rightarrow> Lit list \<times> 'c litMapping" where
  "LitsOf d [] = ([], d)"
| "LitsOf d (i # is) =
     (let (m, d1) = LitOf d i; (ms, d2) = LitsOf d1 is in (m # ms, d2))"

fun orDependencies :: "('c, 's, 'k) gini \<Rightarrow> 'c litMapping \<Rightarrow> Lit \<Rightarrow> Identifier list
    \<Rightarrow> Lit \<times> 'c litMapping" where
  "orDependencies G d m [] = (m, d)"
| "orDependencies G d m (each # rest) =
     (let (l, d1) = LitOf d each; (m', c') = C_Or G (circuit d1) m l
      in orDependencies G (d1\<lparr>circuit := c'\<rparr>) m' rest)"

fun apply_constraint :: "('c, 's, 'k) gini \<Rightarrow> 'c litMapping \<Rightarrow> Identifier \<Rightarrow> Constraint
    \<Rightarrow> Lit \<times> 'c litMapping" where
  "apply_constraint G d subject zeroConstraint = (LitNull, d)"
| "apply_constraint G d subject mandatory = LitOf d subject"
| "apply_constraint G d subject prohibited = (let (m, d1) = LitOf d subject in (lit_not m, d1))"
| "apply_constraint G d subject (dependency ids) =
     (let (m, d1) = LitOf d subject in orDependencies G d1 (lit_not m) ids)"
| "apply_constraint G d subject (conflict i) =
     (let (m, d1) = LitOf d subject; (n, d2) = LitOf d1 i;
          (r, c') = C_Or G (circuit d2) (lit_not m) (lit_not n)
      in (r, d2\<lparr>circuit := c'\<rparr>))"
| "apply_constraint G d subject (leq ids n) =
     (let (ms, d1) = LitsOf d ids; (k, c') = C_CardSort G (circuit d1) ms
      in (CS_Leq G k n, d1\<lparr>circuit := c'\<rparr>))"
| "apply_constraint G d subject (prettyConstraint c msg) = apply_constraint G d subject c"

fun assignLits :: "('c, 's, 'k) gini \<Rightarrow> 'c litMapping \<Rightarrow> Variable list
    \<Rightarrow> Identifier + 'c litMapping" where
  "assignLits G d [] = Inr d"
| "assignLits G d (v # vs) =
     (let (im, c') = C_Lit G (circuit d); d1 = d\<lparr>circuit := c'\<rparr>
      in if lits d1 (Identifier v) \<noteq> None then Inl (Identifier v)
         else assignLits G (d1\<lparr>lits := (lits d1)(Identifier v \<mapsto> im),
                              variables := (variables d1)(im \<mapsto> v)\<rparr>) vs)"

definition storeConstraint :: "Lit \<Rightarrow> AppliedConstraint \<Rightarrow> 'c litMapping \<Rightarrow> 'c litMapping" where
  "storeConstraint m a d = d\<lparr>constraints := (m, a) # filter (\<lambda>(l, _). l \<noteq> m) (constraints d)\<rparr>"

fun addConstraints :: "('c, 's, 'k) gini \<Rightarrow> 'c litMapping \<Rightarrow> Variable \<Rightarrow> Constraint list
    \<Rightarrow> 'c litMapping" where
  "addConstraints G d v [] = d"
| "addConstraints G d v (k # ks) =
     (let (m, d1) = apply_constraint G d (Identifier v) k
      in addConstraints G
           (if m = LitNull then d1
            else storeConstraint m \<lparr>AC_Variable = v, AC_Constraint = k\<rparr> d1) v ks)"

fun addAllConstraints :: "('c, 's, 'k) gini \<Rightarrow> 'c litMapping \<Rightarrow> Variable list \<Rightarrow> 'c litMapping" where
  "addAllConstraints G d [] = d"
| "addAllConstraints G d (v # vs) = addAllConstraints G (addConstraints G d v (Constraints v)) vs"

definition newLitMapping :: "('c, 's, 'k) gini \<Rightarrow> Variable list \<Rightarrow> Identifier + 'c litMapping" where
  "newLitMapping G vs =
     bind_err (assignLits G \<lparr>inorder = vs, variables = Map.empty, lits = Map.empty,
                 constraints = [], circuit = C_New G, errs = []\<rparr> vs)
       (\<lambda>d. Inr (addAllConstraints G d vs))"

definition lm_Error :: "'c litMapping \<Rightarrow> lm_error list option" where
  "lm_Error d = (if length (errs d) = 0 then None else Some (errs d))"

definition AddConstraints :: "('c, 's, 'k) gini \<Rightarrow> 'c litMapping \<Rightarrow> 's \<Rightarrow> 's" where
  "AddConstraints G d g = C_ToCnf G (circuit d) g"

definition AssumeConstraints :: "('c, 's, 'k) gini \<Rightarrow> 'c litMapping \<Rightarrow> 's \<Rightarrow> 's" where
  "AssumeConstraints G d g = fold (\<lambda>(m, a) g. S_Assume G g [m]) (constraints d) g"

fun cnfLeq :: "('c, 's, 'k) gini \<Rightarrow> 'c \<Rightarrow> 'k \<Rightarrow> nat list \<Rightarrow> int list \<Rightarrow> 's \<Rightarrow> 's" where
  "cnfLeq G c cs [] marks g = g"
| "cnfLeq G c cs (w # ws) marks g =
     (let (marks', g') = C_CnfSince G c g marks (CS_Leq G cs (int w)) in cnfLeq G c cs ws marks' g')"

definition CardinalityConstrainer :: "('c, 's, 'k) gini \<Rightarrow> 'c litMapping \<Rightarrow> 's \<Rightarrow> Lit list
    \<Rightarrow> 'k \<times> 'c litMapping \<times> 's" where
  "CardinalityConstrainer G d g ms =
     (let clen = C_Len G (circuit d); (cs, c') = C_CardSort G (circuit d) ms;
          marks = replicate clen 1
      in (cs, d\<lparr>circuit := c'\<rparr>, cnfLeq G c' cs [0..<Suc (CS_N G cs)] marks g))"

definition AnchorIdentifiers :: "'c litMapping \<Rightarrow> Identifier list" where
  "AnchorIdentifiers d =
     map Identifier (filter (\<lambda>v. list_ex anchor (Constraints v)) (inorder d))"

fun selectVariables :: "('c, 's, 'k) gini \<Rightarrow> 'c litMapping \<Rightarrow> 's \<Rightarrow> Variable list
    \<Rightarrow> Variable list \<times> 'c litMapping" where
  "selectVariables G d g [] = ([], d)"
| "selectVariables G d g (v # vs) =
     (let (m, d1) = LitOf d (Identifier v); (rest, d2) = selectVariables G d1 g vs
      in (if S_Value G g m then v # rest else rest, d2))"

definition Variables :: "('c, 's, 'k) gini \<Rightarrow> 'c litMapping \<Rightarrow> 's \<Rightarrow> Variable list \<times> 'c litMapping" where
  "Variables G d g = selectVariables G d g (inorder d)"

definition Lits :: "'c litMapping \<Rightarrow> Lit list \<times> 'c litMapping" where
  "Lits d = LitsOf d (map Identifier (inorder d))"

definition Conflicts :: "('c, 's, 'k) gini \<Rightarrow> 'c litMapping \<Rightarrow> 's \<Rightarrow> AppliedConstraint list" where
  "Conflicts G d g = List.map_filter (\<lambda>why. map_of (constraints d) why) (S_Why G g)"

section \<open>What gini promises\<close>

text \<open>\<open>cons c \<nu>\<close> says that the valuation \<open>\<nu>\<close> of the literals agrees with the gates of the
  circuit \<open>c\<close>, and \<open>known c\<close> is the set of literals of \<open>c\<close>. \<open>grows\<close>: every valuation of
  the smaller circuit extends to the larger one without changing the literals it had.\<close>

type_synonym valuation = "Lit \<Rightarrow> bool"

definition grows :: "('c \<Rightarrow> valuation \<Rightarrow> bool) \<Rightarrow> ('c \<Rightarrow> Lit set) \<Rightarrow> 'c \<Rightarrow> 'c \<Rightarrow> bool" where
  "grows cons known c c' \<longleftrightarrow>
     (\<forall>\<nu>. cons c \<nu> \<longrightarrow> (\<exists>\<nu>'. cons c' \<nu>' \<and> (\<forall>l\<in>known c. \<nu>' l = \<nu> l)))"

text \<open>A literal and its negation have opposite values; a new circuit constrains nothing.\<close>

definition neg_law :: "('c, 's, 'k) gini \<Rightarrow> ('c \<Rightarrow> valuation \<Rightarrow> bool) \<Rightarrow> ('c \<Rightarrow> Lit set) \<Rightarrow> bool" where
  "neg_law G cons known \<longleftrightarrow>
     (\<forall>c \<nu> m. cons c \<nu> \<longrightarrow> \<nu> (lit_not m) = (\<not> \<nu> m))
     \<and> (\<forall>c m. m \<in> known c \<longrightarrow> lit_not m \<in> known c) \<and> (\<exists>\<nu>. cons (C_New G) \<nu>)"

text \<open>\<open>Lit\<close> returns the positive literal of a fresh input.\<close>

definition lit_law :: "('c, 's, 'k) gini \<Rightarrow> ('c \<Rightarrow> valuation \<Rightarrow> bool) \<Rightarrow> ('c \<Rightarrow> Lit set) \<Rightarrow> bool" where
  "lit_law G cons known \<longleftrightarrow>
     (\<forall>c m c'. C_Lit G c = (m, c') \<longrightarrow>
        m \<noteq> LitNull \<and> even m \<and> m \<notin> known c \<and> known c \<subseteq> known c' \<and> m \<in> known c'
        \<and> (\<forall>\<nu>. cons c' \<nu> \<longrightarrow> cons c \<nu>)
        \<and> (\<forall>\<nu> b. cons c \<nu> \<longrightarrow> (\<exists>\<nu>'. cons c' \<nu>' \<and> \<nu>' m = b \<and> (\<forall>l\<in>known c. \<nu>' l = \<nu> l))))"

text \<open>\<open>Or\<close> returns a literal equivalent to the disjunction.\<close>

definition or_law :: "('c, 's, 'k) gini \<Rightarrow> ('c \<Rightarrow> valuation \<Rightarrow> bool) \<Rightarrow> ('c \<Rightarrow> Lit set) \<Rightarrow> bool" where
  "or_law G cons known \<longleftrightarrow>
     (\<forall>c a b m c'. C_Or G c a b = (m, c') \<longrightarrow>
        m \<noteq> LitNull \<and> known c \<subseteq> known c' \<and> m \<in> known c'
        \<and> (\<forall>\<nu>. cons c' \<nu> \<longrightarrow> cons c \<nu> \<and> \<nu> m = (\<nu> a \<or> \<nu> b))
        \<and> (a \<in> known c \<longrightarrow> b \<in> known c \<longrightarrow> grows cons known c c'))"

text \<open>\<open>CardSort\<close> counts the true literals.\<close>

definition card_law :: "('c, 's, 'k) gini \<Rightarrow> ('c \<Rightarrow> valuation \<Rightarrow> bool) \<Rightarrow> ('c \<Rightarrow> Lit set) \<Rightarrow> bool" where
  "card_law G cons known \<longleftrightarrow>
     (\<forall>c ms k c'. C_CardSort G c ms = (k, c') \<longrightarrow>
        known c \<subseteq> known c' \<and> (\<forall>n. CS_Leq G k n \<noteq> LitNull)
        \<and> (\<forall>\<nu>. cons c' \<nu> \<longrightarrow> cons c \<nu>
             \<and> (\<forall>n. \<nu> (CS_Leq G k n) = (int (length (filter \<nu> ms)) \<le> n)))
        \<and> (set ms \<subseteq> known c \<longrightarrow> grows cons known c c'))"

definition circuit_contract :: "('c, 's, 'k) gini \<Rightarrow> ('c \<Rightarrow> valuation \<Rightarrow> bool) \<Rightarrow> ('c \<Rightarrow> Lit set) \<Rightarrow> bool" where
  "circuit_contract G cons known \<longleftrightarrow>
     neg_law G cons known \<and> lit_law G cons known \<and> or_law G cons known \<and> card_law G cons known"

text \<open>The assumptions in force: those of the open test scopes and the untested ones.\<close>

definition sat_under :: "((Lit \<Rightarrow> bool) \<Rightarrow> bool) \<Rightarrow> Lit list list \<Rightarrow> (Lit \<Rightarrow> bool) \<Rightarrow> bool" where
  "sat_under mods scs \<nu> \<longleftrightarrow> mods \<nu> \<and> (\<forall>sc\<in>set scs. \<forall>m\<in>set sc. \<nu> m)"

text \<open>Assumptions are pending until the next \<open>Test\<close> or \<open>Solve\<close>.\<close>

definition assume_law :: "('c, 's, 'k) gini \<Rightarrow> ('s \<Rightarrow> valuation \<Rightarrow> bool) \<Rightarrow> ('s \<Rightarrow> Lit list list)
    \<Rightarrow> ('s \<Rightarrow> Lit list) \<Rightarrow> bool" where
  "assume_law G models scopes pending \<longleftrightarrow>
     (\<forall>s ms. models (S_Assume G s ms) = models s \<and> scopes (S_Assume G s ms) = scopes s
        \<and> pending (S_Assume G s ms) = pending s @ ms)"

text \<open>\<open>Test\<close> opens a scope with the pending assumptions; its verdict \<open>-1\<close> is right.\<close>

definition test_law :: "('c, 's, 'k) gini \<Rightarrow> ('s \<Rightarrow> valuation \<Rightarrow> bool) \<Rightarrow> ('s \<Rightarrow> Lit list list)
    \<Rightarrow> ('s \<Rightarrow> Lit list) \<Rightarrow> bool" where
  "test_law G models scopes pending \<longleftrightarrow>
     (\<forall>s r s'. S_Test G s = (r, s') \<longrightarrow> models s' = models s
          \<and> scopes s' = pending s # scopes s \<and> pending s' = []
          \<and> (r = -1 \<longrightarrow> (\<nexists>\<nu>. sat_under (models s) (scopes s') \<nu>)))"

text \<open>\<open>Untest\<close> closes the innermost scope.\<close>

definition untest_law :: "('c, 's, 'k) gini \<Rightarrow> ('s \<Rightarrow> valuation \<Rightarrow> bool) \<Rightarrow> ('s \<Rightarrow> Lit list list)
    \<Rightarrow> ('s \<Rightarrow> Lit list) \<Rightarrow> bool" where
  "untest_law G models scopes pending \<longleftrightarrow>
     (\<forall>s r s'. scopes s \<noteq> [] \<longrightarrow> pending s = [] \<longrightarrow> S_Untest G s = (r, s') \<longrightarrow> models s' = models s
          \<and> scopes s' = tl (scopes s) \<and> pending s' = []
          \<and> (r = -1 \<longrightarrow> (\<nexists>\<nu>. sat_under (models s) (scopes s') \<nu>)))"

text \<open>\<open>Solve\<close> decides under all assumptions, and \<open>Value\<close> then reads a model.\<close>

definition solve_law :: "('c, 's, 'k) gini \<Rightarrow> ('s \<Rightarrow> valuation \<Rightarrow> bool) \<Rightarrow> ('s \<Rightarrow> Lit list list)
    \<Rightarrow> ('s \<Rightarrow> Lit list) \<Rightarrow> bool" where
  "solve_law G models scopes pending \<longleftrightarrow>
     (\<forall>s r s'. S_Solve G s = (r, s') \<longrightarrow> models s' = models s
          \<and> scopes s' = scopes s \<and> pending s' = []
          \<and> (r = 1 \<longrightarrow> sat_under (models s) (pending s # scopes s) (S_Value G s'))
          \<and> (r = -1 \<longrightarrow> (\<nexists>\<nu>. sat_under (models s) (pending s # scopes s) \<nu>)))"

text \<open>\<open>ToCnf\<close> adds the clauses of a circuit; \<open>CnfSince\<close> adds clauses.\<close>

definition cnf_law :: "('c, 's, 'k) gini \<Rightarrow> ('c \<Rightarrow> valuation \<Rightarrow> bool) \<Rightarrow> ('s \<Rightarrow> valuation \<Rightarrow> bool)
    \<Rightarrow> ('s \<Rightarrow> Lit list list) \<Rightarrow> ('s \<Rightarrow> Lit list) \<Rightarrow> bool" where
  "cnf_law G cons models scopes pending \<longleftrightarrow>
     (\<forall>c s. scopes s = [] \<longrightarrow> models (C_ToCnf G c s) = (\<lambda>\<nu>. models s \<nu> \<and> cons c \<nu>)
          \<and> scopes (C_ToCnf G c s) = [] \<and> pending (C_ToCnf G c s) = pending s)
     \<and> (\<forall>c s marks m marks' s'. scopes s = [] \<longrightarrow> C_CnfSince G c s marks m = (marks', s') \<longrightarrow>
          (\<forall>\<nu>. models s' \<nu> \<longrightarrow> models s \<nu>) \<and> scopes s' = [] \<and> pending s' = pending s)"

definition solver_contract :: "('c, 's, 'k) gini \<Rightarrow> ('c \<Rightarrow> valuation \<Rightarrow> bool)
    \<Rightarrow> ('s \<Rightarrow> valuation \<Rightarrow> bool) \<Rightarrow> ('s \<Rightarrow> Lit list list) \<Rightarrow> ('s \<Rightarrow> Lit list) \<Rightarrow> bool" where
  "solver_contract G cons models scopes pending \<longleftrightarrow>
     assume_law G models scopes pending \<and> test_law G models scopes pending
     \<and> untest_law G models scopes pending \<and> solve_law G models scopes pending
     \<and> cnf_law G cons models scopes pending"

end
