(* ===== verification/Solver_Search.thy ===== *)
theory Solver_Search
  imports Lit_Mapping
begin

text \<open>
  The preference-ordered search of the dependency solver,
  \<open>resolver/solver/search.go\<close>.

  The deque of unmade choices is a list, its front first; the stack of guesses is a list,
  its top first (the Go slice grows at its end); the set of assumptions is a list without
  repetition. \<open>PopChoiceFront\<close> and \<open>PopChoiceBack\<close> dereference a nil pointer on an empty
  deque and \<open>PopGuess\<close> reads below an empty slice: these panics are \<open>None\<close>.  The loop of
  \<open>Do\<close> is a partial function whose value \<open>None\<close> means that it panics or does not return; it
  is shown below that it always returns, whatever the SAT solver answers.
\<close>

record choice =
  choice_index :: nat
  choice_candidates :: "Lit list"

record guess =
  guess_m :: Lit
  guess_index :: nat
  guess_children :: nat
  guess_candidates :: "Lit list"

record ('c, 's) search =
  sr_s :: 's
  sr_lits :: "'c litMapping"
  sr_assumptions :: "Lit list"
  sr_guesses :: "guess list"
  sr_choices :: "choice list"
  sr_result :: int

abbreviation satisfiable :: int where "satisfiable \<equiv> 1"
abbreviation unsatisfiable :: int where "unsatisfiable \<equiv> -1"
abbreviation unknown :: int where "unknown \<equiv> 0"

section \<open>The deque\<close>

definition PushChoiceFront :: "choice \<Rightarrow> ('c, 's) search \<Rightarrow> ('c, 's) search" where
  "PushChoiceFront c h = h\<lparr>sr_choices := c # sr_choices h\<rparr>"

definition PopChoiceFront :: "('c, 's) search \<Rightarrow> (choice \<times> ('c, 's) search) option" where
  "PopChoiceFront h = (case sr_choices h of
       [] \<Rightarrow> None
     | c # cs \<Rightarrow> Some (c, h\<lparr>sr_choices := cs\<rparr>))"

definition PushChoiceBack :: "choice \<Rightarrow> ('c, 's) search \<Rightarrow> ('c, 's) search" where
  "PushChoiceBack c h = h\<lparr>sr_choices := sr_choices h @ [c]\<rparr>"

definition PopChoiceBack :: "('c, 's) search \<Rightarrow> (choice \<times> ('c, 's) search) option" where
  "PopChoiceBack h = (if sr_choices h = [] then None
     else Some (last (sr_choices h), h\<lparr>sr_choices := butlast (sr_choices h)\<rparr>))"

section \<open>Guessing and backtracking\<close>

text \<open>The loop over the constraints of the guessed variable: one choice at the back of the
  deque per constraint that orders candidates, counted in the top guess.\<close>

fun pushChildren :: "Constraint list \<Rightarrow> guess \<Rightarrow> ('c, 's) search \<Rightarrow> guess \<times> ('c, 's) search" where
  "pushChildren [] g h = (g, h)"
| "pushChildren (k # ks) g h =
     (let (ms, d) = LitsOf (sr_lits h) (order k); h1 = h\<lparr>sr_lits := d\<rparr>
      in if length ms > 0 then
           pushChildren ks (g\<lparr>guess_children := guess_children g + 1\<rparr>)
             (PushChoiceBack \<lparr>choice_index = 0, choice_candidates = ms\<rparr> h1)
         else pushChildren ks g h1)"

definition chooseLit :: "choice \<Rightarrow> Lit list \<Rightarrow> Lit" where
  "chooseLit c assumptions =
     (if list_ex (\<lambda>m. m \<in> set assumptions) (choice_candidates c) then LitNull
      else if choice_index c < length (choice_candidates c) then choice_candidates c ! choice_index c
      else LitNull)"

definition PushGuess :: "('c, 's, 'k) gini \<Rightarrow> ('c, 's) search \<Rightarrow> ('c, 's) search option" where
  "PushGuess G h =
     (case PopChoiceFront h of
        None \<Rightarrow> None
      | Some (c, h1) \<Rightarrow>
          (let m = chooseLit c (sr_assumptions h1);
               g = \<lparr>guess_m = m, guess_index = choice_index c, guess_children = 0,
                    guess_candidates = choice_candidates c\<rparr>
           in if m = LitNull then Some (h1\<lparr>sr_guesses := g # sr_guesses h1\<rparr>)
              else
                let (v, d) = VariableOf (sr_lits h1) m;
                    (g', h2) = pushChildren (Constraints v) g (h1\<lparr>sr_lits := d\<rparr>);
                    (r, s') = S_Test G (S_Assume G (sr_s h2) [m])
                in Some (h2\<lparr>sr_guesses := g' # sr_guesses h1,
                            sr_assumptions := m # sr_assumptions h2,
                            sr_s := s', sr_result := r\<rparr>)))"

fun popChildren :: "nat \<Rightarrow> ('c, 's) search \<Rightarrow> ('c, 's) search option" where
  "popChildren 0 h = Some h"
| "popChildren (Suc n) h =
     (case PopChoiceBack h of None \<Rightarrow> None | Some (c, h') \<Rightarrow> popChildren n h')"

definition PopGuess :: "('c, 's, 'k) gini \<Rightarrow> ('c, 's) search \<Rightarrow> ('c, 's) search option" where
  "PopGuess G h =
     (case sr_guesses h of
        [] \<Rightarrow> None
      | g # gs \<Rightarrow>
          (let h1 = h\<lparr>sr_guesses := gs\<rparr>;
               h2 = (if guess_m g \<noteq> LitNull then
                       let (r, s') = S_Untest G (sr_s h1)
                       in h1\<lparr>sr_assumptions := removeAll (guess_m g) (sr_assumptions h1),
                             sr_s := s', sr_result := r\<rparr>
                     else h1)
           in case popChildren (guess_children g) h2 of
                None \<Rightarrow> None
              | Some h3 \<Rightarrow>
                  Some (PushChoiceFront
                    \<lparr>choice_index = (if guess_m g \<noteq> LitNull then guess_index g + 1 else guess_index g),
                     choice_candidates = guess_candidates g\<rparr> h3)))"

section \<open>The search\<close>

definition guessedLits :: "guess list \<Rightarrow> Lit list" where
  "guessedLits gs = filter (\<lambda>m. m \<noteq> LitNull) (map guess_m (rev gs))"

definition search_Lits :: "('c, 's) search \<Rightarrow> Lit list" where
  "search_Lits h = guessedLits (sr_guesses h)"

definition settle :: "('c, 's, 'k) gini \<Rightarrow> ('c, 's) search \<Rightarrow> ('c, 's) search" where
  "settle G h =
     (if sr_choices h = [] \<and> sr_result h = unknown then
        let (r, s') = S_Solve G (sr_s h) in h\<lparr>sr_result := r, sr_s := s'\<rparr>
      else h)"

partial_function (option) searchLoop :: "('c, 's, 'k) gini \<Rightarrow> ('c, 's) search \<Rightarrow> ('c, 's) search option" where
  "searchLoop G h0 =
     (let h = settle G h0 in
      if sr_result h = unsatisfiable then
        (if sr_guesses h = [] then Some h
         else Option.bind (PopGuess G h) (searchLoop G))
      else if sr_choices h = [] then Some h
      else Option.bind (PushGuess G h) (searchLoop G))"

fun unwind :: "('c, 's, 'k) gini \<Rightarrow> nat \<Rightarrow> ('c, 's) search \<Rightarrow> ('c, 's) search option" where
  "unwind G 0 h = Some h"
| "unwind G (Suc n) h = Option.bind (PopGuess G h) (unwind G n)"

definition anchorChoices :: "Lit list \<Rightarrow> choice list" where
  "anchorChoices anchors = map (\<lambda>m. \<lparr>choice_index = 0, choice_candidates = [m]\<rparr>) anchors"

definition newSearch :: "'s \<Rightarrow> 'c litMapping \<Rightarrow> ('c, 's) search" where
  "newSearch s d = \<lparr>sr_s = s, sr_lits = d, sr_assumptions = [], sr_guesses = [], sr_choices = [],
     sr_result = unknown\<rparr>"

text \<open>The result of \<open>Do\<close>: the outcome, the guessed literals (the set the code builds from
  them is the set of this list), and the state after going back to the initial scope.\<close>

definition Do :: "('c, 's, 'k) gini \<Rightarrow> ('c, 's) search \<Rightarrow> Lit list
    \<Rightarrow> (int \<times> Lit list \<times> ('c, 's) search) option" where
  "Do G h anchors =
     Option.bind (searchLoop G (fold PushChoiceBack (anchorChoices anchors) h)) (\<lambda>h1.
       Option.bind (unwind G (length (sr_guesses h1)) h1) (\<lambda>h2.
         Some (sr_result h1, search_Lits h1, h2)))"

definition search_Variables :: "('c, 's) search \<Rightarrow> Variable list" where
  "search_Variables h =
     map (\<lambda>g. fst (VariableOf (sr_lits h) (guess_candidates g ! guess_index g)))
       (filter (\<lambda>g. guess_m g \<noteq> LitNull) (rev (sr_guesses h)))"

definition search_Conflicts :: "('c, 's, 'k) gini \<Rightarrow> ('c, 's) search \<Rightarrow> AppliedConstraint list" where
  "search_Conflicts G h = Conflicts G (sr_lits h) (sr_s h)"

section \<open>What the operations leave alone\<close>

lemma LitOf_frame [simp]:
  "variables (snd (LitOf d i)) = variables d" "lits (snd (LitOf d i)) = lits d"
  "inorder (snd (LitOf d i)) = inorder d" "circuit (snd (LitOf d i)) = circuit d"
  "constraints (snd (LitOf d i)) = constraints d"
  by (auto simp: LitOf_def split: option.splits)

lemma LitOf_eq: "LitOf d i = (m, d') \<Longrightarrow> m = (case lits d i of Some m \<Rightarrow> m | None \<Rightarrow> LitNull)"
  by (auto simp: LitOf_def split: option.splits)

lemma VariableOf_frame [simp]:
  "variables (snd (VariableOf d m)) = variables d" "lits (snd (VariableOf d m)) = lits d"
  "inorder (snd (VariableOf d m)) = inorder d" "circuit (snd (VariableOf d m)) = circuit d"
  "constraints (snd (VariableOf d m)) = constraints d"
  by (auto simp: VariableOf_def split: option.splits)

lemma LitsOf_frame_all:
  "variables (snd (LitsOf d is)) = variables d \<and> lits (snd (LitsOf d is)) = lits d
   \<and> inorder (snd (LitsOf d is)) = inorder d \<and> circuit (snd (LitsOf d is)) = circuit d
   \<and> constraints (snd (LitsOf d is)) = constraints d"
  by (induction "is" arbitrary: d) (simp_all add: split_beta)

lemmas LitsOf_frame [simp] =
  LitsOf_frame_all [THEN conjunct1]
  LitsOf_frame_all [THEN conjunct2, THEN conjunct1]
  LitsOf_frame_all [THEN conjunct2, THEN conjunct2, THEN conjunct1]
  LitsOf_frame_all [THEN conjunct2, THEN conjunct2, THEN conjunct2, THEN conjunct1]
  LitsOf_frame_all [THEN conjunct2, THEN conjunct2, THEN conjunct2, THEN conjunct2]

lemma LitsOf_fst:
  "fst (LitsOf d is) = map (\<lambda>i. case lits d i of Some m \<Rightarrow> m | None \<Rightarrow> LitNull) is"
proof (induction "is" arbitrary: d)
  case (Cons i "is")
  then show ?case
    by (simp add: split_beta) (simp add: LitOf_def split: option.splits)
qed simp

lemma LitsOf_length [simp]: "length (fst (LitsOf d is)) = length is"
  by (simp add: LitsOf_fst)

text \<open>The choices that guessing a variable adds.\<close>

definition litOf' :: "(Identifier \<rightharpoonup> Lit) \<Rightarrow> Identifier \<Rightarrow> Lit" where
  "litOf' l i = (case l i of Some m \<Rightarrow> m | None \<Rightarrow> LitNull)"

definition childChoices :: "(Identifier \<rightharpoonup> Lit) \<Rightarrow> Constraint list \<Rightarrow> choice list" where
  "childChoices l ks = map (\<lambda>k. \<lparr>choice_index = 0, choice_candidates = map (litOf' l) (order k)\<rparr>)
     (filter (\<lambda>k. order k \<noteq> []) ks)"

lemma LitsOf_litOf': "fst (LitsOf d is) = map (litOf' (lits d)) is"
  by (simp add: LitsOf_fst litOf'_def)

lemma pushChildren_effect:
  assumes "pushChildren ks g h = (g', h')"
  shows "sr_choices h' = sr_choices h @ childChoices (lits (sr_lits h)) ks
    \<and> guess_children g' = guess_children g + length (childChoices (lits (sr_lits h)) ks)
    \<and> guess_m g' = guess_m g \<and> guess_index g' = guess_index g \<and> guess_candidates g' = guess_candidates g
    \<and> sr_guesses h' = sr_guesses h \<and> sr_assumptions h' = sr_assumptions h \<and> sr_s h' = sr_s h
    \<and> sr_result h' = sr_result h \<and> lits (sr_lits h') = lits (sr_lits h)
    \<and> variables (sr_lits h') = variables (sr_lits h)
    \<and> constraints (sr_lits h') = constraints (sr_lits h) \<and> inorder (sr_lits h') = inorder (sr_lits h)
    \<and> circuit (sr_lits h') = circuit (sr_lits h)"
  using assms
proof (induction ks arbitrary: g h)
  case (Cons k ks)
  obtain ms d where l: "LitsOf (sr_lits h) (order k) = (ms, d)" by fastforce
  have d: "lits d = lits (sr_lits h)" "variables d = variables (sr_lits h)"
      "constraints d = constraints (sr_lits h)" "inorder d = inorder (sr_lits h)"
      "circuit d = circuit (sr_lits h)"
    and ms: "ms = map (litOf' (lits (sr_lits h))) (order k)"
    using LitsOf_frame [of "sr_lits h" "order k"] LitsOf_litOf' [of "sr_lits h" "order k"] l by simp_all
  show ?case
  proof (cases "order k = []")
    case True
    then have "pushChildren ks g (h\<lparr>sr_lits := d\<rparr>) = (g', h')" using Cons.prems l ms by auto
    from Cons.IH [OF this] True show ?thesis by (simp add: d childChoices_def)
  next
    case False
    then have "pushChildren ks (g\<lparr>guess_children := guess_children g + 1\<rparr>)
        (PushChoiceBack \<lparr>choice_index = 0, choice_candidates = ms\<rparr> (h\<lparr>sr_lits := d\<rparr>)) = (g', h')"
      using Cons.prems l ms by simp
    from Cons.IH [OF this] False show ?thesis by (simp add: d ms childChoices_def PushChoiceBack_def)
  qed
qed (simp add: childChoices_def)

lemma popChildren_eq:
  "popChildren n h = (if n \<le> length (sr_choices h)
     then Some (h\<lparr>sr_choices := take (length (sr_choices h) - n) (sr_choices h)\<rparr>) else None)"
proof (induction n arbitrary: h)
  case (Suc n)
  show ?case
  proof (cases "sr_choices h = []")
    case False
    then have "min (length (sr_choices h) - Suc n) (length (sr_choices h) - Suc 0)
        = length (sr_choices h) - Suc n" by simp
    moreover have "n \<le> length (sr_choices h) - 1 \<longleftrightarrow> Suc n \<le> length (sr_choices h)"
      using False by (cases "sr_choices h") auto
    ultimately show ?thesis using False by (simp add: Suc PopChoiceBack_def butlast_conv_take)
  qed (simp add: PopChoiceBack_def)
qed simp

text \<open>The two steps of the loop, as equations.\<close>

lemma PushGuess_null:
  assumes "sr_choices h = c # cs" "chooseLit c (sr_assumptions h) = LitNull"
  shows "PushGuess G h = Some (h\<lparr>sr_choices := cs,
    sr_guesses := \<lparr>guess_m = LitNull, guess_index = choice_index c, guess_children = 0,
                   guess_candidates = choice_candidates c\<rparr> # sr_guesses h\<rparr>)"
  using assms by (simp add: PushGuess_def PopChoiceFront_def)

lemma PushGuess_lit:
  assumes "sr_choices h = c # cs" "chooseLit c (sr_assumptions h) = m" "m \<noteq> LitNull"
  defines "ch \<equiv> childChoices (lits (sr_lits h)) (Constraints (fst (VariableOf (sr_lits h) m)))"
  obtains h' r s' where "PushGuess G h = Some h'" "S_Test G (S_Assume G (sr_s h) [m]) = (r, s')"
    "sr_choices h' = cs @ ch"
    "sr_guesses h' = \<lparr>guess_m = m, guess_index = choice_index c, guess_children = length ch,
       guess_candidates = choice_candidates c\<rparr> # sr_guesses h"
    "sr_assumptions h' = m # sr_assumptions h" "sr_s h' = s'" "sr_result h' = r"
    "lits (sr_lits h') = lits (sr_lits h)" "variables (sr_lits h') = variables (sr_lits h)"
    "constraints (sr_lits h') = constraints (sr_lits h)" "inorder (sr_lits h') = inorder (sr_lits h)"
    "circuit (sr_lits h') = circuit (sr_lits h)"
proof -
  obtain v d where v: "VariableOf (sr_lits h) m = (v, d)" by fastforce
  define g where "g = \<lparr>guess_m = m, guess_index = choice_index c, guess_children = 0,
     guess_candidates = choice_candidates c\<rparr>"
  obtain g' h2 where p: "pushChildren (Constraints v) g (h\<lparr>sr_choices := cs, sr_lits := d\<rparr>) = (g', h2)"
    by fastforce
  obtain r s' where t: "S_Test G (S_Assume G (sr_s h) [m]) = (r, s')" by fastforce
  note e = pushChildren_effect [OF p]
  have d: "lits d = lits (sr_lits h)" "variables d = variables (sr_lits h)"
    "constraints d = constraints (sr_lits h)" "inorder d = inorder (sr_lits h)"
    "circuit d = circuit (sr_lits h)"
    using VariableOf_frame [of "sr_lits h" m] v by simp_all
  have eq: "PushGuess G h = Some (h2\<lparr>sr_guesses := g' # sr_guesses h,
      sr_assumptions := m # sr_assumptions h2, sr_s := s', sr_result := r\<rparr>)"
    using assms(1-3) v p t e by (simp add: PushGuess_def PopChoiceFront_def g_def Let_def)
  have "g' = \<lparr>guess_m = m, guess_index = choice_index c, guess_children = length ch,
       guess_candidates = choice_candidates c\<rparr>"
    using e v d by (simp add: ch_def g_def)
  then show thesis using that [OF eq t] e d v by (simp add: ch_def)
qed

lemma PopGuess_eq:
  assumes "sr_guesses h = g # gs" "guess_children g \<le> length (sr_choices h)"
  defines "rest \<equiv> take (length (sr_choices h) - guess_children g) (sr_choices h)"
  shows "PopGuess G h = Some (if guess_m g = LitNull
     then h\<lparr>sr_guesses := gs, sr_choices := \<lparr>choice_index = guess_index g,
             choice_candidates = guess_candidates g\<rparr> # rest\<rparr>
     else h\<lparr>sr_guesses := gs, sr_choices := \<lparr>choice_index = guess_index g + 1,
             choice_candidates = guess_candidates g\<rparr> # rest,
           sr_assumptions := removeAll (guess_m g) (sr_assumptions h),
           sr_s := snd (S_Untest G (sr_s h)), sr_result := fst (S_Untest G (sr_s h))\<rparr>)"
  using assms by (simp add: PopGuess_def popChildren_eq PushChoiceFront_def split_beta Let_def)


section \<open>The search always returns\<close>

text \<open>
  \<open>R\<close> bounds the candidates of a choice, \<open>K\<close> the choices that one guess adds and \<open>n\<close>
  counts the literals that can still be guessed. \<open>F R K n k\<close> bounds the steps left for a
  deque of \<open>k\<close> choices, and \<open>Gp R K r n k\<close> those for a front choice with \<open>r\<close> candidates
  left before \<open>k\<close> further choices.
\<close>

function F :: "nat \<Rightarrow> nat \<Rightarrow> nat \<Rightarrow> nat \<Rightarrow> nat" where
  "F R K n 0 = 0"
| "F R K 0 (Suc k) = 2 + F R K 0 k"
| "F R K (Suc n) (Suc k) = R * (3 + F R K n (k + K)) + 2 + F R K (Suc n) k"
  by pat_completeness auto
termination
  by (relation "measures [\<lambda>(R, K, n, k). n, \<lambda>(R, K, n, k). k]") auto

fun Gp :: "nat \<Rightarrow> nat \<Rightarrow> nat \<Rightarrow> nat \<Rightarrow> nat \<Rightarrow> nat" where
  "Gp R K r 0 k = 2 + F R K 0 k"
| "Gp R K r (Suc n) k = r * (3 + F R K n (k + K)) + 2 + F R K (Suc n) k"

lemma F_Suc: "F R K n (Suc k) = Gp R K R n k"
  by (cases n) auto

lemma Gp_le: "r \<le> r' \<Longrightarrow> Gp R K r n k \<le> Gp R K r' n k"
  by (cases n) (auto intro: mult_le_mono1)

lemma F_mono: "k \<le> k' \<Longrightarrow> F R K n k \<le> F R K n k'"
proof (induction rule: dec_induct)
  case (step m)
  have "F R K n m \<le> F R K n (Suc m)" by (cases n) auto
  with step show ?case by simp
qed simp

text \<open>The potential of a state: what its deque and its stack of guesses can still cost.\<close>

definition remaining :: "choice \<Rightarrow> nat" where
  "remaining c = length (choice_candidates c) - choice_index c"

fun dequePot :: "nat \<Rightarrow> nat \<Rightarrow> nat \<Rightarrow> choice list \<Rightarrow> nat" where
  "dequePot R K n [] = 0"
| "dequePot R K n (c # cs) = Gp R K (remaining c) n (length cs)"

fun stackPot :: "nat \<Rightarrow> nat \<Rightarrow> nat \<Rightarrow> nat \<Rightarrow> guess list \<Rightarrow> nat" where
  "stackPot R K n k [] = 0"
| "stackPot R K n k (g # gs) =
     (if guess_m g = 0 then 1 + stackPot R K n (Suc (k - guess_children g)) gs
      else 2 + Gp R K (length (guess_candidates g) - (guess_index g + 1)) (Suc n) (k - guess_children g)
           + stackPot R K (Suc n) (Suc (k - guess_children g)) gs)"

fun unwindable :: "nat \<Rightarrow> guess list \<Rightarrow> bool" where
  "unwindable k [] = True"
| "unwindable k (g # gs) = (guess_children g \<le> k \<and> unwindable (Suc (k - guess_children g)) gs)"

text \<open>The invariant of the loop, for a finite universe \<open>U\<close> of literals.\<close>

definition childrenOf :: "'c litMapping \<Rightarrow> Lit \<Rightarrow> choice list" where
  "childrenOf d m = childChoices (lits d) (Constraints (fst (VariableOf d m)))"

definition loopInv :: "Lit set \<Rightarrow> nat \<Rightarrow> nat \<Rightarrow> ('c, 's) search \<Rightarrow> bool" where
  "loopInv U R K h \<longleftrightarrow>
     finite U \<and> distinct (sr_assumptions h) \<and> set (sr_assumptions h) \<subseteq> U
     \<and> sr_assumptions h = filter (\<lambda>m. m \<noteq> 0) (map guess_m (sr_guesses h))
     \<and> unwindable (length (sr_choices h)) (sr_guesses h)
     \<and> (\<forall>c\<in>set (sr_choices h). set (choice_candidates c) \<subseteq> U \<and> length (choice_candidates c) \<le> R)
     \<and> (\<forall>g\<in>set (sr_guesses h). set (guess_candidates g) \<subseteq> U \<and> length (guess_candidates g) \<le> R)
     \<and> (\<forall>m\<in>U. length (childrenOf (sr_lits h) m) \<le> K
          \<and> (\<forall>c\<in>set (childrenOf (sr_lits h) m).
               set (choice_candidates c) \<subseteq> U \<and> length (choice_candidates c) \<le> R))"

definition free :: "Lit set \<Rightarrow> ('c, 's) search \<Rightarrow> nat" where
  "free U h = card (U - set (sr_assumptions h))"

definition pot :: "Lit set \<Rightarrow> nat \<Rightarrow> nat \<Rightarrow> ('c, 's) search \<Rightarrow> nat" where
  "pot U R K h =
     (if sr_result h = unsatisfiable then 0 else 1 + dequePot R K (free U h) (sr_choices h))
     + stackPot R K (free U h) (length (sr_choices h)) (sr_guesses h)"

lemma dequePot_le:
  assumes "\<forall>c\<in>set cs. length (choice_candidates c) \<le> R"
  shows "dequePot R K n cs \<le> F R K n (length cs)"
proof (cases cs)
  case (Cons c cs')
  then have "remaining c \<le> R" using assms by (auto simp: remaining_def)
  then show ?thesis using Cons Gp_le [of "remaining c" R R K n "length cs'"] by (simp add: F_Suc)
qed simp

lemma chooseLit_cases:
  assumes "chooseLit c as = m" "m \<noteq> 0"
  shows "m \<in> set (choice_candidates c)" "m \<notin> set as"
    "choice_index c < length (choice_candidates c)"
  using assms by (auto simp: chooseLit_def list_ex_iff split: if_splits)

lemma childrenOf_cong:
  "lits d = lits d' \<Longrightarrow> variables d = variables d' \<Longrightarrow> childrenOf d m = childrenOf d' m"
  by (simp add: childrenOf_def VariableOf_def split: option.splits)

lemma free_pop:
  assumes "finite U" "set as \<subseteq> U" "m \<in> set as" "distinct as"
  shows "card (U - set (removeAll m as)) = Suc (card (U - set as))"
proof -
  have "U - set (removeAll m as) = insert m (U - set as)" using assms by auto
  then show ?thesis using assms by simp
qed

lemma loopInvD:
  assumes "loopInv U R K h"
  shows "finite U" "distinct (sr_assumptions h)" "set (sr_assumptions h) \<subseteq> U"
    "unwindable (length (sr_choices h)) (sr_guesses h)"
  using assms unfolding loopInv_def by blast+

lemma loopInv_result [simp]:
  "loopInv U R K (h\<lparr>sr_result := r\<rparr>) = loopInv U R K h"
  "loopInv U R K (h\<lparr>sr_result := r, sr_s := s\<rparr>) = loopInv U R K h"
  by (simp_all add: loopInv_def)

lemma push_null_step:
  assumes inv: "loopInv U R K h" and cs: "sr_choices h = c # cs" and r: "sr_result h \<noteq> unsatisfiable"
    and m: "chooseLit c (sr_assumptions h) = 0" and p: "PushGuess G h = Some h'"
  shows "loopInv U R K h' \<and> pot U R K h' < pot U R K h"
proof
  note eq = p [unfolded PushGuess_null [OF cs m], simplified]
  show "loopInv U R K h'" using inv cs unfolding eq [symmetric] by (auto simp: loopInv_def)
  have "dequePot R K (free U h) cs \<le> F R K (free U h) (length cs)"
    using inv cs by (intro dequePot_le) (auto simp: loopInv_def)
  moreover have "2 + F R K (free U h) (length cs) \<le> Gp R K (remaining c) (free U h) (length cs)"
    by (cases "free U h") auto
  ultimately show "pot U R K h' < pot U R K h"
    using cs r unfolding eq [symmetric] by (simp add: pot_def free_def)
qed

lemma push_lit_step:
  assumes inv: "loopInv U R K h" and cs: "sr_choices h = c # cs" and r: "sr_result h \<noteq> unsatisfiable"
    and m: "chooseLit c (sr_assumptions h) = m" "m \<noteq> 0" and p: "PushGuess G h = Some h'"
  shows "loopInv U R K h' \<and> pot U R K h' < pot U R K h"
proof -
  define ch where "ch = childrenOf (sr_lits h) m"
  obtain h1 r1 s1 where h1: "PushGuess G h = Some h1" and ch1: "sr_choices h1 = cs @ ch"
    and g1: "sr_guesses h1 = \<lparr>guess_m = m, guess_index = choice_index c, guess_children = length ch,
       guess_candidates = choice_candidates c\<rparr> # sr_guesses h"
    and a1: "sr_assumptions h1 = m # sr_assumptions h"
    and l1: "lits (sr_lits h1) = lits (sr_lits h)" "variables (sr_lits h1) = variables (sr_lits h)"
    unfolding ch_def childrenOf_def by (rule PushGuess_lit [OF cs m, of G]) blast
  have "h1 = h'" using h1 p by simp
  note ch' = ch1 [unfolded this] and g' = g1 [unfolded this] and a' = a1 [unfolded this]
    and l' = l1 [unfolded this]
  note cl = chooseLit_cases [OF m]
  have mU: "m \<in> U" using cl(1) inv cs by (auto simp: loopInv_def)
  have chR: "length ch \<le> K" "\<forall>c\<in>set ch. set (choice_candidates c) \<subseteq> U \<and> length (choice_candidates c) \<le> R"
    using inv mU by (auto simp: loopInv_def ch_def)
  have "childrenOf (sr_lits h') = childrenOf (sr_lits h)" using childrenOf_cong [OF l'] by auto
  then have inv': "loopInv U R K h'"
    using inv cs cl(2) mU chR(2) m(2) by (auto simp: loopInv_def ch' g' a')
  have fr: "free U h = Suc (free U h')"
    using free_pop [of U "m # sr_assumptions h" m] loopInvD [OF inv] mU cl(2)
    by (simp add: free_def a')
  let ?n = "free U h'" and ?k = "length cs"
  have "dequePot R K ?n (cs @ ch) \<le> F R K ?n (length (cs @ ch))"
    using inv cs chR(2) by (intro dequePot_le) (auto simp: loopInv_def)
  also have "\<dots> \<le> F R K ?n (?k + K)" using chR(1) by (intro F_mono) simp
  finally have d: "dequePot R K ?n (cs @ ch) \<le> F R K ?n (?k + K)" .
  have rem: "remaining c = Suc (length (choice_candidates c) - (choice_index c + 1))"
    using cl(3) by (simp add: remaining_def)
  have "pot U R K h' < pot U R K h"
    using d r cs m(2) by (simp add: pot_def fr ch' g' rem)
  with inv' show ?thesis by blast
qed

lemma push_step:
  assumes "loopInv U R K h" "sr_choices h \<noteq> []" "sr_result h \<noteq> unsatisfiable"
  shows "\<exists>h'. PushGuess G h = Some h' \<and> loopInv U R K h' \<and> pot U R K h' < pot U R K h"
proof -
  obtain c cs where cs: "sr_choices h = c # cs" using assms(2) by (cases "sr_choices h") auto
  show ?thesis
  proof (cases "chooseLit c (sr_assumptions h) = 0")
    case True
    then show ?thesis
      using push_null_step [OF assms(1) cs assms(3) True] PushGuess_null [OF cs True] by blast
  next
    case False
    obtain h' where "PushGuess G h = Some h'" using PushGuess_lit [OF cs refl False] by metis
    then show ?thesis using push_lit_step [OF assms(1) cs assms(3) refl False] by blast
  qed
qed

lemma pop_inv:
  assumes inv: "loopInv U R K h" and gs: "sr_guesses h = g # gs"
  shows "\<exists>h'. PopGuess G h = Some h' \<and> loopInv U R K h' \<and> sr_guesses h' = gs"
proof -
  have le: "guess_children g \<le> length (sr_choices h)" using inv gs by (simp add: loopInv_def)
  have rem: "removeAll (guess_m g) (sr_assumptions h) = filter (\<lambda>m. m \<noteq> 0) (map guess_m gs)"
    if "guess_m g \<noteq> 0"
    using inv gs that by (auto simp: loopInv_def)
  show ?thesis unfolding PopGuess_eq [OF gs le, of G] using inv gs le rem
    by (auto simp: loopInv_def dest: in_set_takeD)
qed

lemma pop_pot:
  assumes inv: "loopInv U R K h" and gs: "sr_guesses h = g # gs" and r: "sr_result h = unsatisfiable"
    and p: "PopGuess G h = Some h'"
  shows "pot U R K h' < pot U R K h"
proof -
  have le: "guess_children g \<le> length (sr_choices h)" using inv gs by (simp add: loopInv_def)
  note eq = p [unfolded PopGuess_eq [OF gs le, of G], simplified]
  show ?thesis
  proof (cases "guess_m g = 0")
    case True
    then show ?thesis unfolding eq [symmetric] using gs le r by (simp add: pot_def free_def)
  next
    case False
    let ?m = "guess_m g"
    have "?m \<in> set (sr_assumptions h)" using inv gs False by (simp add: loopInv_def)
    from free_pop [OF loopInvD(1,3) [OF inv] this loopInvD(2) [OF inv]]
    have fr: "card (U - set (removeAll ?m (sr_assumptions h))) = Suc (free U h)" by (simp add: free_def)
    show ?thesis unfolding eq [symmetric] using gs False le r fr
      by (simp add: pot_def free_def remaining_def)
  qed
qed

lemma pop_step:
  assumes inv: "loopInv U R K h" and gs: "sr_guesses h \<noteq> []" and r: "sr_result h = unsatisfiable"
  shows "\<exists>h'. PopGuess G h = Some h' \<and> loopInv U R K h' \<and> pot U R K h' < pot U R K h"
proof -
  obtain g gs' where g: "sr_guesses h = g # gs'" using gs by (cases "sr_guesses h") auto
  from pop_inv [OF inv g, of G] pop_pot [OF inv g r, of G] show ?thesis by blast
qed

lemma settle_step:
  assumes "loopInv U R K h"
  shows "loopInv U R K (settle G h)" "pot U R K (settle G h) \<le> pot U R K h"
  using assms by (auto simp: settle_def loopInv_def pot_def free_def split_beta Let_def)

text \<open>The loop returns, and keeps every property that its three steps keep.\<close>

lemma searchLoop_rule:
  assumes "loopInv U R K h" "P h"
    and settle: "\<And>h. loopInv U R K h \<Longrightarrow> P h \<Longrightarrow> P (settle G h)"
    and push: "\<And>h h'. loopInv U R K h \<Longrightarrow> P h \<Longrightarrow> PushGuess G h = Some h' \<Longrightarrow> P h'"
    and pop: "\<And>h h'. loopInv U R K h \<Longrightarrow> P h \<Longrightarrow> PopGuess G h = Some h' \<Longrightarrow> P h'"
  shows "\<exists>h'. searchLoop G h = Some h' \<and> loopInv U R K h' \<and> P h'
    \<and> (if sr_result h' = unsatisfiable then sr_guesses h' = [] else sr_choices h' = [])"
  using assms(1,2)
proof (induction "pot U R K h" arbitrary: h rule: less_induct)
  case less
  let ?h = "settle G h"
  note st = settle_step [OF less.prems(1), of G] and P = settle [OF less.prems]
  consider "sr_result ?h = unsatisfiable" "sr_guesses ?h = []"
    | "sr_result ?h = unsatisfiable" "sr_guesses ?h \<noteq> []"
    | "sr_result ?h \<noteq> unsatisfiable" "sr_choices ?h = []"
    | "sr_result ?h \<noteq> unsatisfiable" "sr_choices ?h \<noteq> []" by blast
  then show ?case
  proof cases
    case 2
    from pop_step [OF st(1) 2(2,1), of G] obtain h' where h': "PopGuess G ?h = Some h'"
      "loopInv U R K h'" "pot U R K h' < pot U R K ?h" by blast
    with less.hyps [of h'] pop [OF st(1) P h'(1)] st(2) 2 show ?thesis
      by (subst searchLoop.simps) (simp add: Let_def)
  next
    case 4
    from push_step [OF st(1) 4(2,1), of G] obtain h' where h': "PushGuess G ?h = Some h'"
      "loopInv U R K h'" "pot U R K h' < pot U R K ?h" by blast
    with less.hyps [of h'] push [OF st(1) P h'(1)] st(2) 4 show ?thesis
      by (subst searchLoop.simps) (simp add: Let_def)
  qed (use st(1) P in \<open>subst searchLoop.simps, simp add: Let_def\<close>)+
qed

lemma unwind_rule:
  assumes "loopInv U R K h" "P h"
    and pop: "\<And>h h'. loopInv U R K h \<Longrightarrow> P h \<Longrightarrow> PopGuess G h = Some h' \<Longrightarrow> P h'"
  shows "\<exists>h'. unwind G (length (sr_guesses h)) h = Some h' \<and> loopInv U R K h' \<and> P h'
     \<and> sr_guesses h' = [] \<and> sr_assumptions h' = []"
  using assms(1,2)
proof (induction "length (sr_guesses h)" arbitrary: h)
  case 0
  moreover have "sr_assumptions h = []" using 0 by (simp add: loopInv_def)
  ultimately show ?case by simp
next
  case (Suc n)
  then obtain g gs where gs: "sr_guesses h = g # gs" by (cases "sr_guesses h") auto
  obtain h2 where h2: "PopGuess G h = Some h2" "loopInv U R K h2" "sr_guesses h2 = gs"
    using pop_inv [OF Suc.prems(1) gs] by blast
  with Suc.hyps(1) [of h2] Suc.hyps(2) pop [OF Suc.prems h2(1)] gs show ?case by simp
qed

lemma PushChoiceBack_fold:
  "fold PushChoiceBack cs h = h\<lparr>sr_choices := sr_choices h @ cs\<rparr>"
  by (induction cs arbitrary: h) (simp_all add: PushChoiceBack_def)

text \<open>A finite literal table gives a finite universe and bounds for it.\<close>

lemma newSearch_inv:
  assumes "finite (dom (lits d))"
  shows "\<exists>U R K. loopInv U R K (fold PushChoiceBack (anchorChoices anchors) (newSearch s d))"
proof -
  define U where "U = insert 0 (ran (lits d)) \<union> set anchors"
  have "ran (lits d) \<subseteq> (\<lambda>i. the (lits d i)) ` dom (lits d)" by (auto simp: ran_def) force
  then have fin: "finite U" using assms finite_surj by (fastforce simp: U_def)
  define K where "K = Max (insert 0 ((\<lambda>m. length (childrenOf d m)) ` U))"
  define C where "C = (\<Union>m\<in>U. set (childrenOf d m))"
  define R where "R = Max (insert 1 ((\<lambda>c. length (choice_candidates c)) ` C))"
  have finC: "finite C" using fin by (simp add: C_def)
  have K: "length (childrenOf d m) \<le> K" if "m \<in> U" for m
    using that fin by (auto simp: K_def intro: Max_ge)
  have R: "length (choice_candidates c) \<le> R" if "c \<in> C" for c
    using that finC by (auto simp: R_def intro: Max_ge)
  have one: "Suc 0 \<le> R" using finC by (simp add: R_def)
  have sub: "set (choice_candidates c) \<subseteq> U" if "c \<in> set (childrenOf d m)" for c m
    using that by (auto simp: childrenOf_def childChoices_def litOf'_def U_def ranI split: option.splits)
  have "loopInv U R K (fold PushChoiceBack (anchorChoices anchors) (newSearch s d))"
    using fin K R sub one
    by (auto simp: loopInv_def PushChoiceBack_fold newSearch_def anchorChoices_def C_def)
      (auto simp: U_def)
  then show ?thesis by blast
qed

lemma Do_rule:
  assumes fin: "finite (dom (lits d))"
    and init: "P (fold PushChoiceBack (anchorChoices anchors) (newSearch s d))"
    and settle: "\<And>U R K h. loopInv U R K h \<Longrightarrow> P h \<Longrightarrow> P (settle G h)"
    and push: "\<And>U R K h h'. loopInv U R K h \<Longrightarrow> P h \<Longrightarrow> PushGuess G h = Some h' \<Longrightarrow> P h'"
    and pop: "\<And>U R K h h'. loopInv U R K h \<Longrightarrow> P h \<Longrightarrow> PopGuess G h = Some h' \<Longrightarrow> P h'"
  shows "\<exists>r ms h h1. Do G (newSearch s d) anchors = Some (r, ms, h) \<and> P h \<and> sr_guesses h = []
     \<and> sr_assumptions h = [] \<and> P h1 \<and> r = sr_result h1 \<and> ms = search_Lits h1
     \<and> (r = unsatisfiable \<longrightarrow> sr_assumptions h1 = [])"
proof -
  obtain U R K where "loopInv U R K (fold PushChoiceBack (anchorChoices anchors) (newSearch s d))"
    using newSearch_inv [OF fin, of anchors s] by blast
  then have "\<exists>h'. searchLoop G (fold PushChoiceBack (anchorChoices anchors) (newSearch s d)) = Some h'
      \<and> loopInv U R K h' \<and> P h'
      \<and> (if sr_result h' = unsatisfiable then sr_guesses h' = [] else sr_choices h' = [])"
    using init by (rule searchLoop_rule) (blast intro: settle push pop)+
  then obtain h1 where
    h1: "searchLoop G (fold PushChoiceBack (anchorChoices anchors) (newSearch s d)) = Some h1"
    and i: "loopInv U R K h1" "P h1"
    and e: "if sr_result h1 = unsatisfiable then sr_guesses h1 = [] else sr_choices h1 = []" by blast
  have "sr_assumptions h1 = []" if "sr_guesses h1 = []"
    using i(1) that by (simp add: loopInv_def)
  moreover have "\<exists>h'. unwind G (length (sr_guesses h1)) h1 = Some h' \<and> loopInv U R K h' \<and> P h'
      \<and> sr_guesses h' = [] \<and> sr_assumptions h' = []"
    using i by (rule unwind_rule) (blast intro: pop)
  ultimately show ?thesis using h1 i(2) e by (auto simp: Do_def split: if_splits)
qed


end
