(* ===== verification/Solver.thy ===== *)
theory Solver
  imports Solver_Search
begin

text \<open>
  The dependency solver, \<open>resolver/solver/solve.go\<close>: it teaches the constraints to the SAT
  solver, searches in preference order, and then minimises the number of extra variables.
  The abstract specification is \<open>solution_ok\<close>: the set of selected identifiers satisfies
  every constraint of every input variable, in the words of the constructors' comments.
\<close>

section \<open>Solve\<close>

datatype solve_error = litMapError "lm_error list" | NotSatisfiable "AppliedConstraint list"
  | ErrIncomplete | unexpectedInternalError | DuplicateIdentifier Identifier

text \<open>The loop that tries to satisfy the problem with at most \<open>w\<close> extra variables.\<close>

fun tryWidths :: "('c, 's, 'k) gini \<Rightarrow> 'c litMapping \<Rightarrow> 'k \<Rightarrow> nat list \<Rightarrow> 's
    \<Rightarrow> (solve_error + Variable list) \<times> 'c litMapping" where
  "tryWidths G d cs [] g = (Inl unexpectedInternalError, d)"
| "tryWidths G d cs (w # ws) g =
     (let (r, g2) = S_Solve G (S_Assume G g [CS_Leq G cs (int w)])
      in if r = satisfiable then (let (vs, d') = Variables G d g2 in (Inr vs, d'))
         else tryWidths G d cs ws g2)"

definition solveSat :: "('c, 's, 'k) gini \<Rightarrow> 'c litMapping \<Rightarrow> 's \<Rightarrow> Lit list \<Rightarrow> Lit list
    \<Rightarrow> (solve_error + Variable list) \<times> 'c litMapping" where
  "solveSat G d g assumptions aset =
     (let (buffer, d1) = Lits d;
          rest = filter (\<lambda>m. m \<notin> set aset) buffer;
          excluded = map lit_not (filter (\<lambda>m. \<not> S_Value G g m) rest);
          extras = filter (\<lambda>m. S_Value G g m) rest;
          g1 = snd (S_Untest G g);
          (cs, d2, g2) = CardinalityConstrainer G d1 g1 extras;
          g3 = S_Assume G (S_Assume G g2 assumptions) excluded;
          g4 = snd (S_Test G (AssumeConstraints G d2 g3))
      in tryWidths G d2 cs [0..<Suc (CS_N G cs)] g4)"

definition solveOutcome :: "('c, 's, 'k) gini \<Rightarrow> int \<Rightarrow> 'c litMapping \<Rightarrow> 's \<Rightarrow> Lit list \<Rightarrow> Lit list
    \<Rightarrow> (solve_error + Variable list) \<times> 'c litMapping" where
  "solveOutcome G outcome d g assumptions aset =
     (if outcome = satisfiable then solveSat G d g assumptions aset
      else if outcome = unsatisfiable then (Inl (NotSatisfiable (Conflicts G d g)), d)
      else (Inl ErrIncomplete, d))"

text \<open>The deferred check discards whatever was produced when the mapping met an error.\<close>

definition deferred :: "(solve_error + Variable list) \<times> 'c litMapping \<Rightarrow> solve_error + Variable list" where
  "deferred r = (case lm_Error (snd r) of Some es \<Rightarrow> Inl (litMapError es) | None \<Rightarrow> fst r)"

definition Solve :: "('c, 's, 'k) gini \<Rightarrow> 'c litMapping \<Rightarrow> 's \<Rightarrow> (solve_error + Variable list) option" where
  "Solve G d g =
     (let g1 = AddConstraints G d g;
          (assumptions, d1) = LitsOf d (AnchorIdentifiers d);
          g2 = S_Assume G (AssumeConstraints G d1 g1) assumptions;
          (outcome, g3) = S_Test G g2
      in if outcome \<noteq> satisfiable \<and> outcome \<noteq> unsatisfiable then
           Option.bind (Do G (newSearch g3 d1) assumptions) (\<lambda>(r, ms, h).
             Some (deferred (solveOutcome G r (sr_lits h) (sr_s h) ms ms)))
         else Some (deferred (solveOutcome G outcome d1 g3 assumptions [])))"

text \<open>\<open>New(WithInput(input))\<close> followed by \<open>Solve\<close>.\<close>

definition solveInput :: "('c, 's, 'k) gini \<Rightarrow> 's \<Rightarrow> Variable list \<Rightarrow> (solve_error + Variable list) option" where
  "solveInput G g input =
     (case newLitMapping G input of
        Inl i \<Rightarrow> Some (Inl (DuplicateIdentifier i))
      | Inr d \<Rightarrow> Solve G d g)"

section \<open>The specification\<close>

fun holds :: "Constraint \<Rightarrow> Identifier \<Rightarrow> Identifier set \<Rightarrow> bool" where
  "holds zeroConstraint subject S = True"
| "holds mandatory subject S = (subject \<in> S)"
| "holds prohibited subject S = (subject \<notin> S)"
| "holds (dependency ids) subject S = (subject \<in> S \<longrightarrow> (\<exists>i\<in>set ids. i \<in> S))"
| "holds (conflict i) subject S = (\<not> (subject \<in> S \<and> i \<in> S))"
| "holds (leq ids n) subject S = (int (length (filter (\<lambda>i. i \<in> S) ids)) \<le> n)"
| "holds (prettyConstraint c msg) subject S = holds c subject S"

definition solution_ok :: "Variable list \<Rightarrow> Identifier set \<Rightarrow> bool" where
  "solution_ok vs S \<longleftrightarrow> (\<forall>v\<in>set vs. \<forall>k\<in>set (Constraints v). holds k (Identifier v) S)"

fun references :: "Constraint \<Rightarrow> Identifier set" where
  "references (dependency ids) = set ids"
| "references (conflict i) = {i}"
| "references (leq ids n) = set ids"
| "references (prettyConstraint c msg) = references c"
| "references _ = {}"

fun isZero :: "Constraint \<Rightarrow> bool" where
  "isZero zeroConstraint = True"
| "isZero (prettyConstraint c msg) = isZero c"
| "isZero _ = False"

section \<open>The circuit encodes the constraints\<close>

definition selected :: "(Identifier \<rightharpoonup> Lit) \<Rightarrow> (Lit \<Rightarrow> bool) \<Rightarrow> Identifier set" where
  "selected l \<nu> = {i. \<exists>m. l i = Some m \<and> \<nu> m}"

definition goodLits :: "('c \<Rightarrow> Lit set) \<Rightarrow> 'c litMapping \<Rightarrow> bool" where
  "goodLits known d \<longleftrightarrow> (\<forall>i m. lits d i = Some m \<longrightarrow> m \<noteq> 0 \<and> even m \<and> m \<in> known (circuit d))"

text \<open>\<open>d'\<close> is \<open>d\<close> with more errors and a larger circuit; when the step met no error, every
  valuation of the old circuit extends to the new one.\<close>

definition extends :: "('c \<Rightarrow> (Lit \<Rightarrow> bool) \<Rightarrow> bool) \<Rightarrow> ('c \<Rightarrow> Lit set) \<Rightarrow> 'c litMapping \<Rightarrow> 'c litMapping \<Rightarrow> bool" where
  "extends cons known d d' \<longleftrightarrow>
     lits d' = lits d \<and> variables d' = variables d \<and> inorder d' = inorder d
     \<and> (\<exists>es. errs d' = errs d @ es)
     \<and> known (circuit d) \<subseteq> known (circuit d')
     \<and> (\<forall>\<nu>. cons (circuit d') \<nu> \<longrightarrow> cons (circuit d) \<nu>)
     \<and> (errs d' = [] \<longrightarrow> grows cons known (circuit d) (circuit d'))"

lemma grows_refl [simp]: "grows cons known c c"
  by (auto simp: grows_def)

lemma grows_trans:
  assumes "grows cons known c1 c2" "grows cons known c2 c3" "known c1 \<subseteq> known c2"
  shows "grows cons known c1 c3"
  using assms unfolding grows_def by (meson subsetD)

lemma extends_refl [simp]: "extends cons known d d"
  by (auto simp: extends_def)

lemma extends_trans [trans]:
  assumes "extends cons known d1 d2" "extends cons known d2 d3"
  shows "extends cons known d1 d3"
  using assms by (auto simp: extends_def intro: grows_trans)

lemma LitOf_extends: "LitOf d i = (m, d') \<Longrightarrow> extends cons known d d'"
  by (auto simp: LitOf_def extends_def split: option.splits)

lemma LitOf_ok:
  assumes "LitOf d i = (m, d')" "errs d' = []"
  shows "lits d i = Some m" "d' = d"
  using assms by (auto simp: LitOf_def split: option.splits)

lemma LitsOf_extends: "LitsOf d is = (ms, d') \<Longrightarrow> extends cons known d d'"
proof (induction "is" arbitrary: d ms)
  case (Cons i "is")
  then show ?case
    by (auto simp: split_beta intro: extends_trans [OF LitOf_extends])
       (metis LitOf_extends extends_trans prod.collapse)
qed simp

lemma LitsOf_ok:
  assumes "LitsOf d is = (ms, d')" "errs d' = []"
  shows "map (lits d) is = map Some ms" "d' = d"
proof -
  have "map (lits d) is = map Some ms \<and> d' = d"
    using assms
  proof (induction "is" arbitrary: d ms)
    case (Cons i "is")
    obtain m d1 where l: "LitOf d i = (m, d1)" by fastforce
    obtain ms' d2 where ls: "LitsOf d1 is = (ms', d2)" by fastforce
    have d2: "d2 = d'" and ms: "ms = m # ms'" using Cons.prems l ls by auto
    have "errs d1 = []"
      using LitsOf_extends [OF ls, of "\<lambda>_ _. True" "\<lambda>_. {}"] Cons.prems(2) d2 by (auto simp: extends_def)
    with LitOf_ok [OF l] Cons.IH [of d1 ms'] ls d2 ms Cons.prems(2) show ?case by simp
  qed simp
  then show "map (lits d) is = map Some ms" "d' = d" by simp_all
qed

lemma contract_neg:
  assumes "circuit_contract G cons known"
  shows "cons c \<nu> \<Longrightarrow> \<nu> (lit_not m) = (\<not> \<nu> m)" "m \<in> known c \<Longrightarrow> lit_not m \<in> known c"
    "\<exists>\<nu>. cons (C_New G) \<nu>"
  using assms by (auto simp: circuit_contract_def neg_law_def)

lemma contract_or:
  assumes "circuit_contract G cons known" "C_Or G c a b = (l, c')"
  shows "l \<noteq> 0" "known c \<subseteq> known c'" "l \<in> known c'"
    "cons c' \<nu> \<Longrightarrow> cons c \<nu>" "cons c' \<nu> \<Longrightarrow> \<nu> l = (\<nu> a \<or> \<nu> b)"
    "a \<in> known c \<Longrightarrow> b \<in> known c \<Longrightarrow> grows cons known c c'"
proof -
  have "or_law G cons known" using assms(1) by (simp add: circuit_contract_def)
  from this [unfolded or_law_def, rule_format, OF assms(2)]
  show "l \<noteq> 0" "known c \<subseteq> known c'" "l \<in> known c'"
    "cons c' \<nu> \<Longrightarrow> cons c \<nu>" "cons c' \<nu> \<Longrightarrow> \<nu> l = (\<nu> a \<or> \<nu> b)"
    "a \<in> known c \<Longrightarrow> b \<in> known c \<Longrightarrow> grows cons known c c'" by blast+
qed

lemma contract_card:
  assumes "circuit_contract G cons known" "C_CardSort G c ms = (k, c')"
  shows "known c \<subseteq> known c'" "CS_Leq G k n \<noteq> 0" "cons c' \<nu> \<Longrightarrow> cons c \<nu>"
    "cons c' \<nu> \<Longrightarrow> \<nu> (CS_Leq G k n) = (int (length (filter \<nu> ms)) \<le> n)"
    "set ms \<subseteq> known c \<Longrightarrow> grows cons known c c'"
proof -
  have "card_law G cons known" using assms(1) by (simp add: circuit_contract_def)
  from this [unfolded card_law_def, rule_format, OF assms(2)]
  show "known c \<subseteq> known c'" "CS_Leq G k n \<noteq> 0" "cons c' \<nu> \<Longrightarrow> cons c \<nu>"
    "cons c' \<nu> \<Longrightarrow> \<nu> (CS_Leq G k n) = (int (length (filter \<nu> ms)) \<le> n)"
    "set ms \<subseteq> known c \<Longrightarrow> grows cons known c c'" by blast+
qed

lemma contract_lit:
  assumes "circuit_contract G cons known" "C_Lit G c = (l, c')"
  shows "l \<noteq> 0" "even l" "l \<notin> known c" "known c \<subseteq> known c'" "l \<in> known c'"
    "cons c' \<nu> \<Longrightarrow> cons c \<nu>"
    "cons c \<nu> \<Longrightarrow> \<exists>\<nu>'. cons c' \<nu>' \<and> \<nu>' l = b \<and> (\<forall>l\<in>known c. \<nu>' l = \<nu> l)"
proof -
  have "lit_law G cons known" using assms(1) by (simp add: circuit_contract_def)
  from this [unfolded lit_law_def, rule_format, OF assms(2)]
  show "l \<noteq> 0" "even l" "l \<notin> known c" "known c \<subseteq> known c'" "l \<in> known c'"
    "cons c' \<nu> \<Longrightarrow> cons c \<nu>"
    "cons c \<nu> \<Longrightarrow> \<exists>\<nu>'. cons c' \<nu>' \<and> \<nu>' l = b \<and> (\<forall>l\<in>known c. \<nu>' l = \<nu> l)" by blast+
qed

lemma goodLits_extends: "goodLits known d \<Longrightarrow> extends cons known d d' \<Longrightarrow> goodLits known d'"
  by (auto simp: goodLits_def extends_def)

text \<open>Growing the circuit by an or-gate over known literals extends the mapping.\<close>

lemma or_extends:
  assumes "circuit_contract G cons known" "C_Or G (circuit d) a b = (l, c')"
    and "errs d = [] \<Longrightarrow> a \<in> known (circuit d) \<and> b \<in> known (circuit d)"
  shows "extends cons known d (d\<lparr>circuit := c'\<rparr>)"
  using contract_or [OF assms(1) assms(2)] assms(3) by (auto simp: extends_def)

lemma orDependencies_correct:
  assumes con: "circuit_contract G cons known"
    and "goodLits known d" "orDependencies G d m ids = (r, d')" "m \<noteq> 0"
    and "errs d = [] \<Longrightarrow> m \<in> known (circuit d)"
  shows "extends cons known d d' \<and> r \<noteq> 0
    \<and> (errs d' = [] \<longrightarrow> (\<forall>\<nu>. cons (circuit d') \<nu> \<longrightarrow> \<nu> r = (\<nu> m \<or> (\<exists>i\<in>set ids. i \<in> selected (lits d) \<nu>))))"
  using assms(2-)
proof (induction ids arbitrary: d m)
  case (Cons i ids)
  obtain l d1 where l: "LitOf d i = (l, d1)" by fastforce
  obtain m' c' where o: "C_Or G (circuit d1) m l = (m', c')" by fastforce
  let ?d2 = "d1\<lparr>circuit := c'\<rparr>"
  have rec: "orDependencies G ?d2 m' ids = (r, d')" using Cons.prems(2) l o by simp
  have e1: "extends cons known d d1" using l by (rule LitOf_extends)
  have good: "goodLits known d1" using Cons.prems(1) e1 by (rule goodLits_extends)
  have kn: "m \<in> known (circuit d1) \<and> l \<in> known (circuit d1)" if "errs d1 = []"
    using LitOf_ok [OF l that] Cons.prems(1,4) that by (auto simp: goodLits_def)
  have e2: "extends cons known d1 ?d2" using con o kn by (rule or_extends)
  have m': "m' \<noteq> 0" "m' \<in> known (circuit ?d2)" using contract_or(1,3) [OF con o] by auto
  from Cons.IH [OF goodLits_extends [OF good e2] rec m'(1)] m'(2)
  have IH: "extends cons known ?d2 d' \<and> r \<noteq> 0
    \<and> (errs d' = [] \<longrightarrow> (\<forall>\<nu>. cons (circuit d') \<nu> \<longrightarrow>
        \<nu> r = (\<nu> m' \<or> (\<exists>i\<in>set ids. i \<in> selected (lits ?d2) \<nu>))))" by blast
  have ext: "extends cons known d d'"
    using extends_trans [OF extends_trans [OF e1 e2] conjunct1 [OF IH]] .
  have "\<nu> r = (\<nu> m \<or> (\<exists>i\<in>set (i # ids). i \<in> selected (lits d) \<nu>))"
    if e: "errs d' = []" and c: "cons (circuit d') \<nu>" for \<nu>
  proof -
    have "errs d1 = []" using IH e by (auto simp: extends_def)
    from LitOf_ok [OF l this] have li: "lits d i = Some l" "d1 = d" by simp_all
    have "cons c' \<nu>" using IH c by (auto simp: extends_def)
    then have "\<nu> m' = (\<nu> m \<or> \<nu> l)" by (rule contract_or(5) [OF con o])
    then show ?thesis using IH e c li by (auto simp: selected_def)
  qed
  with ext IH show ?case by blast
qed auto

lemma selected_count:
  assumes "map l is = map Some ms"
  shows "length (filter \<nu> ms) = length (filter (\<lambda>i. i \<in> selected l \<nu>) is)"
  using assms
proof (induction "is" arbitrary: ms)
  case (Cons i "is")
  then show ?case by (cases ms) (auto simp: selected_def)
qed simp

lemma lit_not_ne: "even m \<Longrightarrow> lit_not m \<noteq> 0"
  by (simp add: lit_not_def)

text \<open>The literal of a constraint is true exactly in the selections that satisfy it.\<close>

lemma apply_constraint_correct:
  assumes con: "circuit_contract G cons known"
    and good: "goodLits known d" and sub: "lits d subject \<noteq> None"
    and ap: "apply_constraint G d subject k = (m, d')"
  shows "extends cons known d d' \<and> (m = 0 \<longleftrightarrow> isZero k)
    \<and> constraints d' = constraints d
    \<and> (errs d' = [] \<longrightarrow> \<not> isZero k \<longrightarrow>
        (\<forall>\<nu>. cons (circuit d') \<nu> \<longrightarrow> \<nu> m = holds k subject (selected (lits d) \<nu>)))"
  using ap
proof (induction k)
  case mandatory
  then show ?case using sub good
    by (auto simp: LitOf_def goodLits_def selected_def split: option.splits)
next
  case prohibited
  obtain s where s: "lits d subject = Some s" using sub by blast
  with prohibited have "m = lit_not s" "d' = d" by (auto simp: LitOf_def)
  then show ?case using s good contract_neg(1) [OF con] lit_not_ne
    by (auto simp: goodLits_def selected_def)
next
  case (dependency ids)
  obtain s where s: "lits d subject = Some s" using sub by blast
  have "even s" "s \<in> known (circuit d)" using s good by (auto simp: goodLits_def)
  have o: "orDependencies G d (lit_not s) ids = (m, d')" using dependency s by (simp add: LitOf_def)
  have "constraints (snd (orDependencies G d x ids)) = constraints d" for d x
    by (induction ids arbitrary: d x) (auto simp: split_beta)
  with o have "constraints d' = constraints d" by (metis snd_conv)
  moreover note orDependencies_correct [OF con good o lit_not_ne [OF \<open>even s\<close>]
      contract_neg(2) [OF con \<open>s \<in> known (circuit d)\<close>]]
  moreover have "\<nu> (lit_not s) = (subject \<notin> selected (lits d) \<nu>)" if "cons (circuit d') \<nu>" for \<nu>
    using contract_neg(1) [OF con that] s by (simp add: selected_def)
  ultimately show ?case by auto
next
  case (conflict i)
  obtain s where s: "lits d subject = Some s" using sub by blast
  obtain n d1 where n: "LitOf d i = (n, d1)" by fastforce
  obtain c' where o: "C_Or G (circuit d1) (lit_not s) (lit_not n) = (m, c')" and d': "d' = d1\<lparr>circuit := c'\<rparr>"
    using conflict s n by (auto simp: LitOf_def [of d subject] split: prod.splits)
  have kn: "lit_not s \<in> known (circuit d1) \<and> lit_not n \<in> known (circuit d1)" if "errs d1 = []"
    using LitOf_ok [OF n that] good s contract_neg(2) [OF con] by (auto simp: goodLits_def)
  have "extends cons known d d'"
    using extends_trans [OF LitOf_extends [OF n] or_extends [OF con o kn]] d' by simp
  moreover have "constraints d' = constraints d" using LitOf_frame(5) [of d i] n d' by simp
  moreover have "\<nu> m = (\<not> (subject \<in> selected (lits d) \<nu> \<and> i \<in> selected (lits d) \<nu>))"
    if e: "errs d' = []" and c: "cons (circuit d') \<nu>" for \<nu>
    using LitOf_ok [OF n] e d' contract_or(5) [OF con o, of \<nu>] c contract_neg(1) [OF con, of _ \<nu>] s
    by (auto simp: selected_def)
  ultimately show ?case using contract_or(1) [OF con o] by simp
next
  case (leq ids n)
  obtain ms d1 where l: "LitsOf d ids = (ms, d1)" by fastforce
  obtain k c' where o: "C_CardSort G (circuit d1) ms = (k, c')" and m: "m = CS_Leq G k n"
    and d': "d' = d1\<lparr>circuit := c'\<rparr>"
    using leq l by (auto split: prod.splits)
  have e1: "extends cons known d d1" using l by (rule LitsOf_extends)
  have kn: "set ms \<subseteq> known (circuit d1)" if "errs d1 = []"
  proof
    fix x assume "x \<in> set ms"
    then have "Some x \<in> set (map (lits d) ids)" using LitsOf_ok(1) [OF l that] by simp
    then show "x \<in> known (circuit d1)" using good LitsOf_ok(2) [OF l that] by (auto simp: goodLits_def)
  qed
  have e2: "extends cons known d1 d'"
    using contract_card(1,3,5) [OF con o] kn unfolding d' extends_def by auto
  have "constraints d' = constraints d" using LitsOf_frame(5) [of d ids] l d' by simp
  moreover have "\<nu> m = (int (length (filter (\<lambda>i. i \<in> selected (lits d) \<nu>) ids)) \<le> n)"
    if e: "errs d' = []" and c: "cons (circuit d') \<nu>" for \<nu>
    using LitsOf_ok [OF l] e d' contract_card(4) [OF con o, of \<nu>] c m selected_count [of "lits d" ids ms \<nu>] by simp
  ultimately show ?case using extends_trans [OF e1 e2] contract_card(2) [OF con o] m by simp
qed auto

section \<open>The mapping encodes the whole input\<close>

definition meaning :: "('c \<Rightarrow> valuation \<Rightarrow> bool) \<Rightarrow> 'c litMapping \<Rightarrow> Lit \<Rightarrow> Variable \<Rightarrow> Constraint \<Rightarrow> bool" where
  "meaning cons d m v k \<longleftrightarrow>
     (\<forall>\<nu>. cons (circuit d) \<nu> \<longrightarrow> \<nu> m = holds k (Identifier v) (selected (lits d) \<nu>))"

text \<open>Every constraint of \<open>P\<close> but the zero one has its literal among the keys, and every key
  is the literal of a constraint of \<open>P\<close>.\<close>

definition encodes :: "('c \<Rightarrow> valuation \<Rightarrow> bool) \<Rightarrow> 'c litMapping \<Rightarrow> (Variable \<times> Constraint) set \<Rightarrow> bool" where
  "encodes cons d P \<longleftrightarrow>
     (\<forall>(v, k)\<in>P. isZero k \<or> (\<exists>m\<in>fst ` set (constraints d). meaning cons d m v k))
     \<and> (\<forall>m\<in>fst ` set (constraints d). \<exists>(v, k)\<in>P. meaning cons d m v k)"

lemma meaning_extends:
  "meaning cons d m v k \<Longrightarrow> extends cons known d d' \<Longrightarrow> meaning cons d' m v k"
  by (auto simp: meaning_def extends_def)

lemma encodes_extends:
  assumes "encodes cons d P" "extends cons known d d'" "constraints d' = constraints d"
  shows "encodes cons d' P"
  using assms meaning_extends [OF _ assms(2)] unfolding encodes_def by fastforce

lemma storeConstraint_extends [simp]:
  "extends cons known d (storeConstraint m a d)" "errs (storeConstraint m a d) = errs d"
  "lits (storeConstraint m a d) = lits d"
  by (simp_all add: storeConstraint_def extends_def)

lemma keys_storeConstraint [simp]:
  "fst ` set (constraints (storeConstraint m a d)) = insert m (fst ` set (constraints d))"
  by (auto simp: storeConstraint_def image_iff)

lemma meaning_storeConstraint [simp]:
  "meaning cons (storeConstraint m a d) = meaning cons d"
  by (simp add: fun_eq_iff meaning_def storeConstraint_def)

lemma encodes_store:
  assumes "encodes cons d P" "meaning cons d m v k"
  shows "encodes cons (storeConstraint m a d) (insert (v, k) P)"
  using assms unfolding encodes_def by auto

lemma encodes_zero: "encodes cons d P \<Longrightarrow> isZero k \<Longrightarrow> encodes cons d (insert (v, k) P)"
  unfolding encodes_def by auto

lemma errs_extends: "extends cons known d d' \<Longrightarrow> errs d' = [] \<Longrightarrow> errs d = []"
  by (auto simp: extends_def)

lemma addConstraints_correct:
  assumes con: "circuit_contract G cons known"
    and "goodLits known d" "lits d (Identifier v) \<noteq> None" "addConstraints G d v ks = d'"
  shows "extends cons known d d'
    \<and> (errs d' = [] \<longrightarrow> encodes cons d P \<longrightarrow> encodes cons d' (P \<union> {v} \<times> set ks))"
  using assms(2-)
proof (induction ks arbitrary: d P)
  case (Cons k ks)
  obtain m d1 where ap: "apply_constraint G d (Identifier v) k = (m, d1)" by fastforce
  define d2 where "d2 = (if m = 0 then d1 else storeConstraint m \<lparr>AC_Variable = v, AC_Constraint = k\<rparr> d1)"
  have rec: "addConstraints G d2 v ks = d'" using Cons.prems(3) ap by (simp add: d2_def split: if_splits)
  note ac = apply_constraint_correct [OF con Cons.prems(1,2) ap]
  have e2: "extends cons known d d2"
    using extends_trans [OF conjunct1 [OF ac] storeConstraint_extends(1)] ac by (simp add: d2_def)
  have l2: "lits d2 (Identifier v) \<noteq> None" using e2 Cons.prems(2) by (simp add: extends_def)
  note IH = Cons.IH [OF goodLits_extends [OF Cons.prems(1) e2] l2 rec, of "insert (v, k) P"]
  have "encodes cons d2 (insert (v, k) P)" if "errs d' = []" "encodes cons d P"
  proof -
    have "errs d1 = []" using errs_extends [OF conjunct1 [OF IH] that(1)] by (simp add: d2_def split: if_splits)
    then have mean: "isZero k \<or> meaning cons d1 m v k" using ac by (auto simp: meaning_def extends_def)
    have "encodes cons d1 P" using encodes_extends [OF that(2)] ac by blast
    then show ?thesis using mean ac unfolding d2_def by (auto intro: encodes_zero encodes_store)
  qed
  with IH extends_trans [OF e2 conjunct1 [OF IH]] show ?case by simp
qed simp

lemma addAllConstraints_correct:
  assumes con: "circuit_contract G cons known"
    and "goodLits known d" "\<forall>v\<in>set vs. lits d (Identifier v) \<noteq> None" "addAllConstraints G d vs = d'"
  shows "extends cons known d d'
    \<and> (errs d' = [] \<longrightarrow> encodes cons d P \<longrightarrow> encodes cons d' (P \<union> {(v, k). v \<in> set vs \<and> k \<in> set (Constraints v)}))"
  using assms(2-)
proof (induction vs arbitrary: d P)
  case (Cons v vs)
  let ?d1 = "addConstraints G d v (Constraints v)"
  let ?P = "P \<union> {v} \<times> set (Constraints v)"
  have ac: "extends cons known d ?d1
    \<and> (errs ?d1 = [] \<longrightarrow> encodes cons d P \<longrightarrow> encodes cons ?d1 ?P)"
    using addConstraints_correct [OF con Cons.prems(1) _ refl] Cons.prems(2) by simp
  have l: "\<forall>v\<in>set vs. lits ?d1 (Identifier v) \<noteq> None" using ac Cons.prems(2) by (simp add: extends_def)
  have rec: "addAllConstraints G ?d1 vs = d'" using Cons.prems(3) by simp
  note IH = Cons.IH [OF goodLits_extends [OF Cons.prems(1) conjunct1 [OF ac]] l rec, of ?P]
  have "?P \<union> {(u, k). u \<in> set vs \<and> k \<in> set (Constraints u)}
      = P \<union> {(u, k). u \<in> set (v # vs) \<and> k \<in> set (Constraints u)}" by auto
  with IH ac extends_trans [OF conjunct1 [OF ac] conjunct1 [OF IH]] errs_extends [OF conjunct1 [OF IH]]
  show ?case by metis
qed simp

text \<open>Every selection of the assigned identifiers is realised by a valuation of the circuit.\<close>

definition free_inputs :: "('c \<Rightarrow> valuation \<Rightarrow> bool) \<Rightarrow> 'c litMapping \<Rightarrow> bool" where
  "free_inputs cons d \<longleftrightarrow>
     (\<forall>S. S \<subseteq> dom (lits d) \<longrightarrow> (\<exists>\<nu>. cons (circuit d) \<nu> \<and> selected (lits d) \<nu> = S))"

lemma selected_cong:
  "(\<And>i m. l i = Some m \<Longrightarrow> \<nu> m = \<nu>' m) \<Longrightarrow> selected l \<nu> = selected l \<nu>'"
  by (auto simp: selected_def)

lemma free_inputs_extends:
  assumes "free_inputs cons d" "extends cons known d d'" "goodLits known d" "errs d' = []"
  shows "free_inputs cons d'"
  unfolding free_inputs_def
proof (intro allI impI)
  fix S assume "S \<subseteq> dom (lits d')"
  then obtain \<nu> where \<nu>: "cons (circuit d) \<nu>" "selected (lits d) \<nu> = S"
    using assms(1,2) by (auto simp: free_inputs_def extends_def)
  have "grows cons known (circuit d) (circuit d')" using assms(2,4) by (simp add: extends_def)
  then obtain \<nu>' where \<nu>': "cons (circuit d') \<nu>'" "\<forall>l\<in>known (circuit d). \<nu>' l = \<nu> l"
    using \<nu>(1) unfolding grows_def by blast
  have "selected (lits d) \<nu>' = selected (lits d) \<nu>"
    using \<nu>'(2) assms(3) by (intro selected_cong) (auto simp: goodLits_def)
  then show "\<exists>\<nu>. cons (circuit d') \<nu> \<and> selected (lits d') \<nu> = S"
    using \<nu> \<nu>' assms(2) by (auto simp: extends_def)
qed

lemma assign_step:
  assumes con: "circuit_contract G cons known" and good: "goodLits known d" and free: "free_inputs cons d"
    and l: "C_Lit G (circuit d) = (m, c')" and new: "lits d i = None"
  shows "goodLits known (d\<lparr>circuit := c', lits := (lits d)(i \<mapsto> m), variables := vs\<rparr>)"
    "free_inputs cons (d\<lparr>circuit := c', lits := (lits d)(i \<mapsto> m), variables := vs\<rparr>)"
proof -
  note cl = contract_lit [OF con l]
  show "goodLits known (d\<lparr>circuit := c', lits := (lits d)(i \<mapsto> m), variables := vs\<rparr>)"
    using good cl by (auto simp: goodLits_def)
  show "free_inputs cons (d\<lparr>circuit := c', lits := (lits d)(i \<mapsto> m), variables := vs\<rparr>)"
    unfolding free_inputs_def
  proof (intro allI impI)
    fix S assume "S \<subseteq> dom (lits (d\<lparr>circuit := c', lits := (lits d)(i \<mapsto> m), variables := vs\<rparr>))"
    then have S: "S - {i} \<subseteq> dom (lits d)" by auto
    obtain \<nu> where \<nu>: "cons (circuit d) \<nu>" "selected (lits d) \<nu> = S - {i}"
      using free S unfolding free_inputs_def by blast
    obtain \<nu>' where \<nu>': "cons c' \<nu>'" "\<nu>' m = (i \<in> S)" "\<forall>l\<in>known (circuit d). \<nu>' l = \<nu> l"
      using cl(7) [OF \<nu>(1), of "i \<in> S"] by blast
    have "selected (lits d) \<nu>' = selected (lits d) \<nu>"
      using \<nu>'(3) good by (intro selected_cong) (auto simp: goodLits_def)
    then have eq: "selected (lits d) \<nu>' = S - {i}" using \<nu>(2) by simp
    have "selected ((lits d)(i \<mapsto> m)) \<nu>' = S"
    proof (rule set_eqI)
      fix j
      show "(j \<in> selected ((lits d)(i \<mapsto> m)) \<nu>') = (j \<in> S)"
        using \<nu>'(2) set_eq_iff [THEN iffD1, OF eq, rule_format, of j] by (auto simp: selected_def)
    qed
    with \<nu>'(1) show "\<exists>\<nu>. cons (circuit (d\<lparr>circuit := c', lits := (lits d)(i \<mapsto> m), variables := vs\<rparr>)) \<nu>
        \<and> selected (lits (d\<lparr>circuit := c', lits := (lits d)(i \<mapsto> m), variables := vs\<rparr>)) \<nu> = S" by auto
  qed
qed

lemma assignLits_correct:
  assumes con: "circuit_contract G cons known"
    and "goodLits known d" "free_inputs cons d" "assignLits G d vs = Inr d'"
  shows "goodLits known d' \<and> free_inputs cons d' \<and> dom (lits d') = dom (lits d) \<union> Identifier ` set vs
    \<and> constraints d' = constraints d \<and> errs d' = errs d \<and> inorder d' = inorder d
    \<and> distinct (map Identifier vs) \<and> Identifier ` set vs \<inter> dom (lits d) = {}"
  using assms(2-)
proof (induction vs arbitrary: d)
  case (Cons v vs)
  obtain m c' where l: "C_Lit G (circuit d) = (m, c')" by fastforce
  have new: "lits d (Identifier v) = None" using Cons.prems(3) l by (auto simp: Let_def split: if_splits)
  let ?d1 = "d\<lparr>circuit := c', lits := (lits d)(Identifier v \<mapsto> m), variables := (variables d)(m \<mapsto> v)\<rparr>"
  have "assignLits G ?d1 vs = Inr d'" using Cons.prems(3) l new by simp
  note IH = Cons.IH [OF assign_step [OF con Cons.prems(1,2) l new] this]
  then show ?case using new by (auto simp: dom_def)
qed simp

lemma assignLits_dup:
  "assignLits G d vs = Inl i \<Longrightarrow> i \<in> Identifier ` set vs
     \<and> (\<not> distinct (map Identifier vs) \<or> Identifier ` set vs \<inter> dom (lits d) \<noteq> {})"
proof (induction vs arbitrary: d)
  case (Cons v vs)
  obtain m c' where l: "C_Lit G (circuit d) = (m, c')" by fastforce
  show ?case
  proof (cases "lits d (Identifier v) = None")
    case True
    let ?d1 = "d\<lparr>circuit := c', lits := (lits d)(Identifier v \<mapsto> m), variables := (variables d)(m \<mapsto> v)\<rparr>"
    have "assignLits G ?d1 vs = Inl i" using Cons.prems l True by simp
    from Cons.IH [OF this] show ?thesis by (auto simp: disjoint_iff image_iff split: if_splits) (metis domI)+
  next
    case False
    then show ?thesis using Cons.prems l by auto
  qed
qed simp

definition allConstraints :: "Variable list \<Rightarrow> (Variable \<times> Constraint) set" where
  "allConstraints vs = {(v, k). v \<in> set vs \<and> k \<in> set (Constraints v)}"

lemma newLitMapping_correct:
  assumes con: "circuit_contract G cons known" and new: "newLitMapping G vs = Inr d"
  shows "goodLits known d \<and> dom (lits d) = Identifier ` set vs \<and> inorder d = vs
    \<and> (errs d = [] \<longrightarrow> free_inputs cons d \<and> encodes cons d (allConstraints vs))"
proof -
  let ?d0 = "\<lparr>inorder = vs, variables = Map.empty, lits = Map.empty, constraints = [], circuit = C_New G, errs = []\<rparr>"
  obtain d1 where d1: "assignLits G ?d0 vs = Inr d1" "addAllConstraints G d1 vs = d"
    using new by (auto simp: newLitMapping_def bind_err_eq_Inr)
  have "free_inputs cons ?d0"
    using contract_neg(3) [OF con] by (auto simp: free_inputs_def selected_def)
  with assignLits_correct [OF con _ _ d1(1)]
  have a: "goodLits known d1 \<and> free_inputs cons d1 \<and> dom (lits d1) = Identifier ` set vs
      \<and> constraints d1 = [] \<and> errs d1 = [] \<and> inorder d1 = vs" by (simp add: goodLits_def)
  then have "\<forall>v\<in>set vs. lits d1 (Identifier v) \<noteq> None" by blast
  note b = addAllConstraints_correct [OF con conjunct1 [OF a] this d1(2), of "{}"]
  have "encodes cons d1 {}" using a by (simp add: encodes_def)
  then show ?thesis
    using a b goodLits_extends [OF conjunct1 [OF a] conjunct1 [OF b]]
      free_inputs_extends [OF _ conjunct1 [OF b] conjunct1 [OF a]]
    by (simp add: extends_def allConstraints_def)
qed

lemma holds_zero: "isZero k \<Longrightarrow> holds k subject S"
  by (induction k) auto

text \<open>A selection satisfies the input exactly when all keys are true.\<close>

lemma keys_iff_solution:
  assumes "encodes cons d (allConstraints vs)" "cons (circuit d) \<nu>"
  shows "(\<forall>m\<in>fst ` set (constraints d). \<nu> m) = solution_ok vs (selected (lits d) \<nu>)"
proof
  assume "\<forall>m\<in>fst ` set (constraints d). \<nu> m"
  then show "solution_ok vs (selected (lits d) \<nu>)"
    using assms holds_zero unfolding encodes_def solution_ok_def allConstraints_def meaning_def
    by (simp add: split_paired_all) blast
next
  assume "solution_ok vs (selected (lits d) \<nu>)"
  then show "\<forall>m\<in>fst ` set (constraints d). \<nu> m"
    using assms unfolding encodes_def solution_ok_def allConstraints_def meaning_def by fastforce
qed

section \<open>The state of the SAT solver\<close>

text \<open>\<open>fresh\<close>: the solver that \<open>gini.New\<close> returns knows nothing.\<close>

definition fresh :: "('s \<Rightarrow> valuation \<Rightarrow> bool) \<Rightarrow> ('s \<Rightarrow> Lit list list) \<Rightarrow> ('s \<Rightarrow> Lit list) \<Rightarrow> 's \<Rightarrow> bool" where
  "fresh models scopes pending s \<longleftrightarrow> models s = (\<lambda>_. True) \<and> scopes s = [] \<and> pending s = []"

lemma contract_assume:
  assumes "solver_contract G cons models scopes pending"
  shows "models (S_Assume G s ms) = models s" "scopes (S_Assume G s ms) = scopes s"
    "pending (S_Assume G s ms) = pending s @ ms"
  using assms unfolding solver_contract_def assume_law_def by blast+

lemma contract_test:
  assumes "solver_contract G cons models scopes pending" "S_Test G s = (r, s')"
  shows "models s' = models s" "scopes s' = pending s # scopes s" "pending s' = []"
    "r = unsatisfiable \<Longrightarrow> \<nexists>\<nu>. sat_under (models s) (scopes s') \<nu>"
  using assms unfolding solver_contract_def test_law_def by blast+

lemma contract_untest:
  assumes "solver_contract G cons models scopes pending" "S_Untest G s = (r, s')"
    and "scopes s \<noteq> []" "pending s = []"
  shows "models s' = models s" "scopes s' = tl (scopes s)" "pending s' = []"
    "r = unsatisfiable \<Longrightarrow> \<nexists>\<nu>. sat_under (models s) (scopes s') \<nu>"
  using assms unfolding solver_contract_def untest_law_def by blast+

lemma contract_solve:
  assumes "solver_contract G cons models scopes pending" "S_Solve G s = (r, s')"
  shows "models s' = models s" "scopes s' = scopes s" "pending s' = []"
    "r = satisfiable \<Longrightarrow> sat_under (models s) (pending s # scopes s) (S_Value G s')"
    "r = unsatisfiable \<Longrightarrow> \<nexists>\<nu>. sat_under (models s) (pending s # scopes s) \<nu>"
  using assms unfolding solver_contract_def solve_law_def by blast+

lemma contract_cnf:
  assumes "solver_contract G cons models scopes pending" "scopes s = []"
  shows "models (C_ToCnf G c s) = (\<lambda>\<nu>. models s \<nu> \<and> cons c \<nu>)"
    "scopes (C_ToCnf G c s) = []" "pending (C_ToCnf G c s) = pending s"
    "C_CnfSince G c s marks m = (marks', s') \<Longrightarrow> models s' \<nu> \<Longrightarrow> models s \<nu>"
    "C_CnfSince G c s marks m = (marks', s') \<Longrightarrow> scopes s' = []"
    "C_CnfSince G c s marks m = (marks', s') \<Longrightarrow> pending s' = pending s"
  using assms unfolding solver_contract_def cnf_law_def by blast+

lemma assumeConstraints_state:
  assumes "solver_contract G cons models scopes pending"
  shows "models (AssumeConstraints G d g) = models g" "scopes (AssumeConstraints G d g) = scopes g"
    "pending (AssumeConstraints G d g) = pending g @ map fst (constraints d)"
proof -
  have "models (fold (\<lambda>(m, a) g. S_Assume G g [m]) ks g) = models g
      \<and> scopes (fold (\<lambda>(m, a) g. S_Assume G g [m]) ks g) = scopes g
      \<and> pending (fold (\<lambda>(m, a) g. S_Assume G g [m]) ks g) = pending g @ map fst ks"
    for ks :: "(Lit \<times> AppliedConstraint) list"
    by (induction ks arbitrary: g) (auto simp: contract_assume [OF assms])
  then show "models (AssumeConstraints G d g) = models g" "scopes (AssumeConstraints G d g) = scopes g"
    "pending (AssumeConstraints G d g) = pending g @ map fst (constraints d)"
    by (simp_all add: AssumeConstraints_def)
qed

lemma cnfLeq_state:
  assumes "solver_contract G cons models scopes pending" "scopes g = []"
  shows "(\<forall>\<nu>. models (cnfLeq G c cs ws marks g) \<nu> \<longrightarrow> models g \<nu>)
    \<and> scopes (cnfLeq G c cs ws marks g) = [] \<and> pending (cnfLeq G c cs ws marks g) = pending g"
  using assms(2)
proof (induction ws arbitrary: marks g)
  case (Cons w ws)
  obtain marks' g' where c: "C_CnfSince G c g marks (CS_Leq G cs (int w)) = (marks', g')" by fastforce
  note cc = contract_cnf(4,5,6) [OF assms(1) Cons.prems c]
  show ?case using Cons.IH [OF cc(2), of marks'] cc(1,3) c by auto
qed simp

text \<open>Reading the mapping only ever adds errors to it.\<close>

definition reads :: "'c litMapping \<Rightarrow> 'c litMapping \<Rightarrow> bool" where
  "reads d d' \<longleftrightarrow> lits d' = lits d \<and> variables d' = variables d \<and> inorder d' = inorder d
     \<and> circuit d' = circuit d \<and> constraints d' = constraints d \<and> (\<exists>es. errs d' = errs d @ es)"

lemma reads_refl [simp]: "reads d d"
  by (simp add: reads_def)

lemma reads_trans: "reads d1 d2 \<Longrightarrow> reads d2 d3 \<Longrightarrow> reads d1 d3"
  by (auto simp: reads_def)

lemma reads_LitOf: "reads d (snd (LitOf d i))"
  by (auto simp: reads_def LitOf_def split: option.splits)

lemma reads_VariableOf: "reads d (snd (VariableOf d m))"
  by (auto simp: reads_def VariableOf_def split: option.splits)

lemma reads_LitsOf: "reads d (snd (LitsOf d is))"
proof (induction "is" arbitrary: d)
  case (Cons i "is")
  show ?case using reads_trans [OF reads_LitOf [of d i] Cons.IH] by (simp add: split_beta)
qed simp

lemma reads_pushChildren: "reads (sr_lits h) (sr_lits (snd (pushChildren ks g h)))"
proof (induction ks arbitrary: g h)
  case (Cons k ks)
  let ?d = "snd (LitsOf (sr_lits h) (order k))"
  note step = reads_trans [OF reads_LitsOf [of "sr_lits h" "order k"]]
  show ?case
    using step [of "sr_lits (snd (pushChildren ks (g\<lparr>guess_children := guess_children g + 1\<rparr>)
          (PushChoiceBack \<lparr>choice_index = 0, choice_candidates = fst (LitsOf (sr_lits h) (order k))\<rparr> (h\<lparr>sr_lits := ?d\<rparr>))))"]
      step [of "sr_lits (snd (pushChildren ks g (h\<lparr>sr_lits := ?d\<rparr>)))"]
      Cons.IH [of "h\<lparr>sr_lits := ?d\<rparr>"]
      Cons.IH [of "PushChoiceBack \<lparr>choice_index = 0, choice_candidates = fst (LitsOf (sr_lits h) (order k))\<rparr> (h\<lparr>sr_lits := ?d\<rparr>)"]
    by (simp add: split_beta Let_def PushChoiceBack_def)
qed simp

lemma reads_PushGuess:
  assumes "PushGuess G h = Some h'"
  shows "reads (sr_lits h) (sr_lits h')"
proof -
  obtain c h1 where p: "PopChoiceFront h = Some (c, h1)"
    using assms by (auto simp: PushGuess_def split: option.splits)
  then have h1: "sr_lits h1 = sr_lits h" by (auto simp: PopChoiceFront_def split: list.splits)
  let ?m = "chooseLit c (sr_assumptions h1)"
  let ?d = "snd (VariableOf (sr_lits h1) ?m)"
  show ?thesis
    using assms p reads_trans [OF reads_VariableOf [of "sr_lits h1" ?m]
        reads_pushChildren [of "h1\<lparr>sr_lits := ?d\<rparr>", simplified]]
    by (auto simp: PushGuess_def h1 split_beta Let_def split: if_splits)
qed

text \<open>The invariant of the search: the solver has one scope per assumption above the baseline
  scope \<open>B\<close>, and a verdict \<open>unsatisfiable\<close> is right for the scopes that are open.\<close>

definition searchInv :: "('s \<Rightarrow> valuation \<Rightarrow> bool) \<Rightarrow> ('s \<Rightarrow> Lit list list) \<Rightarrow> ('s \<Rightarrow> Lit list)
    \<Rightarrow> (valuation \<Rightarrow> bool) \<Rightarrow> Lit list \<Rightarrow> 'c litMapping \<Rightarrow> ('c, 's) search \<Rightarrow> bool" where
  "searchInv models scopes pending M B d h \<longleftrightarrow>
     models (sr_s h) = M \<and> scopes (sr_s h) = map (\<lambda>m. [m]) (sr_assumptions h) @ [B] \<and> pending (sr_s h) = []
     \<and> (sr_result h = unsatisfiable \<longrightarrow> (\<nexists>\<nu>. sat_under M (scopes (sr_s h)) \<nu>)) \<and> reads d (sr_lits h)"

lemma sat_under_Nil_scope [simp]: "sat_under M ([] # scs) = sat_under M scs"
  by (simp add: fun_eq_iff sat_under_def)

lemma searchInv_settle:
  assumes con: "solver_contract G cons models scopes pending" and inv: "searchInv models scopes pending M B d h"
  shows "searchInv models scopes pending M B d (settle G h)"
proof -
  obtain r s' where s: "S_Solve G (sr_s h) = (r, s')" by fastforce
  note cs = contract_solve [OF con s]
  show ?thesis using inv s cs by (auto simp: settle_def searchInv_def)
qed

lemma searchInv_push:
  assumes con: "solver_contract G cons models scopes pending" and inv: "searchInv models scopes pending M B d h"
    and p: "PushGuess G h = Some h'"
  shows "searchInv models scopes pending M B d h'"
proof -
  obtain c cs where c: "sr_choices h = c # cs"
    using p by (auto simp: PushGuess_def PopChoiceFront_def split: list.splits option.splits)
  have rd: "reads d (sr_lits h')"
    using reads_trans [OF _ reads_PushGuess [OF p]] inv by (simp add: searchInv_def)
  show ?thesis
  proof (cases "chooseLit c (sr_assumptions h) = 0")
    case True
    then show ?thesis using p [unfolded PushGuess_null [OF c True]] inv rd by (auto simp: searchInv_def)
  next
    case False
    let ?m = "chooseLit c (sr_assumptions h)"
    obtain r s' where t: "S_Test G (S_Assume G (sr_s h) [?m]) = (r, s')"
      and h': "sr_assumptions h' = ?m # sr_assumptions h" "sr_s h' = s'" "sr_result h' = r"
      using p PushGuess_lit [OF c refl False, of G] by (metis option.inject)
    show ?thesis using inv rd h' contract_test [OF con t] contract_assume [OF con, of "sr_s h" "[?m]"]
      by (simp add: searchInv_def)
  qed
qed

lemma searchInv_pop:
  assumes con: "solver_contract G cons models scopes pending" and inv: "searchInv models scopes pending M B d h"
    and loop: "loopInv U R K h" and p: "PopGuess G h = Some h'"
  shows "searchInv models scopes pending M B d h'"
proof -
  obtain g gs where gs: "sr_guesses h = g # gs"
    using p by (auto simp: PopGuess_def split: list.splits)
  have le: "guess_children g \<le> length (sr_choices h)" using loop gs by (simp add: loopInv_def)
  note eq = p [unfolded PopGuess_eq [OF gs le, of G], simplified]
  show ?thesis
  proof (cases "guess_m g = 0")
    case True
    then show ?thesis using inv unfolding eq [symmetric] by (auto simp: searchInv_def)
  next
    case False
    obtain r s' where u: "S_Untest G (sr_s h) = (r, s')" by fastforce
    have a: "sr_assumptions h = guess_m g # removeAll (guess_m g) (sr_assumptions h)"
      using loop gs False by (auto simp: loopInv_def)
    then have sc: "scopes (sr_s h) = [guess_m g] # map (\<lambda>m. [m]) (removeAll (guess_m g) (sr_assumptions h)) @ [B]"
      using inv unfolding searchInv_def by (metis append_Cons list.simps(9))
    then have "scopes (sr_s h) \<noteq> []" "pending (sr_s h) = []" using inv by (auto simp: searchInv_def)
    note cu = contract_untest [OF con u this]
    show ?thesis using inv cu sc False unfolding eq [symmetric] by (simp add: searchInv_def u)
  qed
qed

section \<open>What Solve returns\<close>

lemma Do_correct:
  assumes con: "solver_contract G cons models scopes pending" and fin: "finite (dom (lits d))"
    and g: "models s = M" "scopes s = [B]" "pending s = []"
  shows "\<exists>r ms h. Do G (newSearch s d) anchors = Some (r, ms, h)
     \<and> models (sr_s h) = M \<and> scopes (sr_s h) = [B] \<and> pending (sr_s h) = [] \<and> reads d (sr_lits h)
     \<and> (r = unsatisfiable \<longrightarrow> (\<nexists>\<nu>. sat_under M [B] \<nu>))"
proof -
  have init: "searchInv models scopes pending M B d
      (fold PushChoiceBack (anchorChoices anchors) (newSearch s d))"
    using g by (simp add: PushChoiceBack_fold searchInv_def newSearch_def)
  have "\<exists>r ms h h1. Do G (newSearch s d) anchors = Some (r, ms, h)
     \<and> searchInv models scopes pending M B d h \<and> sr_guesses h = [] \<and> sr_assumptions h = []
     \<and> searchInv models scopes pending M B d h1 \<and> r = sr_result h1 \<and> ms = search_Lits h1
     \<and> (r = unsatisfiable \<longrightarrow> sr_assumptions h1 = [])"
    using fin init
    by (rule Do_rule) (auto intro: searchInv_settle [OF con] searchInv_push [OF con] searchInv_pop [OF con])
  then show ?thesis by (auto simp: searchInv_def)
qed

lemma reads_selectVariables: "reads d (snd (selectVariables G d g vs))"
proof (induction vs arbitrary: d)
  case (Cons v vs)
  show ?case using reads_trans [OF reads_LitOf [of d "Identifier v"] Cons.IH] by (simp add: split_beta Let_def)
qed simp

lemma reads_errs: "reads d d' \<Longrightarrow> errs d' = [] \<Longrightarrow> errs d = [] \<and> d' = d"
  by (cases d; cases d') (auto simp: reads_def)

lemma selectVariables_eq:
  assumes "errs (snd (selectVariables G d g vs)) = []"
  shows "fst (selectVariables G d g vs) = filter (\<lambda>v. S_Value G g (the (lits d (Identifier v)))) vs"
  using assms
proof (induction vs arbitrary: d)
  case (Cons v vs)
  obtain m d1 where l: "LitOf d (Identifier v) = (m, d1)" by fastforce
  have e: "errs (snd (selectVariables G d1 g vs)) = []" using Cons.prems l by (simp add: split_beta Let_def)
  have "errs d1 = []" using reads_errs [OF reads_selectVariables e] by simp
  with LitOf_ok [OF l this] Cons.IH [OF e] l show ?case by (simp add: split_beta Let_def)
qed simp

text \<open>Every model that the minimisation returns satisfies the clauses, the scopes, and the
  bound it was asked for.\<close>

lemma tryWidths_sound:
  assumes con: "solver_contract G cons models scopes pending"
    and "tryWidths G d cs ws g = (Inr vs, d')" "models g = M" "scopes g = scs" "pending g = []"
  shows "\<exists>\<nu> w. w \<in> set ws \<and> sat_under M scs \<nu> \<and> \<nu> (CS_Leq G cs (int w))
     \<and> reads d d' \<and> (errs d' = [] \<longrightarrow> vs = filter (\<lambda>v. \<nu> (the (lits d (Identifier v)))) (inorder d))"
  using assms(2-)
proof (induction ws arbitrary: g)
  case (Cons w ws)
  let ?g1 = "S_Assume G g [CS_Leq G cs (int w)]"
  obtain r g2 where s: "S_Solve G ?g1 = (r, g2)" by fastforce
  note cs = contract_solve [OF con s] and ca = contract_assume [OF con, of g "[CS_Leq G cs (int w)]"]
  show ?case
  proof (cases "r = satisfiable")
    case True
    have v: "Variables G d g2 = (vs, d')" using Cons.prems(1) s True by (simp add: split_beta prod_eq_iff)
    have "sat_under M ([CS_Leq G cs (int w)] # scs) (S_Value G g2)" using cs(4) [OF True] ca Cons.prems by simp
    moreover have "reads d d'" using reads_selectVariables [of d G g2 "inorder d"] v by (simp add: Variables_def)
    moreover have "errs d' = [] \<longrightarrow> vs = filter (\<lambda>v. S_Value G g2 (the (lits d (Identifier v)))) (inorder d)"
      using selectVariables_eq [of G d g2 "inorder d"] v by (simp add: Variables_def)
    ultimately show ?thesis by (auto simp: sat_under_def)
  next
    case False
    then have "tryWidths G d cs ws g2 = (Inr vs, d')" using Cons.prems(1) s by simp
    from Cons.IH [OF this] cs ca Cons.prems show ?thesis by auto
  qed
qed simp

lemma tryWidths_error: "tryWidths G d cs ws g = (Inl e, d') \<Longrightarrow> e = unexpectedInternalError \<and> d' = d"
  by (induction ws arbitrary: g) (auto simp: split_beta split: if_splits)

lemma CardinalityConstrainer_state:
  assumes con: "solver_contract G cons models scopes pending" and "scopes g = []" "pending g = []"
    and cc: "CardinalityConstrainer G d g ms = (cs, d', g')"
  shows "models g' \<nu> \<Longrightarrow> models g \<nu>" "scopes g' = []" "pending g' = []"
    "\<exists>c'. d' = d\<lparr>circuit := c'\<rparr> \<and> C_CardSort G (circuit d) ms = (cs, c')"
  using cc cnfLeq_state [OF con assms(2)] assms(3)
  by (auto simp: CardinalityConstrainer_def split_beta Let_def prod_eq_iff)

lemma solveSat_sound:
  assumes con: "solver_contract G cons models scopes pending"
    and g: "models g = M" "scopes g = [B]" "pending g = []"
    and s: "solveSat G d g as aset = (Inr vs, d')" and e: "errs d' = []"
  shows "\<exists>\<nu>. M \<nu> \<and> (\<forall>m\<in>fst ` set (constraints d). \<nu> m) \<and> (\<forall>m\<in>set as. \<nu> m)
     \<and> errs d = [] \<and> vs = filter (\<lambda>v. \<nu> (the (lits d (Identifier v)))) (inorder d)"
proof -
  obtain buffer d1 where l: "Lits d = (buffer, d1)" by fastforce
  define rest where "rest = filter (\<lambda>m. m \<notin> set aset) buffer"
  define excluded where "excluded = map lit_not (filter (\<lambda>m. \<not> S_Value G g m) rest)"
  obtain r g1 where u: "S_Untest G g = (r, g1)" by fastforce
  obtain cs d2 g2 where c: "CardinalityConstrainer G d1 g1 (filter (\<lambda>m. S_Value G g m) rest) = (cs, d2, g2)"
    using prod_cases3 by blast
  define g3 where "g3 = S_Assume G (S_Assume G g2 as) excluded"
  obtain r4 g4 where t: "S_Test G (AssumeConstraints G d2 g3) = (r4, g4)" by fastforce
  have tw: "tryWidths G d2 cs [0..<Suc (CS_N G cs)] g4 = (Inr vs, d')"
    using s l u c t by (simp add: solveSat_def rest_def excluded_def g3_def Let_def del: upt_Suc)
  note cu = contract_untest [OF con u] and ct = contract_test [OF con t]
  have g1: "models g1 = M" "scopes g1 = []" "pending g1 = []" using cu g by simp_all
  note cc = CardinalityConstrainer_state [OF con g1(2,3) c]
  note as = contract_assume [OF con] assumeConstraints_state [OF con]
  have g4: "models g4 = models g2" "scopes g4 = [as @ excluded @ map fst (constraints d2)]" "pending g4 = []"
    using ct cc(2,3) by (simp_all add: as g3_def)
  obtain \<nu> where \<nu>: "sat_under (models g2) (scopes g4) \<nu>" "reads d2 d'"
    "errs d' = [] \<longrightarrow> vs = filter (\<lambda>v. \<nu> (the (lits d2 (Identifier v)))) (inorder d2)"
    using tryWidths_sound [OF con tw g4(1) refl g4(3)] by blast
  have e2: "errs d2 = []" using reads_errs [OF \<nu>(2) e] by simp
  obtain c' where d2: "d2 = d1\<lparr>circuit := c'\<rparr>" using cc(4) by blast
  have "reads d d1" using reads_LitsOf [of d "map Identifier (inorder d)"] l by (simp add: Lits_def)
  then have d1: "errs d = []" "d1 = d" using reads_errs e2 d2 by auto
  have "M \<nu>" using \<nu>(1) cc(1) g1(1) by (auto simp: sat_under_def)
  then show ?thesis using \<nu>(1,3) e d1 d2 g4(2) by (auto simp: sat_under_def)
qed

text \<open>The state in which the solver decides: the clauses of the circuit and one scope with
  the keys of the constraints and the literals of the anchors.\<close>

lemma baseline_state:
  assumes con: "solver_contract G cons models scopes pending" and "fresh models scopes pending g"
    and t: "S_Test G (S_Assume G (AssumeConstraints G d1 (AddConstraints G d g)) as) = (r, g3)"
  shows "models g3 = cons (circuit d)" "scopes g3 = [map fst (constraints d1) @ as]" "pending g3 = []"
    "r = unsatisfiable \<Longrightarrow> \<nexists>\<nu>. sat_under (models g3) (scopes g3) \<nu>"
  using assms(2) contract_test [OF con t] contract_cnf(1,2,3) [OF con, of g "circuit d"]
  by (simp_all add: contract_assume [OF con] assumeConstraints_state [OF con] fresh_def AddConstraints_def)

text \<open>Both ways through \<open>Solve\<close> reach \<open>solveOutcome\<close> in the same state.\<close>

lemma Solve_reaches:
  assumes con: "solver_contract G cons models scopes pending" and fr: "fresh models scopes pending g"
    and fin: "finite (dom (lits d))"
  obtains outcome as aset d' s anchors where
    "Solve G d g = Some (deferred (solveOutcome G outcome d' s as aset))"
    "reads d d'" "fst (LitsOf d (AnchorIdentifiers d)) = anchors"
    "models s = cons (circuit d)" "scopes s = [map fst (constraints d) @ anchors]" "pending s = []"
    "outcome = unsatisfiable \<longrightarrow> (\<nexists>\<nu>. sat_under (models s) (scopes s) \<nu>)"
proof -
  obtain anchors d1 where a: "LitsOf d (AnchorIdentifiers d) = (anchors, d1)" by fastforce
  have rd: "reads d d1" using reads_LitsOf [of d "AnchorIdentifiers d"] a by simp
  obtain r g3 where t: "S_Test G (S_Assume G (AssumeConstraints G d1 (AddConstraints G d g)) anchors) = (r, g3)"
    by fastforce
  note b = baseline_state [OF con fr t]
  have c: "constraints d1 = constraints d" "lits d1 = lits d" using rd by (simp_all add: reads_def)
  show thesis
  proof (cases "r \<noteq> satisfiable \<and> r \<noteq> unsatisfiable")
    case True
    obtain r' ms h where h: "Do G (newSearch g3 d1) anchors = Some (r', ms, h)"
      "models (sr_s h) = models g3" "scopes (sr_s h) = [map fst (constraints d1) @ anchors]"
      "pending (sr_s h) = []" "reads d1 (sr_lits h)"
      "r' = unsatisfiable \<longrightarrow> (\<nexists>\<nu>. sat_under (models g3) [map fst (constraints d1) @ anchors] \<nu>)"
      using Do_correct [OF con _ refl b(2,3), of d1 anchors] fin c by auto
    have "Solve G d g = Some (deferred (solveOutcome G r' (sr_lits h) (sr_s h) ms ms))"
      using True a t h(1) by (simp add: Solve_def)
    then show thesis
      by (rule that) (use reads_trans [OF rd h(5)] a h b c in simp_all)
  next
    case False
    then have "Solve G d g = Some (deferred (solveOutcome G r d1 g3 anchors []))"
      using a t by (auto simp: Solve_def)
    then show thesis by (rule that) (use rd a b c in simp_all)
  qed
qed

lemma deferred_cases:
  assumes "deferred (res, d') = x" "\<And>es. x \<noteq> Inl (litMapError es)"
  shows "errs d' = []" "res = x"
  using assms by (auto simp: deferred_def lm_Error_def split: if_splits option.splits)

lemma Solve_sound:
  assumes con: "solver_contract G cons models scopes pending" and fr: "fresh models scopes pending g"
    and fin: "finite (dom (lits d))" and s: "Solve G d g = Some (Inr vs)"
  shows "\<exists>\<nu>. cons (circuit d) \<nu> \<and> (\<forall>m\<in>fst ` set (constraints d). \<nu> m)
     \<and> errs d = [] \<and> vs = filter (\<lambda>v. \<nu> (the (lits d (Identifier v)))) (inorder d)"
proof -
  obtain outcome as aset d' g' anchors where
    r: "Solve G d g = Some (deferred (solveOutcome G outcome d' g' as aset))" "reads d d'"
    and g': "models g' = cons (circuit d)" "scopes g' = [map fst (constraints d) @ anchors]" "pending g' = []"
    by (rule Solve_reaches [OF con fr fin])
  obtain res d2 where o: "solveOutcome G outcome d' g' as aset = (res, d2)" by fastforce
  have "errs d2 = []" "res = Inr vs" using deferred_cases [of res d2 "Inr vs"] r(1) s o by auto
  then have sat: "solveSat G d' g' as aset = (Inr vs, d2)"
    using o by (auto simp: solveOutcome_def split: if_splits)
  from solveSat_sound [OF con g' sat \<open>errs d2 = []\<close>] reads_errs [OF r(2)] show ?thesis by blast
qed

lemma Solve_unsat:
  assumes con: "solver_contract G cons models scopes pending" and fr: "fresh models scopes pending g"
    and fin: "finite (dom (lits d))" and s: "Solve G d g = Some (Inl (NotSatisfiable cs))"
  shows "errs d = [] \<and> (\<nexists>\<nu>. cons (circuit d) \<nu> \<and> (\<forall>m\<in>fst ` set (constraints d). \<nu> m)
          \<and> (\<forall>m\<in>set (fst (LitsOf d (AnchorIdentifiers d))). \<nu> m))"
proof -
  obtain outcome as aset d' g' anchors where
    r: "Solve G d g = Some (deferred (solveOutcome G outcome d' g' as aset))" "reads d d'"
       "fst (LitsOf d (AnchorIdentifiers d)) = anchors"
    and g': "models g' = cons (circuit d)" "scopes g' = [map fst (constraints d) @ anchors]"
    and u: "outcome = unsatisfiable \<longrightarrow> (\<nexists>\<nu>. sat_under (models g') (scopes g') \<nu>)"
    by (rule Solve_reaches [OF con fr fin])
  obtain res d2 where o: "solveOutcome G outcome d' g' as aset = (res, d2)" by fastforce
  have e: "errs d2 = []" "res = Inl (NotSatisfiable cs)"
    using deferred_cases [of res d2 "Inl (NotSatisfiable cs)"] r(1) s o by auto
  have "solveSat G d' g' as aset \<noteq> (Inl (NotSatisfiable cs), d2)"
    using tryWidths_error by (fastforce simp: solveSat_def split_beta Let_def)
  then have "outcome = unsatisfiable" "d2 = d'"
    using o e by (auto simp: solveOutcome_def split: if_splits)
  have "errs d' = []" using e \<open>d2 = d'\<close> by simp
  note d = reads_errs [OF r(2) this]
  show ?thesis using u \<open>outcome = unsatisfiable\<close> g' r(3) d
    by (auto simp: sat_under_def)
qed

text \<open>The mapping of an input is finite, whatever the circuit does.\<close>

lemma apply_constraint_frame: "lits (snd (apply_constraint G d subject k)) = lits d"
proof (induction k)
  case (dependency ids)
  have "lits (snd (orDependencies G d m ids)) = lits d" for d m
    by (induction ids arbitrary: d m) (auto simp: split_beta Let_def)
  then show ?case by (simp add: split_beta)
qed (simp_all add: split_beta Let_def)

lemma addConstraints_frame: "lits (addConstraints G d v ks) = lits d"
  by (induction ks arbitrary: d) (simp_all add: split_beta Let_def apply_constraint_frame)

lemma addAllConstraints_frame: "lits (addAllConstraints G d vs) = lits d"
  by (induction vs arbitrary: d) (simp_all add: addConstraints_frame)

lemma assignLits_dom:
  "assignLits G d vs = Inr d' \<Longrightarrow> dom (lits d') = dom (lits d) \<union> Identifier ` set vs"
proof (induction vs arbitrary: d)
  case (Cons v vs)
  obtain m c' where l: "C_Lit G (circuit d) = (m, c')" by fastforce
  let ?d1 = "d\<lparr>circuit := c', lits := (lits d)(Identifier v \<mapsto> m), variables := (variables d)(m \<mapsto> v)\<rparr>"
  have "assignLits G ?d1 vs = Inr d'" using Cons.prems l by (simp add: Let_def split: if_splits)
  from Cons.IH [OF this] show ?case by (auto split: if_splits)
qed simp

lemma newLitMapping_dom:
  assumes "newLitMapping G vs = Inr d"
  shows "dom (lits d) = Identifier ` set vs"
proof -
  obtain d1 where "assignLits G \<lparr>inorder = vs, variables = Map.empty, lits = Map.empty,
      constraints = [], circuit = C_New G, errs = []\<rparr> vs = Inr d1" "d = addAllConstraints G d1 vs"
    using assms by (auto simp: newLitMapping_def bind_err_eq_Inr)
  with assignLits_dom [of G _ vs d1] show ?thesis by (simp add: addAllConstraints_frame)
qed

lemma newLitMapping_finite: "newLitMapping G vs = Inr d \<Longrightarrow> finite (dom (lits d))"
  by (simp add: newLitMapping_dom)

section \<open>The correctness of the solver\<close>

lemma selection_eq:
  assumes "dom (lits d) = Identifier ` set vs"
  shows "Identifier ` set (filter (\<lambda>v. \<nu> (the (lits d (Identifier v)))) vs) = selected (lits d) \<nu>"
proof -
  have "Identifier ` set (filter (\<lambda>v. \<nu> (the (lits d (Identifier v)))) vs)
      = {i \<in> dom (lits d). \<nu> (the (lits d i))}" unfolding assms by auto
  then show ?thesis by (auto simp: selected_def)
qed

lemma reads_PopGuess: "PopGuess G h = Some h' \<Longrightarrow> loopInv U R K h \<Longrightarrow> sr_lits h' = sr_lits h"
proof -
  assume p: "PopGuess G h = Some h'" and inv: "loopInv U R K h"
  then obtain g gs where gs: "sr_guesses h = g # gs" by (auto simp: PopGuess_def split: list.splits)
  then have "guess_children g \<le> length (sr_choices h)" using inv by (simp add: loopInv_def)
  from p [unfolded PopGuess_eq [OF gs this, of G]] show ?thesis by (auto split: if_splits)
qed

text \<open>With any SAT solver, \<open>Solve\<close> ends in one of the outcomes.\<close>

lemma Solve_total:
  assumes "finite (dom (lits d))"
  obtains out d' s as aset where
    "Solve G d g = Some (deferred (solveOutcome G out d' s as aset))" "reads d d'"
proof -
  obtain as d1 where a: "LitsOf d (AnchorIdentifiers d) = (as, d1)" by fastforce
  have rd: "reads d d1" using reads_LitsOf [of d "AnchorIdentifiers d"] a by simp
  obtain r g3 where t: "S_Test G (S_Assume G (AssumeConstraints G d1 (AddConstraints G d g)) as) = (r, g3)"
    by fastforce
  have fin: "finite (dom (lits d1))" using assms rd by (simp add: reads_def)
  show thesis
  proof (cases "r \<noteq> satisfiable \<and> r \<noteq> unsatisfiable")
    case True
    define P where "P h \<longleftrightarrow> reads d (sr_lits h)" for h :: "('a, 'b) search"
    have init: "P (fold PushChoiceBack (anchorChoices as) (newSearch g3 d1))"
      by (simp add: P_def PushChoiceBack_fold newSearch_def rd)
    have settle: "P (settle G h)" if "loopInv U R K h" "P h" for U R K h
      using that(2) by (simp add: P_def settle_def split_beta)
    have push: "P h'" if "loopInv U R K h" "P h" "PushGuess G h = Some h'" for U R K h h'
      using reads_trans [OF that(2) [unfolded P_def] reads_PushGuess [OF that(3)]] by (simp add: P_def)
    have pop: "P h'" if "loopInv U R K h" "P h" "PopGuess G h = Some h'" for U R K h h'
      using that(2) reads_PopGuess [OF that(3,1)] by (simp add: P_def)
    have "\<exists>r ms h h1. Do G (newSearch g3 d1) as = Some (r, ms, h) \<and> P h \<and> sr_guesses h = []
       \<and> sr_assumptions h = [] \<and> P h1 \<and> r = sr_result h1 \<and> ms = search_Lits h1
       \<and> (r = unsatisfiable \<longrightarrow> sr_assumptions h1 = [])"
      using fin init by (rule Do_rule) (fact settle push pop)+
    then obtain r' ms h where h: "Do G (newSearch g3 d1) as = Some (r', ms, h)" "reads d (sr_lits h)"
      unfolding P_def by blast
    have "Solve G d g = Some (deferred (solveOutcome G r' (sr_lits h) (sr_s h) ms ms))"
      using True a t h(1) by (simp add: Solve_def)
    then show thesis using h(2) by (rule that)
  next
    case False
    then have "Solve G d g = Some (deferred (solveOutcome G r d1 g3 as []))" using a t by (auto simp: Solve_def)
    then show thesis using rd by (rule that)
  qed
qed

text \<open>C3. \<open>Solve\<close> returns for every input and every behaviour of the SAT solver: the
  preference search does not run forever and does not panic.\<close>

theorem solveInput_returns: "\<exists>r. solveInput G g input = Some r"
proof (cases "newLitMapping G input")
  case (Inr d)
  obtain r where "Solve G d g = Some r" using Solve_total [OF newLitMapping_finite [OF Inr], of G g] by blast
  with Inr show ?thesis by (simp add: solveInput_def)
qed (simp add: solveInput_def)

lemma solveInput_solution:
  assumes "circuit_contract G cons known" "solver_contract G cons models scopes pending"
    and "fresh models scopes pending g" "solveInput G g input = Some (Inr vs)"
  shows "solution_ok input (Identifier ` set vs) \<and> (\<exists>P. vs = filter P input)"
proof -
  obtain d where d: "newLitMapping G input = Inr d" "Solve G d g = Some (Inr vs)"
    using assms(4) by (auto simp: solveInput_def split: sum.splits)
  note m = newLitMapping_correct [OF assms(1) d(1)]
  obtain \<nu> where \<nu>: "cons (circuit d) \<nu>" "\<forall>m\<in>fst ` set (constraints d). \<nu> m" "errs d = []"
    "vs = filter (\<lambda>v. \<nu> (the (lits d (Identifier v)))) input"
    using Solve_sound [OF assms(2,3) newLitMapping_finite [OF d(1)] d(2)] m by auto
  then have "solution_ok input (selected (lits d) \<nu>)"
    using keys_iff_solution m by blast
  then show ?thesis using selection_eq [of d input \<nu>] m \<nu>(4) by auto
qed

text \<open>C1. What \<open>Solve\<close> returns is a solution: the variables are taken from the input in
  order, and the set of their identifiers satisfies every constraint of every variable of the
  input (mandatory, prohibited, dependency, conflict and at-most constraints).\<close>

theorem solveInput_sound:
  assumes "circuit_contract G cons known" "solver_contract G cons models scopes pending"
    and "fresh models scopes pending g" "solveInput G g input = Some (Inr vs)"
  shows "solution_ok input (Identifier ` set vs) \<and> (\<exists>P. vs = filter P input)"
  by (rule solveInput_solution [OF assms])

lemma holds_anchor: "anchor k \<Longrightarrow> holds k subject S = (subject \<in> S)"
  by (induction k) auto

text \<open>C2. When \<open>Solve\<close> reports \<open>NotSatisfiable\<close>, no selection of the input variables
  satisfies the constraints.\<close>

theorem solveInput_unsat:
  assumes "circuit_contract G cons known" "solver_contract G cons models scopes pending"
    and "fresh models scopes pending g" "solveInput G g input = Some (Inl (NotSatisfiable cs))"
    and "S \<subseteq> Identifier ` set input"
  shows "\<not> solution_ok input S"
proof
  assume sol: "solution_ok input S"
  obtain d where d: "newLitMapping G input = Inr d" "Solve G d g = Some (Inl (NotSatisfiable cs))"
    using assms(4) by (auto simp: solveInput_def split: sum.splits)
  note m = newLitMapping_correct [OF assms(1) d(1)]
    and u = Solve_unsat [OF assms(2,3) newLitMapping_finite [OF d(1)] d(2)]
  have inp: "free_inputs cons d" "encodes cons d (allConstraints input)" "dom (lits d) = Identifier ` set input"
    using m u by simp_all
  obtain \<nu> where \<nu>: "cons (circuit d) \<nu>" "selected (lits d) \<nu> = S"
    using inp(1) [unfolded free_inputs_def inp(3), rule_format, OF assms(5)] by blast
  have keys: "\<forall>m\<in>fst ` set (constraints d). \<nu> m" using keys_iff_solution [OF inp(2) \<nu>(1)] \<nu>(2) sol by simp
  have "\<nu> (litOf' (lits d) (Identifier v))" if "v \<in> set input" "k \<in> set (Constraints v)" "anchor k" for v k
  proof -
    have "Identifier v \<in> selected (lits d) \<nu>"
      using sol that(1,2) \<nu>(2) holds_anchor [OF that(3)] unfolding solution_ok_def by blast
    then show ?thesis by (auto simp: selected_def litOf'_def)
  qed
  moreover have "inorder d = input" using m by blast
  ultimately have "\<forall>m\<in>set (fst (LitsOf d (AnchorIdentifiers d))). \<nu> m"
    by (auto simp: LitsOf_litOf' AnchorIdentifiers_def list_ex_iff)
  with u \<nu>(1) keys show False by blast
qed

section \<open>Malformed inputs\<close>

lemma assignLits_total:
  "distinct (map Identifier vs) \<Longrightarrow> Identifier ` set vs \<inter> dom (lits d) = {}
    \<Longrightarrow> \<exists>d'. assignLits G d vs = Inr d'"
proof (induction vs arbitrary: d)
  case (Cons v vs)
  obtain m c' where l: "C_Lit G (circuit d) = (m, c')" by fastforce
  let ?d1 = "d\<lparr>circuit := c', lits := (lits d)(Identifier v \<mapsto> m), variables := (variables d)(m \<mapsto> v)\<rparr>"
  have new: "lits d (Identifier v) = None" using Cons.prems(2) by auto
  have dis: "Identifier ` set vs \<inter> dom (lits ?d1) = {}" using Cons.prems by (auto split: if_splits)
  have "\<exists>d'. assignLits G ?d1 vs = Inr d'" by (rule Cons.IH [OF _ dis]) (use Cons.prems(1) in simp)
  then show ?case using l new by simp
qed simp

lemma assignLits_used:
  "lits d i \<noteq> None \<Longrightarrow> i \<in> Identifier ` set vs \<Longrightarrow> \<exists>j. assignLits G d vs = Inl j"
  by (induction vs arbitrary: d) (auto simp: split_beta Let_def)

lemma assignLits_distinct: "assignLits G d vs = Inr d' \<Longrightarrow> distinct (map Identifier vs)"
proof (induction vs arbitrary: d)
  case (Cons v vs)
  obtain m c' where l: "C_Lit G (circuit d) = (m, c')" by fastforce
  let ?d1 = "d\<lparr>circuit := c', lits := (lits d)(Identifier v \<mapsto> m), variables := (variables d)(m \<mapsto> v)\<rparr>"
  have rec: "assignLits G ?d1 vs = Inr d'" using Cons.prems l by (simp add: Let_def split: if_splits)
  have "Identifier v \<notin> Identifier ` set vs" using assignLits_used [of ?d1 "Identifier v" vs G] rec by auto
  with Cons.IH [OF rec] show ?case by simp
qed simp

lemma newLitMapping_Inl: "(\<exists>i. newLitMapping G vs = Inl i) \<longleftrightarrow> \<not> distinct (map Identifier vs)"
proof -
  let ?d0 = "\<lparr>inorder = vs, variables = Map.empty, lits = Map.empty, constraints = [], circuit = C_New G, errs = []\<rparr>"
  have "(\<exists>d. assignLits G ?d0 vs = Inr d) \<longleftrightarrow> distinct (map Identifier vs)"
    using assignLits_distinct [of G ?d0 vs] assignLits_total [of vs ?d0 G] by auto
  then show ?thesis by (cases "assignLits G ?d0 vs") (auto simp: newLitMapping_def)
qed

lemma tryWidths_Inl: "fst (tryWidths G d cs ws g) = Inl e \<Longrightarrow> e = unexpectedInternalError"
  using tryWidths_error by (metis prod.collapse)

lemma solveOutcome_no_duplicate: "deferred (solveOutcome G out d s as aset) \<noteq> Inl (DuplicateIdentifier i)"
  by (auto simp: deferred_def solveOutcome_def solveSat_def split_beta Let_def simp del: upt_Suc
      split: option.splits dest: tryWidths_Inl)

text \<open>An input with a repeated identifier is refused, and only such an input.\<close>

lemma solveInput_duplicate:
  "(\<exists>i. solveInput G g input = Some (Inl (DuplicateIdentifier i))) \<longleftrightarrow> \<not> distinct (map Identifier input)"
proof -
  have "Solve G d g \<noteq> Some (Inl (DuplicateIdentifier i))" if "newLitMapping G input = Inr d" for d i
  proof -
    note fin = newLitMapping_finite [OF that]
    obtain out d' s as aset where "Solve G d g = Some (deferred (solveOutcome G out d' s as aset))"
      by (rule Solve_total [OF fin, of G g])
    then show ?thesis using solveOutcome_no_duplicate [of G out d' s as aset i] by simp
  qed
  then have "(\<exists>i. solveInput G g input = Some (Inl (DuplicateIdentifier i)))
      \<longleftrightarrow> (\<exists>i. newLitMapping G input = Inl i)"
    by (auto simp: solveInput_def split: sum.splits)
  then show ?thesis by (simp add: newLitMapping_Inl)
qed

text \<open>Errors are never dropped on the way.\<close>

definition keepsErrs :: "'c litMapping \<Rightarrow> 'c litMapping \<Rightarrow> bool" where
  "keepsErrs d d' \<longleftrightarrow> set (errs d) \<subseteq> set (errs d')"

lemma keepsErrs_refl [simp]: "keepsErrs d d"
  by (simp add: keepsErrs_def)

lemma keepsErrs_trans: "keepsErrs d1 d2 \<Longrightarrow> keepsErrs d2 d3 \<Longrightarrow> keepsErrs d1 d3"
  by (auto simp: keepsErrs_def)

lemma reads_keepsErrs: "reads d d' \<Longrightarrow> keepsErrs d d'"
  by (auto simp: reads_def keepsErrs_def)

lemma LitsOf_missing: "i \<in> set is \<Longrightarrow> lits d i = None \<Longrightarrow> notProvided i \<in> set (errs (snd (LitsOf d is)))"
proof (induction "is" arbitrary: d)
  case (Cons j "is")
  have k: "keepsErrs (snd (LitOf d j)) (snd (LitsOf (snd (LitOf d j)) is))" by (rule reads_keepsErrs [OF reads_LitsOf])
  show ?case
  proof (cases "i = j")
    case True
    then have "notProvided i \<in> set (errs (snd (LitOf d j)))" using Cons.prems by (simp add: LitOf_def)
    then show ?thesis using k by (auto simp: keepsErrs_def split_beta Let_def)
  qed (use Cons in \<open>simp add: split_beta Let_def\<close>)
qed simp

lemma orDependencies_errs:
  "errs (snd (orDependencies G d m ids)) = errs (snd (LitsOf d ids))"
proof (induction ids arbitrary: d m)
  case (Cons i ids)
  have "errs (snd (LitsOf (d\<lparr>circuit := c\<rparr>) is)) = errs (snd (LitsOf d is))" for d :: "'a litMapping" and c "is"
  proof (induction "is" arbitrary: d)
    case (Cons j js)
    have "snd (LitOf (d\<lparr>circuit := c\<rparr>) j) = (snd (LitOf d j))\<lparr>circuit := c\<rparr>"
      by (simp add: LitOf_def split: option.splits)
    then show ?case using Cons.IH by (simp add: split_beta Let_def)
  qed simp
  then show ?case using Cons.IH by (simp add: split_beta Let_def)
qed simp

lemma LitOf_keepsErrs: "keepsErrs d (snd (LitOf d i))"
  by (rule reads_keepsErrs [OF reads_LitOf])

lemma apply_constraint_keepsErrs: "keepsErrs d (snd (apply_constraint G d subject k))"
proof (induction k)
  case (dependency ids)
  have "keepsErrs (snd (LitOf d subject)) (snd (LitsOf (snd (LitOf d subject)) ids))"
    by (rule reads_keepsErrs [OF reads_LitsOf])
  with LitOf_keepsErrs [of d subject] show ?case
    by (auto simp: keepsErrs_def split_beta Let_def orDependencies_errs)
next
  case (conflict i)
  show ?case
    using LitOf_keepsErrs [of d subject] LitOf_keepsErrs [of "snd (LitOf d subject)" i]
    by (auto simp: keepsErrs_def split_beta Let_def)
next
  case (leq ids n)
  show ?case using reads_keepsErrs [OF reads_LitsOf, of d ids] by (simp add: keepsErrs_def split_beta Let_def)
qed (use LitOf_keepsErrs [of d subject] in \<open>auto simp: split_beta keepsErrs_def\<close>)

lemma apply_constraint_missing:
  "i \<in> references k \<Longrightarrow> lits d i = None \<Longrightarrow> notProvided i \<in> set (errs (snd (apply_constraint G d subject k)))"
proof (induction k)
  case (dependency ids)
  then show ?case
    using LitsOf_missing [of i ids "snd (LitOf d subject)"] by (simp add: split_beta orDependencies_errs)
next
  case (conflict j)
  then have "lits (snd (LitOf d subject)) i = None" by simp
  then have "notProvided i \<in> set (errs (snd (LitOf (snd (LitOf d subject)) i)))" by (simp add: LitOf_def [of "snd _"])
  then show ?case using conflict by (simp add: split_beta Let_def)
next
  case (leq ids n)
  then show ?case using LitsOf_missing [of i ids d] by (simp add: split_beta Let_def)
qed auto

lemma addConstraints_keepsErrs: "keepsErrs d (addConstraints G d v ks)"
proof (induction ks arbitrary: d)
  case (Cons k ks)
  let ?r = "apply_constraint G d (Identifier v) k"
  let ?d2 = "if fst ?r = 0 then snd ?r else storeConstraint (fst ?r) \<lparr>AC_Variable = v, AC_Constraint = k\<rparr> (snd ?r)"
  have "keepsErrs d ?d2" using apply_constraint_keepsErrs [of d G "Identifier v" k] by (simp add: keepsErrs_def)
  from keepsErrs_trans [OF this Cons.IH] show ?case by (simp add: split_beta)
qed simp

lemma addConstraints_missing:
  "k \<in> set ks \<Longrightarrow> i \<in> references k \<Longrightarrow> lits d i = None \<Longrightarrow> notProvided i \<in> set (errs (addConstraints G d v ks))"
proof (induction ks arbitrary: d)
  case (Cons k' ks)
  let ?r = "apply_constraint G d (Identifier v) k'"
  let ?d2 = "if fst ?r = 0 then snd ?r else storeConstraint (fst ?r) \<lparr>AC_Variable = v, AC_Constraint = k'\<rparr> (snd ?r)"
  have eq: "addConstraints G d v (k' # ks) = addConstraints G ?d2 v ks" by (simp add: split_beta)
  show ?case
  proof (cases "k = k'")
    case True
    then have "notProvided i \<in> set (errs ?d2)" using apply_constraint_missing [OF Cons.prems(2,3), of G "Identifier v"] by simp
    then show ?thesis using addConstraints_keepsErrs [of ?d2 G v ks] unfolding eq keepsErrs_def by blast
  next
    case False
    moreover have "lits ?d2 i = None" using Cons.prems(3) by (simp add: apply_constraint_frame)
    ultimately show ?thesis using Cons.IH [of ?d2] Cons.prems(1,2) unfolding eq by simp
  qed
qed simp

lemma addAllConstraints_keepsErrs: "keepsErrs d (addAllConstraints G d vs)"
proof (induction vs arbitrary: d)
  case (Cons v vs)
  show ?case using keepsErrs_trans [OF addConstraints_keepsErrs Cons.IH] by simp
qed simp

lemma addAllConstraints_missing:
  "v \<in> set vs \<Longrightarrow> k \<in> set (Constraints v) \<Longrightarrow> i \<in> references k \<Longrightarrow> lits d i = None
    \<Longrightarrow> notProvided i \<in> set (errs (addAllConstraints G d vs))"
proof (induction vs arbitrary: d)
  case (Cons u vs)
  show ?case
  proof (cases "v = u")
    case True
    then show ?thesis
      using addConstraints_missing [OF Cons.prems(2-4), of G u]
        addAllConstraints_keepsErrs [of "addConstraints G d u (Constraints u)" G vs]
      by (auto simp: keepsErrs_def)
  qed (use Cons in \<open>simp add: addConstraints_frame\<close>)
qed simp

lemma solveOutcome_keepsErrs: "keepsErrs d (snd (solveOutcome G out d s as aset))"
proof -
  have cases: "snd (tryWidths G d' cs ws g) = d' \<or> (\<exists>g'. snd (tryWidths G d' cs ws g) = snd (Variables G d' g'))" for d' cs ws g
    by (induction ws arbitrary: g) (auto simp: split_beta Let_def)
  have "keepsErrs d' (snd (tryWidths G d' cs ws g))" for d' cs ws g
    using cases [of d' cs ws g] reads_keepsErrs [OF reads_selectVariables] by (auto simp: Variables_def)
  moreover have "keepsErrs d (snd (Lits d))" using reads_keepsErrs [OF reads_LitsOf] by (simp add: Lits_def)
  ultimately show ?thesis
    by (fastforce simp: keepsErrs_def solveOutcome_def solveSat_def CardinalityConstrainer_def split_beta Let_def simp del: upt_Suc)
qed

text \<open>A constraint that names an identifier no input variable has makes \<open>Solve\<close> fail
  with the mapping's error, which names the identifier: no solution is reported.\<close>

lemma solveInput_missing:
  assumes "distinct (map Identifier input)" "v \<in> set input" "k \<in> set (Constraints v)"
    and "i \<in> references k" "i \<notin> Identifier ` set input"
  shows "\<exists>es. solveInput G g input = Some (Inl (litMapError es)) \<and> notProvided i \<in> set es"
proof -
  obtain d where d: "newLitMapping G input = Inr d"
    using newLitMapping_Inl [of G input] assms(1) by (cases "newLitMapping G input") auto
  then obtain d1 where "d = addAllConstraints G d1 input" by (auto simp: newLitMapping_def bind_err_eq_Inr)
  moreover from this have "lits d1 i = None"
    using newLitMapping_dom [OF d] assms(5) by (auto simp: addAllConstraints_frame)
  ultimately have e: "notProvided i \<in> set (errs d)" using addAllConstraints_missing [OF assms(2-4)] by simp
  note fin = newLitMapping_finite [OF d]
  obtain out d' s as aset where s: "Solve G d g = Some (deferred (solveOutcome G out d' s as aset))" "reads d d'"
    by (rule Solve_total [OF fin, of G g])
  have e': "notProvided i \<in> set (errs (snd (solveOutcome G out d' s as aset)))"
    using e reads_keepsErrs [OF s(2)] solveOutcome_keepsErrs [of d' G out s as aset] by (auto simp: keepsErrs_def)
  then have "deferred (solveOutcome G out d' s as aset) = Inl (litMapError (errs (snd (solveOutcome G out d' s as aset))))"
    by (auto simp: deferred_def lm_Error_def)
  then show ?thesis using d s(1) e' by (simp add: solveInput_def)
qed

end
