(* ===== verification/Gini_Reference.thy ===== *)
theory Gini_Reference
  imports Solver
begin

text \<open>
  A concrete instance of the interface of gini that satisfies both contracts: a circuit is the
  list of its gates, and the solver enumerates the valuations of a circuit. It shows that the
  hypotheses of the solver's theorems can hold, and the witnesses run the solver on it.
  \<open>Test\<close> and \<open>Untest\<close> never decide, and \<open>Untest\<close> forgets the values of the last model, as
  gini does when it backtracks.
\<close>

section \<open>Circuits\<close>

datatype gate = InputG | OrG Lit Lit | LeqG "Lit list" int

text \<open>Literal 2 is the constant true; gate \<open>i\<close> has the literals \<open>2 * i + 4\<close> and \<open>2 * i + 5\<close>.
  A gate reads only literals of earlier gates.\<close>

definition gateLit :: "nat \<Rightarrow> Lit" where
  "gateLit i = 2 * i + 4"

fun gateVal :: "nat \<Rightarrow> valuation \<Rightarrow> gate \<Rightarrow> bool option" where
  "gateVal i \<nu> InputG = None"
| "gateVal i \<nu> (OrG a b) = Some ((a < gateLit i \<and> \<nu> a) \<or> (b < gateLit i \<and> \<nu> b))"
| "gateVal i \<nu> (LeqG ms n) = Some (int (length (filter (\<lambda>m. m < gateLit i \<and> \<nu> m) ms)) \<le> n)"

definition base_ok :: "valuation \<Rightarrow> bool" where
  "base_ok \<nu> \<longleftrightarrow> \<not> \<nu> 0 \<and> \<nu> 2 \<and> (\<forall>m. \<nu> (lit_not m) = (\<not> \<nu> m))"

definition gate_ok :: "valuation \<Rightarrow> nat \<Rightarrow> gate \<Rightarrow> bool" where
  "gate_ok \<nu> i g \<longleftrightarrow> (case gateVal i \<nu> g of None \<Rightarrow> True | Some b \<Rightarrow> \<nu> (gateLit i) = b)"

definition rcons :: "gate list \<Rightarrow> valuation \<Rightarrow> bool" where
  "rcons c \<nu> \<longleftrightarrow> base_ok \<nu> \<and> (\<forall>i<length c. gate_ok \<nu> i (c ! i))"

definition rknown :: "gate list \<Rightarrow> Lit set" where
  "rknown c = {m. m < gateLit (length c)}"

definition rLit :: "gate list \<Rightarrow> Lit \<times> gate list" where
  "rLit c = (gateLit (length c), c @ [InputG])"

text \<open>Inputs are added until the literal is one of the circuit.\<close>

definition padTo :: "Lit \<Rightarrow> gate list \<Rightarrow> gate list" where
  "padTo m c = c @ replicate (m div 2 - (length c + 1)) InputG"

definition rOr :: "gate list \<Rightarrow> Lit \<Rightarrow> Lit \<Rightarrow> Lit \<times> gate list" where
  "rOr c a b = (let c' = padTo b (padTo a c) in (gateLit (length c'), c' @ [OrG a b]))"

text \<open>One gate per bound; the sorter is the list of their literals.\<close>

definition rCardSort :: "gate list \<Rightarrow> Lit list \<Rightarrow> Lit list \<times> gate list" where
  "rCardSort c ms =
     (let c' = fold padTo ms c
      in (map (\<lambda>i. gateLit (length c' + i)) [0..<length ms],
          c' @ map (\<lambda>i. LeqG ms (int i)) [0..<length ms]))"

definition rLeq :: "Lit list \<Rightarrow> int \<Rightarrow> Lit" where
  "rLeq k n = (if n < 0 then 3 else if nat n < length k then k ! nat n else 2)"

section \<open>The solver\<close>

definition litVal :: "bool list \<Rightarrow> valuation" where
  "litVal bs m =
     ((if m div 2 = 0 then False else if m div 2 = 1 then True
       else if m div 2 - 2 < length bs then bs ! (m div 2 - 2) else False) = even m)"

definition extendAll :: "gate \<Rightarrow> bool list list \<Rightarrow> bool list list" where
  "extendAll g bss = concat (map (\<lambda>bs.
     case gateVal (length bs) (litVal bs) g of
       None \<Rightarrow> [bs @ [False], bs @ [True]]
     | Some b \<Rightarrow> [bs @ [b]]) bss)"

definition assignments :: "gate list \<Rightarrow> bool list list" where
  "assignments c = fold extendAll c [[]]"

record refSolver =
  rs_circuits :: "gate list list"
  rs_scopes :: "Lit list list"
  rs_pending :: "Lit list"
  rs_model :: "bool list option"

definition rNew :: refSolver where
  "rNew = \<lparr>rs_circuits = [], rs_scopes = [], rs_pending = [], rs_model = None\<rparr>"

definition rmodels :: "refSolver \<Rightarrow> valuation \<Rightarrow> bool" where
  "rmodels s \<nu> \<longleftrightarrow> (\<forall>c\<in>set (rs_circuits s). rcons c \<nu>)"

text \<open>The circuits of one mapping grow, so the last one is the longest; otherwise the solver
  gives up.\<close>

definition wellNested :: "refSolver \<Rightarrow> bool" where
  "wellNested s \<longleftrightarrow> rs_circuits s \<noteq> [] \<and>
     (\<forall>c\<in>set (rs_circuits s). take (length c) (hd (rs_circuits s)) = c)"

definition rSolve :: "refSolver \<Rightarrow> int \<times> refSolver" where
  "rSolve s =
     (let as = concat (rs_pending s # rs_scopes s); s' = s\<lparr>rs_pending := [], rs_model := None\<rparr>
      in if \<not> wellNested s \<or> (\<exists>m\<in>set as. \<not> m < gateLit (length (hd (rs_circuits s)))) then (0, s')
         else case find (\<lambda>bs. \<forall>m\<in>set as. litVal bs m) (assignments (hd (rs_circuits s))) of
                None \<Rightarrow> (-1, s')
              | Some bs \<Rightarrow> (1, s'\<lparr>rs_model := Some bs\<rparr>))"

definition refGini :: "(gate list, refSolver, Lit list) gini" where
  "refGini = \<lparr>
     C_New = [], C_Lit = rLit, C_Or = rOr, C_CardSort = rCardSort, C_Len = length,
     C_ToCnf = (\<lambda>c s. s\<lparr>rs_circuits := c # rs_circuits s\<rparr>),
     C_CnfSince = (\<lambda>c s marks m. (marks, s\<lparr>rs_circuits := c # rs_circuits s\<rparr>)),
     CS_Leq = rLeq, CS_N = length,
     S_Assume = (\<lambda>s ms. s\<lparr>rs_pending := rs_pending s @ ms\<rparr>),
     S_Test = (\<lambda>s. (0, s\<lparr>rs_scopes := rs_pending s # rs_scopes s, rs_pending := [], rs_model := None\<rparr>)),
     S_Untest = (\<lambda>s. (0, s\<lparr>rs_scopes := tl (rs_scopes s), rs_model := None\<rparr>)),
     S_Solve = rSolve,
     S_Value = (\<lambda>s m. case rs_model s of None \<Rightarrow> False | Some bs \<Rightarrow> litVal bs m),
     S_Why = (\<lambda>s. concat (rs_scopes s))\<rparr>"

section \<open>The circuit contract\<close>

lemma lit_not_div [simp]: "lit_not m div 2 = m div 2"
  by (auto simp: lit_not_def elim!: evenE oddE)

lemma even_lit_not [simp]: "even (lit_not m) = odd m"
  by (auto simp: lit_not_def elim!: evenE oddE)

lemma lt_gateLit: "m < gateLit i \<longleftrightarrow> m div 2 < i + 2"
  by (auto simp: gateLit_def)

lemma lit_not_lt [simp]: "lit_not m < gateLit i \<longleftrightarrow> m < gateLit i"
  by (simp add: lt_gateLit)

lemma gateVal_cong:
  assumes "\<And>m. m < gateLit i \<Longrightarrow> \<nu>' m = \<nu> m"
  shows "gateVal i \<nu>' g = gateVal i \<nu> g"
proof (cases g)
  case (LeqG ms n)
  have "filter (\<lambda>m. m < gateLit i \<and> \<nu>' m) ms = filter (\<lambda>m. m < gateLit i \<and> \<nu> m) ms"
    using assms by (auto intro: filter_cong)
  then show ?thesis using LeqG by simp
qed (use assms in auto)

lemma gate_ok_cong:
  assumes "\<And>m. m < gateLit (Suc i) \<Longrightarrow> \<nu>' m = \<nu> m"
  shows "gate_ok \<nu>' i g = gate_ok \<nu> i g"
proof -
  have "gateVal i \<nu>' g = gateVal i \<nu> g" using assms by (intro gateVal_cong) (simp add: lt_gateLit)
  moreover have "\<nu>' (gateLit i) = \<nu> (gateLit i)" using assms by (simp add: gateLit_def)
  ultimately show ?thesis by (simp add: gate_ok_def split: option.splits)
qed

lemma rcons_snoc: "rcons (c @ [g]) \<nu> \<longleftrightarrow> rcons c \<nu> \<and> gate_ok \<nu> (length c) g"
  by (auto simp: rcons_def nth_append less_Suc_eq)

lemma rcons_prefix: "rcons (c @ c') \<nu> \<Longrightarrow> rcons c \<nu>"
  by (induction c' rule: rev_induct) (simp_all add: rcons_snoc flip: append_assoc)

text \<open>One more gate: the valuation is changed at the new literal only.\<close>

definition setLit :: "valuation \<Rightarrow> Lit \<Rightarrow> bool \<Rightarrow> valuation" where
  "setLit \<nu> l b m = (if m = l then b else if m = lit_not l then \<not> b else \<nu> m)"

lemma setLit_base:
  assumes "base_ok \<nu>" "even l" "4 \<le> l"
  shows "base_ok (setLit \<nu> l b)"
proof -
  have nn: "lit_not (lit_not m) = m" for m by (auto simp: lit_not_def)
  have ne: "lit_not m \<noteq> m" for m by (auto simp: lit_not_def elim!: oddE)
  have "setLit \<nu> l b (lit_not m) = (\<not> setLit \<nu> l b m)" for m
    using assms(1) nn ne unfolding setLit_def base_ok_def by metis
  moreover have "\<not> setLit \<nu> l b 0" "setLit \<nu> l b 2"
    using assms by (auto simp: setLit_def base_ok_def lit_not_def)
  ultimately show ?thesis by (simp add: base_ok_def)
qed

lemma rcons_grow:
  assumes "rcons c \<nu>" and ok: "case gateVal (length c) \<nu> g of None \<Rightarrow> True | Some b' \<Rightarrow> b = b'"
  shows "rcons (c @ [g]) (setLit \<nu> (gateLit (length c)) b)"
    "m < gateLit (length c) \<Longrightarrow> setLit \<nu> (gateLit (length c)) b m = \<nu> m"
proof -
  let ?\<nu> = "setLit \<nu> (gateLit (length c)) b"
  have same: "?\<nu> m = \<nu> m" if "m < gateLit (length c)" for m
    using that by (auto simp: setLit_def)
  have "gate_ok ?\<nu> i (c ! i) = gate_ok \<nu> i (c ! i)" if "i < length c" for i
    using that same by (intro gate_ok_cong) (simp add: gateLit_def)
  moreover have "gateVal (length c) ?\<nu> g = gateVal (length c) \<nu> g" using same by (rule gateVal_cong)
  then have "gate_ok ?\<nu> (length c) g"
    using ok by (simp add: gate_ok_def setLit_def split: option.splits)
  moreover have "base_ok ?\<nu>" using assms(1) by (intro setLit_base) (auto simp: rcons_def gateLit_def)
  ultimately show "rcons (c @ [g]) ?\<nu>"
    using assms(1) unfolding rcons_snoc by (simp add: rcons_def)
  show "m < gateLit (length c) \<Longrightarrow> ?\<nu> m = \<nu> m" by (rule same)
qed

lemma grows_snoc: "grows rcons rknown c (c @ [g])"
  unfolding grows_def
proof (intro allI impI)
  fix \<nu> assume "rcons c \<nu>"
  then have "rcons c \<nu>" "case gateVal (length c) \<nu> g of None \<Rightarrow> True
      | Some b' \<Rightarrow> (case gateVal (length c) \<nu> g of None \<Rightarrow> True | Some b \<Rightarrow> b) = b'"
    by (simp_all split: option.splits)
  from rcons_grow [OF this] show "\<exists>\<nu>'. rcons (c @ [g]) \<nu>' \<and> (\<forall>l\<in>rknown c. \<nu>' l = \<nu> l)"
    by (auto simp: rknown_def)
qed

lemma rknown_append: "rknown c \<subseteq> rknown (c @ c')"
  by (auto simp: rknown_def gateLit_def)

lemma grows_append: "grows rcons rknown c (c @ c')"
proof (induction c' rule: rev_induct)
  case (snoc g c')
  then show ?case using grows_trans [OF snoc grows_snoc rknown_append] by simp
qed simp

lemma padTo_append: "\<exists>c'. padTo m c = c @ c'"
  by (simp add: padTo_def)

lemma fold_padTo_append: "\<exists>c'. fold padTo ms c = c @ c'"
proof (induction ms arbitrary: c)
  case (Cons m ms)
  then show ?case using padTo_append [of m c] by (metis append_assoc fold_simps(2))
qed simp

lemma padTo_known: "m < gateLit (length (padTo m c))"
  by (auto simp: padTo_def lt_gateLit)

lemma fold_padTo_known: "m \<in> set ms \<Longrightarrow> m < gateLit (length (fold padTo ms c))"
proof (induction ms arbitrary: c)
  case (Cons m' ms)
  obtain c' where c': "fold padTo ms (padTo m' c) = padTo m' c @ c'" using fold_padTo_append by blast
  show ?case
  proof (cases "m = m'")
    case True
    then show ?thesis using c' padTo_known [of m' c] by (simp add: gateLit_def)
  qed (use Cons in simp)
qed simp

lemma ref_neg: "neg_law refGini rcons rknown"
proof -
  have "rcons [] (litVal [])" by (auto simp: rcons_def base_ok_def litVal_def)
  then show ?thesis by (auto simp: neg_law_def rcons_def base_ok_def rknown_def refGini_def)
qed

lemma ref_lit: "lit_law refGini rcons rknown"
proof -
  have "\<exists>\<nu>'. rcons (c @ [InputG]) \<nu>' \<and> \<nu>' (gateLit (length c)) = b \<and> (\<forall>l\<in>rknown c. \<nu>' l = \<nu> l)"
    if "rcons c \<nu>" for c \<nu> b
    by (rule exI [of _ "setLit \<nu> (gateLit (length c)) b"])
      (use rcons_grow [OF that, where g = InputG and b = b] in \<open>auto simp: rknown_def setLit_def\<close>)
  moreover have "gateLit i \<noteq> 0" "even (gateLit i)" for i by (simp_all add: gateLit_def)
  moreover have "gateLit (length c) \<notin> rknown c" "gateLit (length c) \<in> rknown (c @ [InputG])" for c
    by (simp_all add: rknown_def gateLit_def)
  ultimately show ?thesis using rcons_prefix rknown_append
    by (simp add: lit_law_def refGini_def rLit_def)
qed

lemma ref_or: "or_law refGini rcons rknown"
proof -
  have "m \<noteq> 0 \<and> rknown c \<subseteq> rknown c' \<and> m \<in> rknown c'
        \<and> (\<forall>\<nu>. rcons c' \<nu> \<longrightarrow> rcons c \<nu> \<and> \<nu> m = (\<nu> a \<or> \<nu> b)) \<and> grows rcons rknown c c'"
    if o: "rOr c a b = (m, c')" for c a b m c'
  proof -
    define c1 where "c1 = padTo b (padTo a c)"
    have c': "m = gateLit (length c1)" "c' = c1 @ [OrG a b]" using o by (auto simp: rOr_def Let_def c1_def)
    obtain d e where d: "padTo a c = c @ d" "c1 = c @ d @ e"
      using padTo_append unfolding c1_def by (metis append_assoc)
    have "a < gateLit (length c1)" "b < gateLit (length c1)"
      using padTo_known [of a c] padTo_known [of b "padTo a c"] d unfolding c1_def [symmetric]
      by (simp_all add: gateLit_def)
    then have "\<nu> m = (\<nu> a \<or> \<nu> b)" if "rcons c' \<nu>" for \<nu>
      using that by (simp add: c' rcons_snoc gate_ok_def)
    moreover have "c' = c @ (d @ e @ [OrG a b])" using c' d by simp
    ultimately show ?thesis using rcons_prefix grows_append rknown_append c'(1)
      by (auto simp: rknown_def gateLit_def c'(2))
  qed
  then show ?thesis by (simp add: or_law_def refGini_def)
qed

lemma ref_card: "card_law refGini rcons rknown"
proof -
  have "rknown c \<subseteq> rknown c' \<and> (\<forall>n. rLeq k n \<noteq> 0)
        \<and> (\<forall>\<nu>. rcons c' \<nu> \<longrightarrow> rcons c \<nu> \<and> (\<forall>n. \<nu> (rLeq k n) = (int (length (filter \<nu> ms)) \<le> n)))
        \<and> grows rcons rknown c c'"
    if o: "rCardSort c ms = (k, c')" for c ms k c'
  proof -
    define c1 where "c1 = fold padTo ms c"
    have c': "k = map (\<lambda>i. gateLit (length c1 + i)) [0..<length ms]"
      "c' = c1 @ map (\<lambda>i. LeqG ms (int i)) [0..<length ms]"
      using o by (auto simp: rCardSort_def Let_def c1_def)
    obtain d where d: "c1 = c @ d" using fold_padTo_append c1_def by blast
    have "\<nu> (rLeq k n) = (int (length (filter \<nu> ms)) \<le> n)" if r: "rcons c' \<nu>" for \<nu> n
    proof -
      consider "n < 0" | "0 \<le> n" "nat n < length ms" | "0 \<le> n" "length ms \<le> nat n" by linarith
      then show ?thesis
      proof cases
        case 1
        then show ?thesis using r by (auto simp: rLeq_def rcons_def base_ok_def lit_not_def dest: spec [of _ 2])
      next
        case 2
        let ?i = "length c1 + nat n"
        have "m < gateLit ?i" if "m \<in> set ms" for m
          using fold_padTo_known [OF that, of c] unfolding c1_def [symmetric] by (simp add: gateLit_def)
        then have "filter (\<lambda>m. m < gateLit ?i \<and> \<nu> m) ms = filter \<nu> ms" by (auto intro: filter_cong)
        moreover have "gate_ok \<nu> ?i (c' ! ?i)" using r 2(2) c'(2) by (simp add: rcons_def del: nth_append_length_plus)
        ultimately show ?thesis using 2 by (simp add: rLeq_def gate_ok_def c' nth_append)
      next
        case 3
        have "length (filter \<nu> ms) \<le> length ms" by simp
        then have "int (length (filter \<nu> ms)) \<le> n" using 3 by linarith
        then show ?thesis using 3 r by (simp add: rLeq_def c'(1) rcons_def base_ok_def)
      qed
    qed
    moreover have "c' = c @ (d @ map (\<lambda>i. LeqG ms (int i)) [0..<length ms])" using c' d by simp
    moreover have "rLeq k n \<noteq> 0" for n by (simp add: rLeq_def c'(1) gateLit_def)
    ultimately show ?thesis using rcons_prefix grows_append rknown_append by blast
  qed
  then show ?thesis by (simp add: card_law_def refGini_def)
qed

lemma ref_circuit: "circuit_contract refGini rcons rknown"
  by (simp add: circuit_contract_def ref_neg ref_lit ref_or ref_card)

section \<open>The solver contract\<close>

lemma litVal_base: "base_ok (litVal bs)"
  by (auto simp: base_ok_def litVal_def)

lemma litVal_gate: "i < length bs \<Longrightarrow> litVal bs (gateLit i) = bs ! i"
  by (simp add: litVal_def gateLit_def)

lemma litVal_snoc: "m < gateLit (length bs) \<Longrightarrow> litVal (bs @ [b]) m = litVal bs m"
  by (auto simp: litVal_def lt_gateLit nth_append)

definition values_of :: "gate list \<Rightarrow> valuation \<Rightarrow> bool list" where
  "values_of c \<nu> = map (\<lambda>i. \<nu> (gateLit i)) [0..<length c]"

lemma assignments_snoc: "assignments (c @ [g]) = extendAll g (assignments c)"
  by (simp add: assignments_def)

lemma even_nat_cases:
  assumes "even m" "m < gateLit n"
  obtains "m = 0" | "m = 2" | i where "m = gateLit i" "i < n"
proof -
  obtain k where "m = 2 * k" using assms(1) by (elim evenE)
  then consider "m = 0" | "m = 2" | "m = gateLit (k - 2)" "k - 2 < n"
    using assms(2) by (cases "k = 0"; cases "k = 1") (auto simp: gateLit_def)
  then show thesis using that by cases blast+
qed

lemma values_agree:
  assumes "base_ok \<nu>" "m < gateLit (length c)"
  shows "litVal (values_of c \<nu>) m = \<nu> m"
proof -
  have neg: "\<nu> (Suc m) = (\<not> \<nu> m)" if "even m" for m
  proof -
    have "\<nu> (lit_not m) = (\<not> \<nu> m)" using assms(1) by (simp add: base_ok_def)
    then show ?thesis using that by (simp add: lit_not_def)
  qed
  have pos: "litVal (values_of c \<nu>) m = \<nu> m" if "even m" "m < gateLit (length c)" for m
  proof -
    show ?thesis
    proof (rule even_nat_cases [OF that])
      assume "m = 0"
      then show ?thesis using assms(1) by (simp add: base_ok_def litVal_def)
    next
      assume "m = 2"
      then show ?thesis using assms(1) by (simp add: base_ok_def litVal_def)
    next
      fix i assume i: "m = gateLit i" "i < length c"
      then show ?thesis using litVal_gate [of i "values_of c \<nu>"] by (simp add: values_of_def)
    qed
  qed
  show ?thesis
  proof (cases "even m")
    case False
    then obtain n where n: "even n" "m = Suc n" using odd_Suc_minus_one by (metis even_Suc)
    then have "litVal (values_of c \<nu>) m = (\<not> litVal (values_of c \<nu>) n)" by (simp add: litVal_def)
    then show ?thesis using pos [of n] neg n assms(2) by simp
  qed (use pos assms(2) in blast)
qed

lemma assignments_sound:
  "bs \<in> set (assignments c) \<Longrightarrow> length bs = length c \<and> rcons c (litVal bs)"
proof (induction c arbitrary: bs rule: rev_induct)
  case Nil
  then show ?case using litVal_base by (simp add: assignments_def rcons_def)
next
  case (snoc g c)
  obtain bs' b where b: "bs' \<in> set (assignments c)" "bs = bs' @ [b]"
    and v: "case gateVal (length bs') (litVal bs') g of None \<Rightarrow> True | Some b' \<Rightarrow> b = b'"
    using snoc.prems that by (force simp: assignments_snoc extendAll_def split: option.splits)
  note IH = snoc.IH [OF b(1)]
  have "gate_ok (litVal bs) i (c ! i) = gate_ok (litVal bs') i (c ! i)" if "i < length c" for i
    using that IH b(2) by (intro gate_ok_cong) (simp add: litVal_snoc gateLit_def)
  moreover have "gateVal (length c) (litVal bs) g = gateVal (length c) (litVal bs') g"
    using IH b(2) by (intro gateVal_cong) (simp add: litVal_snoc)
  then have "gate_ok (litVal bs) (length c) g"
    using v IH b(2) litVal_gate [of "length c" bs] by (simp add: gate_ok_def nth_append split: option.splits)
  ultimately show ?case using IH b(2) litVal_base unfolding rcons_snoc by (simp add: rcons_def)
qed

lemma assignments_complete: "rcons c \<nu> \<Longrightarrow> values_of c \<nu> \<in> set (assignments c)"
proof (induction c rule: rev_induct)
  case (snoc g c)
  have r: "rcons c \<nu>" "gate_ok \<nu> (length c) g" using snoc.prems by (simp_all add: rcons_snoc)
  have "gateVal (length c) (litVal (values_of c \<nu>)) g = gateVal (length c) \<nu> g"
    using values_agree r(1) by (intro gateVal_cong) (simp add: rcons_def)
  moreover have "length (values_of c \<nu>) = length c" by (simp add: values_of_def)
  moreover have "values_of (c @ [g]) \<nu> = values_of c \<nu> @ [\<nu> (gateLit (length c))]" by (simp add: values_of_def)
  ultimately show ?case using snoc.IH [OF r(1)] r(2)
    by (auto simp: assignments_snoc extendAll_def gate_ok_def split: option.splits intro!: bexI [of _ "values_of c \<nu>"])
qed (simp add: assignments_def values_of_def)

lemma rSolve_cases:
  assumes "rSolve s = (r, s')"
  shows "s' = s\<lparr>rs_pending := [], rs_model := rs_model s'\<rparr>"
    "r = satisfiable \<Longrightarrow> sat_under (rmodels s) (rs_pending s # rs_scopes s)
       (case rs_model s' of None \<Rightarrow> \<lambda>_. False | Some bs \<Rightarrow> litVal bs)"
    "r = unsatisfiable \<Longrightarrow> \<nexists>\<nu>. sat_under (rmodels s) (rs_pending s # rs_scopes s) \<nu>"
proof -
  let ?c = "hd (rs_circuits s)" and ?as = "concat (rs_pending s # rs_scopes s)"
  show "s' = s\<lparr>rs_pending := [], rs_model := rs_model s'\<rparr>"
    using assms by (auto simp: rSolve_def Let_def split: if_splits option.splits)
  have nest: "rmodels s \<nu>" if "wellNested s" "rcons ?c \<nu>" for \<nu>
    unfolding rmodels_def
  proof
    fix c assume "c \<in> set (rs_circuits s)"
    then have "?c = c @ drop (length c) ?c" using that(1) by (metis append_take_drop_id wellNested_def)
    then show "rcons c \<nu>" using that(2) rcons_prefix by metis
  qed
  have under: "sat_under M (rs_pending s # rs_scopes s) \<nu> \<longleftrightarrow> M \<nu> \<and> (\<forall>m\<in>set ?as. \<nu> m)" for M \<nu>
    by (auto simp: sat_under_def)
  show "sat_under (rmodels s) (rs_pending s # rs_scopes s)
       (case rs_model s' of None \<Rightarrow> \<lambda>_. False | Some bs \<Rightarrow> litVal bs)" if sat: "r = satisfiable"
  proof -
    obtain bs where f: "wellNested s" "find (\<lambda>bs. \<forall>m\<in>set ?as. litVal bs m) (assignments ?c) = Some bs"
      "rs_model s' = Some bs"
      using assms sat by (auto simp: rSolve_def Let_def split: if_splits option.splits)
    then have "bs \<in> set (assignments ?c)" "\<forall>m\<in>set ?as. litVal bs m" by (auto simp: find_Some_iff)
    then show ?thesis using f nest assignments_sound unfolding under by auto
  qed
  show "\<nexists>\<nu>. sat_under (rmodels s) (rs_pending s # rs_scopes s) \<nu>" if "r = unsatisfiable"
  proof
    assume "\<exists>\<nu>. sat_under (rmodels s) (rs_pending s # rs_scopes s) \<nu>"
    then obtain \<nu> where \<nu>: "rmodels s \<nu>" "\<forall>m\<in>set ?as. \<nu> m" unfolding under by blast
    have f: "wellNested s" "find (\<lambda>bs. \<forall>m\<in>set ?as. litVal bs m) (assignments ?c) = None"
      "\<forall>m\<in>set ?as. m < gateLit (length ?c)"
      using assms that by (auto simp: rSolve_def Let_def split: if_splits option.splits)
    have r: "rcons ?c \<nu>" using \<nu>(1) f(1) by (auto simp: rmodels_def wellNested_def)
    have "\<forall>m\<in>set ?as. litVal (values_of ?c \<nu>) m"
      using values_agree r \<nu>(2) f(3) by (auto simp: rcons_def)
    with f(2) assignments_complete [OF r] show False unfolding find_None_iff by blast
  qed
qed

lemma ref_solver: "solver_contract refGini rcons rmodels rs_scopes rs_pending"
proof -
  have v: "S_Value refGini s = (case rs_model s of None \<Rightarrow> \<lambda>_. False | Some bs \<Rightarrow> litVal bs)" for s
    by (auto simp: refGini_def split: option.splits)
  have "solve_law refGini rmodels rs_scopes rs_pending"
    unfolding solve_law_def v
  proof (intro allI impI)
    fix s r s' assume "S_Solve refGini s = (r, s')"
    then have "rSolve s = (r, s')" by (simp add: refGini_def)
    note rs = rSolve_cases [OF this]
    have "rmodels s' = rmodels s" "rs_scopes s' = rs_scopes s" "rs_pending s' = []"
      by (subst rs(1), simp add: rmodels_def fun_eq_iff)+
    with rs(2,3) show "rmodels s' = rmodels s \<and> rs_scopes s' = rs_scopes s \<and> rs_pending s' = []
        \<and> (r = 1 \<longrightarrow> sat_under (rmodels s) (rs_pending s # rs_scopes s)
             (case rs_model s' of None \<Rightarrow> \<lambda>_. False | Some bs \<Rightarrow> litVal bs))
        \<and> (r = -1 \<longrightarrow> (\<nexists>\<nu>. sat_under (rmodels s) (rs_pending s # rs_scopes s) \<nu>))" by blast
  qed
  moreover have "cnf_law refGini rcons rmodels rs_scopes rs_pending"
    by (auto simp: cnf_law_def refGini_def rmodels_def fun_eq_iff)
  ultimately show ?thesis
    by (simp add: solver_contract_def assume_law_def test_law_def untest_law_def refGini_def rmodels_def fun_eq_iff)
qed

lemma ref_fresh: "fresh rmodels rs_scopes rs_pending rNew"
  by (simp add: fresh_def rNew_def rmodels_def fun_eq_iff)

section \<open>The solver on the reference instance\<close>

declare searchLoop.simps [code]

text \<open>A root that needs one of two candidates, the preferred one being impossible.\<close>

definition demoInput :: "Variable list" where
  "demoInput = [GenericVariable ''r'' [mandatory, dependency [''a'', ''b'']],
     GenericVariable ''a'' [conflict ''r''], GenericVariable ''b'' []]"

theorem solveInput_sound_witness:
  "solution_ok demoInput {''r'', ''b''}"
proof -
  have "solveInput refGini rNew demoInput =
      Some (Inr [GenericVariable ''r'' [mandatory, dependency [''a'', ''b'']], GenericVariable ''b'' []])"
    by code_simp
  from solveInput_sound [OF ref_circuit ref_solver ref_fresh this] show ?thesis by simp
qed

definition unsatInput :: "Variable list" where
  "unsatInput = [GenericVariable ''r'' [mandatory, dependency [''a'']], GenericVariable ''a'' [prohibited]]"

theorem solveInput_unsat_witness:
  "\<not> solution_ok unsatInput {''r'', ''a''}"
proof -
  have "case solveInput refGini rNew unsatInput of Some (Inl (NotSatisfiable cs)) \<Rightarrow> True | _ \<Rightarrow> False"
    by code_simp
  then obtain cs where "solveInput refGini rNew unsatInput = Some (Inl (NotSatisfiable cs))"
    by (auto split: option.splits sum.splits solve_error.splits)
  from solveInput_unsat [OF ref_circuit ref_solver ref_fresh this, of "{''r'', ''a''}"]
  show ?thesis by (simp add: unsatInput_def)
qed

text \<open>A backtracked guess leaves the later choices with the candidates they had used up. Here
  \<open>a1\<close> excludes the only way to satisfy the second dependency of \<open>r\<close>; after the search
  has gone on to \<open>a2\<close>, that dependency is not guessed again.\<close>

definition lostInput :: "Variable list" where
  "lostInput = [GenericVariable ''r'' [mandatory, dependency [''a1'', ''a2''], dependency [''b'']],
     GenericVariable ''a1'' [conflict ''b''], GenericVariable ''a2'' [], GenericVariable ''b'' []]"

text \<open>A satisfiable problem can end in the internal error: on \<open>lostInput\<close>, with a SAT solver that meets both
  contracts, \<open>Solve\<close> reports the unexpected internal error although a selection satisfies all
  constraints. The solver here never decides in \<open>Test\<close>, which the contracts allow; how much gini's
  unit propagation and its learned clauses see of such a problem is not part of them.\<close>

lemma solveInput_loses_solution:
  "circuit_contract refGini rcons rknown \<and> solver_contract refGini rcons rmodels rs_scopes rs_pending \<and> fresh rmodels rs_scopes rs_pending rNew
   \<and> solution_ok lostInput {''r'', ''a2'', ''b''} \<and> solveInput refGini rNew lostInput = Some (Inl unexpectedInternalError)"
proof (intro conjI)
  show "solution_ok lostInput {''r'', ''a2'', ''b''}" by (simp add: lostInput_def solution_ok_def)
  show "solveInput refGini rNew lostInput = Some (Inl unexpectedInternalError)" by code_simp
qed (fact ref_circuit ref_solver ref_fresh)+

lemma solveInput_missing_witness:
  "\<exists>es. solveInput refGini rNew [GenericVariable ''r'' [mandatory, dependency [''a'']]] = Some (Inl (litMapError es))
      \<and> notProvided ''a'' \<in> set es"
  by (rule solveInput_missing [where v = "GenericVariable ''r'' [mandatory, dependency [''a'']]" and k = "dependency [''a'']"])
    simp_all

end
