(* ===== verification/API_Set.thy ===== *)
theory API_Set
  imports OLM_Prelude "HOL-Library.Word"
begin

text \<open>
  Sets of API keys, \<open>resolver/cache/operators.go\<close>. An \<open>APISet\<close> is a Go map with keys only:
  the list of its keys without repetition, in an order on which nothing may rely. The
  annotation that an operator group carries is the printed set, and \<open>ParseKindArg\<close> of the
  vendored \<open>apimachinery\<close> reads it back.
\<close>

record APIKey =
  Key_Group :: string
  Key_Version :: string
  Key_Kind :: string
  Key_Plural :: string

type_synonym APISet = "APIKey list"

section \<open>Operations\<close>

definition PopAPIKey :: "APISet \<Rightarrow> (APIKey \<times> APISet) option" where
  "PopAPIKey s = (case s of [] \<Rightarrow> None | a # _ \<Rightarrow> Some (a, removeAll a s))"

definition APIKeyToGVKString :: "APIKey \<Rightarrow> string" where
  "APIKeyToGVKString key = Join [Key_Kind key, Key_Version key, Key_Group key] ''.''"

text \<open>\<open>strings.SplitN(arg, ".", 3)\<close> on an argument with at least two dots.\<close>

definition ParseKindArg :: "string \<Rightarrow> APIKey option" where
  "ParseKindArg arg =
     (if length (filter (\<lambda>c. c = CHR ''.'') arg) \<ge> 2 then
        (case SplitN2 (CHR ''.'') arg of
           [k, rest] \<Rightarrow>
             (case SplitN2 (CHR ''.'') rest of
                [v, g] \<Rightarrow> Some \<lparr>Key_Group = g, Key_Version = v, Key_Kind = k, Key_Plural = []\<rparr>
              | _ \<Rightarrow> None)
         | _ \<Rightarrow> None)
      else None)"

definition GVKStringToProvidedAPISet :: "string \<Rightarrow> APISet" where
  "GVKStringToProvidedAPISet gvksStr =
     fold (\<lambda>gvkStr s. case ParseKindArg gvkStr of None \<Rightarrow> s | Some gvk \<Rightarrow> List.insert gvk s)
       (Split (CHR '','') (filter (\<lambda>c. c \<noteq> CHR '' '') gvksStr)) []"

text \<open>FNV-1a on 64 bits, and \<open>%x\<close>.\<close>

definition fnv64a :: "string \<Rightarrow> 64 word" where
  "fnv64a s = fold (\<lambda>c h. (xor h (word_of_nat (of_char c))) * 1099511628211) s 14695981039346656037"

definition hexDigit :: "nat \<Rightarrow> char" where
  "hexDigit d = (if d < 10 then char_of (48 + d) else char_of (87 + d))"

fun showHex :: "nat \<Rightarrow> string" where
  "showHex n = (if n < 16 then [hexDigit n] else showHex (n div 16) @ [hexDigit (n mod 16)])"

declare showHex.simps [simp del]

definition APIKeyToGVKHash :: "APIKey \<Rightarrow> string" where
  "APIKeyToGVKHash key = showHex (unat (fnv64a (APIKeyToGVKString key)))"

definition APISet_String :: "APISet \<Rightarrow> string" where
  "APISet_String s = Join (sort (map APIKeyToGVKString s)) '',''"

definition APISet_Union :: "APISet \<Rightarrow> APISet list \<Rightarrow> APISet" where
  "APISet_Union s sets = fold (\<lambda>set u. fold List.insert set u) sets (fold List.insert s [])"

definition APISet_Intersection :: "APISet \<Rightarrow> APISet list \<Rightarrow> APISet" where
  "APISet_Intersection s sets =
     fold (\<lambda>s' u. fold (\<lambda>api u. if api \<in> set s then List.insert api u else u) s' u) sets []"

definition APISet_Difference :: "APISet \<Rightarrow> APISet \<Rightarrow> APISet" where
  "APISet_Difference s s' = fold removeAll s' (APISet_Union [] [s])"

fun APISet_IsSubset :: "APISet \<Rightarrow> APISet \<Rightarrow> bool" where
  "APISet_IsSubset [] s' = True"
| "APISet_IsSubset (api # s) s' = (if api \<notin> set s' then False else APISet_IsSubset s s')"

definition stripKey :: "APIKey \<Rightarrow> APIKey" where
  "stripKey api = api\<lparr>Key_Plural := []\<rparr>"

definition APISet_StripPlural :: "APISet \<Rightarrow> APISet" where
  "APISet_StripPlural s = fold (\<lambda>api u. List.insert (stripKey api) u) s []"

section \<open>The operations are those of sets\<close>

lemma set_fold_insert [simp]: "set (fold List.insert s u) = set s \<union> set u"
  by (induction s arbitrary: u) auto

lemma distinct_fold_insert [simp]: "distinct u \<Longrightarrow> distinct (fold List.insert s u)"
  by (induction s arbitrary: u) (auto simp: List.insert_def)

lemma set_Union [simp]: "set (APISet_Union s sets) = set s \<union> \<Union> (set ` set sets)"
proof -
  have "set (fold (\<lambda>set u. fold List.insert set u) sets u) = set u \<union> \<Union> (set ` set sets)" for u :: "APISet"
    by (induction sets arbitrary: u) auto
  then show ?thesis by (simp add: APISet_Union_def)
qed

lemma distinct_Union [simp]: "distinct (APISet_Union s sets)"
proof -
  have "distinct u \<Longrightarrow> distinct (fold (\<lambda>set u. fold List.insert set u) sets u)" for u :: "APISet"
    by (induction sets arbitrary: u) auto
  then show ?thesis by (simp add: APISet_Union_def)
qed

lemma Intersection_inner:
  "set (fold (\<lambda>api u. if api \<in> S then List.insert api u else u) s' u) = (S \<inter> set s') \<union> set u"
  "distinct u \<Longrightarrow> distinct (fold (\<lambda>api u. if api \<in> S then List.insert api u else u) s' u)"
  by (induction s' arbitrary: u) (auto simp: List.insert_def)

lemma set_Intersection [simp]: "set (APISet_Intersection s sets) = set s \<inter> \<Union> (set ` set sets)"
proof -
  have "set (fold (\<lambda>s' u. fold (\<lambda>api u. if api \<in> S then List.insert api u else u) s' u) sets u)
      = (S \<inter> \<Union> (set ` set sets)) \<union> set u" for S and u :: "APISet"
    by (induction sets arbitrary: u) (auto simp: Intersection_inner)
  then show ?thesis by (simp add: APISet_Intersection_def)
qed

lemma distinct_Intersection [simp]: "distinct (APISet_Intersection s sets)"
proof -
  have "distinct u \<Longrightarrow> distinct (fold (\<lambda>s' u. fold (\<lambda>api u. if api \<in> S then List.insert api u else u) s' u) sets u)"
    for S and u :: "APISet"
    by (induction sets arbitrary: u) (auto simp: Intersection_inner)
  then show ?thesis by (simp add: APISet_Intersection_def)
qed

lemma set_fold_removeAll [simp]: "set (fold removeAll s' u) = set u - set s'"
  by (induction s' arbitrary: u) auto

lemma distinct_fold_removeAll [simp]: "distinct u \<Longrightarrow> distinct (fold removeAll s' u)"
  by (induction s' arbitrary: u) (auto simp: distinct_removeAll)

lemma set_Difference [simp]: "set (APISet_Difference s s') = set s - set s'"
  by (simp add: APISet_Difference_def)

lemma distinct_Difference [simp]: "distinct (APISet_Difference s s')"
  by (simp add: APISet_Difference_def)

lemma IsSubset_iff [simp]: "APISet_IsSubset s s' \<longleftrightarrow> set s \<subseteq> set s'"
  by (induction s) auto

lemma set_StripPlural [simp]: "set (APISet_StripPlural s) = stripKey ` set s"
proof -
  have "set (fold (\<lambda>api u. List.insert (stripKey api) u) s u) = stripKey ` set s \<union> set u" for u
    by (induction s arbitrary: u) auto
  then show ?thesis by (simp add: APISet_StripPlural_def)
qed

text \<open>The operations on API sets are the set operations, and the maps they build have no
  repeated key.\<close>

lemma APISet_operations:
  "set (APISet_Union s sets) = set s \<union> \<Union> (set ` set sets)
   \<and> set (APISet_Intersection s sets) = set s \<inter> \<Union> (set ` set sets)
   \<and> set (APISet_Difference s s') = set s - set s'
   \<and> (APISet_IsSubset s s' \<longleftrightarrow> set s \<subseteq> set s')
   \<and> distinct (APISet_Union s sets) \<and> distinct (APISet_Intersection s sets)
   \<and> distinct (APISet_Difference s s')"
  by simp

section \<open>The printed form\<close>

text \<open>A key that the API server accepts: neither the kind nor the version has a dot, and no
  part has a comma or a blank.\<close>

definition key_ok :: "APIKey \<Rightarrow> bool" where
  "key_ok k \<longleftrightarrow> CHR ''.'' \<notin> set (Key_Kind k) \<and> CHR ''.'' \<notin> set (Key_Version k)
     \<and> (\<forall>c\<in>{CHR '','', CHR '' ''}. c \<notin> set (Key_Kind k) \<union> set (Key_Version k) \<union> set (Key_Group k))"

lemma ParseKindArg_APIKeyToGVKString:
  assumes "key_ok k"
  shows "ParseKindArg (APIKeyToGVKString k) = Some (stripKey k)"
proof -
  have s: "APIKeyToGVKString k = Key_Kind k @ CHR ''.'' # Key_Version k @ CHR ''.'' # Key_Group k"
    by (simp add: APIKeyToGVKString_def)
  show ?thesis using assms unfolding s
    by (simp add: ParseKindArg_def key_ok_def SplitN2_append stripKey_def)
qed

lemma GVKString_no_sep:
  "key_ok k \<Longrightarrow> CHR '','' \<notin> set (APIKeyToGVKString k)"
  "key_ok k \<Longrightarrow> CHR '' '' \<notin> set (APIKeyToGVKString k)"
  by (auto simp: APIKeyToGVKString_def key_ok_def)

lemma Split_Join:
  assumes "\<forall>s\<in>set ss. c \<notin> set s" "ss \<noteq> []"
  shows "Split c (Join ss [c]) = ss"
  using assms
proof (induction ss "[c]" rule: Join.induct)
  case (3 s t ss)
  then show ?case using Split_append [of c s] by simp
qed simp_all

lemma set_Join: "set (Join ss sep) \<subseteq> \<Union> (set ` set ss) \<union> set sep"
  by (induction ss sep rule: Join.induct) auto

lemma set_parse_fold:
  "set (fold (\<lambda>gvkStr s. case ParseKindArg gvkStr of None \<Rightarrow> s | Some gvk \<Rightarrow> List.insert gvk s) gs u)
     = {k. \<exists>g\<in>set gs. ParseKindArg g = Some k} \<union> set u"
  by (induction gs arbitrary: u) (auto split: option.splits)



section \<open>The hash\<close>

lemma showHex_length: "n < 16 ^ k \<Longrightarrow> 0 < k \<Longrightarrow> length (showHex n) \<le> k"
proof (induction n arbitrary: k rule: showHex.induct)
  case (1 n)
  show ?case
  proof (cases "n < 16")
    case False
    have "k \<noteq> 1" using False 1(2) by auto
    then obtain j where j: "k = Suc j" "0 < j" using 1(3) by (cases k) auto
    have "n div 16 < 16 ^ j" using 1(2) j by (simp add: less_mult_imp_div_less mult.commute)
    with 1(1) [OF False, of j] j show ?thesis by (subst showHex.simps) (simp add: False)
  qed (use 1(3) in \<open>subst showHex.simps, simp\<close>)
qed

text \<open>The hash that labels a namespace with a provided API is at most sixteen characters
  long, whatever the key, and two keys that differ only in the plural name share it.\<close>

lemma APIKeyToGVKHash_bounds:
  "length (APIKeyToGVKHash key) \<le> 16 \<and> APIKeyToGVKHash (stripKey key) = APIKeyToGVKHash key"
proof
  have "unat (fnv64a (APIKeyToGVKString key)) < 2 ^ 64" using unsigned_less [of "fnv64a (APIKeyToGVKString key)"] by simp
  then show "length (APIKeyToGVKHash key) \<le> 16"
    unfolding APIKeyToGVKHash_def by (intro showHex_length) simp_all
  show "APIKeyToGVKHash (stripKey key) = APIKeyToGVKHash key"
    by (simp add: APIKeyToGVKHash_def APIKeyToGVKString_def stripKey_def)
qed

end
