(* ===== verification/Resolver_Cache.thy ===== *)
theory Resolver_Cache
  imports API_Set "HOL-Library.Product_Lexorder" "HOL-Library.AList"
begin

text \<open>
  The operator cache of the resolver: cache entries (\<open>cache/operators.go\<close>), predicates over
  them (\<open>cache/predicates.go\<close>), and the namespaced view of the catalogs
  (\<open>cache/cache.go\<close>).

  An entry carries the address of its Go object, because maps and sets of \<open>*Entry\<close> compare
  addresses. \<open>Test\<close> may count into a shared counter and may dereference a nil source, so it
  takes and returns the counters and its panic is \<open>None\<close>. Decoding of JSON, parsing of
  versions and evaluation of CEL programs belong to other packages: they are the argument
  \<open>J\<close>.
\<close>

section \<open>Entries\<close>

record SourceKey =
  SK_Name :: string
  SK_Namespace :: string

definition existingOperatorKey :: string where
  "existingOperatorKey = ''@existing''"

definition SourceKey_String :: "SourceKey \<Rightarrow> string" where
  "SourceKey_String k = SK_Name k @ ''/'' @ SK_Namespace k"

definition SourceKey_Empty :: "SourceKey \<Rightarrow> bool" where
  "SourceKey_Empty k \<longleftrightarrow> SK_Name k = [] \<and> SK_Namespace k = []"

definition SourceKey_Equal :: "SourceKey \<Rightarrow> SourceKey \<Rightarrow> bool" where
  "SourceKey_Equal k compare \<longleftrightarrow> SK_Name k = SK_Name compare \<and> SK_Namespace k = SK_Namespace compare"

definition Virtual :: "SourceKey \<Rightarrow> bool" where
  "Virtual k \<longleftrightarrow> SK_Name k = existingOperatorKey \<and> SK_Namespace k \<noteq> []"

definition NewVirtualSourceKey :: "string \<Rightarrow> SourceKey" where
  "NewVirtualSourceKey namespace = \<lparr>SK_Name = existingOperatorKey, SK_Namespace = namespace\<rparr>"

record Version =
  V_Major :: nat
  V_Minor :: nat
  V_Patch :: nat
  V_Pre :: "string list"
  V_Build :: "string list"

text \<open>The deprecations and the subscription of a source are pointers; only nil and equality
  are ever asked of them here, so they are addresses.\<close>

record OperatorSourceInfo =
  SI_Package :: string
  SI_Channel :: string
  SI_StartingCSV :: string
  SI_Catalog :: SourceKey
  SI_DefaultChannel :: bool
  SI_Deprecations :: "nat option"
  SI_Subscription :: "nat option"

definition SourceInfo_String :: "OperatorSourceInfo \<Rightarrow> string" where
  "SourceInfo_String i = SI_Package i @ ''/'' @ SI_Channel i @ '' in ''
     @ SK_Name (SI_Catalog i) @ ''/'' @ SK_Namespace (SI_Catalog i)"

record Property =
  P_Type :: string
  P_Value :: string

record Entry =
  E_addr :: nat
  E_Name :: string
  E_Replaces :: string
  E_Skips :: "string list"
  E_SkipRange :: "(Version \<Rightarrow> bool) option"
  E_ProvidedAPIs :: APISet
  E_RequiredAPIs :: APISet
  E_Version :: "Version option"
  E_SourceInfo :: "OperatorSourceInfo option"
  E_Properties :: "Property list"
  E_BundlePath :: string

definition Entry_Package :: "Entry \<Rightarrow> string" where
  "Entry_Package o' = (case E_SourceInfo o' of Some si \<Rightarrow> SI_Package si | None \<Rightarrow> [])"

definition Entry_Channel :: "Entry \<Rightarrow> string" where
  "Entry_Channel o' = (case E_SourceInfo o' of Some si \<Rightarrow> SI_Channel si | None \<Rightarrow> [])"

section \<open>Predicates\<close>

definition GVKType :: string where "GVKType = ''olm.gvk''"
definition PackageType :: string where "PackageType = ''olm.package''"
definition LabelType :: string where "LabelType = ''olm.label''"
definition DeprecatedType :: string where "DeprecatedType = ''olm.deprecated''"

record decoders =
  decodePackage :: "string \<Rightarrow> (string \<times> string) option"
  decodeLabel :: "string \<Rightarrow> string option"
  decodeGVK :: "string \<Rightarrow> (string \<times> string \<times> string) option"
  parseVersion :: "string \<Rightarrow> Version option"
  validJSON :: "string \<Rightarrow> bool"
  celEvaluate :: "nat \<Rightarrow> Property option list \<Rightarrow> bool option"

datatype Predicate =
    csvNamePredicate string
  | channelPredicate string
  | pkgPredicate string
  | versionInRangePredicate "Version \<Rightarrow> bool" string
  | labelPredicate string
  | catalogPredicate SourceKey
  | gvkPredicate APIKey
  | skipRangeIncludesPredication Version string
  | replacesPredicate string
  | andPredicate "Predicate list"
  | orPredicate "Predicate list"
  | notPredicate "Predicate list"
  | booleanPredicate bool
  | countingPredicate Predicate nat
  | celPredicate nat string string

type_synonym counters = "nat \<Rightarrow> nat"

fun pkgLoop :: "decoders \<Rightarrow> string \<Rightarrow> Property list \<Rightarrow> bool" where
  "pkgLoop J pkg [] = False"
| "pkgLoop J pkg (p # ps) =
     (if P_Type p \<noteq> PackageType then pkgLoop J pkg ps
      else case decodePackage J (P_Value p) of
             None \<Rightarrow> pkgLoop J pkg ps
           | Some (n, v) \<Rightarrow> if n = pkg then True else pkgLoop J pkg ps)"

fun versionLoop :: "decoders \<Rightarrow> (Version \<Rightarrow> bool) \<Rightarrow> Property list \<Rightarrow> bool" where
  "versionLoop J r [] = False"
| "versionLoop J r (p # ps) =
     (if P_Type p \<noteq> PackageType then versionLoop J r ps
      else case decodePackage J (P_Value p) of
             None \<Rightarrow> versionLoop J r ps
           | Some (n, v) \<Rightarrow>
               (case parseVersion J v of
                  None \<Rightarrow> versionLoop J r ps
                | Some ver \<Rightarrow> if r ver then True else versionLoop J r ps))"

fun labelLoop :: "decoders \<Rightarrow> string \<Rightarrow> Property list \<Rightarrow> bool" where
  "labelLoop J l [] = False"
| "labelLoop J l (p # ps) =
     (if P_Type p \<noteq> LabelType then labelLoop J l ps
      else case decodeLabel J (P_Value p) of
             None \<Rightarrow> labelLoop J l ps
           | Some l' \<Rightarrow> if l' = l then True else labelLoop J l ps)"

fun gvkLoop :: "decoders \<Rightarrow> APIKey \<Rightarrow> Property list \<Rightarrow> bool" where
  "gvkLoop J api [] = False"
| "gvkLoop J api (p # ps) =
     (if P_Type p \<noteq> GVKType then gvkLoop J api ps
      else case decodeGVK J (P_Value p) of
             None \<Rightarrow> gvkLoop J api ps
           | Some (g, v, k) \<Rightarrow>
               if k = Key_Kind api \<and> v = Key_Version api \<and> g = Key_Group api then True
               else gvkLoop J api ps)"

definition celTest :: "decoders \<Rightarrow> nat \<Rightarrow> Entry \<Rightarrow> bool" where
  "celTest J prog e =
     (case celEvaluate J prog (map (\<lambda>p. if validJSON J (P_Value p) then Some p else None) (E_Properties e)) of
        None \<Rightarrow> False | Some ok \<Rightarrow> ok)"

fun Test :: "decoders \<Rightarrow> Predicate \<Rightarrow> Entry \<Rightarrow> counters \<Rightarrow> (bool \<times> counters) option"
  and TestAll :: "decoders \<Rightarrow> Predicate list \<Rightarrow> Entry \<Rightarrow> counters \<Rightarrow> (bool \<times> counters) option"
  and TestAny :: "decoders \<Rightarrow> Predicate list \<Rightarrow> Entry \<Rightarrow> counters \<Rightarrow> (bool \<times> counters) option" where
  "Test J (csvNamePredicate c) e s = Some (E_Name e = c, s)"
| "Test J (channelPredicate ch) e s =
     Some (if ch = [] then True
           else case E_SourceInfo e of Some si \<Rightarrow> SI_Channel si = ch | None \<Rightarrow> False, s)"
| "Test J (pkgPredicate pkg) e s = Some (pkgLoop J pkg (E_Properties e) \<or> Entry_Package e = pkg, s)"
| "Test J (versionInRangePredicate r str) e s =
     Some (versionLoop J r (E_Properties e)
           \<or> (case E_Version e of None \<Rightarrow> False | Some v \<Rightarrow> r v), s)"
| "Test J (labelPredicate l) e s = Some (labelLoop J l (E_Properties e), s)"
| "Test J (catalogPredicate k) e s =
     (case E_SourceInfo e of None \<Rightarrow> None | Some si \<Rightarrow> Some (SourceKey_Equal k (SI_Catalog si), s))"
| "Test J (gvkPredicate api) e s = Some (gvkLoop J api (E_Properties e), s)"
| "Test J (skipRangeIncludesPredication v str) e s =
     Some (case E_SkipRange e of None \<Rightarrow> False | Some r \<Rightarrow> r v, s)"
| "Test J (replacesPredicate r) e s = Some (E_Replaces e = r \<or> list_ex (\<lambda>x. x = r) (E_Skips e), s)"
| "Test J (andPredicate ps) e s = TestAll J ps e s"
| "Test J (orPredicate ps) e s = TestAny J ps e s"
| "Test J (notPredicate ps) e s = map_option (\<lambda>(b, s). (\<not> b, s)) (TestAny J ps e s)"
| "Test J (booleanPredicate b) e s = Some (b, s)"
| "Test J (countingPredicate p n) e s =
     map_option (\<lambda>(b, s). if b then (True, s(n := s n + 1)) else (False, s)) (Test J p e s)"
| "Test J (celPredicate prog rule msg) e s = Some (celTest J prog e, s)"
| "TestAll J [] e s = Some (True, s)"
| "TestAll J (p # ps) e s =
     (case Test J p e s of
        None \<Rightarrow> None
      | Some (b, s') \<Rightarrow> if \<not> b then Some (False, s') else TestAll J ps e s')"
| "TestAny J [] e s = Some (False, s)"
| "TestAny J (p # ps) e s =
     (case Test J p e s of
        None \<Rightarrow> None
      | Some (b, s') \<Rightarrow> if b then Some (True, s') else TestAny J ps e s')"

text \<open>\<open>q\<close> is the quoting of \<open>%q\<close>.\<close>

fun Predicate_String :: "(string \<Rightarrow> string) \<Rightarrow> Predicate \<Rightarrow> string" where
  "Predicate_String q (csvNamePredicate c) = ''with name: '' @ c"
| "Predicate_String q (channelPredicate ch) = ''with channel: '' @ ch"
| "Predicate_String q (pkgPredicate pkg) = ''with package: '' @ pkg"
| "Predicate_String q (versionInRangePredicate r str) = ''with version in range: '' @ str"
| "Predicate_String q (labelPredicate l) = ''with label: '' @ l"
| "Predicate_String q (catalogPredicate k) = ''from catalog: '' @ SK_Namespace k @ ''/'' @ SK_Name k"
| "Predicate_String q (gvkPredicate api) = ''providing an API with group: '' @ Key_Group api
     @ '', version: '' @ Key_Version api @ '', kind: '' @ Key_Kind api"
| "Predicate_String q (skipRangeIncludesPredication v str) = ''skip range includes: '' @ str"
| "Predicate_String q (replacesPredicate r) = ''replaces: '' @ r"
| "Predicate_String q (andPredicate ps) = Join (map (Predicate_String q) ps) '' and ''"
| "Predicate_String q (orPredicate ps) = Join (map (Predicate_String q) ps) '' or ''"
| "Predicate_String q (notPredicate ps) = Join (map (Predicate_String q) ps) '' and not ''"
| "Predicate_String q (booleanPredicate b) = (if b then ''predicate is true'' else ''predicate is false'')"
| "Predicate_String q (countingPredicate p n) = Predicate_String q p"
| "Predicate_String q (celPredicate prog rule msg) =
     ''with constraint: '' @ q rule @ '' and message: '' @ q msg"

section \<open>Filtering\<close>

definition Matches :: "decoders \<Rightarrow> Entry \<Rightarrow> Predicate list \<Rightarrow> counters \<Rightarrow> (bool \<times> counters) option" where
  "Matches J e ps s = Test J (andPredicate ps) e s"

fun Filter :: "decoders \<Rightarrow> Entry list \<Rightarrow> Predicate list \<Rightarrow> counters \<Rightarrow> (Entry list \<times> counters) option" where
  "Filter J [] ps s = Some ([], s)"
| "Filter J (e # es) ps s =
     (case Matches J e ps s of
        None \<Rightarrow> None
      | Some (b, s') \<Rightarrow> map_option (\<lambda>(r, s). (if b then e # r else r, s)) (Filter J es ps s'))"

datatype snap_error = sourceError string | producedNothing SourceKey

datatype cache_error = expectedExactlyOne nat | catalogErrors "(SourceKey \<times> snap_error) list"

definition ExactlyOne :: "Entry list \<Rightarrow> cache_error + Entry" where
  "ExactlyOne es = (if length es \<noteq> 1 then Inl (expectedExactlyOne (length es)) else Inr (es ! 0))"

section \<open>What a predicate means\<close>

fun sat :: "decoders \<Rightarrow> Predicate \<Rightarrow> Entry \<Rightarrow> bool" where
  "sat J (csvNamePredicate c) e \<longleftrightarrow> E_Name e = c"
| "sat J (channelPredicate ch) e \<longleftrightarrow> ch = [] \<or> (\<exists>si. E_SourceInfo e = Some si \<and> SI_Channel si = ch)"
| "sat J (pkgPredicate pkg) e \<longleftrightarrow>
     (\<exists>p\<in>set (E_Properties e). P_Type p = PackageType \<and> (\<exists>v. decodePackage J (P_Value p) = Some (pkg, v)))
     \<or> Entry_Package e = pkg"
| "sat J (versionInRangePredicate r str) e \<longleftrightarrow>
     (\<exists>p\<in>set (E_Properties e). P_Type p = PackageType
        \<and> (\<exists>n v ver. decodePackage J (P_Value p) = Some (n, v) \<and> parseVersion J v = Some ver \<and> r ver))
     \<or> (\<exists>v. E_Version e = Some v \<and> r v)"
| "sat J (labelPredicate l) e \<longleftrightarrow>
     (\<exists>p\<in>set (E_Properties e). P_Type p = LabelType \<and> decodeLabel J (P_Value p) = Some l)"
| "sat J (catalogPredicate k) e \<longleftrightarrow> (\<exists>si. E_SourceInfo e = Some si \<and> SI_Catalog si = k)"
| "sat J (gvkPredicate api) e \<longleftrightarrow>
     (\<exists>p\<in>set (E_Properties e). P_Type p = GVKType
        \<and> decodeGVK J (P_Value p) = Some (Key_Group api, Key_Version api, Key_Kind api))"
| "sat J (skipRangeIncludesPredication v str) e \<longleftrightarrow> (\<exists>r. E_SkipRange e = Some r \<and> r v)"
| "sat J (replacesPredicate r) e \<longleftrightarrow> E_Replaces e = r \<or> r \<in> set (E_Skips e)"
| "sat J (andPredicate ps) e \<longleftrightarrow> (\<forall>p\<in>set ps. sat J p e)"
| "sat J (orPredicate ps) e \<longleftrightarrow> (\<exists>p\<in>set ps. sat J p e)"
| "sat J (notPredicate ps) e \<longleftrightarrow> (\<forall>p\<in>set ps. \<not> sat J p e)"
| "sat J (booleanPredicate b) e \<longleftrightarrow> b"
| "sat J (countingPredicate p n) e \<longleftrightarrow> sat J p e"
| "sat J (celPredicate prog rule msg) e \<longleftrightarrow> celTest J prog e"

lemma pkgLoop_iff: "pkgLoop J pkg ps \<longleftrightarrow>
  (\<exists>p\<in>set ps. P_Type p = PackageType \<and> (\<exists>v. decodePackage J (P_Value p) = Some (pkg, v)))"
  by (induction ps) (auto split: option.splits)

lemma versionLoop_iff: "versionLoop J r ps \<longleftrightarrow>
  (\<exists>p\<in>set ps. P_Type p = PackageType
     \<and> (\<exists>n v ver. decodePackage J (P_Value p) = Some (n, v) \<and> parseVersion J v = Some ver \<and> r ver))"
  by (induction ps) (auto split: option.splits)

lemma labelLoop_iff: "labelLoop J l ps \<longleftrightarrow>
  (\<exists>p\<in>set ps. P_Type p = LabelType \<and> decodeLabel J (P_Value p) = Some l)"
  by (induction ps) (auto split: option.splits)

lemma gvkLoop_iff: "gvkLoop J api ps \<longleftrightarrow>
  (\<exists>p\<in>set ps. P_Type p = GVKType
     \<and> decodeGVK J (P_Value p) = Some (Key_Group api, Key_Version api, Key_Kind api))"
  by (induction ps) (auto split: option.splits)

lemmas loop_iffs = pkgLoop_iff versionLoop_iff labelLoop_iff gvkLoop_iff

text \<open>The counters are the only effect of a test, and it panics only on an entry without a
  source.\<close>

lemma Test_sat:
  assumes "E_SourceInfo e \<noteq> None"
  shows "\<exists>s'. Test J p e s = Some (sat J p e, s')"
    "\<exists>s'. TestAll J ps e s = Some (\<forall>p\<in>set ps. sat J p e, s')"
    "\<exists>s'. TestAny J ps e s = Some (\<exists>p\<in>set ps. sat J p e, s')"
  using assms
proof (induction J p e s and J ps e s and J ps e s rule: Test_TestAll_TestAny.induct)
  case (6 J k e s)
  then show ?case by (auto simp: SourceKey_Equal_def)
next
  case (14 J p n e s)
  then obtain s' where "Test J p e s = Some (sat J p e, s')" by blast
  then show ?case by (cases "sat J p e") auto
next
  case (17 J p ps e s)
  obtain s' where s': "Test J p e s = Some (sat J p e, s')" using 17(1,3) by blast
  then show ?case using 17(2) [OF s' refl] 17(3) by auto
next
  case (19 J p ps e s)
  obtain s' where s': "Test J p e s = Some (sat J p e, s')" using 19(1,3) by blast
  then show ?case using 19(2) [OF s' refl] 19(3) by auto
qed (auto simp: loop_iffs list_ex_iff split: option.splits)

lemma Filter_sat:
  assumes "\<forall>e\<in>set es. E_SourceInfo e \<noteq> None"
  shows "\<exists>s'. Filter J es ps s = Some (filter (\<lambda>e. \<forall>p\<in>set ps. sat J p e) es, s')"
  using assms
proof (induction es arbitrary: s)
  case (Cons e es)
  obtain s1 where s1: "TestAll J ps e s = Some (\<forall>p\<in>set ps. sat J p e, s1)"
    using Test_sat(2) [of e J ps s] Cons.prems by auto
  obtain s2 where "Filter J es ps s1 = Some (filter (\<lambda>e. \<forall>p\<in>set ps. sat J p e) es, s2)"
    using Cons.IH [of s1] Cons.prems by auto
  with s1 show ?case by (simp add: Matches_def)
qed simp

text \<open>Filtering entries keeps exactly those that satisfy all predicates, in order, whatever
  the counters, and does not panic on entries that have a source.\<close>

lemma Filter_correct:
  assumes "\<forall>e\<in>set es. E_SourceInfo e \<noteq> None"
  shows "map_option fst (Filter J es ps s) = Some (filter (\<lambda>e. sat J (andPredicate ps) e) es)"
  using Filter_sat [OF assms, of J ps s] by auto

definition noDecoders :: decoders where
  "noDecoders = \<lparr>decodePackage = (\<lambda>_. None), decodeLabel = (\<lambda>_. None), decodeGVK = (\<lambda>_. None),
     parseVersion = (\<lambda>_. None), validJSON = (\<lambda>_. False), celEvaluate = (\<lambda>_ _. None)\<rparr>"

definition demoEntry :: "nat \<Rightarrow> string \<Rightarrow> string \<Rightarrow> string \<Rightarrow> SourceKey \<Rightarrow> Entry" where
  "demoEntry a name repl ch cat = \<lparr>E_addr = a, E_Name = name, E_Replaces = repl, E_Skips = [],
     E_SkipRange = None, E_ProvidedAPIs = [], E_RequiredAPIs = [], E_Version = None,
     E_SourceInfo = Some \<lparr>SI_Package = ''pkg'', SI_Channel = ch, SI_StartingCSV = [], SI_Catalog = cat,
       SI_DefaultChannel = False, SI_Deprecations = None, SI_Subscription = None\<rparr>,
     E_Properties = [], E_BundlePath = []\<rparr>"

definition demoCatalog :: SourceKey where
  "demoCatalog = \<lparr>SK_Name = ''cat'', SK_Namespace = ''ns''\<rparr>"

lemma Filter_correct_witness:
  "map_option fst (Filter noDecoders [demoEntry 0 ''a.v1'' [] ''alpha'' demoCatalog, demoEntry 1 ''a.v2'' ''a.v1'' ''alpha'' demoCatalog]
     [csvNamePredicate ''a.v2'', pkgPredicate ''pkg''] (\<lambda>_. 0))
   = Some [demoEntry 1 ''a.v2'' ''a.v1'' ''alpha'' demoCatalog]"
  using Filter_correct [of "[demoEntry 0 ''a.v1'' [] ''alpha'' demoCatalog, demoEntry 1 ''a.v2'' ''a.v1'' ''alpha'' demoCatalog]"
      noDecoders "[csvNamePredicate ''a.v2'', pkgPredicate ''pkg'']" "\<lambda>_. 0"]
  by (simp add: demoEntry_def Entry_Package_def)

section \<open>Counting\<close>

fun counterFree :: "Predicate \<Rightarrow> bool" where
  "counterFree (andPredicate ps) = (\<forall>p\<in>set ps. counterFree p)"
| "counterFree (orPredicate ps) = (\<forall>p\<in>set ps. counterFree p)"
| "counterFree (notPredicate ps) = (\<forall>p\<in>set ps. counterFree p)"
| "counterFree (countingPredicate p n) = False"
| "counterFree _ = True"

lemma Test_counterFree:
  assumes "E_SourceInfo e \<noteq> None"
  shows "counterFree p \<Longrightarrow> Test J p e s = Some (sat J p e, s)"
    "\<forall>p\<in>set ps. counterFree p \<Longrightarrow> TestAll J ps e s = Some (\<forall>p\<in>set ps. sat J p e, s)"
    "\<forall>p\<in>set ps. counterFree p \<Longrightarrow> TestAny J ps e s = Some (\<exists>p\<in>set ps. sat J p e, s)"
  using assms
proof (induction J p e s and J ps e s and J ps e s rule: Test_TestAll_TestAny.induct)
  case (6 J k e s)
  then show ?case by (auto simp: SourceKey_Equal_def)
qed (auto simp: loop_iffs list_ex_iff split: option.splits)

definition counted :: "Predicate list \<Rightarrow> nat list \<Rightarrow> Predicate list" where
  "counted ps ns = map (\<lambda>(p, n). countingPredicate p n) (zip ps ns)"

text \<open>One entry raises the counters of the longest prefix of predicates that it satisfies.\<close>

lemma TestAll_counted:
  assumes "E_SourceInfo e \<noteq> None" "length ps = length ns" "\<forall>p\<in>set ps. counterFree p" "distinct ns"
  shows "\<exists>s'. TestAll J (counted ps ns) e s = Some (\<forall>p\<in>set ps. sat J p e, s')
     \<and> (\<forall>i<length ns. s' (ns ! i) = s (ns ! i) + (if \<forall>p\<in>set (take (Suc i) ps). sat J p e then 1 else 0))
     \<and> (\<forall>m. m \<notin> set ns \<longrightarrow> s' m = s m)"
  using assms(2-)
proof (induction ps ns arbitrary: s rule: list_induct2)
  case (Cons p ps n ns)
  have t: "Test J p e s = Some (sat J p e, s)" using Test_counterFree(1) [OF assms(1)] Cons.prems(1) by simp
  show ?case
  proof (cases "sat J p e")
    case True
    let ?s = "s(n := Suc (s n))"
    obtain s' where s': "TestAll J (counted ps ns) e ?s = Some (\<forall>p\<in>set ps. sat J p e, s')"
      "\<forall>i<length ns. s' (ns ! i) = ?s (ns ! i) + (if \<forall>p\<in>set (take (Suc i) ps). sat J p e then 1 else 0)"
      "\<forall>m. m \<notin> set ns \<longrightarrow> s' m = ?s m"
      using Cons.IH [of ?s] Cons.prems by (auto simp del: fun_upd_apply)
    have "s' (ns ! i) = s (ns ! i) + (if \<forall>p\<in>set (take (Suc i) ps). sat J p e then 1 else 0)" if "i < length ns" for i
      using s'(2) that Cons.prems(2) by auto
    moreover have "s' n = Suc (s n)" using s'(3) Cons.prems(2) by simp
    ultimately show ?thesis using s'(1,3) t True
      by (auto simp: counted_def less_Suc_eq_0_disj)
  qed (use t in \<open>auto simp: counted_def\<close>)
qed (simp add: counted_def)

text \<open>After filtering with counted predicates, the counter of each predicate is the number
  of entries that satisfy it and all predicates before it: a zero counter tells which part of
  a subscription found nothing.\<close>

lemma Filter_counts:
  assumes "\<forall>e\<in>set es. E_SourceInfo e \<noteq> None" "length ps = length ns"
    and "\<forall>p\<in>set ps. counterFree p" "distinct ns" "i < length ns"
    and "Filter J es [andPredicate (counted ps ns)] s = Some (r, s')"
  shows "s' (ns ! i) = s (ns ! i) + length (filter (\<lambda>e. \<forall>p\<in>set (take (Suc i) ps). sat J p e) es)"
  using assms(1,6)
proof (induction es arbitrary: s r)
  case (Cons e es)
  obtain s1 where s1: "TestAll J (counted ps ns) e s = Some (\<forall>p\<in>set ps. sat J p e, s1)"
    "\<forall>i<length ns. s1 (ns ! i) = s (ns ! i) + (if \<forall>p\<in>set (take (Suc i) ps). sat J p e then 1 else 0)"
    using TestAll_counted [OF _ assms(2-4), of e J s] Cons.prems(1) by auto
  then obtain r' where "Filter J es [andPredicate (counted ps ns)] s1 = Some (r', s')"
    using Cons.prems(2) by (auto simp: Matches_def split: if_splits)
  from Cons.IH [OF _ this] Cons.prems(1) s1(2) assms(5) show ?case by simp
qed simp

lemma Filter_counts_witness:
  "snd (the (Filter noDecoders [demoEntry 0 ''a.v1'' [] ''alpha'' demoCatalog, demoEntry 1 ''a.v2'' ''a.v1'' ''beta'' demoCatalog]
     [andPredicate (counted [booleanPredicate True, channelPredicate ''beta''] [0, 1])] (\<lambda>_. 0))) 1 = 1"
proof -
  let ?es = "[demoEntry 0 ''a.v1'' [] ''alpha'' demoCatalog, demoEntry 1 ''a.v2'' ''a.v1'' ''beta'' demoCatalog]"
  let ?f = "Filter noDecoders ?es [andPredicate (counted [booleanPredicate True, channelPredicate ''beta''] [0, 1])] (\<lambda>_. 0)"
  have "\<exists>r s'. ?f = Some (r, s')" by (simp add: demoEntry_def counted_def Matches_def)
  then have "?f = Some (fst (the ?f), snd (the ?f))" by fastforce
  from Filter_counts [OF _ _ _ _ _ this, of 1] show ?thesis by (simp add: demoEntry_def numeral_2_eq_2)
qed

section \<open>Snapshots of catalogs\<close>

text \<open>The pair in \<open>sh_snapshot\<close> is the list of entries and whether the \<open>Valid\<close> channel has
  been closed. A header is filled while its lock is held, so a reader sees it filled.\<close>

record snapshotHeader =
  sh_key :: SourceKey
  sh_snapshot :: "(Entry list \<times> bool) option"
  sh_err :: "snap_error option"
  sh_priority :: int

type_synonym snapshots = "(SourceKey \<times> snapshotHeader) list"

definition sh_Valid :: "snapshotHeader \<Rightarrow> bool" where
  "sh_Valid hdr = (case sh_snapshot hdr of
       None \<Rightarrow> False
     | Some (es, closed) \<Rightarrow> (if sh_err hdr \<noteq> None then False else \<not> closed))"

definition sh_Find :: "decoders \<Rightarrow> snapshotHeader \<Rightarrow> Predicate list \<Rightarrow> counters \<Rightarrow> (Entry list \<times> counters) option" where
  "sh_Find J hdr ps s = (case sh_snapshot hdr of None \<Rightarrow> Some ([], s) | Some (es, _) \<Rightarrow> Filter J es ps s)"

fun StaticSources :: "(SourceKey \<times> 'src) list \<Rightarrow> string list \<Rightarrow> (SourceKey \<times> 'src) list" where
  "StaticSources [] namespaces = []"
| "StaticSources ((key, source) # p) namespaces =
     (if list_ex (\<lambda>ns. SK_Namespace key = ns) namespaces then (key, source) # StaticSources p namespaces
      else StaticSources p namespaces)"

section \<open>Populating the cache\<close>

text \<open>The first pass, under the read lock.\<close>

fun lookupSources :: "snapshots \<Rightarrow> SourceKey list \<Rightarrow> snapshots \<Rightarrow> SourceKey list \<Rightarrow> snapshots \<times> SourceKey list" where
  "lookupSources c [] result misses = (result, misses)"
| "lookupSources c (key # keys) result misses =
     (case map_of c key of
        Some hdr \<Rightarrow>
          if sh_Valid hdr then lookupSources c keys (AList.update key hdr result) misses
          else lookupSources c keys result (misses @ [key])
      | None \<Rightarrow> lookupSources c keys result (misses @ [key]))"

definition swap :: "'a list \<Rightarrow> nat \<Rightarrow> nat \<Rightarrow> 'a list" where
  "swap xs i j = xs[i := xs ! j, j := xs ! i]"

text \<open>The second pass over the misses, under the write lock: \<open>n\<close> iterations are left.\<close>

fun recheck :: "snapshots \<Rightarrow> nat \<Rightarrow> nat \<Rightarrow> SourceKey list \<Rightarrow> snapshots \<Rightarrow> SourceKey list \<times> snapshots" where
  "recheck c 0 found misses result = (drop found misses, result)"
| "recheck c (Suc n) found misses result =
     (let i = length misses - Suc n in
      case map_of c (misses ! i) of
        Some hdr \<Rightarrow>
          if sh_Valid hdr
          then recheck c n (found + 1) (swap misses found i) (AList.update (misses ! i) hdr result)
          else recheck c n found misses result
      | None \<Rightarrow> recheck c n found misses result)"

definition newHeader :: "(SourceKey \<Rightarrow> string + (Entry list \<times> bool) option) \<Rightarrow> (SourceKey \<Rightarrow> int) \<Rightarrow> SourceKey \<Rightarrow> snapshotHeader" where
  "newHeader snap prio miss =
     (let hdr = \<lparr>sh_key = miss, sh_snapshot = None, sh_err = None, sh_priority = prio miss\<rparr>
      in case snap miss of
           Inl e \<Rightarrow> hdr\<lparr>sh_err := Some (sourceError e)\<rparr>
         | Inr (Some sn) \<Rightarrow> hdr\<lparr>sh_snapshot := Some sn\<rparr>
         | Inr None \<Rightarrow> hdr\<lparr>sh_err := Some (producedNothing miss)\<rparr>)"

fun populate :: "(SourceKey \<Rightarrow> snapshotHeader) \<Rightarrow> SourceKey list \<Rightarrow> snapshots \<Rightarrow> snapshots \<Rightarrow> snapshots \<times> snapshots" where
  "populate mk [] c result = (c, result)"
| "populate mk (miss # misses) c result =
     populate mk misses (AList.update miss (mk miss) c) (AList.update miss (mk miss) result)"

text \<open>\<open>Namespaced\<close>. Other calls may run between the two locks, so the contents under the
  read lock, \<open>c1\<close>, and under the write lock, \<open>c2\<close>, are separate arguments. The result is the
  namespaced cache and the contents left behind.\<close>

definition Namespaced :: "(SourceKey \<Rightarrow> string + (Entry list \<times> bool) option) \<Rightarrow> (SourceKey \<Rightarrow> int)
    \<Rightarrow> SourceKey list \<Rightarrow> snapshots \<Rightarrow> snapshots \<Rightarrow> snapshots \<times> snapshots" where
  "Namespaced snap prio sources c1 c2 =
     (let (result, misses) = lookupSources c1 sources [] []
      in if length misses = 0 then (result, c2)
         else
           let c3 = filter (\<lambda>(k, hdr). sh_Valid hdr) c2;
               (misses', result') = recheck c3 (length misses) 0 misses result;
               (c4, result'') = populate (newHeader snap prio) misses' c3 result'
           in (result'', c4))"

definition cacheErrors :: "snapshots \<Rightarrow> (SourceKey \<times> snap_error) list" where
  "cacheErrors c = List.map_filter (\<lambda>(key, hdr). map_option (\<lambda>e. (key, e)) (sh_err hdr)) c"

definition Cache_Error :: "snapshots \<Rightarrow> cache_error option" where
  "Cache_Error c = (if cacheErrors c = [] then None else Some (catalogErrors (cacheErrors c)))"

section \<open>Finding in preference order\<close>

definition existingKey :: "string \<Rightarrow> snapshots \<Rightarrow> SourceKey option" where
  "existingKey preferredNamespace c =
     find (\<lambda>key. Virtual key \<and> SK_Namespace key = preferredNamespace) (map fst c)"

definition isKey :: "snapshotHeader \<Rightarrow> SourceKey option \<Rightarrow> bool" where
  "isKey h k = (case k of None \<Rightarrow> False
     | Some k \<Rightarrow> SK_Name (sh_key h) = SK_Name k \<and> SK_Namespace (sh_key h) = SK_Namespace k)"

definition Less :: "SourceKey option \<Rightarrow> SourceKey option \<Rightarrow> string \<Rightarrow> snapshotHeader \<Rightarrow> snapshotHeader \<Rightarrow> bool" where
  "Less existing preferred preferredNamespace i j =
     (if isKey i existing then True
      else if isKey j existing then False
      else if isKey i preferred then True
      else if isKey j preferred then False
      else if sh_priority i \<noteq> sh_priority j then sh_priority i > sh_priority j
      else if SK_Namespace (sh_key i) \<noteq> SK_Namespace (sh_key j) \<and> SK_Namespace (sh_key i) = preferredNamespace then True
      else if SK_Namespace (sh_key i) \<noteq> SK_Namespace (sh_key j) \<and> SK_Namespace (sh_key j) = preferredNamespace then False
      else SK_Name (sh_key i) < SK_Name (sh_key j))"

fun findInAll :: "decoders \<Rightarrow> snapshotHeader list \<Rightarrow> Predicate list \<Rightarrow> counters \<Rightarrow> (Entry list \<times> counters) option" where
  "findInAll J [] ps s = Some ([], s)"
| "findInAll J (h # hs) ps s =
     (case sh_Find J h ps s of
        None \<Rightarrow> None
      | Some (r, s') \<Rightarrow> map_option (\<lambda>(r', s). (r @ r', s)) (findInAll J hs ps s'))"

type_synonym sorter = "(snapshotHeader \<Rightarrow> snapshotHeader \<Rightarrow> bool) \<Rightarrow> snapshotHeader list \<Rightarrow> snapshotHeader list"

definition FindPreferred :: "decoders \<Rightarrow> sorter \<Rightarrow> snapshots \<Rightarrow> SourceKey option \<Rightarrow> string
    \<Rightarrow> Predicate list \<Rightarrow> counters \<Rightarrow> (Entry list \<times> counters) option" where
  "FindPreferred J srt c preferred preferredNamespace ps s =
     (let preferred = (case preferred of None \<Rightarrow> None | Some k \<Rightarrow> if SourceKey_Empty k then None else Some k);
          existing = existingKey preferredNamespace c
      in findInAll J (srt (Less existing preferred preferredNamespace) (map snd c)) ps s)"

datatype OperatorFinder = NamespacedOperatorCache snapshots | snapshotFinder snapshotHeader | EmptyOperatorFinder

definition Catalog :: "snapshots \<Rightarrow> SourceKey \<Rightarrow> OperatorFinder" where
  "Catalog c k =
     (if SourceKey_Empty k then NamespacedOperatorCache c
      else case map_of c k of Some snapshot \<Rightarrow> snapshotFinder snapshot | None \<Rightarrow> EmptyOperatorFinder)"

fun Find :: "decoders \<Rightarrow> sorter \<Rightarrow> OperatorFinder \<Rightarrow> Predicate list \<Rightarrow> counters \<Rightarrow> (Entry list \<times> counters) option" where
  "Find J srt (NamespacedOperatorCache c) ps s = FindPreferred J srt c None [] ps s"
| "Find J srt (snapshotFinder hdr) ps s = sh_Find J hdr ps s"
| "Find J srt EmptyOperatorFinder ps s = Some ([], s)"

section \<open>What Namespaced returns\<close>

text \<open>The specification: the usable header of a key in some contents of the cache.\<close>

definition usable :: "snapshots \<Rightarrow> SourceKey \<Rightarrow> snapshotHeader option" where
  "usable c k = (case map_of c k of None \<Rightarrow> None | Some h \<Rightarrow> if sh_Valid h then Some h else None)"

lemma lookupSources_eq:
  assumes "lookupSources c keys result misses = (r, ms)"
  shows "map_of r = (\<lambda>k. if k \<in> set keys \<and> usable c k \<noteq> None then usable c k else map_of result k)"
    "set ms = set misses \<union> {k \<in> set keys. usable c k = None}"
proof -
  have "map_of r = (\<lambda>k. if k \<in> set keys \<and> usable c k \<noteq> None then usable c k else map_of result k)
      \<and> set ms = set misses \<union> {k \<in> set keys. usable c k = None}"
    using assms
  proof (induction keys arbitrary: result misses)
    case (Cons key keys)
    show ?case
    proof (cases "usable c key")
      case None
      then have "lookupSources c keys result (misses @ [key]) = (r, ms)"
        using Cons.prems by (auto simp: usable_def split: option.splits if_splits)
      from Cons.IH [OF this] None show ?thesis by (auto simp: fun_eq_iff)
    next
      case (Some h)
      then have "lookupSources c keys (AList.update key h result) misses = (r, ms)"
        using Cons.prems by (auto simp: usable_def split: option.splits if_splits)
      from Cons.IH [OF this] Some show ?thesis by (auto simp: AList.update_conv' fun_eq_iff)
    qed
  qed auto
  then show "map_of r = (\<lambda>k. if k \<in> set keys \<and> usable c k \<noteq> None then usable c k else map_of result k)"
    "set ms = set misses \<union> {k \<in> set keys. usable c k = None}" by simp_all
qed

lemma recheck_step:
  "recheck c (Suc n) found misses result =
     (let k = misses ! (length misses - Suc n) in
      case usable c k of
        Some h \<Rightarrow> recheck c n (found + 1) (swap misses found (length misses - Suc n)) (AList.update k h result)
      | None \<Rightarrow> recheck c n found misses result)"
  by (auto simp: usable_def Let_def split: option.splits)

lemma swap_simps [simp]:
  "length (swap xs i j) = length xs"
  "i < length xs \<Longrightarrow> j < length xs \<Longrightarrow> set (swap xs i j) = set xs"
  "i \<le> j \<Longrightarrow> drop (Suc j) (swap xs i j) = drop (Suc j) xs"
  by (simp_all add: swap_def set_swap)

lemma recheck_eq:
  assumes "recheck c n found misses result = (ms, r)" "n \<le> length misses" "found \<le> length misses - n"
    and "\<forall>j<found. usable c (misses ! j) \<noteq> None"
    and "\<forall>j. found \<le> j \<longrightarrow> j < length misses - n \<longrightarrow> usable c (misses ! j) = None"
  shows "set ms = {k \<in> set misses. usable c k = None}
    \<and> map_of r = (\<lambda>k. if k \<in> set (drop (length misses - n) misses) \<and> usable c k \<noteq> None then usable c k else map_of result k)"
  using assms
proof (induction n arbitrary: found misses result)
  case 0
  have "set (take found misses) \<subseteq> {k. usable c k \<noteq> None}" "set (drop found misses) \<subseteq> {k. usable c k = None}"
    using 0 by (auto simp: in_set_conv_nth)
  moreover have "set misses = set (take found misses) \<union> set (drop found misses)"
    by (metis append_take_drop_id set_append)
  ultimately show ?case using 0(1) by auto
next
  case (Suc n)
  let ?i = "length misses - Suc n" and ?k = "misses ! (length misses - Suc n)"
  have i: "?i < length misses" "length misses - n = Suc ?i" using Suc.prems(2) by auto
  have dr: "drop ?i misses = ?k # drop (Suc ?i) misses" using i(1) by (rule Cons_nth_drop_Suc [symmetric])
  show ?case
  proof (cases "usable c ?k")
    case None
    then have rec: "recheck c n found misses result = (ms, r)" using Suc.prems(1) by (simp add: recheck_step Let_def del: recheck.simps)
    have "\<forall>j. found \<le> j \<longrightarrow> j < length misses - n \<longrightarrow> usable c (misses ! j) = None"
      using Suc.prems(5) None i(2) by (auto simp: less_Suc_eq)
    from Suc.IH [OF rec _ _ Suc.prems(4) this] Suc.prems(2,3) None dr i(2) show ?thesis by (auto simp: fun_eq_iff)
  next
    case (Some h)
    let ?m = "swap misses found ?i"
    have rec: "recheck c n (found + 1) ?m (AList.update ?k h result) = (ms, r)"
      using Suc.prems(1) Some by (simp add: recheck_step Let_def del: recheck.simps)
    have f: "found < length misses" using Suc.prems(3) i(1) by linarith
    have "\<forall>j<found + 1. usable c (?m ! j) \<noteq> None"
      using Suc.prems(3,4) Some f i(1) by (auto simp: swap_def nth_list_update less_Suc_eq)
    moreover have "\<forall>j. found + 1 \<le> j \<longrightarrow> j < length ?m - n \<longrightarrow> usable c (?m ! j) = None"
      using Suc.prems(3,5) f i by (auto simp: swap_def nth_list_update less_Suc_eq)
    ultimately have "set ms = {k \<in> set ?m. usable c k = None}
      \<and> map_of r = (\<lambda>k. if k \<in> set (drop (length ?m - n) ?m) \<and> usable c k \<noteq> None then usable c k
            else map_of (AList.update ?k h result) k)"
      using Suc.IH [OF rec] Suc.prems(2,3) i by auto
    then show ?thesis using f i dr Some Suc.prems(3) by (auto simp: AList.update_conv' fun_eq_iff)
  qed
qed

lemma populate_eq:
  assumes "populate mk misses c result = (c', r)"
  shows "map_of c' = (\<lambda>k. if k \<in> set misses then Some (mk k) else map_of c k)
    \<and> map_of r = (\<lambda>k. if k \<in> set misses then Some (mk k) else map_of result k)"
  using assms
proof (induction misses arbitrary: c result)
  case (Cons m ms)
  from Cons.IH [of "AList.update m (mk m) c" "AList.update m (mk m) result"] Cons.prems
  show ?case by (auto simp: AList.update_conv' fun_eq_iff)
qed auto

lemma map_of_filter_valid:
  assumes "distinct (map fst c)"
  shows "map_of (filter (\<lambda>(k, hdr). sh_Valid hdr) c) = usable c"
    "usable (filter (\<lambda>(k, hdr). sh_Valid hdr) c) = usable c"
proof -
  show eq: "map_of (filter (\<lambda>(k, hdr). sh_Valid hdr) c) = usable c"
    using assms
  proof (induction c)
    case (Cons kh c)
    have "map_of c (fst kh) = None" using Cons.prems by (simp add: map_of_eq_None_iff)
    then have "usable c (fst kh) = None" by (simp add: usable_def)
    with Cons show ?case by (cases kh) (auto simp: usable_def fun_eq_iff split: option.splits)
  qed (simp add: usable_def fun_eq_iff)
  show "usable (filter (\<lambda>(k, hdr). sh_Valid hdr) c) = usable c"
    unfolding usable_def [of "filter _ c"] fun_eq_iff eq by (auto simp: usable_def split: option.splits)
qed

text \<open>The namespaced cache has a header for exactly the sources asked for: the usable one
  of the first look, else the usable one found under the write lock, else a freshly filled
  one. After a miss the shared cache keeps the usable headers and gains the fresh ones, and
  the expired ones are gone.\<close>

lemma Namespaced_correct:
  assumes "distinct (map fst c2)" "Namespaced snap prio sources c1 c2 = (r, c')"
  shows "map_of r = (\<lambda>k. if k \<notin> set sources then None
           else case usable c1 k of Some h \<Rightarrow> Some h
           | None \<Rightarrow> (case usable c2 k of Some h \<Rightarrow> Some h | None \<Rightarrow> Some (newHeader snap prio k)))
    \<and> ((\<exists>k\<in>set sources. usable c1 k = None) \<longrightarrow>
        map_of c' = (\<lambda>k. if k \<in> set sources \<and> usable c1 k = None \<and> usable c2 k = None
                       then Some (newHeader snap prio k) else usable c2 k))"
proof -
  obtain r1 ms where l: "lookupSources c1 sources [] [] = (r1, ms)" by fastforce
  note ls = lookupSources_eq [OF l, simplified]
  show ?thesis
  proof (cases "ms = []")
    case True
    then have "r = r1" using assms(2) l by (simp add: Namespaced_def)
    with True ls show ?thesis by (auto simp: fun_eq_iff split: option.splits)
  next
    case False
    let ?c3 = "filter (\<lambda>(k, hdr). sh_Valid hdr) c2"
    obtain ms' r2 where rc: "recheck ?c3 (length ms) 0 ms r1 = (ms', r2)" by fastforce
    have pop: "populate (newHeader snap prio) ms' ?c3 r2 = (c', r)"
      using assms(2) False l rc by (auto simp: Namespaced_def split: prod.splits)
    note re = recheck_eq [OF rc, simplified, unfolded map_of_filter_valid [OF assms(1)]]
      and pe = populate_eq [OF pop, unfolded map_of_filter_valid [OF assms(1)]]
    show ?thesis using ls re pe by (auto simp: fun_eq_iff split: option.splits)
  qed
qed

definition demoHeader :: "SourceKey \<Rightarrow> int \<Rightarrow> Entry list \<Rightarrow> snapshotHeader" where
  "demoHeader k prio es = \<lparr>sh_key = k, sh_snapshot = Some (es, False), sh_err = None, sh_priority = prio\<rparr>"

lemma Namespaced_correct_witness:
  "map_of (fst (Namespaced (\<lambda>k. Inr (Some ([], False))) (\<lambda>k. 0) [demoCatalog] [] [])) demoCatalog
     = Some (demoHeader demoCatalog 0 [])"
proof -
  have "map_of (fst (Namespaced (\<lambda>k. Inr (Some ([], False))) (\<lambda>k. 0) [demoCatalog] [] [])) demoCatalog
     = Some (newHeader (\<lambda>k. Inr (Some ([], False))) (\<lambda>k. 0) demoCatalog)"
    using Namespaced_correct [of "[]" "\<lambda>k. Inr (Some ([], False))" "\<lambda>k. 0" "[demoCatalog]" "[]"
        "fst (Namespaced (\<lambda>k. Inr (Some ([], False))) (\<lambda>k. 0) [demoCatalog] [] [])"
        "snd (Namespaced (\<lambda>k. Inr (Some ([], False))) (\<lambda>k. 0) [demoCatalog] [] [])"]
    by (simp add: usable_def)
  then show ?thesis by (simp add: newHeader_def demoHeader_def)
qed

section \<open>The order of preference\<close>

definition wf_snapshots :: "snapshots \<Rightarrow> bool" where
  "wf_snapshots c \<longleftrightarrow> distinct (map fst c) \<and> (\<forall>(k, h)\<in>set c. sh_key h = k)"

definition entriesOf :: "snapshotHeader \<Rightarrow> Entry list" where
  "entriesOf h = (case sh_snapshot h of None \<Rightarrow> [] | Some (es, _) \<Rightarrow> es)"

definition sourced :: "snapshots \<Rightarrow> bool" where
  "sourced c \<longleftrightarrow> (\<forall>(k, h)\<in>set c. \<forall>e\<in>set (entriesOf h). E_SourceInfo e \<noteq> None)"

text \<open>The rank of a catalog: the installed operators of the preferred namespace first, then
  the preferred catalog, then by descending priority, then the catalogs of the preferred
  namespace, then by name.\<close>

definition rank :: "SourceKey option \<Rightarrow> SourceKey option \<Rightarrow> string \<Rightarrow> snapshotHeader \<Rightarrow> bool \<times> bool \<times> int \<times> bool \<times> string" where
  "rank existing preferred pns h =
     (existing \<noteq> Some (sh_key h), preferred \<noteq> Some (sh_key h), - sh_priority h,
      SK_Namespace (sh_key h) \<noteq> pns, SK_Name (sh_key h))"

lemma isKey_iff: "isKey h k \<longleftrightarrow> k = Some (sh_key h)"
  by (cases k) (auto simp: isKey_def)

lemma Less_rank:
  assumes "sh_key i \<noteq> sh_key j"
  shows "Less ex pr pns i j \<longleftrightarrow> rank ex pr pns i < rank ex pr pns j"
proof -
  have s: "SK_Name (sh_key i) \<noteq> SK_Name (sh_key j) \<or> SK_Namespace (sh_key i) \<noteq> SK_Namespace (sh_key j)"
    using assms by auto
  show ?thesis
    using assms by (auto simp: Less_def isKey_iff rank_def less_prod_def less_le)
qed

lemma orders_Less:
  assumes "wf_snapshots c"
  shows "distinct (map snd c)"
    "orders (Less ex pr pns) (\<lambda>a b. rank ex pr pns a \<le> rank ex pr pns b) (set (map snd c))"
proof -
  have key: "sh_key (snd x) = fst x" if "x \<in> set c" for x using assms that by (auto simp: wf_snapshots_def)
  then have "map sh_key (map snd c) = map fst c" by simp
  then show "distinct (map snd c)" using assms by (metis distinct_map wf_snapshots_def)
  have "x = y" if "x \<in> set c" "y \<in> set c" "sh_key (snd x) = sh_key (snd y)" for x y
    using that key assms unfolding wf_snapshots_def by (metis eq_key_imp_eq_value prod.collapse)
  then have "sh_key a \<noteq> sh_key b" if "a \<in> set (map snd c)" "b \<in> set (map snd c)" "a \<noteq> b" for a b
    using that by auto
  then have "Less ex pr pns a b \<longleftrightarrow> \<not> rank ex pr pns b \<le> rank ex pr pns a"
    if "a \<in> set (map snd c)" "b \<in> set (map snd c)" "a \<noteq> b" for a b
    using that Less_rank [of a b ex pr pns] by (simp add: not_le)
  then show "orders (Less ex pr pns) (\<lambda>a b. rank ex pr pns a \<le> rank ex pr pns b) (set (map snd c))"
    unfolding orders_def by (intro conjI ballI impI) (auto intro: order_trans)
qed

lemma findInAll_eq:
  assumes "\<forall>h\<in>set hs. \<forall>e\<in>set (entriesOf h). E_SourceInfo e \<noteq> None"
  shows "\<exists>s'. findInAll J hs ps s = Some (concat (map (\<lambda>h. filter (\<lambda>e. \<forall>p\<in>set ps. sat J p e) (entriesOf h)) hs), s')"
  using assms
proof (induction hs arbitrary: s)
  case (Cons h hs)
  have "\<exists>s'. sh_Find J h ps s = Some (filter (\<lambda>e. \<forall>p\<in>set ps. sat J p e) (entriesOf h), s')"
    using Filter_sat [of "entriesOf h" J ps s] Cons.prems
    by (auto simp: sh_Find_def entriesOf_def split: option.splits prod.splits)
  then obtain s1 where s1: "sh_Find J h ps s = Some (filter (\<lambda>e. \<forall>p\<in>set ps. sat J p e) (entriesOf h), s1)" ..
  obtain s2 where "findInAll J hs ps s1 = Some (concat (map (\<lambda>h. filter (\<lambda>e. \<forall>p\<in>set ps. sat J p e) (entriesOf h)) hs), s2)"
    using Cons.IH [of s1] Cons.prems by auto
  with s1 show ?case by simp
qed simp

lemma FindPreferred_sorted:
  assumes "go_sort srt" "wf_snapshots c" "sourced c"
    and "pr = (case preferred of None \<Rightarrow> None | Some k \<Rightarrow> if SourceKey_Empty k then None else Some k)"
  shows "\<exists>hs. map_option fst (FindPreferred J srt c preferred pns ps s)
        = Some (concat (map (\<lambda>h. filter (\<lambda>e. \<forall>p\<in>set ps. sat J p e) (entriesOf h)) hs))
     \<and> mset hs = mset (map snd c)
     \<and> sorted_wrt (\<lambda>a b. rank (existingKey pns c) pr pns a \<le> rank (existingKey pns c) pr pns b) hs"
proof -
  let ?hs = "srt (Less (existingKey pns c) pr pns) (map snd c)"
  have m: "mset ?hs = mset (map snd c)" by (rule go_sort.perm [OF assms(1)])
  then have "set ?hs = set (map snd c)" by (rule mset_eq_setD)
  then have "\<forall>h\<in>set ?hs. \<forall>e\<in>set (entriesOf h). E_SourceInfo e \<noteq> None" using assms(3) by (auto simp: sourced_def)
  from findInAll_eq [OF this, of J ps s]
  have "map_option fst (FindPreferred J srt c preferred pns ps s)
        = Some (concat (map (\<lambda>h. filter (\<lambda>e. \<forall>p\<in>set ps. sat J p e) (entriesOf h)) ?hs))"
    unfolding FindPreferred_def assms(4) Let_def by auto
  moreover have "sorted_wrt (\<lambda>a b. rank (existingKey pns c) pr pns a \<le> rank (existingKey pns c) pr pns b) ?hs"
    by (rule go_sort.sorts [OF assms(1)]) (rule orders_Less [OF assms(2)])+
  ultimately show ?thesis using m by blast
qed

text \<open>C18. \<open>FindPreferred\<close> returns the matching entries catalog by catalog in the order of
  preference: installed operators of the preferred namespace, then the preferred catalog, then
  higher priority, then the preferred namespace, then the name; an entry of a better ranked
  catalog comes first, and no matching entry is lost.\<close>

theorem FindPreferred_order:
  assumes "go_sort srt" "wf_snapshots c" "sourced c" "\<not> SourceKey_Empty pk"
  shows "\<exists>hs. map_option fst (FindPreferred J srt c (Some pk) pns ps s)
        = Some (concat (map (\<lambda>h. filter (\<lambda>e. sat J (andPredicate ps) e) (entriesOf h)) hs))
     \<and> mset hs = mset (map snd c)
     \<and> sorted_wrt (\<lambda>a b. rank (existingKey pns c) (Some pk) pns a \<le> rank (existingKey pns c) (Some pk) pns b) hs"
  using FindPreferred_sorted [OF assms(1-3), of "Some pk" "Some pk" J pns ps s] assms(4) by simp

theorem FindPreferred_order_witness:
  "map_option fst (FindPreferred noDecoders SliceStable
      [(demoCatalog, demoHeader demoCatalog 0 [demoEntry 0 ''a'' [] ''alpha'' demoCatalog])]
      (Some demoCatalog) ''ns'' [] (\<lambda>_. 0)) = Some [demoEntry 0 ''a'' [] ''alpha'' demoCatalog]"
proof -
  let ?c = "[(demoCatalog, demoHeader demoCatalog 0 [demoEntry 0 ''a'' [] ''alpha'' demoCatalog])]"
  have "wf_snapshots ?c" "sourced ?c" "\<not> SourceKey_Empty demoCatalog"
    by (simp_all add: wf_snapshots_def sourced_def demoHeader_def entriesOf_def demoEntry_def
        SourceKey_Empty_def demoCatalog_def)
  from FindPreferred_order [OF stable.go_sort_axioms this, of noDecoders "''ns''" "[]" "\<lambda>_. 0"]
  show ?thesis by (auto simp: demoHeader_def entriesOf_def)
qed

section \<open>The finder interface\<close>

text \<open>What a client of \<open>OperatorFinder\<close> relies on: \<open>find\<close> returns the entries of the finder
  that satisfy the predicates.\<close>

locale operator_finder =
  fixes find :: "'f \<Rightarrow> Predicate list \<Rightarrow> Entry list" and entries :: "'f \<Rightarrow> Entry set" and J :: decoders
    and ok :: "'f \<Rightarrow> bool"
  assumes find_set: "ok f \<Longrightarrow> set (find f ps) = {e \<in> entries f. \<forall>p\<in>set ps. sat J p e}"
begin

lemma find_sat: "ok f \<Longrightarrow> e \<in> set (find f ps) \<Longrightarrow> p \<in> set ps \<Longrightarrow> sat J p e"
  by (simp add: find_set)

lemma find_mono: "ok f \<Longrightarrow> set ps \<subseteq> set qs \<Longrightarrow> set (find f qs) \<subseteq> set (find f ps)"
  by (auto simp: find_set)

lemma find_empty_iff: "ok f \<Longrightarrow> find f ps = [] \<longleftrightarrow> (\<forall>e\<in>entries f. \<exists>p\<in>set ps. \<not> sat J p e)"
  using find_set [of f ps] unfolding set_empty [symmetric] by auto

lemma exactlyOne_find:
  assumes "ok f" "ExactlyOne (find f ps) = Inr e"
  shows "e \<in> entries f \<and> (\<forall>p\<in>set ps. sat J p e) \<and> (\<forall>e'\<in>entries f. (\<forall>p\<in>set ps. sat J p e') \<longrightarrow> e' = e)"
proof -
  have "find f ps = [e]"
    using assms(2) by (cases "find f ps") (auto simp: ExactlyOne_def split: if_splits)
  then have "{e \<in> entries f. \<forall>p\<in>set ps. sat J p e} = {e}" using find_set [OF assms(1), of ps] by simp
  then show ?thesis by blast
qed

end

definition finderEntries :: "OperatorFinder \<Rightarrow> Entry set" where
  "finderEntries f = (case f of
       NamespacedOperatorCache c \<Rightarrow> \<Union> (set ` entriesOf ` snd ` set c)
     | snapshotFinder h \<Rightarrow> set (entriesOf h)
     | EmptyOperatorFinder \<Rightarrow> {})"

definition finderOk :: "OperatorFinder \<Rightarrow> bool" where
  "finderOk f \<longleftrightarrow> (\<forall>e\<in>finderEntries f. E_SourceInfo e \<noteq> None)
     \<and> (case f of NamespacedOperatorCache c \<Rightarrow> wf_snapshots c | _ \<Rightarrow> True)"

definition found :: "decoders \<Rightarrow> OperatorFinder \<Rightarrow> Predicate list \<Rightarrow> Entry list" where
  "found J f ps = (case Find J SliceStable f ps (\<lambda>_. 0) of None \<Rightarrow> [] | Some (es, _) \<Rightarrow> es)"

lemma found_set:
  assumes "finderOk f"
  shows "set (found J f ps) = {e \<in> finderEntries f. \<forall>p\<in>set ps. sat J p e}"
proof (cases f)
  case (NamespacedOperatorCache c)
  have "wf_snapshots c" "sourced c"
    using assms NamespacedOperatorCache by (auto simp: finderOk_def finderEntries_def sourced_def)
  from FindPreferred_sorted [OF stable.go_sort_axioms this, of None None J "[]" ps "\<lambda>_. 0"]
  obtain hs where hs: "map_option fst (FindPreferred J SliceStable c None [] ps (\<lambda>_. 0))
        = Some (concat (map (\<lambda>h. filter (\<lambda>e. \<forall>p\<in>set ps. sat J p e) (entriesOf h)) hs))"
    "mset hs = mset (map snd c)" by auto
  have "set hs = snd ` set c" using mset_eq_setD [OF hs(2)] by simp
  with hs(1) show ?thesis using NamespacedOperatorCache
    by (force simp: found_def finderEntries_def split: option.splits)
next
  case (snapshotFinder h)
  have "\<exists>s'. sh_Find J h ps (\<lambda>_. 0) = Some (filter (\<lambda>e. \<forall>p\<in>set ps. sat J p e) (entriesOf h), s')"
    using Filter_sat [of "entriesOf h" J ps "\<lambda>_. 0"] assms snapshotFinder
    by (auto simp: sh_Find_def entriesOf_def finderOk_def finderEntries_def split: option.splits prod.splits)
  then show ?thesis using snapshotFinder by (auto simp: found_def finderEntries_def)
qed (simp add: found_def finderEntries_def)

interpretation cache: operator_finder "found J" finderEntries J finderOk for J
  by unfold_locales (rule found_set)

end
