(* ===== verification/Bundle_Variables.thy ===== *)
theory Bundle_Variables
  imports Resolver_Cache Solver
begin

text \<open>
  The variables that the resolver hands to the solver, \<open>resolver/variable_types.go\<close>: bundles,
  subscriptions, and the uniqueness of API providers and of packages. The meaning of the
  constraints they carry is given by \<open>holds\<close> of the solver.
\<close>

datatype resolve_error = unparsableIdentifier Identifier | unresolvedSource string

fun MakeProhibited :: "Variable \<Rightarrow> Variable" where
  "MakeProhibited (BundleVariable i cs r) = BundleVariable i (cs @ [prohibited]) r"
| "MakeProhibited v = v"

fun AddConflict :: "Identifier \<Rightarrow> Variable \<Rightarrow> Variable" where
  "AddConflict j (BundleVariable i cs r) = BundleVariable i (cs @ [conflict j]) r"
| "AddConflict j v = v"

fun AddConstraint :: "Constraint \<Rightarrow> Variable \<Rightarrow> Variable" where
  "AddConstraint c (BundleVariable i cs r) = BundleVariable i (cs @ [c]) r"
| "AddConstraint c v = v"

definition BundleSourceInfo :: "Identifier \<Rightarrow> resolve_error + string \<times> string \<times> SourceKey" where
  "BundleSourceInfo identifier =
     (case Split (CHR ''/'') identifier of
        [name, namespace, channel, csvName] \<Rightarrow>
          Inr (csvName, channel, \<lparr>SK_Name = name, SK_Namespace = namespace\<rparr>)
      | _ \<Rightarrow> Inl (unparsableIdentifier identifier))"

definition bundleID :: "string \<Rightarrow> string \<Rightarrow> SourceKey \<Rightarrow> Identifier" where
  "bundleID bundle channel catalog = SourceKey_String catalog @ ''/'' @ channel @ ''/'' @ bundle"

definition NewBundleVariableFromOperator :: "Entry \<Rightarrow> resolve_error + Variable" where
  "NewBundleVariableFromOperator e =
     (case E_SourceInfo e of
        None \<Rightarrow> Inl (unresolvedSource (E_Name e))
      | Some si \<Rightarrow>
          (let i = bundleID (E_Name e) (Entry_Channel e) (SI_Catalog si);
               c1 = (if Virtual (SI_Catalog si) \<and> SI_Subscription si = None
                     then [prettyConstraint mandatory (''clusterserviceversion '' @ E_Name e
                             @ '' exists and is not referenced by a subscription'')]
                     else []);
               c2 = (if list_ex (\<lambda>p. P_Type p = DeprecatedType) (E_Properties e)
                     then [prettyConstraint prohibited (''bundle '' @ i @ '' is deprecated'')]
                     else [])
           in Inr (BundleVariable i (c1 @ c2) [])))"

definition subscriptionID :: "string \<Rightarrow> Identifier" where
  "subscriptionID name = ''subscription:'' @ name"

definition NewInvalidSubscriptionVariable :: "string \<Rightarrow> string \<Rightarrow> Variable" where
  "NewInvalidSubscriptionVariable name reason =
     GenericVariable (subscriptionID name)
       [prettyConstraint mandatory (''subscription '' @ name @ '' exists''),
        prettyConstraint prohibited reason]"

definition NewSubscriptionVariable :: "string \<Rightarrow> Identifier list \<Rightarrow> Variable" where
  "NewSubscriptionVariable name dependencies =
     (let exists = prettyConstraint mandatory (''subscription '' @ name @ '' exists'')
      in if length dependencies = 0 then
           GenericVariable (subscriptionID name)
             [exists, prettyConstraint (dependency [])
                (''no operators found matching the criteria of subscription '' @ name)]
         else
           let req = (if length dependencies = 1 then dependencies ! 0
                      else ''at least one of '' @ Join (butlast dependencies) '', '' @ '' or '' @ last dependencies)
           in GenericVariable (subscriptionID name)
                [exists, prettyConstraint (dependency dependencies)
                   (''subscription '' @ name @ '' requires '' @ req)])"

definition apiProviderID :: "string \<Rightarrow> string \<Rightarrow> string \<Rightarrow> Identifier" where
  "apiProviderID grp version kind = kind @ '' ('' @ grp @ ''/'' @ version @ '')''"

definition NewSingleAPIProviderVariable :: "string \<Rightarrow> string \<Rightarrow> string \<Rightarrow> Identifier list \<Rightarrow> Variable" where
  "NewSingleAPIProviderVariable grp version kind providers =
     (let gvk = apiProviderID grp version kind
      in if length providers \<le> 1 then GenericVariable gvk []
         else GenericVariable gvk
           [prettyConstraint mandatory (''there can be only one provider of '' @ gvk),
            prettyConstraint (leq providers 1)
              (Join (butlast providers) '', '' @ '' and '' @ last providers @ '' provide '' @ gvk)])"

definition NewSinglePackageInstanceVariable :: "string \<Rightarrow> Identifier list \<Rightarrow> Variable" where
  "NewSinglePackageInstanceVariable pkg providers =
     (if length providers \<le> 1 then GenericVariable pkg []
      else GenericVariable pkg
        [prettyConstraint mandatory (''there can be only one operator from package '' @ pkg),
         prettyConstraint (leq providers 1)
           (Join (butlast providers) '', '' @ '' and '' @ last providers @ '' originate from package '' @ pkg)])"

section \<open>Identifiers of bundles\<close>

lemma Split_length: "length (Split c s) = Suc (length (filter (\<lambda>x. x = c) s))"
  by (induction s) (auto split: list.splits)

lemma BundleSourceInfo_bundleID:
  assumes "CHR ''/'' \<notin> set (SK_Name k) \<union> set (SK_Namespace k) \<union> set ch \<union> set b"
  shows "BundleSourceInfo (bundleID b ch k) = Inr (b, ch, k)"
  using assms by (simp add: BundleSourceInfo_def bundleID_def SourceKey_String_def Split_append)

text \<open>The identifier of a bundle reads back as its name, channel and catalog exactly when
  none of these contains a slash; a slash in the channel, which no naming rule of the cluster
  excludes, makes the identifier unreadable.\<close>

lemma bundleID_readable:
  "BundleSourceInfo (bundleID b ch k)
     = (if CHR ''/'' \<in> set (SK_Name k) \<union> set (SK_Namespace k) \<union> set ch \<union> set b
        then Inl (unparsableIdentifier (bundleID b ch k)) else Inr (b, ch, k))"
proof (cases "CHR ''/'' \<in> set (SK_Name k) \<union> set (SK_Namespace k) \<union> set ch \<union> set b")
  case True
  let ?n = "\<lambda>s. length (filter (\<lambda>x. x = CHR ''/'') s)"
  have "CHR ''/'' \<in> set s \<Longrightarrow> 0 < ?n s" for s by (auto simp: length_greater_0_conv filter_empty_conv)
  then have "0 < ?n (SK_Name k) + ?n (SK_Namespace k) + ?n ch + ?n b" using True by fastforce
  then have "length (Split (CHR ''/'') (bundleID b ch k)) \<noteq> 4"
    by (simp add: Split_length bundleID_def SourceKey_String_def)
  then show ?thesis using True by (auto simp: BundleSourceInfo_def split: list.splits)
qed (simp add: BundleSourceInfo_bundleID)

section \<open>What the variables demand\<close>

lemma count_le_1:
  assumes "length (filter P xs) \<le> 1" "x \<in> set xs" "y \<in> set xs" "P x" "P y"
  shows "x = y"
proof (rule ccontr)
  assume "x \<noteq> y"
  have "{x, y} \<subseteq> set (filter P xs)" using assms(2-) by auto
  then have "card {x, y} \<le> length (filter P xs)"
    by (meson List.finite_set card_length card_mono order_trans)
  then show False using \<open>x \<noteq> y\<close> assms(1) by simp
qed

lemma solution_ok_Cons: "solution_ok (v # vs) S \<longleftrightarrow>
    (\<forall>k\<in>set (Constraints v). holds k (Identifier v) S) \<and> solution_ok vs S"
  by (auto simp: solution_ok_def)

lemma solution_ok_mem: "solution_ok vs S \<Longrightarrow> v \<in> set vs \<Longrightarrow> solution_ok [v] S"
  by (simp add: solution_ok_def)

lemma single_provider:
  assumes "solution_ok [NewSingleAPIProviderVariable g v k ps] S" "i \<in> set ps" "j \<in> set ps" "i \<in> S" "j \<in> S"
  shows "i = j"
proof (cases "length ps \<le> 1")
  case True
  then show ?thesis using assms(2,3) by (cases ps) auto
next
  case False
  then have "length (filter (\<lambda>i. i \<in> S) ps) \<le> 1"
    using assms(1) by (auto simp: NewSingleAPIProviderVariable_def solution_ok_def Let_def)
  then show ?thesis using assms by (intro count_le_1 [of "\<lambda>i. i \<in> S" ps]) auto
qed

lemma single_package:
  assumes "solution_ok [NewSinglePackageInstanceVariable pkg ps] S" "i \<in> set ps" "j \<in> set ps" "i \<in> S" "j \<in> S"
  shows "i = j"
proof (cases "length ps \<le> 1")
  case True
  then show ?thesis using assms(2,3) by (cases ps) auto
next
  case False
  then have "length (filter (\<lambda>i. i \<in> S) ps) \<le> 1"
    using assms(1) by (auto simp: NewSinglePackageInstanceVariable_def solution_ok_def)
  then show ?thesis using assms by (intro count_le_1 [of "\<lambda>i. i \<in> S" ps]) auto
qed

text \<open>What the constructed variables mean: an invalid subscription makes the problem
  unsatisfiable; a subscription needs one of its candidates; at most one provider of an API and
  at most one operator of a package is selected.\<close>

lemma variables_demand:
  "\<not> solution_ok [NewInvalidSubscriptionVariable name reason] S
   \<and> (solution_ok [NewSubscriptionVariable name deps] S \<longleftrightarrow> subscriptionID name \<in> S \<and> (\<exists>d\<in>set deps. d \<in> S))
   \<and> (\<forall>i\<in>set ps. \<forall>j\<in>set ps. solution_ok [NewSingleAPIProviderVariable g v k ps] S \<longrightarrow> i \<in> S \<longrightarrow> j \<in> S \<longrightarrow> i = j)
   \<and> (\<forall>i\<in>set ps. \<forall>j\<in>set ps. solution_ok [NewSinglePackageInstanceVariable pkg ps] S \<longrightarrow> i \<in> S \<longrightarrow> j \<in> S \<longrightarrow> i = j)"
  using single_provider single_package
  by (auto simp: NewInvalidSubscriptionVariable_def NewSubscriptionVariable_def solution_ok_def Let_def)

lemma variables_demand_witness:
  "\<not> solution_ok [NewSingleAPIProviderVariable ''g'' ''v'' ''k'' [''a'', ''b'']] {''k (g/v)'', ''a'', ''b''}"
  using variables_demand [of "''s''" "[]" "{''k (g/v)'', ''a'', ''b''}" "[]" "[''a'', ''b'']" "''g''" "''v''" "''k''" "''p''"]
  by auto

end
