(* ===== verification/Channel_Order.thy ===== *)
theory Channel_Order
  imports Resolver_Cache
begin

text \<open>
  The order of the bundles of a channel and of a list of candidates: \<open>sortChannel\<close> and
  \<open>sortBundles\<close> of \<open>resolver/resolver.go\<close>. Maps keyed by \<open>*Entry\<close> are keyed by the
  address of the entry.
\<close>

section \<open>One channel\<close>

datatype sort_error =
    noChannelHeads string string
  | replacementCycle string string string
  | multipleChains nat string string "string list"
  | noChains string string

definition lookupName :: "Entry list \<Rightarrow> string \<Rightarrow> Entry option" where
  "lookupName bundles = fold (\<lambda>b m. m(E_Name b \<mapsto> b)) bundles Map.empty"

text \<open>\<open>replacedBy\<close>, of which only the keys are used, \<open>replaces\<close> and \<open>skipped\<close>.\<close>

record edges =
  ed_replacedBy :: "nat list"
  ed_replaces :: "(nat \<times> Entry) list"
  ed_skipped :: "string list"

definition edgesReplaces :: "(string \<Rightarrow> Entry option) \<Rightarrow> Entry \<Rightarrow> edges \<Rightarrow> edges" where
  "edgesReplaces lookup b m =
     (if E_Replaces b \<noteq> [] then
        (case lookup (E_Replaces b) of
           Some r \<Rightarrow> m\<lparr>ed_replacedBy := E_addr r # ed_replacedBy m,
                      ed_replaces := AList.update (E_addr b) r (ed_replaces m)\<rparr>
         | None \<Rightarrow> m)
      else m)"

definition edgesSkip :: "(string \<Rightarrow> Entry option) \<Rightarrow> string \<Rightarrow> edges \<Rightarrow> edges" where
  "edgesSkip lookup skip m =
     (case lookup skip of
        Some r \<Rightarrow> m\<lparr>ed_replacedBy := E_addr r # ed_replacedBy m, ed_skipped := skip # ed_skipped m\<rparr>
      | None \<Rightarrow> m)"

definition channelEdges :: "Entry list \<Rightarrow> edges" where
  "channelEdges bundles =
     (let lookup = lookupName bundles
      in fold (\<lambda>b m. fold (edgesSkip lookup) (E_Skips b) (edgesReplaces lookup b m)) bundles
           \<lparr>ed_replacedBy = [], ed_replaces = [], ed_skipped = []\<rparr>)"

text \<open>The inner loop: \<open>visited\<close> has the current entry already. \<open>None\<close> is the cycle.\<close>

function chainFrom :: "(nat \<times> Entry) list \<Rightarrow> string list \<Rightarrow> nat list \<Rightarrow> Entry \<Rightarrow> Entry list option" where
  "chainFrom repl skipped visited current =
     (let chain = (if E_Name current \<in> set skipped then [] else [current])
      in case map_of repl (E_addr current) of
           None \<Rightarrow> Some chain
         | Some nxt \<Rightarrow>
             if E_addr nxt \<in> set visited then None
             else map_option (\<lambda>rest. chain @ rest) (chainFrom repl skipped (E_addr nxt # visited) nxt))"
  by pat_completeness auto
termination
proof (relation "measure (\<lambda>(repl, skipped, visited, current). card (E_addr ` snd ` set repl - set visited))")
  fix repl :: "(nat \<times> Entry) list" and skipped :: "string list" and visited :: "nat list"
    and current nxt :: Entry and x :: "Entry list"
  assume n: "map_of repl (E_addr current) = Some nxt" "E_addr nxt \<notin> set visited"
  have "E_addr nxt \<in> E_addr ` snd ` set repl" using map_of_SomeD [OF n(1)] by force
  then have "E_addr ` snd ` set repl - set (E_addr nxt # visited) \<subset> E_addr ` snd ` set repl - set visited"
    using n(2) by auto
  then show "((repl, skipped, E_addr nxt # visited, nxt), repl, skipped, visited, current)
      \<in> measure (\<lambda>(repl, skipped, visited, current). card (E_addr ` snd ` set repl - set visited))"
    by (simp add: psubset_card_mono)
qed simp

declare chainFrom.simps [simp del]

fun chainsFrom :: "edges \<Rightarrow> string \<Rightarrow> string \<Rightarrow> Entry list \<Rightarrow> sort_error + Entry list list" where
  "chainsFrom m ch pkg [] = Inr []"
| "chainsFrom m ch pkg (head # heads) =
     (case chainFrom (ed_replaces m) (ed_skipped m) [E_addr head] head of
        None \<Rightarrow> Inl (replacementCycle (E_Name head) ch pkg)
      | Some chain \<Rightarrow> bind_err (chainsFrom m ch pkg heads) (\<lambda>chains. Inr (chain # chains)))"

definition schain :: "Entry list \<Rightarrow> string" where
  "schain chain = (case chain of
       [] \<Rightarrow> ''[]''
     | [b] \<Rightarrow> E_Name b
     | _ \<Rightarrow> E_Name (hd chain) @ ''...'' @ E_Name (last chain))"

definition headCandidates :: "Entry list \<Rightarrow> Entry list" where
  "headCandidates bundles = filter (\<lambda>b. E_addr b \<notin> set (ed_replacedBy (channelEdges bundles))) bundles"

definition sortChannel :: "Entry list \<Rightarrow> sort_error + Entry list" where
  "sortChannel bundles =
     (if length bundles < 1 then Inr bundles
      else
        let pkg = Entry_Package (bundles ! 0); ch = Entry_Channel (bundles ! 0);
            m = channelEdges bundles
        in if length (headCandidates bundles) = 0 then Inl (noChannelHeads ch pkg)
           else bind_err (chainsFrom m ch pkg (headCandidates bundles)) (\<lambda>chains.
             if length chains > 1 then Inl (multipleChains (length chains) ch pkg (map schain chains))
             else if length chains = 0 then Inl (noChains ch pkg)
             else Inr (chains ! 0)))"

section \<open>Several catalogs and channels\<close>

record PackageChannel =
  PC_Package :: string
  PC_Channel :: string
  PC_DefaultChannel :: bool

definition packageChannel :: "Entry \<Rightarrow> OperatorSourceInfo \<Rightarrow> PackageChannel" where
  "packageChannel b si = \<lparr>PC_Package = Entry_Package b, PC_Channel = Entry_Channel b,
     PC_DefaultChannel = SI_DefaultChannel si\<rparr>"

definition lessPC :: "PackageChannel \<Rightarrow> PackageChannel \<Rightarrow> bool" where
  "lessPC pi pj =
     (if PC_DefaultChannel pi \<noteq> PC_DefaultChannel pj then PC_DefaultChannel pi
      else if PC_Package pi \<noteq> PC_Package pj then PC_Package pi < PC_Package pj
      else PC_Channel pi < PC_Channel pj)"

text \<open>The partition, catalog by catalog and channel by channel, in the order of the first
  appearance; a bundle without a source is a nil dereference, \<open>None\<close>. When several channels
  cannot be sorted, the code returns the error of the one that ranging over its maps meets
  first; here it is the first in the order of the result.\<close>

type_synonym partition = "(SourceKey \<times> (PackageChannel \<times> Entry list) list) list"

fun addToChannel :: "PackageChannel \<Rightarrow> Entry \<Rightarrow> (PackageChannel \<times> Entry list) list \<Rightarrow> (PackageChannel \<times> Entry list) list" where
  "addToChannel pc b [] = [(pc, [b])]"
| "addToChannel pc b ((pc', bs) # rest) =
     (if pc' = pc then (pc', bs @ [b]) # rest else (pc', bs) # addToChannel pc b rest)"

fun addToCatalog :: "SourceKey \<Rightarrow> PackageChannel \<Rightarrow> Entry \<Rightarrow> partition \<Rightarrow> partition" where
  "addToCatalog k pc b [] = [(k, [(pc, [b])])]"
| "addToCatalog k pc b ((k', chs) # rest) =
     (if k' = k then (k', addToChannel pc b chs) # rest else (k', chs) # addToCatalog k pc b rest)"

fun partitionBundles :: "Entry list \<Rightarrow> partition \<Rightarrow> partition option" where
  "partitionBundles [] p = Some p"
| "partitionBundles (b # bs) p =
     (case E_SourceInfo b of
        None \<Rightarrow> None
      | Some si \<Rightarrow> partitionBundles bs (addToCatalog (SI_Catalog si) (packageChannel b si) b p))"

definition sortCatalog :: "(PackageChannel \<times> Entry list) list \<Rightarrow> sort_error + Entry list" where
  "sortCatalog chs =
     bind_err (map_err (\<lambda>(pc, bs). sortChannel bs) (SliceStable (\<lambda>a b. lessPC (fst a) (fst b)) chs))
       (\<lambda>sorted. Inr (concat sorted))"

definition sortBundles :: "Entry list \<Rightarrow> (sort_error + Entry list) option" where
  "sortBundles bundles =
     map_option (\<lambda>p. bind_err (map_err (\<lambda>(k, chs). sortCatalog chs) p) (\<lambda>bss. Inr (concat bss)))
       (partitionBundles bundles [])"

section \<open>The edges of a channel\<close>

lemma lookupName_Some:
  assumes "lookupName bundles x = Some r"
  shows "r \<in> set bundles" "E_Name r = x"
proof -
  have "fold (\<lambda>b m. m(E_Name b \<mapsto> b)) bs m x = Some r \<Longrightarrow> (r \<in> set bs \<and> E_Name r = x) \<or> m x = Some r" for bs m
  proof (induction bs arbitrary: m)
    case (Cons b bs)
    then have "(r \<in> set bs \<and> E_Name r = x) \<or> (m(E_Name b \<mapsto> b)) x = Some r" by (simp del: fun_upd_apply)
    then show ?case by (auto split: if_splits)
  qed simp
  from this [of bundles Map.empty] assms show "r \<in> set bundles" "E_Name r = x" by (auto simp: lookupName_def)
qed

lemma lookupName_unique:
  assumes "distinct (map E_Name bundles)" "b \<in> set bundles"
  shows "lookupName bundles (E_Name b) = Some b"
proof -
  have keep: "E_Name b \<notin> E_Name ` set bs \<Longrightarrow> m (E_Name b) = Some b
      \<Longrightarrow> fold (\<lambda>b m. m(E_Name b \<mapsto> b)) bs m (E_Name b) = Some b" for bs m
    by (induction bs arbitrary: m) auto
  have "distinct (map E_Name bs) \<Longrightarrow> b \<in> set bs
      \<Longrightarrow> fold (\<lambda>b m. m(E_Name b \<mapsto> b)) bs m (E_Name b) = Some b" for bs m
    by (induction bs arbitrary: m) (auto intro: keep)
  from this [OF assms] show ?thesis by (simp add: lookupName_def)
qed

lemma edgesSkips_eq:
  "ed_replaces (fold (edgesSkip L) ss m) = ed_replaces m"
  "set (ed_skipped (fold (edgesSkip L) ss m)) = set (ed_skipped m) \<union> {x \<in> set ss. L x \<noteq> None}"
  "set (ed_replacedBy (fold (edgesSkip L) ss m)) = set (ed_replacedBy m) \<union> {E_addr r |r. \<exists>x\<in>set ss. L x = Some r}"
  by (induction ss arbitrary: m) (auto simp: edgesSkip_def split: option.splits)

lemma edgesReplaces_eq:
  "ed_skipped (edgesReplaces L b m) = ed_skipped m"
  "set (ed_replacedBy (edgesReplaces L b m)) =
     set (ed_replacedBy m) \<union> {E_addr r |r. E_Replaces b \<noteq> [] \<and> L (E_Replaces b) = Some r}"
  "map_of (ed_replaces (edgesReplaces L b m)) = (\<lambda>a.
     if a = E_addr b \<and> E_Replaces b \<noteq> [] \<and> L (E_Replaces b) \<noteq> None then L (E_Replaces b)
     else map_of (ed_replaces m) a)"
  by (auto simp: edgesReplaces_def AList.update_conv' fun_eq_iff split: option.splits)

lemma fold_edges:
  fixes L :: "string \<Rightarrow> Entry option" and m :: edges
  defines "step \<equiv> \<lambda>b m. fold (edgesSkip L) (E_Skips b) (edgesReplaces L b m)"
  shows "set (ed_skipped (fold step bs m)) = set (ed_skipped m) \<union> {x. L x \<noteq> None \<and> (\<exists>b\<in>set bs. x \<in> set (E_Skips b))}"
    "set (ed_replacedBy (fold step bs m)) = set (ed_replacedBy m) \<union>
       {E_addr r |r. \<exists>b\<in>set bs. (E_Replaces b \<noteq> [] \<and> L (E_Replaces b) = Some r) \<or> (\<exists>x\<in>set (E_Skips b). L x = Some r)}"
  by (induction bs arbitrary: m) (auto simp: step_def edgesSkips_eq edgesReplaces_eq)

lemma fold_edges_replaces:
  fixes L :: "string \<Rightarrow> Entry option"
  defines "step \<equiv> \<lambda>b m. fold (edgesSkip L) (E_Skips b) (edgesReplaces L b m)"
  assumes "map_of (ed_replaces (fold step bs m)) a = Some r"
  shows "(\<exists>b\<in>set bs. E_addr b = a \<and> E_Replaces b \<noteq> [] \<and> L (E_Replaces b) = Some r) \<or> map_of (ed_replaces m) a = Some r"
  using assms(2)
proof (induction bs arbitrary: m)
  case (Cons b bs)
  then have "map_of (ed_replaces (fold step bs (step b m))) a = Some r" by simp
  from Cons.IH [OF this] show ?case
    by (auto simp: step_def edgesSkips_eq edgesReplaces_eq split: if_splits)
qed simp

lemma fold_edges_last:
  fixes L :: "string \<Rightarrow> Entry option"
  defines "step \<equiv> \<lambda>b m. fold (edgesSkip L) (E_Skips b) (edgesReplaces L b m)"
  assumes "distinct (map E_addr bs)" "b \<in> set bs" "E_Replaces b \<noteq> []" "L (E_Replaces b) = Some r"
  shows "map_of (ed_replaces (fold step bs m)) (E_addr b) = Some r"
proof -
  have keep: "E_addr b \<notin> E_addr ` set bs \<Longrightarrow> map_of (ed_replaces m) (E_addr b) = Some r
      \<Longrightarrow> map_of (ed_replaces (fold step bs m)) (E_addr b) = Some r" for bs m
    by (induction bs arbitrary: m) (auto simp: step_def edgesSkips_eq edgesReplaces_eq)
  show ?thesis using assms(2,3)
  proof (induction bs arbitrary: m)
    case (Cons c bs)
    show ?case
    proof (cases "b = c")
      case True
      then have "map_of (ed_replaces (step b m)) (E_addr b) = Some r"
        using assms(4,5) by (simp add: step_def edgesSkips_eq edgesReplaces_eq)
      then show ?thesis using keep [of bs "step b m"] Cons.prems(1) True by simp
    qed (use Cons in auto)
  qed simp
qed

text \<open>In terms of the bundles: \<open>a\<close> supersedes \<open>b\<close> by replacing or by skipping it.\<close>

definition replacesE :: "Entry \<Rightarrow> Entry \<Rightarrow> bool" where
  "replacesE a b \<longleftrightarrow> E_Replaces a \<noteq> [] \<and> E_Replaces a = E_Name b"

definition skipsE :: "Entry \<Rightarrow> Entry \<Rightarrow> bool" where
  "skipsE a b \<longleftrightarrow> E_Name b \<in> set (E_Skips a)"

definition channel_ok :: "Entry list \<Rightarrow> bool" where
  "channel_ok bs \<longleftrightarrow> distinct (map E_Name bs) \<and> distinct (map E_addr bs)"

lemma channelEdges_facts:
  assumes "channel_ok bs" "b \<in> set bs"
  shows "map_of (ed_replaces (channelEdges bs)) (E_addr b) = Some r \<longleftrightarrow> r \<in> set bs \<and> replacesE b r"
    "E_Name b \<in> set (ed_skipped (channelEdges bs)) \<longleftrightarrow> (\<exists>a\<in>set bs. skipsE a b)"
    "E_addr b \<in> set (ed_replacedBy (channelEdges bs)) \<longleftrightarrow> (\<exists>a\<in>set bs. replacesE a b \<or> skipsE a b)"
proof -
  let ?L = "lookupName bs"
  have L: "?L x = Some r \<longleftrightarrow> r \<in> set bs \<and> E_Name r = x" for x r
    using lookupName_Some lookupName_unique assms(1) unfolding channel_ok_def by metis
  have addr: "c = b" if "c \<in> set bs" "E_addr c = E_addr b" for c
    using assms that by (auto simp: channel_ok_def distinct_map dest: inj_onD)
  let ?m = "\<lparr>ed_replacedBy = [], ed_replaces = [], ed_skipped = []\<rparr>"
  show "map_of (ed_replaces (channelEdges bs)) (E_addr b) = Some r \<longleftrightarrow> r \<in> set bs \<and> replacesE b r"
  proof
    assume "map_of (ed_replaces (channelEdges bs)) (E_addr b) = Some r"
    then obtain c where "c \<in> set bs" "E_addr c = E_addr b" "E_Replaces c \<noteq> []" "?L (E_Replaces c) = Some r"
      using fold_edges_replaces [of ?L bs ?m "E_addr b" r] by (auto simp: channelEdges_def Let_def)
    then show "r \<in> set bs \<and> replacesE b r" using addr L by (metis replacesE_def)
  next
    assume "r \<in> set bs \<and> replacesE b r"
    then show "map_of (ed_replaces (channelEdges bs)) (E_addr b) = Some r"
      using fold_edges_last [of bs b ?L r ?m] assms L by (auto simp: channelEdges_def Let_def channel_ok_def replacesE_def)
  qed
  have "?L (E_Name b) \<noteq> None" using L assms(2) by fastforce
  then show "E_Name b \<in> set (ed_skipped (channelEdges bs)) \<longleftrightarrow> (\<exists>a\<in>set bs. skipsE a b)"
    using fold_edges(1) [of ?L bs ?m] by (auto simp: channelEdges_def Let_def skipsE_def)
  have "E_addr b \<in> set (ed_replacedBy (channelEdges bs)) \<longleftrightarrow>
      (\<exists>c. E_addr b = E_addr c \<and> (\<exists>a\<in>set bs. (E_Replaces a \<noteq> [] \<and> ?L (E_Replaces a) = Some c) \<or> (\<exists>x\<in>set (E_Skips a). ?L x = Some c)))"
    using fold_edges(2) [of ?L bs ?m] by (simp add: channelEdges_def Let_def)
  also have "\<dots> \<longleftrightarrow> (\<exists>a\<in>set bs. replacesE a b \<or> skipsE a b)"
    using addr assms(2) unfolding L replacesE_def skipsE_def by metis
  finally show "E_addr b \<in> set (ed_replacedBy (channelEdges bs)) \<longleftrightarrow> (\<exists>a\<in>set bs. replacesE a b \<or> skipsE a b)" .
qed

section \<open>sortChannel\<close>

fun linked :: "(nat \<times> Entry) list \<Rightarrow> Entry list \<Rightarrow> bool" where
  "linked repl [] = False"
| "linked repl [a] = (map_of repl (E_addr a) = None)"
| "linked repl (a # b # rest) = (map_of repl (E_addr a) = Some b \<and> linked repl (b # rest))"

lemma chainFrom_path:
  assumes "chainFrom repl skipped visited current = Some chain" "E_addr current \<in> set visited"
  shows "\<exists>rest. linked repl (current # rest) \<and> distinct (map E_addr (current # rest))
     \<and> E_addr ` set rest \<inter> set visited = {}
     \<and> chain = filter (\<lambda>e. E_Name e \<notin> set skipped) (current # rest)"
  using assms
proof (induction repl skipped visited current arbitrary: chain rule: chainFrom.induct)
  case (1 repl skipped visited current)
  show ?case
  proof (cases "map_of repl (E_addr current)")
    case None
    then show ?thesis using 1(2) by (intro exI [of _ "[]"]) (auto simp: chainFrom.simps Let_def split: if_splits)
  next
    case (Some nxt)
    then have new: "E_addr nxt \<notin> set visited"
      using 1(2) by (auto simp: chainFrom.simps [of repl skipped visited current] Let_def split: if_splits)
    obtain chain' where c': "chainFrom repl skipped (E_addr nxt # visited) nxt = Some chain'"
      "chain = (if E_Name current \<in> set skipped then [] else [current]) @ chain'"
      using 1(2) Some new by (auto simp: chainFrom.simps [of repl skipped visited current] Let_def split: if_splits)
    obtain rest where r: "linked repl (nxt # rest)" "distinct (map E_addr (nxt # rest))"
      "E_addr ` set rest \<inter> set (E_addr nxt # visited) = {}"
      "chain' = filter (\<lambda>e. E_Name e \<notin> set skipped) (nxt # rest)"
      using 1(1) [OF refl Some new c'(1)] by auto
    have "distinct (map E_addr (current # nxt # rest))" "E_addr ` set (nxt # rest) \<inter> set visited = {}"
      using r(2,3) new 1(3) by auto
    then show ?thesis using r(1,4) Some c'(2) by (intro exI [of _ "nxt # rest"]) auto
  qed
qed

lemma chainsFrom_length: "chainsFrom m ch pkg heads = Inr css \<Longrightarrow> length css = length heads"
  by (induction heads arbitrary: css) (auto simp: bind_err_eq_Inr split: option.splits)

lemma linked_path:
  assumes "channel_ok bs" "linked (ed_replaces (channelEdges bs)) path" "hd path \<in> set bs"
  shows "set path \<subseteq> set bs \<and> successively replacesE path \<and> (\<forall>b\<in>set bs. \<not> replacesE (last path) b)"
  using assms(2,3)
proof (induction path rule: induct_list012)
  case (2 a)
  then show ?case using channelEdges_facts(1) [OF assms(1), of a] by auto
next
  case (3 a b rest)
  have "b \<in> set bs" "replacesE a b" using 3(3,4) channelEdges_facts(1) [OF assms(1), of a b] by auto
  with 3 show ?case by auto
qed simp

text \<open>C17. The bundles of a channel come out newest first: the first is the only one that no
  bundle of the channel replaces or skips, each is replaced by the one before it on the chain,
  the chain goes on until nothing more is replaced, and exactly the skipped bundles are left
  out of it.\<close>

theorem sortChannel_correct:
  assumes "channel_ok bs" "bs \<noteq> []" "sortChannel bs = Inr chain"
  shows "\<exists>path. path \<noteq> [] \<and> set path \<subseteq> set bs \<and> distinct path \<and> successively replacesE path
     \<and> (\<forall>b\<in>set bs. \<not> replacesE (last path) b)
     \<and> (\<forall>b\<in>set bs. (\<exists>a\<in>set bs. replacesE a b \<or> skipsE a b) \<longleftrightarrow> b \<noteq> hd path)
     \<and> chain = filter (\<lambda>b. \<not> (\<exists>a\<in>set bs. skipsE a b)) path \<and> chain \<noteq> [] \<and> hd chain = hd path"
proof -
  let ?m = "channelEdges bs"
  obtain css where cf: "chainsFrom ?m (Entry_Channel (bs ! 0)) (Entry_Package (bs ! 0)) (headCandidates bs) = Inr css"
    "css \<noteq> []" "\<not> 1 < length css" "chain = css ! 0"
    using assms(2,3) by (auto simp: sortChannel_def Let_def bind_err_def split: if_splits sum.splits)
  then have "length css = 1" by (cases css) auto
  then obtain h where h: "headCandidates bs = [h]"
    using chainsFrom_length [OF cf(1)] by (metis length_0_conv length_Suc_conv One_nat_def)
  have "h \<in> set (headCandidates bs)" using h by simp
  then have hb: "h \<in> set bs" by (simp add: headCandidates_def)
  have heads: "(\<exists>a\<in>set bs. replacesE a b \<or> skipsE a b) \<longleftrightarrow> b \<noteq> h" if "b \<in> set bs" for b
  proof -
    have "b \<in> set (headCandidates bs) \<longleftrightarrow> \<not> (\<exists>a\<in>set bs. replacesE a b \<or> skipsE a b)"
      using that channelEdges_facts(3) [OF assms(1) that] by (simp add: headCandidates_def)
    then show ?thesis using h by auto
  qed
  have "chainFrom (ed_replaces ?m) (ed_skipped ?m) [E_addr h] h = Some chain"
    using cf h by (auto simp: bind_err_def split: option.splits)
  from chainFrom_path [OF this] obtain rest where r: "linked (ed_replaces ?m) (h # rest)"
    "distinct (map E_addr (h # rest))" "chain = filter (\<lambda>e. E_Name e \<notin> set (ed_skipped ?m)) (h # rest)" by auto
  note p = linked_path [OF assms(1) r(1), simplified, OF hb]
  have "filter (\<lambda>e. E_Name e \<notin> set (ed_skipped ?m)) (h # rest) = filter (\<lambda>b. \<not> (\<exists>a\<in>set bs. skipsE a b)) (h # rest)"
    using p hb channelEdges_facts(2) [OF assms(1)] by (intro filter_cong) auto
  moreover have "\<not> (\<exists>a\<in>set bs. skipsE a h)" using heads [OF hb] by blast
  ultimately show ?thesis
    using p hb heads r(2,3) by (intro exI [of _ "h # rest"]) (auto simp: distinct_map)
qed

theorem sortChannel_correct_witness:
  "\<exists>chain. sortChannel [demoEntry 0 ''a.v1'' [] ''alpha'' demoCatalog, demoEntry 1 ''a.v2'' ''a.v1'' ''alpha'' demoCatalog] = Inr chain
     \<and> chain \<noteq> []"
proof -
  let ?bs = "[demoEntry 0 ''a.v1'' [] ''alpha'' demoCatalog, demoEntry 1 ''a.v2'' ''a.v1'' ''alpha'' demoCatalog]"
  have ok: "channel_ok ?bs" "?bs \<noteq> []" by (simp_all add: channel_ok_def demoEntry_def)
  have s: "sortChannel ?bs = Inr [demoEntry 1 ''a.v2'' ''a.v1'' ''alpha'' demoCatalog, demoEntry 0 ''a.v1'' [] ''alpha'' demoCatalog]"
    by (simp add: sortChannel_def channelEdges_def headCandidates_def lookupName_def edgesReplaces_def
        demoEntry_def chainFrom.simps)
  from sortChannel_correct [OF ok s] s show ?thesis by auto
qed

text \<open>\<open>sortChannel\<close> reports a channel without heads exactly when every bundle is replaced
  or skipped, and the branch for finding no chain at all is never taken.\<close>

lemma sortChannel_errors:
  assumes "channel_ok bs" "bs \<noteq> []"
  shows "((\<exists>ch pkg. sortChannel bs = Inl (noChannelHeads ch pkg)) \<longleftrightarrow>
            (\<forall>b\<in>set bs. \<exists>a\<in>set bs. replacesE a b \<or> skipsE a b))
    \<and> (\<forall>ch pkg. sortChannel bs \<noteq> Inl (noChains ch pkg))"
proof -
  have heads: "headCandidates bs = [] \<longleftrightarrow> (\<forall>b\<in>set bs. \<exists>a\<in>set bs. replacesE a b \<or> skipsE a b)"
    using channelEdges_facts(3) [OF assms(1)] by (auto simp: headCandidates_def filter_empty_conv)
  have "chainsFrom m ch pkg hs \<noteq> Inl (noChannelHeads c p)" "chainsFrom m ch pkg hs \<noteq> Inl (noChains c p)"
    for m ch pkg hs c p
    by (induction hs) (auto simp: bind_err_def split: option.splits sum.splits)
  then show ?thesis using assms(2) heads chainsFrom_length
    by (auto simp: sortChannel_def Let_def bind_err_def Suc_le_eq split: sum.splits if_splits)
qed

lemma sortChannel_errors_witness:
  "\<exists>ch pkg. sortChannel [demoEntry 0 ''a.v1'' ''a.v2'' ''alpha'' demoCatalog, demoEntry 1 ''a.v2'' ''a.v1'' ''alpha'' demoCatalog]
     = Inl (noChannelHeads ch pkg)"
proof -
  let ?bs = "[demoEntry 0 ''a.v1'' ''a.v2'' ''alpha'' demoCatalog, demoEntry 1 ''a.v2'' ''a.v1'' ''alpha'' demoCatalog]"
  have "channel_ok ?bs" "?bs \<noteq> []" by (simp_all add: channel_ok_def demoEntry_def)
  from sortChannel_errors [OF this] show ?thesis by (simp add: replacesE_def demoEntry_def)
qed

section \<open>sortBundles\<close>

lemma addToChannel_set:
  "\<Union> (set ` snd ` set (addToChannel pc b chs)) = insert b (\<Union> (set ` snd ` set chs))"
  by (induction pc b chs rule: addToChannel.induct) auto

definition inPartition :: "partition \<Rightarrow> bool" where
  "inPartition p \<longleftrightarrow> (\<forall>(k, chs)\<in>set p. \<forall>(pc, bs)\<in>set chs. \<forall>b\<in>set bs.
     \<exists>si. E_SourceInfo b = Some si \<and> SI_Catalog si = k)"

definition partitionEntries :: "partition \<Rightarrow> Entry set" where
  "partitionEntries p = (\<Union>(k, chs)\<in>set p. \<Union>(pc, bs)\<in>set chs. set bs)"

lemma addToCatalog_keys:
  "map fst (addToCatalog k pc b p) = (if k \<in> fst ` set p then map fst p else map fst p @ [k])"
  by (induction k pc b p rule: addToCatalog.induct) auto

lemma addToCatalog_entries: "partitionEntries (addToCatalog k pc b p) = insert b (partitionEntries p)"
proof (induction k pc b p rule: addToCatalog.induct)
  case (2 k pc b k' chs rest)
  have "(\<Union>(pc, bs)\<in>set (addToChannel pc b chs). set bs) = insert b (\<Union>(pc, bs)\<in>set chs. set bs)"
    using addToChannel_set [of pc b chs] by (simp add: image_UN split_beta' image_image)
  with 2 show ?case by (auto simp: partitionEntries_def)
qed (simp add: partitionEntries_def)

lemma addToCatalog_in:
  assumes "inPartition p" "E_SourceInfo b = Some si" "SI_Catalog si = k"
  shows "inPartition (addToCatalog k pc b p)"
  using assms
proof (induction k pc b p rule: addToCatalog.induct)
  case (2 k pc b k' chs rest)
  have "\<forall>(pc, bs)\<in>set (addToChannel pc b chs). \<forall>b'\<in>set bs. b' = b \<or> b' \<in> \<Union> (set ` snd ` set chs)"
    using addToChannel_set [of pc b chs] by fastforce
  with 2 show ?case by (fastforce simp: inPartition_def)
qed (simp add: inPartition_def)

text \<open>The catalogs in the order in which the bundles first name them.\<close>

definition catalogOf :: "Entry \<Rightarrow> SourceKey" where
  "catalogOf b = SI_Catalog (the (E_SourceInfo b))"

fun firsts :: "'a list \<Rightarrow> 'a list \<Rightarrow> 'a list" where
  "firsts acc [] = acc"
| "firsts acc (x # xs) = firsts (if x \<in> set acc then acc else acc @ [x]) xs"

lemma partitionBundles_correct:
  assumes "partitionBundles bs p = Some p'" "inPartition p"
  shows "inPartition p' \<and> partitionEntries p' = partitionEntries p \<union> set bs
    \<and> map fst p' = firsts (map fst p) (map catalogOf bs)"
  using assms
proof (induction bs arbitrary: p)
  case (Cons b bs)
  then obtain si where si: "E_SourceInfo b = Some si" by (cases "E_SourceInfo b") auto
  let ?p = "addToCatalog (SI_Catalog si) (packageChannel b si) b p"
  have "partitionBundles bs ?p = Some p'" using Cons.prems(1) si by simp
  from Cons.IH [OF this addToCatalog_in [OF Cons.prems(2) si refl]]
  show ?case using si by (simp add: addToCatalog_entries addToCatalog_keys catalogOf_def image_iff)
qed simp

lemma chainFrom_subset:
  "chainFrom repl skipped visited cur = Some chain \<Longrightarrow> set chain \<subseteq> insert cur (snd ` set repl)"
proof (induction repl skipped visited cur arbitrary: chain rule: chainFrom.induct)
  case (1 repl skipped visited cur)
  show ?case
  proof (cases "map_of repl (E_addr cur)")
    case None
    then show ?thesis using 1(2) by (auto simp: chainFrom.simps [of repl skipped visited cur] Let_def split: if_splits)
  next
    case (Some nxt)
    have n: "E_addr nxt \<notin> set visited" "nxt \<in> snd ` set repl"
      using 1(2) Some map_of_SomeD [OF Some]
      by (force simp: chainFrom.simps [of repl skipped visited cur] Let_def split: if_splits)+
    obtain chain' where c': "chainFrom repl skipped (E_addr nxt # visited) nxt = Some chain'"
      "chain = (if E_Name cur \<in> set skipped then [] else [cur]) @ chain'"
      using 1(2) Some n(1) by (auto simp: chainFrom.simps [of repl skipped visited cur] Let_def split: if_splits)
    from 1(1) [OF refl Some n(1) c'(1)] c'(2) n(2) show ?thesis by (auto split: if_splits)
  qed
qed

lemma set_AList_update: "set (AList.update k v al) \<subseteq> insert (k, v) (set al)"
  by (induction al) auto

lemma channelEdges_range: "snd ` set (ed_replaces (channelEdges bs)) \<subseteq> set bs"
proof -
  have step: "snd ` set (ed_replaces (edgesReplaces (lookupName bs) b m)) \<subseteq> set bs"
    if "snd ` set (ed_replaces m) \<subseteq> set bs" for b m
  proof (cases "E_Replaces b \<noteq> [] \<and> lookupName bs (E_Replaces b) \<noteq> None")
    case True
    then obtain r where r: "lookupName bs (E_Replaces b) = Some r" by auto
    then have "set (ed_replaces (edgesReplaces (lookupName bs) b m)) \<subseteq> insert (E_addr b, r) (set (ed_replaces m))"
      using True set_AList_update [of "E_addr b" r "ed_replaces m"] by (simp add: edgesReplaces_def)
    then show ?thesis using that lookupName_Some(1) [OF r] by fastforce
  qed (use that in \<open>auto simp: edgesReplaces_def split: option.splits\<close>)
  have "snd ` set (ed_replaces (fold (\<lambda>b m. fold (edgesSkip (lookupName bs)) (E_Skips b) (edgesReplaces (lookupName bs) b m)) cs m)) \<subseteq> set bs"
    if "snd ` set (ed_replaces m) \<subseteq> set bs" for cs m
    using that
  proof (induction cs arbitrary: m)
    case (Cons b cs)
    show ?case
      using Cons.IH [of "fold (edgesSkip (lookupName bs)) (E_Skips b) (edgesReplaces (lookupName bs) b m)"] step [OF Cons.prems]
      by (simp add: edgesSkips_eq)
  qed simp
  then show ?thesis by (simp add: channelEdges_def Let_def)
qed

lemma sortChannel_subset:
  assumes "sortChannel bs = Inr chain"
  shows "set chain \<subseteq> set bs"
proof (cases "bs = []")
  case False
  let ?m = "channelEdges bs"
  have sub: "\<Union> (set ` set css) \<subseteq> set bs" if "chainsFrom ?m ch pkg hs = Inr css" "set hs \<subseteq> set bs" for ch pkg hs css
    using that
  proof (induction hs arbitrary: css)
    case (Cons h hs)
    then obtain c cs where c: "chainFrom (ed_replaces ?m) (ed_skipped ?m) [E_addr h] h = Some c"
      "chainsFrom ?m ch pkg hs = Inr cs" "css = c # cs"
      by (auto simp: bind_err_eq_Inr split: option.splits)
    have "\<Union> (set ` set cs) \<subseteq> set bs" using Cons.IH [OF c(2)] Cons.prems(2) by simp
    moreover have "set c \<subseteq> set bs"
      using chainFrom_subset [OF c(1)] Cons.prems(2) channelEdges_range [of bs] by auto
    ultimately show ?case using c(3) by simp
  qed simp
  have "set (headCandidates bs) \<subseteq> set bs" by (auto simp: headCandidates_def)
  moreover obtain css where cf: "chainsFrom ?m (Entry_Channel (bs ! 0)) (Entry_Package (bs ! 0)) (headCandidates bs) = Inr css"
    "css \<noteq> []" "chain = css ! 0"
    using False assms by (auto simp: sortChannel_def Let_def bind_err_eq_Inr split: if_splits)
  ultimately have "\<Union> (set ` set css) \<subseteq> set bs" using sub [OF cf(1)] by simp
  moreover have "chain \<in> set css" using cf(2,3) by simp
  ultimately show ?thesis by blast
qed (use assms in \<open>simp add: sortChannel_def\<close>)

text \<open>Sorting candidate bundles keeps the catalogs together and in the order in which they
  came, which is the order of preference, and invents no bundle.\<close>

lemma sortBundles_catalogs:
  assumes "sortBundles bs = Some (Inr res)"
  shows "\<exists>blocks. res = concat blocks \<and> length blocks = length (firsts [] (map catalogOf bs))
     \<and> (\<forall>i<length blocks. \<forall>b\<in>set (blocks ! i). b \<in> set bs \<and> catalogOf b = firsts [] (map catalogOf bs) ! i)"
proof -
  obtain p blocks where p: "partitionBundles bs [] = Some p"
    and m: "map_err (\<lambda>(k, chs). sortCatalog chs) p = Inr blocks" "res = concat blocks"
    using assms by (auto simp: sortBundles_def bind_err_eq_Inr)
  have pc: "inPartition p" "partitionEntries p = set bs" "map fst p = firsts [] (map catalogOf bs)"
    using partitionBundles_correct [OF p] by (simp_all add: inPartition_def partitionEntries_def)
  have l2: "list_all2 (\<lambda>(k, chs) ys. sortCatalog chs = Inr ys) p blocks"
    using m(1) by (simp add: map_err_eq_Inr split_beta')
  have "b \<in> set bs \<and> catalogOf b = firsts [] (map catalogOf bs) ! i" if i: "i < length blocks" and b: "b \<in> set (blocks ! i)" for i b
  proof -
    obtain k chs where pi: "p ! i = (k, chs)" by fastforce
    have "sortCatalog chs = Inr (blocks ! i)" "i < length p" using l2 i pi by (auto simp: list_all2_conv_all_nth)
    then obtain css where css: "map_err (\<lambda>(pc, bs). sortChannel bs) (SliceStable (\<lambda>a b. lessPC (fst a) (fst b)) chs) = Inr css"
      "blocks ! i = concat css" by (auto simp: sortCatalog_def bind_err_eq_Inr)
    then obtain c where c: "c \<in> set css" "b \<in> set c" using b by auto
    obtain x where "x \<in> set (SliceStable (\<lambda>a b. lessPC (fst a) (fst b)) chs)" "sortChannel (snd x) = Inr c"
      using map_err_mem [OF css(1) c(1)] by (auto simp: split_beta)
    then have x: "x \<in> set chs" "b \<in> set (snd x)" using sortChannel_subset c(2) by auto
    have "(k, chs) \<in> set p" using pi \<open>i < length p\<close> by (metis nth_mem)
    then have "b \<in> partitionEntries p" "\<exists>si. E_SourceInfo b = Some si \<and> SI_Catalog si = k"
      using x pc(1) by (force simp: partitionEntries_def inPartition_def)+
    moreover have "firsts [] (map catalogOf bs) ! i = k" using pc(3) pi \<open>i < length p\<close> by (metis fst_conv nth_map)
    ultimately show ?thesis using pc(2) by (auto simp: catalogOf_def)
  qed
  then show ?thesis using m(2) pc(3) list_all2_lengthD [OF l2] by (metis length_map)
qed

lemma sortBundles_catalogs_witness:
  "\<exists>blocks. [demoEntry 1 ''a.v2'' ''a.v1'' ''alpha'' demoCatalog, demoEntry 0 ''a.v1'' [] ''alpha'' demoCatalog] = concat blocks
     \<and> length blocks = 1"
proof -
  let ?bs = "[demoEntry 0 ''a.v1'' [] ''alpha'' demoCatalog, demoEntry 1 ''a.v2'' ''a.v1'' ''alpha'' demoCatalog]"
  have "sortBundles ?bs = Some (Inr [demoEntry 1 ''a.v2'' ''a.v1'' ''alpha'' demoCatalog, demoEntry 0 ''a.v1'' [] ''alpha'' demoCatalog])"
    by (simp add: sortBundles_def sortCatalog_def SliceStable_def sortChannel_def channelEdges_def headCandidates_def
        lookupName_def edgesReplaces_def packageChannel_def Entry_Package_def Entry_Channel_def demoEntry_def chainFrom.simps bind_err_def)
  from sortBundles_catalogs [OF this] show ?thesis by (auto simp: catalogOf_def demoEntry_def)
qed

end
