(* ===== verification/Fail_Forward.thy ===== *)
theory Fail_Forward
  imports OLM_Prelude
begin

text \<open>
  Fail forward, \<open>resolver/fail_forward.go\<close>: the chain of ClusterServiceVersions that replace
  one another, and whether it ends in a failed one. The walk is a loop that need not end on an
  arbitrary map of replacements: its value \<open>None\<close> means that it does not return, and it is
  shown that with the option \<open>WithUniqueCSVs\<close> it always returns.
\<close>

datatype CSVPhase = CSVPhaseNone | CSVPhasePending | CSVPhaseInstallReady | CSVPhaseInstalling
  | CSVPhaseSucceeded | CSVPhaseFailed | CSVPhaseUnknown | CSVPhaseReplacing | CSVPhaseDeleting

record ChainCSV =
  C_Name :: string
  C_Namespace :: string
  C_Phase :: CSVPhase
  C_Replaces :: string

datatype UpgradeStrategy = UpgradeStrategyDefault | UpgradeStrategyUnsafeFailForward

datatype walk_error = listError string | wrongGroupCount nat | csvNil
  | wrongPhase string string CSVPhase CSVPhase | alreadySeen string string

definition IsFailForwardEnabled :: "walk_error + UpgradeStrategy list \<Rightarrow> walk_error + bool" where
  "IsFailForwardEnabled ogs =
     bind_err ogs (\<lambda>ogs. if length ogs \<noteq> 1 then Inl (wrongGroupCount (length ogs))
                        else Inr (ogs ! 0 = UpgradeStrategyUnsafeFailForward))"

text \<open>A walk option; \<open>WithUniqueCSVs\<close> carries the names it has visited.\<close>

datatype walkOption = WithCSVPhase CSVPhase | WithUniqueCSVs "string list"

fun runOption :: "walkOption \<Rightarrow> ChainCSV \<Rightarrow> walk_error + walkOption" where
  "runOption (WithCSVPhase phase) csv =
     (if C_Phase csv \<noteq> phase then Inl (wrongPhase (C_Namespace csv) (C_Name csv) (C_Phase csv) phase)
      else Inr (WithCSVPhase phase))"
| "runOption (WithUniqueCSVs visited) csv =
     (if C_Name csv \<in> set visited then Inl (alreadySeen (C_Namespace csv) (C_Name csv))
      else Inr (WithUniqueCSVs (C_Name csv # visited)))"

partial_function (option) walk :: "(string \<rightharpoonup> ChainCSV) \<Rightarrow> walkOption list \<Rightarrow> ChainCSV
    \<Rightarrow> (walk_error + ChainCSV) option" where
  "walk csvToReplacement options csv =
     (case csvToReplacement (C_Name csv) of
        None \<Rightarrow> Some (Inr csv)
      | Some nxt \<Rightarrow>
          (case map_err (\<lambda>opt. runOption opt csv) options of
             Inl e \<Rightarrow> Some (Inl e)
           | Inr options' \<Rightarrow> walk csvToReplacement options' nxt))"

declare walk.simps [code]

definition WalkReplacementChain :: "ChainCSV option \<Rightarrow> (string \<rightharpoonup> ChainCSV) \<Rightarrow> walkOption list
    \<Rightarrow> (walk_error + ChainCSV) option" where
  "WalkReplacementChain csv csvToReplacement options =
     (case csv of None \<Rightarrow> Some (Inl csvNil) | Some csv \<Rightarrow> walk csvToReplacement options csv)"

definition isReplacementChainThatEndsInFailure :: "ChainCSV option \<Rightarrow> (string \<rightharpoonup> ChainCSV) \<Rightarrow> (walk_error + bool) option" where
  "isReplacementChainThatEndsInFailure csv csvToReplacement =
     map_option (\<lambda>r. bind_err r (\<lambda>lastCSV. Inr (C_Phase lastCSV = CSVPhaseFailed)))
       (WalkReplacementChain csv csvToReplacement [WithCSVPhase CSVPhaseReplacing, WithUniqueCSVs []])"

definition ReplacementMapping :: "ChainCSV list \<Rightarrow> (string \<rightharpoonup> ChainCSV)" where
  "ReplacementMapping csvs =
     fold (\<lambda>csv m. if C_Replaces csv \<noteq> [] then m(C_Replaces csv \<mapsto> csv) else m) csvs Map.empty"

section \<open>Chains\<close>

inductive chain :: "(string \<rightharpoonup> ChainCSV) \<Rightarrow> ChainCSV \<Rightarrow> ChainCSV list \<Rightarrow> ChainCSV \<Rightarrow> bool" for m where
  chain_end: "m (C_Name c) = None \<Longrightarrow> chain m c [] c"
| chain_step: "m (C_Name c) = Some n \<Longrightarrow> chain m n vs l \<Longrightarrow> chain m c (c # vs) l"

inductive_cases chain_NilE: "chain m c [] l"
inductive_cases chain_ConsE: "chain m c (v # vs) l"

lemma chain_unique: "chain m c vs l \<Longrightarrow> chain m c vs' l' \<Longrightarrow> vs = vs' \<and> l = l'"
proof (induction arbitrary: vs' l' rule: chain.induct)
  case (chain_end c)
  from chain_end.prems chain_end.hyps show ?case by cases auto
next
  case (chain_step c n vs l)
  from chain_step.prems show ?case
  proof cases
    case chain_end
    with chain_step.hyps show ?thesis by simp
  next
    case (chain_step n' ws)
    with chain_step.hyps chain_step.IH show ?thesis by auto
  qed
qed

text \<open>The rest of a chain depends only on the name it goes on from.\<close>

lemma chain_suffix: "chain m c vs l \<Longrightarrow> v \<in> set vs \<Longrightarrow> \<exists>us ws. vs = us @ v # ws \<and> chain m v (v # ws) l"
proof (induction rule: chain.induct)
  case (chain_step c n vs l)
  show ?case
  proof (cases "v = c")
    case True
    then show ?thesis using chain.chain_step [OF chain_step.hyps] by (intro exI [of _ "[]"] exI [of _ vs]) simp
  next
    case False
    then obtain us ws where "vs = us @ v # ws" "chain m v (v # ws) l" using chain_step by auto
    then show ?thesis by (intro exI [of _ "c # us"] exI [of _ ws]) simp
  qed
qed simp

lemma chain_name_length:
  assumes "chain m c vs l" "chain m c' vs' l'" "C_Name c = C_Name c'"
  shows "length vs = length vs'"
  using assms
proof (cases rule: chain.cases [OF assms(1)])
  case 1
  with assms(2,3) show ?thesis by (auto elim: chain.cases)
next
  case (2 c n vs l)
  with assms(2,3) show ?thesis by (cases rule: chain.cases [OF assms(2)]) (auto dest: chain_unique)
qed

lemma chain_distinct: "chain m c vs l \<Longrightarrow> distinct (map C_Name vs)"
proof (induction rule: chain.induct)
  case (chain_step c n vs l)
  have "C_Name c \<notin> C_Name ` set vs"
  proof
    assume "C_Name c \<in> C_Name ` set vs"
    then obtain v where v: "v \<in> set vs" "C_Name v = C_Name c" by auto
    obtain us ws where s: "vs = us @ v # ws" "chain m v (v # ws) l" using chain_suffix [OF chain_step.hyps(2) v(1)] by blast
    have "length (c # vs) = length (v # ws)"
      using chain_name_length [OF chain.chain_step [OF chain_step.hyps] s(2)] v(2) by simp
    with s(1) show False by simp
  qed
  with chain_step.IH show ?case by simp
qed simp

section \<open>The walk\<close>

abbreviation phaseAndUnique :: "string list \<Rightarrow> walkOption list" where
  "phaseAndUnique visited \<equiv> [WithCSVPhase CSVPhaseReplacing, WithUniqueCSVs visited]"

lemma run_phaseAndUnique:
  "map_err (\<lambda>opt. runOption opt csv) (phaseAndUnique visited) =
     (if C_Phase csv \<noteq> CSVPhaseReplacing
      then Inl (wrongPhase (C_Namespace csv) (C_Name csv) (C_Phase csv) CSVPhaseReplacing)
      else if C_Name csv \<in> set visited then Inl (alreadySeen (C_Namespace csv) (C_Name csv))
      else Inr (phaseAndUnique (C_Name csv # visited)))"
  by simp

lemma walk_returns:
  assumes "finite (dom m)"
  shows "\<exists>r. walk m (phaseAndUnique visited) csv = Some r"
proof (induction "card (dom m - set visited)" arbitrary: visited csv rule: less_induct)
  case less
  show ?case
  proof (cases "m (C_Name csv)")
    case (Some nxt)
    show ?thesis
    proof (cases "C_Phase csv = CSVPhaseReplacing \<and> C_Name csv \<notin> set visited")
      case True
      have "dom m - set (C_Name csv # visited) \<subset> dom m - set visited" using Some True by auto
      then have "card (dom m - set (C_Name csv # visited)) < card (dom m - set visited)"
        using assms by (simp add: psubset_card_mono)
      from less [OF this] Some True show ?thesis
        by (subst walk.simps) (simp add: run_phaseAndUnique del: map_err.simps)
    qed (use Some in \<open>subst walk.simps, auto simp: run_phaseAndUnique simp del: map_err.simps\<close>)
  qed (subst walk.simps, simp)
qed

lemma walk_chain:
  assumes "chain m c vs l" "\<forall>v\<in>set vs. C_Phase v = CSVPhaseReplacing" "C_Name ` set vs \<inter> set visited = {}"
  shows "walk m (phaseAndUnique visited) c = Some (Inr l)"
  using assms chain_distinct [OF assms(1)]
proof (induction arbitrary: visited rule: chain.induct)
  case (chain_end c)
  then show ?case by (subst walk.simps) simp
next
  case (chain_step c n vs l)
  then have "walk m (phaseAndUnique (C_Name c # visited)) n = Some (Inr l)" by auto
  then show ?case using chain_step by (subst walk.simps) (simp add: run_phaseAndUnique del: map_err.simps)
qed

lemma chain_walk:
  assumes "finite (dom m)" "walk m (phaseAndUnique visited) c = Some (Inr l)"
  shows "\<exists>vs. chain m c vs l \<and> (\<forall>v\<in>set vs. C_Phase v = CSVPhaseReplacing)"
  using assms(2)
proof (induction "card (dom m - set visited)" arbitrary: visited c rule: less_induct)
  case less
  show ?case
  proof (cases "m (C_Name c)")
    case None
    then have "c = l" using less.prems by (subst (asm) walk.simps) simp
    then show ?thesis using chain.chain_end [of m c] None by (intro exI [of _ "[]"]) simp
  next
    case (Some n)
    have ok: "C_Phase c = CSVPhaseReplacing" "C_Name c \<notin> set visited" "walk m (phaseAndUnique (C_Name c # visited)) n = Some (Inr l)"
      using less.prems Some
      by (subst (asm) walk.simps, simp add: run_phaseAndUnique del: map_err.simps split: if_splits)+
    have "dom m - set (C_Name c # visited) \<subset> dom m - set visited" using Some ok(2) by auto
    then have "card (dom m - set (C_Name c # visited)) < card (dom m - set visited)"
      using assms(1) by (simp add: psubset_card_mono)
    from less.hyps [OF this ok(3)] obtain vs where "chain m n vs l" "\<forall>v\<in>set vs. C_Phase v = CSVPhaseReplacing" by blast
    then show ?thesis using chain.chain_step [of m c n vs l] Some ok(1) by (intro exI [of _ "c # vs"]) simp
  qed
qed

text \<open>C19. For a finite map of replacements the check always returns, and it is true exactly
  when the replacements of the CSV, all in the phase Replacing, lead to one that has failed and
  is not replaced.\<close>

theorem isReplacementChainThatEndsInFailure_correct:
  assumes "finite (dom m)"
  shows "(\<exists>r. isReplacementChainThatEndsInFailure (Some c) m = Some r)
    \<and> (isReplacementChainThatEndsInFailure (Some c) m = Some (Inr True) \<longleftrightarrow>
         (\<exists>vs l. chain m c vs l \<and> (\<forall>v\<in>set vs. C_Phase v = CSVPhaseReplacing) \<and> C_Phase l = CSVPhaseFailed))"
proof -
  let ?w = "walk m (phaseAndUnique []) c"
  have eq: "isReplacementChainThatEndsInFailure (Some c) m =
      map_option (\<lambda>r. bind_err r (\<lambda>l. Inr (C_Phase l = CSVPhaseFailed))) ?w"
    by (simp add: isReplacementChainThatEndsInFailure_def WalkReplacementChain_def)
  have "isReplacementChainThatEndsInFailure (Some c) m = Some (Inr True) \<longleftrightarrow>
      (\<exists>l. ?w = Some (Inr l) \<and> C_Phase l = CSVPhaseFailed)"
    unfolding eq by (auto simp: bind_err_eq_Inr)
  then show ?thesis
    using walk_returns [OF assms] eq walk_chain [where visited = "[]"] chain_walk [OF assms] by fastforce
qed

definition demoCSV :: "string \<Rightarrow> CSVPhase \<Rightarrow> string \<Rightarrow> ChainCSV" where
  "demoCSV name phase replaces = \<lparr>C_Name = name, C_Namespace = ''ns'', C_Phase = phase, C_Replaces = replaces\<rparr>"

theorem isReplacementChainThatEndsInFailure_correct_witness:
  "isReplacementChainThatEndsInFailure (Some (demoCSV ''a.v1'' CSVPhaseReplacing []))
     (ReplacementMapping [demoCSV ''a.v2'' CSVPhaseFailed ''a.v1'']) = Some (Inr True)"
proof -
  let ?m = "ReplacementMapping [demoCSV ''a.v2'' CSVPhaseFailed ''a.v1'']"
  have m: "?m = [''a.v1'' \<mapsto> demoCSV ''a.v2'' CSVPhaseFailed ''a.v1'']"
    by (simp add: ReplacementMapping_def demoCSV_def)
  have "chain ?m (demoCSV ''a.v1'' CSVPhaseReplacing []) [demoCSV ''a.v1'' CSVPhaseReplacing []] (demoCSV ''a.v2'' CSVPhaseFailed ''a.v1'')"
    unfolding m by (rule chain.chain_step [OF _ chain.chain_end]) (simp_all add: demoCSV_def)
  moreover have "finite (dom ?m)" by (simp add: m)
  ultimately show ?thesis
    using isReplacementChainThatEndsInFailure_correct [of ?m "demoCSV ''a.v1'' CSVPhaseReplacing []"]
    by (force simp: demoCSV_def)
qed

text \<open>The mapping of replacements sends a name to the last listed CSV that replaces it.\<close>

lemma ReplacementMapping_correct:
  "ReplacementMapping csvs name =
     (if name = [] then None else find (\<lambda>c. C_Replaces c = name) (rev csvs))"
proof -
  have "fold (\<lambda>csv m. if C_Replaces csv \<noteq> [] then m(C_Replaces csv \<mapsto> csv) else m) csvs m name =
      (case (if name = [] then None else find (\<lambda>c. C_Replaces c = name) (rev csvs)) of
         None \<Rightarrow> m name | Some c \<Rightarrow> Some c)" for m
  proof (induction csvs arbitrary: m rule: rev_induct)
    case (snoc c csvs)
    then show ?case by auto
  qed auto
  then show ?thesis by (auto simp: ReplacementMapping_def split: option.splits)
qed

lemma ReplacementMapping_in:
  assumes "ReplacementMapping csvs name = Some c"
  shows "c \<in> set csvs \<and> C_Replaces c = name \<and> name \<noteq> []"
proof -
  have "name \<noteq> []" "find (\<lambda>c. C_Replaces c = name) (rev csvs) = Some c"
    using assms by (simp_all add: ReplacementMapping_correct split: if_splits)
  moreover from this(2) obtain i where "i < length (rev csvs)" "c = rev csvs ! i" "C_Replaces c = name"
    unfolding find_Some_iff by auto
  moreover from this(1,2) have "c \<in> set (rev csvs)" by (metis nth_mem)
  ultimately show ?thesis by simp
qed

lemma finite_ReplacementMapping: "finite (dom (ReplacementMapping csvs))"
proof (rule finite_subset)
  show "dom (ReplacementMapping csvs) \<subseteq> C_Replaces ` set csvs" by (auto dest!: ReplacementMapping_in)
qed simp

section \<open>The walk without phases\<close>

text \<open>With \<open>WithUniqueCSVs\<close> alone the walk still returns, and what it returns ends the chain.\<close>

lemma walk_unique_returns:
  assumes "finite (dom m)"
  shows "\<exists>r. walk m [WithUniqueCSVs visited] csv = Some r"
proof (induction "card (dom m - set visited)" arbitrary: visited csv rule: less_induct)
  case less
  show ?case
  proof (cases "m (C_Name csv) \<noteq> None \<and> C_Name csv \<notin> set visited")
    case True
    then have "dom m - set (C_Name csv # visited) \<subset> dom m - set visited" by auto
    then have "card (dom m - set (C_Name csv # visited)) < card (dom m - set visited)"
      using assms by (simp add: psubset_card_mono)
    from less [OF this] True show ?thesis by (subst walk.simps) auto
  qed (subst walk.simps, auto split: option.splits)
qed

lemma walk_ends_chain:
  assumes "walk m opts c = Some (Inr l)"
  shows "\<exists>vs. chain m c vs l"
proof -
  have "r = Inr l \<longrightarrow> (\<exists>vs. chain m' c' vs l)" if "walk m' opts' c' = Some r" for m' opts' c' r
  proof (rule walk.raw_induct [where P = "\<lambda>m' opts' c' r. r = Inr l \<longrightarrow> (\<exists>vs. chain m' c' vs l)", OF _ that], goal_cases)
    case (1 w m' opts' c' r)
    then show ?case by (fastforce split: option.splits sum.splits intro: chain.intros)
  qed
  with assms show ?thesis by blast
qed

lemma chain_end_in: "chain m c vs l \<Longrightarrow> l = c \<or> (\<exists>n. m n = Some l)"
  by (induction rule: chain.induct) auto

end
