(* ===== verification/Resolver.thy ===== *)
theory Resolver
  imports Bundle_Variables Channel_Order
begin

text \<open>
  The resolver, \<open>resolver/resolver.go\<close>: the conversion of dependency properties to
  predicates, the collection of the variables of bundles and subscriptions, the invariants
  over them, and \<open>Resolve\<close>.

  Bundle variables are pointers that several maps share and that are changed after they have
  been stored, so they live in a heap, a list indexed by address. A map from identifiers to
  variables is an association list; where the code ranges over such a map, the order is the
  function \<open>ordM\<close> of the environment. The environment also has what belongs to other
  packages: JSON, version ranges, CEL, \<open>constraints.Parse\<close>, and the optional provider of
  system constraints. A nil dereference, a panic, and a loop that does not return are \<open>None\<close>.
\<close>

section \<open>Environment and errors\<close>

datatype olmConstraint = OLMConstraint
  (oc_FailureMessage: string)
  (oc_GVK: "(string \<times> string \<times> string) option")
  (oc_Package: "(string \<times> string) option")
  (oc_All: "olmConstraint list option")
  (oc_Any: "olmConstraint list option")
  (oc_Not: "olmConstraint list option")
  (oc_Cel: "string option")

datatype convert_error = parseError string | convertError convert_error | emptyConstraint
  | rangeError string | celError string | jsonError string

datatype rerror = variableError resolve_error | sortError sort_error | dependencyError convert_error
  | systemError string | cacheError cache_error | noNamespace
  | multipleNameMatches string string "string list" | noPotentialBundles string
  | originError resolve_error | solverError solve_error | aggregate "rerror list"

record env =
  e_J :: decoders
  e_srt :: sorter
  e_quote :: "string \<Rightarrow> string"
  e_parseConstraint :: "string \<Rightarrow> string + olmConstraint"
  e_parseRange :: "string \<Rightarrow> string + (Version \<Rightarrow> bool)"
  e_validateCel :: "string \<Rightarrow> string + nat"
  e_requiredGVK :: "string \<Rightarrow> string + string \<times> string \<times> string"
  e_requiredPackage :: "string \<Rightarrow> string + string \<times> string"
  e_requiredLabel :: "string \<Rightarrow> string + string"
  e_versionString :: "Version \<Rightarrow> string"
  e_system :: "(Entry \<Rightarrow> string + Constraint list) option"

section \<open>Dependency properties as predicates\<close>

definition providingAPI :: "string \<times> string \<times> string \<Rightarrow> Predicate" where
  "providingAPI gvk = (case gvk of (g, v, k) \<Rightarrow>
     gvkPredicate \<lparr>Key_Group = g, Key_Version = v, Key_Kind = k, Key_Plural = []\<rparr>)"

definition newPackageRequiredPredicate :: "env \<Rightarrow> string \<Rightarrow> string \<Rightarrow> convert_error + Predicate" where
  "newPackageRequiredPredicate E name verRange =
     (case e_parseRange E verRange of
        Inl e \<Rightarrow> Inl (rangeError e)
      | Inr ver \<Rightarrow> Inr (andPredicate [pkgPredicate name, versionInRangePredicate ver verRange]))"

fun convertConstraint :: "env \<Rightarrow> olmConstraint \<Rightarrow> convert_error + Predicate"
  and convertConstraints :: "env \<Rightarrow> olmConstraint list \<Rightarrow> convert_error + Predicate list" where
  "convertConstraint E (OLMConstraint msg gvk pkg all any nt cel) =
     (case gvk of
        Some x \<Rightarrow> Inr (providingAPI x)
      | None \<Rightarrow>
     (case pkg of
        Some (name, rng) \<Rightarrow> newPackageRequiredPredicate E name rng
      | None \<Rightarrow>
     (case all of
        Some cs \<Rightarrow> bind_err (convertConstraints E cs) (\<lambda>subs. Inr (andPredicate subs))
      | None \<Rightarrow>
     (case any of
        Some cs \<Rightarrow> bind_err (convertConstraints E cs) (\<lambda>subs. Inr (orPredicate subs))
      | None \<Rightarrow>
     (case nt of
        Some cs \<Rightarrow> bind_err (convertConstraints E cs) (\<lambda>subs. Inr (notPredicate subs))
      | None \<Rightarrow>
     (case cel of
        Some rule \<Rightarrow>
          (case e_validateCel E rule of
             Inl e \<Rightarrow> Inl (celError e)
           | Inr prog \<Rightarrow> Inr (celPredicate prog rule msg))
      | None \<Rightarrow> Inl emptyConstraint))))))"
| "convertConstraints E [] = Inr []"
| "convertConstraints E (c # cs) =
     bind_err (convertConstraint E c) (\<lambda>p. bind_err (convertConstraints E cs) (\<lambda>ps. Inr (p # ps)))"

definition predicateForConstraintProperty :: "env \<Rightarrow> string \<Rightarrow> convert_error + Predicate" where
  "predicateForConstraintProperty E value =
     (case e_parseConstraint E value of
        Inl e \<Rightarrow> Inl (parseError e)
      | Inr constraint \<Rightarrow>
          (case convertConstraints E [constraint] of
             Inl e \<Rightarrow> Inl (convertError e)
           | Inr preds \<Rightarrow> Inr (preds ! 0)))"

definition predicateForRequiredGVKProperty :: "env \<Rightarrow> string \<Rightarrow> convert_error + Predicate" where
  "predicateForRequiredGVKProperty E value =
     (case e_requiredGVK E value of Inl e \<Rightarrow> Inl (jsonError e) | Inr gvk \<Rightarrow> Inr (providingAPI gvk))"

definition predicateForRequiredPackageProperty :: "env \<Rightarrow> string \<Rightarrow> convert_error + Predicate" where
  "predicateForRequiredPackageProperty E value =
     (case e_requiredPackage E value of
        Inl e \<Rightarrow> Inl (jsonError e)
      | Inr (name, rng) \<Rightarrow> newPackageRequiredPredicate E name rng)"

definition predicateForRequiredLabelProperty :: "env \<Rightarrow> string \<Rightarrow> convert_error + Predicate" where
  "predicateForRequiredLabelProperty E value =
     (case e_requiredLabel E value of Inl e \<Rightarrow> Inl (jsonError e) | Inr l \<Rightarrow> Inr (labelPredicate l))"

definition predicateForProperty :: "env \<Rightarrow> Property \<Rightarrow> convert_error + Predicate option" where
  "predicateForProperty E p =
     (let some = (\<lambda>r. bind_err r (\<lambda>x. Inr (Some x)))
      in if P_Type p = ''olm.constraint'' then some (predicateForConstraintProperty E (P_Value p))
         else if P_Type p = ''olm.gvk.required'' then some (predicateForRequiredGVKProperty E (P_Value p))
         else if P_Type p = ''olm.package.required'' then some (predicateForRequiredPackageProperty E (P_Value p))
         else if P_Type p = ''olm.label.required'' then some (predicateForRequiredLabelProperty E (P_Value p))
         else Inr None)"

fun convertDependencyProperties :: "env \<Rightarrow> Property list \<Rightarrow> convert_error + Predicate list" where
  "convertDependencyProperties E [] = Inr []"
| "convertDependencyProperties E (p # ps) =
     bind_err (predicateForProperty E p) (\<lambda>r.
       bind_err (convertDependencyProperties E ps) (\<lambda>preds.
         Inr (case r of None \<Rightarrow> preds | Some pred \<Rightarrow> pred # preds)))"

section \<open>The variables of bundles\<close>

definition newBundleVariableFromEntry :: "env \<Rightarrow> Entry \<Rightarrow> rerror + Variable" where
  "newBundleVariableFromEntry E entry =
     (case NewBundleVariableFromOperator entry of
        Inl e \<Rightarrow> Inl (variableError e)
      | Inr v \<Rightarrow>
          (case (e_system E, E_SourceInfo entry) of
             (Some provider, Some si) \<Rightarrow>
               if \<not> Virtual (SI_Catalog si) then
                 (case provider entry of
                    Inl e \<Rightarrow> Inl (systemError e)
                  | Inr cs \<Rightarrow> Inr (fold AddConstraint cs v))
               else Inr v
           | _ \<Rightarrow> Inr v))"

text \<open>The filter over all (catalog, package, channel) combinations with a candidate.\<close>

fun buildSources :: "Entry list \<Rightarrow> OperatorSourceInfo list \<Rightarrow> Predicate \<Rightarrow> Predicate option" where
  "buildSources [] sources pred = Some pred"
| "buildSources (b # bs) sources pred =
     (case E_SourceInfo b of
        None \<Rightarrow> None
      | Some si \<Rightarrow>
          if si \<in> set sources then buildSources bs sources pred
          else if Virtual (SI_Catalog si) then
            buildSources bs (si # sources)
              (orPredicate [pred, andPredicate [csvNamePredicate (E_Name b), catalogPredicate (SI_Catalog si)]])
          else
            buildSources bs (si # sources)
              (orPredicate [pred, andPredicate [pkgPredicate (SI_Package si), channelPredicate (SI_Channel si),
                 catalogPredicate (SI_Catalog si)]]))"

record bstate =
  b_heap :: "Variable list"
  b_visited :: "(nat \<times> nat) list"
  b_vars :: "(Identifier \<times> nat) list"
  b_stack :: "Entry list"
  b_errs :: "rerror list"

fun addCandidates :: "env \<Rightarrow> Entry list \<Rightarrow> bstate \<Rightarrow> Identifier list \<Rightarrow> bstate \<times> Identifier list" where
  "addCandidates E [] st deps = (st, deps)"
| "addCandidates E (b # bs) st deps =
     (case newBundleVariableFromEntry E b of
        Inl e \<Rightarrow> addCandidates E bs (st\<lparr>b_errs := b_errs st @ [e]\<rparr>) deps
      | Inr v \<Rightarrow>
          addCandidates E bs
            (st\<lparr>b_heap := b_heap st @ [v],
                b_vars := AList.update (Identifier v) (length (b_heap st)) (b_vars st),
                b_stack := b # b_stack st\<rparr>)
            (deps @ [Identifier v]))"

definition requiresMessage :: "env \<Rightarrow> Entry \<Rightarrow> Predicate \<Rightarrow> string" where
  "requiresMessage E bundle d =
     ''bundle '' @ E_Name bundle @ '' requires an operator '' @ Predicate_String (e_quote E) d"

definition addDependency :: "env \<Rightarrow> snapshots \<Rightarrow> string \<Rightarrow> Entry \<Rightarrow> OperatorSourceInfo \<Rightarrow> nat
    \<Rightarrow> Predicate \<Rightarrow> bstate \<Rightarrow> bstate option" where
  "addDependency E c preferredNamespace bundle si addr d st =
     Option.bind (FindPreferred (e_J E) (e_srt E) c None [] [d] (\<lambda>_. 0)) (\<lambda>(fnd, _).
     Option.bind (buildSources fnd [] (booleanPredicate False)) (\<lambda>sourcePredicate.
     Option.bind (FindPreferred (e_J E) (e_srt E) c (Some (SI_Catalog si)) preferredNamespace
                    [sourcePredicate] (\<lambda>_. 0)) (\<lambda>(es, _).
     Option.bind (sortBundles es) (\<lambda>r.
       case r of
         Inl e \<Rightarrow> Some (st\<lparr>b_errs := b_errs st @ [sortError e]\<rparr>)
       | Inr sortedBundles \<Rightarrow>
           Option.bind (Filter (e_J E) sortedBundles [d] (\<lambda>_. 0)) (\<lambda>(bs, _).
             let (st1, deps) = addCandidates E bs st []
             in Some (st1\<lparr>b_heap := (b_heap st1)[addr :=
                   AddConstraint (prettyConstraint (dependency deps) (requiresMessage E bundle d))
                     (b_heap st1 ! addr)]\<rparr>))))))"

fun addDependencies :: "env \<Rightarrow> snapshots \<Rightarrow> string \<Rightarrow> Entry \<Rightarrow> OperatorSourceInfo \<Rightarrow> nat
    \<Rightarrow> Predicate list \<Rightarrow> bstate \<Rightarrow> bstate option" where
  "addDependencies E c ns bundle si addr [] st = Some st"
| "addDependencies E c ns bundle si addr (d # ds) st =
     Option.bind (addDependency E c ns bundle si addr d st) (addDependencies E c ns bundle si addr ds)"

text \<open>One iteration, for the bundle popped from the stack.\<close>

definition visitBundle :: "env \<Rightarrow> snapshots \<Rightarrow> string \<Rightarrow> Entry \<Rightarrow> bstate \<Rightarrow> bstate option" where
  "visitBundle E c ns bundle st =
     (case map_of (b_visited st) (E_addr bundle) of
        Some addr \<Rightarrow> Some (st\<lparr>b_vars := AList.update (Identifier (b_heap st ! addr)) addr (b_vars st)\<rparr>)
      | None \<Rightarrow>
          (case newBundleVariableFromEntry E bundle of
             Inl e \<Rightarrow> Some (st\<lparr>b_errs := b_errs st @ [e]\<rparr>)
           | Inr v \<Rightarrow>
               (let addr = length (b_heap st);
                    st1 = st\<lparr>b_heap := b_heap st @ [v], b_visited := AList.update (E_addr bundle) addr (b_visited st)\<rparr>
                in case convertDependencyProperties E (E_Properties bundle) of
                     Inl e \<Rightarrow> Some (st1\<lparr>b_errs := b_errs st1 @ [dependencyError e]\<rparr>)
                   | Inr ds \<Rightarrow>
                       map_option (\<lambda>st2. st2\<lparr>b_vars := AList.update (Identifier v) addr (b_vars st2)\<rparr>)
                         (addDependencies E c ns bundle (the (E_SourceInfo bundle)) addr ds st1))))"

partial_function (option) bundleLoop :: "env \<Rightarrow> snapshots \<Rightarrow> string \<Rightarrow> bstate \<Rightarrow> bstate option" where
  "bundleLoop E c ns st =
     (case b_stack st of
        [] \<Rightarrow> Some st
      | bundle # rest \<Rightarrow>
          Option.bind (visitBundle E c ns bundle (st\<lparr>b_stack := rest\<rparr>)) (bundleLoop E c ns))"

text \<open>The result: the immediate identifiers, all variables, and the shared heap and visits.\<close>

definition getBundleVariables :: "env \<Rightarrow> snapshots \<Rightarrow> string \<Rightarrow> Entry list \<Rightarrow> Variable list
    \<Rightarrow> (nat \<times> nat) list \<Rightarrow> ((rerror + Identifier list \<times> (Identifier \<times> nat) list)
         \<times> Variable list \<times> (nat \<times> nat) list) option" where
  "getBundleVariables E c ns bundleStack heap visited =
     map_option (\<lambda>st.
       (if length (b_errs st) > 0 then Inl (aggregate (b_errs st))
        else Inr (map (\<lambda>b. Identifier (b_heap st ! the (map_of (b_visited st) (E_addr b)))) bundleStack,
                  b_vars st),
        b_heap st, b_visited st))
       (bundleLoop E c ns \<lparr>b_heap = heap, b_visited = visited, b_vars = [],
          b_stack = rev bundleStack, b_errs = []\<rparr>)"

declare bundleLoop.simps [code]

section \<open>Collecting bundles always returns\<close>

definition cacheEntries :: "snapshots \<Rightarrow> Entry set" where
  "cacheEntries c = \<Union> (set ` entriesOf ` snd ` set c)"

definition cache_ok :: "env \<Rightarrow> snapshots \<Rightarrow> bool" where
  "cache_ok E c \<longleftrightarrow> go_sort (e_srt E) \<and> wf_snapshots c \<and> sourced c"

lemma cacheEntries_sourced: "cache_ok E c \<Longrightarrow> e \<in> cacheEntries c \<Longrightarrow> E_SourceInfo e \<noteq> None"
  by (force simp: cache_ok_def sourced_def cacheEntries_def)

lemma FindPreferred_total:
  assumes "cache_ok E c"
  shows "\<exists>es s'. FindPreferred (e_J E) (e_srt E) c preferred ns ps s = Some (es, s') \<and> set es \<subseteq> cacheEntries c"
proof -
  obtain hs where hs: "map_option fst (FindPreferred (e_J E) (e_srt E) c preferred ns ps s)
        = Some (concat (map (\<lambda>h. filter (\<lambda>e. \<forall>p\<in>set ps. sat (e_J E) p e) (entriesOf h)) hs))"
    "mset hs = mset (map snd c)"
    using FindPreferred_sorted [of "e_srt E" c _ preferred "e_J E" ns ps s] assms by (auto simp: cache_ok_def)
  have "set hs = snd ` set c" using mset_eq_setD [OF hs(2)] by simp
  with hs(1) show ?thesis by (fastforce simp: cacheEntries_def)
qed

lemma buildSources_total:
  "\<forall>b\<in>set bs. E_SourceInfo b \<noteq> None \<Longrightarrow> \<exists>p. buildSources bs sources pred = Some p"
  by (induction bs arbitrary: sources pred) auto

lemma partitionBundles_total: "\<forall>b\<in>set bs. E_SourceInfo b \<noteq> None \<Longrightarrow> \<exists>p'. partitionBundles bs p = Some p'"
  by (induction bs arbitrary: p) auto

lemma sortBundles_subset: "sortBundles bs = Some (Inr res) \<Longrightarrow> set res \<subseteq> set bs"
proof -
  assume "sortBundles bs = Some (Inr res)"
  then obtain p blocks where p: "partitionBundles bs [] = Some p"
    and m: "map_err (\<lambda>(k, chs). sortCatalog chs) p = Inr blocks" "res = concat blocks"
    by (auto simp: sortBundles_def bind_err_eq_Inr)
  have e: "partitionEntries p = set bs"
    using partitionBundles_correct [OF p] by (simp add: inPartition_def partitionEntries_def)
  have cat: "set b \<subseteq> (\<Union>(pc, bs)\<in>set chs. set bs)" if "sortCatalog chs = Inr b" for chs b
  proof -
    obtain css where css: "map_err (\<lambda>(pc, bs). sortChannel bs) (SliceStable (\<lambda>a b. lessPC (fst a) (fst b)) chs) = Inr css" "b = concat css"
      using \<open>sortCatalog chs = Inr b\<close> by (auto simp: sortCatalog_def bind_err_eq_Inr)
    then show ?thesis using map_err_mem [OF css(1)] sortChannel_subset by (fastforce simp: split_beta)
  qed
  have "set b \<subseteq> partitionEntries p" if "b \<in> set blocks" for b
    using map_err_mem [OF m(1) that] cat by (fastforce simp: partitionEntries_def)
  then show ?thesis using e m(2) by auto
qed

text \<open>What the collection of candidates keeps, by one induction.\<close>

definition heapExt :: "Variable list \<Rightarrow> Variable list \<Rightarrow> bool" where
  "heapExt h h' \<longleftrightarrow> length h \<le> length h' \<and> (\<forall>a<length h. Identifier (h' ! a) = Identifier (h ! a)
     \<and> set (Constraints (h ! a)) \<subseteq> set (Constraints (h' ! a)))"

lemma heapExt_refl [simp]: "heapExt h h"
  by (simp add: heapExt_def)

lemma heapExt_trans: "heapExt a b \<Longrightarrow> heapExt b c \<Longrightarrow> heapExt a c"
  unfolding heapExt_def by (auto dest: order_less_le_trans subsetD)

lemma heapExt_append [simp]: "heapExt h (h @ vs)"
  by (simp add: heapExt_def nth_append)

lemma Identifier_AddConstraint [simp]: "Identifier (AddConstraint k v) = Identifier v"
  by (cases v) auto

lemma Constraints_AddConstraint: "set (Constraints v) \<subseteq> set (Constraints (AddConstraint k v))"
  by (cases v) auto

lemma heapExt_AddConstraint [simp]: "heapExt h (h[a := AddConstraint k (h ! a)])"
  using Constraints_AddConstraint by (cases "a < length h") (simp_all add: heapExt_def nth_list_update)

definition bgrows :: "bstate \<Rightarrow> bstate \<Rightarrow> bool" where
  "bgrows st st' \<longleftrightarrow> b_visited st' = b_visited st \<and> heapExt (b_heap st) (b_heap st')
     \<and> fst ` set (b_vars st) \<subseteq> fst ` set (b_vars st') \<and> (b_errs st' = [] \<longrightarrow> b_errs st = [])"

lemma bgrows_refl [simp]: "bgrows st st"
  by (simp add: bgrows_def)

lemma bgrows_trans: "bgrows a b \<Longrightarrow> bgrows b c \<Longrightarrow> bgrows a c"
  by (auto simp: bgrows_def intro: heapExt_trans)

lemma bgrows_errs: "bgrows st (st\<lparr>b_errs := b_errs st @ [e]\<rparr>)"
  by (simp add: bgrows_def)

lemma bgrows_candidate:
  "bgrows st (st\<lparr>b_heap := b_heap st @ [v], b_vars := AList.update i a (b_vars st), b_stack := bs\<rparr>)"
  by (auto simp: bgrows_def dom_update)

lemma bgrows_attach: "bgrows st st1 \<Longrightarrow> bgrows st (st1\<lparr>b_heap := (b_heap st1)[a := AddConstraint k (b_heap st1 ! a)]\<rparr>)"
  by (auto simp: bgrows_def intro: heapExt_trans)

lemma addCandidates_bgrows: "bgrows st (fst (addCandidates E bs st deps))"
  by (induction bs arbitrary: st deps)
    (auto split: sum.splits intro: bgrows_trans [OF bgrows_errs] bgrows_trans [OF bgrows_candidate])

lemma addCandidates_stack: "set (b_stack (fst (addCandidates E bs st deps))) \<subseteq> set (b_stack st) \<union> set bs"
  by (induction bs arbitrary: st deps) (fastforce split: sum.splits)+

text \<open>Adding a dependency either fails or collects some of the entries that satisfy it.\<close>

definition attach :: "nat \<Rightarrow> string \<Rightarrow> bstate \<times> Identifier list \<Rightarrow> bstate" where
  "attach addr msg r = (fst r)\<lparr>b_heap := (b_heap (fst r))[addr :=
     AddConstraint (prettyConstraint (dependency (snd r)) msg) (b_heap (fst r) ! addr)]\<rparr>"

lemma attach_bgrows: "bgrows st (fst r) \<Longrightarrow> bgrows st (attach addr msg r)"
  by (simp add: attach_def bgrows_attach)

lemma addDependency_cases:
  assumes c: "cache_ok E c"
  obtains e where "addDependency E c ns b si addr d st = Some (st\<lparr>b_errs := b_errs st @ [e]\<rparr>)"
  | bs msg where "set bs \<subseteq> {e \<in> cacheEntries c. sat (e_J E) d e}"
      "addDependency E c ns b si addr d st = Some (attach addr msg (addCandidates E bs st []))"
proof -
  obtain fnd s1 where f: "FindPreferred (e_J E) (e_srt E) c None [] [d] (\<lambda>_. 0) = Some (fnd, s1)" "set fnd \<subseteq> cacheEntries c"
    using FindPreferred_total [OF c] by metis
  obtain sp where sp: "buildSources fnd [] (booleanPredicate False) = Some sp"
    using buildSources_total f(2) cacheEntries_sourced [OF c] by (meson subsetD)
  obtain es s2 where es: "FindPreferred (e_J E) (e_srt E) c (Some (SI_Catalog si)) ns [sp] (\<lambda>_. 0) = Some (es, s2)"
      "set es \<subseteq> cacheEntries c"
    using FindPreferred_total [OF c] by metis
  obtain p where "partitionBundles es [] = Some p"
    using partitionBundles_total es(2) cacheEntries_sourced [OF c] by (meson subsetD)
  then obtain r where r: "sortBundles es = Some r" by (auto simp: sortBundles_def)
  show thesis
  proof (cases r)
    case (Inl e)
    then show thesis using that(1) f(1) sp es(1) r by (simp add: addDependency_def)
  next
    case (Inr res)
    have sub: "set res \<subseteq> cacheEntries c" using sortBundles_subset r Inr es(2) by blast
    then have "\<forall>e\<in>set res. E_SourceInfo e \<noteq> None" using cacheEntries_sourced [OF c] by blast
    from Filter_sat [OF this] obtain s3 where
      flt: "Filter (e_J E) res [d] (\<lambda>_. 0) = Some (filter (\<lambda>e. \<forall>p\<in>set [d]. sat (e_J E) p e) res, s3)" by metis
    let ?bs = "filter (\<lambda>e. \<forall>p\<in>set [d]. sat (e_J E) p e) res"
    have "set ?bs \<subseteq> {e \<in> cacheEntries c. sat (e_J E) d e}" using sub by auto
    then show thesis using that(2) [of ?bs "requiresMessage E b d"] f(1) sp es(1) r Inr flt
      by (simp add: addDependency_def attach_def split_beta)
  qed
qed

lemma addDependency_total:
  assumes "cache_ok E c"
  shows "\<exists>st'. addDependency E c ns bundle si addr d st = Some st' \<and> bgrows st st'
     \<and> set (b_stack st') \<subseteq> set (b_stack st) \<union> cacheEntries c"
proof (cases rule: addDependency_cases [OF assms, where ns = ns and b = "bundle" and si = si and addr = addr and d = d and st = st])
  case (2 bs msg)
  then show ?thesis
    using attach_bgrows [OF addCandidates_bgrows] addCandidates_stack [of E bs st "[]"]
    by (auto simp: attach_def)
qed (simp add: bgrows_errs)

lemma addDependencies_total:
  assumes "cache_ok E c"
  shows "\<exists>st'. addDependencies E c ns bundle si addr ds st = Some st' \<and> bgrows st st'
     \<and> set (b_stack st') \<subseteq> set (b_stack st) \<union> cacheEntries c"
proof (induction ds arbitrary: st)
  case (Cons d ds)
  obtain st1 where 1: "addDependency E c ns bundle si addr d st = Some st1" "bgrows st st1"
      "set (b_stack st1) \<subseteq> set (b_stack st) \<union> cacheEntries c"
    using addDependency_total [OF assms] by metis
  obtain st2 where "addDependencies E c ns bundle si addr ds st1 = Some st2" "bgrows st1 st2"
      "set (b_stack st2) \<subseteq> set (b_stack st1) \<union> cacheEntries c"
    using Cons.IH by metis
  with 1 show ?case by (auto intro: bgrows_trans)
qed simp

text \<open>
  A visit either shortens the stack and leaves the visited bundles alone, or visits a bundle
  for the first time.
\<close>

lemma visitBundle_total:
  assumes "cache_ok E c"
  shows "\<exists>st'. visitBundle E c ns b st = Some st' \<and> set (b_stack st') \<subseteq> set (b_stack st) \<union> cacheEntries c
     \<and> (b_visited st' = b_visited st \<and> b_stack st' = b_stack st
        \<or> E_addr b \<notin> fst ` set (b_visited st) \<and> fst ` set (b_visited st') = insert (E_addr b) (fst ` set (b_visited st)))"
proof (cases "map_of (b_visited st) (E_addr b)")
  case (Some a)
  then show ?thesis by (auto simp: visitBundle_def)
next
  case None
  then have new: "E_addr b \<notin> fst ` set (b_visited st)" by (simp add: map_of_eq_None_iff)
  show ?thesis
  proof (cases "newBundleVariableFromEntry E b")
    case (Inr v)
    let ?st = "st\<lparr>b_heap := b_heap st @ [v], b_visited := AList.update (E_addr b) (length (b_heap st)) (b_visited st)\<rparr>"
    show ?thesis
    proof (cases "convertDependencyProperties E (E_Properties b)")
      case (Inr ds)
      obtain st2 where "addDependencies E c ns b (the (E_SourceInfo b)) (length (b_heap st)) ds ?st = Some st2"
          "bgrows ?st st2" "set (b_stack st2) \<subseteq> set (b_stack ?st) \<union> cacheEntries c"
        using addDependencies_total [OF assms] by metis
      then show ?thesis using None new Inr \<open>newBundleVariableFromEntry E b = Inr v\<close>
        by (auto simp: visitBundle_def Let_def bgrows_def dom_update)
    qed (use None new Inr in \<open>auto simp: visitBundle_def Let_def dom_update\<close>)
  qed (use None in \<open>auto simp: visitBundle_def\<close>)
qed

lemma bundleLoop_total:
  assumes "cache_ok E c" and fin: "finite D" "E_addr ` cacheEntries c \<subseteq> D"
  shows "E_addr ` set (b_stack st) \<subseteq> D \<Longrightarrow> \<exists>st'. bundleLoop E c ns st = Some st'"
proof (induction st rule: wf_induct_rule [OF wf_measures
      [of "[\<lambda>st. card (D - fst ` set (b_visited st)), \<lambda>st. length (b_stack st)]"]])
  case (1 st)
  show ?case
  proof (cases "b_stack st")
    case (Cons b rest)
    obtain st' where st': "visitBundle E c ns b (st\<lparr>b_stack := rest\<rparr>) = Some st'"
        "set (b_stack st') \<subseteq> set rest \<union> cacheEntries c"
        "b_visited st' = b_visited st \<and> b_stack st' = rest
         \<or> E_addr b \<notin> fst ` set (b_visited st) \<and> fst ` set (b_visited st') = insert (E_addr b) (fst ` set (b_visited st))"
      using visitBundle_total [OF assms(1), of ns b "st\<lparr>b_stack := rest\<rparr>"] by auto
    have "E_addr b \<in> D" using 1(2) Cons by simp
    have "(st', st) \<in> measures [\<lambda>st. card (D - fst ` set (b_visited st)), \<lambda>st. length (b_stack st)]"
    proof (cases "b_visited st' = b_visited st \<and> b_stack st' = rest")
      case False
      with st'(3) have n: "E_addr b \<notin> fst ` set (b_visited st)"
          "fst ` set (b_visited st') = insert (E_addr b) (fst ` set (b_visited st))" by auto
      have "D - fst ` set (b_visited st') \<subset> D - fst ` set (b_visited st)"
        using n \<open>E_addr b \<in> D\<close> by blast
      then show ?thesis using psubset_card_mono [of "D - fst ` set (b_visited st)"] fin(1) by simp
    qed (simp add: Cons)
    moreover have "E_addr ` set (b_stack st') \<subseteq> D" using st'(2) 1(2) Cons fin(2) by fastforce
    ultimately obtain st'' where "bundleLoop E c ns st' = Some st''" using 1(1) by blast
    then show ?thesis using st'(1) Cons by (simp add: bundleLoop.simps [of E c ns st])
  qed (simp add: bundleLoop.simps)
qed

lemma cacheEntries_finite: "finite (cacheEntries c)"
  by (simp add: cacheEntries_def)

text \<open>C22. Collecting the variables of bundles and of their dependencies always returns: each turn
  of the loop visits a bundle for the first time or shortens the stack.\<close>

theorem getBundleVariables_returns:
  assumes "cache_ok E c"
  shows "\<exists>r heap' visited'. getBundleVariables E c ns bundleStack heap visited = Some (r, heap', visited')"
proof -
  have "\<exists>st. bundleLoop E c ns \<lparr>b_heap = heap, b_visited = visited, b_vars = [], b_stack = rev bundleStack,
      b_errs = []\<rparr> = Some st"
    by (rule bundleLoop_total [OF assms, of "E_addr ` (cacheEntries c \<union> set bundleStack)"])
      (auto simp: cacheEntries_finite)
  then show ?thesis by (auto simp: getBundleVariables_def)
qed

section \<open>The collected variables are closed and carry their dependencies\<close>

definition ident :: "Entry \<Rightarrow> Identifier" where
  "ident e = bundleID (E_Name e) (Entry_Channel e) (SI_Catalog (the (E_SourceInfo e)))"

definition refFree :: "Variable \<Rightarrow> bool" where
  "refFree v \<longleftrightarrow> (\<forall>k\<in>set (Constraints v). references k = {})"

text \<open>System constraints speak of no other variable; the provider that OLM has only prohibits bundles.\<close>

definition systemLocal :: "env \<Rightarrow> bool" where
  "systemLocal E \<longleftrightarrow> (\<forall>f. e_system E = Some f \<longrightarrow> (\<forall>e cs. f e = Inr cs \<longrightarrow> (\<forall>k\<in>set cs. references k = {})))"

fun isBundle :: "Variable \<Rightarrow> bool" where
  "isBundle (BundleVariable i cs r) = True"
| "isBundle _ = False"

lemma isBundle_AddConstraint [simp]: "isBundle (AddConstraint k v) = isBundle v"
  by (cases v) auto

lemma Constraints_of_AddConstraint [simp]:
  "isBundle v \<Longrightarrow> Constraints (AddConstraint k v) = Constraints v @ [k]"
  by (cases v) auto

lemma fold_AddConstraint:
  "Identifier (fold AddConstraint cs v) = Identifier v \<and> isBundle (fold AddConstraint cs v) = isBundle v
   \<and> (isBundle v \<longrightarrow> Constraints (fold AddConstraint cs v) = Constraints v @ cs)"
  by (induction cs arbitrary: v) auto

lemma newBundleVariableFromEntry_new:
  assumes "newBundleVariableFromEntry E e = Inr v" "systemLocal E"
  shows "Identifier v = ident e \<and> isBundle v \<and> refFree v"
proof -
  obtain w si where w: "NewBundleVariableFromOperator e = Inr w" "E_SourceInfo e = Some si"
    using assms(1) by (auto simp: newBundleVariableFromEntry_def NewBundleVariableFromOperator_def split: sum.splits option.splits)
  then have i: "Identifier w = ident e \<and> isBundle w \<and> refFree w"
    by (auto simp: NewBundleVariableFromOperator_def ident_def refFree_def Let_def)
  have "v = w \<or> (\<exists>f cs. e_system E = Some f \<and> f e = Inr cs \<and> v = fold AddConstraint cs w)"
    using assms(1) w by (auto simp: newBundleVariableFromEntry_def split: option.splits sum.splits if_splits)
  then show ?thesis using i assms(2) fold_AddConstraint unfolding refFree_def systemLocal_def by fastforce
qed

text \<open>
  The invariant of the collection. \<open>K\<close> are the identifiers known before; the variable at
  address \<open>x\<close> may still be getting its dependencies.
\<close>

definition attached :: "env \<Rightarrow> snapshots \<Rightarrow> Variable \<Rightarrow> Predicate \<Rightarrow> bool" where
  "attached E c v d \<longleftrightarrow> (\<exists>deps msg. prettyConstraint (dependency deps) msg \<in> set (Constraints v)
     \<and> set deps \<subseteq> ident ` {e \<in> cacheEntries c. sat (e_J E) d e})"

definition heapOk :: "Identifier set \<Rightarrow> bstate \<Rightarrow> bool" where
  "heapOk K st \<longleftrightarrow> (\<forall>v\<in>set (b_heap st). isBundle v
     \<and> (\<forall>k\<in>set (Constraints v). references k \<subseteq> K \<union> fst ` set (b_vars st)))"

text \<open>A variable was visited, or its bundle is still on the stack or among the pending ones \<open>P\<close>.\<close>

definition varsOk :: "Identifier set \<Rightarrow> bstate \<Rightarrow> bool" where
  "varsOk P st \<longleftrightarrow> distinct (map fst (b_vars st))
     \<and> (\<forall>(i, a)\<in>set (b_vars st). a < length (b_heap st) \<and> Identifier (b_heap st ! a) = i
          \<and> (a \<in> snd ` set (b_visited st) \<or> i \<in> P \<union> ident ` set (b_stack st)))"

definition carries :: "env \<Rightarrow> snapshots \<Rightarrow> Entry \<Rightarrow> Variable \<Rightarrow> bool" where
  "carries E c e v \<longleftrightarrow> (\<exists>ds. convertDependencyProperties E (E_Properties e) = Inr ds
     \<and> (\<forall>d\<in>set ds. attached E c v d))"

definition visitedOk :: "env \<Rightarrow> snapshots \<Rightarrow> Entry set \<Rightarrow> nat option \<Rightarrow> bstate \<Rightarrow> bool" where
  "visitedOk E c U x st \<longleftrightarrow> distinct (map fst (b_visited st)) \<and> distinct (map snd (b_visited st)) \<and> snd ` set (b_visited st) \<subseteq> {..<length (b_heap st)}
     \<and> fst ` set (b_visited st) \<subseteq> E_addr ` U
     \<and> (\<forall>e\<in>U. \<forall>a. map_of (b_visited st) (E_addr e) = Some a \<longrightarrow>
          Identifier (b_heap st ! a) = ident e \<and> (x \<noteq> Some a \<longrightarrow> carries E c e (b_heap st ! a)))"

lemma heapOk_candidate:
  "heapOk K st \<Longrightarrow> isBundle v \<Longrightarrow> refFree v
   \<Longrightarrow> heapOk K (st\<lparr>b_heap := b_heap st @ [v], b_vars := AList.update i a (b_vars st), b_stack := bs\<rparr>)"
  unfolding heapOk_def refFree_def by (fastforce simp: dom_update)

lemma varsOkI:
  "distinct (map fst (b_vars st)) \<Longrightarrow> (\<And>i a. (i, a) \<in> set (b_vars st) \<Longrightarrow> a < length (b_heap st) \<and> Identifier (b_heap st ! a) = i
     \<and> (a \<in> snd ` set (b_visited st) \<or> i \<in> P \<union> ident ` set (b_stack st))) \<Longrightarrow> varsOk P st"
  by (auto simp: varsOk_def)

lemma varsOkD:
  "varsOk P st \<Longrightarrow> (i, a) \<in> set (b_vars st) \<Longrightarrow> a < length (b_heap st) \<and> Identifier (b_heap st ! a) = i
     \<and> (a \<in> snd ` set (b_visited st) \<or> i \<in> P \<union> ident ` set (b_stack st))"
  by (auto simp: varsOk_def)

lemma varsOk_distinct: "varsOk P st \<Longrightarrow> distinct (map fst (b_vars st))"
  by (simp add: varsOk_def)

lemma in_AList_update:
  "distinct (map fst al) \<Longrightarrow> (j, a) \<in> set (AList.update k v al) \<Longrightarrow> j = k \<and> a = v \<or> j \<noteq> k \<and> (j, a) \<in> set al"
  by (induction al) (auto split: if_splits, force+)

lemma varsOk_candidate:
  assumes "varsOk P st" "Identifier v = ident b"
  shows "varsOk P (st\<lparr>b_heap := b_heap st @ [v], b_vars := AList.update (Identifier v) (length (b_heap st)) (b_vars st),
     b_stack := b # b_stack st\<rparr>)"
proof (rule varsOkI, goal_cases)
  case 1
  show ?case using varsOk_distinct [OF assms(1)] by (simp add: distinct_update)
next
  case (2 i a)
  then consider "i = Identifier v" "a = length (b_heap st)" | "(i, a) \<in> set (b_vars st)"
    using in_AList_update [OF varsOk_distinct [OF assms(1)]] by fastforce
  then show ?case
    by cases (use assms(2) varsOkD [OF assms(1), of i a] in \<open>auto simp: nth_append\<close>)
qed

lemma addCandidates_ok:
  assumes "systemLocal E"
  shows "\<lbrakk>heapOk K st; varsOk P st; addCandidates E bs st deps = (st', deps'); b_errs st' = []\<rbrakk>
    \<Longrightarrow> heapOk K st' \<and> varsOk P st' \<and> deps' = deps @ map ident bs \<and> ident ` set bs \<subseteq> fst ` set (b_vars st')"
proof (induction bs arbitrary: st deps)
  case (Cons b bs)
  obtain v where v: "newBundleVariableFromEntry E b = Inr v"
  proof (cases "newBundleVariableFromEntry E b")
    case (Inl e)
    then show thesis using addCandidates_bgrows [of "st\<lparr>b_errs := b_errs st @ [e]\<rparr>" E bs deps] Cons.prems(3,4)
      by (simp add: bgrows_def)
  qed
  note new = newBundleVariableFromEntry_new [OF v assms]
  let ?st = "st\<lparr>b_heap := b_heap st @ [v], b_vars := AList.update (Identifier v) (length (b_heap st)) (b_vars st),
     b_stack := b # b_stack st\<rparr>"
  have r: "addCandidates E bs ?st (deps @ [Identifier v]) = (st', deps')" using Cons.prems(3) v by simp
  have "ident b \<in> fst ` set (b_vars ?st)" using new by (auto simp: dom_update)
  then have "ident b \<in> fst ` set (b_vars st')"
    using addCandidates_bgrows [of ?st E bs "deps @ [Identifier v]"] r by (auto simp: bgrows_def)
  moreover have "heapOk K ?st" "varsOk P ?st"
    using new Cons.prems(1,2) heapOk_candidate varsOk_candidate by blast+
  ultimately show ?case using Cons.IH [OF _ _ r Cons.prems(4)] new by auto
qed simp

lemma attach_ok:
  assumes "heapOk K st" "varsOk P st" "set deps \<subseteq> fst ` set (b_vars st)"
  shows "heapOk K (attach addr msg (st, deps)) \<and> varsOk P (attach addr msg (st, deps))"
proof (cases "addr < length (b_heap st)")
  case True
  let ?v = "AddConstraint (prettyConstraint (dependency deps) msg) (b_heap st ! addr)"
  let ?ok = "\<lambda>v. isBundle v \<and> (\<forall>k\<in>set (Constraints v). references k \<subseteq> K \<union> fst ` set (b_vars st))"
  have "?ok (b_heap st ! addr)" using assms(1) nth_mem [OF True] unfolding heapOk_def by blast
  then have v: "?ok ?v" using assms(3) by auto
  have "?ok v" if "v \<in> set ((b_heap st)[addr := ?v])" for v
    using subsetD [OF set_update_subset_insert that] v assms(1) unfolding heapOk_def by blast
  then have "heapOk K (attach addr msg (st, deps))" by (auto simp: heapOk_def attach_def)
  moreover have "varsOk P (attach addr msg (st, deps))"
    using varsOkD [OF assms(2)] varsOk_distinct [OF assms(2)] True
    by (intro varsOkI) (auto simp: nth_list_update attach_def)
  ultimately show ?thesis by blast
qed (use assms in \<open>simp add: attach_def list_update_beyond not_less\<close>)

lemma addDependency_ok:
  assumes c: "cache_ok E c" "systemLocal E" and st: "heapOk K st" "varsOk P st" "addr < length (b_heap st)"
    and a: "addDependency E c ns bundle si addr d st = Some st'" and e: "b_errs st' = []"
  shows "heapOk K st' \<and> varsOk P st' \<and> attached E c (b_heap st' ! addr) d"
proof (cases rule: addDependency_cases [OF c(1), where ns = ns and b = "bundle" and si = si and addr = addr and d = d and st = st])
  case (2 bs msg)
  obtain st1 deps where st1: "addCandidates E bs st [] = (st1, deps)" by fastforce
  have st': "st' = attach addr msg (st1, deps)" using 2(2) a st1 by simp
  then have "b_errs st1 = []" using e by (simp add: attach_def)
  note ok = addCandidates_ok [OF c(2) st(1,2) st1 this]
  have len: "addr < length (b_heap st1)"
    using addCandidates_bgrows [of st E bs "[]"] st1 st(3) by (simp add: bgrows_def heapExt_def)
  then have "isBundle (b_heap st1 ! addr)" using ok by (auto simp: heapOk_def)
  then have "attached E c (b_heap st' ! addr) d"
    using st' len ok 2(1) unfolding attached_def attach_def by fastforce
  then show ?thesis using attach_ok [of K st1 P deps addr msg] ok st' by auto
qed (use a e in auto)

lemma attached_mono: "heapExt h h' \<Longrightarrow> a < length h \<Longrightarrow> attached E c (h ! a) d \<Longrightarrow> attached E c (h' ! a) d"
  unfolding attached_def heapExt_def by (meson subsetD)

lemma carries_mono: "heapExt h h' \<Longrightarrow> a < length h \<Longrightarrow> carries E c e (h ! a) \<Longrightarrow> carries E c e (h' ! a)"
  unfolding carries_def using attached_mono by blast

lemma visitedOkD:
  "visitedOk E c U x st \<Longrightarrow> e \<in> U \<Longrightarrow> map_of (b_visited st) (E_addr e) = Some a \<Longrightarrow>
   a < length (b_heap st) \<and> Identifier (b_heap st ! a) = ident e \<and> (x \<noteq> Some a \<longrightarrow> carries E c e (b_heap st ! a))"
  unfolding visitedOk_def by (force dest: map_of_SomeD)

lemma visitedOk_frame:
  "visitedOk E c U x st \<Longrightarrow> distinct (map fst (b_visited st)) \<and> distinct (map snd (b_visited st))
     \<and> snd ` set (b_visited st) \<subseteq> {..<length (b_heap st)} \<and> fst ` set (b_visited st) \<subseteq> E_addr ` U"
  by (simp add: visitedOk_def)

lemma visitedOkI:
  "\<lbrakk>distinct (map fst (b_visited st)) \<and> distinct (map snd (b_visited st))
      \<and> snd ` set (b_visited st) \<subseteq> {..<length (b_heap st)} \<and> fst ` set (b_visited st) \<subseteq> E_addr ` U;
    \<And>e a. e \<in> U \<Longrightarrow> map_of (b_visited st) (E_addr e) = Some a \<Longrightarrow>
      Identifier (b_heap st ! a) = ident e \<and> (x \<noteq> Some a \<longrightarrow> carries E c e (b_heap st ! a))\<rbrakk>
   \<Longrightarrow> visitedOk E c U x st"
  by (simp add: visitedOk_def)

lemma visitedOk_mono:
  assumes "bgrows st st'" "visitedOk E c U x st"
  shows "visitedOk E c U x st'"
proof -
  have h: "heapExt (b_heap st) (b_heap st')" "b_visited st' = b_visited st" using assms(1) by (auto simp: bgrows_def)
  then have len: "length (b_heap st) \<le> length (b_heap st')" by (simp add: heapExt_def)
  have "Identifier (b_heap st' ! a) = ident e \<and> (x \<noteq> Some a \<longrightarrow> carries E c e (b_heap st' ! a))"
    if "e \<in> U" "map_of (b_visited st) (E_addr e) = Some a" for e a
    using visitedOkD [OF assms(2) that] h(1) carries_mono [OF h(1), of a E c e] by (auto simp: heapExt_def)
  then show ?thesis using assms(2) h(2) len by (auto simp: visitedOk_def subset_iff)
qed

lemma addDependencies_ok:
  assumes c: "cache_ok E c" "systemLocal E"
  shows "\<lbrakk>heapOk K st; varsOk P st; addr < length (b_heap st);
      addDependencies E c ns b si addr ds st = Some st'; b_errs st' = []\<rbrakk>
    \<Longrightarrow> heapOk K st' \<and> varsOk P st' \<and> bgrows st st' \<and> (\<forall>d\<in>set ds. attached E c (b_heap st' ! addr) d)"
proof (induction ds arbitrary: st)
  case (Cons d ds)
  obtain st1 where 1: "addDependency E c ns b si addr d st = Some st1" "bgrows st st1"
    using addDependency_total [OF c(1)] by metis
  then have 2: "addDependencies E c ns b si addr ds st1 = Some st'" using Cons.prems(4) by simp
  have 3: "bgrows st1 st'" using addDependencies_total [OF c(1), of ns b si addr ds st1] 2 by auto
  then have "b_errs st1 = []" using Cons.prems(5) by (simp add: bgrows_def)
  note ok = addDependency_ok [OF c Cons.prems(1-3) 1(1) this]
  have len: "addr < length (b_heap st1)" using 1(2) Cons.prems(3) by (simp add: bgrows_def heapExt_def)
  have "attached E c (b_heap st' ! addr) d"
    using attached_mono [OF _ len] 3 ok by (simp add: bgrows_def)
  then show ?case using Cons.IH [OF _ _ len 2 Cons.prems(5)] ok 1(2) bgrows_trans by auto
qed simp

text \<open>The variable of the popped bundle is stored when its visit ends.\<close>

lemma varsOk_store:
  assumes "varsOk (insert i P) st" "(k, a) \<in> set (b_visited st)" "a < length (b_heap st)" "Identifier (b_heap st ! a) = i"
  shows "varsOk P (st\<lparr>b_vars := AList.update i a (b_vars st)\<rparr>)"
proof (rule varsOkI, goal_cases)
  case 1
  show ?case using varsOk_distinct [OF assms(1)] by (simp add: distinct_update)
next
  case (2 j b)
  then consider "j = i" "b = a" | "j \<noteq> i" "(j, b) \<in> set (b_vars st)"
    using in_AList_update [OF varsOk_distinct [OF assms(1)]] by fastforce
  then show ?case
    by cases (use assms varsOkD [OF assms(1), of j b] in \<open>force+\<close>)
qed

definition collecting :: "env \<Rightarrow> snapshots \<Rightarrow> Identifier set \<Rightarrow> Entry set \<Rightarrow> bstate \<Rightarrow> bool" where
  "collecting E c K U st \<longleftrightarrow> set (b_stack st) \<subseteq> U \<and> heapOk K st \<and> varsOk {} st \<and> visitedOk E c U None st"

lemma heapOk_store: "heapOk K st \<Longrightarrow> heapOk K (st\<lparr>b_vars := AList.update i a (b_vars st)\<rparr>)"
  unfolding heapOk_def by (fastforce simp: dom_update)

lemma visitBundle_revisit:
  assumes "collecting E c K U st" "b_stack st = b # rest" "map_of (b_visited st) (E_addr b) = Some a"
    and "visitBundle E c ns b (st\<lparr>b_stack := rest\<rparr>) = Some st'"
  shows "collecting E c K U st'"
proof -
  let ?st = "st\<lparr>b_stack := rest\<rparr>"
  note inv = assms(1)[unfolded collecting_def]
  have i: "Identifier (b_heap st ! a) = ident b" using inv assms(2,3) by (auto simp: visitedOk_def)
  have a: "(E_addr b, a) \<in> set (b_visited st)" using assms(3) map_of_SomeD by fast
  then have len: "a < length (b_heap st)" using inv by (force simp: visitedOk_def)
  have st': "st' = ?st\<lparr>b_vars := AList.update (ident b) a (b_vars ?st)\<rparr>"
    using assms(3,4) i by (simp add: visitBundle_def)
  have "varsOk (insert (ident b) {}) ?st" using inv assms(2) by (auto simp: varsOk_def)
  from varsOk_store [OF this] have "varsOk {} st'" using a len i st' by simp
  moreover have "heapOk K st'" using inv st' heapOk_store [of K ?st] by (simp add: heapOk_def)
  ultimately show ?thesis using inv assms(2) st' by (auto simp: collecting_def visitedOk_def)
qed

lemma update_new: "map_of al k = None \<Longrightarrow> AList.update k v al = al @ [(k, v)]"
  by (induction al) (auto split: if_splits)

lemma visitedOk_visit:
  assumes "visitedOk E c U None st" "inj_on E_addr U" "b \<in> U" "map_of (b_visited st) (E_addr b) = None"
    and "Identifier v = ident b"
  shows "visitedOk E c U (Some (length (b_heap st)))
     (st\<lparr>b_heap := b_heap st @ [v], b_visited := AList.update (E_addr b) (length (b_heap st)) (b_visited st)\<rparr>)"
proof -
  let ?a = "length (b_heap st)" and ?h = "b_heap st @ [v]"
  note n = update_new [OF assms(4), of ?a]
  have "Identifier (?h ! a) = ident e \<and> (Some ?a \<noteq> Some a \<longrightarrow> carries E c e (?h ! a))"
    if e: "e \<in> U" "map_of (AList.update (E_addr b) ?a (b_visited st)) (E_addr e) = Some a" for e a
  proof (cases "e = b")
    case False
    then have "E_addr e \<noteq> E_addr b" using assms(2,3) e(1) by (auto dest: inj_onD)
    then have "map_of (b_visited st) (E_addr e) = Some a" using e(2) by (simp add: update_conv')
    from visitedOkD [OF assms(1) e(1) this] show ?thesis by (simp add: nth_append)
  qed (use e(2) assms(5) in \<open>auto simp: update_conv' nth_append\<close>)
  then show ?thesis
  proof (intro visitedOkI, goal_cases)
    case 1
    then show ?case using visitedOk_frame [OF assms(1)] assms(3,4)
      by (auto simp: n map_of_eq_None_iff less_Suc_eq)
  qed simp
qed

lemma visitedOk_done:
  assumes "visitedOk E c U (Some a) st" "inj_on E_addr U" "(E_addr b, a) \<in> set (b_visited st)" "b \<in> U"
    and "convertDependencyProperties E (E_Properties b) = Inr ds" "\<forall>d\<in>set ds. attached E c (b_heap st ! a) d"
  shows "visitedOk E c U None st"
proof -
  have b: "carries E c b (b_heap st ! a)" using assms(5,6) by (auto simp: carries_def)
  have "carries E c e (b_heap st ! a)" if "e \<in> U" "map_of (b_visited st) (E_addr e) = Some a" for e
  proof -
    have "inj_on snd (set (b_visited st))" using assms(1) by (simp add: visitedOk_def distinct_map)
    then have "(E_addr e, a) = (E_addr b, a)" using inj_onD [of snd _ "(E_addr e, a)" "(E_addr b, a)"] assms(3) map_of_SomeD [OF that(2)] by simp
    then have "e = b" using assms(2,4) that(1) by (auto dest: inj_onD)
    with b show ?thesis by simp
  qed
  then show ?thesis
    using visitedOkD [OF assms(1)] by (intro visitedOkI visitedOk_frame [OF assms(1)]) blast
qed

lemma collecting_new:
  assumes "inj_on E_addr U" "collecting E c K U st" "b_stack st = b # rest" "map_of (b_visited st) (E_addr b) = None"
    and "Identifier v = ident b" "isBundle v" "refFree v"
  shows "let st1 = st\<lparr>b_stack := rest, b_heap := b_heap st @ [v],
      b_visited := AList.update (E_addr b) (length (b_heap st)) (b_visited st)\<rparr>
    in heapOk K st1 \<and> varsOk {ident b} st1 \<and> visitedOk E c U (Some (length (b_heap st))) st1"
proof -
  note inv = assms(2)[unfolded collecting_def]
  let ?v = "AList.update (E_addr b) (length (b_heap st)) (b_visited st)"
  let ?st = "st\<lparr>b_stack := rest, b_heap := b_heap st @ [v], b_visited := ?v\<rparr>"
  have "heapOk K ?st" using inv assms(6,7) unfolding heapOk_def refFree_def by auto
  moreover have "varsOk {ident b} ?st"
  proof (rule varsOkI, goal_cases)
    case (2 i a)
    then have "(i, a) \<in> set (b_vars st)" by simp
    moreover have "snd ` set (b_visited st) \<subseteq> snd ` set ?v"
      by (auto simp: update_new [OF assms(4)])
    ultimately show ?case using varsOkD [of "{}" st i a] inv assms(3) by (auto simp: nth_append)
  qed (use inv in \<open>simp add: varsOk_def\<close>)
  moreover have "visitedOk E c U (Some (length (b_heap st))) ?st"
    using visitedOk_visit [OF _ assms(1) _ _ assms(5), of E c "st\<lparr>b_stack := rest\<rparr>"] inv assms(3,4)
    by (simp add: visitedOk_def)
  ultimately show ?thesis by (simp add: Let_def)
qed

lemma visitBundle_new:
  assumes "cache_ok E c" "systemLocal E" "inj_on E_addr U"
    and "collecting E c K U st" "b_stack st = b # rest" "map_of (b_visited st) (E_addr b) = None"
    and "visitBundle E c ns b (st\<lparr>b_stack := rest\<rparr>) = Some st'" "b_errs st' = []" "cacheEntries c \<subseteq> U"
  shows "collecting E c K U st'"
proof -
  note inv = assms(4)[unfolded collecting_def]
  obtain v where v: "newBundleVariableFromEntry E b = Inr v"
    using assms(6,7,8) by (cases "newBundleVariableFromEntry E b") (auto simp: visitBundle_def)
  note new = newBundleVariableFromEntry_new [OF v assms(2)]
  let ?a = "length (b_heap st)"
  let ?st = "st\<lparr>b_stack := rest, b_heap := b_heap st @ [v], b_visited := AList.update (E_addr b) ?a (b_visited st)\<rparr>"
  obtain ds where ds: "convertDependencyProperties E (E_Properties b) = Inr ds"
    using assms(6-8) v by (cases "convertDependencyProperties E (E_Properties b)") (auto simp: visitBundle_def Let_def)
  obtain st2 where st2: "addDependencies E c ns b (the (E_SourceInfo b)) ?a ds ?st = Some st2"
      "st' = st2\<lparr>b_vars := AList.update (Identifier v) ?a (b_vars st2)\<rparr>"
    using assms(6,7) v ds by (auto simp: visitBundle_def Let_def)
  have 0: "heapOk K ?st" "varsOk {ident b} ?st" "visitedOk E c U (Some ?a) ?st"
    using collecting_new [OF assms(3-6), of v] new by (auto simp: Let_def)
  have e2: "b_errs st2 = []" using st2(2) assms(8) by simp
  have ok: "heapOk K st2" "varsOk {ident b} st2" "bgrows ?st st2" "\<forall>d\<in>set ds. attached E c (b_heap st2 ! ?a) d"
    using addDependencies_ok [OF assms(1,2) 0(1,2) _ st2(1) e2] by auto
  have vis: "b_visited st2 = AList.update (E_addr b) ?a (b_visited st)"
    "?a < length (b_heap st2)" "Identifier (b_heap st2 ! ?a) = ident b"
    using ok(3) new by (auto simp: bgrows_def heapExt_def)
  then have a: "(E_addr b, ?a) \<in> set (b_visited st2)" by (metis map_of_SomeD update_Some_unfold update_conv')
  have "visitedOk E c U (Some ?a) st2" by (rule visitedOk_mono [OF ok(3) 0(3)])
  then have "visitedOk E c U None st2"
    using visitedOk_done [OF _ assms(3) a _ ds ok(4)] inv assms(5) by auto
  moreover have "varsOk {} st'" using varsOk_store [OF _ a vis(2,3)] ok(2) st2(2) new by simp
  moreover have "heapOk K st'" using heapOk_store [OF ok(1)] st2(2) new by simp
  moreover have "set (b_stack st') \<subseteq> U"
    using addDependencies_total [OF assms(1), of ns b "the (E_SourceInfo b)" ?a ds ?st] st2 inv assms(5,9) by auto
  ultimately show ?thesis using st2(2) by (simp add: collecting_def visitedOk_def)
qed

lemma visitBundle_errs:
  "cache_ok E c \<Longrightarrow> visitBundle E c ns b st = Some st' \<Longrightarrow> b_errs st' = [] \<Longrightarrow> b_errs st = []"
proof -
  assume c: "cache_ok E c" and v: "visitBundle E c ns b st = Some st'" "b_errs st' = []"
  have "b_errs st2 = [] \<longrightarrow> b_errs st1 = []" if "addDependencies E c ns b si a ds st1 = Some st2" for si a ds st1 st2
    using addDependencies_total [OF c, of ns b si a ds st1] that by (auto simp: bgrows_def)
  then show ?thesis using v
    by (fastforce simp: visitBundle_def Let_def split: option.splits sum.splits)
qed

lemma bundleLoop_collecting:
  assumes c: "cache_ok E c" "systemLocal E" "inj_on E_addr U" "cacheEntries c \<subseteq> U"
    and r: "bundleLoop E c ns st = Some st'"
  shows "b_errs st' = [] \<longrightarrow> b_errs st = [] \<and> (collecting E c K U st \<longrightarrow> collecting E c K U st' \<and> b_stack st' = [])"
proof -
  let ?P = "\<lambda>E' c' ns' st st'. E' = E \<and> c' = c \<longrightarrow> b_errs st' = [] \<longrightarrow>
    b_errs st = [] \<and> (collecting E c K U st \<longrightarrow> collecting E c K U st' \<and> b_stack st' = [])"
  have "?P E c ns st st'"
  proof (rule bundleLoop.raw_induct [where P = ?P, OF _ r], goal_cases)
    case (1 f E' c' ns' st st')
    show ?case
    proof (cases "b_stack st")
      case (Cons b rest)
      show ?thesis
      proof (intro impI, elim conjE)
        assume a: "E' = E" "c' = c" "b_errs st' = []"
        then obtain st1 where st1: "visitBundle E c ns' b (st\<lparr>b_stack := rest\<rparr>) = Some st1" "f E c ns' st1 = Some st'"
          using 1(2) Cons by (auto simp: bind_eq_Some_conv)
        have IH: "b_errs st1 = []" "collecting E c K U st1 \<longrightarrow> collecting E c K U st' \<and> b_stack st' = []"
          using 1(1) [OF st1(2)] a(3) by simp_all
        have "b_errs st = []" using visitBundle_errs [OF c(1) st1(1) IH(1)] by simp
        moreover have "collecting E c K U st1" if "collecting E c K U st"
          using visitBundle_new [OF c(1-3) that Cons _ st1(1) IH(1) c(4)] visitBundle_revisit [OF that Cons _ st1(1)]
          by (cases "map_of (b_visited st) (E_addr b)") simp_all
        ultimately show "b_errs st = [] \<and> (collecting E c K U st \<longrightarrow> collecting E c K U st' \<and> b_stack st' = [])"
          using IH(2) by blast
      qed
    qed (use 1(2) in auto)
  qed
  then show ?thesis by blast
qed

text \<open>
  What is known between two collections: the shared heap and the visited bundles, with the
  identifiers \<open>K\<close> that the variables refer to.
\<close>

definition collected :: "env \<Rightarrow> snapshots \<Rightarrow> Identifier set \<Rightarrow> Entry set \<Rightarrow> Variable list \<Rightarrow> (nat \<times> nat) list \<Rightarrow> bool" where
  "collected E c K U heap visited \<longleftrightarrow>
     collecting E c K U \<lparr>b_heap = heap, b_visited = visited, b_vars = [], b_stack = [], b_errs = []\<rparr>"

lemma getBundleVariables_collected:
  assumes "cache_ok E c" "systemLocal E" "inj_on E_addr U" "cacheEntries c \<subseteq> U" "set bundleStack \<subseteq> U"
    and "collected E c K U heap visited"
    and "getBundleVariables E c ns bundleStack heap visited = Some (Inr (ids, vars), heap', visited')"
  shows "collected E c (K \<union> fst ` set vars) U heap' visited'
    \<and> (\<forall>(i, a)\<in>set vars. a < length heap' \<and> Identifier (heap' ! a) = i \<and> a \<in> snd ` set visited')"
proof -
  let ?st = "\<lparr>b_heap = heap, b_visited = visited, b_vars = [], b_stack = rev bundleStack, b_errs = []\<rparr>"
  obtain st where st: "bundleLoop E c ns ?st = Some st" "b_errs st = []" "vars = b_vars st" "heap' = b_heap st"
      "visited' = b_visited st"
    using assms(7) by (auto simp: getBundleVariables_def split: if_splits)
  have "collecting E c K U ?st"
    using assms(5,6) by (auto simp: collected_def collecting_def heapOk_def varsOk_def visitedOk_def)
  then have c: "collecting E c K U st" "b_stack st = []"
    using bundleLoop_collecting [OF assms(1-4) st(1)] st(2) by auto
  have "collected E c (K \<union> fst ` set vars) U heap' visited'"
    using c st(3-5) by (simp add: collected_def collecting_def heapOk_def varsOk_def visitedOk_def)
  moreover have "a < length heap' \<and> Identifier (heap' ! a) = i \<and> a \<in> snd ` set visited'" if "(i, a) \<in> set vars" for i a
    using varsOkD [of "{}" st i a] that c st(3-5) by (auto simp: collecting_def)
  ultimately show ?thesis by blast
qed

text \<open>C21. A successful collection keeps the invariant of the shared heap: every reference of a
  variable is to a known or a collected identifier, every visited bundle has a variable with its
  own identifier that carries a constraint for each of its dependencies, whose candidates satisfy
  the dependency, and every collected variable is that of a visited bundle.\<close>

theorem getBundleVariables_closed:
  assumes "cache_ok E c" "systemLocal E" "inj_on E_addr U" "cacheEntries c \<subseteq> U" "set bundleStack \<subseteq> U"
    and "collected E c K U heap visited"
    and "getBundleVariables E c ns bundleStack heap visited = Some (Inr (ids, vars), heap', visited')"
  shows "collected E c (K \<union> fst ` set vars) U heap' visited'
    \<and> (\<forall>(i, a)\<in>set vars. a < length heap' \<and> Identifier (heap' ! a) = i \<and> a \<in> snd ` set visited')"
  by (rule getBundleVariables_collected [OF assms])

text \<open>An operator that needs a label which a second bundle of the catalog has.\<close>

definition demoEnv :: env where
  "demoEnv = \<lparr>e_J = noDecoders\<lparr>decodeLabel := Some\<rparr>, e_srt = SliceStable, e_quote = (\<lambda>s. s),
     e_parseConstraint = (\<lambda>_. Inl []), e_parseRange = (\<lambda>_. Inl []), e_validateCel = (\<lambda>_. Inl []),
     e_requiredGVK = (\<lambda>_. Inl []), e_requiredPackage = (\<lambda>_. Inl []), e_requiredLabel = Inr,
     e_versionString = (\<lambda>_. []), e_system = None\<rparr>"

definition demoNeeds :: Entry where
  "demoNeeds = (demoEntry 0 ''a.v1'' [] ''alpha'' demoCatalog)
     \<lparr>E_Properties := [\<lparr>P_Type = ''olm.label.required'', P_Value = ''blue''\<rparr>]\<rparr>"

definition demoHas :: Entry where
  "demoHas = (demoEntry 1 ''b.v1'' [] ''beta'' demoCatalog)
     \<lparr>E_Properties := [\<lparr>P_Type = ''olm.label'', P_Value = ''blue''\<rparr>]\<rparr>"

definition demoCache :: snapshots where
  "demoCache = [(demoCatalog, demoHeader demoCatalog 0 [demoNeeds, demoHas])]"

lemma demo_cache_ok: "cache_ok demoEnv demoCache"
  using stable.go_sort_axioms
  by (auto simp: cache_ok_def demoEnv_def wf_snapshots_def sourced_def demoCache_def demoHeader_def entriesOf_def
      demoNeeds_def demoHas_def demoEntry_def)

lemma demo_collected: "collected demoEnv demoCache {} {demoNeeds, demoHas} [] []"
  by (simp add: collected_def collecting_def heapOk_def varsOk_def visitedOk_def)

lemma demo_getBundleVariables:
  "\<exists>heap' visited'. getBundleVariables demoEnv demoCache ''ns'' [demoNeeds] [] []
   = Some (Inr ([''cat/ns/alpha/a.v1''], [(''cat/ns/beta/b.v1'', 2), (''cat/ns/alpha/a.v1'', 0)]), heap', visited')
   \<and> visited' = [(0, 0), (1, 2)]"
proof -
  have "map_option (\<lambda>(r, h, v). (r, v)) (getBundleVariables demoEnv demoCache ''ns'' [demoNeeds] [] [])
    = Some (Inr ([''cat/ns/alpha/a.v1''], [(''cat/ns/beta/b.v1'', 2), (''cat/ns/alpha/a.v1'', 0)]), [(0, 0), (1, 2)])"
    by code_simp
  then show ?thesis by auto
qed

theorem getBundleVariables_returns_witness:
  "\<exists>r heap' visited'. getBundleVariables demoEnv demoCache ''ns'' [demoNeeds] [] [] = Some (r, heap', visited')"
  by (rule getBundleVariables_returns [OF demo_cache_ok])

theorem getBundleVariables_closed_witness:
  "\<exists>heap' visited'. collected demoEnv demoCache {''cat/ns/beta/b.v1'', ''cat/ns/alpha/a.v1''} {demoNeeds, demoHas} heap' visited'
     \<and> Identifier (heap' ! 2) = ''cat/ns/beta/b.v1''"
proof -
  have 1: "systemLocal demoEnv" "inj_on E_addr {demoNeeds, demoHas}" "cacheEntries demoCache \<subseteq> {demoNeeds, demoHas}"
      "set [demoNeeds] \<subseteq> {demoNeeds, demoHas}"
    by (auto simp: systemLocal_def demoEnv_def demoNeeds_def demoHas_def demoEntry_def cacheEntries_def demoCache_def
        demoHeader_def entriesOf_def)
  obtain heap' visited' where r: "getBundleVariables demoEnv demoCache ''ns'' [demoNeeds] [] []
   = Some (Inr ([''cat/ns/alpha/a.v1''], [(''cat/ns/beta/b.v1'', 2), (''cat/ns/alpha/a.v1'', 0)]), heap', visited')"
    using demo_getBundleVariables by blast
  show ?thesis
    using getBundleVariables_closed [OF demo_cache_ok 1 demo_collected r] by (intro exI [of _ heap']) auto
qed

end
