(* ===== verification/Resolve.thy ===== *)
theory Resolve
  imports Resolver Gini_Reference
begin

text \<open>
  The rest of \<open>resolver/resolver.go\<close>: the variables of a subscription, the invariants over all
  variables, and \<open>Resolve\<close>. A variable in the map is a bundle, by its address in the heap, or a
  value. The orders in which the code ranges over maps are parameters.
\<close>

section \<open>Subscriptions\<close>

record Subscription =
  sub_Name :: string
  sub_Namespace :: string
  sub_CatalogSource :: string
  sub_CatalogSourceNamespace :: string
  sub_Package :: string
  sub_Channel :: string
  sub_StartingCSV :: string
  sub_InstalledCSV :: string

datatype vref = BRef nat | GVal Variable

type_synonym varmap = "(Identifier \<times> vref) list"

record mapOrders =
  o_bundles :: "(Identifier \<times> nat) list \<Rightarrow> (Identifier \<times> nat) list"
  o_vars :: "varmap \<Rightarrow> varmap"
  o_gvks :: "((string \<times> string \<times> string) \<times> Identifier list) list \<Rightarrow> ((string \<times> string \<times> string) \<times> Identifier list) list"
  o_pkgs :: "(string \<times> Identifier list) list \<Rightarrow> (string \<times> Identifier list) list"

fun deref :: "Variable list \<Rightarrow> vref \<Rightarrow> Variable" where
  "deref heap (BRef a) = heap ! a"
| "deref heap (GVal v) = v"

definition subCatalog :: "Subscription \<Rightarrow> SourceKey" where
  "subCatalog sub = \<lparr>SK_Name = sub_CatalogSource sub, SK_Namespace = sub_CatalogSourceNamespace sub\<rparr>"

definition installedID :: "Subscription \<Rightarrow> Entry \<Rightarrow> Identifier" where
  "installedID sub current = bundleID (E_Name current) (Entry_Channel current) (NewVirtualSourceKey (sub_Namespace sub))"

text \<open>The predicates of the channel; reading the version of an installed operator without one panics.\<close>

definition channelPredicates :: "env \<Rightarrow> Entry option \<Rightarrow> Predicate list option" where
  "channelPredicates E current =
     (case current of
        None \<Rightarrow> Some []
      | Some cur \<Rightarrow>
          (case E_Version cur of
             None \<Rightarrow> None
           | Some v \<Rightarrow> Some [orPredicate [skipRangeIncludesPredication v (e_versionString E v), replacesPredicate (E_Name cur)]]))"

definition csvPredicate :: "Subscription \<Rightarrow> Entry option \<Rightarrow> Predicate" where
  "csvPredicate sub current =
     (if current = None \<and> sub_StartingCSV sub \<noteq> [] then csvNamePredicate (sub_StartingCSV sub) else booleanPredicate True)"

definition cachePredicates :: "Subscription \<Rightarrow> Entry option \<Rightarrow> Predicate list" where
  "cachePredicates sub current =
     [andPredicate
        [countingPredicate (booleanPredicate True) 0,
         countingPredicate (pkgPredicate (sub_Package sub)) 1,
         countingPredicate (channelPredicate (sub_Channel sub)) 2,
         countingPredicate (csvPredicate sub current) 3]]"

definition invalidReason :: "Subscription \<Rightarrow> counters \<Rightarrow> string option" where
  "invalidReason sub n =
     (if n 0 = 0 then
        Some (''no operators found from catalog '' @ sub_CatalogSource sub @ '' in namespace ''
          @ sub_CatalogSourceNamespace sub @ '' referenced by subscription '' @ sub_Name sub)
      else if n 1 = 0 then
        Some (''no operators found in package '' @ sub_Package sub
          @ '' in the catalog referenced by subscription '' @ sub_Name sub)
      else if n 2 = 0 then
        Some (''no operators found in channel '' @ sub_Channel sub @ '' of package '' @ sub_Package sub
          @ '' in the catalog referenced by subscription '' @ sub_Name sub)
      else if n 3 = 0 then
        Some (''no operators found with name '' @ sub_StartingCSV sub @ '' in channel '' @ sub_Channel sub
          @ '' of package '' @ sub_Package sub @ '' in the catalog referenced by subscription '' @ sub_Name sub)
      else None)"

definition lessEntry :: "Entry \<Rightarrow> Entry \<Rightarrow> bool" where
  "lessEntry i j =
     (let (idef, ichan) = (case E_SourceInfo i of Some si \<Rightarrow> (SI_DefaultChannel si, SI_Channel si) | None \<Rightarrow> (False, []));
          (jdef, jchan) = (case E_SourceInfo j of Some si \<Rightarrow> (SI_DefaultChannel si, SI_Channel si) | None \<Rightarrow> (False, []))
      in if idef = jdef then ichan < jchan else idef)"

text \<open>Every maximal run of entries of one channel is sorted; \<open>run\<close> is the run so far.\<close>

fun sortRuns :: "string \<Rightarrow> Entry list \<Rightarrow> Entry list \<Rightarrow> sort_error + Entry list" where
  "sortRuns lastChannel run [] = sortChannel run"
| "sortRuns lastChannel run (e # es) =
     (if Entry_Channel e = lastChannel then sortRuns lastChannel (run @ [e]) es
      else bind_err (sortChannel run) (\<lambda>channel.
             bind_err (sortRuns (Entry_Channel e) [e] es) (\<lambda>rest. Inr (channel @ rest))))"

type_synonym 'a hres = "((rerror + 'a) \<times> Variable list \<times> (nat \<times> nat) list) option"

fun subCandidates :: "env \<Rightarrow> mapOrders \<Rightarrow> snapshots \<Rightarrow> Subscription \<Rightarrow> Predicate list \<Rightarrow> Entry list
    \<Rightarrow> Variable list \<Rightarrow> (nat \<times> nat) list \<Rightarrow> varmap \<Rightarrow> nat list \<Rightarrow> (varmap \<times> nat list) hres" where
  "subCandidates E R c sub preds [] heap visited vars cands = Some (Inr (vars, cands), heap, visited)"
| "subCandidates E R c sub preds (o' # os) heap visited vars cands =
     Option.bind (Find (e_J E) (e_srt E) (Catalog c (subCatalog sub)) (preds @ [csvNamePredicate (E_Name o')]) (\<lambda>_. 0))
       (\<lambda>(stack, _).
     Option.bind (getBundleVariables E c (sub_Namespace sub) stack heap visited) (\<lambda>(r, heap, visited).
       case r of
         Inl e \<Rightarrow> Some (Inl e, heap, visited)
       | Inr (ids, variable) \<Rightarrow>
           if length ids < 1 then Some (Inl (noPotentialBundles (sub_Package sub)), heap, visited)
           else
             let found = o_bundles R variable
             in subCandidates E R c sub preds os heap visited
                  (fold (\<lambda>(i, a). AList.update i (BRef a)) found vars)
                  (cands @ map snd (filter (\<lambda>(i, a). i \<in> set ids) found))))"

fun setReplaces :: "string \<Rightarrow> Variable \<Rightarrow> Variable" where
  "setReplaces name (BundleVariable i cs r) = BundleVariable i cs name"
| "setReplaces name v = v"

definition markReplacement :: "string \<Rightarrow> Identifier \<Rightarrow> nat \<Rightarrow> Variable list \<Rightarrow> Variable list" where
  "markReplacement name i a heap = heap[a := AddConflict i (setReplaces name (heap ! a))]"

definition finishSubscription :: "Subscription \<Rightarrow> Entry option \<Rightarrow> varmap \<Rightarrow> nat list \<Rightarrow> Variable list
    \<Rightarrow> varmap \<times> Variable list" where
  "finishSubscription sub current vars cands heap =
     (let heap' = (case current of
          Some cur \<Rightarrow> fold (markReplacement (E_Name cur) (installedID sub cur)) cands heap
        | None \<Rightarrow> heap);
          depIds = map (\<lambda>a. Identifier (heap' ! a)) cands
            @ (case current of Some cur \<Rightarrow> [installedID sub cur] | None \<Rightarrow> []);
          v = NewSubscriptionVariable (sub_Name sub) depIds
      in (AList.update (Identifier v) (GVal v) vars, heap'))"

definition getSubscriptionVariables :: "env \<Rightarrow> mapOrders \<Rightarrow> snapshots \<Rightarrow> Subscription \<Rightarrow> Entry option
    \<Rightarrow> Variable list \<Rightarrow> (nat \<times> nat) list \<Rightarrow> varmap hres" where
  "getSubscriptionVariables E R c sub current heap visited =
     Option.bind (channelPredicates E current) (\<lambda>chps.
     Option.bind (Find (e_J E) (e_srt E) (Catalog c (subCatalog sub)) (cachePredicates sub current) (\<lambda>_. 0))
       (\<lambda>(entries, n).
       case invalidReason sub n of
         Some reason \<Rightarrow>
           (let si = NewInvalidSubscriptionVariable (sub_Name sub) reason
            in Some (Inr [(Identifier si, GVal si)], heap, visited))
       | None \<Rightarrow>
           (case sortRuns [] [] (SliceStable lessEntry entries) of
              Inl e \<Rightarrow> Some (Inl (sortError e), heap, visited)
            | Inr sortedBundles \<Rightarrow>
                Option.bind (Filter (e_J E) sortedBundles chps (\<lambda>_. 0)) (\<lambda>(os, _).
                Option.bind (subCandidates E R c sub (cachePredicates sub current) os heap visited [] [])
                  (\<lambda>(r, heap, visited).
                  case r of
                    Inl e \<Rightarrow> Some (Inl e, heap, visited)
                  | Inr (vars, cands) \<Rightarrow>
                      let (vars', heap') = finishSubscription sub current vars cands heap
                      in Some (Inr vars', heap', visited))))))"

section \<open>Invariants\<close>

definition opOf :: "env \<Rightarrow> snapshots \<Rightarrow> Identifier \<Rightarrow> (rerror + string \<times> Entry) option" where
  "opOf E c i =
     (case BundleSourceInfo i of
        Inl e \<Rightarrow> Some (Inl (originError e))
      | Inr (csvName, channel, catalog) \<Rightarrow>
          Option.bind (Find (e_J E) (e_srt E) (Catalog c catalog) [csvNamePredicate csvName, channelPredicate channel] (\<lambda>_. 0))
            (\<lambda>(es, _). case ExactlyOne es of
               Inl e \<Rightarrow> Some (Inl (cacheError e))
             | Inr op \<Rightarrow> Some (Inr (csvName, op))))"

definition appendTo :: "'k \<Rightarrow> 'v \<Rightarrow> ('k \<times> 'v list) list \<Rightarrow> ('k \<times> 'v list) list" where
  "appendTo k v m = AList.update k ((case map_of m k of None \<Rightarrow> [] | Some vs \<Rightarrow> vs) @ [v]) m"

definition gvksOf :: "env \<Rightarrow> Entry \<Rightarrow> (string \<times> string \<times> string) list" where
  "gvksOf E op = List.map_filter (\<lambda>p. if P_Type p \<noteq> GVKType then None else decodeGVK (e_J E) (P_Value p)) (E_Properties op)"

definition packagesOf :: "env \<Rightarrow> Entry \<Rightarrow> string list" where
  "packagesOf E op = List.map_filter (\<lambda>p. if P_Type p \<noteq> PackageType then None
     else map_option fst (decodePackage (e_J E) (P_Value p))) (E_Properties op)"

type_synonym conflicts = "((string \<times> string \<times> string) \<times> Identifier list) list \<times> (string \<times> Identifier list) list"

fun conflictsOf :: "env \<Rightarrow> snapshots \<Rightarrow> Variable list \<Rightarrow> varmap \<Rightarrow> conflicts \<Rightarrow> conflicts option" where
  "conflictsOf E c heap [] m = Some m"
| "conflictsOf E c heap ((k, GVal v) # vs) m = conflictsOf E c heap vs m"
| "conflictsOf E c heap ((k, BRef a) # vs) (gm, pm) =
     (let i = Identifier (heap ! a)
      in Option.bind (opOf E c i) (\<lambda>r.
           case r of
             Inl e \<Rightarrow> conflictsOf E c heap vs (gm, pm)
           | Inr (_, op) \<Rightarrow>
               conflictsOf E c heap vs
                 (fold (\<lambda>gvk. appendTo gvk i) (gvksOf E op) gm, fold (\<lambda>p. appendTo p i) (packagesOf E op) pm)))"

definition addVar :: "Variable \<Rightarrow> varmap \<Rightarrow> varmap" where
  "addVar v vars = AList.update (Identifier v) (GVal v) vars"

definition apiVariable :: "(string \<times> string \<times> string) \<times> Identifier list \<Rightarrow> Variable" where
  "apiVariable x = (case x of ((g, v, k), is) \<Rightarrow> NewSingleAPIProviderVariable g v k is)"

definition packageVariable :: "string \<times> Identifier list \<Rightarrow> Variable" where
  "packageVariable x = (case x of (pkg, is) \<Rightarrow> NewSinglePackageInstanceVariable pkg is)"

definition addInvariants :: "env \<Rightarrow> mapOrders \<Rightarrow> snapshots \<Rightarrow> Variable list \<Rightarrow> varmap \<Rightarrow> varmap option" where
  "addInvariants E R c heap vars =
     map_option (\<lambda>(gm, pm).
       fold (\<lambda>x. addVar (packageVariable x)) (o_pkgs R pm) (fold (\<lambda>x. addVar (apiVariable x)) (o_gvks R gm) vars))
       (conflictsOf E c heap (o_vars R vars) ([], []))"

section \<open>Resolve\<close>

record rstate =
  r_heap :: "Variable list"
  r_visited :: "(nat \<times> nat) list"
  r_vars :: varmap
  r_startingCSVs :: "string list"
  r_errs :: "rerror list"

definition mergeVariables :: "mapOrders \<Rightarrow> (rerror + varmap) \<times> Variable list \<times> (nat \<times> nat) list \<Rightarrow> rstate \<Rightarrow> rstate" where
  "mergeVariables R x st =
     (case x of (r, heap, visited) \<Rightarrow>
       let st1 = st\<lparr>r_heap := heap, r_visited := visited\<rparr>
       in case r of
            Inl e \<Rightarrow> st1\<lparr>r_errs := r_errs st1 @ [e]\<rparr>
          | Inr subVariables \<Rightarrow> st1\<lparr>r_vars := fold (\<lambda>(i, v). AList.update i v) (o_vars R subVariables) (r_vars st1)\<rparr>)"

text \<open>One subscription. \<open>Inl\<close> ends the resolution with an error.\<close>

definition addSubscription :: "env \<Rightarrow> mapOrders \<Rightarrow> snapshots \<Rightarrow> Subscription \<Rightarrow> rstate \<Rightarrow> (rerror + rstate) option" where
  "addSubscription E R c sub st =
     Option.bind (Find (e_J E) (e_srt E) (Catalog c (NewVirtualSourceKey (sub_Namespace sub)))
         [csvNamePredicate (sub_InstalledCSV sub)] (\<lambda>_. 0)) (\<lambda>(matches, _).
       if length matches > 1 then
         Some (Inl (multipleNameMatches (sub_Namespace sub) (sub_Name sub) (map E_Name matches)))
       else
         let current = (if length matches = 1 then Some (matches ! 0) else None);
             st1 = (if current = None \<and> sub_StartingCSV sub \<noteq> []
                    then st\<lparr>r_startingCSVs := sub_StartingCSV sub # r_startingCSVs st\<rparr> else st)
         in map_option (\<lambda>x. Inr (mergeVariables R x st1))
              (getSubscriptionVariables E R c sub current (r_heap st1) (r_visited st1)))"

fun addSubscriptions :: "env \<Rightarrow> mapOrders \<Rightarrow> snapshots \<Rightarrow> Subscription list \<Rightarrow> rstate \<Rightarrow> (rerror + rstate) option" where
  "addSubscriptions E R c [] st = Some (Inr st)"
| "addSubscriptions E R c (sub # subs) st =
     Option.bind (addSubscription E R c sub st) (\<lambda>r.
       case r of Inl e \<Rightarrow> Some (Inl e) | Inr st1 \<Rightarrow> addSubscriptions E R c subs st1)"

text \<open>The new bundles among the solved variables.\<close>

fun operatorVariables :: "Variable list \<Rightarrow> rerror + Variable list" where
  "operatorVariables [] = Inr []"
| "operatorVariables (BundleVariable i cs r # vs) =
     (case BundleSourceInfo i of
        Inl e \<Rightarrow> Inl (originError e)
      | Inr (_, _, catalog) \<Rightarrow>
          if Virtual catalog then operatorVariables vs
          else bind_err (operatorVariables vs) (\<lambda>ovs. Inr (BundleVariable i cs r # ovs)))"
| "operatorVariables (_ # vs) = operatorVariables vs"

fun variableReplaces :: "Variable \<Rightarrow> string" where
  "variableReplaces (BundleVariable i cs r) = r"
| "variableReplaces _ = []"

text \<open>The copy of the entry; its own address is not modelled.\<close>

definition copyEntry :: "string list \<Rightarrow> string \<Rightarrow> string \<Rightarrow> Entry \<Rightarrow> Entry" where
  "copyEntry startingCSVs csvName replaces op =
     op\<lparr>E_Replaces := (if length replaces > 0 then replaces else E_Replaces op),
        E_SourceInfo := map_option (\<lambda>si. si\<lparr>SI_Deprecations := None,
          SI_StartingCSV := (if csvName \<in> set startingCSVs then csvName else SI_StartingCSV si)\<rparr>) (E_SourceInfo op)\<rparr>"

fun collectOperators :: "env \<Rightarrow> snapshots \<Rightarrow> string list \<Rightarrow> Variable list \<Rightarrow> rerror list \<Rightarrow> Entry list
    \<Rightarrow> (rerror list \<times> Entry list) option" where
  "collectOperators E c starting [] es ops = Some (es, ops)"
| "collectOperators E c starting (v # vs) es ops =
     Option.bind (opOf E c (Identifier v)) (\<lambda>r.
       case r of
         Inl e \<Rightarrow> collectOperators E c starting vs (es @ [e]) ops
       | Inr (csvName, op) \<Rightarrow>
           if E_SourceInfo op = None then None
           else collectOperators E c starting vs es (ops @ [copyEntry starting csvName (variableReplaces v) op]))"

definition finishResolve :: "env \<Rightarrow> snapshots \<Rightarrow> string list \<Rightarrow> Variable list \<Rightarrow> (rerror + Entry list) option" where
  "finishResolve E c starting solved =
     (case operatorVariables solved of
        Inl e \<Rightarrow> Some (Inl e)
      | Inr vs \<Rightarrow>
          map_option (\<lambda>(es, ops). if length es > 0 then Inl (aggregate es) else Inr ops)
            (collectOperators E c starting vs [] []))"

definition solveVariables :: "env \<Rightarrow> mapOrders \<Rightarrow> snapshots \<Rightarrow> ('c, 's, 'k) gini \<Rightarrow> 's
    \<Rightarrow> rstate \<Rightarrow> (rerror + Entry list) option" where
  "solveVariables E R c G s0 st =
     Option.bind (addInvariants E R c (r_heap st) (r_vars st)) (\<lambda>vars.
       case Cache_Error c of
         Some e \<Rightarrow> Some (Inl (cacheError e))
       | None \<Rightarrow>
           if length (r_errs st) > 0 then Some (Inl (aggregate (r_errs st)))
           else
             Option.bind (solveInput G s0 (map (deref (r_heap st) \<circ> snd) (o_vars R vars))) (\<lambda>r.
               case r of
                 Inl e \<Rightarrow> Some (Inl (solverError e))
               | Inr solved \<Rightarrow> finishResolve E c (r_startingCSVs st) solved))"

definition Resolve :: "env \<Rightarrow> mapOrders \<Rightarrow> snapshots \<Rightarrow> ('c, 's, 'k) gini \<Rightarrow> 's
    \<Rightarrow> string list \<Rightarrow> Subscription list \<Rightarrow> (rerror + Entry list) option" where
  "Resolve E R c G s0 namespaces subs =
     (case namespaces of
        [] \<Rightarrow> Some (Inl noNamespace)
      | preferredNamespace # _ \<Rightarrow>
          Option.bind (Find (e_J E) (e_srt E) (Catalog c (NewVirtualSourceKey preferredNamespace))
              [booleanPredicate True] (\<lambda>_. 0)) (\<lambda>(existing, _).
          Option.bind (getBundleVariables E c preferredNamespace existing [] []) (\<lambda>(r, heap, visited).
            case r of
              Inl e \<Rightarrow> Some (Inl e)
            | Inr (_, existingVariables) \<Rightarrow>
                Option.bind (addSubscriptions E R c subs
                    \<lparr>r_heap = heap, r_visited = visited,
                     r_vars = fold (\<lambda>(i, a). AList.update i (BRef a)) (o_bundles R existingVariables) [],
                     r_startingCSVs = [], r_errs = []\<rparr>) (\<lambda>r.
                  case r of
                    Inl e \<Rightarrow> Some (Inl e)
                  | Inr st \<Rightarrow> solveVariables E R c G s0 st))))"

section \<open>The invariants make packages and APIs unique\<close>

definition ordered :: "mapOrders \<Rightarrow> bool" where
  "ordered R \<longleftrightarrow> (\<forall>m. mset (o_bundles R m) = mset m) \<and> (\<forall>m. mset (o_vars R m) = mset m)
     \<and> (\<forall>m. mset (o_gvks R m) = mset m) \<and> (\<forall>m. mset (o_pkgs R m) = mset m)"

lemma ordered_set:
  assumes "ordered R"
  shows "set (o_bundles R b) = set b" "set (o_vars R v) = set v" "set (o_gvks R g) = set g" "set (o_pkgs R p) = set p"
  using assms unfolding ordered_def by (metis mset_eq_setD)+

definition inMap :: "('k \<times> 'v list) list \<Rightarrow> 'k \<Rightarrow> 'v \<Rightarrow> bool" where
  "inMap m k v \<longleftrightarrow> (\<exists>vs. map_of m k = Some vs \<and> v \<in> set vs)"

lemma inMap_Nil [simp]: "\<not> inMap [] k v"
  by (simp add: inMap_def)

lemma inMap_appendTo [simp]: "inMap (appendTo k v m) k' v' \<longleftrightarrow> k' = k \<and> v' = v \<or> inMap m k' v'"
  by (auto simp: inMap_def appendTo_def update_conv' split: option.splits)

lemma distinct_appendTo [simp]: "distinct (map fst m) \<Longrightarrow> distinct (map fst (appendTo k v m))"
  by (simp add: appendTo_def distinct_update)

lemma inMap_fold [simp]:
  "inMap (fold (\<lambda>k. appendTo k v) ks m) k' v' \<longleftrightarrow> k' \<in> set ks \<and> v' = v \<or> inMap m k' v'"
  by (induction ks arbitrary: m) auto

lemma distinct_fold_appendTo [simp]:
  "distinct (map fst m) \<Longrightarrow> distinct (map fst (fold (\<lambda>k. appendTo k v) ks m))"
  by (induction ks arbitrary: m) auto

definition full :: "('k \<times> 'v list) list \<Rightarrow> bool" where
  "full m \<longleftrightarrow> distinct (map fst m) \<and> (\<forall>(k, vs)\<in>set m. vs \<noteq> [])"

lemma full_appendTo: "full m \<Longrightarrow> full (appendTo k v m)"
  using in_AList_update [of m _ _ k] unfolding full_def appendTo_def by (fastforce simp: distinct_update)

lemma full_fold: "full m \<Longrightarrow> full (fold (\<lambda>k. appendTo k v) ks m)"
  by (induction ks arbitrary: m) (auto intro: full_appendTo)

lemma full_mem: "full m \<Longrightarrow> (k, vs) \<in> set m \<Longrightarrow> \<exists>v. inMap m k v"
  unfolding full_def inMap_def by (fastforce simp: neq_Nil_conv)

definition offers :: "env \<Rightarrow> snapshots \<Rightarrow> Variable list \<Rightarrow> varmap \<Rightarrow> (Entry \<Rightarrow> 'x list) \<Rightarrow> 'x \<Rightarrow> Identifier \<Rightarrow> bool" where
  "offers E c heap vars f x i \<longleftrightarrow> (\<exists>k a n op. (k, BRef a) \<in> set vars \<and> i = Identifier (heap ! a)
     \<and> opOf E c i = Some (Inr (n, op)) \<and> x \<in> set (f op))"

lemma offers_GVal: "offers E c heap ((k, GVal w) # vs) f x i = offers E c heap vs f x i"
  unfolding offers_def by (metis list.set_intros(2) prod.inject set_ConsD vref.distinct(1))

lemma offers_Inl:
  "opOf E c (Identifier (heap ! a)) = Some (Inl e)
   \<Longrightarrow> offers E c heap ((k, BRef a) # vs) f x i = offers E c heap vs f x i"
  unfolding offers_def by (metis Inl_Inr_False list.set_intros(2) option.inject prod.inject set_ConsD vref.inject(1))

lemma offers_Inr:
  assumes "opOf E c (Identifier (heap ! a)) = Some (Inr (n, op))"
  shows "offers E c heap ((k, BRef a) # vs) f x i \<longleftrightarrow> x \<in> set (f op) \<and> i = Identifier (heap ! a) \<or> offers E c heap vs f x i"
proof
  assume "offers E c heap ((k, BRef a) # vs) f x i"
  then obtain k' a' n' op' where o: "(k', BRef a') \<in> set ((k, BRef a) # vs)" "i = Identifier (heap ! a')"
      "opOf E c i = Some (Inr (n', op'))" "x \<in> set (f op')"
    unfolding offers_def by blast
  then show "x \<in> set (f op) \<and> i = Identifier (heap ! a) \<or> offers E c heap vs f x i"
    using assms unfolding offers_def by (cases "(k', BRef a') = (k, BRef a)") fastforce+
next
  assume "x \<in> set (f op) \<and> i = Identifier (heap ! a) \<or> offers E c heap vs f x i"
  then show "offers E c heap ((k, BRef a) # vs) f x i" using assms unfolding offers_def by fastforce
qed

lemma conflictsOf_correct:
  "conflictsOf E c heap vs (gm, pm) = Some (gm', pm') \<Longrightarrow> full gm \<Longrightarrow> full pm \<Longrightarrow>
   full gm' \<and> full pm' \<and> (\<forall>g i. inMap gm' g i \<longleftrightarrow> inMap gm g i \<or> offers E c heap vs (gvksOf E) g i)
   \<and> (\<forall>p i. inMap pm' p i \<longleftrightarrow> inMap pm p i \<or> offers E c heap vs (packagesOf E) p i)"
proof (induction vs arbitrary: gm pm)
  case Nil
  then show ?case by (simp add: offers_def)
next
  case (Cons kv vs)
  obtain k v where kv: "kv = (k, v)" by fastforce
  show ?case
  proof (cases v)
    case (GVal w)
    then show ?thesis using Cons kv by (simp add: offers_GVal)
  next
    case (BRef a)
    let ?i = "Identifier (heap ! a)"
    obtain r where r: "opOf E c ?i = Some r" using Cons.prems(1) kv BRef by (auto simp: Let_def bind_eq_Some_conv)
    show ?thesis
    proof (cases r)
      case (Inl e)
      then have "conflictsOf E c heap vs (gm, pm) = Some (gm', pm')" using Cons.prems(1) kv BRef r by (simp add: Let_def)
      from Cons.IH [OF this Cons.prems(2,3)] show ?thesis using kv BRef r Inl by (simp add: offers_Inl)
    next
      case (Inr no)
      obtain n op where no: "no = (n, op)" by fastforce
      have "conflictsOf E c heap vs (fold (\<lambda>gvk. appendTo gvk ?i) (gvksOf E op) gm, fold (\<lambda>p. appendTo p ?i) (packagesOf E op) pm)
          = Some (gm', pm')"
        using Cons.prems(1) kv BRef r Inr no by (simp add: Let_def)
      from Cons.IH [OF this full_fold [OF Cons.prems(2)] full_fold [OF Cons.prems(3)]]
      show ?thesis using kv BRef r Inr no by (simp add: offers_Inr) blast
    qed
  qed
qed

lemma Identifier_NewSingle [simp]:
  "Identifier (NewSinglePackageInstanceVariable p is) = p"
  "Identifier (NewSingleAPIProviderVariable g v k is) = apiProviderID g v k"
  by (simp_all add: NewSinglePackageInstanceVariable_def NewSingleAPIProviderVariable_def Let_def)

lemma map_of_addVar: "map_of (addVar v vars) = (map_of vars)(Identifier v \<mapsto> GVal v)"
  by (simp add: addVar_def update_conv')

text \<open>A series of variables with different identifiers ends up in the map, and nothing else changes.\<close>

lemma map_of_addVars:
  "distinct (map (Identifier \<circ> f) xs) \<Longrightarrow> map_of (fold (\<lambda>x. addVar (f x)) xs vars) j
    = (case find (\<lambda>x. Identifier (f x) = j) xs of Some x \<Rightarrow> Some (GVal (f x)) | None \<Rightarrow> map_of vars j)"
proof (induction xs arbitrary: vars)
  case (Cons x xs)
  have "find (\<lambda>y. Identifier (f y) = Identifier (f x)) xs = None"
    using Cons.prems unfolding find_None_iff by (simp, metis image_eqI)
  then show ?case using Cons by (auto simp: map_of_addVar split: option.splits)
qed simp

lemma map_of_addVars_in:
  assumes "distinct (map (Identifier \<circ> f) xs)" "x \<in> set xs"
  shows "map_of (fold (\<lambda>x. addVar (f x)) xs vars) (Identifier (f x)) = Some (GVal (f x))"
proof -
  obtain y where y: "find (\<lambda>y. Identifier (f y) = Identifier (f x)) xs = Some y" "y \<in> set xs" "Identifier (f y) = Identifier (f x)"
    using assms(2) by (cases "find (\<lambda>y. Identifier (f y) = Identifier (f x)) xs") (auto simp: find_None_iff find_Some_iff)
  then have "y = x" using assms by (auto simp: distinct_map inj_on_def)
  then show ?thesis using y(1) by (simp add: map_of_addVars [OF assms(1)])
qed

lemma map_of_addVars_out:
  assumes "distinct (map (Identifier \<circ> f) xs)" "j \<notin> Identifier ` f ` set xs"
  shows "map_of (fold (\<lambda>x. addVar (f x)) xs vars) j = map_of vars j"
proof -
  have "find (\<lambda>x. Identifier (f x) = j) xs = None" using assms(2) by (auto simp: find_None_iff)
  then show ?thesis by (simp add: map_of_addVars [OF assms(1)])
qed

lemma split_unique: "a @ c # r = a' @ c # r' \<Longrightarrow> c \<notin> set a \<Longrightarrow> c \<notin> set a' \<Longrightarrow> a = a' \<and> r = r'"
proof (induction a arbitrary: a')
  case Nil
  then show ?case by (cases a') auto
next
  case (Cons x a)
  then show ?case by (cases a') auto
qed

lemma apiProviderID_inj:
  assumes "CHR '' '' \<notin> set k" "CHR '' '' \<notin> set k'" "CHR ''/'' \<notin> set g" "CHR ''/'' \<notin> set g'"
    and "apiProviderID g v k = apiProviderID g' v' k'"
  shows "(g, v, k) = (g', v', k')"
proof -
  have "k = k' \<and> CHR ''('' # g @ ''/'' @ v @ '')'' = CHR ''('' # g' @ ''/'' @ v' @ '')''"
    using assms(5) by (intro split_unique [of _ "CHR '' ''"] assms(1,2)) (simp add: apiProviderID_def)
  then show ?thesis using split_unique [of g "CHR ''/''" "v @ '')''" g' "v' @ '')''"] assms(3,4) by auto
qed

text \<open>Names as the cluster allows them: no space in a kind or a package, no slash in an API group.\<close>

definition plainNames :: "env \<Rightarrow> snapshots \<Rightarrow> bool" where
  "plainNames E c \<longleftrightarrow> (\<forall>e\<in>cacheEntries c. (\<forall>(g, v, k)\<in>set (gvksOf E e). CHR '' '' \<notin> set k \<and> CHR ''/'' \<notin> set g)
     \<and> (\<forall>p\<in>set (packagesOf E e). CHR '' '' \<notin> set p))"

lemma Find_entries:
  assumes "cache_ok E c" "Find (e_J E) (e_srt E) (Catalog c k) ps n = Some (es, n')"
  shows "set es \<subseteq> cacheEntries c"
proof -
  consider "Catalog c k = NamespacedOperatorCache c" | h where "Catalog c k = snapshotFinder h" "(k, h) \<in> set c"
    | "Catalog c k = EmptyOperatorFinder"
    by (cases "SourceKey_Empty k"; cases "map_of c k") (auto simp: Catalog_def dest: map_of_SomeD)
  then show ?thesis
  proof cases
    case 1
    then show ?thesis using assms(2) FindPreferred_total [OF assms(1), of None "[]" ps n] by auto
  next
    case (2 h)
    have h: "set (entriesOf h) \<subseteq> cacheEntries c" using 2(2) by (force simp: cacheEntries_def)
    have "\<forall>e\<in>set (entriesOf h). E_SourceInfo e \<noteq> None" using h cacheEntries_sourced [OF assms(1)] by blast
    from Filter_sat [OF this, of "e_J E" ps n] show ?thesis
      using assms(2) 2(1) h by (fastforce simp: sh_Find_def entriesOf_def split: option.splits)
  qed (use assms(2) in auto)
qed

lemma opOf_entries: "cache_ok E c \<Longrightarrow> opOf E c i = Some (Inr (n, op)) \<Longrightarrow> op \<in> cacheEntries c"
proof -
  assume c: "cache_ok E c" and o: "opOf E c i = Some (Inr (n, op))"
  obtain csv ch k where b: "BundleSourceInfo i = Inr (csv, ch, k)"
    using o by (auto simp: opOf_def split: sum.splits)
  then obtain es s where f: "Find (e_J E) (e_srt E) (Catalog c k) [csvNamePredicate csv, channelPredicate ch] (\<lambda>_. 0) = Some (es, s)"
      "(case ExactlyOne es of Inl e \<Rightarrow> Some (Inl (cacheError e)) | Inr op \<Rightarrow> Some (Inr (csv, op))) = Some (Inr (n, op))"
    using o by (auto simp: opOf_def bind_eq_Some_conv)
  then have "ExactlyOne es = Inr op" by (cases "ExactlyOne es") auto
  with f(1) show ?thesis using Find_entries [OF c] by (force simp: ExactlyOne_def split: if_splits)
qed

lemma Identifier_packageVariable [simp]: "Identifier (packageVariable x) = fst x"
  by (cases x) (simp add: packageVariable_def)

lemma Identifier_apiVariable [simp]: "Identifier (apiVariable x) = (case fst x of (g, v, k) \<Rightarrow> apiProviderID g v k)"
  by (cases x) (auto simp: apiVariable_def)

lemma addInvariants_parts:
  assumes "ordered R" "addInvariants E R c heap vars = Some vars'"
  obtains gm pm where
    "vars' = fold (\<lambda>x. addVar (packageVariable x)) pm (fold (\<lambda>x. addVar (apiVariable x)) gm vars)"
    "full gm" "full pm" "\<And>g j. inMap gm g j \<longleftrightarrow> offers E c heap vars (gvksOf E) g j"
    "\<And>p j. inMap pm p j \<longleftrightarrow> offers E c heap vars (packagesOf E) p j"
proof -
  obtain gm pm where m: "conflictsOf E c heap (o_vars R vars) ([], []) = Some (gm, pm)"
      "vars' = fold (\<lambda>x. addVar (packageVariable x)) (o_pkgs R pm) (fold (\<lambda>x. addVar (apiVariable x)) (o_gvks R gm) vars)"
    using assms(2) by (auto simp: addInvariants_def)
  have vs: "set (o_vars R vars) = set vars" using ordered_set(2) [OF assms(1)] .
  have c: "full gm \<and> full pm \<and> (\<forall>g i. inMap gm g i \<longleftrightarrow> offers E c heap (o_vars R vars) (gvksOf E) g i)
      \<and> (\<forall>p i. inMap pm p i \<longleftrightarrow> offers E c heap (o_vars R vars) (packagesOf E) p i)"
    using conflictsOf_correct [OF m(1)] by (simp add: full_def)
  have perm: "full m' \<and> map_of m' = map_of m" if "mset m' = mset m" "full m" for m m' :: "('k \<times> 'v list) list"
  proof -
    have d: "distinct (map fst m)" "distinct (map fst m')"
      using that by (auto simp: full_def) (metis mset_eq_imp_distinct_iff mset_map)
    moreover have "set m' = set m" using that(1) by (rule mset_eq_setD)
    ultimately have "map_of m' = map_of m" by (metis map_of_inject_set)
    then show ?thesis using d \<open>set m' = set m\<close> that(2) by (simp add: full_def)
  qed
  have g: "full (o_gvks R gm) \<and> map_of (o_gvks R gm) = map_of gm"
    using perm [of "o_gvks R gm" gm] c assms(1) by (simp add: ordered_def)
  have p: "full (o_pkgs R pm) \<and> map_of (o_pkgs R pm) = map_of pm"
    using perm [of "o_pkgs R pm" pm] c assms(1) by (simp add: ordered_def)
  have "inMap (o_gvks R gm) x j \<longleftrightarrow> offers E c heap vars (gvksOf E) x j" for x j
    using g c vs by (cases x) (simp add: inMap_def offers_def)
  moreover have "inMap (o_pkgs R pm) x j \<longleftrightarrow> offers E c heap vars (packagesOf E) x j" for x j
    using p c vs by (simp add: inMap_def offers_def)
  ultimately show thesis using m(2) g p by (intro that) blast+
qed

text \<open>In a solution, two identifiers that offer the same package are the same.\<close>

lemma unique_package:
  assumes "ordered R" "addInvariants E R c heap vars = Some vars'"
    and "solution_ok (map (deref heap \<circ> snd) (o_vars R vars')) S"
    and "offers E c heap vars (packagesOf E) p i" "offers E c heap vars (packagesOf E) p j" "i \<in> S" "j \<in> S"
  shows "i = j"
proof -
  obtain gm pm where m: "vars' = fold (\<lambda>x. addVar (packageVariable x)) pm (fold (\<lambda>x. addVar (apiVariable x)) gm vars)"
    "full pm" "\<And>p j. inMap pm p j \<longleftrightarrow> offers E c heap vars (packagesOf E) p j"
    using addInvariants_parts [OF assms(1,2)] by metis
  obtain ids where ids: "(p, ids) \<in> set pm" "i \<in> set ids" "j \<in> set ids"
    using m(3) [of p i] m(3) [of p j] assms(4,5) unfolding inMap_def by (metis map_of_SomeD option.inject)
  have "map_of vars' p = Some (GVal (packageVariable (p, ids)))"
    using map_of_addVars_in [of packageVariable pm "(p, ids)"] ids(1) m(1,2) by (simp add: comp_def full_def)
  then have "NewSinglePackageInstanceVariable p ids \<in> set (map (deref heap \<circ> snd) (o_vars R vars'))"
    using ordered_set(2) [OF assms(1)] by (force dest: map_of_SomeD simp: packageVariable_def image_iff)
  then have "solution_ok [NewSinglePackageInstanceVariable p ids] S" using assms(3) solution_ok_mem by blast
  then show ?thesis using single_package ids(2,3) assms(6,7) by blast
qed

lemma unique_api:
  assumes "ordered R" "addInvariants E R c heap vars = Some vars'" "cache_ok E c" "plainNames E c"
    and "solution_ok (map (deref heap \<circ> snd) (o_vars R vars')) S"
    and "offers E c heap vars (gvksOf E) x i" "offers E c heap vars (gvksOf E) x j" "i \<in> S" "j \<in> S"
  shows "i = j"
proof -
  obtain gm pm where m: "vars' = fold (\<lambda>x. addVar (packageVariable x)) pm (fold (\<lambda>x. addVar (apiVariable x)) gm vars)"
    "full gm" "full pm" "\<And>g j. inMap gm g j \<longleftrightarrow> offers E c heap vars (gvksOf E) g j"
    "\<And>p j. inMap pm p j \<longleftrightarrow> offers E c heap vars (packagesOf E) p j"
    using addInvariants_parts [OF assms(1,2)] by metis
  have plain: "CHR '' '' \<notin> set k \<and> CHR ''/'' \<notin> set g" if mem: "((g, v, k), vs) \<in> set gm" for g v k vs
  proof -
    obtain w where "offers E c heap vars (gvksOf E) (g, v, k) w" using full_mem [OF m(2) mem] m(4) by blast
    then show ?thesis using opOf_entries [OF assms(3)] assms(4) unfolding offers_def plainNames_def by fast
  qed
  have nospace: "CHR '' '' \<notin> set q" if mem: "(q, vs) \<in> set pm" for q vs
  proof -
    obtain w where "offers E c heap vars (packagesOf E) q w" using full_mem [OF m(3) mem] m(5) by blast
    then show ?thesis using opOf_entries [OF assms(3)] assms(4) unfolding offers_def plainNames_def by blast
  qed
  obtain g v k where x: "x = (g, v, k)" using prod_cases3 by blast
  obtain ids where ids: "(x, ids) \<in> set gm" "i \<in> set ids" "j \<in> set ids"
    using m(4) [of x i] m(4) [of x j] assms(6,7) unfolding inMap_def by (metis map_of_SomeD option.inject)
  have "inj_on (Identifier \<circ> apiVariable) (set gm)"
  proof (rule inj_onI)
    fix y z assume yz: "y \<in> set gm" "z \<in> set gm" "(Identifier \<circ> apiVariable) y = (Identifier \<circ> apiVariable) z"
    obtain g v k vs g' v' k' vs' where e: "y = ((g, v, k), vs)" "z = ((g', v', k'), vs')" by (metis prod_cases4 prod.collapse)
    then have "fst y = fst z" using apiProviderID_inj [of k k' g g' v v'] yz plain by auto
    then show "y = z" using yz(1,2) m(2) unfolding full_def by (metis (no_types) distinct_map inj_onD)
  qed
  moreover have "distinct gm" using m(2) by (simp add: full_def distinct_map)
  ultimately have "distinct (map (Identifier \<circ> apiVariable) gm)" by (simp add: distinct_map)
  from map_of_addVars_in [OF this ids(1)]
  have 1: "map_of (fold (\<lambda>x. addVar (apiVariable x)) gm vars) (apiProviderID g v k) = Some (GVal (apiVariable (x, ids)))"
    by (simp add: x)
  have "apiProviderID g v k \<notin> Identifier ` packageVariable ` set pm"
    using nospace by (fastforce simp: apiProviderID_def)
  then have "map_of vars' (apiProviderID g v k) = Some (GVal (apiVariable (x, ids)))"
    using map_of_addVars_out [of packageVariable pm] m(1,3) 1 by (simp add: comp_def full_def)
  then have "NewSingleAPIProviderVariable g v k ids \<in> set (map (deref heap \<circ> snd) (o_vars R vars'))"
    using ordered_set(2) [OF assms(1)] by (force dest: map_of_SomeD simp: apiVariable_def x image_iff)
  then have "solution_ok [NewSingleAPIProviderVariable g v k ids] S" using assms(5) solution_ok_mem by blast
  then show ?thesis using single_provider ids(2,3) assms(8,9) by blast
qed

section \<open>The map of variables during a resolution\<close>

lemma visitBundle_heapExt:
  assumes "cache_ok E c" "visitBundle E c ns b st = Some st'"
  shows "heapExt (b_heap st) (b_heap st')"
proof -
  have "heapExt (b_heap st1) (b_heap st2)" if "addDependencies E c ns b si a ds st1 = Some st2" for si a ds st1 st2
    using addDependencies_total [OF assms(1), of ns b si a ds st1] that by (auto simp: bgrows_def)
  then show ?thesis
    using assms(2) heapExt_trans [OF heapExt_append]
    by (fastforce simp: visitBundle_def Let_def split: option.splits sum.splits)
qed

lemma bundleLoop_heapExt:
  assumes c: "cache_ok E c" and r: "bundleLoop E c ns st = Some st'"
  shows "heapExt (b_heap st) (b_heap st')"
proof -
  let ?P = "\<lambda>E' c' ns' st st'. E' = E \<and> c' = c \<longrightarrow> heapExt (b_heap st) (b_heap st')"
  have "?P E c ns st st'"
  proof (rule bundleLoop.raw_induct [where P = ?P, OF _ r], goal_cases)
    case (1 f E' c' ns' st st')
    show ?case
    proof (cases "b_stack st")
      case (Cons b rest)
      show ?thesis
      proof (intro impI, elim conjE)
        assume "E' = E" "c' = c"
        then obtain st1 where st1: "visitBundle E c ns' b (st\<lparr>b_stack := rest\<rparr>) = Some st1" "f E c ns' st1 = Some st'"
          using 1(2) Cons by (auto simp: bind_eq_Some_conv)
        show "heapExt (b_heap st) (b_heap st')"
          using visitBundle_heapExt [OF c st1(1)] 1(1) [OF st1(2)] heapExt_trans by force
      qed
    qed (use 1(2) in auto)
  qed
  then show ?thesis by blast
qed

lemma getBundleVariables_heapExt:
  "cache_ok E c \<Longrightarrow> getBundleVariables E c ns bs heap visited = Some (r, heap', visited') \<Longrightarrow> heapExt heap heap'"
  by (auto simp: getBundleVariables_def dest!: bundleLoop_heapExt)

definition keyed :: "Variable list \<Rightarrow> varmap \<Rightarrow> bool" where
  "keyed heap vars \<longleftrightarrow> distinct (map fst vars)
     \<and> (\<forall>(k, v)\<in>set vars. Identifier (deref heap v) = k \<and> (case v of BRef a \<Rightarrow> a < length heap | GVal w \<Rightarrow> \<not> isBundle w))"

text \<open>What every step of a resolution keeps: \<open>K\<close> is not restricted here.\<close>

definition resolving :: "env \<Rightarrow> snapshots \<Rightarrow> Entry set \<Rightarrow> Variable list \<Rightarrow> (nat \<times> nat) list \<Rightarrow> varmap \<Rightarrow> bool" where
  "resolving E c U heap visited vars \<longleftrightarrow> collected E c UNIV U heap visited \<and> keyed heap vars"

lemma keyed_heapExt: "keyed heap vars \<Longrightarrow> heapExt heap heap' \<Longrightarrow> keyed heap' vars"
  unfolding keyed_def heapExt_def by (fastforce split: vref.splits)

lemma keyed_update:
  assumes "keyed heap vars" "Identifier (deref heap v) = k" "case v of BRef a \<Rightarrow> a < length heap | GVal w \<Rightarrow> \<not> isBundle w"
  shows "keyed heap (AList.update k v vars)"
proof -
  have d: "distinct (map fst vars)" using assms(1) by (simp add: keyed_def)
  have "Identifier (deref heap v') = k' \<and> (case v' of BRef a \<Rightarrow> a < length heap | GVal w \<Rightarrow> \<not> isBundle w)"
    if "(k', v') \<in> set (AList.update k v vars)" for k' v'
    using in_AList_update [OF d that] assms by (auto simp: keyed_def)
  then show ?thesis using d by (auto simp: keyed_def distinct_update)
qed

lemma keyed_bundles:
  "keyed heap vars \<Longrightarrow> \<forall>(i, a)\<in>set fs. a < length heap \<and> Identifier (heap ! a) = i
   \<Longrightarrow> keyed heap (fold (\<lambda>(i, a). AList.update i (BRef a)) fs vars)"
  by (induction fs arbitrary: vars) (auto simp: keyed_update)

lemma keyed_merge:
  "keyed heap vars \<Longrightarrow> \<forall>(k, v)\<in>set vs. Identifier (deref heap v) = k \<and> (case v of BRef a \<Rightarrow> a < length heap | GVal w \<Rightarrow> \<not> isBundle w)
   \<Longrightarrow> keyed heap (fold (\<lambda>(i, v). AList.update i v) vs vars)"
  by (induction vs arbitrary: vars) (auto simp: keyed_update)

text \<open>The assumptions on the cache and the environment of a resolution.\<close>

definition resolvable :: "env \<Rightarrow> mapOrders \<Rightarrow> snapshots \<Rightarrow> bool" where
  "resolvable E R c \<longleftrightarrow> cache_ok E c \<and> systemLocal E \<and> ordered R \<and> inj_on E_addr (cacheEntries c)"

abbreviation tracked :: "env \<Rightarrow> snapshots \<Rightarrow> Variable list \<Rightarrow> (nat \<times> nat) list \<Rightarrow> bool" where
  "tracked E c heap visited \<equiv> collected E c UNIV (cacheEntries c) heap visited"

lemma getBundleVariables_known:
  assumes "resolvable E R c" "tracked E c heap visited" "set bs \<subseteq> cacheEntries c"
    and "getBundleVariables E c ns bs heap visited = Some (Inr (ids, vars), heap', visited')"
  shows "tracked E c heap' visited' \<and> heapExt heap heap' \<and> (\<forall>(i, a)\<in>set vars. a < length heap' \<and> Identifier (heap' ! a) = i)"
  using getBundleVariables_collected [of E c "cacheEntries c" bs UNIV heap visited ns ids vars heap' visited']
    getBundleVariables_heapExt [of E c ns bs heap visited] assms
  by (auto simp: resolvable_def)

lemma known_heapExt:
  assumes "tracked E c heap visited" "heapExt heap heap'" "\<forall>v\<in>set heap'. isBundle v"
  shows "tracked E c heap' visited"
proof -
  let ?st = "\<lambda>h. \<lparr>b_heap = h, b_visited = visited, b_vars = [], b_stack = [], b_errs = []\<rparr>"
  have "visitedOk E c (cacheEntries c) None (?st heap')"
    by (rule visitedOk_mono [of "?st heap"]) (use assms in \<open>simp_all add: bgrows_def collected_def collecting_def\<close>)
  then show ?thesis using assms(3) by (simp add: collected_def collecting_def heapOk_def varsOk_def)
qed

lemma known_bundles: "tracked E c heap visited \<Longrightarrow> v \<in> set heap \<Longrightarrow> isBundle v"
  by (simp add: collected_def collecting_def heapOk_def)

lemma replacement_facts:
  "Identifier (AddConflict i (setReplaces name v)) = Identifier v
   \<and> set (Constraints v) \<subseteq> set (Constraints (AddConflict i (setReplaces name v)))
   \<and> isBundle (AddConflict i (setReplaces name v)) = isBundle v"
  by (cases v) auto

lemma markReplacement_facts:
  "heapExt heap (markReplacement name i a heap)"
  "\<forall>v\<in>set heap. isBundle v \<Longrightarrow> v \<in> set (markReplacement name i a heap) \<Longrightarrow> isBundle v"
proof -
  show "heapExt heap (markReplacement name i a heap)"
    using replacement_facts by (cases "a < length heap") (auto simp: heapExt_def markReplacement_def nth_list_update)
  assume b: "\<forall>v\<in>set heap. isBundle v" "v \<in> set (markReplacement name i a heap)"
  show "isBundle v"
  proof (cases "a < length heap")
    case True
    then show ?thesis using b replacement_facts subsetD [OF set_update_subset_insert b(2)[unfolded markReplacement_def]] by auto
  qed (use b in \<open>simp add: markReplacement_def list_update_beyond not_less\<close>)
qed

lemma markReplacements_facts:
  "\<forall>v\<in>set heap. isBundle v \<Longrightarrow> heapExt heap (fold (markReplacement name i) cands heap)
     \<and> (\<forall>v\<in>set (fold (markReplacement name i) cands heap). isBundle v)"
proof (induction cands arbitrary: heap)
  case (Cons a cands)
  have "\<forall>v\<in>set (markReplacement name i a heap). isBundle v" using markReplacement_facts(2) Cons.prems by blast
  from Cons.IH [OF this] show ?case using heapExt_trans [OF markReplacement_facts(1)] by auto
qed simp

lemma subCandidates_known:
  assumes "resolvable E R c"
  shows "\<lbrakk>subCandidates E R c sub preds os heap visited vars cands = Some (Inr (vars', cands'), heap', visited');
      tracked E c heap visited; keyed heap vars\<rbrakk>
    \<Longrightarrow> tracked E c heap' visited' \<and> heapExt heap heap' \<and> keyed heap' vars'"
proof (induction os arbitrary: heap visited vars cands)
  case (Cons o' os)
  obtain stack n where st: "Find (e_J E) (e_srt E) (Catalog c (subCatalog sub)) (preds @ [csvNamePredicate (E_Name o')]) (\<lambda>_. 0)
      = Some (stack, n)"
    using Cons.prems(1) by (auto simp: bind_eq_Some_conv)
  obtain r heap1 visited1 where g: "getBundleVariables E c (sub_Namespace sub) stack heap visited = Some (r, heap1, visited1)"
    using Cons.prems(1) st by (auto simp: bind_eq_Some_conv)
  obtain ids variable where r: "r = Inr (ids, variable)"
    using Cons.prems(1) st g by (cases r) auto
  have sub: "set stack \<subseteq> cacheEntries c" using Find_entries st assms unfolding resolvable_def by blast
  note k = getBundleVariables_known [OF assms Cons.prems(2) sub g[unfolded r]]
  let ?vars = "fold (\<lambda>(i, a). AList.update i (BRef a)) (o_bundles R variable) vars"
  have "keyed heap1 ?vars"
    using keyed_bundles [of heap1 vars "o_bundles R variable"] keyed_heapExt [OF Cons.prems(3)] k
      ordered_set(1) [of R variable] assms by (auto simp: resolvable_def)
  moreover obtain cands1 where "subCandidates E R c sub preds os heap1 visited1 ?vars cands1 = Some (Inr (vars', cands'), heap', visited')"
    using Cons.prems(1) st g r by (auto simp: Let_def split: if_splits)
  ultimately show ?case using Cons.IH [of heap1 visited1 ?vars cands1] k heapExt_trans by blast
qed simp

lemma subscriptionVariable_facts [simp]:
  "Identifier (NewSubscriptionVariable n ds) = subscriptionID n" "\<not> isBundle (NewSubscriptionVariable n ds)"
  "Identifier (NewInvalidSubscriptionVariable n r) = subscriptionID n" "\<not> isBundle (NewInvalidSubscriptionVariable n r)"
  by (simp_all add: NewSubscriptionVariable_def NewInvalidSubscriptionVariable_def Let_def)

lemma finishSubscription_known:
  assumes "tracked E c heap visited" "keyed heap vars" "finishSubscription sub current vars cands heap = (vars', heap')"
  shows "tracked E c heap' visited \<and> heapExt heap heap' \<and> keyed heap' vars'"
proof -
  have b: "\<forall>v\<in>set heap. isBundle v" using known_bundles [OF assms(1)] by blast
  have h: "heapExt heap heap' \<and> (\<forall>v\<in>set heap'. isBundle v)"
    using assms(3) markReplacements_facts [OF b] b by (auto simp: finishSubscription_def Let_def split: option.splits)
  obtain ds where "vars' = AList.update (subscriptionID (sub_Name sub)) (GVal (NewSubscriptionVariable (sub_Name sub) ds)) vars"
    using assms(3) by (auto simp: finishSubscription_def Let_def)
  then have "keyed heap' vars'" using keyed_heapExt [OF assms(2)] h keyed_update [of heap' vars "GVal (NewSubscriptionVariable (sub_Name sub) ds)"] by simp
  then show ?thesis using known_heapExt [OF assms(1)] h by blast
qed

lemma getSubscriptionVariables_known:
  assumes "resolvable E R c" "tracked E c heap visited"
    and "getSubscriptionVariables E R c sub current heap visited = Some (Inr vars, heap', visited')"
  shows "tracked E c heap' visited' \<and> heapExt heap heap' \<and> keyed heap' vars"
proof -
  obtain chps entries n where f: "channelPredicates E current = Some chps"
      "Find (e_J E) (e_srt E) (Catalog c (subCatalog sub)) (cachePredicates sub current) (\<lambda>_. 0) = Some (entries, n)"
    using assms(3) by (auto simp: getSubscriptionVariables_def bind_eq_Some_conv)
  show ?thesis
  proof (cases "invalidReason sub n")
    case (Some reason)
    then show ?thesis using assms f by (auto simp: getSubscriptionVariables_def keyed_def)
  next
    case None
    obtain sb where sb: "sortRuns [] [] (SliceStable lessEntry entries) = Inr sb"
      using assms(3) f None by (cases "sortRuns [] [] (SliceStable lessEntry entries)") (auto simp: getSubscriptionVariables_def)
    obtain os n2 where os: "Filter (e_J E) sb chps (\<lambda>_. 0) = Some (os, n2)"
      using assms(3) f None sb by (auto simp: getSubscriptionVariables_def bind_eq_Some_conv)
    obtain r h vis where r: "subCandidates E R c sub (cachePredicates sub current) os heap visited [] [] = Some (r, h, vis)"
      using assms(3) f None sb os by (auto simp: getSubscriptionVariables_def bind_eq_Some_conv)
    obtain vs cands where vs: "r = Inr (vs, cands)"
      using assms(3) f None sb os r by (cases r) (auto simp: getSubscriptionVariables_def)
    have e: "finishSubscription sub current vs cands h = (vars, heap')" "visited' = vis"
      using assms(3) f None sb os r vs by (auto simp: getSubscriptionVariables_def split: prod.splits)
    have "keyed heap []" by (simp add: keyed_def)
    then have k: "tracked E c h vis" "heapExt heap h" "keyed h vs"
      using subCandidates_known [OF assms(1) r[unfolded vs] assms(2)] by auto
    show ?thesis using finishSubscription_known [OF k(1,3) e(1)] k(2) e(2) heapExt_trans by blast
  qed
qed

lemma addSubscription_known:
  assumes "resolvable E R c" "addSubscription E R c sub st = Some (Inr st')" "r_errs st' = []"
  shows "r_errs st = [] \<and> (resolving E c (cacheEntries c) (r_heap st) (r_visited st) (r_vars st)
    \<longrightarrow> resolving E c (cacheEntries c) (r_heap st') (r_visited st') (r_vars st'))"
proof -
  obtain current st1 r heap visited where g:
      "getSubscriptionVariables E R c sub current (r_heap st) (r_visited st) = Some (r, heap, visited)"
      "st1 = st \<or> st1 = st\<lparr>r_startingCSVs := sub_StartingCSV sub # r_startingCSVs st\<rparr>"
      "st' = mergeVariables R (r, heap, visited) st1"
    using assms(2) unfolding addSubscription_def Let_def
    by (fastforce simp: bind_eq_Some_conv split: if_splits)
  obtain vs where vs: "r = Inr vs" using g(3) assms(3) by (cases r) (auto simp: mergeVariables_def)
  then have st': "st' = st1\<lparr>r_heap := heap, r_visited := visited,
      r_vars := fold (\<lambda>(i, v). AList.update i v) (o_vars R vs) (r_vars st1)\<rparr>" using g(3) by (simp add: mergeVariables_def)
  have "resolving E c (cacheEntries c) heap visited (r_vars st')"
    if "tracked E c (r_heap st) (r_visited st)" "keyed (r_heap st) (r_vars st1)"
  proof -
    have k: "tracked E c heap visited" "heapExt (r_heap st) heap" "keyed heap vs"
      using getSubscriptionVariables_known [OF assms(1) that(1) g(1)[unfolded vs]] by auto
    have "set (o_vars R vs) = set vs" using ordered_set(2) assms(1) by (auto simp: resolvable_def)
    then have "keyed heap (r_vars st')"
      using keyed_merge [OF keyed_heapExt [OF that(2) k(2)], of "o_vars R vs"] k(3) st' by (simp add: keyed_def)
    then show ?thesis using k(1) by (simp add: resolving_def)
  qed
  then show ?thesis using g(2) st' assms(3) by (auto simp: resolving_def)
qed

lemma addSubscriptions_known:
  assumes "resolvable E R c"
  shows "addSubscriptions E R c subs st = Some (Inr st') \<Longrightarrow> r_errs st' = []
    \<Longrightarrow> r_errs st = [] \<and> (resolving E c (cacheEntries c) (r_heap st) (r_visited st) (r_vars st)
    \<longrightarrow> resolving E c (cacheEntries c) (r_heap st') (r_visited st') (r_vars st'))"
proof (induction subs arbitrary: st)
  case (Cons sub subs)
  obtain r where r: "addSubscription E R c sub st = Some r" using Cons.prems(1) by (auto simp: bind_eq_Some_conv)
  then obtain st1 where "r = Inr st1" "addSubscriptions E R c subs st1 = Some (Inr st')"
    using Cons.prems(1) by (cases r) auto
  with r show ?case using Cons.IH [of st1] Cons.prems(2) addSubscription_known [OF assms, of sub st st1] by blast
qed simp

section \<open>No two operators of the result share a package or an API\<close>

fun isNew :: "Variable \<Rightarrow> bool" where
  "isNew (BundleVariable i cs r) = (case BundleSourceInfo i of Inr (_, _, k) \<Rightarrow> \<not> Virtual k | Inl _ \<Rightarrow> False)"
| "isNew _ = False"

lemma operatorVariables_spec: "operatorVariables vs = Inr ovs \<Longrightarrow> ovs = filter isNew vs"
proof (induction vs arbitrary: ovs)
  case (Cons v vs)
  then show ?case by (cases v) (auto simp: bind_err_eq_Inr split: sum.splits if_splits)
qed simp

lemma isNew_isBundle: "isNew v \<Longrightarrow> isBundle v"
  by (cases v) auto

lemma collectOperators_spec:
  "collectOperators E c starting vs es ops = Some ([], ops') \<Longrightarrow> \<exists>new. ops' = ops @ new \<and> es = []
    \<and> list_all2 (\<lambda>v op'. \<exists>n op. opOf E c (Identifier v) = Some (Inr (n, op)) \<and> op' = copyEntry starting n (variableReplaces v) op) vs new"
proof (induction vs arbitrary: es ops)
  case (Cons v vs)
  obtain r where r: "opOf E c (Identifier v) = Some r" using Cons.prems by (auto simp: bind_eq_Some_conv)
  show ?case
  proof (cases r)
    case (Inl e)
    then show ?thesis using Cons.IH [of "es @ [e]" ops] Cons.prems r by auto
  next
    case (Inr no)
    obtain n op where no: "no = (n, op)" by fastforce
    let ?new = "copyEntry starting n (variableReplaces v) op"
    have "collectOperators E c starting vs es (ops @ [?new]) = Some ([], ops')"
      using Cons.prems r Inr no by (auto split: if_splits)
    from Cons.IH [OF this] obtain new where "ops' = ops @ ?new # new" "es = []"
        "list_all2 (\<lambda>v op'. \<exists>n op. opOf E c (Identifier v) = Some (Inr (n, op)) \<and> op' = copyEntry starting n (variableReplaces v) op) vs new"
      by auto
    then show ?thesis using r Inr no by (intro exI [of _ "?new # new"]) auto
  qed
qed simp

lemma copyEntry_properties [simp]:
  "packagesOf E (copyEntry st n r op) = packagesOf E op" "gvksOf E (copyEntry st n r op) = gvksOf E op"
  by (simp_all add: copyEntry_def packagesOf_def gvksOf_def)

lemma finishResolve_spec:
  assumes "finishResolve E c starting solved = Some (Inr ops)"
  shows "list_all2 (\<lambda>v op'. \<exists>n op. opOf E c (Identifier v) = Some (Inr (n, op))
    \<and> op' = copyEntry starting n (variableReplaces v) op) (filter isNew solved) ops"
proof -
  obtain vs where vs: "operatorVariables solved = Inr vs" using assms by (auto simp: finishResolve_def split: sum.splits)
  then have "collectOperators E c starting vs [] [] = Some ([], ops)"
    using assms by (auto simp: finishResolve_def split: if_splits)
  from collectOperators_spec [OF this] show ?thesis using operatorVariables_spec [OF vs] by simp
qed

lemma keyed_addVars:
  "keyed heap vars \<Longrightarrow> (\<And>x. \<not> isBundle (f x)) \<Longrightarrow> keyed heap (fold (\<lambda>x. addVar (f x)) xs vars)"
  by (induction xs arbitrary: vars) (auto simp: addVar_def keyed_update)

lemma BRef_addVars:
  assumes "distinct (map fst vars)" "(k, BRef a) \<in> set (fold (\<lambda>x. addVar (f x)) xs vars)"
  shows "(k, BRef a) \<in> set vars"
  using assms
proof (induction xs arbitrary: vars)
  case (Cons x xs)
  have "(k, BRef a) \<in> set (addVar (f x) vars)"
    using Cons by (simp add: addVar_def distinct_update)
  then show ?case using in_AList_update [OF Cons.prems(1), of k "BRef a"] by (auto simp: addVar_def)
qed simp

lemma keyed_distinct: 
  assumes "keyed heap vars" "mset vs = mset vars"
  shows "distinct (map Identifier (map (deref heap \<circ> snd) vs))"
proof -
  have s: "set vs = set vars" using assms(2) by (rule mset_eq_setD)
  have "map Identifier (map (deref heap \<circ> snd) vs) = map fst vs"
    using assms(1) s by (auto simp: keyed_def)
  moreover have "distinct (map fst vs)" using assms mset_eq_imp_distinct_iff [of "map fst vs" "map fst vars"]
    by (simp add: keyed_def)
  ultimately show ?thesis by (simp only:)
qed

lemma not_isBundle_single [simp]: "\<not> isBundle (packageVariable x)" "\<not> isBundle (apiVariable y)"
  by (auto simp: packageVariable_def apiVariable_def NewSinglePackageInstanceVariable_def
      NewSingleAPIProviderVariable_def Let_def split: prod.splits)

text \<open>The solved input of a successful resolution.\<close>

lemma Resolve_solved:
  assumes "resolvable E R c" "Resolve E R c G s0 namespaces subs = Some (Inr ops)"
  obtains heap vars vars' solved where "keyed heap vars" "addInvariants E R c heap vars = Some vars'"
    "solveInput G s0 (map (deref heap \<circ> snd) (o_vars R vars')) = Some (Inr solved)"
    "list_all2 (\<lambda>v op'. \<exists>n op s. opOf E c (Identifier v) = Some (Inr (n, op))
       \<and> op' = copyEntry s n (variableReplaces v) op) (filter isNew solved) ops"
proof -
  obtain ns rest where ns: "namespaces = ns # rest" using assms(2) by (cases namespaces) (auto simp: Resolve_def)
  obtain es n where f: "Find (e_J E) (e_srt E) (Catalog c (NewVirtualSourceKey ns)) [booleanPredicate True] (\<lambda>_. 0) = Some (es, n)"
    using assms(2) ns by (auto simp: Resolve_def bind_eq_Some_conv)
  obtain r heap visited where g: "getBundleVariables E c ns es [] [] = Some (r, heap, visited)"
    using assms(2) ns f by (auto simp: Resolve_def bind_eq_Some_conv)
  obtain ids vs where r: "r = Inr (ids, vs)" using assms(2) ns f g by (cases r) (auto simp: Resolve_def)
  have sub: "set es \<subseteq> cacheEntries c" using Find_entries f assms(1) unfolding resolvable_def by blast
  have "tracked E c [] []" by (simp add: collected_def collecting_def heapOk_def varsOk_def visitedOk_def)
  note k = getBundleVariables_known [OF assms(1) this sub g[unfolded r]]
  let ?st = "\<lparr>r_heap = heap, r_visited = visited,
     r_vars = fold (\<lambda>(i, a). AList.update i (BRef a)) (o_bundles R vs) [], r_startingCSVs = [], r_errs = []\<rparr>"
  have "set (o_bundles R vs) = set vs" using ordered_set(1) assms(1) by (auto simp: resolvable_def)
  then have "keyed heap (r_vars ?st)" using keyed_bundles [of heap "[]" "o_bundles R vs"] k by (simp add: keyed_def)
  then have 0: "resolving E c (cacheEntries c) (r_heap ?st) (r_visited ?st) (r_vars ?st)"
    using k by (simp add: resolving_def)
  obtain r2 where r2: "addSubscriptions E R c subs ?st = Some r2"
    using assms(2) ns f g r by (auto simp: Resolve_def bind_eq_Some_conv)
  obtain st where st: "r2 = Inr st" "solveVariables E R c G s0 st = Some (Inr ops)"
    using assms(2) ns f g r r2 by (cases r2) (auto simp: Resolve_def)
  obtain vars' where v: "addInvariants E R c (r_heap st) (r_vars st) = Some vars'" "r_errs st = []"
      "Cache_Error c = None"
    using st(2) by (auto simp: solveVariables_def bind_eq_Some_conv split: option.splits if_splits)
  obtain x where x: "solveInput G s0 (map (deref (r_heap st) \<circ> snd) (o_vars R vars')) = Some x"
    using st(2) v by (auto simp: solveVariables_def bind_eq_Some_conv)
  obtain solved where solved: "x = Inr solved" "finishResolve E c (r_startingCSVs st) solved = Some (Inr ops)"
    using st(2) v x by (cases x) (auto simp: solveVariables_def)
  have "keyed (r_heap st) (r_vars st)"
    using addSubscriptions_known [OF assms(1) r2[unfolded st(1)] v(2)] 0 by (simp add: resolving_def)
  moreover have "list_all2 (\<lambda>v op'. \<exists>n op s. opOf E c (Identifier v) = Some (Inr (n, op))
       \<and> op' = copyEntry s n (variableReplaces v) op) (filter isNew solved) ops"
    by (rule list_all2_mono [OF finishResolve_spec [OF solved(2)]]) blast
  ultimately show thesis using that v(1) x solved(1) by blast
qed

lemma Resolve_offers:
  assumes "resolvable E R c" "keyed heap vars" "addInvariants E R c heap vars = Some vars'"
    and "v \<in> set (map (deref heap \<circ> snd) (o_vars R vars'))" "isNew v"
    and "opOf E c (Identifier v) = Some (Inr (n, op))" "x \<in> set (f op)"
  shows "offers E c heap vars f x (Identifier v)"
proof -
  obtain gm pm where m: "vars' = fold (\<lambda>x. addVar (packageVariable x)) pm (fold (\<lambda>x. addVar (apiVariable x)) gm vars)"
    using addInvariants_parts [of R E c heap vars vars'] assms(1,3) unfolding resolvable_def by metis
  have k1: "keyed heap (fold (\<lambda>x. addVar (apiVariable x)) gm vars)" by (rule keyed_addVars [OF assms(2)]) simp
  have k2: "keyed heap vars'" unfolding m by (rule keyed_addVars [OF k1]) simp
  have "set (o_vars R vars') = set vars'" using assms(1) ordered_set(2) by (auto simp: resolvable_def)
  then obtain k w where w: "(k, w) \<in> set vars'" "v = deref heap w" using assms(4) by auto
  then obtain a where a: "w = BRef a"
    using k2 isNew_isBundle [OF assms(5)] by (cases w) (auto simp: keyed_def)
  have "(k, BRef a) \<in> set vars"
    using BRef_addVars [of vars k a apiVariable gm] BRef_addVars [of _ k a packageVariable pm] k1 assms(2) w(1) a
    unfolding m keyed_def by blast
  then show ?thesis unfolding offers_def using w(2) a assms(6,7) by auto
qed

lemma Resolve_distinct:
  assumes "resolvable E R c" "keyed heap vars" "addInvariants E R c heap vars = Some vars'"
  shows "distinct (map Identifier (map (deref heap \<circ> snd) (o_vars R vars')))"
proof -
  obtain gm pm where m: "vars' = fold (\<lambda>x. addVar (packageVariable x)) pm (fold (\<lambda>x. addVar (apiVariable x)) gm vars)"
    using addInvariants_parts [of R E c heap vars vars'] assms(1,3) unfolding resolvable_def by metis
  have "keyed heap vars'" unfolding m by (intro keyed_addVars assms(2)) simp_all
  then show ?thesis using keyed_distinct [of heap vars' "o_vars R vars'"] assms(1) by (simp add: resolvable_def ordered_def)
qed

lemma Resolve_offers_nth:
  assumes "resolvable E R c" "keyed heap vars" "addInvariants E R c heap vars = Some vars'"
    and "list_all2 (\<lambda>v op'. \<exists>n op s. opOf E c (Identifier v) = Some (Inr (n, op))
       \<and> op' = copyEntry s n (variableReplaces v) op) ws ops"
    and "a < length ops" "ws ! a \<in> set (map (deref heap \<circ> snd) (o_vars R vars'))" "isNew (ws ! a)"
    and "x \<in> set (f (ops ! a))" "\<And>s n r op. f (copyEntry s n r op) = f op"
  shows "offers E c heap vars f x (Identifier (ws ! a))"
proof -
  obtain n op s where "opOf E c (Identifier (ws ! a)) = Some (Inr (n, op))" "ops ! a = copyEntry s n (variableReplaces (ws ! a)) op"
    using list_all2_nthD2 [OF assms(4,5)] by blast
  then show ?thesis using Resolve_offers [OF assms(1-3,6,7)] assms(8,9) by metis
qed

text \<open>C6. A successful resolution never installs two operators that claim the same package, or
  that provide the same API: whatever the catalogs, the subscriptions and the order of the maps,
  two entries of the result with a common package or GVK property are one and the same entry.\<close>

theorem Resolve_unique:
  assumes "resolvable E R c" "plainNames E c"
    and "circuit_contract G cons known" "solver_contract G cons models scopes pending" "fresh models scopes pending s0"
    and "Resolve E R c G s0 namespaces subs = Some (Inr ops)" "i < length ops" "j < length ops"
    and "set (packagesOf E (ops ! i)) \<inter> set (packagesOf E (ops ! j)) \<noteq> {}
       \<or> set (gvksOf E (ops ! i)) \<inter> set (gvksOf E (ops ! j)) \<noteq> {}"
  shows "i = j"
proof -
  obtain heap vars vars' solved where k: "keyed heap vars" "addInvariants E R c heap vars = Some vars'"
    and sol: "solveInput G s0 (map (deref heap \<circ> snd) (o_vars R vars')) = Some (Inr solved)"
    and ops: "list_all2 (\<lambda>v op'. \<exists>n op s. opOf E c (Identifier v) = Some (Inr (n, op))
       \<and> op' = copyEntry s n (variableReplaces v) op) (filter isNew solved) ops"
    by (rule Resolve_solved [OF assms(1,6)])
  let ?in = "map (deref heap \<circ> snd) (o_vars R vars')" and ?ws = "filter isNew solved"
  note s = solveInput_solution [OF assms(3-5) sol]
  have d: "distinct (map Identifier ?ws)"
    using Resolve_distinct [OF assms(1) k] s by (auto simp: distinct_map_filter)
  have ws: "?ws ! a \<in> set ?in" "isNew (?ws ! a)" "Identifier (?ws ! a) \<in> Identifier ` set solved" if "a < length ops" for a
    using that s list_all2_lengthD [OF ops] nth_mem [of a ?ws] by auto
  note off = Resolve_offers_nth [OF assms(1) k ops _ ws(1,2)]
  have S: "Identifier (?ws ! i) \<in> Identifier ` set solved" "Identifier (?ws ! j) \<in> Identifier ` set solved"
    using ws(3) assms(7,8) by auto
  have r: "ordered R" "cache_ok E c" using assms(1) by (simp_all add: resolvable_def)
  have "Identifier (?ws ! i) = Identifier (?ws ! j)" using assms(9)
  proof
    assume "set (packagesOf E (ops ! i)) \<inter> set (packagesOf E (ops ! j)) \<noteq> {}"
    then obtain p where "p \<in> set (packagesOf E (ops ! i))" "p \<in> set (packagesOf E (ops ! j))" by blast
    then show ?thesis
      using unique_package [OF r(1) k(2) conjunct1 [OF s] off off S] assms(7,8) by simp
  next
    assume "set (gvksOf E (ops ! i)) \<inter> set (gvksOf E (ops ! j)) \<noteq> {}"
    then obtain p where "p \<in> set (gvksOf E (ops ! i))" "p \<in> set (gvksOf E (ops ! j))" by blast
    then show ?thesis
      using unique_api [OF r(1) k(2) r(2) assms(2) conjunct1 [OF s] off off S] assms(7,8) by simp
  qed
  then show ?thesis using d assms(7,8) list_all2_lengthD [OF ops] nth_eq_iff_index_eq [OF d, of i j] by simp
qed

definition demoOrders :: mapOrders where
  "demoOrders = \<lparr>o_bundles = (\<lambda>m. m), o_vars = (\<lambda>m. m), o_gvks = (\<lambda>m. m), o_pkgs = (\<lambda>m. m)\<rparr>"

definition demoPackaged :: Entry where
  "demoPackaged = (demoEntry 0 ''a.v1'' [] ''alpha'' demoCatalog)
     \<lparr>E_Properties := [\<lparr>P_Type = ''olm.package'', P_Value = ''pkg''\<rparr>]\<rparr>"

definition packageEnv :: env where
  "packageEnv = demoEnv\<lparr>e_J := noDecoders\<lparr>decodePackage := (\<lambda>s. Some (s, []))\<rparr>\<rparr>"

definition packageCache :: snapshots where
  "packageCache = [(demoCatalog, demoHeader demoCatalog 0 [demoPackaged])]"

definition demoSubscription :: Subscription where
  "demoSubscription = \<lparr>sub_Name = ''s'', sub_Namespace = ''ns'', sub_CatalogSource = ''cat'',
     sub_CatalogSourceNamespace = ''ns'', sub_Package = ''pkg'', sub_Channel = ''alpha'', sub_StartingCSV = [], sub_InstalledCSV = []\<rparr>"

lemma package_names: "gvksOf packageEnv demoPackaged = []" "packagesOf packageEnv demoPackaged = [''pkg'']"
  by code_simp+

lemma package_resolvable: "resolvable packageEnv demoOrders packageCache" "plainNames packageEnv packageCache"
proof -
  have "cache_ok packageEnv packageCache"
    using stable.go_sort_axioms
    by (auto simp: cache_ok_def packageEnv_def demoEnv_def wf_snapshots_def sourced_def packageCache_def demoHeader_def
        entriesOf_def demoPackaged_def demoEntry_def)
  moreover have "cacheEntries packageCache = {demoPackaged}"
    by (simp add: cacheEntries_def packageCache_def demoHeader_def entriesOf_def)
  ultimately show "resolvable packageEnv demoOrders packageCache"
    by (simp add: resolvable_def ordered_def demoOrders_def systemLocal_def packageEnv_def demoEnv_def)
  show "plainNames packageEnv packageCache"
    using \<open>cacheEntries packageCache = {demoPackaged}\<close> package_names by (simp add: plainNames_def)
qed

theorem Resolve_unique_witness:
  "\<exists>op. Resolve packageEnv demoOrders packageCache refGini rNew [''ns''] [demoSubscription] = Some (Inr [op])
    \<and> packagesOf packageEnv op = [''pkg''] \<and> (0::nat) = 0"
proof -
  let ?r = "Resolve packageEnv demoOrders packageCache refGini rNew [''ns''] [demoSubscription]"
  have "case ?r of Some (Inr [op]) \<Rightarrow> packagesOf packageEnv op = [''pkg''] | _ \<Rightarrow> False"
    by code_simp
  then obtain op where op: "?r = Some (Inr [op])" "packagesOf packageEnv op = [''pkg'']"
    by (cases ?r) (auto split: sum.splits list.splits)
  have "(0::nat) = 0"
    using Resolve_unique [OF package_resolvable ref_circuit ref_solver ref_fresh op(1), of 0 0] op(2) by simp
  with op show ?thesis by blast
qed

end
