(* ===== verification/CSV_Replacement.thy ===== *)
theory CSV_Replacement
  imports Fail_Forward "HOL-Library.AList"
begin

text \<open>
  ClusterServiceVersions and their replacement: the set of versions in a namespace
  (\<open>lib/csv/csvset.go\<close>), the replacement finder (\<open>lib/csv/replace_finder.go\<close>), the replacement
  chain and the conflicts over owned CRDs (\<open>operators/olm/operator.go\<close>). A map of versions keyed
  by name is the list of its values in the order in which a range meets them.
\<close>

section \<open>ClusterServiceVersions\<close>

datatype ConditionReason = CSVReasonNone | CSVReasonRequirementsUnknown | CSVReasonRequirementsNotMet
  | CSVReasonRequirementsMet | CSVReasonOwnerConflict | CSVReasonComponentFailed
  | CSVReasonComponentFailedNoRetry | CSVReasonInvalidStrategy | CSVReasonWaiting
  | CSVReasonInstallSuccessful | CSVReasonInstallCheckFailed | CSVReasonComponentUnhealthy
  | CSVReasonBeingReplaced | CSVReasonReplaced | CSVReasonNeedsReinstall | CSVReasonNeedsCertRotation
  | CSVReasonAPIServiceResourceIssue | CSVReasonAPIServiceResourcesNeedReinstall
  | CSVReasonAPIServiceInstallFailed | CSVReasonCopied | CSVReasonInvalidInstallModes
  | CSVReasonNoTargetNamespaces | CSVReasonUnsupportedOperatorGroup | CSVReasonNoOperatorGroup
  | CSVReasonTooManyOperatorGroups | CSVReasonInterOperatorGroupOwnerConflict
  | CSVReasonCannotModifyStaticOperatorGroupProvidedAPIs | CSVReasonDetectedClusterChange
  | CSVReasonInvalidWebhookDescription
  | CSVReasonOperatorConditionNotUpgradeable | CSVReasonWaitingForCleanupToComplete

text \<open>A condition holds the phase, the two times, the message and the reason.\<close>

record CSVCondition =
  cc_Phase :: CSVPhase
  cc_LastTransitionTime :: "nat option"
  cc_LastUpdateTime :: "nat option"
  cc_Message :: string
  cc_Reason :: ConditionReason

record webhookRule =
  wr_Resources :: "string list"
  wr_APIGroups :: "string list"

record crdDesc =
  cd_Name :: string
  cd_Version :: string
  cd_Kind :: string

record apiDesc =
  ad_Name :: string
  ad_Group :: string
  ad_Version :: string
  ad_Kind :: string

record CSV = ChainCSV +
  csv_Annotations :: "(string \<times> string) list"
  csv_Labels :: "(string \<times> string) list"
  csv_InstallModes :: "(string \<times> bool) list"
  csv_OwnedCRDs :: "crdDesc list"
  csv_RequiredCRDs :: "crdDesc list"
  csv_OwnedAPIServices :: "apiDesc list"
  csv_RequiredAPIServices :: "apiDesc list"
  csv_Webhooks :: "(string \<times> webhookRule list) list"
  csv_Reason :: ConditionReason
  csv_Message :: string
  csv_LastUpdateTime :: "nat option"
  csv_LastTransitionTime :: "nat option"
  csv_RequirementStatus :: "string list"
  csv_Conditions :: "CSVCondition list"
  csv_CertsLastUpdated :: "nat option"
  csv_CertsRotateAt :: "nat option"

definition OperatorGroupNamespaceAnnotationKey :: string where
  "OperatorGroupNamespaceAnnotationKey = ''olm.operatorNamespace''"

definition CopiedLabelKey :: string where
  "CopiedLabelKey = ''olm.copiedFrom''"

definition IsCopied :: "CSV \<Rightarrow> bool" where
  "IsCopied csv \<longleftrightarrow> csv_Reason csv = CSVReasonCopied
     \<or> (case map_of (csv_Annotations csv) OperatorGroupNamespaceAnnotationKey of
          Some operatorNamespace \<Rightarrow> C_Namespace csv \<noteq> operatorNamespace | None \<Rightarrow> False)
     \<or> map_of (csv_Labels csv) CopiedLabelKey \<noteq> None"

definition OwnsCRD :: "CSV \<Rightarrow> string \<Rightarrow> bool" where
  "OwnsCRD csv name \<longleftrightarrow> list_ex (\<lambda>desc. cd_Name desc = name) (csv_OwnedCRDs csv)"

text \<open>The set generator; \<open>None\<close> as a phase is any phase. A failed list gives a nil map.\<close>

definition csvSet_with :: "(string + CSV list) \<Rightarrow> CSVPhase option \<Rightarrow> CSV list" where
  "csvSet_with listed phase =
     (case listed of
        Inl e \<Rightarrow> []
      | Inr csvs \<Rightarrow> filter (\<lambda>csv. case phase of None \<Rightarrow> True | Some p \<Rightarrow> C_Phase csv = p) csvs)"

section \<open>The replacement finder\<close>

fun IsBeingReplaced :: "CSV \<Rightarrow> CSV list \<Rightarrow> CSV option" where
  "IsBeingReplaced inp [] = None"
| "IsBeingReplaced inp (csv # csvs) =
     (if IsCopied csv then IsBeingReplaced inp csvs
      else if C_Replaces csv = C_Name inp then Some csv
      else IsBeingReplaced inp csvs)"

text \<open>\<open>get\<close> reads a version of the namespace from the API server.\<close>

definition IsReplacing :: "(string \<Rightarrow> string \<Rightarrow> string + CSV) \<Rightarrow> CSV \<Rightarrow> CSV option" where
  "IsReplacing get inp =
     (if C_Replaces inp = [] then None
      else case get (C_Namespace inp) (C_Replaces inp) of Inl e \<Rightarrow> None | Inr previous \<Rightarrow> Some previous)"

partial_function (option) finalCSV :: "CSV list \<Rightarrow> CSV \<Rightarrow> CSV option \<Rightarrow> CSV option option" where
  "finalCSV csvs current replacedBy =
     (case IsBeingReplaced current csvs of
        None \<Rightarrow> Some replacedBy
      | Some nxt \<Rightarrow> finalCSV csvs nxt (Some nxt))"

definition GetFinalCSVInReplacing :: "CSV \<Rightarrow> CSV list \<Rightarrow> CSV option option" where
  "GetFinalCSVInReplacing inp csvs = finalCSV csvs inp None"

section \<open>The replacement chain\<close>

fun replacement :: "CSV list \<Rightarrow> string \<Rightarrow> string option" where
  "replacement [] csvName = None"
| "replacement (csv # csvs) csvName = (if C_Replaces csv = csvName then Some (C_Name csv) else replacement csvs csvName)"

fun replacesOf :: "CSV list \<Rightarrow> string \<Rightarrow> string option" where
  "replacesOf [] name = None"
| "replacesOf (csv # csvs) name = (if C_Name csv = name then Some (C_Replaces csv) else replacesOf csvs name)"

lemma replacement_in: "replacement csvs n = Some m \<Longrightarrow> \<exists>c\<in>set csvs. C_Replaces c = n \<and> C_Name c = m"
  by (induction csvs) (auto split: if_splits)

lemma replacesOf_in: "replacesOf csvs n = Some m \<Longrightarrow> \<exists>c\<in>set csvs. C_Name c = n \<and> C_Replaces c = m"
  by (induction csvs) (auto split: if_splits)

lemma card_remaining: "finite A \<Longrightarrow> x \<in> A \<Longrightarrow> x \<notin> B \<Longrightarrow> card (A - insert x B) < card (A - B)"
  by (intro psubset_card_mono) auto

function newerChain :: "CSV list \<Rightarrow> string list \<Rightarrow> string \<Rightarrow> string list" where
  "newerChain csvs csvsInChain current =
     (case replacement csvs current of
        None \<Rightarrow> csvsInChain
      | Some nxt \<Rightarrow> if nxt \<in> set csvsInChain then csvsInChain
                    else newerChain csvs (nxt # csvsInChain) nxt)"
  by pat_completeness auto
termination
proof (relation "measure (\<lambda>(csvs, ch, _). card (C_Name ` set csvs - set ch))", goal_cases)
  case (2 csvs csvsInChain current nxt)
  then have "nxt \<in> C_Name ` set csvs" using replacement_in by fastforce
  then show ?case using 2 card_remaining [of "C_Name ` set csvs" nxt "set csvsInChain"] by simp
qed simp

function olderChain :: "CSV list \<Rightarrow> string list \<Rightarrow> string \<Rightarrow> string list" where
  "olderChain csvs csvsInChain current =
     (case replacesOf csvs current of
        None \<Rightarrow> csvsInChain
      | Some prev \<Rightarrow> if prev = [] then csvsInChain
                     else if prev \<in> set csvsInChain then csvsInChain
                     else olderChain csvs (prev # csvsInChain) prev)"
  by pat_completeness auto
termination
proof (relation "measure (\<lambda>(csvs, ch, _). card (C_Replaces ` set csvs - set ch))", goal_cases)
  case (2 csvs csvsInChain current prev)
  then have "prev \<in> C_Replaces ` set csvs" using replacesOf_in by fastforce
  then show ?case using 2 card_remaining [of "C_Replaces ` set csvs" prev "set csvsInChain"] by simp
qed simp

declare newerChain.simps [simp del] olderChain.simps [simp del]

definition getReplacementChain :: "CSV \<Rightarrow> CSV list \<Rightarrow> string list" where
  "getReplacementChain inp csvs =
     (let newer = newerChain csvs [C_Name inp] (C_Name inp);
          current = C_Replaces inp
      in if replacesOf csvs current \<noteq> None then olderChain csvs (current # newer) current else newer)"

datatype csv_error = ErrCRDOwnerConflict | ErrAPIServiceOwnerConflict | ErrRequirementsNotMet | walkError walk_error
  | otherError string

definition crdOwnerConflicts :: "CSV \<Rightarrow> CSV list \<Rightarrow> csv_error option" where
  "crdOwnerConflicts inp csvs =
     (let csvsInChain = getReplacementChain inp csvs
      in if list_ex (\<lambda>csv. C_Name csv \<notin> set csvsInChain
              \<and> list_ex (\<lambda>crd. C_Name csv \<noteq> C_Name inp \<and> OwnsCRD csv (cd_Name crd)) (csv_OwnedCRDs inp)) csvs
         then Some ErrCRDOwnerConflict else None)"

section \<open>When the search for the final version returns\<close>

lemma finalCSV_acc: "finalCSV csvs c r = None \<longleftrightarrow> finalCSV csvs c r' = None"
  by (simp add: finalCSV.simps [of csvs c] split: option.splits)

lemma finalCSV_endless:
  assumes S: "\<forall>c\<in>S. \<exists>n\<in>S. IsBeingReplaced c csvs = Some n" and "finalCSV csvs c r = Some x"
  shows "c \<notin> S"
proof -
  have "csvs' = csvs \<longrightarrow> c' \<notin> S" if "finalCSV csvs' c' r' = Some x'" for csvs' c' r' x'
  proof (rule finalCSV.raw_induct [where P = "\<lambda>csvs' c' r' x'. csvs' = csvs \<longrightarrow> c' \<notin> S", OF _ that], goal_cases)
    case (1 f csvs' c' r' x')
    show ?case
    proof (intro impI notI)
      assume e: "csvs' = csvs" "c' \<in> S"
      then obtain n where n: "n \<in> S" "IsBeingReplaced c' csvs = Some n" using S by blast
      then have "f csvs n (Some n) = Some x'" using 1(2) e by simp
      from 1(1) [OF this] show False using n(1) by blast
    qed
  qed
  then show ?thesis using assms(2) by blast
qed

text \<open>The search for the final version of a replacement chain returns exactly when the chain
  does not run in a circle: it has no protection against versions that replace each other.\<close>

lemma GetFinalCSVInReplacing_returns:
  "(\<exists>r. GetFinalCSVInReplacing inp csvs = Some r)
   \<longleftrightarrow> \<not> (\<exists>S. inp \<in> S \<and> (\<forall>c\<in>S. \<exists>n\<in>S. IsBeingReplaced c csvs = Some n))"
proof
  assume "\<exists>r. GetFinalCSVInReplacing inp csvs = Some r"
  then show "\<not> (\<exists>S. inp \<in> S \<and> (\<forall>c\<in>S. \<exists>n\<in>S. IsBeingReplaced c csvs = Some n))"
    using finalCSV_endless unfolding GetFinalCSVInReplacing_def by blast
next
  assume no: "\<not> (\<exists>S. inp \<in> S \<and> (\<forall>c\<in>S. \<exists>n\<in>S. IsBeingReplaced c csvs = Some n))"
  let ?S = "{c. finalCSV csvs c None = None}"
  have "\<exists>n\<in>?S. IsBeingReplaced c csvs = Some n" if "c \<in> ?S" for c
    using that finalCSV_acc by (cases "IsBeingReplaced c csvs") (auto simp: finalCSV.simps [of csvs c])
  then have "inp \<notin> ?S" using no by blast
  then show "\<exists>r. GetFinalCSVInReplacing inp csvs = Some r" by (auto simp: GetFinalCSVInReplacing_def)
qed

definition demoCSV :: "string \<Rightarrow> string \<Rightarrow> CSVPhase \<Rightarrow> CSV" where
  "demoCSV name replaces phase = \<lparr>C_Name = name, C_Namespace = ''ns'', C_Phase = phase, C_Replaces = replaces,
     csv_Annotations = [(''olm.operatorNamespace'', ''ns'')], csv_Labels = [], csv_InstallModes = [], csv_OwnedCRDs = [\<lparr>cd_Name = ''x.g'', cd_Version = ''v1'', cd_Kind = ''X''\<rparr>],
     csv_RequiredCRDs = [], csv_OwnedAPIServices = [], csv_RequiredAPIServices = [], csv_Webhooks = [], csv_Reason = CSVReasonNone, csv_Message = [],
     csv_LastUpdateTime = None, csv_LastTransitionTime = None, csv_RequirementStatus = [], csv_Conditions = [],
     csv_CertsLastUpdated = None, csv_CertsRotateAt = None\<rparr>"

lemma GetFinalCSVInReplacing_returns_witness:
  "GetFinalCSVInReplacing (demoCSV ''a'' ''b'' CSVPhaseReplacing)
     [demoCSV ''a'' ''b'' CSVPhaseReplacing, demoCSV ''b'' ''a'' CSVPhaseReplacing] = None"
proof -
  let ?a = "demoCSV ''a'' ''b'' CSVPhaseReplacing" and ?b = "demoCSV ''b'' ''a'' CSVPhaseReplacing"
  have "IsBeingReplaced ?a [?a, ?b] = Some ?b" "IsBeingReplaced ?b [?a, ?b] = Some ?a"
    by (simp_all add: demoCSV_def IsCopied_def OperatorGroupNamespaceAnnotationKey_def)
  then have "\<exists>S. ?a \<in> S \<and> (\<forall>c\<in>S. \<exists>n\<in>S. IsBeingReplaced c [?a, ?b] = Some n)"
    by (intro exI [of _ "{?a, ?b}"]) auto
  then show ?thesis using GetFinalCSVInReplacing_returns [of ?a "[?a, ?b]"] by (metis not_None_eq)
qed

section \<open>What the replacement chain contains\<close>

definition newerRel :: "CSV list \<Rightarrow> (string \<times> string) set" where
  "newerRel csvs = {(x, y). replacement csvs x = Some y}"

definition olderRel :: "CSV list \<Rightarrow> (string \<times> string) set" where
  "olderRel csvs = {(x, y). replacesOf csvs x = Some y \<and> y \<noteq> []}"

lemma closed_rtrancl:
  assumes "x \<in> A" "\<And>y z. y \<in> A \<Longrightarrow> (y, z) \<in> r \<Longrightarrow> z \<in> A"
  shows "r\<^sup>* `` {x} \<subseteq> A"
proof
  fix y assume "y \<in> r\<^sup>* `` {x}"
  then have "(x, y) \<in> r\<^sup>*" by simp
  then show "y \<in> A" by (induction rule: rtrancl_induct) (use assms in blast)+
qed

lemma rtrancl_step_image:
  assumes "(x, y) \<in> r" "\<And>z. (x, z) \<in> r \<Longrightarrow> z = y"
  shows "r\<^sup>* `` {x} = insert x (r\<^sup>* `` {y})"
proof (intro set_eqI iffI)
  fix z assume "z \<in> r\<^sup>* `` {x}"
  then have "(x, z) \<in> r\<^sup>*" by simp
  then show "z \<in> insert x (r\<^sup>* `` {y})" by (cases rule: converse_rtranclE) (use assms(2) in auto)
next
  fix z assume "z \<in> insert x (r\<^sup>* `` {y})"
  then show "z \<in> r\<^sup>* `` {x}" using converse_rtrancl_into_rtrancl [OF assms(1)] by auto
qed

lemma newerChain_set:
  "\<lbrakk>current \<in> set ch; \<And>x y. x \<in> set ch \<Longrightarrow> x \<noteq> current \<Longrightarrow> (x, y) \<in> newerRel csvs \<Longrightarrow> y \<in> set ch\<rbrakk>
   \<Longrightarrow> set (newerChain csvs ch current) = set ch \<union> (newerRel csvs)\<^sup>* `` {current}"
proof (induction csvs ch current rule: newerChain.induct)
  case (1 csvs ch current)
  show ?case
  proof (cases "replacement csvs current")
    case None
    then have "(newerRel csvs)\<^sup>* `` {current} \<subseteq> {current}" by (intro closed_rtrancl) (auto simp: newerRel_def)
    then show ?thesis using None 1(2) by (auto simp: newerChain.simps [of csvs ch])
  next
    case (Some nxt)
    show ?thesis
    proof (cases "nxt \<in> set ch")
      case True
      have "(newerRel csvs)\<^sup>* `` {current} \<subseteq> set ch"
      proof (rule closed_rtrancl [OF 1(2)])
        fix y z assume "y \<in> set ch" "(y, z) \<in> newerRel csvs"
        then show "z \<in> set ch" using 1(3) True Some by (cases "y = current") (auto simp: newerRel_def)
      qed
      then show ?thesis using Some True by (auto simp: newerChain.simps [of csvs ch])
    next
      case False
      have "set (newerChain csvs (nxt # ch) nxt) = set (nxt # ch) \<union> (newerRel csvs)\<^sup>* `` {nxt}"
      proof (rule 1(1) [OF Some False])
        fix x y assume x: "x \<in> set (nxt # ch)" "x \<noteq> nxt" "(x, y) \<in> newerRel csvs"
        then show "y \<in> set (nxt # ch)" using 1(3) [of x y] Some by (cases "x = current") (auto simp: newerRel_def)
      qed simp
      moreover have "(newerRel csvs)\<^sup>* `` {current} = insert current ((newerRel csvs)\<^sup>* `` {nxt})"
        using Some by (intro rtrancl_step_image) (auto simp: newerRel_def)
      ultimately show ?thesis using Some False 1(2) by (auto simp: newerChain.simps [of csvs ch])
    qed
  qed
qed

lemma olderChain_set:
  "\<lbrakk>current \<in> set ch; \<And>x y. x \<in> set ch \<Longrightarrow> x \<noteq> current \<Longrightarrow> (x, y) \<in> olderRel csvs \<Longrightarrow> y \<in> set ch\<rbrakk>
   \<Longrightarrow> set (olderChain csvs ch current) = set ch \<union> (olderRel csvs)\<^sup>* `` {current}"
proof (induction csvs ch current rule: olderChain.induct)
  case (1 csvs ch current)
  show ?case
  proof (cases "\<exists>prev. (current, prev) \<in> olderRel csvs")
    case False
    then have "(olderRel csvs)\<^sup>* `` {current} \<subseteq> {current}" by (intro closed_rtrancl) auto
    moreover have "olderChain csvs ch current = ch"
      using False by (auto simp: olderChain.simps [of csvs ch] olderRel_def split: option.splits)
    ultimately show ?thesis using 1(2) by auto
  next
    case True
    then obtain prev where p: "replacesOf csvs current = Some prev" "prev \<noteq> []" by (auto simp: olderRel_def)
    show ?thesis
    proof (cases "prev \<in> set ch")
      case True
      have "(olderRel csvs)\<^sup>* `` {current} \<subseteq> set ch"
      proof (rule closed_rtrancl [OF 1(2)])
        fix y z assume "y \<in> set ch" "(y, z) \<in> olderRel csvs"
        then show "z \<in> set ch" using 1(3) True p by (cases "y = current") (auto simp: olderRel_def)
      qed
      then show ?thesis using p True by (auto simp: olderChain.simps [of csvs ch])
    next
      case False
      have "set (olderChain csvs (prev # ch) prev) = set (prev # ch) \<union> (olderRel csvs)\<^sup>* `` {prev}"
      proof (rule 1(1) [OF p(1,2) False])
        fix x y assume x: "x \<in> set (prev # ch)" "x \<noteq> prev" "(x, y) \<in> olderRel csvs"
        then show "y \<in> set (prev # ch)" using 1(3) [of x y] p by (cases "x = current") (auto simp: olderRel_def)
      qed simp
      moreover have "(olderRel csvs)\<^sup>* `` {current} = insert current ((olderRel csvs)\<^sup>* `` {prev})"
        using p by (intro rtrancl_step_image) (auto simp: olderRel_def)
      ultimately show ?thesis using p False 1(2) by (auto simp: olderChain.simps [of csvs ch])
    qed
  qed
qed

lemma replacesOf_unique: "distinct (map C_Name csvs) \<Longrightarrow> c \<in> set csvs \<Longrightarrow> replacesOf csvs (C_Name c) = Some (C_Replaces c)"
  by (induction csvs) force+

lemma replacesOf_replacement:
  "distinct (map C_Name csvs) \<Longrightarrow> (x, y) \<in> newerRel csvs \<Longrightarrow> replacesOf csvs y = Some x"
  using replacement_in replacesOf_unique by (fastforce simp: newerRel_def)

lemma getReplacementChain_set:
  assumes "distinct (map C_Name csvs)" "inp \<in> set csvs" "[] \<notin> C_Name ` set csvs"
  shows "C_Name ` set csvs \<inter> set (getReplacementChain inp csvs)
    = C_Name ` set csvs \<inter> ((newerRel csvs)\<^sup>* `` {C_Name inp} \<union> (olderRel csvs)\<^sup>* `` {C_Name inp})"
proof -
  let ?n = "C_Name inp" and ?newer = "newerChain csvs [C_Name inp] (C_Name inp)" and ?cur = "C_Replaces inp"
  have newer: "set ?newer = (newerRel csvs)\<^sup>* `` {?n}" using newerChain_set [of ?n "[?n]" csvs] by auto
  have self: "replacesOf csvs ?n = Some ?cur" by (rule replacesOf_unique [OF assms(1,2)])
  have older: "(olderRel csvs)\<^sup>* `` {?n} = (if ?cur = [] then {?n} else insert ?n ((olderRel csvs)\<^sup>* `` {?cur}))"
  proof (cases "?cur = []")
    case True
    have "(olderRel csvs)\<^sup>* `` {?n} \<subseteq> {?n}" using self True by (intro closed_rtrancl) (auto simp: olderRel_def)
    then show ?thesis using True by auto
  next
    case False
    then show ?thesis using self by (simp, intro rtrancl_step_image) (auto simp: olderRel_def)
  qed
  show ?thesis
  proof (cases "replacesOf csvs ?cur")
    case None
    have "C_Name c \<noteq> ?cur" if "c \<in> set csvs" for c using replacesOf_unique [OF assms(1) that] None by auto
    moreover have "(olderRel csvs)\<^sup>* `` {?cur} \<subseteq> {?cur}" using None by (intro closed_rtrancl) (auto simp: olderRel_def)
    ultimately show ?thesis using None older newer by (auto simp: getReplacementChain_def Let_def)
  next
    case (Some p)
    have "set (olderChain csvs (?cur # ?newer) ?cur) = set (?cur # ?newer) \<union> (olderRel csvs)\<^sup>* `` {?cur}"
    proof (rule olderChain_set)
      fix x y assume x: "x \<in> set (?cur # ?newer)" "x \<noteq> ?cur" "(x, y) \<in> olderRel csvs"
      then have "(?n, x) \<in> (newerRel csvs)\<^sup>*" using newer by auto
      then show "y \<in> set (?cur # ?newer)"
      proof (cases rule: rtranclE)
        case base
        then show ?thesis using x(3) self by (auto simp: olderRel_def)
      next
        case (step z)
        then have "y = z" using replacesOf_replacement [OF assms(1) step(2)] x(3) by (simp add: olderRel_def)
        then show ?thesis using step(1) newer by auto
      qed
    qed simp
    then have chain: "set (getReplacementChain inp csvs) = (newerRel csvs)\<^sup>* `` {?n} \<union> insert ?cur ((olderRel csvs)\<^sup>* `` {?cur})"
      using Some newer by (auto simp: getReplacementChain_def Let_def)
    have "?cur \<noteq> []" using replacesOf_in [OF Some] assms(3) by (metis image_eqI)
    then show ?thesis using chain older by auto
  qed
qed

text \<open>Two versions of a namespace are related when one replaces the other, directly or over others.\<close>

definition sameChain :: "CSV list \<Rightarrow> CSV \<Rightarrow> CSV \<Rightarrow> bool" where
  "sameChain csvs a b \<longleftrightarrow> (C_Name a, C_Name b) \<in> (newerRel csvs)\<^sup>* \<union> (olderRel csvs)\<^sup>*"

text \<open>A version has a conflict over CRDs exactly when a version of the namespace outside its
  replacement chain owns one of its CRDs.\<close>

lemma crdOwnerConflicts_iff:
  assumes "distinct (map C_Name csvs)" "inp \<in> set csvs" "[] \<notin> C_Name ` set csvs"
  shows "crdOwnerConflicts inp csvs = Some ErrCRDOwnerConflict
    \<longleftrightarrow> (\<exists>csv\<in>set csvs. \<not> sameChain csvs inp csv \<and> (\<exists>crd\<in>set (csv_OwnedCRDs inp). OwnsCRD csv (cd_Name crd)))"
proof -
  have "C_Name csv \<in> set (getReplacementChain inp csvs) \<longleftrightarrow> sameChain csvs inp csv" if "csv \<in> set csvs" for csv
    using getReplacementChain_set [OF assms] that unfolding sameChain_def by blast
  moreover have "sameChain csvs inp csv" if "C_Name csv = C_Name inp" for csv using that by (simp add: sameChain_def)
  ultimately show ?thesis by (auto simp: crdOwnerConflicts_def Let_def list_ex_iff)
qed

lemma crdOwnerConflicts_iff_witness:
  "crdOwnerConflicts (demoCSV ''a'' [] CSVPhasePending)
     [demoCSV ''a'' [] CSVPhasePending, demoCSV ''b'' [] CSVPhaseSucceeded] = Some ErrCRDOwnerConflict"
proof -
  let ?a = "demoCSV ''a'' [] CSVPhasePending" and ?b = "demoCSV ''b'' [] CSVPhaseSucceeded"
  have "(newerRel [?a, ?b])\<^sup>* `` {''a''} \<subseteq> {''a''}"
    by (rule closed_rtrancl) (auto simp: newerRel_def demoCSV_def)
  moreover have "(olderRel [?a, ?b])\<^sup>* `` {''a''} \<subseteq> {''a''}"
    by (rule closed_rtrancl) (auto simp: olderRel_def demoCSV_def)
  ultimately have "\<not> sameChain [?a, ?b] ?a ?b" by (auto simp: sameChain_def demoCSV_def)
  then show ?thesis using crdOwnerConflicts_iff [of "[?a, ?b]" ?a] by (simp add: demoCSV_def OwnsCRD_def)
qed

end
