(* ===== verification/CSV_Labels.thy ===== *)
theory CSV_Labels
  imports CSV_Replacement API_Set
begin

text \<open>
  The API surface of a ClusterServiceVersion and its labels, \<open>operators/olm/labeler.go\<close>, and the
  merging of labels into the version (\<open>ensureLabels\<close> of \<open>operators/olm/operator.go\<close>).
\<close>

record operatorSurface =
  os_ProvidedAPIs :: APISet
  os_RequiredAPIs :: APISet

text \<open>\<open>strings.SplitN(name, ".", 2)\<close> and the key of a CRD.\<close>

definition crdKey :: "crdDesc \<Rightarrow> string + APIKey" where
  "crdKey crdDef =
     (case SplitN2 (CHR ''.'') (cd_Name crdDef) of
        [plural, grp] \<Rightarrow> Inr \<lparr>Key_Group = grp, Key_Version = cd_Version crdDef, Key_Kind = cd_Kind crdDef, Key_Plural = plural\<rparr>
      | _ \<Rightarrow> Inl (''error parsing crd name: '' @ cd_Name crdDef))"

definition apiKey :: "apiDesc \<Rightarrow> APIKey" where
  "apiKey api = \<lparr>Key_Group = ad_Group api, Key_Version = ad_Version api, Key_Kind = ad_Kind api, Key_Plural = ad_Name api\<rparr>"

definition apiSurfaceOfCSV :: "CSV \<Rightarrow> string + operatorSurface" where
  "apiSurfaceOfCSV csv =
     (let surface = \<lparr>os_ProvidedAPIs = [], os_RequiredAPIs = []\<rparr>
      in bind_err (map_err crdKey (csv_OwnedCRDs csv)) (\<lambda>owned.
         let surface = surface\<lparr>os_ProvidedAPIs := fold List.insert owned (os_ProvidedAPIs surface)\<rparr>;
             surface = surface\<lparr>os_ProvidedAPIs := fold List.insert (map apiKey (csv_OwnedAPIServices csv)) (os_ProvidedAPIs surface)\<rparr>
         in bind_err (map_err crdKey (csv_RequiredCRDs csv)) (\<lambda>required.
            let requiredAPIs = fold List.insert required [];
                requiredAPIs = fold List.insert (map apiKey (csv_RequiredAPIServices csv)) requiredAPIs
            in Inr surface)))"

definition APILabelKeyPrefix :: string where
  "APILabelKeyPrefix = ''olm.api.''"

type_synonym labelSet = "(string \<times> string) list"

definition labelSetsForOperatorSurface :: "operatorSurface \<Rightarrow> labelSet list" where
  "labelSetsForOperatorSurface surface =
     (let provided = fold (\<lambda>key. AList.update (APILabelKeyPrefix @ APIKeyToGVKHash key) ''provided'')
            (APISet_StripPlural (os_ProvidedAPIs surface)) [];
          all = fold (\<lambda>key. AList.update (APILabelKeyPrefix @ APIKeyToGVKHash key) ''required'')
            (APISet_StripPlural (os_RequiredAPIs surface)) provided
      in [all])"

text \<open>The part of a CRD that the labels depend on: group, kind and the names of the versions.\<close>

record crdResource =
  cr_Group :: string
  cr_Kind :: string
  cr_Versions :: "string list"

definition labelSetsForCRD :: "crdResource option \<Rightarrow> labelSet list" where
  "labelSetsForCRD crd =
     (case crd of
        None \<Rightarrow> []
      | Some crd \<Rightarrow> concat (map (\<lambda>version.
          let key = APILabelKeyPrefix @ APIKeyToGVKHash
                \<lparr>Key_Group = cr_Group crd, Key_Version = version, Key_Kind = cr_Kind crd, Key_Plural = []\<rparr>
          in [[(key, ''provided'')], [(key, ''required'')]]) (cr_Versions crd)))"

text \<open>The dynamic type of the labelled object: a surface by value or by pointer, a CRD of either
  API version, anything else.\<close>

datatype labelled = surfaceValue operatorSurface | surfacePointer operatorSurface
  | crdV1beta1 "crdResource option" | crdV1 "crdResource option" | otherObject

fun LabelSetsFor :: "labelled \<Rightarrow> labelSet list" where
  "LabelSetsFor (surfaceValue v) = labelSetsForOperatorSurface v"
| "LabelSetsFor (crdV1beta1 v) = labelSetsForCRD v"
| "LabelSetsFor (crdV1 v) = labelSetsForCRD v"
| "LabelSetsFor _ = []"

definition labels_Merge :: "labelSet \<Rightarrow> labelSet \<Rightarrow> labelSet" where
  "labels_Merge l1 l2 = fold (\<lambda>(k, v). AList.update k v) l2 l1"

definition labels_Equals :: "labelSet \<Rightarrow> labelSet \<Rightarrow> bool" where
  "labels_Equals l1 l2 \<longleftrightarrow> length l1 = length l2 \<and> list_all (\<lambda>(k, v). map_of l2 k = Some v) l1"

text \<open>\<open>update\<close> writes the version to the API server.\<close>

definition ensureLabels :: "(CSV \<Rightarrow> string + CSV) \<Rightarrow> CSV \<Rightarrow> labelSet list \<Rightarrow> string + CSV" where
  "ensureLabels update inp labelSets =
     (let merged = fold (\<lambda>s l. labels_Merge l s) labelSets (csv_Labels inp)
      in if labels_Equals (csv_Labels inp) merged then Inr inp
         else update (inp\<lparr>csv_Labels := merged\<rparr>))"

lemma set_label_update: "set (AList.update k v al) \<subseteq> insert (k, v) (set al)"
  by (induction al) auto

section \<open>The surface never has required APIs, and a surface behind a pointer has no labels\<close>

text \<open>The surface of a version is never given its required APIs: they are computed and
  dropped, so no version is labelled as requiring an API; and the labels of a surface that is
  passed by pointer, as the state machine passes it, are empty.\<close>

lemma apiSurfaceOfCSV_no_required:
  assumes "apiSurfaceOfCSV csv = Inr surface"
  shows "os_RequiredAPIs surface = []
    \<and> (\<forall>s\<in>set (labelSetsForOperatorSurface surface). ''required'' \<notin> snd ` set s)
    \<and> LabelSetsFor (surfacePointer surface) = []"
proof -
  have r: "os_RequiredAPIs surface = []"
    using assms by (auto simp: apiSurfaceOfCSV_def Let_def bind_err_eq_Inr)
  have "snd ` set (fold (\<lambda>k. AList.update (f k) ''provided'') ks m) \<subseteq> insert ''provided'' (snd ` set m)" for ks f and m :: labelSet
  proof (induction ks arbitrary: m)
    case (Cons k ks)
    have "snd ` set (AList.update (f k) ''provided'' m) \<subseteq> insert ''provided'' (snd ` set m)"
      using set_label_update [of "f k" _ m] by force
    with Cons.IH [of "AList.update (f k) ''provided'' m"] show ?case unfolding fold_simps comp_apply by blast
  qed auto
  from this [of "\<lambda>key. APILabelKeyPrefix @ APIKeyToGVKHash key" "APISet_StripPlural (os_ProvidedAPIs surface)" "[]"]
  show ?thesis using r by (auto simp: labelSetsForOperatorSurface_def APISet_StripPlural_def)
qed

lemma apiSurfaceOfCSV_no_required_witness:
  "case apiSurfaceOfCSV ((demoCSV ''a'' [] CSVPhasePending)
       \<lparr>csv_RequiredCRDs := [\<lparr>cd_Name = ''y.g'', cd_Version = ''v1'', cd_Kind = ''Y''\<rparr>]\<rparr>) of
     Inr surface \<Rightarrow> os_RequiredAPIs surface = [] \<and> os_ProvidedAPIs surface \<noteq> [] | Inl _ \<Rightarrow> False"
proof -
  let ?c = "(demoCSV ''a'' [] CSVPhasePending)\<lparr>csv_RequiredCRDs := [\<lparr>cd_Name = ''y.g'', cd_Version = ''v1'', cd_Kind = ''Y''\<rparr>]\<rparr>"
  have "case apiSurfaceOfCSV ?c of Inr s \<Rightarrow> os_ProvidedAPIs s \<noteq> [] | Inl _ \<Rightarrow> False" by code_simp
  then obtain s where "apiSurfaceOfCSV ?c = Inr s" "os_ProvidedAPIs s \<noteq> []" by (auto split: sum.splits)
  then show ?thesis using apiSurfaceOfCSV_no_required [of ?c s] by simp
qed

end
