(* ===== verification/Operator_Groups.thy ===== *)
theory Operator_Groups
  imports API_Set
begin

text \<open>
  Namespace sets, operator group surfaces and the reconciliation of provided APIs,
  \<open>operators/olm/groups.go\<close>. A namespace set is a map used as a set; here it is the list of its
  keys in the order in which a range meets them. The empty name stands for all namespaces.
\<close>

section \<open>Namespace sets\<close>

type_synonym NamespaceSet = "string list"

definition NewNamespaceSet :: "string list \<Rightarrow> NamespaceSet" where
  "NewNamespaceSet namespaces = fold List.insert namespaces []"

definition NewNamespaceSetFromString :: "string \<Rightarrow> NamespaceSet" where
  "NewNamespaceSetFromString namespaces = NewNamespaceSet (Split (CHR '','') namespaces)"

fun Peek :: "NamespaceSet \<Rightarrow> string" where
  "Peek [] = []"
| "Peek (namespace # _) = namespace"

definition IsAllNamespaces :: "NamespaceSet \<Rightarrow> bool" where
  "IsAllNamespaces n = (if length n = 1 \<and> Peek n = [] then True else False)"

definition NS_Intersection :: "NamespaceSet \<Rightarrow> NamespaceSet \<Rightarrow> NamespaceSet" where
  "NS_Intersection n s =
     (if IsAllNamespaces n then fold List.insert s []
      else if IsAllNamespaces s then fold List.insert n []
      else fold (\<lambda>namespace r. if namespace \<in> set s then List.insert namespace r else r) n [])"

definition NS_Union :: "NamespaceSet \<Rightarrow> NamespaceSet \<Rightarrow> NamespaceSet" where
  "NS_Union n s =
     (if IsAllNamespaces n then n
      else if IsAllNamespaces s then s
      else fold List.insert s (fold List.insert n []))"

definition NS_Contains :: "NamespaceSet \<Rightarrow> string \<Rightarrow> bool" where
  "NS_Contains n namespace = (if IsAllNamespaces n then True else namespace \<in> set n)"

section \<open>Operator groups\<close>

text \<open>What the surface reads of an operator group resource.\<close>

record og_resource =
  og_Namespace :: string
  og_Name :: string
  og_StatusNamespaces :: "string list"
  og_ProvidedAPIs :: string

record OperatorGroup =
  g_namespace :: string
  g_name :: string
  g_targets :: NamespaceSet
  g_providedAPIs :: APISet

definition NewOperatorGroup :: "og_resource \<Rightarrow> OperatorGroup" where
  "NewOperatorGroup grp =
     (let namespaces = og_StatusNamespaces grp;
          namespaces' = (if length namespaces \<ge> 1 \<and> namespaces ! 0 \<noteq> [] then namespaces @ [og_Namespace grp] else namespaces)
      in \<lparr>g_namespace = og_Namespace grp, g_name = og_Name grp, g_targets = NewNamespaceSet namespaces',
          g_providedAPIs = GVKStringToProvidedAPISet (og_ProvidedAPIs grp)\<rparr>)"

definition NewOperatorGroupSurfaces :: "og_resource list \<Rightarrow> OperatorGroup list" where
  "NewOperatorGroupSurfaces groups = map NewOperatorGroup groups"

definition group_Identifier :: "OperatorGroup \<Rightarrow> string" where
  "group_Identifier g = g_name g @ ''/'' @ g_namespace g"

fun GroupIntersection :: "OperatorGroup \<Rightarrow> OperatorGroup list \<Rightarrow> OperatorGroup list" where
  "GroupIntersection g [] = []"
| "GroupIntersection g (h # groups) =
     (if group_Identifier h = group_Identifier g then GroupIntersection g groups
      else if length (NS_Intersection (g_targets g) (g_targets h)) > 0 then h # GroupIntersection g groups
      else GroupIntersection g groups)"

datatype APIReconciliationResult = RemoveAPIs | AddAPIs | APIConflict | NoAPIConflict

definition ReconcileAPIIntersection :: "APISet \<Rightarrow> OperatorGroup \<Rightarrow> OperatorGroup list \<Rightarrow> APIReconciliationResult" where
  "ReconcileAPIIntersection add grp otherGroups =
     (let groupIntersection = GroupIntersection grp otherGroups;
          providedAPIIntersection = fold (\<lambda>g acc. APISet_Union acc [g_providedAPIs g]) groupIntersection [];
          intersecting = length (APISet_Intersection add [providedAPIIntersection]) > 0;
          subset = APISet_IsSubset add (g_providedAPIs grp)
      in if subset \<and> intersecting then RemoveAPIs
         else if \<not> subset \<and> intersecting then APIConflict
         else if \<not> subset then AddAPIs
         else NoAPIConflict)"

section \<open>Well-formed sets and what they stand for\<close>

text \<open>Either all namespaces, or names that are not empty. The keys of a map are distinct.\<close>

definition ns_wf :: "NamespaceSet \<Rightarrow> bool" where
  "ns_wf n \<longleftrightarrow> distinct n \<and> ([] \<in> set n \<longrightarrow> n = [[]])"

text \<open>The namespaces that a set covers.\<close>

definition covered :: "NamespaceSet \<Rightarrow> string set" where
  "covered n = (if n = [[]] then {x. x \<noteq> []} else set n - {[]})"

lemma IsAll_iff [simp]: "IsAllNamespaces n \<longleftrightarrow> n = [[]]"
  by (cases n) (auto simp: IsAllNamespaces_def)

lemma set_NewNamespaceSet [simp]: "set (NewNamespaceSet ns) = set ns" "distinct (NewNamespaceSet ns)"
  by (simp_all add: NewNamespaceSet_def)

lemma fold_keep: "set (fold (\<lambda>x r. if x \<in> S then List.insert x r else r) n r) = (set n \<inter> S) \<union> set r"
  by (induction n arbitrary: r) auto

lemma distinct_fold_keep: "distinct r \<Longrightarrow> distinct (fold (\<lambda>x r. if x \<in> S then List.insert x r else r) n r)"
  by (induction n arbitrary: r) auto

lemma singleton_list: "distinct n \<Longrightarrow> n = [x] \<longleftrightarrow> set n = {x}"
proof
  assume "distinct n" "set n = {x}"
  moreover from this have "length n = 1" using distinct_card [of n] by simp
  ultimately show "n = [x]" by (cases n) auto
qed simp

lemma covered_all: "covered [[]] = {x. x \<noteq> []}"
  by (simp add: covered_def)

lemma covered_names: "ns_wf n \<Longrightarrow> n \<noteq> [[]] \<Longrightarrow> covered n = set n \<and> [] \<notin> set n"
  by (auto simp: covered_def ns_wf_def)

lemma covered_cong: "distinct n \<Longrightarrow> distinct m \<Longrightarrow> set n = set m \<Longrightarrow> covered n = covered m \<and> ns_wf n = ns_wf m"
  by (simp add: covered_def ns_wf_def singleton_list)

lemma covered_nonempty_name: "[] \<notin> covered n"
  by (simp add: covered_def)

lemma set_NS_Intersection:
  "set (NS_Intersection n s) = (if n = [[]] then set s else if s = [[]] then set n else set n \<inter> set s)"
  "distinct (NS_Intersection n s)"
  by (simp_all add: NS_Intersection_def fold_keep distinct_fold_keep)

lemma NS_Intersection_ok:
  assumes "ns_wf n" "ns_wf s"
  shows "ns_wf (NS_Intersection n s) \<and> covered (NS_Intersection n s) = covered n \<inter> covered s"
proof -
  have d: "distinct n" "distinct s" using assms by (simp_all add: ns_wf_def)
  consider "n = [[]]" | "n \<noteq> [[]]" "s = [[]]" | "n \<noteq> [[]]" "s \<noteq> [[]]" by blast
  then show ?thesis
  proof cases
    case 1
    then show ?thesis using covered_cong [of "NS_Intersection n s" s] d assms covered_nonempty_name [of s]
      by (auto simp: set_NS_Intersection covered_all)
  next
    case 2
    then show ?thesis using covered_cong [of "NS_Intersection n s" n] d assms covered_nonempty_name [of n]
      by (auto simp: set_NS_Intersection covered_all)
  next
    case 3
    have m: "[] \<notin> set (NS_Intersection n s)" "set (NS_Intersection n s) = set n \<inter> set s"
      using covered_names [OF assms(1) 3(1)] 3 by (auto simp: set_NS_Intersection)
    have "ns_wf (NS_Intersection n s)" using m(1) set_NS_Intersection(2) by (simp add: ns_wf_def)
    moreover have "NS_Intersection n s \<noteq> [[]]" using m(1) by force
    ultimately show ?thesis using covered_names assms 3 m(2) by simp
  qed
qed

lemma NS_Union_ok:
  assumes "ns_wf n" "ns_wf s"
  shows "ns_wf (NS_Union n s) \<and> covered (NS_Union n s) = covered n \<union> covered s"
proof -
  consider "n = [[]]" | "n \<noteq> [[]]" "s = [[]]" | "n \<noteq> [[]]" "s \<noteq> [[]]" by blast
  then show ?thesis
  proof cases
    case 3
    have m: "[] \<notin> set (NS_Union n s)" "set (NS_Union n s) = set n \<union> set s" "distinct (NS_Union n s)"
      using covered_names [OF assms(1) 3(1)] covered_names [OF assms(2) 3(2)] 3 by (auto simp: NS_Union_def)
    then have "ns_wf (NS_Union n s)" "NS_Union n s \<noteq> [[]]" by (auto simp: ns_wf_def)
    then show ?thesis using covered_names assms 3 m(2) by simp
  next
    case 1
    have "covered n \<union> covered s = covered n" using 1 covered_nonempty_name [of s] by (auto simp: covered_all)
    then show ?thesis using 1 assms by (simp add: NS_Union_def)
  next
    case 2
    have "covered n \<union> covered s = covered s" using 2 covered_nonempty_name [of n] by (auto simp: covered_all)
    then show ?thesis using 2 assms by (simp add: NS_Union_def)
  qed
qed

lemma NS_Contains_ok: "ns_wf n \<Longrightarrow> x \<noteq> [] \<Longrightarrow> NS_Contains n x \<longleftrightarrow> x \<in> covered n"
  by (simp add: NS_Contains_def covered_def)

text \<open>The set operations as a contract over the covered namespaces.\<close>

locale namespace_sets =
  fixes wf :: "'n \<Rightarrow> bool" and \<alpha> :: "'n \<Rightarrow> string set" and inter :: "'n \<Rightarrow> 'n \<Rightarrow> 'n" and union :: "'n \<Rightarrow> 'n \<Rightarrow> 'n"
    and contains :: "'n \<Rightarrow> string \<Rightarrow> bool"
  assumes wf_inter: "wf n \<Longrightarrow> wf s \<Longrightarrow> wf (inter n s)" and wf_union: "wf n \<Longrightarrow> wf s \<Longrightarrow> wf (union n s)"
    and inter: "wf n \<Longrightarrow> wf s \<Longrightarrow> \<alpha> (inter n s) = \<alpha> n \<inter> \<alpha> s"
    and union: "wf n \<Longrightarrow> wf s \<Longrightarrow> \<alpha> (union n s) = \<alpha> n \<union> \<alpha> s"
    and contains: "wf n \<Longrightarrow> x \<noteq> [] \<Longrightarrow> contains n x \<longleftrightarrow> x \<in> \<alpha> n"
begin

lemma inter_disjoint_iff: "wf n \<Longrightarrow> wf s \<Longrightarrow> \<alpha> (inter n s) = {} \<longleftrightarrow> (\<forall>x\<in>\<alpha> n. x \<notin> \<alpha> s)"
  by (auto simp: inter)

lemma contains_inter: "wf n \<Longrightarrow> wf s \<Longrightarrow> x \<noteq> [] \<Longrightarrow> contains (inter n s) x \<longleftrightarrow> contains n x \<and> contains s x"
  by (simp add: contains inter wf_inter)

end

interpretation ns: namespace_sets ns_wf covered NS_Intersection NS_Union NS_Contains
  by unfold_locales (simp_all add: NS_Intersection_ok NS_Union_ok NS_Contains_ok)

text \<open>C23. The namespace sets of operator groups implement sets of namespaces with a top element. On
  well-formed sets, those that have the empty namespace, which stands for all, only alone,
  intersection, union and membership are those of the covered namespaces, and the results are well
  formed again. The lists of namespaces in a status are not checked to be well formed.\<close>

theorem NamespaceSet_refines:
  assumes "ns_wf n" "ns_wf s" "x \<noteq> []"
  shows "covered (NS_Intersection n s) = covered n \<inter> covered s \<and> ns_wf (NS_Intersection n s)
    \<and> covered (NS_Union n s) = covered n \<union> covered s \<and> ns_wf (NS_Union n s)
    \<and> (NS_Contains n x \<longleftrightarrow> x \<in> covered n)"
  using assms by (simp add: ns.inter ns.union ns.wf_inter ns.wf_union ns.contains)

theorem NamespaceSet_refines_witness:
  "covered (NS_Intersection [[]] [''a'', ''b'']) = {''a'', ''b''}"
  using NamespaceSet_refines [of "[[]]" "[''a'', ''b'']" "''a''"] by (auto simp: ns_wf_def covered_def)

text \<open>The sanitation that the code leaves open is needed: two sets that list the empty name
  beside different namespaces intersect in the set of all namespaces.\<close>

lemma NamespaceSet_unsanitized:
  "NS_Contains (NS_Intersection [[], ''a''] [[], ''b'']) ''c''
   \<and> \<not> NS_Contains [[], ''a''] ''c'' \<and> \<not> NS_Contains [[], ''b''] ''c''"
  by code_simp

section \<open>Groups\<close>

lemma NewOperatorGroup_wf:
  assumes "[] \<in> set (og_StatusNamespaces grp) \<Longrightarrow> set (og_StatusNamespaces grp) = {[]}" "og_Namespace grp \<noteq> []"
  shows "ns_wf (g_targets (NewOperatorGroup grp))"
proof -
  have "[] \<in> set (g_targets (NewOperatorGroup grp)) \<Longrightarrow> set (g_targets (NewOperatorGroup grp)) = {[]}"
    using assms by (cases "og_StatusNamespaces grp") (auto simp: NewOperatorGroup_def Let_def split: if_splits)
  then show ?thesis
    using singleton_list [of "g_targets (NewOperatorGroup grp)" "[]"]
    by (auto simp: ns_wf_def NewOperatorGroup_def Let_def)
qed

lemma GroupIntersection_iff:
  "h \<in> set (GroupIntersection g groups) \<longleftrightarrow>
     h \<in> set groups \<and> group_Identifier h \<noteq> group_Identifier g \<and> NS_Intersection (g_targets g) (g_targets h) \<noteq> []"
  by (induction g groups rule: GroupIntersection.induct) auto

lemma NS_Intersection_empty:
  assumes "ns_wf n" "ns_wf s"
  shows "NS_Intersection n s = [] \<longleftrightarrow> covered n \<inter> covered s = {}"
proof -
  have "covered m = {} \<longleftrightarrow> m = []" if "ns_wf m" for m
    using that by (cases "m = [[]]") (auto simp: covered_all covered_names intro: exI [of _ "''a''"])
  then show ?thesis using ns.inter [OF assms] ns.wf_inter [OF assms] by metis
qed

lemma set_fold_Union: "set (fold (\<lambda>g acc. APISet_Union acc [f g]) gs acc) = set acc \<union> (\<Union>g\<in>set gs. set (f g))"
  by (induction gs arbitrary: acc) auto

text \<open>The APIs that other groups with a namespace in common provide.\<close>

definition rivals :: "OperatorGroup \<Rightarrow> OperatorGroup list \<Rightarrow> APIKey set" where
  "rivals grp otherGroups = (\<Union>h\<in>{h \<in> set otherGroups. group_Identifier h \<noteq> group_Identifier grp
     \<and> covered (g_targets grp) \<inter> covered (g_targets h) \<noteq> {}}. set (g_providedAPIs h))"

text \<open>The decision of the API reconciliation: APIs are refused or removed exactly when
  another group that shares a namespace provides one of them, and are added exactly when no such
  group does and the group does not list them yet.\<close>

lemma ReconcileAPIIntersection_decides:
  assumes "ns_wf (g_targets grp)" "\<forall>h\<in>set otherGroups. ns_wf (g_targets h)"
  shows "ReconcileAPIIntersection add grp otherGroups =
    (if set add \<inter> rivals grp otherGroups \<noteq> {}
     then (if set add \<subseteq> set (g_providedAPIs grp) then RemoveAPIs else APIConflict)
     else (if set add \<subseteq> set (g_providedAPIs grp) then NoAPIConflict else AddAPIs))"
proof -
  let ?gi = "GroupIntersection grp otherGroups"
  have "set ?gi = {h \<in> set otherGroups. group_Identifier h \<noteq> group_Identifier grp
      \<and> covered (g_targets grp) \<inter> covered (g_targets h) \<noteq> {}}"
    using assms by (auto simp: GroupIntersection_iff NS_Intersection_empty)
  then have u: "set (fold (\<lambda>g acc. APISet_Union acc [g_providedAPIs g]) ?gi []) = rivals grp otherGroups"
    by (simp add: set_fold_Union rivals_def)
  have "length (APISet_Intersection add [fold (\<lambda>g acc. APISet_Union acc [g_providedAPIs g]) ?gi []]) > 0
      \<longleftrightarrow> set add \<inter> rivals grp otherGroups \<noteq> {}"
    unfolding length_greater_0_conv set_empty [symmetric] set_Intersection using u by simp
  then show ?thesis by (simp add: ReconcileAPIIntersection_def Let_def)
qed

definition demoGroup :: "string \<Rightarrow> string list \<Rightarrow> string \<Rightarrow> OperatorGroup" where
  "demoGroup name namespaces apis = NewOperatorGroup \<lparr>og_Namespace = ''op'', og_Name = name,
     og_StatusNamespaces = namespaces, og_ProvidedAPIs = apis\<rparr>"

lemma ReconcileAPIIntersection_decides_witness:
  "ReconcileAPIIntersection (GVKStringToProvidedAPISet ''K.v1.g'') (demoGroup ''a'' [''x''] [])
     [demoGroup ''b'' [[]] ''K.v1.g''] = APIConflict"
proof -
  let ?a = "demoGroup ''a'' [''x''] []" and ?b = "demoGroup ''b'' [[]] ''K.v1.g''" and ?s = "GVKStringToProvidedAPISet ''K.v1.g''"
  have wf: "ns_wf (g_targets ?a)" "ns_wf (g_targets ?b)"
    by (auto simp: demoGroup_def intro!: NewOperatorGroup_wf)
  have v: "g_targets ?a = [''op'', ''x'']" "g_targets ?b = [[]]" "g_providedAPIs ?a = []" "g_providedAPIs ?b = ?s" "?s \<noteq> []"
    "group_Identifier ?a \<noteq> group_Identifier ?b"
    by code_simp+
  have "set ?s \<inter> rivals ?a [?b] \<noteq> {}"
    using v by (cases ?s) (auto simp: rivals_def covered_def)
  then show ?thesis using ReconcileAPIIntersection_decides [of ?a "[?b]" ?s] wf v(3,5) by simp
qed

end
