(* ===== verification/CSV_Phases.thy ===== *)
theory CSV_Phases
  imports CSV_Labels Operator_Groups
begin

text \<open>
  The state machine of ClusterServiceVersions, \<open>transitionCSVState\<close> and the functions it calls in
  \<open>operators/olm/operator.go\<close>, \<open>operators/olm/operatorconditions.go\<close> and
  \<open>operators/olm/operatorgroup.go\<close>, with the classification of install errors
  (\<open>install/errors.go\<close>) and of webhook rules (\<open>install/webhook.go\<close>).

  What one synchronisation reads of the cluster is the record \<open>world\<close>: the results of listers and
  clients, and of the checks on requirements, deployments, API services and certificates that are
  not modelled themselves. Writes to the cluster and requeues are listed as effects. Times are
  seconds. A nil dereference is \<open>None\<close>.
\<close>

section \<open>Phases and conditions\<close>

definition ConditionsLengthLimit :: nat where
  "ConditionsLengthLimit = 20"

definition TrimConditions :: "CSV \<Rightarrow> CSV" where
  "TrimConditions c =
     (if length (csv_Conditions c) \<le> ConditionsLengthLimit then c
      else c\<lparr>csv_Conditions := drop (length (csv_Conditions c) - ConditionsLengthLimit) (csv_Conditions c)\<rparr>)"

definition newCondition :: "ConditionReason \<Rightarrow> string \<Rightarrow> CSV \<Rightarrow> CSVCondition" where
  "newCondition reason message c = \<lparr>cc_Phase = C_Phase c, cc_LastTransitionTime = csv_LastTransitionTime c,
     cc_LastUpdateTime = csv_LastUpdateTime c, cc_Message = message, cc_Reason = reason\<rparr>"

definition SetPhase :: "CSVPhase \<Rightarrow> ConditionReason \<Rightarrow> string \<Rightarrow> nat \<Rightarrow> CSV \<Rightarrow> CSV" where
  "SetPhase phase reason message now c =
     (let c1 = c\<lparr>csv_LastUpdateTime := Some now\<rparr>;
          c2 = (if C_Phase c1 \<noteq> phase then c1\<lparr>C_Phase := phase, csv_LastTransitionTime := Some now\<rparr> else c1);
          c3 = c2\<lparr>csv_Message := message, csv_Reason := reason\<rparr>;
          add = c3\<lparr>csv_Conditions := csv_Conditions c3 @ [newCondition reason message c3]\<rparr>
      in TrimConditions
           (if length (csv_Conditions c3) = 0 then add
            else let previousCondition = last (csv_Conditions c3)
                 in if cc_Phase previousCondition \<noteq> C_Phase c3 \<or> cc_Reason previousCondition \<noteq> csv_Reason c3
                    then add else c3))"

definition SetPhaseIfChanged :: "CSVPhase \<Rightarrow> ConditionReason \<Rightarrow> string \<Rightarrow> nat \<Rightarrow> CSV \<Rightarrow> CSV" where
  "SetPhaseIfChanged phase reason message now c =
     (if C_Phase c = phase \<and> csv_Reason c = reason \<and> csv_Message c = message then c
      else SetPhase phase reason message now c)"

section \<open>Errors of installations and webhooks\<close>

datatype install_error = StrategyError string string | serviceUnavailable string | plainError string

fun errorText :: "install_error \<Rightarrow> string" where
  "errorText (StrategyError reason message) = message"
| "errorText (serviceUnavailable message) = message"
| "errorText (plainError message) = message"

fun ReasonForError :: "install_error \<Rightarrow> string" where
  "ReasonForError (StrategyError reason message) = reason"
| "ReasonForError _ = ''Unknown''"

definition unrecoverableErrors :: "string list" where
  "unrecoverableErrors = [''InvalidStrategy'', ''Timeout'', ''PatchUnsuccessful'', ''InsufficentPermissions'']"

definition IsErrorUnrecoverable :: "install_error option \<Rightarrow> bool" where
  "IsErrorUnrecoverable err = (case err of None \<Rightarrow> False | Some e \<Rightarrow> ReasonForError e \<in> set unrecoverableErrors)"

fun IsServiceUnavailable :: "install_error option \<Rightarrow> bool" where
  "IsServiceUnavailable (Some (serviceUnavailable m)) = True"
| "IsServiceUnavailable _ = False"

fun findFirstError :: "('e option \<Rightarrow> bool) \<Rightarrow> 'e option list \<Rightarrow> 'e option" where
  "findFirstError f [] = None"
| "findFirstError f (err # es) = (if f err then err else findFirstError f es)"

fun ValidWebhookRules :: "webhookRule list \<Rightarrow> string option" where
  "ValidWebhookRules [] = None"
| "ValidWebhookRules (rule # rules) =
     (if ''*'' \<in> set (wr_APIGroups rule) then Some ''webhook rules cannot include all groups''
      else if ''operators.coreos.com'' \<in> set (wr_APIGroups rule) then Some ''webhook rules cannot include the OLM group''
      else if ''admissionregistration.k8s.io'' \<in> set (wr_APIGroups rule)
              \<and> (''*'' \<in> set (wr_Resources rule) \<or> ''MutatingWebhookConfiguration'' \<in> set (wr_Resources rule)
                 \<or> ''ValidatingWebhookConfiguration'' \<in> set (wr_Resources rule))
      then Some ''webhook rules cannot include MutatingWebhookConfiguration or ValidatingWebhookConfiguration resources''
      else ValidWebhookRules rules)"

section \<open>Install modes\<close>

fun NewInstallModeSet :: "(string \<times> bool) list \<Rightarrow> (string \<times> bool) list \<Rightarrow> (string \<times> bool) list option" where
  "NewInstallModeSet [] modeSet = Some modeSet"
| "NewInstallModeSet ((t, supported) # modes) modeSet =
     (if map_of modeSet t \<noteq> None then None else NewInstallModeSet modes (AList.update t supported modeSet))"

definition modeSupported :: "(string \<times> bool) list \<Rightarrow> string \<Rightarrow> bool" where
  "modeSupported modeSet t = (case map_of modeSet t of Some b \<Rightarrow> b | None \<Rightarrow> False)"

text \<open>An error is the install mode that is missing, or a message.\<close>

fun multiSupports :: "(string \<times> bool) list \<Rightarrow> string \<Rightarrow> string list \<Rightarrow> string option" where
  "multiSupports modeSet operatorNamespace [] = None"
| "multiSupports modeSet operatorNamespace (namespace # namespaces) =
     (if namespace = operatorNamespace \<and> \<not> modeSupported modeSet ''OwnNamespace''
      then Some ''OwnNamespace InstallModeType not supported, cannot configure to watch own namespace''
      else if namespace = []
      then Some ''operatorgroup has invalid selected namespaces, NamespaceAll found when |selected namespaces| > 1''
      else multiSupports modeSet operatorNamespace namespaces)"

definition Supports :: "(string \<times> bool) list \<Rightarrow> string \<Rightarrow> string list \<Rightarrow> string option" where
  "Supports modeSet operatorNamespace namespaces =
     (case namespaces of
        [] \<Rightarrow> Some ''operatorgroup has invalid selected namespaces, cannot configure to watch zero namespaces''
      | [namespace] \<Rightarrow>
          if namespace = operatorNamespace then
            (if \<not> modeSupported modeSet ''OwnNamespace''
             then Some ''OwnNamespace InstallModeType not supported, cannot configure to watch own namespace'' else None)
          else if namespace = [] then
            (if \<not> modeSupported modeSet ''AllNamespaces''
             then Some ''AllNamespaces InstallModeType not supported, cannot configure to watch all namespaces'' else None)
          else (if \<not> modeSupported modeSet ''SingleNamespace''
                then Some ''SingleNamespace InstallModeType not supported, cannot configure to watch one namespace'' else None)
      | _ \<Rightarrow>
          if \<not> modeSupported modeSet ''MultiNamespace''
          then Some (''MultiNamespace InstallModeType not supported, cannot configure to watch '' @ showNat (length namespaces) @ '' namespaces'')
          else multiSupports modeSet operatorNamespace namespaces)"

section \<open>The world of one synchronisation\<close>

text \<open>An operator group. An empty list of status namespaces stands for a nil one: the field is
  left out of the stored resource when it is empty.\<close>

record Group = og_resource +
  gr_Annotated :: bool
  gr_StaticProvidedAPIs :: bool
  gr_UpgradeStrategy :: UpgradeStrategy

definition BuildTargetNamespaces :: "Group \<Rightarrow> string" where
  "BuildTargetNamespaces grp = Join (SliceStable (<) (og_StatusNamespaces grp)) '',''"

record statusCondition =
  sc_Type :: string
  sc_Status :: string
  sc_Message :: string
  sc_ObservedGeneration :: nat

record OperatorCondition =
  ocd_Overrides :: "statusCondition list"
  ocd_Conditions :: "statusCondition list"
  ocd_Generation :: nat

datatype 'a lookup = notFound | lookupError string | present 'a

datatype apiServiceState = serviceMissing | serviceError string | serviceFound bool

datatype update_result = updated | updateNotFound | updateFailed string

datatype effect = requeueCSV string string | updateGroup Group | cleanupDeployments string string
  | deleteCSV string string | installStrategy | ensuredClusterRoles

record world =
  w_now :: nat
  w_clock :: nat
  w_quote :: "string \<Rightarrow> string"
  w_showModes :: "(string \<times> bool) list \<Rightarrow> string"
  w_updateCSV :: "CSV \<Rightarrow> string + CSV"
  w_groups :: "string + Group list"
  w_allGroups :: "string + Group list"
  w_groupTargets :: "Group \<Rightarrow> string + string list"
  w_requeueGroup :: "string option"
  w_updateGroup :: "Group \<Rightarrow> update_result"
  w_get :: "string \<Rightarrow> string \<Rightarrow> string + CSV"
  w_csvs :: "string + CSV list"
  w_condition :: "string \<Rightarrow> string \<Rightarrow> OperatorCondition lookup"
  w_requirements :: "CSV \<Rightarrow> bool \<times> string list \<times> string option"
  w_apiService :: "CSV \<Rightarrow> apiDesc \<Rightarrow> apiServiceState"
  w_strategy :: "CSV \<Rightarrow> string + nat"
  w_clients :: bool
  w_install :: "install_error option"
  w_certsRotated :: "nat option"
  w_deploymentSpecs :: "string + nat"
  w_checkInstalled :: "bool \<times> install_error option"
  w_apiServicesAvailable :: "bool \<times> install_error option"
  w_webhooksAvailable :: "bool \<times> install_error option"
  w_apiServiceResources :: "string option"
  w_actionable :: bool
  w_shouldRotate :: "string + bool"
  w_clusterRoles :: "string option"
  w_delete :: "string option"

type_synonym outcome = "CSV \<times> csv_error option \<times> effect list"

section \<open>Helpers of the transition\<close>

fun findCondition :: "statusCondition list \<Rightarrow> string \<Rightarrow> statusCondition option" where
  "findCondition [] t = None"
| "findCondition (c # cs) t = (if sc_Type c = t then Some c else findCondition cs t)"

text \<open>Whether the operator may be upgraded, and the error otherwise.\<close>

definition isOperatorUpgradeable :: "world \<Rightarrow> CSV \<Rightarrow> bool \<times> string" where
  "isOperatorUpgradeable W csv =
     (case w_condition W (C_Namespace csv) (C_Name csv) of
        notFound \<Rightarrow> (True, [])
      | lookupError e \<Rightarrow> (False, e)
      | present cond \<Rightarrow>
          (case findCondition (ocd_Overrides cond) ''Upgradeable'' of
             Some o' \<Rightarrow>
               if sc_Status o' = ''True'' then (True, [])
               else (False, ''the operator is not upgradeable: '' @ sc_Message o')
           | None \<Rightarrow>
               (case findCondition (ocd_Conditions cond) ''Upgradeable'' of
                  Some c \<Rightarrow>
                    if sc_ObservedGeneration c \<noteq> ocd_Generation cond then (False, ''the operatorcondition status '' @ w_quote W (sc_Type c) @ ''='' @ w_quote W (sc_Status c) @ '' is outdated'')
                    else if sc_Status c = ''False'' then (False, ''the operator is not upgradeable: '' @ sc_Message c)
                    else (True, [])
                | None \<Rightarrow> (True, []))))"

definition OperatorGroupAnnotationKey :: string where
  "OperatorGroupAnnotationKey = ''olm.operatorGroup''"

definition OperatorGroupTargetsAnnotationKey :: string where
  "OperatorGroupTargetsAnnotationKey = ''olm.targetNamespaces''"

definition operatorGroupAnnotationsDiffer :: "CSV \<Rightarrow> Group \<Rightarrow> bool" where
  "operatorGroupAnnotationsDiffer csv op \<longleftrightarrow>
     map_of (csv_Annotations csv) OperatorGroupNamespaceAnnotationKey \<noteq> Some (og_Namespace op)
     \<or> map_of (csv_Annotations csv) OperatorGroupAnnotationKey \<noteq> Some (og_Name op)
     \<or> map_of (csv_Annotations csv) OperatorGroupTargetsAnnotationKey \<noteq> Some (BuildTargetNamespaces op)"

definition setOperatorGroupAnnotations :: "CSV \<Rightarrow> Group \<Rightarrow> bool \<Rightarrow> CSV" where
  "setOperatorGroupAnnotations csv op addTargets =
     (let a1 = AList.update OperatorGroupNamespaceAnnotationKey (og_Namespace op) (csv_Annotations csv);
          a2 = AList.update OperatorGroupAnnotationKey (og_Name op) a1;
          a3 = (if addTargets \<and> og_StatusNamespaces op \<noteq> []
                then AList.update OperatorGroupTargetsAnnotationKey (BuildTargetNamespaces op) a2 else a2)
      in csv\<lparr>csv_Annotations := a3\<rparr>)"

definition tooManyGroups :: string where
  "tooManyGroups = ''csv created in namespace with multiple operatorgroups, can'' @ [CHR 0x27] @ ''t pick one automatically''"

text \<open>The version, changed; the group if the version belongs to exactly one; the error.\<close>

definition operatorGroupForCSV :: "world \<Rightarrow> CSV \<Rightarrow> CSV \<times> Group option \<times> csv_error option" where
  "operatorGroupForCSV W csv =
     (case w_groups W of
        Inl e \<Rightarrow> (csv, None, Some (otherError e))
      | Inr [] \<Rightarrow>
          (SetPhase CSVPhaseFailed CSVReasonNoOperatorGroup ''csv in namespace with no operatorgroups'' (w_now W) csv,
           None, Some (otherError ''csv in namespace with no operatorgroups''))
      | Inr [operatorGroup] \<Rightarrow>
          if operatorGroupAnnotationsDiffer csv operatorGroup then
            let csv1 = setOperatorGroupAnnotations csv operatorGroup True
            in (case w_updateCSV W csv1 of
                  Inl e \<Rightarrow> (csv1, None, Some (otherError e))
                | Inr _ \<Rightarrow>
                    let csv2 = (case w_groupTargets W operatorGroup of
                          Inr [] \<Rightarrow> SetPhaseIfChanged CSVPhaseFailed CSVReasonNoTargetNamespaces
                            ''no targetNamespaces are matched operatorgroups namespace selection'' (w_now W) csv1
                        | _ \<Rightarrow> csv1)
                    in (csv2, None, map_option otherError (w_requeueGroup W)))
          else (csv, Some operatorGroup, None)
      | Inr _ \<Rightarrow>
          ((if csv_Reason csv \<noteq> CSVReasonTooManyOperatorGroups
            then SetPhase CSVPhaseFailed CSVReasonTooManyOperatorGroups
              tooManyGroups (w_now W) csv
            else csv),
           None, Some (otherError tooManyGroups)))"

definition namespaceCSVs :: "world \<Rightarrow> CSV list" where
  "namespaceCSVs W = csvSet_with (w_csvs W) None"

text \<open>The flag tells that the version is being replaced, the error of the code.\<close>

definition checkReplacementsAndUpdateStatus :: "world \<Rightarrow> CSV \<Rightarrow> CSV \<times> bool" where
  "checkReplacementsAndUpdateStatus W csv =
     (if C_Phase csv = CSVPhaseReplacing \<or> C_Phase csv = CSVPhaseDeleting then (csv, False)
      else case IsBeingReplaced csv (namespaceCSVs W) of
             Some newer \<Rightarrow>
               (SetPhase CSVPhaseReplacing CSVReasonBeingReplaced (''being replaced by csv: '' @ C_Name newer) (w_now W) csv, True)
           | None \<Rightarrow> (csv, False))"

text \<open>The strategy, \<open>None\<close> when there is none to install, and the requeue of the previous version.\<close>

definition parseStrategiesAndUpdateStatus :: "world \<Rightarrow> CSV \<Rightarrow> CSV \<times> nat option \<times> effect list" where
  "parseStrategiesAndUpdateStatus W csv =
     (case w_strategy W csv of
        Inl e \<Rightarrow> (SetPhase CSVPhaseFailed CSVReasonInvalidStrategy (''install strategy invalid: '' @ e) (w_now W) csv, None, [])
      | Inr strategy \<Rightarrow>
          let eff = (case IsReplacing (w_get W) csv of
                       Some previousCSV \<Rightarrow> [requeueCSV (C_Namespace previousCSV) (C_Name previousCSV)] | None \<Rightarrow> [])
          in if w_clients W then (csv, Some strategy, eff) else (csv, None, eff))"

definition apiServiceOwnerConflicts :: "world \<Rightarrow> CSV \<Rightarrow> csv_error option" where
  "apiServiceOwnerConflicts W csv =
     fold (\<lambda>desc acc. case acc of Some e \<Rightarrow> Some e | None \<Rightarrow>
       (case w_apiService W csv desc of
          serviceError e \<Rightarrow> Some (otherError e)
        | serviceMissing \<Rightarrow> None
        | serviceFound adoptable \<Rightarrow> if \<not> adoptable then Some ErrAPIServiceOwnerConflict else None))
       (csv_OwnedAPIServices csv) None"

fun checkWebhooks :: "(string \<times> webhookRule list) list \<Rightarrow> string list \<Rightarrow> string option" where
  "checkWebhooks [] webhookNames = None"
| "checkWebhooks ((name, rules) # descs) webhookNames =
     (if name \<in> set webhookNames then Some ''CSV contains repeated WebhookDescription name''
      else case ValidWebhookRules rules of
             Some e \<Rightarrow> Some e
           | None \<Rightarrow> checkWebhooks descs (name # webhookNames))"

definition updateInstallStatus :: "world \<Rightarrow> CSVPhase \<Rightarrow> ConditionReason \<Rightarrow> CSV \<Rightarrow> CSV \<times> install_error option \<times> effect list" where
  "updateInstallStatus W requeuePhase requeueConditionReason csv =
     (let (strategyInstalled, strategyErr) = w_checkInstalled W;
          now = w_now W;
          (apiServicesInstalled, apiServiceErr) = w_apiServicesAvailable W;
          (webhooksInstalled, webhookErr) = w_webhooksAvailable W;
          requeue = [requeueCSV (C_Namespace csv) (C_Name csv)]
      in if strategyInstalled \<and> apiServicesInstalled \<and> webhooksInstalled then
           (SetPhaseIfChanged CSVPhaseSucceeded CSVReasonInstallSuccessful ''install strategy completed with no errors'' now csv, None, [])
         else case findFirstError IsServiceUnavailable [strategyErr, apiServiceErr, webhookErr] of
           Some err \<Rightarrow> (csv, Some err, [])
         | None \<Rightarrow>
         if IsErrorUnrecoverable strategyErr then
           (SetPhaseIfChanged CSVPhaseFailed CSVReasonInstallCheckFailed (''install failed: '' @ errorText (the strategyErr)) now csv, strategyErr, [])
         else case apiServiceErr of
           Some err \<Rightarrow> (SetPhaseIfChanged CSVPhaseFailed CSVReasonAPIServiceInstallFailed (''APIService install failed: '' @ errorText err) now csv,
                         Some err, [])
         | None \<Rightarrow>
         if \<not> apiServicesInstalled then
           (SetPhaseIfChanged requeuePhase requeueConditionReason ''apiServices not installed'' now csv,
            Some (plainError ''apiServices not installed''), requeue)
         else case webhookErr of
           Some err \<Rightarrow> (SetPhaseIfChanged CSVPhaseInstallReady requeueConditionReason (''Webhook install failed: '' @ errorText err) now csv, Some err, [])
         | None \<Rightarrow>
         if \<not> webhooksInstalled then
           (SetPhaseIfChanged requeuePhase requeueConditionReason ''webhooks not installed'' now csv,
            Some (plainError ''webhooks not installed''), requeue)
         else case strategyErr of
           Some err \<Rightarrow>
             (SetPhaseIfChanged
                (if ReasonForError err = ''DeploymentUpdated'' \<or> ReasonForError err = ''AnnotationsMissing''
                 then CSVPhaseInstallReady else requeuePhase)
                requeueConditionReason (''installing: '' @ errorText err) now csv, Some err, requeue)
         | None \<Rightarrow> (csv, None, []))"

section \<open>The phases\<close>

definition transitionNone :: "world \<Rightarrow> CSV \<Rightarrow> outcome" where
  "transitionNone W out =
     (SetPhase CSVPhasePending CSVReasonRequirementsUnknown ''requirements not yet checked'' (w_now W) out, None, [])"

text \<open>The checks of a pending version once its requirements are met.\<close>

definition checkConflicts :: "world \<Rightarrow> CSV \<Rightarrow> CSV \<times> csv_error option \<times> bool" where
  "checkConflicts W out =
     (case checkWebhooks (csv_Webhooks out) [] of
        Some e \<Rightarrow> (SetPhaseIfChanged CSVPhaseFailed CSVReasonInvalidWebhookDescription e (w_now W) out, None, False)
      | None \<Rightarrow>
          (case crdOwnerConflicts out (namespaceCSVs W) of
             Some e \<Rightarrow>
               ((if e = ErrCRDOwnerConflict
                 then SetPhase CSVPhaseFailed CSVReasonOwnerConflict ''conflicting CRD owner in namespace'' (w_now W) out else out),
                Some e, False)
           | None \<Rightarrow>
               (case apiServiceOwnerConflicts W out of
                  Some e \<Rightarrow>
                    ((if e = ErrAPIServiceOwnerConflict
                      then SetPhase CSVPhaseFailed CSVReasonOwnerConflict ''unable to adopt APIService'' (w_now W) out else out),
                     Some e, False)
                | None \<Rightarrow> (out, None, True))))"

definition transitionPending :: "world \<Rightarrow> CSV \<Rightarrow> outcome" where
  "transitionPending W out =
     (let previous = IsReplacing (w_get W) out;
          upgradeable = (case previous of Some replacedCSV \<Rightarrow> isOperatorUpgradeable W replacedCSV | None \<Rightarrow> (True, []))
      in if \<not> fst upgradeable then
           (SetPhaseIfChanged CSVPhasePending CSVReasonOperatorConditionNotUpgradeable
              (''operator is not upgradeable: '' @ snd upgradeable) (w_now W) out, None, [])
         else
         (case w_requirements W out of
            (_, _, Some e) \<Rightarrow>
              (SetPhase CSVPhaseFailed CSVReasonInvalidStrategy (''install strategy invalid: '' @ e) (w_now W) out, None, [])
          | (met, statuses, None) \<Rightarrow>
              let out1 = out\<lparr>csv_RequirementStatus := statuses\<rparr>;
                  eff = (case previous of
                           Some prev \<Rightarrow> if C_Phase prev = CSVPhaseSucceeded then [requeueCSV (C_Namespace prev) (C_Name prev)] else []
                         | None \<Rightarrow> [])
              in if \<not> met then
                   (SetPhaseIfChanged CSVPhasePending CSVReasonRequirementsNotMet
                      (''one or more requirements couldn'' @ [CHR 0x27] @ ''t be found'') (w_now W) out1, Some ErrRequirementsNotMet, eff)
                 else
                   let (out2, err, ok) = checkConflicts W out1
                   in if \<not> ok then (out2, err, eff)
                      else if (case previous of Some prev \<Rightarrow> C_Phase prev \<noteq> CSVPhaseReplacing | None \<Rightarrow> False) then (out2, None, eff)
                      else (SetPhase CSVPhaseInstallReady CSVReasonRequirementsMet
                              ''all requirements found, attempting install'' (w_now W) out2, None, eff)))"

definition transitionInstallReady :: "world \<Rightarrow> CSV \<Rightarrow> outcome" where
  "transitionInstallReady W out =
     (case parseStrategiesAndUpdateStatus W out of
        (out1, None, eff) \<Rightarrow> (out1, None, eff)
      | (out1, Some strategy, eff) \<Rightarrow>
          (case w_install W of
             Some e \<Rightarrow>
               (SetPhase CSVPhaseFailed
                  (if IsErrorUnrecoverable (Some e) then CSVReasonComponentFailedNoRetry else CSVReasonComponentFailed)
                  (''install strategy failed: '' @ errorText e) (w_now W) out1,
                Some (otherError (errorText e)), eff @ [installStrategy])
           | None \<Rightarrow>
               let out2 = (case w_certsRotated W of
                     Some rotateAt \<Rightarrow> out1\<lparr>csv_CertsLastUpdated := Some (w_clock W), csv_CertsRotateAt := Some rotateAt\<rparr>
                   | None \<Rightarrow> out1)
               in (SetPhase CSVPhaseInstalling CSVReasonInstallSuccessful ''waiting for install components to report healthy'' (w_now W) out2,
                   None, eff @ [installStrategy, requeueCSV (C_Namespace out) (C_Name out)])))"

definition badDeployment :: "world \<Rightarrow> CSV \<Rightarrow> CSV" where
  "badDeployment W out = SetPhase CSVPhasePending CSVReasonNeedsReinstall ''calculated deployment install is bad'' (w_now W) out"

definition transitionInstalling :: "world \<Rightarrow> CSV \<Rightarrow> outcome" where
  "transitionInstalling W out =
     (case parseStrategiesAndUpdateStatus W out of
        (out1, None, eff) \<Rightarrow> (out1, None, eff)
      | (out1, Some strategy, eff) \<Rightarrow>
          (case w_deploymentSpecs W of
             Inl e \<Rightarrow> (badDeployment W out1, None, eff)
           | Inr strategy \<Rightarrow>
               let (out2, installErr, eff2) = updateInstallStatus W CSVPhaseInstalling CSVReasonWaiting out1
               in (case installErr of
                     None \<Rightarrow> (out2, None, eff @ eff2)
                   | Some e \<Rightarrow>
                       if IsServiceUnavailable installErr then (out2, Some (otherError (errorText e)), eff @ eff2)
                       else if (case csv_LastTransitionTime out2 of Some t \<Rightarrow> t + 300 \<le> w_now W | None \<Rightarrow> False)
                       then (SetPhase CSVPhaseFailed CSVReasonInstallCheckFailed ''install timeout'' (w_now W) out2, None, eff @ eff2)
                       else (out2, None, eff @ eff2))))"

definition transitionSucceeded :: "world \<Rightarrow> CSV \<Rightarrow> outcome" where
  "transitionSucceeded W out =
     (case checkReplacementsAndUpdateStatus W out of
        (out1, True) \<Rightarrow> (out1, None, [])
      | (out1, False) \<Rightarrow>
     (case parseStrategiesAndUpdateStatus W out1 of
        (out2, None, eff) \<Rightarrow> (out2, None, eff)
      | (out2, Some strategy, eff) \<Rightarrow>
     (case w_apiServiceResources W of
        Some e \<Rightarrow> (SetPhase CSVPhaseFailed CSVReasonAPIServiceResourceIssue e (w_now W) out2, None, eff)
      | None \<Rightarrow>
     (case w_shouldRotate W of
        Inl e \<Rightarrow> (out2, None, eff)
      | Inr True \<Rightarrow>
          (SetPhase CSVPhasePending CSVReasonNeedsCertRotation ''CSV owns resources that require a cert refresh'' (w_now W) out2, None, eff)
      | Inr False \<Rightarrow>
     (case w_requirements W out2 of
        (_, _, Some e) \<Rightarrow> (SetPhase CSVPhaseFailed CSVReasonInvalidStrategy (''install strategy invalid: '' @ e) (w_now W) out2, None, eff)
      | (met, statuses, None) \<Rightarrow>
          if \<not> met then
            (SetPhase CSVPhaseFailed CSVReasonRequirementsNotMet ''requirements no longer met'' (w_now W)
               (out2\<lparr>csv_RequirementStatus := statuses\<rparr>), None, eff)
          else
     (case w_deploymentSpecs W of
        Inl e \<Rightarrow> (badDeployment W out2, None, eff)
      | Inr strategy \<Rightarrow>
          let (out3, installErr, eff2) = updateInstallStatus W CSVPhaseFailed CSVReasonComponentUnhealthy out2
          in (case installErr of
                Some e \<Rightarrow>
                  if IsServiceUnavailable installErr then (out3, Some (otherError (errorText e)), eff @ eff2)
                  else (out3, None, eff @ eff2)
              | None \<Rightarrow> (out3, map_option otherError (w_clusterRoles W), eff @ eff2 @ [ensuredClusterRoles]))))))))"

text \<open>A failed version after the checks of the group have passed again.\<close>

definition retryFailed :: "world \<Rightarrow> nat \<Rightarrow> effect list \<Rightarrow> CSV \<Rightarrow> outcome" where
  "retryFailed W strategy eff out =
     (case w_requirements W out of (met, statuses, err) \<Rightarrow>
      if err \<noteq> None \<and> csv_Reason out \<noteq> CSVReasonInvalidStrategy then
        (SetPhase CSVPhaseFailed CSVReasonInvalidStrategy (''install strategy invalid: '' @ the err) (w_now W) out, None, eff)
      else if \<not> met then
        (SetPhase CSVPhasePending CSVReasonRequirementsNotMet ''requirements not met'' (w_now W)
           (out\<lparr>csv_RequirementStatus := statuses\<rparr>), None, eff)
      else case w_apiServiceResources W of
        Some e \<Rightarrow>
          ((if w_actionable W then SetPhase CSVPhasePending CSVReasonAPIServiceResourcesNeedReinstall e (w_now W) out else out), None, eff)
      | None \<Rightarrow>
          (case w_shouldRotate W of
             Inl e \<Rightarrow> (out, None, eff)
           | Inr True \<Rightarrow> (SetPhase CSVPhasePending CSVReasonNeedsCertRotation ''owned APIServices need cert refresh'' (w_now W) out, None, eff)
           | Inr False \<Rightarrow>
               (case w_deploymentSpecs W of
                  Inl e \<Rightarrow> (badDeployment W out, None, eff)
                | Inr strategy \<Rightarrow>
                    let (out1, installErr, eff2) = updateInstallStatus W CSVPhasePending CSVReasonNeedsReinstall out
                    in (case installErr of
                          Some e \<Rightarrow>
                            if IsServiceUnavailable installErr then (out1, Some (otherError (errorText e)), eff @ eff2)
                            else (out1, None, eff @ eff2)
                        | None \<Rightarrow> (out1, None, eff @ eff2)))))"

fun phaseText :: "CSVPhase \<Rightarrow> string" where
  "phaseText CSVPhaseNone = []"
| "phaseText CSVPhasePending = ''Pending''"
| "phaseText CSVPhaseInstallReady = ''InstallReady''"
| "phaseText CSVPhaseInstalling = ''Installing''"
| "phaseText CSVPhaseSucceeded = ''Succeeded''"
| "phaseText CSVPhaseFailed = ''Failed''"
| "phaseText CSVPhaseUnknown = ''Unknown''"
| "phaseText CSVPhaseReplacing = ''Replacing''"
| "phaseText CSVPhaseDeleting = ''Deleting''"

definition transitionFailed :: "world \<Rightarrow> Group \<Rightarrow> CSV \<Rightarrow> outcome" where
  "transitionFailed W operatorGroup out =
     (case (if gr_UpgradeStrategy operatorGroup = UpgradeStrategyUnsafeFailForward
            then IsBeingReplaced out (namespaceCSVs W) else None) of
        Some newer \<Rightarrow>
          (SetPhase CSVPhaseReplacing CSVReasonBeingReplaced
             (''Fail Forward is enabled, allowing '' @ phaseText (C_Phase out) @ '' csv to be replaced by csv: '' @ C_Name newer) (w_now W) out,
           None, [])
      | None \<Rightarrow>
          (case parseStrategiesAndUpdateStatus W out of
             (out1, None, eff) \<Rightarrow> (out1, None, eff)
           | (out1, Some strategy, eff) \<Rightarrow>
               if csv_Reason out1 \<in> {CSVReasonNoTargetNamespaces, CSVReasonNoOperatorGroup, CSVReasonTooManyOperatorGroups,
                    CSVReasonUnsupportedOperatorGroup} then
                 (SetPhase CSVPhasePending CSVReasonRequirementsUnknown ''InstallModes now support target namespaces'' (w_now W) out1, None, eff)
               else if csv_Reason out1 = CSVReasonInterOperatorGroupOwnerConflict then
                 (SetPhase CSVPhasePending CSVReasonRequirementsUnknown
                    ''OperatorGroup no longer intersecting with conflicting owner'' (w_now W) out1, None, eff)
               else if csv_Reason out1 = CSVReasonCannotModifyStaticOperatorGroupProvidedAPIs then
                 (SetPhase CSVPhasePending CSVReasonRequirementsUnknown
                    ''static OperatorGroup and intersecting groups now support providedAPIs'' (w_now W) out1, None, eff)
               else retryFailed W strategy eff out1))"

definition finishReplacing :: "world \<Rightarrow> ChainCSV option \<Rightarrow> CSV \<Rightarrow> outcome" where
  "finishReplacing W newest out =
     (case newest of
        Some n \<Rightarrow>
          if C_Phase n = CSVPhaseSucceeded then
            (SetPhase CSVPhaseDeleting CSVReasonReplaced
               ''has been replaced by a newer ClusterServiceVersion that has successfully installed.'' (w_now W) out, None, [])
          else (out, None, [requeueCSV (C_Namespace n) (C_Name n), requeueCSV (C_Namespace out) (C_Name out)])
      | None \<Rightarrow> (out, Some (otherError ''marked as replacement, but no replacement CSV found in cluster''), []))"

text \<open>With fail forward, the namespace of the replacement is read before the replacement is
  checked for nil.\<close>

definition transitionReplacing :: "world \<Rightarrow> Group \<Rightarrow> CSV \<Rightarrow> outcome option" where
  "transitionReplacing W operatorGroup out =
     (case IsReplacing (w_get W) out of
        Some prev \<Rightarrow> Some (out, None, [])
      | None \<Rightarrow>
          let newer = IsBeingReplaced out (namespaceCSVs W)
          in if gr_UpgradeStrategy operatorGroup = UpgradeStrategyUnsafeFailForward then
               (case newer of
                  None \<Rightarrow> None
                | Some n \<Rightarrow>
                    (case w_csvs W of
                       Inl e \<Rightarrow> Some (out, Some (otherError e), [])
                     | Inr csvs \<Rightarrow>
                         (case WalkReplacementChain (Some (ChainCSV.truncate n)) (ReplacementMapping (map ChainCSV.truncate csvs))
                                 [WithUniqueCSVs []] of
                            None \<Rightarrow> None
                          | Some (Inl e) \<Rightarrow> Some (out, Some (walkError e), [])
                          | Some (Inr lastCSVInChain) \<Rightarrow> Some (finishReplacing W (Some lastCSVInChain) out))))
             else Some (finishReplacing W (map_option ChainCSV.truncate newer) out))"

definition transitionDeleting :: "world \<Rightarrow> CSV \<Rightarrow> outcome" where
  "transitionDeleting W out = (out, map_option otherError (w_delete W), [deleteCSV (C_Namespace out) (C_Name out)])"

definition transitionPhase :: "world \<Rightarrow> Group \<Rightarrow> CSV \<Rightarrow> outcome option" where
  "transitionPhase W operatorGroup out =
     (case C_Phase out of
        CSVPhaseNone \<Rightarrow> Some (transitionNone W out)
      | CSVPhasePending \<Rightarrow> Some (transitionPending W out)
      | CSVPhaseInstallReady \<Rightarrow> Some (transitionInstallReady W out)
      | CSVPhaseInstalling \<Rightarrow> Some (transitionInstalling W out)
      | CSVPhaseSucceeded \<Rightarrow> Some (transitionSucceeded W out)
      | CSVPhaseFailed \<Rightarrow> Some (transitionFailed W operatorGroup out)
      | CSVPhaseReplacing \<Rightarrow> transitionReplacing W operatorGroup out
      | CSVPhaseDeleting \<Rightarrow> Some (transitionDeleting W out)
      | CSVPhaseUnknown \<Rightarrow> Some (out, None, []))"

section \<open>The transition\<close>

text \<open>The reconciliation of the provided APIs: \<open>Some\<close> ends the transition.\<close>

definition reconcileAPIs :: "world \<Rightarrow> Group \<Rightarrow> APISet \<Rightarrow> CSV \<Rightarrow> outcome option" where
  "reconcileAPIs W operatorGroup providedAPIs out =
     (case w_allGroups W of
        Inl e \<Rightarrow> Some (out, None, [])
      | Inr allGroups \<Rightarrow>
          let otherGroups = filter (\<lambda>g. og_Name g \<noteq> og_Name operatorGroup \<or> og_Namespace g \<noteq> og_Namespace operatorGroup) allGroups;
              groupSurface = NewOperatorGroup (og_resource.truncate operatorGroup);
              result = ReconcileAPIIntersection providedAPIs groupSurface (NewOperatorGroupSurfaces (map og_resource.truncate otherGroups));
              requeue = requeueCSV (C_Namespace out) (C_Name out);
              write = (\<lambda>apis. let g = operatorGroup\<lparr>og_ProvidedAPIs := apis, gr_Annotated := True\<rparr>
                in (out, (case w_updateGroup W g of
                      updateFailed e \<Rightarrow> Some (otherError (''could not update operatorgroups olm.providedAPIs annotation: '' @ e))
                    | _ \<Rightarrow> None), [updateGroup g, requeue]))
          in if gr_StaticProvidedAPIs operatorGroup \<and> (result = AddAPIs \<or> result = RemoveAPIs) then
               Some (if csv_Reason out \<noteq> CSVReasonInterOperatorGroupOwnerConflict
                     then (SetPhase CSVPhaseFailed CSVReasonCannotModifyStaticOperatorGroupProvidedAPIs
                             ''static provided api operatorgroup cannot be modified by these apis'' (w_now W) out, None,
                           [cleanupDeployments (C_Namespace out) (C_Name out)])
                     else (out, None, []))
             else case result of
               APIConflict \<Rightarrow>
                 Some (if csv_Reason out \<noteq> CSVReasonInterOperatorGroupOwnerConflict
                       then (SetPhase CSVPhaseFailed CSVReasonInterOperatorGroupOwnerConflict
                               ''intersecting operatorgroups provide the same apis'' (w_now W) out, None,
                             [cleanupDeployments (C_Namespace out) (C_Name out)])
                       else (out, None, []))
             | AddAPIs \<Rightarrow>
                 let union = APISet_String (APISet_Union (g_providedAPIs groupSurface) [providedAPIs])
                 in if og_ProvidedAPIs operatorGroup = union then None else Some (write union)
             | RemoveAPIs \<Rightarrow>
                 let difference = APISet_String (APISet_Difference (g_providedAPIs groupSurface) providedAPIs)
                 in Some (if gr_Annotated operatorGroup then write difference else (out, None, [requeue]))
             | NoAPIConflict \<Rightarrow> None)"

text \<open>The checks of the install modes against the namespaces of the group: \<open>Some\<close> ends the transition.\<close>

definition checkInstallModes :: "world \<Rightarrow> CSV \<Rightarrow> CSV option" where
  "checkInstallModes W out =
     (case NewInstallModeSet (csv_InstallModes out) [] of
        None \<Rightarrow> Some (SetPhaseIfChanged CSVPhaseFailed CSVReasonInvalidInstallModes
          (''InstallMode list contains duplicates, cannot make set: '' @ w_showModes W (csv_InstallModes out)) (w_now W) out)
      | Some modeSet \<Rightarrow>
          (case map_of (csv_Annotations out) OperatorGroupTargetsAnnotationKey of
             Some targets \<Rightarrow>
               (case Supports modeSet (C_Namespace out) (Split (CHR '','') targets) of
                  Some e \<Rightarrow> Some (SetPhaseIfChanged CSVPhaseFailed CSVReasonUnsupportedOperatorGroup e (w_now W) out)
                | None \<Rightarrow> None)
           | None \<Rightarrow> Some (SetPhaseIfChanged CSVPhaseFailed CSVReasonNoTargetNamespaces
               ''csv missing olm.targetNamespaces annotation'' (w_now W) out)))"

text \<open>The result is \<open>None\<close> for a panic; the version in it is \<open>None\<close> when the version is skipped.\<close>

definition transitionCSVState :: "world \<Rightarrow> CSV \<Rightarrow> (CSV option \<times> csv_error option \<times> effect list) option" where
  "transitionCSVState W inp =
     (let done = (\<lambda>(out, err, eff). (Some out, err, eff))
      in if csv_Reason inp = CSVReasonComponentFailedNoRetry then Some (None, None, [])
         else case apiSurfaceOfCSV inp of
           Inl e \<Rightarrow> Some (Some inp, None, [])
         | Inr surface \<Rightarrow>
         (let labelSets = LabelSetsFor (surfacePointer surface)
          in case (if length labelSets > 0 then ensureLabels (w_updateCSV W) inp labelSets else Inr inp) of
           Inl e \<Rightarrow> Some (Some inp, Some (otherError e), [])
         | Inr out \<Rightarrow>
         (case operatorGroupForCSV W out of
           (out, None, err) \<Rightarrow> Some (Some out, err, [])
         | (out, Some operatorGroup, _) \<Rightarrow>
         (case checkInstallModes W out of
           Some out \<Rightarrow> Some (Some out, None, [])
         | None \<Rightarrow>
         (case reconcileAPIs W operatorGroup (APISet_StripPlural (os_ProvidedAPIs surface)) out of
           Some r \<Rightarrow> Some (done r)
         | None \<Rightarrow> map_option done (transitionPhase W operatorGroup out))))))"

section \<open>What a phase change keeps\<close>

text \<open>The status is well formed when the history of conditions is bounded and ends in the current
  phase and reason.\<close>

definition status_wf :: "CSV \<Rightarrow> bool" where
  "status_wf c \<longleftrightarrow> length (csv_Conditions c) \<le> ConditionsLengthLimit
     \<and> (csv_Conditions c \<noteq> [] \<longrightarrow> cc_Phase (last (csv_Conditions c)) = C_Phase c
          \<and> cc_Reason (last (csv_Conditions c)) = csv_Reason c)"

text \<open>The parts of a version that are not its status.\<close>

definition spec :: "CSV \<Rightarrow> CSV" where
  "spec c = c\<lparr>C_Phase := CSVPhaseNone, csv_Reason := CSVReasonNone, csv_Message := [], csv_LastUpdateTime := None,
     csv_LastTransitionTime := None, csv_RequirementStatus := [], csv_Conditions := [], csv_CertsLastUpdated := None,
     csv_CertsRotateAt := None\<rparr>"

lemma TrimConditions_simps [simp]:
  "C_Phase (TrimConditions c) = C_Phase c" "csv_Reason (TrimConditions c) = csv_Reason c"
  "spec (TrimConditions c) = spec c"
  "csv_LastTransitionTime (TrimConditions c) = csv_LastTransitionTime c"
  by (simp_all add: TrimConditions_def spec_def)

lemma TrimConditions_wf:
  assumes "csv_Conditions c \<noteq> []" "cc_Phase (last (csv_Conditions c)) = C_Phase c" "cc_Reason (last (csv_Conditions c)) = csv_Reason c"
  shows "status_wf (TrimConditions c)"
  using assms by (auto simp: status_wf_def TrimConditions_def ConditionsLengthLimit_def last_drop)

lemma SetPhase_simps [simp]:
  "C_Phase (SetPhase p r m n c) = p" "csv_Reason (SetPhase p r m n c) = r" "spec (SetPhase p r m n c) = spec c"
  by (simp_all add: SetPhase_def Let_def spec_def TrimConditions_def)

lemma SetPhase_wf: "status_wf c \<Longrightarrow> status_wf (SetPhase p r m n c)"
  unfolding SetPhase_def Let_def
  by (rule TrimConditions_wf) (auto simp: newCondition_def)

lemma SetPhaseIfChanged_simps [simp]:
  "C_Phase (SetPhaseIfChanged p r m n c) = p" "csv_Reason (SetPhaseIfChanged p r m n c) = r"
  "spec (SetPhaseIfChanged p r m n c) = spec c" "status_wf c \<Longrightarrow> status_wf (SetPhaseIfChanged p r m n c)"
  by (simp_all add: SetPhaseIfChanged_def SetPhase_wf)

lemma status_wf_update [simp]:
  "status_wf (c\<lparr>csv_RequirementStatus := x\<rparr>) = status_wf c"
  "status_wf (c\<lparr>csv_CertsLastUpdated := y, csv_CertsRotateAt := z\<rparr>) = status_wf c"
  "status_wf (c\<lparr>csv_Annotations := a\<rparr>) = status_wf c"
  by (simp_all add: status_wf_def)

lemma spec_update [simp]:
  "spec (c\<lparr>csv_RequirementStatus := x\<rparr>) = spec c"
  "spec (c\<lparr>csv_CertsLastUpdated := y, csv_CertsRotateAt := z\<rparr>) = spec c"
  by (simp_all add: spec_def)

text \<open>One record of what an operation on the status may do: the phases it may end in, and that it
  keeps the specification and the form of the status.\<close>

definition moves :: "CSVPhase set \<Rightarrow> CSV \<Rightarrow> CSV \<Rightarrow> bool" where
  "moves P c c' \<longleftrightarrow> C_Phase c' \<in> insert (C_Phase c) P \<and> spec c' = spec c \<and> (status_wf c \<longrightarrow> status_wf c')"

lemma moves_refl [simp]: "moves P c c"
  by (simp add: moves_def)

lemma moves_SetPhase [intro]: "p \<in> P \<Longrightarrow> moves P c (SetPhase p r m n c)"
  by (simp add: moves_def SetPhase_wf)

lemma moves_SetPhaseIfChanged [intro]: "p \<in> P \<Longrightarrow> moves P c (SetPhaseIfChanged p r m n c)"
  by (simp add: moves_def)

lemma moves_trans: "moves P a b \<Longrightarrow> moves P b c \<Longrightarrow> moves P a c"
  by (auto simp: moves_def)

lemma moves_mono: "moves P a b \<Longrightarrow> P \<subseteq> Q \<Longrightarrow> moves Q a b"
  by (auto simp: moves_def)

lemma moves_status [simp]:
  "moves P (c\<lparr>csv_RequirementStatus := x\<rparr>) c' = moves P c c'"
  "moves P (c\<lparr>csv_CertsLastUpdated := y, csv_CertsRotateAt := z\<rparr>) c' = moves P c c'"
  "moves P c (c'\<lparr>csv_RequirementStatus := x\<rparr>) = moves P c c'"
  by (simp_all add: moves_def)

named_theorems moves_lemmas

lemma parse_moves [moves_lemmas]:
  "parseStrategiesAndUpdateStatus W c = (c', s, eff) \<Longrightarrow> moves {CSVPhaseFailed} c c' \<and> (s \<noteq> None \<longrightarrow> c' = c)"
  by (auto simp: parseStrategiesAndUpdateStatus_def Let_def split: sum.splits if_splits)

lemma updateInstallStatus_moves [moves_lemmas]:
  "updateInstallStatus W p r c = (c', e, eff) \<Longrightarrow> moves {CSVPhaseSucceeded, CSVPhaseFailed, CSVPhaseInstallReady, p} c c'"
  by (auto simp: updateInstallStatus_def Let_def split: prod.splits if_splits option.splits)

lemma checkConflicts_moves [moves_lemmas]:
  "checkConflicts W c = (c', e, ok) \<Longrightarrow> moves {CSVPhaseFailed} c c' \<and> (ok \<longrightarrow> c' = c)"
  by (auto simp: checkConflicts_def split: option.splits if_splits)

lemma badDeployment_moves [moves_lemmas]: "moves {CSVPhasePending} c (badDeployment W c)"
  by (auto simp: badDeployment_def)

lemma checkReplacements_moves [moves_lemmas]:
  "checkReplacementsAndUpdateStatus W c = (c', b) \<Longrightarrow> moves {CSVPhaseReplacing} c c' \<and> (\<not> b \<longrightarrow> c' = c)"
  by (auto simp: checkReplacementsAndUpdateStatus_def split: option.splits if_splits)

text \<open>The guard against rules on webhook configurations compares resources with kinds: the plural
  names by which rules refer to these resources pass.\<close>

lemma ValidWebhookRules_plural:
  "ValidWebhookRules [\<lparr>wr_Resources = [''mutatingwebhookconfigurations'', ''validatingwebhookconfigurations''],
     wr_APIGroups = [''admissionregistration.k8s.io'']\<rparr>] = None"
  by code_simp

end
