(* ===== verification/Sync_Machine.thy ===== *)
theory Sync_Machine
  imports OLM_Prelude
begin

text \<open>
  Runs of controllers. A controller synchronises one resource again and again, each time against
  whatever the cluster answers; \<open>runs\<close> are the sequences of such synchronisations with their
  history, the latest first. The locale \<open>sync_machine\<close> is the contract between a controller that
  promises something of each single synchronisation and the properties of whole runs.
\<close>

inductive runs :: "('w \<Rightarrow> 's \<Rightarrow> 's \<Rightarrow> bool) \<Rightarrow> 's \<Rightarrow> ('w \<times> 's) list \<Rightarrow> 's \<Rightarrow> bool" for step s0 where
  runs_start: "runs step s0 [] s0"
| runs_sync: "runs step s0 h s \<Longrightarrow> step w s s' \<Longrightarrow> runs step s0 ((w, s) # h) s'"

inductive_cases runs_syncE: "runs step s0 ((w, s) # h) s'"

locale sync_machine =
  fixes step :: "'w \<Rightarrow> 's \<Rightarrow> 's \<Rightarrow> bool" and phase :: "'s \<Rightarrow> 'p" and succs :: "'p \<Rightarrow> 'p set" and wf :: "'s \<Rightarrow> bool"
  assumes step_phase: "step w s s' \<Longrightarrow> phase s' \<in> succs (phase s)"
    and step_wf: "step w s s' \<Longrightarrow> wf s \<Longrightarrow> wf s'"
begin

lemma run_wf: "runs step s0 h s \<Longrightarrow> wf s0 \<Longrightarrow> wf s"
  by (induction rule: runs.induct) (auto dest: step_wf)

lemma run_phase: "runs step s0 ((w, s) # h) s' \<Longrightarrow> phase s' \<in> succs (phase s)"
  by (auto elim!: runs_syncE dest: step_phase)

text \<open>Who is in a set of phases without having started there has entered it, and in the
  synchronisation that did so the guard of the entry held.\<close>

lemma run_entered:
  assumes "runs step s0 h s" "phase s0 \<notin> A" "phase s \<in> A"
    and "\<And>w s s'. step w s s' \<Longrightarrow> phase s \<notin> A \<Longrightarrow> phase s' \<in> A \<Longrightarrow> entry w s"
  shows "\<exists>(w, d) \<in> set h. entry w d"
  using assms(1,3)
proof induction
  case (runs_sync h s w s')
  then show ?case using assms(4) [of w s s'] by (cases "phase s \<in> A") auto
qed (use assms(2) in simp)

end

end
