(* ===== verification/CSV_Machine.thy ===== *)
theory CSV_Machine
  imports CSV_Phases Sync_Machine
begin

text \<open>
  Properties of the state machine of ClusterServiceVersions: every operation is shown to move only
  between certain phases and to keep the specification and the form of the status (\<open>moves\<close>); runs
  of synchronisations (\<open>csv_run\<close>) then follow the graph of the phases, install a version only when
  its requirements were met, and delete it only when a newer one has taken over. The conditions
  under which a synchronisation panics, a pending version becomes ready, and a healthy cluster
  brings a version to run are exact.
\<close>

lemma moves_SetPhase_after [intro]: "moves Q c d \<Longrightarrow> p \<in> P \<Longrightarrow> moves P c (SetPhase p r m n d)"
  by (simp add: moves_def SetPhase_wf)

lemma moves_SetPhaseIfChanged_after [intro]: "moves Q c d \<Longrightarrow> p \<in> P \<Longrightarrow> moves P c (SetPhaseIfChanged p r m n d)"
  by (simp add: moves_def)

lemma moves_certs [intro]: "moves P c (c\<lparr>csv_CertsLastUpdated := y, csv_CertsRotateAt := z\<rparr>)"
  by (simp add: moves_def)

lemma transitionPending_moves:
  "transitionPending W c = (c', e, eff) \<Longrightarrow> moves {CSVPhasePending, CSVPhaseFailed, CSVPhaseInstallReady} c c'"
  by (auto simp: transitionPending_def Let_def split: prod.splits option.splits if_splits dest!: checkConflicts_moves intro: moves_mono)

lemma transitionInstallReady_moves:
  "transitionInstallReady W c = (c', e, eff) \<Longrightarrow> moves {CSVPhaseFailed, CSVPhaseInstalling} c c'"
  by (auto simp: transitionInstallReady_def Let_def split: prod.splits option.splits if_splits dest!: parse_moves intro: moves_mono)

lemma transitionInstalling_moves:
  "transitionInstalling W c = (c', e, eff) \<Longrightarrow>
    moves {CSVPhaseFailed, CSVPhasePending, CSVPhaseSucceeded, CSVPhaseInstallReady, CSVPhaseInstalling} c c'"
  by (auto simp: transitionInstalling_def Let_def split: prod.splits option.splits if_splits sum.splits dest!: parse_moves updateInstallStatus_moves intro: moves_mono badDeployment_moves)

lemma retryFailed_moves [moves_lemmas]:
  "retryFailed W st eff0 c = (c', e, eff) \<Longrightarrow>
    moves {CSVPhaseFailed, CSVPhasePending, CSVPhaseSucceeded, CSVPhaseInstallReady} c c'"
  by (auto simp: retryFailed_def Let_def split: prod.splits option.splits if_splits sum.splits bool.splits
      dest!: updateInstallStatus_moves intro: moves_mono badDeployment_moves)

lemma transitionFailed_moves:
  "transitionFailed W g c = (c', e, eff) \<Longrightarrow>
    moves {CSVPhaseFailed, CSVPhasePending, CSVPhaseSucceeded, CSVPhaseInstallReady, CSVPhaseReplacing} c c'"
  by (auto simp: transitionFailed_def Let_def split: prod.splits option.splits if_splits
      dest!: parse_moves retryFailed_moves intro: moves_mono)

lemma transitionSucceeded_moves:
  "transitionSucceeded W c = (c', e, eff) \<Longrightarrow>
    moves {CSVPhaseFailed, CSVPhasePending, CSVPhaseSucceeded, CSVPhaseInstallReady, CSVPhaseReplacing} c c'"
  by (auto simp: transitionSucceeded_def Let_def split: prod.splits option.splits if_splits sum.splits bool.splits
      dest!: checkReplacements_moves parse_moves updateInstallStatus_moves intro: moves_mono badDeployment_moves)

lemma finishReplacing_moves:
  "finishReplacing W n c = (c', e, eff) \<Longrightarrow> moves {CSVPhaseDeleting} c c'"
  by (auto simp: finishReplacing_def split: option.splits if_splits)

lemma transitionReplacing_moves:
  "transitionReplacing W g c = Some (c', e, eff) \<Longrightarrow> moves {CSVPhaseDeleting} c c'"
  by (auto simp: transitionReplacing_def Let_def split: option.splits if_splits sum.splits
      dest!: finishReplacing_moves) 

section \<open>The phase graph\<close>

text \<open>The phases that one transition may end in; every phase may stay or fail.\<close>

fun nextPhases :: "CSVPhase \<Rightarrow> CSVPhase set" where
  "nextPhases CSVPhaseNone = {CSVPhaseNone, CSVPhaseFailed, CSVPhasePending}"
| "nextPhases CSVPhasePending = {CSVPhasePending, CSVPhaseFailed, CSVPhaseInstallReady}"
| "nextPhases CSVPhaseInstallReady = {CSVPhaseInstallReady, CSVPhaseFailed, CSVPhaseInstalling}"
| "nextPhases CSVPhaseInstalling = {CSVPhaseInstalling, CSVPhaseFailed, CSVPhaseSucceeded, CSVPhasePending, CSVPhaseInstallReady}"
| "nextPhases CSVPhaseSucceeded = {CSVPhaseSucceeded, CSVPhaseFailed, CSVPhaseReplacing, CSVPhasePending, CSVPhaseInstallReady}"
| "nextPhases CSVPhaseFailed = {CSVPhaseFailed, CSVPhaseReplacing, CSVPhasePending, CSVPhaseSucceeded, CSVPhaseInstallReady}"
| "nextPhases CSVPhaseReplacing = {CSVPhaseReplacing, CSVPhaseFailed, CSVPhaseDeleting}"
| "nextPhases CSVPhaseDeleting = {CSVPhaseDeleting, CSVPhaseFailed}"
| "nextPhases CSVPhaseUnknown = {CSVPhaseUnknown, CSVPhaseFailed}"

lemma nextPhases_stay: "p \<in> nextPhases p" "CSVPhaseFailed \<in> nextPhases p"
  by (cases p; simp)+

lemma transitionPhase_moves:
  assumes "transitionPhase W g c = Some (c', e, eff)"
  shows "moves (nextPhases (C_Phase c)) c c'"
proof (cases "C_Phase c")
  case CSVPhaseNone
  with assms show ?thesis by (auto simp: transitionPhase_def transitionNone_def)
next
  case CSVPhasePending
  with assms show ?thesis by (auto simp: transitionPhase_def dest!: transitionPending_moves intro: moves_mono)
next
  case CSVPhaseInstallReady
  with assms show ?thesis by (auto simp: transitionPhase_def dest!: transitionInstallReady_moves intro: moves_mono)
next
  case CSVPhaseInstalling
  with assms show ?thesis by (auto simp: transitionPhase_def dest!: transitionInstalling_moves intro: moves_mono)
next
  case CSVPhaseSucceeded
  with assms show ?thesis by (auto simp: transitionPhase_def dest!: transitionSucceeded_moves intro: moves_mono)
next
  case CSVPhaseFailed
  with assms show ?thesis by (auto simp: transitionPhase_def dest!: transitionFailed_moves intro: moves_mono)
next
  case CSVPhaseReplacing
  with assms show ?thesis by (auto simp: transitionPhase_def dest!: transitionReplacing_moves intro: moves_mono)
next
  case CSVPhaseDeleting
  with assms show ?thesis by (auto simp: transitionPhase_def transitionDeleting_def)
next
  case CSVPhaseUnknown
  with assms show ?thesis by (auto simp: transitionPhase_def)
qed

section \<open>The whole transition\<close>

text \<open>What the checks before the phases leave of a version.\<close>

lemma operatorGroupForCSV_moves:
  "operatorGroupForCSV W c = (c', g, e) \<Longrightarrow> C_Phase c' \<in> {C_Phase c, CSVPhaseFailed} \<and> (status_wf c \<longrightarrow> status_wf c')
     \<and> (g \<noteq> None \<longrightarrow> c' = c)"
  by (auto simp: operatorGroupForCSV_def setOperatorGroupAnnotations_def Let_def SetPhase_wf
      split: sum.splits list.splits if_splits)

lemma checkInstallModes_moves: "checkInstallModes W c = Some c' \<Longrightarrow> moves {CSVPhaseFailed} c c'"
  by (auto simp: checkInstallModes_def split: option.splits)

lemma reconcileAPIs_moves:
  "reconcileAPIs W g apis c = Some (c', e, eff) \<Longrightarrow> moves {CSVPhaseFailed} c c'"
  by (auto simp: reconcileAPIs_def Let_def split: sum.splits if_splits APIReconciliationResult.splits)

lemma LabelSetsFor_surface [simp]: "LabelSetsFor (surfacePointer s) = []"
  by simp

lemmas transition_moves = operatorGroupForCSV_moves checkInstallModes_moves reconcileAPIs_moves transitionPhase_moves

text \<open>The transition in stages: either a check before the phases ends it, or the phase of the
  version decides.\<close>

lemma transitionCSVState_stages:
  assumes "transitionCSVState W c = Some (Some c', e, eff)"
  obtains (skip) "c' = c" "eff = []"
  | (ungrouped) "operatorGroupForCSV W c = (c', None, e)" "eff = []"
  | (modes) g where "operatorGroupForCSV W c = (c, Some g, None)" "checkInstallModes W c = Some c'" "eff = []"
  | (apis) g P where "operatorGroupForCSV W c = (c, Some g, None)" "reconcileAPIs W g P c = Some (c', e, eff)"
  | (phase) g P where "operatorGroupForCSV W c = (c, Some g, None)" "checkInstallModes W c = None"
      "reconcileAPIs W g P c = None" "transitionPhase W g c = Some (c', e, eff)"
proof -
  have same: "d = c \<and> e' = None" if "operatorGroupForCSV W c = (d, Some g, e')" for d g e'
    using that by (auto simp: operatorGroupForCSV_def Let_def split: sum.splits list.splits if_splits)
  show thesis
    using assms skip ungrouped modes apis phase
    by (auto simp: transitionCSVState_def Let_def split: if_splits sum.splits prod.splits option.splits dest: same)
qed

section \<open>Runs\<close>

definition csv_step :: "world \<Rightarrow> CSV \<Rightarrow> CSV \<Rightarrow> bool" where
  "csv_step W c c' \<longleftrightarrow> (\<exists>e eff. transitionCSVState W c = Some (Some c', e, eff))"

text \<open>A run of synchronisations of one version, each in a world of its own; the history holds the
  worlds and the versions that were synchronised in them, the latest first.\<close>

abbreviation csv_run :: "CSV \<Rightarrow> (world \<times> CSV) list \<Rightarrow> CSV \<Rightarrow> bool" where
  "csv_run \<equiv> runs csv_step"

text \<open>The specification without the annotations, which the operator group writes.\<close>

definition unannotated :: "CSV \<Rightarrow> CSV" where
  "unannotated c = (spec c)\<lparr>csv_Annotations := []\<rparr>"

lemma unannotated_simps [simp]:
  "unannotated (SetPhase p r m n c) = unannotated c" "unannotated (SetPhaseIfChanged p r m n c) = unannotated c"
  "unannotated (c\<lparr>csv_Annotations := a\<rparr>) = unannotated c"
  by (simp_all add: unannotated_def) (simp add: spec_def)

lemma operatorGroupForCSV_unannotated:
  "operatorGroupForCSV W c = (c', g, e) \<Longrightarrow> unannotated c' = unannotated c"
  by (auto simp: operatorGroupForCSV_def setOperatorGroupAnnotations_def Let_def split: sum.splits list.splits if_splits)

lemma moves_unannotated: "moves P c c' \<Longrightarrow> unannotated c' = unannotated c \<and> (status_wf c \<longrightarrow> status_wf c')"
  by (simp add: moves_def unannotated_def)

lemma transitionCSVState_keeps:
  assumes "transitionCSVState W c = Some (Some c', e, eff)"
  shows "unannotated c' = unannotated c \<and> (status_wf c \<longrightarrow> status_wf c')"
  using assms
proof (cases rule: transitionCSVState_stages)
  case ungrouped
  then show ?thesis using operatorGroupForCSV_unannotated operatorGroupForCSV_moves by blast
qed (blast dest: transition_moves moves_unannotated)+

lemma transitionCSVState_graph:
  assumes "transitionCSVState W c = Some (Some c', e, eff)"
  shows "C_Phase c' \<in> nextPhases (C_Phase c)"
  using assms
proof (cases rule: transitionCSVState_stages)
  case skip
  then show ?thesis by (simp add: nextPhases_stay)
next
  case ungrouped
  then show ?thesis using nextPhases_stay [of "C_Phase c"] by (auto dest!: operatorGroupForCSV_moves)
next
  case modes
  then show ?thesis using nextPhases_stay [of "C_Phase c"] by (auto simp: moves_def dest!: checkInstallModes_moves)
next
  case apis
  then show ?thesis using nextPhases_stay [of "C_Phase c"] by (auto simp: moves_def dest!: reconcileAPIs_moves)
next
  case phase
  then show ?thesis using nextPhases_stay [of "C_Phase c"] by (auto simp: moves_def dest!: transitionPhase_moves)
qed

interpretation csv: sync_machine csv_step C_Phase nextPhases "\<lambda>c. status_wf c \<and> unannotated c = u" for u
  by unfold_locales (auto simp: csv_step_def dest: transitionCSVState_graph transitionCSVState_keeps)

text \<open>C24. However often a version is synchronised, and whatever the cluster answers, its status
  stays well formed: at most twenty conditions, the last of them the current phase and reason;
  and nothing of the version but its status and its annotations changes.\<close>

theorem csv_run_status:
  assumes "csv_run c0 h c" "status_wf c0"
  shows "status_wf c \<and> unannotated c = unannotated c0"
  using csv.run_wf [OF assms(1), of "unannotated c0"] assms(2) by simp

lemma csv_run_graph:
  assumes "csv_run c0 ((W, d) # h) c"
  shows "C_Phase c \<in> nextPhases (C_Phase d)"
  using assms by (rule csv.run_phase)

section \<open>The way into an installation\<close>

text \<open>The phases in which OLM installs a version or takes it to be installed.\<close>

definition installPhases :: "CSVPhase set" where
  "installPhases = {CSVPhaseInstallReady, CSVPhaseInstalling, CSVPhaseSucceeded}"

lemma transitionPending_gate:
  "transitionPending W c = (c', e, eff) \<Longrightarrow> C_Phase c = CSVPhasePending \<Longrightarrow> C_Phase c' \<in> installPhases
     \<Longrightarrow> fst (w_requirements W c)"
  by (auto simp: transitionPending_def Let_def installPhases_def split: prod.splits option.splits if_splits
      dest!: checkConflicts_moves simp: moves_def)

lemma retryFailed_gate:
  "retryFailed W st eff0 c = (c', e, eff) \<Longrightarrow> C_Phase c = CSVPhaseFailed \<Longrightarrow> C_Phase c' \<in> installPhases
     \<Longrightarrow> fst (w_requirements W c)"
  by (auto simp: retryFailed_def Let_def installPhases_def split: prod.splits if_splits)

lemma transitionFailed_gate:
  "transitionFailed W g c = (c', e, eff) \<Longrightarrow> C_Phase c = CSVPhaseFailed \<Longrightarrow> C_Phase c' \<in> installPhases
     \<Longrightarrow> fst (w_requirements W c)"
  by (auto simp: transitionFailed_def installPhases_def split: prod.splits option.splits if_splits
      dest!: parse_moves retryFailed_gate [unfolded installPhases_def] simp: moves_def)

lemma moves_Failed_gate: "moves {CSVPhaseFailed} c c' \<Longrightarrow> C_Phase c' \<in> installPhases \<Longrightarrow> C_Phase c' = C_Phase c"
  by (auto simp: moves_def installPhases_def)

text \<open>A version that is not being installed starts to be only when the requirements are met.\<close>

lemma transitionCSVState_gate:
  assumes "transitionCSVState W c = Some (Some c', e, eff)" "C_Phase c \<notin> installPhases" "C_Phase c' \<in> installPhases"
  shows "C_Phase c \<in> {CSVPhasePending, CSVPhaseFailed} \<and> fst (w_requirements W c)"
  using assms(1)
proof (cases rule: transitionCSVState_stages)
  case ungrouped
  then show ?thesis using assms(2,3) by (auto dest!: operatorGroupForCSV_moves simp: installPhases_def)
next
  case (phase g P)
  have "C_Phase c' \<in> nextPhases (C_Phase c)" using assms(1) by (rule transitionCSVState_graph)
  then have "C_Phase c \<in> {CSVPhasePending, CSVPhaseFailed}"
    using assms(2,3) by (cases "C_Phase c") (auto simp: installPhases_def)
  with phase(4) assms(3) show ?thesis
    by (auto simp: transitionPhase_def dest: transitionPending_gate transitionFailed_gate)
qed (use assms(2,3) in \<open>auto dest!: checkInstallModes_moves reconcileAPIs_moves moves_Failed_gate\<close>)

text \<open>A version that OLM installs, or takes to be installed, has been through a
  synchronisation, in the phase Pending or Failed, at which its requirements and permissions
  were met.\<close>

lemma csv_run_requirements:
  assumes "csv_run c0 h c" "C_Phase c0 = CSVPhaseNone" "C_Phase c \<in> installPhases"
  shows "\<exists>(W, d) \<in> set h. C_Phase d \<in> {CSVPhasePending, CSVPhaseFailed} \<and> fst (w_requirements W d)"
proof (rule csv.run_entered [OF assms(1) _ assms(3)])
  show "C_Phase c0 \<notin> installPhases" using assms(2) by (simp add: installPhases_def)
qed (auto simp: csv_step_def dest: transitionCSVState_gate)

section \<open>When a pending version is ready to be installed\<close>

lemma checkWebhooks_None_iff:
  "checkWebhooks ws seen = None \<longleftrightarrow>
     distinct (map fst ws) \<and> fst ` set ws \<inter> set seen = {} \<and> (\<forall>(n, rules) \<in> set ws. ValidWebhookRules rules = None)"
  by (induction ws seen rule: checkWebhooks.induct) (auto split: option.splits)

lemma apiServiceOwnerConflicts_None_iff:
  "apiServiceOwnerConflicts W c = None \<longleftrightarrow>
     (\<forall>desc \<in> set (csv_OwnedAPIServices c). w_apiService W c desc \<in> {serviceMissing, serviceFound True})"
proof -
  let ?f = "\<lambda>desc acc. case acc of Some e \<Rightarrow> Some e | None \<Rightarrow>
       (case w_apiService W c desc of
          serviceError e \<Rightarrow> Some (otherError e)
        | serviceMissing \<Rightarrow> None
        | serviceFound adoptable \<Rightarrow> if \<not> adoptable then Some ErrAPIServiceOwnerConflict else None)"
  have keep: "fold ?f ds (Some e) = Some e" for ds and e :: csv_error
    by (induction ds) auto
  have "fold ?f ds None = None \<longleftrightarrow> (\<forall>d \<in> set ds. w_apiService W c d \<in> {serviceMissing, serviceFound True})" for ds
    by (induction ds) (auto simp: keep split: apiServiceState.splits)
  then show ?thesis by (simp add: apiServiceOwnerConflicts_def)
qed

lemma crdOwnerConflicts_status [simp]:
  "crdOwnerConflicts (c\<lparr>csv_RequirementStatus := x\<rparr>) csvs = crdOwnerConflicts c csvs"
  by (simp add: crdOwnerConflicts_def getReplacementChain_def)

lemma checkConflicts_ok_iff:
  "(\<exists>c' e. checkConflicts W c = (c', e, True)) \<longleftrightarrow>
     checkWebhooks (csv_Webhooks c) [] = None \<and> crdOwnerConflicts c (namespaceCSVs W) = None
     \<and> apiServiceOwnerConflicts W c = None"
  by (auto simp: checkConflicts_def split: option.splits)

text \<open>A pending version becomes ready to be installed exactly when the version it replaces,
  if any, is being replaced and may be upgraded, its requirements are met, its webhooks have
  distinct names and valid rules, no version outside its replacement chain owns one of its CRDs,
  and each of its API services is missing or may be adopted.\<close>

lemma transitionPending_ready_iff:
  assumes "C_Phase c = CSVPhasePending"
  shows "C_Phase (fst (transitionPending W c)) = CSVPhaseInstallReady \<longleftrightarrow>
    (\<forall>prev. IsReplacing (w_get W) c = Some prev \<longrightarrow> C_Phase prev = CSVPhaseReplacing \<and> fst (isOperatorUpgradeable W prev))
    \<and> (\<exists>statuses. w_requirements W c = (True, statuses, None)
         \<and> (\<forall>desc \<in> set (csv_OwnedAPIServices c).
              w_apiService W (c\<lparr>csv_RequirementStatus := statuses\<rparr>) desc \<in> {serviceMissing, serviceFound True}))
    \<and> distinct (map fst (csv_Webhooks c)) \<and> (\<forall>(n, rules) \<in> set (csv_Webhooks c). ValidWebhookRules rules = None)
    \<and> crdOwnerConflicts c (namespaceCSVs W) = None"
proof -
  obtain met statuses err where r: "w_requirements W c = (met, statuses, err)" by (cases "w_requirements W c") auto
  obtain c' e ok where k: "checkConflicts W (c\<lparr>csv_RequirementStatus := statuses\<rparr>) = (c', e, ok)"
    by (cases "checkConflicts W (c\<lparr>csv_RequirementStatus := statuses\<rparr>)") auto
  have ok: "ok \<longleftrightarrow> distinct (map fst (csv_Webhooks c)) \<and> (\<forall>(n, rules) \<in> set (csv_Webhooks c). ValidWebhookRules rules = None)
      \<and> crdOwnerConflicts c (namespaceCSVs W) = None
      \<and> (\<forall>desc \<in> set (csv_OwnedAPIServices c).
           w_apiService W (c\<lparr>csv_RequirementStatus := statuses\<rparr>) desc \<in> {serviceMissing, serviceFound True})"
    using k checkConflicts_ok_iff [of W "c\<lparr>csv_RequirementStatus := statuses\<rparr>"]
    by (simp add: checkWebhooks_None_iff apiServiceOwnerConflicts_None_iff)
  have kept: "C_Phase c' \<noteq> CSVPhaseInstallReady"
    using checkConflicts_moves [OF k] assms by (auto simp: moves_def)
  have "C_Phase (fst (transitionPending W c)) = CSVPhaseInstallReady \<longleftrightarrow>
      (\<forall>prev. IsReplacing (w_get W) c = Some prev \<longrightarrow> C_Phase prev = CSVPhaseReplacing \<and> fst (isOperatorUpgradeable W prev))
      \<and> met \<and> err = None \<and> ok"
    using kept assms by (cases "IsReplacing (w_get W) c"; cases err; cases met; cases ok) (auto simp: transitionPending_def Let_def r k)
  then show ?thesis unfolding ok r by auto
qed

section \<open>Deletion\<close>

lemma finishReplacing_deletes:
  "finishReplacing W n c = (c', e, eff) \<Longrightarrow> C_Phase c' = CSVPhaseDeleting \<Longrightarrow> C_Phase c \<noteq> CSVPhaseDeleting
     \<Longrightarrow> \<exists>l. n = Some l \<and> C_Phase l = CSVPhaseSucceeded"
  by (auto simp: finishReplacing_def split: option.splits if_splits)

lemma IsBeingReplaced_in:
  "IsBeingReplaced c csvs = Some n \<Longrightarrow> n \<in> set csvs \<and> C_Replaces n = C_Name c \<and> \<not> IsCopied n"
  by (induction c csvs rule: IsBeingReplaced.induct) (auto split: if_splits)

lemma IsBeingReplaced_namespace:
  "IsBeingReplaced c (namespaceCSVs W) = Some n \<Longrightarrow>
     \<exists>csvs. w_csvs W = Inr csvs \<and> n \<in> set csvs \<and> C_Replaces n = C_Name c \<and> \<not> IsCopied n"
  by (auto simp: namespaceCSVs_def csvSet_with_def split: sum.splits dest!: IsBeingReplaced_in)

text \<open>The code sees no version that this one replaces: it names none, or the read of it from the API
  server failed, because it is not there or for any other reason.\<close>

definition predecessorUnseen :: "world \<Rightarrow> CSV \<Rightarrow> bool" where
  "predecessorUnseen W c \<longleftrightarrow> C_Replaces c = [] \<or> (\<exists>e. w_get W (C_Namespace c) (C_Replaces c) = Inl e)"

lemma IsReplacing_None: "IsReplacing (w_get W) c = None \<longleftrightarrow> predecessorUnseen W c"
  by (auto simp: IsReplacing_def predecessorUnseen_def split: sum.splits)

text \<open>No version that this one replaces is seen, and the versions that replace it lead to one that has
  succeeded.\<close>

definition safelyReplaced :: "world \<Rightarrow> CSV \<Rightarrow> bool" where
  "safelyReplaced W c \<longleftrightarrow> predecessorUnseen W c
     \<and> (\<exists>csvs n l. w_csvs W = Inr csvs \<and> n \<in> set csvs \<and> C_Replaces n = C_Name c \<and> \<not> IsCopied n
          \<and> (l = ChainCSV.truncate n \<or> (\<exists>vs. chain (ReplacementMapping (map ChainCSV.truncate csvs)) (ChainCSV.truncate n) vs l))
          \<and> l \<in> ChainCSV.truncate ` set csvs \<and> C_Phase l = CSVPhaseSucceeded)"

lemma WalkReplacementChain_end:
  assumes "WalkReplacementChain (Some (ChainCSV.truncate n)) (ReplacementMapping (map ChainCSV.truncate csvs)) opts = Some (Inr l)"
    and "n \<in> set csvs"
  shows "(\<exists>vs. chain (ReplacementMapping (map ChainCSV.truncate csvs)) (ChainCSV.truncate n) vs l) \<and> l \<in> ChainCSV.truncate ` set csvs"
proof -
  obtain vs where c: "chain (ReplacementMapping (map ChainCSV.truncate csvs)) (ChainCSV.truncate n) vs l"
    using walk_ends_chain assms(1) unfolding WalkReplacementChain_def option.case by blast
  from chain_end_in [OF this] have "l \<in> ChainCSV.truncate ` set csvs"
    using assms(2) by (auto dest!: ReplacementMapping_in)
  with c show ?thesis by blast
qed

lemma transitionReplacing_deletes:
  assumes "transitionReplacing W g c = Some (c', e, eff)" "C_Phase c' = CSVPhaseDeleting" "C_Phase c = CSVPhaseReplacing"
  shows "safelyReplaced W c"
proof -
  have prev: "IsReplacing (w_get W) c = None"
    using assms by (auto simp: transitionReplacing_def split: option.splits)
  note unseen = prev [unfolded IsReplacing_None]
  obtain n where n: "IsBeingReplaced c (namespaceCSVs W) = Some n"
    using assms prev by (auto simp: transitionReplacing_def Let_def finishReplacing_def split: option.splits if_splits)
  then obtain csvs where csvs: "w_csvs W = Inr csvs" "n \<in> set csvs" "C_Replaces n = C_Name c" "\<not> IsCopied n"
    using IsBeingReplaced_namespace by blast
  show ?thesis
  proof (cases "gr_UpgradeStrategy g = UpgradeStrategyUnsafeFailForward")
    case True
    with assms prev n csvs obtain l where "WalkReplacementChain (Some (ChainCSV.truncate n))
        (ReplacementMapping (map ChainCSV.truncate csvs)) [WithUniqueCSVs []] = Some (Inr l)" "C_Phase l = CSVPhaseSucceeded"
      by (auto simp: transitionReplacing_def Let_def split: option.splits sum.splits dest!: finishReplacing_deletes)
    with unseen csvs WalkReplacementChain_end [of n csvs] show ?thesis unfolding safelyReplaced_def by blast
  next
    case False
    with assms prev n have "C_Phase (ChainCSV.truncate n) = CSVPhaseSucceeded"
      by (auto simp: transitionReplacing_def Let_def dest!: finishReplacing_deletes)
    with unseen csvs show ?thesis unfolding safelyReplaced_def by blast
  qed
qed

lemma transitionCSVState_deletes:
  assumes "transitionCSVState W c = Some (Some c', e, eff)" "C_Phase c' = CSVPhaseDeleting" "C_Phase c \<noteq> CSVPhaseDeleting"
  shows "C_Phase c = CSVPhaseReplacing \<and> safelyReplaced W c"
proof -
  have r: "C_Phase c = CSVPhaseReplacing"
    using transitionCSVState_graph [OF assms(1)] assms(2,3) by (cases "C_Phase c") auto
  from assms(1) show ?thesis
  proof (cases rule: transitionCSVState_stages)
    case ungrouped
    then show ?thesis using assms(2) r by (auto dest!: operatorGroupForCSV_moves)
  next
    case phase
    then show ?thesis using assms(2) r transitionReplacing_deletes by (auto simp: transitionPhase_def)
  qed (use assms(2,3) in \<open>auto dest!: checkInstallModes_moves reconcileAPIs_moves simp: moves_def\<close>)
qed

text \<open>Only a version in the phase Deleting is deleted.\<close>

definition noDelete :: "effect list \<Rightarrow> bool" where
  "noDelete eff \<longleftrightarrow> (\<forall>ns n. deleteCSV ns n \<notin> set eff)"

lemma noDelete_parts:
  "parseStrategiesAndUpdateStatus W c = (c1, st, eff) \<Longrightarrow> noDelete eff"
  "updateInstallStatus W p r c = (c2, ie, eff) \<Longrightarrow> noDelete eff"
  "reconcileAPIs W g P c = Some (c3, e, eff) \<Longrightarrow> noDelete eff"
  "finishReplacing W n c = (c4, e, eff) \<Longrightarrow> noDelete eff"
     apply (auto simp: noDelete_def parseStrategiesAndUpdateStatus_def Let_def split: sum.splits option.splits if_splits)[1]
    apply (auto simp: noDelete_def updateInstallStatus_def Let_def split: prod.splits option.splits if_splits)[1]
   apply (auto simp: noDelete_def reconcileAPIs_def Let_def split: sum.splits if_splits APIReconciliationResult.splits)[1]
  apply (auto simp: noDelete_def finishReplacing_def split: option.splits if_splits)[1]
  done

lemma noDelete_append [simp]: "noDelete [] = True" "noDelete (a @ b) = (noDelete a \<and> noDelete b)"
  by (auto simp: noDelete_def)

lemma transition_noDelete:
  "transitionPending W c = (c1, e, eff) \<Longrightarrow> noDelete eff"
  "transitionInstallReady W c = (c2, e, eff) \<Longrightarrow> noDelete eff"
  "transitionInstalling W c = (c3, e, eff) \<Longrightarrow> noDelete eff"
  "transitionSucceeded W c = (c4, e, eff) \<Longrightarrow> noDelete eff"
  "retryFailed W st eff0 c = (c5, e, eff) \<Longrightarrow> noDelete eff0 \<Longrightarrow> noDelete eff"
  "transitionReplacing W g c = Some (c7, e, eff) \<Longrightarrow> noDelete eff"
       apply (auto simp: transitionPending_def Let_def noDelete_def split: prod.splits option.splits if_splits)[1]
      apply (auto simp: transitionInstallReady_def Let_def split: prod.splits option.splits dest!: noDelete_parts(1), auto simp: noDelete_def)[1]
     apply (auto simp: transitionInstalling_def Let_def split: prod.splits option.splits sum.splits if_splits dest!: noDelete_parts(1,2))[1]
    apply (auto simp: transitionSucceeded_def Let_def split: prod.splits option.splits sum.splits bool.splits if_splits
      dest!: noDelete_parts(1,2), auto simp: noDelete_def)[1]
   apply (auto simp: retryFailed_def Let_def split: prod.splits option.splits sum.splits bool.splits if_splits dest!: noDelete_parts(2))[1]
  apply (auto simp: transitionReplacing_def Let_def split: option.splits sum.splits if_splits dest!: noDelete_parts(4))[1]
  done

lemma transitionFailed_noDelete: "transitionFailed W g c = (c', e, eff) \<Longrightarrow> noDelete eff"
  by (auto simp: transitionFailed_def split: prod.splits option.splits if_splits dest: noDelete_parts(1) transition_noDelete(5))

lemma transitionPhase_noDelete:
  "transitionPhase W g c = Some (c', e, eff) \<Longrightarrow> C_Phase c \<noteq> CSVPhaseDeleting \<Longrightarrow> noDelete eff"
  by (auto simp: transitionPhase_def transitionNone_def split: CSVPhase.splits
      dest: transition_noDelete transitionFailed_noDelete)

lemma transitionCSVState_noDelete:
  assumes "transitionCSVState W c = Some (Some c', e, eff)" "deleteCSV ns n \<in> set eff"
  shows "C_Phase c = CSVPhaseDeleting \<and> ns = C_Namespace c \<and> n = C_Name c"
  using assms(1)
proof (cases rule: transitionCSVState_stages)
  case apis
  then show ?thesis using assms(2) noDelete_parts(3) by (fastforce simp: noDelete_def)
next
  case (phase g P)
  then have "C_Phase c = CSVPhaseDeleting" using assms(2) transitionPhase_noDelete [OF phase(4)] by (auto simp: noDelete_def)
  with phase(4) assms(2) show ?thesis by (auto simp: transitionPhase_def transitionDeleting_def)
qed (use assms(2) in simp_all)

text \<open>C9. Over any run of synchronisations, a version is deleted only after a synchronisation in
  which it was in the phase Replacing, the read of the version that it replaces had failed (or it
  replaces none), and the versions that replace it led to one that had succeeded; and the object
  deleted is the version itself. A read that fails for another reason than that the version is
  gone counts as well.\<close>

theorem csv_run_deletes:
  assumes "csv_run c0 h c" "C_Phase c0 \<noteq> CSVPhaseDeleting"
    and "transitionCSVState W c = Some (Some c', e, eff)" "deleteCSV ns n \<in> set eff"
  shows "ns = C_Namespace c \<and> n = C_Name c \<and> (\<exists>(W', d) \<in> set h. C_Phase d = CSVPhaseReplacing \<and> safelyReplaced W' d)"
proof -
  have "\<exists>(W', d) \<in> set h. C_Phase d = CSVPhaseReplacing \<and> safelyReplaced W' d" if "C_Phase c = CSVPhaseDeleting"
    by (rule csv.run_entered [OF assms(1), of "{CSVPhaseDeleting}"])
      (use assms(2) that in \<open>auto simp: csv_step_def dest: transitionCSVState_deletes\<close>)
  with transitionCSVState_noDelete [OF assms(3,4)] show ?thesis by simp
qed

section \<open>Panics\<close>

lemma transitionReplacing_panics_iff:
  "transitionReplacing W g c = None \<longleftrightarrow>
     IsReplacing (w_get W) c = None \<and> IsBeingReplaced c (namespaceCSVs W) = None
     \<and> gr_UpgradeStrategy g = UpgradeStrategyUnsafeFailForward"
proof -
  have walk: "(WalkReplacementChain (Some v) (ReplacementMapping csvs) [WithUniqueCSVs []] = None) = False" for v csvs
    using walk_unique_returns [OF finite_ReplacementMapping, of csvs "[]" v] by (auto simp: WalkReplacementChain_def)
  show ?thesis
    by (auto simp: transitionReplacing_def Let_def walk simp del: split_paired_Ex split: option.splits sum.splits)
qed

lemma transitionPhase_panics_iff:
  "transitionPhase W g c = None \<longleftrightarrow> C_Phase c = CSVPhaseReplacing \<and> transitionReplacing W g c = None"
  by (auto simp: transitionPhase_def split: CSVPhase.splits)

text \<open>C26. A synchronisation panics exactly when it comes to the phase of a version that is Replacing, fail
  forward is enabled, no version that it replaces is seen (none is named, or the read failed) and no
  version of the namespace replaces it: the code reads the namespace of the missing replacement. It
  comes to the phase if the version has not failed for good, its APIs can be read, it belongs to
  exactly one operator group and is annotated with it, its install modes support the group and its
  APIs need no reconciliation.\<close>

theorem transitionCSVState_panics_iff:
  "transitionCSVState W c = None \<longleftrightarrow>
     csv_Reason c \<noteq> CSVReasonComponentFailedNoRetry
     \<and> (\<exists>surface g. apiSurfaceOfCSV c = Inr surface \<and> operatorGroupForCSV W c = (c, Some g, None)
          \<and> checkInstallModes W c = None
          \<and> reconcileAPIs W g (APISet_StripPlural (os_ProvidedAPIs surface)) c = None
          \<and> gr_UpgradeStrategy g = UpgradeStrategyUnsafeFailForward)
     \<and> C_Phase c = CSVPhaseReplacing \<and> predecessorUnseen W c
     \<and> IsBeingReplaced c (namespaceCSVs W) = None"
proof -
  have same: "d = c \<and> e' = None" if "operatorGroupForCSV W c = (d, Some g, e')" for d g e'
    using that by (auto simp: operatorGroupForCSV_def Let_def split: sum.splits list.splits if_splits)
  show ?thesis
    by (auto simp: transitionCSVState_def Let_def transitionPhase_panics_iff transitionReplacing_panics_iff IsReplacing_None
        split: if_splits sum.splits prod.splits option.splits dest: same)
qed

section \<open>Installation in a healthy cluster\<close>

text \<open>Repeated synchronisations of a version in an unchanging world.\<close>

fun syncs :: "nat \<Rightarrow> world \<Rightarrow> CSV \<Rightarrow> CSV option" where
  "syncs 0 W c = Some c"
| "syncs (Suc n) W c =
     (case transitionCSVState W c of Some (Some c', e, eff) \<Rightarrow> syncs n W c' | _ \<Rightarrow> None)"

text \<open>The checks before the phases let the version through; it is new in its namespace, its
  requirements are met, nothing conflicts with it, and its components install and report healthy.
  The parts of the world that read the version answer for every status of it.\<close>

definition admitted :: "world \<Rightarrow> Group \<Rightarrow> CSV \<Rightarrow> bool" where
  "admitted W g c \<longleftrightarrow> w_groups W = Inr [g] \<and> \<not> operatorGroupAnnotationsDiffer c g \<and> checkInstallModes W c = None
     \<and> (case apiSurfaceOfCSV c of Inl e \<Rightarrow> False
        | Inr surface \<Rightarrow> reconcileAPIs W g (APISet_StripPlural (os_ProvidedAPIs surface)) c = None)"

definition unopposed :: "world \<Rightarrow> CSV \<Rightarrow> bool" where
  "unopposed W c \<longleftrightarrow> IsReplacing (w_get W) c = None \<and> IsBeingReplaced c (namespaceCSVs W) = None
     \<and> checkWebhooks (csv_Webhooks c) [] = None \<and> crdOwnerConflicts c (namespaceCSVs W) = None"

definition answers :: "world \<Rightarrow> CSV \<Rightarrow> bool" where
  "answers W c \<longleftrightarrow> (\<forall>d. spec d = spec c \<longrightarrow>
     (\<exists>statuses. w_requirements W d = (True, statuses, None)) \<and> (\<exists>strategy. w_strategy W d = Inr strategy)
     \<and> apiServiceOwnerConflicts W d = None)"

definition healthy :: "world \<Rightarrow> bool" where
  "healthy W \<longleftrightarrow> w_clients W \<and> w_install W = None \<and> (\<exists>strategy. w_deploymentSpecs W = Inr strategy)
     \<and> fst (w_checkInstalled W) \<and> fst (w_apiServicesAvailable W) \<and> fst (w_webhooksAvailable W)
     \<and> w_apiServiceResources W = None \<and> w_shouldRotate W = Inr False"

lemma spec_fields:
  assumes "spec d = spec c"
  shows "C_Name d = C_Name c" "C_Namespace d = C_Namespace c" "C_Replaces d = C_Replaces c"
    "csv_Annotations d = csv_Annotations c" "csv_InstallModes d = csv_InstallModes c"
    "csv_OwnedCRDs d = csv_OwnedCRDs c" "csv_RequiredCRDs d = csv_RequiredCRDs c"
    "csv_OwnedAPIServices d = csv_OwnedAPIServices c" "csv_RequiredAPIServices d = csv_RequiredAPIServices c"
    "csv_Webhooks d = csv_Webhooks c"
  using assms by (cases d; cases c; simp add: spec_def)+

lemma IsBeingReplaced_name: "C_Name d = C_Name c \<Longrightarrow> IsBeingReplaced d csvs = IsBeingReplaced c csvs"
  by (induction csvs) auto

lemma spec_checks:
  assumes "spec d = spec c"
  shows "operatorGroupAnnotationsDiffer d g = operatorGroupAnnotationsDiffer c g"
    "(checkInstallModes W d = None) = (checkInstallModes W c = None)"
    "apiSurfaceOfCSV d = apiSurfaceOfCSV c"
    "(reconcileAPIs W g P d = None) = (reconcileAPIs W g P c = None)"
    "IsReplacing get d = IsReplacing get c" "IsBeingReplaced d csvs = IsBeingReplaced c csvs"
    "crdOwnerConflicts d csvs = crdOwnerConflicts c csvs"
  using spec_fields [OF assms] IsBeingReplaced_name [of d c]
        apply (simp_all add: operatorGroupAnnotationsDiffer_def apiSurfaceOfCSV_def IsReplacing_def
          crdOwnerConflicts_def getReplacementChain_def)
   apply (simp add: checkInstallModes_def split: option.splits)
  apply (auto simp: reconcileAPIs_def Let_def split: sum.splits if_splits APIReconciliationResult.splits)
  done

lemma spec_assumptions:
  assumes "spec d = spec c"
  shows "admitted W g d = admitted W g c" "unopposed W d = unopposed W c" "answers W d = answers W c"
  using spec_checks [OF assms] spec_fields [OF assms] assms by (simp_all add: admitted_def unopposed_def answers_def split: sum.splits)

lemma admitted_transition:
  assumes "admitted W g c" "csv_Reason c \<noteq> CSVReasonComponentFailedNoRetry"
  shows "transitionCSVState W c = map_option (\<lambda>(out, err, eff). (Some out, err, eff)) (transitionPhase W g c)"
  using assms by (auto simp: admitted_def transitionCSVState_def operatorGroupForCSV_def split: sum.splits)

lemma syncs_Suc_phase:
  assumes "admitted W g c" "csv_Reason c \<noteq> CSVReasonComponentFailedNoRetry" "transitionPhase W g c = Some (c', e, eff)"
  shows "syncs (Suc n) W c = syncs n W c'"
  using assms by (simp add: admitted_transition)

text \<open>The four steps to a running version, and the step that keeps it running.\<close>

lemma healthy_pending:
  assumes "C_Phase c = CSVPhasePending" "unopposed W c" "answers W c"
  shows "\<exists>c' eff. transitionPhase W g c = Some (c', None, eff) \<and> C_Phase c' = CSVPhaseInstallReady
    \<and> csv_Reason c' = CSVReasonRequirementsMet \<and> spec c' = spec c"
proof -
  obtain statuses where r: "w_requirements W c = (True, statuses, None)" using assms(3) unfolding answers_def by blast
  have "apiServiceOwnerConflicts W (c\<lparr>csv_RequirementStatus := statuses\<rparr>) = None"
    using assms(3) unfolding answers_def by (metis spec_update(1))
  then have "checkConflicts W (c\<lparr>csv_RequirementStatus := statuses\<rparr>) = (c\<lparr>csv_RequirementStatus := statuses\<rparr>, None, True)"
    using assms(2) by (simp add: checkConflicts_def unopposed_def)
  with assms r show ?thesis by (simp add: transitionPhase_def transitionPending_def unopposed_def)
qed

lemma healthy_parse:
  assumes "unopposed W c" "answers W c" "healthy W"
  shows "\<exists>strategy. parseStrategiesAndUpdateStatus W c = (c, Some strategy, [])"
proof -
  obtain strategy where "w_strategy W c = Inr strategy" using assms(2) unfolding answers_def by blast
  with assms show ?thesis by (simp add: parseStrategiesAndUpdateStatus_def unopposed_def healthy_def)
qed

lemma healthy_installReady:
  assumes "C_Phase c = CSVPhaseInstallReady" "unopposed W c" "answers W c" "healthy W"
  shows "\<exists>c' eff. transitionPhase W g c = Some (c', None, eff) \<and> C_Phase c' = CSVPhaseInstalling
    \<and> csv_Reason c' = CSVReasonInstallSuccessful \<and> spec c' = spec c"
proof -
  have "w_install W = None" using assms(4) by (simp add: healthy_def)
  with healthy_parse [OF assms(2-4)] assms(1) show ?thesis
    by (auto simp: transitionPhase_def transitionInstallReady_def split: option.splits)
qed

lemma healthy_status:
  assumes "healthy W"
  shows "updateInstallStatus W p r c = (SetPhaseIfChanged CSVPhaseSucceeded CSVReasonInstallSuccessful
    ''install strategy completed with no errors'' (w_now W) c, None, [])"
  using assms by (cases "w_checkInstalled W"; cases "w_apiServicesAvailable W"; cases "w_webhooksAvailable W")
    (simp add: healthy_def updateInstallStatus_def)

lemma healthy_installing:
  assumes "C_Phase c = CSVPhaseInstalling" "unopposed W c" "answers W c" "healthy W"
  shows "\<exists>c' eff. transitionPhase W g c = Some (c', None, eff) \<and> C_Phase c' = CSVPhaseSucceeded
    \<and> csv_Reason c' = CSVReasonInstallSuccessful \<and> spec c' = spec c"
proof -
  obtain strategy where "w_deploymentSpecs W = Inr strategy" using assms(4) unfolding healthy_def by blast
  with healthy_parse [OF assms(2-4)] healthy_status [OF assms(4)] assms(1) show ?thesis
    by (auto simp: transitionPhase_def transitionInstalling_def)
qed

lemma healthy_succeeded:
  assumes "C_Phase c = CSVPhaseSucceeded" "unopposed W c" "answers W c" "healthy W"
  shows "\<exists>c' e eff. transitionPhase W g c = Some (c', e, eff) \<and> C_Phase c' = CSVPhaseSucceeded
    \<and> csv_Reason c' = CSVReasonInstallSuccessful \<and> spec c' = spec c"
proof -
  obtain strategy where "w_deploymentSpecs W = Inr strategy" using assms(4) unfolding healthy_def by blast
  moreover obtain statuses where "w_requirements W c = (True, statuses, None)" using assms(3) unfolding answers_def by blast
  moreover have "checkReplacementsAndUpdateStatus W c = (c, False)"
    using assms(2) by (simp add: checkReplacementsAndUpdateStatus_def unopposed_def)
  ultimately show ?thesis
    using healthy_parse [OF assms(2-4)] healthy_status [OF assms(4)] assms(1,4)
    by (auto simp: transitionPhase_def transitionSucceeded_def healthy_def)
qed

lemma syncs_succeeded:
  assumes "admitted W g c" "unopposed W c" "answers W c" "healthy W"
    and "C_Phase c = CSVPhaseSucceeded" "csv_Reason c = CSVReasonInstallSuccessful"
  shows "\<exists>c'. syncs n W c = Some c' \<and> C_Phase c' = CSVPhaseSucceeded"
  using assms
proof (induction n arbitrary: c)
  case (Suc n)
  obtain c' e eff where c': "transitionPhase W g c = Some (c', e, eff)" "C_Phase c' = CSVPhaseSucceeded"
      "csv_Reason c' = CSVReasonInstallSuccessful" "spec c' = spec c"
    using healthy_succeeded [of c W g] Suc.prems by blast
  have "\<exists>c''. syncs n W c' = Some c'' \<and> C_Phase c'' = CSVPhaseSucceeded"
    using Suc.IH [of c'] Suc.prems c' spec_assumptions [OF c'(4)] by simp
  with syncs_Suc_phase [OF Suc.prems(1) _ c'(1), of n] Suc.prems(6) show ?case by simp
qed simp

text \<open>C27. In a healthy cluster a new version that its group admits and nothing opposes is running
  after four synchronisations, and stays running.\<close>

theorem syncs_reach_succeeded:
  assumes "admitted W g c" "unopposed W c" "answers W c" "healthy W"
    and "C_Phase c = CSVPhaseNone" "csv_Reason c = CSVReasonNone" "4 \<le> n"
  shows "\<exists>c'. syncs n W c = Some c' \<and> C_Phase c' = CSVPhaseSucceeded"
proof -
  obtain k where n: "n = Suc (Suc (Suc (Suc k)))"
    using that [of "n - 4"] assms(7) by simp
  note keep = spec_assumptions
  obtain c1 where c1: "transitionPhase W g c = Some (c1, None, [])" "C_Phase c1 = CSVPhasePending"
      "csv_Reason c1 = CSVReasonRequirementsUnknown" "spec c1 = spec c"
    using assms(5) by (simp add: transitionPhase_def transitionNone_def)
  obtain c2 eff2 where c2: "transitionPhase W g c1 = Some (c2, None, eff2)" "C_Phase c2 = CSVPhaseInstallReady"
      "csv_Reason c2 = CSVReasonRequirementsMet" "spec c2 = spec c1"
    using healthy_pending [OF c1(2)] assms keep [OF c1(4)] by blast
  obtain c3 eff3 where c3: "transitionPhase W g c2 = Some (c3, None, eff3)" "C_Phase c3 = CSVPhaseInstalling"
      "csv_Reason c3 = CSVReasonInstallSuccessful" "spec c3 = spec c2"
    using healthy_installReady [OF c2(2)] assms keep [OF c1(4)] keep [OF c2(4)] by blast
  obtain c4 eff4 where c4: "transitionPhase W g c3 = Some (c4, None, eff4)" "C_Phase c4 = CSVPhaseSucceeded"
      "csv_Reason c4 = CSVReasonInstallSuccessful" "spec c4 = spec c3"
    using healthy_installing [OF c3(2)] assms keep [OF c1(4)] keep [OF c2(4)] keep [OF c3(4)] by blast
  have a: "admitted W g d" "unopposed W d" "answers W d" if "spec d = spec c" for d
    using assms keep [OF that] by simp_all
  have s: "spec c2 = spec c" "spec c3 = spec c" "spec c4 = spec c" using c1(4) c2(4) c3(4) c4(4) by simp_all
  have "syncs n W c = syncs k W c4"
    unfolding n using syncs_Suc_phase [OF assms(1) _ c1(1)] syncs_Suc_phase [OF a(1) [OF c1(4)] _ c2(1)]
      syncs_Suc_phase [OF a(1) [OF s(1)] _ c3(1)] syncs_Suc_phase [OF a(1) [OF s(2)] _ c4(1)] assms(6) c1(3) c2(3) c3(3) by simp
  then show ?thesis using syncs_succeeded [OF a(1,2,3) [OF s(3)] assms(4) c4(2,3)] by (metis s(3))
qed

section \<open>A cluster and its versions\<close>

definition demoGroup :: "UpgradeStrategy \<Rightarrow> Group" where
  "demoGroup s = \<lparr>og_Namespace = ''ns'', og_Name = ''og'', og_StatusNamespaces = [''ns''], og_ProvidedAPIs = [],
     gr_Annotated = False, gr_StaticProvidedAPIs = False, gr_UpgradeStrategy = s\<rparr>"

definition demoVersion :: "string \<Rightarrow> CSVPhase \<Rightarrow> string \<Rightarrow> CSV" where
  "demoVersion name phase replaces = \<lparr>C_Name = name, C_Namespace = ''ns'', C_Phase = phase, C_Replaces = replaces,
     csv_Annotations = [(OperatorGroupNamespaceAnnotationKey, ''ns''), (OperatorGroupAnnotationKey, ''og''),
       (OperatorGroupTargetsAnnotationKey, ''ns'')], csv_Labels = [], csv_InstallModes = [(''OwnNamespace'', True)],
     csv_OwnedCRDs = [], csv_RequiredCRDs = [], csv_OwnedAPIServices = [], csv_RequiredAPIServices = [],
     csv_Webhooks = [(''hook'', [])], csv_Reason = CSVReasonNone, csv_Message = [], csv_LastUpdateTime = None,
     csv_LastTransitionTime = None, csv_RequirementStatus = [], csv_Conditions = [], csv_CertsLastUpdated = None,
     csv_CertsRotateAt = None\<rparr>"

definition demoWorld :: "UpgradeStrategy \<Rightarrow> CSV list \<Rightarrow> world" where
  "demoWorld s csvs = \<lparr>w_now = 1, w_clock = 1, w_quote = (\<lambda>x. x), w_showModes = (\<lambda>_. []), w_updateCSV = Inr,
     w_groups = Inr [demoGroup s], w_allGroups = Inr [demoGroup s], w_groupTargets = (\<lambda>_. Inr [''ns'']),
     w_requeueGroup = None, w_updateGroup = (\<lambda>_. updated),
     w_get = (\<lambda>ns n. case find (\<lambda>c. C_Name c = n) csvs of None \<Rightarrow> Inl ''not found'' | Some c \<Rightarrow> Inr c),
     w_csvs = Inr csvs, w_condition = (\<lambda>_ _. notFound), w_requirements = (\<lambda>_. (True, [''present''], None)),
     w_apiService = (\<lambda>_ _. serviceMissing), w_strategy = (\<lambda>_. Inr 0), w_clients = True, w_install = None,
     w_certsRotated = Some 9, w_deploymentSpecs = Inr 0, w_checkInstalled = (True, None),
     w_apiServicesAvailable = (True, None), w_webhooksAvailable = (True, None), w_apiServiceResources = None,
     w_actionable = False, w_shouldRotate = Inr False, w_clusterRoles = None, w_delete = None\<rparr>"

lemmas demo_defs = demoGroup_def demoVersion_def demoWorld_def

abbreviation demoUpgrade :: "CSV list" where
  "demoUpgrade \<equiv> [demoVersion ''a.v1'' CSVPhaseReplacing [], demoVersion ''a.v2'' CSVPhaseSucceeded ''a.v1'']"

text \<open>The panic occurs: the replacement of a version in the phase Replacing has been removed.\<close>

lemma transitionCSVState_panic_example:
  "transitionCSVState (demoWorld UpgradeStrategyUnsafeFailForward [demoVersion ''a.v1'' CSVPhaseReplacing []])
     (demoVersion ''a.v1'' CSVPhaseReplacing []) = None"
  by code_simp

abbreviation demoNew :: "CSV" where
  "demoNew \<equiv> demoVersion ''a.v1'' CSVPhaseNone []"

abbreviation demoAlone :: "world" where
  "demoAlone \<equiv> demoWorld UpgradeStrategyDefault [demoNew]"

lemma demo_admitted: "admitted demoAlone (demoGroup UpgradeStrategyDefault) demoNew"
  unfolding admitted_def by code_simp

lemma demo_unopposed: "unopposed demoAlone demoNew"
  unfolding unopposed_def by code_simp

lemma demo_answers: "answers demoAlone demoNew"
  by (auto simp: answers_def demo_defs apiServiceOwnerConflicts_None_iff)

lemma demo_healthy: "healthy demoAlone"
  by (simp add: healthy_def demo_defs)

theorem syncs_reach_succeeded_witness:
  "\<exists>c'. syncs 5 demoAlone demoNew = Some c' \<and> C_Phase c' = CSVPhaseSucceeded"
proof (rule syncs_reach_succeeded [OF demo_admitted demo_unopposed demo_answers demo_healthy])
qed (simp_all add: demoVersion_def)

text \<open>A version in the phase Replacing whose replacement runs, after one more synchronisation.\<close>

definition demoReplaced :: CSV where
  "demoReplaced = SetPhase CSVPhaseDeleting CSVReasonReplaced
     ''has been replaced by a newer ClusterServiceVersion that has successfully installed.'' 1 (demoVersion ''a.v1'' CSVPhaseReplacing [])"

abbreviation demoForward :: world where
  "demoForward \<equiv> demoWorld UpgradeStrategyUnsafeFailForward demoUpgrade"

lemma demo_replaced:
  "transitionCSVState demoForward (demoVersion ''a.v1'' CSVPhaseReplacing []) = Some (Some demoReplaced, None, [])"
  by code_simp

lemma demo_replaced_run:
  "csv_run (demoVersion ''a.v1'' CSVPhaseReplacing []) [(demoForward, demoVersion ''a.v1'' CSVPhaseReplacing [])] demoReplaced"
  using demo_replaced by (auto intro!: runs.intros simp: csv_step_def)

lemma demo_deleted: "transitionCSVState demoForward demoReplaced = Some (Some demoReplaced, None, [deleteCSV ''ns'' ''a.v1''])"
  by code_simp

theorem csv_run_deletes_witness:
  "\<exists>(W', d) \<in> set [(demoForward, demoVersion ''a.v1'' CSVPhaseReplacing [])].
     C_Phase d = CSVPhaseReplacing \<and> safelyReplaced W' d"
proof -
  have "C_Phase (demoVersion ''a.v1'' CSVPhaseReplacing []) \<noteq> CSVPhaseDeleting" by (simp add: demoVersion_def)
  from csv_run_deletes [OF demo_replaced_run this demo_deleted, of "''ns''" "''a.v1''"]
  show ?thesis by (meson list.set_intros(1))
qed

lemma csv_run_graph_witness: "C_Phase demoReplaced \<in> nextPhases CSVPhaseReplacing"
  using csv_run_graph [OF demo_replaced_run] by (simp add: demoVersion_def)

theorem csv_run_status_witness:
  "status_wf demoReplaced \<and> unannotated demoReplaced = unannotated (demoVersion ''a.v1'' CSVPhaseReplacing [])"
proof (rule csv_run_status [OF demo_replaced_run])
  show "status_wf (demoVersion ''a.v1'' CSVPhaseReplacing [])"
    by (simp add: status_wf_def demoVersion_def)
qed

definition demoPending :: CSV where
  "demoPending = SetPhase CSVPhasePending CSVReasonRequirementsUnknown ''requirements not yet checked'' 1 demoNew"

definition demoReady :: CSV where
  "demoReady = SetPhase CSVPhaseInstallReady CSVReasonRequirementsMet ''all requirements found, attempting install'' 1
     (demoPending\<lparr>csv_RequirementStatus := [''present'']\<rparr>)"

lemma demo_ready_run: "csv_run demoNew [(demoAlone, demoPending), (demoAlone, demoNew)] demoReady"
proof -
  have 1: "transitionCSVState demoAlone demoNew = Some (Some demoPending, None, [])" by code_simp
  have 2: "transitionCSVState demoAlone demoPending = Some (Some demoReady, None, [])" by code_simp
  show ?thesis using 1 2 by (auto intro!: runs.intros simp: csv_step_def)
qed

lemma csv_run_requirements_witness:
  "\<exists>(W, d) \<in> set [(demoAlone, demoPending), (demoAlone, demoNew)].
     C_Phase d \<in> {CSVPhasePending, CSVPhaseFailed} \<and> fst (w_requirements W d)"
proof (rule csv_run_requirements [OF demo_ready_run])
  show "C_Phase demoReady \<in> installPhases" by (simp add: demoReady_def installPhases_def)
qed (simp add: demoVersion_def)

lemma transitionPending_ready_iff_witness:
  "C_Phase (fst (transitionPending demoAlone demoPending)) = CSVPhaseInstallReady"
proof -
  have p: "C_Phase demoPending = CSVPhasePending" by (simp add: demoPending_def)
  have "IsReplacing (w_get demoAlone) demoPending = None" "crdOwnerConflicts demoPending (namespaceCSVs demoAlone) = None"
    "csv_Webhooks demoPending = [(''hook'', [])]" "csv_OwnedAPIServices demoPending = []"
    "w_requirements demoAlone demoPending = (True, [''present''], None)"
    by code_simp+
  then show ?thesis unfolding transitionPending_ready_iff [OF p] by simp
qed

section \<open>Every move of the graph\<close>

definition movesTo :: "world \<Rightarrow> CSV \<Rightarrow> CSVPhase \<Rightarrow> bool" where
  "movesTo W c q = (case transitionCSVState W c of Some (Some c', _) \<Rightarrow> C_Phase c' = q | _ \<Rightarrow> False)"

abbreviation demoIn :: "CSVPhase \<Rightarrow> CSV" where
  "demoIn p \<equiv> demoVersion ''a.v1'' p []"

abbreviation unhooked :: world where
  "unhooked \<equiv> demoAlone\<lparr>w_webhooksAvailable := (False, Some (plainError []))\<rparr>"

lemma movesTo_stay: "movesTo (demoAlone\<lparr>w_groups := Inl []\<rparr>) (demoIn p) p"
  by (simp add: movesTo_def transitionCSVState_def operatorGroupForCSV_def demo_defs apiSurfaceOfCSV_def Let_def)

lemma movesTo_failed: "movesTo (demoAlone\<lparr>w_groups := Inr []\<rparr>) (demoIn p) CSVPhaseFailed"
  by (simp add: movesTo_def transitionCSVState_def operatorGroupForCSV_def demo_defs apiSurfaceOfCSV_def Let_def)

lemma movesTo_installation:
  "movesTo demoAlone (demoIn CSVPhaseNone) CSVPhasePending"
  "movesTo demoAlone (demoIn CSVPhasePending) CSVPhaseInstallReady"
  "movesTo demoAlone (demoIn CSVPhaseInstallReady) CSVPhaseInstalling"
  "movesTo demoAlone (demoIn CSVPhaseInstalling) CSVPhaseSucceeded"
  "movesTo demoAlone (demoIn CSVPhaseFailed) CSVPhaseSucceeded"
  by code_simp+

lemma movesTo_back:
  "movesTo (demoAlone\<lparr>w_deploymentSpecs := Inl []\<rparr>) (demoIn CSVPhaseInstalling) CSVPhasePending"
  "movesTo (demoAlone\<lparr>w_shouldRotate := Inr True\<rparr>) (demoIn CSVPhaseSucceeded) CSVPhasePending"
  "movesTo (demoAlone\<lparr>w_shouldRotate := Inr True\<rparr>) (demoIn CSVPhaseFailed) CSVPhasePending"
  "movesTo unhooked (demoIn CSVPhaseInstalling) CSVPhaseInstallReady"
  "movesTo unhooked (demoIn CSVPhaseSucceeded) CSVPhaseInstallReady"
  "movesTo unhooked (demoIn CSVPhaseFailed) CSVPhaseInstallReady"
  by code_simp+

lemma movesTo_replaced:
  "movesTo demoForward (demoIn CSVPhaseSucceeded) CSVPhaseReplacing"
  "movesTo demoForward (demoIn CSVPhaseFailed) CSVPhaseReplacing"
  "movesTo demoForward (demoIn CSVPhaseReplacing) CSVPhaseDeleting"
  by code_simp+

lemma movesTo_all: "q \<in> nextPhases p \<Longrightarrow> \<exists>W. movesTo W (demoIn p) q"
  using movesTo_stay [of p] movesTo_failed [of p] movesTo_installation movesTo_back movesTo_replaced
  by (cases p) (auto simp only: nextPhases.simps insert_iff empty_iff)

text \<open>C25. The phases of a version move exactly as follows. Every phase can stay and can fail. None moves on
  to Pending, Pending to InstallReady, InstallReady to Installing, and Installing to Succeeded;
  Installing and Succeeded go back to Pending or InstallReady; Failed goes to Pending,
  InstallReady or Succeeded; Succeeded and Failed move to Replacing, and Replacing to Deleting. No
  synchronisation makes another move, and each of these is made by one.\<close>

theorem transition_graph_exact:
  "(\<exists>W c c' e eff. C_Phase c = p \<and> transitionCSVState W c = Some (Some c', e, eff) \<and> C_Phase c' = q) \<longleftrightarrow> q \<in> nextPhases p"
proof
  assume "q \<in> nextPhases p"
  then obtain W where "movesTo W (demoIn p) q" using movesTo_all by blast
  then obtain c' e eff where "transitionCSVState W (demoIn p) = Some (Some c', e, eff)" "C_Phase c' = q"
    by (auto simp: movesTo_def split: option.splits prod.splits)
  moreover have "C_Phase (demoIn p) = p" by (simp add: demoVersion_def)
  ultimately show "\<exists>W c c' e eff. C_Phase c = p \<and> transitionCSVState W c = Some (Some c', e, eff) \<and> C_Phase c' = q" by blast
qed (use transitionCSVState_graph in blast)

text \<open>A read that fails although the version is there: it is replaced in turn, and the version that
  replaces it is marked for deletion before it.\<close>

lemma unread_predecessor_deleted:
  "let old = demoVersion ''a.v0'' CSVPhaseReplacing []; c = demoVersion ''a.v1'' CSVPhaseReplacing ''a.v0'';
       W = demoWorld UpgradeStrategyDefault [old, c, demoVersion ''a.v2'' CSVPhaseSucceeded ''a.v1'']
   in movesTo W c CSVPhaseReplacing \<and> movesTo (W\<lparr>w_get := \<lambda>ns n. Inl ''timeout''\<rparr>) c CSVPhaseDeleting"
  by code_simp

end
