(* ===== verification/Install_Plan.thy ===== *)
theory Install_Plan
  imports Sync_Machine
begin

text \<open>
  InstallPlans of the catalog operator, \<open>operators/catalog/operator.go\<close> and
  \<open>installplan_sync.go\<close>: the resource, its conditions, the transition of its phase, the handler
  around it, the retry after a change of permissions and the collection of old plans. The
  execution of a plan is the interface \<open>installPlanTransitioner\<close> of the code: an argument here,
  the model of \<open>ExecutePlan\<close> later. Times are seconds.
\<close>

section \<open>The resource\<close>

datatype Approval = ApprovalAutomatic | ApprovalManual | ApprovalOther string

datatype InstallPlanPhase = InstallPlanPhaseNone | InstallPlanPhasePlanning | InstallPlanPhaseRequiresApproval
  | InstallPlanPhaseInstalling | InstallPlanPhaseComplete | InstallPlanPhaseFailed

datatype StepStatus = StepStatusUnknown | StepStatusNotPresent | StepStatusPresent | StepStatusCreated
  | StepStatusNotCreated | StepStatusWaitingForAPI | StepStatusUnsupportedResource

datatype ConditionStatus = ConditionTrue | ConditionFalse | ConditionUnknown

record Step =
  st_Resolving :: string
  st_Kind :: string
  st_Name :: string
  st_Group :: string
  st_Version :: string
  st_CatalogSource :: string
  st_CatalogSourceNamespace :: string
  st_Manifest :: string
  st_Status :: StepStatus

record IPCondition =
  ic_Type :: string
  ic_Status :: ConditionStatus
  ic_Reason :: string
  ic_Message :: string
  ic_LastUpdateTime :: "nat option"
  ic_LastTransitionTime :: "nat option"

record BundleLookupCondition =
  bc_Type :: string
  bc_Status :: ConditionStatus
  bc_Reason :: string
  bc_Message :: string

record BundleLookup =
  bl_Path :: string
  bl_Identifier :: string
  bl_Replaces :: string
  bl_CatalogSource :: "string \<times> string"
  bl_Conditions :: "BundleLookupCondition list"
  bl_Properties :: string

record InstallPlan =
  ip_Name :: string
  ip_Namespace :: string
  ip_Created :: nat
  ip_Owners :: "string list"
  ip_CSVNames :: "string list"
  ip_Approval :: Approval
  ip_Approved :: bool
  ip_Generation :: int
  ip_Phase :: InstallPlanPhase
  ip_Conditions :: "IPCondition list"
  ip_CatalogSources :: "string list"
  ip_Plan :: "Step list"
  ip_BundleLookups :: "BundleLookup list"
  ip_ServiceAccount :: "string option"
  ip_StartTime :: "nat option"
  ip_Message :: string

definition GetCondition :: "IPCondition list \<Rightarrow> string \<Rightarrow> IPCondition" where
  "GetCondition conds t =
     (case find (\<lambda>c. ic_Type c = t) conds of
        Some c \<Rightarrow> c
      | None \<Rightarrow> \<lparr>ic_Type = t, ic_Status = ConditionUnknown, ic_Reason = [], ic_Message = [], ic_LastUpdateTime = None,
                  ic_LastTransitionTime = None\<rparr>)"

fun SetCondition :: "IPCondition \<Rightarrow> IPCondition list \<Rightarrow> IPCondition list" where
  "SetCondition cond [] = [cond]"
| "SetCondition cond (existing # conds) =
     (if ic_Type existing \<noteq> ic_Type cond then existing # SetCondition cond conds
      else (if ic_Status existing = ic_Status cond
            then cond\<lparr>ic_LastTransitionTime := ic_LastTransitionTime existing\<rparr> else cond) # conds)"

definition InstallPlanInstalled :: string where
  "InstallPlanInstalled = ''Installed''"

definition InstallPlanReasonInstallCheckFailed :: string where
  "InstallPlanReasonInstallCheckFailed = ''InstallCheckFailed''"

definition ConditionFailed :: "string \<Rightarrow> string \<Rightarrow> string \<Rightarrow> nat \<Rightarrow> IPCondition" where
  "ConditionFailed cond reason message now = \<lparr>ic_Type = cond, ic_Status = ConditionFalse, ic_Reason = reason,
     ic_Message = message, ic_LastUpdateTime = Some now, ic_LastTransitionTime = Some now\<rparr>"

definition ConditionMet :: "string \<Rightarrow> nat \<Rightarrow> IPCondition" where
  "ConditionMet cond now = \<lparr>ic_Type = cond, ic_Status = ConditionTrue, ic_Reason = [],
     ic_Message = [], ic_LastUpdateTime = Some now, ic_LastTransitionTime = Some now\<rparr>"

definition NeedsRequeue :: "InstallPlan \<Rightarrow> bool" where
  "NeedsRequeue plan \<longleftrightarrow> list_ex (\<lambda>s. st_Status s = StepStatusWaitingForAPI) (ip_Plan plan)"

section \<open>The transition of the phase\<close>

text \<open>Errors of the API server and of the code, with their text.\<close>

datatype api_error = forbidden string | apiNotFound string | alreadyExists string | plainErr string
  | ErrInvalidInstallPlan

fun apiErrorText :: "api_error \<Rightarrow> string" where
  "apiErrorText (forbidden t) = t"
| "apiErrorText (apiNotFound t) = t"
| "apiErrorText (alreadyExists t) = t"
| "apiErrorText (plainErr t) = t"
| "apiErrorText ErrInvalidInstallPlan = ''the InstallPlan contains invalid data''"

text \<open>\<open>%q\<close> on a name without special characters.\<close>

definition quoted :: "string \<Rightarrow> string" where
  "quoted name = [CHR 0x22] @ name @ [CHR 0x22]"

fun IsForbidden :: "api_error \<Rightarrow> bool" where
  "IsForbidden (forbidden t) = True"
| "IsForbidden _ = False"

text \<open>The execution changes the plan and the cluster and may fail; \<open>None\<close> is a panic.\<close>

type_synonym 's executor = "InstallPlan \<Rightarrow> 's \<Rightarrow> (InstallPlan \<times> api_error option \<times> 's) option"

definition afterExecution :: "nat \<Rightarrow> nat \<Rightarrow> nat \<Rightarrow> InstallPlan \<Rightarrow> api_error option \<Rightarrow> InstallPlan" where
  "afterExecution now start timeout out err =
     (case err of
        Some e \<Rightarrow>
          if IsForbidden e \<or> int now - int start < int timeout
          then out\<lparr>ip_Message := ''retrying execution due to error: '' @ apiErrorText e\<rparr>
          else out\<lparr>ip_Conditions := SetCondition (ConditionFailed InstallPlanInstalled ''InstallComponentFailed'' (apiErrorText e) now) (ip_Conditions out),
                   ip_Phase := InstallPlanPhaseFailed, ip_Message := apiErrorText e\<rparr>
      | None \<Rightarrow>
          if \<not> NeedsRequeue out
          then out\<lparr>ip_Conditions := SetCondition (ConditionMet InstallPlanInstalled now) (ip_Conditions out),
                   ip_Phase := InstallPlanPhaseComplete, ip_Message := []\<rparr>
          else out)"

definition startTime :: "nat \<Rightarrow> InstallPlan \<Rightarrow> nat" where
  "startTime now plan = (case ip_StartTime plan of None \<Rightarrow> now | Some t \<Rightarrow> t)"

definition transitionInstallPlanState :: "'s executor \<Rightarrow> InstallPlan \<Rightarrow> nat \<Rightarrow> nat \<Rightarrow> 's \<Rightarrow> (InstallPlan \<times> api_error option \<times> 's) option" where
  "transitionInstallPlanState execute inp now timeout s =
     (case ip_Phase inp of
        InstallPlanPhaseRequiresApproval \<Rightarrow>
          Some ((if ip_Approved inp then inp\<lparr>ip_Phase := InstallPlanPhaseInstalling, ip_Message := []\<rparr> else inp), None, s)
      | InstallPlanPhaseInstalling \<Rightarrow>
          (case execute (inp\<lparr>ip_StartTime := Some (startTime now inp)\<rparr>) s of
             None \<Rightarrow> None
           | Some (out, err, s') \<Rightarrow> Some (afterExecution now (startTime now inp) timeout out err, err, s'))
      | _ \<Rightarrow> Some (inp, None, s))"

section \<open>The handler\<close>

record ip_world =
  iw_now :: nat
  iw_timeout :: nat
  iw_querier :: "string + string option"
  iw_updateStatus :: "InstallPlan \<Rightarrow> string option"

datatype ip_effect = writeStatus InstallPlan | requeueAfter nat | requeueSubscription string string

text \<open>An update of the status that the API server accepts stores the plan.\<close>

definition setInstallPlanInstalledCond :: "ip_world \<Rightarrow> InstallPlan \<Rightarrow> string \<Rightarrow> string \<Rightarrow> string + InstallPlan" where
  "setInstallPlanInstalledCond W plan reason message =
     (let plan' = plan\<lparr>ip_Conditions := SetCondition (ConditionFailed InstallPlanInstalled reason message (iw_now W)) (ip_Conditions plan)\<rparr>
      in case iw_updateStatus W plan' of
           Some e \<Rightarrow> Inl (''error updating InstallPlan status: '' @ e)
         | None \<Rightarrow> Inr plan')"

definition requeueSubscriptionForInstallPlan :: "InstallPlan \<Rightarrow> ip_effect list" where
  "requeueSubscriptionForInstallPlan plan = map (requeueSubscription (ip_Namespace plan)) (ip_Owners plan)"

definition finishSync :: "ip_world \<Rightarrow> InstallPlan \<Rightarrow> InstallPlan \<times> api_error option \<times> 's \<Rightarrow> ip_effect list
    \<Rightarrow> string option \<times> ip_effect list \<times> 's" where
  "finishSync W plan r eff =
     (let (out, syncError, s) = r;
          after = requeueSubscriptionForInstallPlan plan
            @ (if ip_Phase out = InstallPlanPhaseInstalling then [requeueAfter 5] else [])
      in case iw_updateStatus W out of
           None \<Rightarrow> (map_option apiErrorText syncError, eff @ [writeStatus out] @ after, s)
         | Some e \<Rightarrow>
             let updateErr = ''error updating InstallPlan status: '' @ e
             in (Some (case syncError of
                   None \<Rightarrow> updateErr
                 | Some x \<Rightarrow> ''error transitioning InstallPlan: '' @ apiErrorText x @ '' and error updating InstallPlan status: '' @ updateErr),
                 eff @ after, s))"

definition syncInstallPlans :: "'s executor \<Rightarrow> ip_world \<Rightarrow> InstallPlan \<Rightarrow> 's \<Rightarrow> (string option \<times> ip_effect list \<times> 's) option" where
  "syncInstallPlans execute W plan s =
     (if length (ip_Plan plan) = 0 \<and> length (ip_BundleLookups plan) = 0 then Some (None, [], s)
      else if ip_Phase plan = InstallPlanPhaseFailed \<or> ip_Phase plan = InstallPlanPhaseComplete then Some (None, [], s)
      else case iw_querier W of
        Inl err \<Rightarrow>
          (case setInstallPlanInstalledCond W plan InstallPlanReasonInstallCheckFailed err of
             Inl e \<Rightarrow> Some (Some e, [], s)
           | Inr plan' \<Rightarrow> Some (Some (''attenuated service account query failed - '' @ err), [writeStatus plan'], s))
      | Inr ref \<Rightarrow>
          (case (if ic_Reason (GetCondition (ip_Conditions plan) InstallPlanInstalled) = InstallPlanReasonInstallCheckFailed
                 then map_sum id (\<lambda>p. (p, [writeStatus p])) (setInstallPlanInstalledCond W plan ''Unknown'' [])
                 else Inr (plan, [])) of
             Inl e \<Rightarrow> Some (Some e, [], s)
           | Inr (plan, eff) \<Rightarrow>
               if ref \<noteq> None \<and> ip_ServiceAccount plan \<noteq> ref then
                 let out = plan\<lparr>ip_ServiceAccount := ref\<rparr>
                 in (case iw_updateStatus W out of
                       Some e \<Rightarrow> Some (Some (''failed to attach attenuated ServiceAccount to status - '' @ e), eff, s)
                     | None \<Rightarrow> Some (None, eff @ [writeStatus out], s))
               else map_option (\<lambda>r. finishSync W plan r eff)
                      (transitionInstallPlanState execute plan (iw_now W) (iw_timeout W) s)))"

text \<open>The plan that the API server holds after a synchronisation: the last one written.\<close>

definition stored :: "InstallPlan \<Rightarrow> ip_effect list \<Rightarrow> InstallPlan" where
  "stored plan eff = foldl (\<lambda>p e. case e of writeStatus p' \<Rightarrow> p' | _ \<Rightarrow> p) plan eff"

section \<open>The retry after a change of permissions\<close>

definition retryPlan :: "InstallPlan \<Rightarrow> InstallPlan" where
  "retryPlan plan =
     (if ip_Phase plan = InstallPlanPhaseFailed \<and> ip_ServiceAccount plan \<noteq> None
      then plan\<lparr>ip_Phase := InstallPlanPhaseInstalling\<rparr> else plan)"

text \<open>The plans written and the errors of the updates that failed.\<close>

definition triggerInstallPlanRetry :: "ip_world \<Rightarrow> bool \<Rightarrow> string + InstallPlan list \<Rightarrow> string list \<times> ip_effect list" where
  "triggerInstallPlanRetry W related listed =
     (if \<not> related then ([], [])
      else case listed of
        Inl e \<Rightarrow> ([e], [])
      | Inr ips \<Rightarrow>
          let targets = filter (\<lambda>ip. ip_Phase ip = InstallPlanPhaseFailed \<and> ip_ServiceAccount ip \<noteq> None) ips
          in (List.map_filter (\<lambda>ip. iw_updateStatus W (retryPlan ip)) targets,
              List.map_filter (\<lambda>ip. if iw_updateStatus W (retryPlan ip) = None then Some (writeStatus (retryPlan ip)) else None) targets))"

section \<open>The collection of old plans\<close>

definition maxInstallPlanCount :: nat where
  "maxInstallPlanCount = 5"

definition maxDeletesPerSweep :: nat where
  "maxDeletesPerSweep = 5"

definition olderPlan :: "InstallPlan \<Rightarrow> InstallPlan \<Rightarrow> bool" where
  "olderPlan a b = (if ip_Created a \<noteq> ip_Created b then ip_Created a < ip_Created b else ip_Name a < ip_Name b)"

text \<open>\<open>sort.Slice\<close> is a parameter; the plans of one generation keep the order of the list.\<close>

fun gcLoop :: "((InstallPlan \<Rightarrow> InstallPlan \<Rightarrow> bool) \<Rightarrow> InstallPlan list \<Rightarrow> InstallPlan list) \<Rightarrow> InstallPlan list \<Rightarrow> int list
    \<Rightarrow> InstallPlan list \<Rightarrow> InstallPlan list" where
  "gcLoop srt ips [] toDelete = toDelete"
| "gcLoop srt ips (i # gens) toDelete =
     (let g = filter (\<lambda>ip. ip_Generation ip = i) ips
      in if length ips - length toDelete \<le> maxInstallPlanCount then toDelete
         else if length ips - length toDelete \<ge> maxInstallPlanCount + length g
         then gcLoop srt ips gens (toDelete @ g)
         else gcLoop srt ips gens (toDelete @ take (length ips - length toDelete - maxInstallPlanCount) (srt olderPlan g)))"

text \<open>The plans to delete, given what the lister returns.\<close>

definition gcInstallPlans :: "((InstallPlan \<Rightarrow> InstallPlan \<Rightarrow> bool) \<Rightarrow> InstallPlan list \<Rightarrow> InstallPlan list)
    \<Rightarrow> string + InstallPlan list \<Rightarrow> InstallPlan list" where
  "gcInstallPlans srt listed =
     (let allIps = (case listed of Inl e \<Rightarrow> [] | Inr ips \<Rightarrow> ips)
      in if length allIps \<le> maxInstallPlanCount then []
         else let ips = (if length allIps > maxInstallPlanCount + maxDeletesPerSweep
                         then take (maxInstallPlanCount + maxDeletesPerSweep) allIps else allIps)
              in gcLoop srt ips (sort (remdups (map ip_Generation ips))) [])"

section \<open>What the execution promises\<close>

text \<open>The parts of a plan that only its author and its approver write.\<close>

definition planSpec :: "InstallPlan \<Rightarrow> InstallPlan" where
  "planSpec p = p\<lparr>ip_Phase := InstallPlanPhaseNone, ip_Conditions := [], ip_Plan := [], ip_ServiceAccount := None,
     ip_StartTime := None, ip_Message := []\<rparr>"

lemma planSpec_update [simp]:
  "planSpec (p\<lparr>ip_Phase := x\<rparr>) = planSpec p" "planSpec (p\<lparr>ip_Conditions := c\<rparr>) = planSpec p"
  "planSpec (p\<lparr>ip_Plan := q\<rparr>) = planSpec p" "planSpec (p\<lparr>ip_ServiceAccount := a\<rparr>) = planSpec p"
  "planSpec (p\<lparr>ip_StartTime := t\<rparr>) = planSpec p" "planSpec (p\<lparr>ip_Message := m\<rparr>) = planSpec p"
  by (simp_all add: planSpec_def)

lemma planSpec_fields:
  assumes "planSpec p = planSpec q"
  shows "ip_Approved p = ip_Approved q" "ip_Approval p = ip_Approval q" "ip_Name p = ip_Name q" "ip_Generation p = ip_Generation q"
    "ip_Namespace p = ip_Namespace q" "ip_CSVNames p = ip_CSVNames q"
  using assms by (cases p; cases q; simp add: planSpec_def)+

text \<open>The phases that one synchronisation may lead to.\<close>

fun nextPlanPhases :: "InstallPlanPhase \<Rightarrow> InstallPlanPhase set" where
  "nextPlanPhases InstallPlanPhaseRequiresApproval = {InstallPlanPhaseRequiresApproval, InstallPlanPhaseInstalling}"
| "nextPlanPhases InstallPlanPhaseInstalling = {InstallPlanPhaseInstalling, InstallPlanPhaseComplete, InstallPlanPhaseFailed}"
| "nextPlanPhases InstallPlanPhaseFailed = {InstallPlanPhaseFailed, InstallPlanPhaseInstalling}"
| "nextPlanPhases p = {p}"

section \<open>The stages of a synchronisation\<close>

lemma stored_simps [simp]:
  "stored p [] = p" "stored p (eff @ eff') = stored (stored p eff) eff'" "stored p (writeStatus q # eff) = stored q eff"
  "stored p (requeueAfter n # eff) = stored p eff" "stored p (requeueSubscription a b # eff) = stored p eff"
  by (simp_all add: stored_def)

lemma stored_requeue [simp]: "stored p (requeueSubscriptionForInstallPlan q) = p"
proof -
  have "stored p (map (requeueSubscription ns) xs) = p" for ns xs by (induction xs) auto
  then show ?thesis by (simp add: requeueSubscriptionForInstallPlan_def)
qed

lemma setInstalledCond_keeps:
  "setInstallPlanInstalledCond W p r m = Inr q \<Longrightarrow> planSpec q = planSpec p \<and> ip_Phase q = ip_Phase p \<and> ip_Plan q = ip_Plan p"
  by (auto simp: setInstallPlanInstalledCond_def Let_def split: option.splits)

lemma stored_finishSync:
  assumes "finishSync W q (q', te, s') eff = (e, eff', s'')"
  shows "s'' = s' \<and> (stored p eff' = q' \<or> stored p eff' = stored p eff)"
  using assms by (auto simp: finishSync_def Let_def split: option.splits if_splits)

lemma syncInstallPlans_stages:
  assumes "syncInstallPlans execute W p s = Some (e, eff, s')"
  obtains (untouched) "planSpec (stored p eff) = planSpec p" "ip_Phase (stored p eff) = ip_Phase p" "s' = s"
  | (transitioned) q q' te where "planSpec q = planSpec p" "ip_Phase q = ip_Phase p"
      "transitionInstallPlanState execute q (iw_now W) (iw_timeout W) s = Some (q', te, s')"
      "stored p eff = q' \<or> stored p eff = q"
proof (cases "iw_querier W")
  case (Inl x)
  with assms untouched show thesis
    by (auto simp: syncInstallPlans_def split: if_splits sum.splits dest!: setInstalledCond_keeps)
next
  case (Inr ref)
  show thesis
  proof (cases "length (ip_Plan p) = 0 \<and> length (ip_BundleLookups p) = 0
      \<or> ip_Phase p = InstallPlanPhaseFailed \<or> ip_Phase p = InstallPlanPhaseComplete")
    case True
    with assms untouched show thesis by (auto simp: syncInstallPlans_def split: if_splits)
  next
    case False
    define r where "r = (if ic_Reason (GetCondition (ip_Conditions p) InstallPlanInstalled) = InstallPlanReasonInstallCheckFailed
        then map_sum id (\<lambda>q. (q, [writeStatus q])) (setInstallPlanInstalledCond W p ''Unknown'' []) else Inr (p, []))"
    show thesis
    proof (cases r)
      case (Inl x)
      with assms \<open>iw_querier W = Inr ref\<close> False untouched show thesis
        unfolding syncInstallPlans_def r_def [symmetric] by (auto split: if_splits)
    next
      case r: (Inr x)
      obtain q eff0 where x: "x = (q, eff0)" by (cases x)
      have q: "planSpec q = planSpec p" "ip_Phase q = ip_Phase p" "stored p eff0 = q"
        using r unfolding r_def x by (auto split: if_splits sum.splits dest!: setInstalledCond_keeps
            simp: map_sum_def)
      consider "ref \<noteq> None" "ip_ServiceAccount q \<noteq> ref"
        | t where "transitionInstallPlanState execute q (iw_now W) (iw_timeout W) s = Some t" "(e, eff, s') = finishSync W q t eff0"
        using assms \<open>iw_querier W = Inr ref\<close> False r x
        unfolding syncInstallPlans_def r_def [symmetric] by (auto split: if_splits)
      then show thesis
      proof cases
        case 1
        with assms \<open>iw_querier W = Inr ref\<close> False r x q untouched show thesis
          unfolding syncInstallPlans_def r_def [symmetric] by (auto simp: Let_def split: if_splits option.splits)
      next
        case 2
        obtain q' te s'' where t: "t = (q', te, s'')" by (cases t)
        from stored_finishSync [OF 2(2) [symmetric, unfolded t], of p] q(3)
        have f: "s'' = s'" "stored p eff = q' \<or> stored p eff = q" by auto
        show thesis using 2(1) unfolding t f(1) by (rule transitioned [OF q(1,2) _ f(2)])
      qed
    qed
  qed
qed

text \<open>The contract of the interface \<open>installPlanTransitioner\<close>: a plan that is installing is executed
  without a panic, and the execution changes nothing of the plan but the status of its steps.\<close>

locale plan_executor =
  fixes execute :: "'s executor"
  assumes returns: "ip_Phase p = InstallPlanPhaseInstalling \<Longrightarrow> execute p s \<noteq> None"
    and keeps: "execute p s = Some (p', e, s') \<Longrightarrow> p' = p\<lparr>ip_Plan := ip_Plan p'\<rparr>"
begin

lemma transition_returns: "\<exists>r. transitionInstallPlanState execute p now timeout s = Some r"
proof (cases "ip_Phase p = InstallPlanPhaseInstalling")
  case True
  have "execute (p\<lparr>ip_StartTime := Some (startTime now p)\<rparr>) s \<noteq> None" using True by (intro returns) simp
  then obtain q e s' where "execute (p\<lparr>ip_StartTime := Some (startTime now p)\<rparr>) s = Some (q, e, s')" by auto
  then show ?thesis using True by (simp add: transitionInstallPlanState_def)
qed (auto simp: transitionInstallPlanState_def split: InstallPlanPhase.splits)

lemma transition_installing:
  assumes "transitionInstallPlanState execute p now timeout s = Some (p', e, s')" "ip_Phase p = InstallPlanPhaseInstalling"
  obtains q where "execute (p\<lparr>ip_StartTime := Some (startTime now p)\<rparr>) s = Some (q, e, s')"
    "planSpec q = planSpec p" "ip_Phase q = InstallPlanPhaseInstalling" "p' = afterExecution now (startTime now p) timeout q e"
proof -
  let ?p = "p\<lparr>ip_StartTime := Some (startTime now p)\<rparr>"
  obtain q where x: "execute ?p s = Some (q, e, s')" "p' = afterExecution now (startTime now p) timeout q e"
    using assms by (auto simp: transitionInstallPlanState_def split: option.splits)
  obtain st where "q = ?p\<lparr>ip_Plan := st\<rparr>" using keeps [OF x(1)] by blast
  with that x assms(2) show thesis by simp
qed

lemma transition_keeps:
  assumes "transitionInstallPlanState execute p now timeout s = Some (p', e, s')"
  shows "planSpec p' = planSpec p \<and> ip_Phase p' \<in> nextPlanPhases (ip_Phase p)
    \<and> (ip_Phase p = InstallPlanPhaseRequiresApproval \<longrightarrow> ip_Phase p' = InstallPlanPhaseInstalling \<longrightarrow> ip_Approved p)
    \<and> (ip_Phase p \<noteq> InstallPlanPhaseInstalling \<longrightarrow> s' = s)"
proof (cases "ip_Phase p = InstallPlanPhaseInstalling")
  case True
  from transition_installing [OF assms True] obtain q where "planSpec q = planSpec p"
    "ip_Phase q = InstallPlanPhaseInstalling" "p' = afterExecution now (startTime now p) timeout q e" .
  with True show ?thesis by (auto simp: afterExecution_def split: option.splits)
next
  case False
  with assms show ?thesis by (auto simp: transitionInstallPlanState_def split: InstallPlanPhase.splits if_splits)
qed

text \<open>A synchronisation keeps the specification; it touches the cluster only for a plan that is
  installing, and starts the installation only of a plan that is approved.\<close>

lemma sync_keeps:
  assumes "syncInstallPlans execute W p s = Some (e, eff, s')"
  shows "planSpec (stored p eff) = planSpec p \<and> ip_Phase (stored p eff) \<in> nextPlanPhases (ip_Phase p)
    \<and> (ip_Phase p = InstallPlanPhaseRequiresApproval \<longrightarrow> ip_Phase (stored p eff) = InstallPlanPhaseInstalling \<longrightarrow> ip_Approved p)
    \<and> (ip_Phase p \<noteq> InstallPlanPhaseInstalling \<longrightarrow> s' = s)"
proof -
  have stay: "ip_Phase p \<in> nextPlanPhases (ip_Phase p)" by (cases "ip_Phase p") auto
  from assms show ?thesis
  proof (cases rule: syncInstallPlans_stages)
    case (transitioned q q' te)
    have "ip_Approved q = ip_Approved p" by (rule planSpec_fields [OF transitioned(1)])
    with transition_keeps [OF transitioned(3)] transitioned(1,2,4) stay show ?thesis by (elim disjE) simp_all
  qed (use stay in auto)
qed

end

section \<open>Runs\<close>

text \<open>What happens to a plan: the controller synchronises it, its user approves it, permissions of
  its namespace change, and the cluster changes for other reasons.\<close>

datatype ip_event = syncPlan ip_world | userApproves | permissionsChange ip_world bool | clusterChanges

inductive ip_step :: "'s executor \<Rightarrow> ip_event \<Rightarrow> InstallPlan \<times> 's \<Rightarrow> InstallPlan \<times> 's \<Rightarrow> bool" for execute where
  step_sync: "syncInstallPlans execute W p s = Some (e, eff, s') \<Longrightarrow> ip_step execute (syncPlan W) (p, s) (stored p eff, s')"
| step_approve: "ip_step execute userApproves (p, s) (p\<lparr>ip_Approved := True\<rparr>, s)"
| step_retry: "triggerInstallPlanRetry W related (Inr [p]) = (errs, eff) \<Longrightarrow>
    ip_step execute (permissionsChange W related) (p, s) (stored p eff, s)"
| step_cluster: "ip_step execute clusterChanges (p, s) (p, s')"

inductive_cases ip_stepE: "ip_step execute ev (p, s) (p', s')"

text \<open>A plan beyond the approval has been approved.\<close>

definition approvedPlan :: "InstallPlan \<Rightarrow> bool" where
  "approvedPlan p \<longleftrightarrow>
     (ip_Phase p \<in> {InstallPlanPhaseInstalling, InstallPlanPhaseComplete, InstallPlanPhaseFailed} \<longrightarrow> ip_Approved p)"

lemma retry_keeps:
  assumes "triggerInstallPlanRetry W related (Inr [p]) = (errs, eff)"
  shows "planSpec (stored p eff) = planSpec p
    \<and> (ip_Phase (stored p eff) = ip_Phase p
       \<or> ip_Phase p = InstallPlanPhaseFailed \<and> ip_Phase (stored p eff) = InstallPlanPhaseInstalling)"
  using assms by (auto simp: triggerInstallPlanRetry_def retryPlan_def List.map_filter_simps split: if_splits option.splits)

sublocale plan_executor \<subseteq> machine: sync_machine "ip_step execute" "\<lambda>(p, s). ip_Phase p" nextPlanPhases "\<lambda>(p, s). approvedPlan p"
proof
  have stay: "x \<in> nextPlanPhases x" for x by (cases x) auto
  show "(case t of (p, s) \<Rightarrow> ip_Phase p) \<in> nextPlanPhases (case u of (p, s) \<Rightarrow> ip_Phase p)" if "ip_step execute w u t" for w u t
    using that by (cases u; cases t) (auto elim!: ip_stepE simp: stay dest: sync_keeps dest!: retry_keeps)
  show "(case t of (p, s) \<Rightarrow> approvedPlan p)" if "ip_step execute w u t" "(case u of (p, s) \<Rightarrow> approvedPlan p)" for w u t
    using that
  proof (cases rule: ip_step.cases)
    case (step_sync W p s e eff s')
    with sync_keeps [OF step_sync(4)] that(2) planSpec_fields(1) [of "stored p eff" p] show ?thesis
      by (cases "ip_Phase p") (auto simp: approvedPlan_def)
  next
    case (step_retry W related p errs eff s)
    with retry_keeps [OF step_retry(4)] that(2) planSpec_fields(1) [of "stored p eff" p] show ?thesis
      by (auto simp: approvedPlan_def)
  qed (use that in \<open>auto simp: approvedPlan_def\<close>)
qed

context plan_executor
begin

text \<open>Only its user approves a plan.\<close>

lemma step_approved:
  assumes "ip_step execute w (q, u) (p, s)" "ip_Approved p"
  shows "w = userApproves \<or> ip_Approved q"
  using assms(1)
proof (cases rule: ip_step.cases)
  case (step_sync W e eff)
  have "planSpec p = planSpec q" using sync_keeps [OF step_sync(3)] step_sync(2) by simp
  then show ?thesis using planSpec_fields(1) assms(2) by blast
next
  case (step_retry W related errs eff)
  have "planSpec p = planSpec q" using retry_keeps [OF step_retry(4)] step_retry(2) by simp
  then show ?thesis using planSpec_fields(1) assms(2) by blast
qed (use assms(2) in simp_all)

lemma run_approved:
  assumes "runs (ip_step execute) (p0, s0) h (p, s)" "ip_Approved p"
  shows "ip_Approved p0 \<or> userApproves \<in> fst ` set h"
  using assms
proof (induction h "(p, s)" arbitrary: p s rule: runs.induct)
  case (runs_sync h t w)
  obtain q u where t: "t = (q, u)" by (cases t)
  have "w = userApproves \<or> ip_Approved q" using step_approved runs_sync(3,4) unfolding t by blast
  with runs_sync(2) [OF t] show ?case by auto
qed simp

end

section \<open>What the collection deletes\<close>

lemma gcLoop_stop: "length ips - length toDelete \<le> maxInstallPlanCount \<Longrightarrow> gcLoop srt ips gens toDelete = toDelete"
  by (cases gens) auto

lemma gcLoop_oldest:
  assumes "go_sort srt" "distinct ips" "sorted_wrt (<) (before @ gens)" "ip_Generation ` set ips = set (before @ gens)"
    and "mset toDelete = mset (filter (\<lambda>ip. ip_Generation ip \<in> set before) ips)"
    and "maxInstallPlanCount \<le> length ips - length toDelete"
  shows "length (gcLoop srt ips gens toDelete) = length ips - maxInstallPlanCount
    \<and> distinct (gcLoop srt ips gens toDelete) \<and> set (gcLoop srt ips gens toDelete) \<subseteq> set ips
    \<and> (\<forall>d \<in> set (gcLoop srt ips gens toDelete). \<forall>k \<in> set ips - set (gcLoop srt ips gens toDelete). ip_Generation d \<le> ip_Generation k)"
  using assms(3-6)
proof (induction gens arbitrary: before toDelete)
  case Nil
  have "filter (\<lambda>ip. ip_Generation ip \<in> set before) ips = ips" using Nil.prems(2) by (auto simp: filter_id_conv)
  then have "length toDelete = length ips" using Nil.prems(3) mset_eq_length by metis
  with Nil.prems(4) show ?case by (simp add: maxInstallPlanCount_def)
next
  case (Cons i gens)
  let ?g = "filter (\<lambda>ip. ip_Generation ip = i) ips"
  let ?n = "length ips - length toDelete - maxInstallPlanCount"
  have del: "set toDelete = {ip \<in> set ips. ip_Generation ip \<in> set before}" "distinct toDelete"
    using Cons.prems(3) assms(2) mset_eq_setD [OF Cons.prems(3)] mset_eq_imp_distinct_iff [OF Cons.prems(3)] by auto
  have i: "i \<notin> set before" "\<And>b x. b \<in> set before \<Longrightarrow> x \<in> set (i # gens) \<Longrightarrow> b < x" "\<And>x. x \<in> set gens \<Longrightarrow> i < x"
    using Cons.prems(1) by (auto simp: sorted_wrt_append)
  have g: "set (srt olderPlan ?g) = set ?g" "distinct (srt olderPlan ?g)" "length (srt olderPlan ?g) = length ?g"
    using go_sort.set_srt [OF assms(1)] go_sort.distinct_srt [OF assms(1)] assms(2)
      mset_eq_length [OF go_sort.perm [OF assms(1)]] by simp_all
  have gen: "ip_Generation k \<in> set before \<or> ip_Generation k = i \<or> ip_Generation k \<in> set gens" if "k \<in> set ips" for k
    using Cons.prems(2) that by auto
  consider "length ips - length toDelete \<le> maxInstallPlanCount"
    | "maxInstallPlanCount < length ips - length toDelete" "maxInstallPlanCount + length ?g \<le> length ips - length toDelete"
    | "maxInstallPlanCount < length ips - length toDelete" "length ips - length toDelete < maxInstallPlanCount + length ?g"
    by linarith
  then show ?case
  proof cases
    case 1
    have "ip_Generation d \<le> ip_Generation k" if "d \<in> set toDelete" "k \<in> set ips - set toDelete" for d k
      using that del(1) gen [of k] i(2) [of "ip_Generation d" "ip_Generation k"] by auto
    moreover have "length toDelete = length ips - maxInstallPlanCount" using 1 Cons.prems(4) by (simp add: maxInstallPlanCount_def)
    ultimately show ?thesis using 1 del by (simp add: gcLoop_stop del: gcLoop.simps)
  next
    case 2
    have m: "mset (toDelete @ ?g) = mset (filter (\<lambda>ip. ip_Generation ip \<in> set (before @ [i])) ips)"
    proof -
      have "filter_mset (\<lambda>ip. ip_Generation ip \<in> set before) M + filter_mset (\<lambda>ip. ip_Generation ip = i) M
          = filter_mset (\<lambda>ip. ip_Generation ip \<in> set (before @ [i])) M" for M
        using i(1) by (induction M) auto
      then show ?thesis using Cons.prems(3) by simp
    qed
    have "gcLoop srt ips (i # gens) toDelete = gcLoop srt ips gens (toDelete @ ?g)"
      using 2 by (simp add: Let_def)
    moreover have "maxInstallPlanCount \<le> length ips - length (toDelete @ ?g)" using 2 by simp
    ultimately show ?thesis
      using Cons.IH [of "before @ [i]" "toDelete @ ?g"] Cons.prems(1,2) m by simp
  next
    case 3
    let ?D = "toDelete @ take ?n (srt olderPlan ?g)"
    have len: "length ?D = length ips - maxInstallPlanCount" using 3 g(3) by simp
    have D: "gcLoop srt ips (i # gens) toDelete = ?D"
      using 3 len by (simp add: Let_def gcLoop_stop)
    have sub: "set (take ?n (srt olderPlan ?g)) \<subseteq> set ?g" using set_take_subset g(1) by fastforce
    have "distinct ?D" using del i(1) sub g(2) by (auto simp: distinct_take)
    moreover have "set ?D \<subseteq> set ips" using del(1) sub by auto
    moreover have "ip_Generation d \<le> ip_Generation k" if "d \<in> set ?D" "k \<in> set ips - set ?D" for d k
    proof -
      have "ip_Generation d \<in> set before \<or> ip_Generation d = i" using that(1) del(1) sub by auto
      moreover have "ip_Generation k = i \<or> ip_Generation k \<in> set gens" using that(2) del(1) gen [of k] by auto
      ultimately show ?thesis using i(2) [of "ip_Generation d" "ip_Generation k"] i(3) [of "ip_Generation k"] by auto
    qed
    ultimately show ?thesis using len unfolding D by blast
  qed
qed

text \<open>C29. A sweep over the InstallPlans of a namespace looks at ten of them at most and leaves exactly
  five of those: it deletes distinct plans, none of them of a later generation than one it leaves.
  With up to five plans it deletes nothing.\<close>

theorem gcInstallPlans_oldest:
  assumes "go_sort srt" "distinct ips"
  shows "length (gcInstallPlans srt (Inr ips)) = min (length ips) 10 - 5
    \<and> distinct (gcInstallPlans srt (Inr ips)) \<and> set (gcInstallPlans srt (Inr ips)) \<subseteq> set (take 10 ips)
    \<and> (\<forall>d \<in> set (gcInstallPlans srt (Inr ips)). \<forall>k \<in> set (take 10 ips) - set (gcInstallPlans srt (Inr ips)).
         ip_Generation d \<le> ip_Generation k)"
proof (cases "length ips \<le> 5")
  case True
  then show ?thesis by (simp add: gcInstallPlans_def maxInstallPlanCount_def)
next
  case False
  let ?ips = "take 10 ips"
  have "gcInstallPlans srt (Inr ips) = gcLoop srt ?ips (sort (remdups (map ip_Generation ?ips))) []"
    using False by (simp add: gcInstallPlans_def maxInstallPlanCount_def maxDeletesPerSweep_def Let_def)
  moreover have "sorted_wrt (<) (sort (remdups (map ip_Generation ?ips)))"
    by (simp add: strict_sorted_iff)
  ultimately show ?thesis
    using gcLoop_oldest [OF assms(1), of ?ips "[]" "sort (remdups (map ip_Generation ?ips))" "[]"] assms(2) False
    by (simp add: maxInstallPlanCount_def distinct_take min.commute)
qed

definition demoPlan :: "string \<Rightarrow> int \<Rightarrow> InstallPlanPhase \<Rightarrow> Step list \<Rightarrow> InstallPlan" where
  "demoPlan name gen phase steps = \<lparr>ip_Name = name, ip_Namespace = ''ns'', ip_Created = 0, ip_Owners = [''sub''], ip_CSVNames = [''a.v1''],
     ip_Approval = ApprovalManual, ip_Approved = (phase \<noteq> InstallPlanPhaseRequiresApproval), ip_Generation = gen, ip_Phase = phase,
     ip_Conditions = [], ip_CatalogSources = [], ip_Plan = steps, ip_BundleLookups = [], ip_ServiceAccount = None, ip_StartTime = None,
     ip_Message = []\<rparr>"

abbreviation demoPlans :: "InstallPlan list" where
  "demoPlans \<equiv> map (\<lambda>i. demoPlan (showNat (nat i)) (i mod 4) InstallPlanPhaseComplete []) [1, 2, 3, 4, 5, 6, 7]"

theorem gcInstallPlans_oldest_witness: "length (gcInstallPlans SliceStable (Inr demoPlans)) = 2"
proof -
  have "distinct demoPlans" by code_simp
  from gcInstallPlans_oldest [OF stable.go_sort_axioms this] show ?thesis by simp
qed

end
