(* ===== verification/Execute_Plan.thy ===== *)
theory Execute_Plan
  imports Install_Plan Ownerutil
begin

text \<open>
  The execution of an InstallPlan: \<open>ExecutePlan\<close> in \<open>operators/catalog/operator.go\<close>, the steppers
  of CRDs (\<open>step.go\<close>), the step ensurer (\<open>step_ensurer.go\<close>), the supported kinds
  (\<open>supportedresources.go\<close>) and the guard against losing stored versions (\<open>lib/crd/storage.go\<close>).

  The cluster is a state of any type; the record \<open>api\<close> holds what the code calls of the API server,
  of discovery, of the manifest resolver and of the decoders. Events, warnings and metrics
  are not modelled; the annotation of CRDs with the versions installed alongside is in \<open>Alongside\<close>.
\<close>

section \<open>Objects and the API\<close>

record crdVersion =
  cv_Name :: string
  cv_Served :: bool
  cv_Schema :: "string option"

record crdObject =
  co_Versions :: "crdVersion list"
  co_Version :: string
  co_Validation :: "string option"
  co_StoredVersions :: "string list"
  co_Conditions :: "(string \<times> ConditionStatus) list"
  co_WebhookConversion :: bool

record kobject =
  ko_Kind :: string
  ko_Meta :: Object
  ko_Annotations :: "(string \<times> string) list"
  ko_OwnedCRDs :: "string list"
  ko_OwnedAPIGroups :: "string list"
  ko_CRD :: crdObject
  ko_ResourceVersion :: string
  ko_Secrets :: "string list"
  ko_Body :: string

datatype crd_fault = validationFault string | otherFault api_error

record 's api =
  a_listCSVs :: "'s \<Rightarrow> string \<Rightarrow> api_error + kobject list"
  a_clients :: "'s \<Rightarrow> string option \<Rightarrow> api_error option"
  a_manifest :: "'s \<Rightarrow> Step \<Rightarrow> api_error + string"
  a_decode :: "string \<Rightarrow> string \<Rightarrow> api_error + kobject"
  a_crdVersion :: "string \<Rightarrow> api_error + bool"
  a_get :: "'s \<Rightarrow> string \<Rightarrow> string \<Rightarrow> string \<Rightarrow> api_error + kobject"
  a_create :: "kobject \<Rightarrow> 's \<Rightarrow> api_error option \<times> 's"
  a_update :: "kobject \<Rightarrow> 's \<Rightarrow> api_error option \<times> 's"
  a_conflict :: "api_error \<Rightarrow> bool"
  a_convert :: "string option \<Rightarrow> api_error + string"
  a_validateCRs :: "'s \<Rightarrow> kobject \<Rightarrow> (string \<times> string) list \<Rightarrow> crd_fault option"
  a_derivative :: "kobject \<Rightarrow> kobject \<Rightarrow> bool"
  a_resource :: "kobject \<Rightarrow> api_error + bool"
  a_discovery :: "Step \<Rightarrow> api_error option"
  a_operatorNamespace :: string

text \<open>\<open>errors.Wrapf\<close> and \<open>%w\<close> keep the kind of the error, \<open>%v\<close> does not.\<close>

fun wrapErr :: "string \<Rightarrow> api_error \<Rightarrow> api_error" where
  "wrapErr m (forbidden t) = forbidden (m @ '': '' @ t)"
| "wrapErr m (apiNotFound t) = apiNotFound (m @ '': '' @ t)"
| "wrapErr m (alreadyExists t) = alreadyExists (m @ '': '' @ t)"
| "wrapErr m (plainErr t) = plainErr (m @ '': '' @ t)"
| "wrapErr m ErrInvalidInstallPlan = plainErr (m @ '': '' @ apiErrorText ErrInvalidInstallPlan)"

fun IsAlreadyExists :: "api_error \<Rightarrow> bool" where
  "IsAlreadyExists (alreadyExists t) = True"
| "IsAlreadyExists _ = False"

fun IsNotFound :: "api_error \<Rightarrow> bool" where
  "IsNotFound (apiNotFound t) = True"
| "IsNotFound _ = False"

definition ko_Name :: "kobject \<Rightarrow> string" where
  "ko_Name o' = Obj_Name (ko_Meta o')"

definition SetNamespace :: "string \<Rightarrow> kobject \<Rightarrow> kobject" where
  "SetNamespace ns o' = o'\<lparr>ko_Meta := (ko_Meta o')\<lparr>Obj_Namespace := ns\<rparr>\<rparr>"

definition setLabel :: "string \<Rightarrow> string \<Rightarrow> kobject \<Rightarrow> kobject" where
  "setLabel k v o' = o'\<lparr>ko_Meta := (ko_Meta o')\<lparr>Obj_Labels :=
     Some (AList.update k v (case Obj_Labels (ko_Meta o') of None \<Rightarrow> [] | Some m \<Rightarrow> m))\<rparr>\<rparr>"

definition managed :: "kobject \<Rightarrow> kobject" where
  "managed = setLabel ''olm.managed'' ''true''"

definition SetOwnerReferences :: "OwnerReference list \<Rightarrow> kobject \<Rightarrow> kobject" where
  "SetOwnerReferences refs o' = o'\<lparr>ko_Meta := (ko_Meta o')\<lparr>Obj_OwnerReferences := refs\<rparr>\<rparr>"

section \<open>The step ensurer\<close>

text \<open>Creation, with what is done when the object exists already. The result is the status or the
  error, and the cluster.\<close>

type_synonym 's ensured = "(api_error + StepStatus) \<times> 's"

definition ensureWith :: "'s api \<Rightarrow> string \<Rightarrow> kobject \<Rightarrow> ('s \<Rightarrow> 's ensured) \<Rightarrow> 's \<Rightarrow> 's ensured" where
  "ensureWith A createMsg obj existing s =
     (case a_create A obj s of
        (None, s') \<Rightarrow> (Inr StepStatusCreated, s')
      | (Some e, s') \<Rightarrow> if \<not> IsAlreadyExists e then (Inl (wrapErr (createMsg @ ko_Name obj) e), s') else existing s')"

definition updateExisting :: "'s api \<Rightarrow> string \<Rightarrow> kobject \<Rightarrow> 's \<Rightarrow> 's ensured" where
  "updateExisting A updateMsg obj s =
     (case a_update A obj s of
        (Some e, s') \<Rightarrow> (Inl (wrapErr (updateMsg @ ko_Name obj) e), s')
      | (None, s') \<Rightarrow> (Inr StepStatusPresent, s'))"

definition EnsureClusterServiceVersion :: "'s api \<Rightarrow> kobject \<Rightarrow> 's \<Rightarrow> 's ensured" where
  "EnsureClusterServiceVersion A csv = ensureWith A ''error creating csv '' csv (\<lambda>s. (Inr StepStatusPresent, s))"

definition EnsureSubscription :: "'s api \<Rightarrow> kobject \<Rightarrow> 's \<Rightarrow> 's ensured" where
  "EnsureSubscription A sub = ensureWith A ''error creating subscription '' sub (\<lambda>s. (Inr StepStatusPresent, s))"

definition EnsureSecret :: "'s api \<Rightarrow> string \<Rightarrow> string \<Rightarrow> string \<Rightarrow> 's \<Rightarrow> 's ensured" where
  "EnsureSecret A operatorNamespace planNamespace name s =
     (case a_get A s ''Secret'' operatorNamespace name of
        Inl e \<Rightarrow>
          (Inl (if IsNotFound e then plainErr (''secret '' @ name @ '' does not exist - '' @ apiErrorText e)
                else wrapErr ''error getting pull secret from olm namespace '' e), s)
      | Inr secret \<Rightarrow>
          let newSecret = secret\<lparr>ko_Annotations := [], ko_ResourceVersion := [],
                ko_Meta := (ko_Meta secret)\<lparr>Obj_Namespace := planNamespace, Obj_UID := [], Obj_OwnerReferences := [],
                  Obj_Labels := Some [(''olm.managed'', ''true'')]\<rparr>\<rparr>
          in (case a_create A newSecret s of
                (Some e, s') \<Rightarrow>
                  ((if IsAlreadyExists e then Inr StepStatusPresent
                    else Inl (plainErr (''error creating secret '' @ ko_Name secret @ '' - '' @ apiErrorText e))), s')
              | (None, s') \<Rightarrow> (Inr StepStatusCreated, s')))"

definition EnsureBundleSecret :: "'s api \<Rightarrow> string \<Rightarrow> kobject \<Rightarrow> 's \<Rightarrow> 's ensured" where
  "EnsureBundleSecret A ns secret =
     ensureWith A ''error updating secret: '' secret (updateExisting A ''error updating secret: '' (SetNamespace ns secret))"

text \<open>References are the keys of a Go map here, so two of them are the same key only if their two
  pointers are: those of different references are different unless both are nil. The order of the
  map is not specified.\<close>

definition sameKey :: "OwnerReference \<Rightarrow> bool" where
  "sameKey ref \<longleftrightarrow> Oref_Controller ref = None \<and> Oref_BlockOwnerDeletion ref = None"

definition mergedOwnerReferences :: "OwnerReference list \<Rightarrow> OwnerReference list \<Rightarrow> OwnerReference list" where
  "mergedOwnerReferences a b = filter (\<lambda>ref. \<not> sameKey ref) (a @ b) @ remdups (filter sameKey (a @ b))"

definition EnsureServiceAccount :: "'s api \<Rightarrow> string \<Rightarrow> kobject \<Rightarrow> 's \<Rightarrow> 's ensured" where
  "EnsureServiceAccount A ns sa =
     ensureWith A ''error creating service account: '' sa (\<lambda>s.
       case a_get A s ''ServiceAccount'' ns (ko_Name sa) of
         Inl e \<Rightarrow> (Inl (wrapErr (''error getting older version of service account: '' @ ko_Name sa) e), s)
       | Inr preSa \<Rightarrow>
           let sa' = SetNamespace ns (SetOwnerReferences
                 (mergedOwnerReferences (Obj_OwnerReferences (ko_Meta preSa)) (Obj_OwnerReferences (ko_Meta sa)))
                 (sa\<lparr>ko_Secrets := ko_Secrets preSa\<rparr>))
           in if \<not> a_derivative A sa' preSa then updateExisting A ''error updating service account: '' sa' s
              else (Inr StepStatusPresent, s))"

definition EnsureService :: "'s api \<Rightarrow> string \<Rightarrow> kobject \<Rightarrow> 's \<Rightarrow> 's ensured" where
  "EnsureService A ns svc =
     ensureWith A ''error updating service: '' svc (updateExisting A ''error updating service: '' (SetNamespace ns svc))"

definition EnsureClusterRole :: "'s api \<Rightarrow> kobject \<Rightarrow> Step \<Rightarrow> 's \<Rightarrow> 's ensured" where
  "EnsureClusterRole A cr step =
     ensureWith A ''error creating clusterrole '' cr
       (updateExisting A ''error updating clusterrole '' (setLabel OwnerKey (st_Resolving step) cr))"

definition EnsureClusterRoleBinding :: "'s api \<Rightarrow> kobject \<Rightarrow> Step \<Rightarrow> 's \<Rightarrow> 's ensured" where
  "EnsureClusterRoleBinding A crb step =
     ensureWith A ''error creating clusterrolebinding '' crb
       (updateExisting A ''error updating clusterrolebinding '' (setLabel OwnerKey (st_Resolving step) crb))"

definition EnsureRole :: "'s api \<Rightarrow> string \<Rightarrow> kobject \<Rightarrow> 's \<Rightarrow> 's ensured" where
  "EnsureRole A ns role =
     ensureWith A ''error creating role '' role (updateExisting A ''error updating role '' (SetNamespace ns role))"

definition EnsureRoleBinding :: "'s api \<Rightarrow> string \<Rightarrow> kobject \<Rightarrow> 's \<Rightarrow> 's ensured" where
  "EnsureRoleBinding A ns rb =
     ensureWith A ''error creating rolebinding '' rb (updateExisting A ''error updating rolebinding '' (SetNamespace ns rb))"

definition EnsureConfigMap :: "'s api \<Rightarrow> string \<Rightarrow> kobject \<Rightarrow> 's \<Rightarrow> 's ensured" where
  "EnsureConfigMap A ns cm =
     ensureWith A ''error updating configmap: '' cm (updateExisting A ''error updating configmap: '' (SetNamespace ns cm))"

definition EnsureUnstructuredObject :: "'s api \<Rightarrow> kobject \<Rightarrow> 's \<Rightarrow> 's ensured" where
  "EnsureUnstructuredObject A obj =
     ensureWith A ''error creating unstructured object '' obj (\<lambda>s.
       case a_get A s (ko_Kind obj) (Obj_Namespace (ko_Meta obj)) (ko_Name obj) of
         Inl e \<Rightarrow> (Inl (wrapErr (''error getting unstructured object '' @ ko_Name obj) e), s)
       | Inr original \<Rightarrow>
           updateExisting A ''error updating unstructured object '' (obj\<lparr>ko_ResourceVersion := ko_ResourceVersion original\<rparr>) s)"

section \<open>Steps for CRDs\<close>

text \<open>The stored versions of the existing CRD that the new one drops. Neither of the two maps of
  the code is ever nil, so its first two checks never fire; the error names the first version in
  the order of the list.\<close>

definition newSpecVersions :: "bool \<Rightarrow> crdObject \<Rightarrow> string list" where
  "newSpecVersions v1 crd =
     (if \<not> v1 \<and> co_Version crd \<noteq> [] then [co_Version crd] else []) @ map cv_Name (co_Versions crd)"

definition SafeStorageVersionUpgrade :: "bool \<Rightarrow> crdObject \<Rightarrow> crdObject \<Rightarrow> bool \<times> string option" where
  "SafeStorageVersionUpgrade v1 existingCRD newCRD =
     (case find (\<lambda>name. name \<notin> set (newSpecVersions v1 newCRD)) (co_StoredVersions existingCRD) of
        Some name \<Rightarrow> (False, Some (''new CRD removes version '' @ name @ '' that is listed as a stored version on the existing CRD''))
      | None \<Rightarrow> (True, None))"

definition servedVersions :: "crdObject \<Rightarrow> string list" where
  "servedVersions crd = map cv_Name (filter cv_Served (co_Versions crd))"

definition convertVersion :: "'s api \<Rightarrow> string \<Rightarrow> string option \<Rightarrow> crd_fault + string \<times> string" where
  "convertVersion A name schema =
     (case a_convert A schema of Inl e \<Rightarrow> Inl (otherFault e) | Inr v \<Rightarrow> Inr (name, v))"

definition validateV1CRDCompatibility :: "'s api \<Rightarrow> 's \<Rightarrow> kobject \<Rightarrow> kobject \<Rightarrow> crd_fault option" where
  "validateV1CRDCompatibility A s oldCRD newCRD =
     (let old = servedVersions (ko_CRD oldCRD);
          new = filter (\<lambda>v. cv_Name v \<in> set old \<and> cv_Served v) (co_Versions (ko_CRD newCRD))
      in case map_err (\<lambda>v. convertVersion A (cv_Name v) (cv_Schema v)) new of
           Inl e \<Rightarrow> Some e
         | Inr validations \<Rightarrow> a_validateCRs A s newCRD validations)"

definition validateV1Beta1CRDCompatibility :: "'s api \<Rightarrow> 's \<Rightarrow> kobject \<Rightarrow> kobject \<Rightarrow> crd_fault option" where
  "validateV1Beta1CRDCompatibility A s oldCRD newCRD =
     (let o' = ko_CRD oldCRD; n = ko_CRD newCRD;
          old = (if length (co_Versions o') = 0 then [co_Version o'] else []) @ servedVersions o';
          new = filter (\<lambda>v. cv_Name v \<in> set old \<and> cv_Served v) (co_Versions n);
          whole = (if length (co_Versions n) = 0 \<and> co_Version n \<in> set old then [(co_Version n, co_Validation n)] else [])
      in case map_err (\<lambda>(name, v). convertVersion A name v)
                (if new \<noteq> [] \<and> co_Validation n \<noteq> None then [(cv_Name (hd new), co_Validation n)]
                 else whole @ map (\<lambda>v. (cv_Name v, cv_Schema v)) new) of
           Inl e \<Rightarrow> Some e
         | Inr validations \<Rightarrow> a_validateCRs A s newCRD validations)"

text \<open>\<open>retry.RetryOnConflict\<close> with the default of five attempts.\<close>

fun retryOnConflict :: "nat \<Rightarrow> (api_error \<Rightarrow> bool) \<Rightarrow> ('s \<Rightarrow> api_error option \<times> 's) \<Rightarrow> 's \<Rightarrow> api_error option \<times> 's" where
  "retryOnConflict 0 conflict f s = (None, s)"
| "retryOnConflict (Suc n) conflict f s =
     (case f s of
        (None, s') \<Rightarrow> (None, s')
      | (Some e, s') \<Rightarrow> if conflict e \<and> n > 0 then retryOnConflict n conflict f s' else (Some e, s'))"

definition emptyCRD :: kobject where
  "emptyCRD = \<lparr>ko_Kind = ''CustomResourceDefinition'', ko_Meta = \<lparr>Obj_Type = T_CRDv1, Obj_GVK = \<lparr>GVK_Group = [], GVK_Version = [], GVK_Kind = []\<rparr>,
       Obj_Name = [], Obj_Namespace = [], Obj_UID = [], Obj_OwnerReferences = [], Obj_Labels = None\<rparr>,
     ko_Annotations = [], ko_OwnedCRDs = [], ko_OwnedAPIGroups = [],
     ko_CRD = \<lparr>co_Versions = [], co_Version = [], co_Validation = None, co_StoredVersions = [], co_Conditions = [], co_WebhookConversion = False\<rparr>,
     ko_ResourceVersion = [], ko_Secrets = [], ko_Body = []\<rparr>"

text \<open>Why a CRD that exists already is not updated: the resources in the cluster do not fit the
  new schema, or stored versions would be lost.\<close>

definition crdRefused :: "'s api \<Rightarrow> bool \<Rightarrow> Step \<Rightarrow> kobject \<Rightarrow> kobject \<Rightarrow> 's \<Rightarrow> api_error option" where
  "crdRefused A v1 step currentCRD crd s =
     (let validating = ''error validating existing CRs against new CRD'' @ [CHR 0x27] @ ''s schema for '' @ quoted (st_Name step);
          fault = (if v1 then validateV1CRDCompatibility A s currentCRD crd else validateV1Beta1CRDCompatibility A s currentCRD crd)
      in case (case fault of
                 None \<Rightarrow> None
               | Some (otherFault e) \<Rightarrow> Some (wrapErr validating e)
               | Some (validationFault e) \<Rightarrow>
                   if v1 \<and> co_WebhookConversion (ko_CRD crd) then None else Some (plainErr (validating @ '': '' @ e))) of
           Some e \<Rightarrow> Some e
         | None \<Rightarrow>
             (case SafeStorageVersionUpgrade v1 (ko_CRD currentCRD) (ko_CRD crd) of
                (False, e) \<Rightarrow> Some (plainErr (''risk of data loss updating '' @ quoted (st_Name step) @ '': '' @ (case e of None \<Rightarrow> [] | Some t \<Rightarrow> t)))
              | (True, Some e) \<Rightarrow> Some (plainErr (''checking CRD for potential data loss updating '' @ quoted (st_Name step) @ '': '' @ e))
              | (True, None) \<Rightarrow> None))"

text \<open>One attempt to update a CRD that exists already. An error of the read is ignored: the
  client returns an empty CRD then.\<close>

definition upgradeCRD :: "'s api \<Rightarrow> bool \<Rightarrow> Step \<Rightarrow> kobject \<Rightarrow> 's \<Rightarrow> api_error option \<times> 's" where
  "upgradeCRD A v1 step crd s =
     (let currentCRD = (case a_get A s ''CustomResourceDefinition'' [] (ko_Name crd) of Inl e \<Rightarrow> emptyCRD | Inr c \<Rightarrow> c);
          crd' = crd\<lparr>ko_ResourceVersion := ko_ResourceVersion currentCRD\<rparr>
      in case crdRefused A v1 step currentCRD crd' s of
           Some e \<Rightarrow> (Some e, s)
         | None \<Rightarrow>
             (case a_update A crd' s of
                (Some e, s') \<Rightarrow> (Some (wrapErr (''error updating CRD '' @ quoted (st_Name step)) e), s')
              | (None, s') \<Rightarrow> (None, s')))"

text \<open>The stepper of a CRD, for both versions of the CRD API. A CRD that is found but not yet
  established leaves the switch of the code, and with it the status unknown.\<close>

definition crdStepper :: "'s api \<Rightarrow> bool \<Rightarrow> Step \<Rightarrow> string \<Rightarrow> 's \<Rightarrow> 's ensured" where
  "crdStepper A v1 step manifest s =
     (case st_Status step of
        StepStatusPresent \<Rightarrow> (Inr StepStatusPresent, s)
      | StepStatusCreated \<Rightarrow> (Inr StepStatusCreated, s)
      | StepStatusWaitingForAPI \<Rightarrow>
          (case a_get A s ''CustomResourceDefinition'' [] (st_Name step) of
             Inl e \<Rightarrow> if IsNotFound e then (Inr StepStatusNotPresent, s) else (Inl (wrapErr (''error finding the '' @ (if v1 then [] else quoted []) @ '' CRD'') e), s)
           | Inr crd \<Rightarrow>
               if (''Established'', ConditionTrue) \<in> set (co_Conditions (ko_CRD crd))
                  \<and> (''NamesAccepted'', ConditionTrue) \<in> set (co_Conditions (ko_CRD crd))
               then (Inr StepStatusCreated, s) else (Inr StepStatusUnknown, s))
      | StepStatusUnsupportedResource \<Rightarrow> (Inr StepStatusUnknown, s)
      | StepStatusNotCreated \<Rightarrow> (Inr StepStatusUnknown, s)
      | _ \<Rightarrow>
          (case a_decode A ''CustomResourceDefinition'' manifest of
             Inl e \<Rightarrow> (Inl e, s)
           | Inr crd \<Rightarrow>
               (case a_create A (managed crd) s of
                  (None, s') \<Rightarrow> (Inr StepStatusWaitingForAPI, s')
                | (Some e, s') \<Rightarrow>
                    if \<not> IsAlreadyExists e then (Inl e, s')
                    else (case retryOnConflict 5 (a_conflict A) (upgradeCRD A v1 step (managed crd)) s' of
                            (Some e, s'') \<Rightarrow> (Inl e, s'')
                          | (None, s'') \<Rightarrow> (Inr StepStatusPresent, s'')))))"

datatype 'a created = noStepper | stepper 'a | builderError api_error

definition builder_create :: "'s api \<Rightarrow> Step \<Rightarrow> 's \<Rightarrow> 's ensured created" where
  "builder_create A step s =
     (case a_manifest A s step of
        Inl e \<Rightarrow> builderError e
      | Inr manifest \<Rightarrow>
          if st_Kind step = ''CustomResourceDefinition'' then
            (case a_crdVersion A manifest of Inl e \<Rightarrow> builderError e | Inr v1 \<Rightarrow> stepper (crdStepper A v1 step manifest s))
          else noStepper)"

section \<open>Steps for the other kinds\<close>

definition getExistingAPIOwners :: "kobject list \<Rightarrow> string \<Rightarrow> string list" where
  "getExistingAPIOwners csvs name =
     concat (map (\<lambda>csv. map (\<lambda>_. ko_Name csv) (filter (\<lambda>x. x = name) (ko_OwnedCRDs csv @ ko_OwnedAPIGroups csv))) csvs)"

fun competingCRDOwnersExist :: "string \<Rightarrow> string \<Rightarrow> string list \<Rightarrow> (string \<Rightarrow> string list) \<Rightarrow> api_error + bool" where
  "competingCRDOwnersExist ns csvName [] existingOwners = Inr False"
| "competingCRDOwnersExist ns csvName (crd # crds) existingOwners =
     (case existingOwners crd of
        [] \<Rightarrow> competingCRDOwnersExist ns csvName crds existingOwners
      | [ownr] \<Rightarrow> if ownr \<noteq> csvName then Inr True else competingCRDOwnersExist ns csvName crds existingOwners
      | owners \<Rightarrow> Inl (plainErr (''Existing CSVs ['' @ Join owners '' '' @ ''] in namespace '' @ ns @ '' all claim to own CRD '' @ crd)))"

definition getUpdatedOwnerReferences :: "'s api \<Rightarrow> 's \<Rightarrow> string \<Rightarrow> OwnerReference list \<Rightarrow> api_error + OwnerReference list" where
  "getUpdatedOwnerReferences A s ns refs =
     map_err (\<lambda>ownr. if Oref_Kind ownr = ''ClusterServiceVersion''
        then bind_err (a_get A s ''ClusterServiceVersion'' ns (Oref_Name ownr)) (\<lambda>csv. Inr (ownr\<lparr>Oref_UID := Obj_UID (ko_Meta csv)\<rparr>))
        else Inr ownr) refs"

text \<open>The CSV that a step resolves, as an owner.\<close>

definition ownerCSV :: "InstallPlan \<Rightarrow> Step \<Rightarrow> Object" where
  "ownerCSV plan step = \<lparr>Obj_Type = T_ClusterServiceVersion, Obj_GVK = \<lparr>GVK_Group = [], GVK_Version = [], GVK_Kind = []\<rparr>,
     Obj_Name = st_Resolving step, Obj_Namespace = ip_Namespace plan, Obj_UID = [], Obj_OwnerReferences = [], Obj_Labels = None\<rparr>"

definition addResolvingOwner :: "InstallPlan \<Rightarrow> Step \<Rightarrow> kobject \<Rightarrow> kobject" where
  "addResolvingOwner plan step obj =
     (if st_Resolving step \<noteq> [] then obj\<lparr>ko_Meta := AddNonBlockingOwner (ko_Meta obj) (ownerCSV plan step)\<rparr> else obj)"

text \<open>The common part of the namespaced kinds: the UIDs of the owners are filled in, the object is
  put into the namespace and labelled.\<close>

definition ownedObject :: "'s api \<Rightarrow> 's \<Rightarrow> InstallPlan \<Rightarrow> string \<Rightarrow> kobject \<Rightarrow> api_error + kobject" where
  "ownedObject A s plan what obj =
     (case getUpdatedOwnerReferences A s (ip_Namespace plan) (Obj_OwnerReferences (ko_Meta obj)) of
        Inl e \<Rightarrow> Inl (wrapErr (''error generating ownerrefs for '' @ what @ ko_Name obj) e)
      | Inr updated \<Rightarrow> Inr (managed (SetNamespace (ip_Namespace plan) (SetOwnerReferences updated obj))))"

definition parseManifest :: "'s api \<Rightarrow> Step \<Rightarrow> string \<Rightarrow> api_error + kobject" where
  "parseManifest A step manifest =
     (case a_decode A (st_Kind step) manifest of
        Inl e \<Rightarrow> Inl (wrapErr (''error parsing step manifest: '' @ st_Name step) e) | Inr obj \<Rightarrow> Inr obj)"

definition ensureParsed :: "api_error + kobject \<Rightarrow> (kobject \<Rightarrow> 's \<Rightarrow> 's ensured) \<Rightarrow> 's \<Rightarrow> 's ensured" where
  "ensureParsed r ensure s = (case r of Inl e \<Rightarrow> (Inl e, s) | Inr obj \<Rightarrow> ensure obj s)"

definition executeCSV :: "'s api \<Rightarrow> InstallPlan \<Rightarrow> (string \<Rightarrow> string list) \<Rightarrow> Step \<Rightarrow> string \<Rightarrow> 's \<Rightarrow> 's ensured" where
  "executeCSV A plan existingCRDOwners step manifest =
     ensureParsed
       (bind_err (parseManifest A step manifest) (\<lambda>csv.
          if ko_Name csv \<notin> set (ip_CSVNames plan) then
            (case competingCRDOwnersExist (ip_Namespace plan) (ko_Name csv) (ko_OwnedCRDs csv) existingCRDOwners of
               Inl e \<Rightarrow> Inl (wrapErr (''error checking crd owners for: '' @ ko_Name csv) e)
             | Inr True \<Rightarrow> Inl (plainErr (''pre-existing CRD owners found for owned CRD(s) of dependent CSV '' @ ko_Name csv))
             | Inr False \<Rightarrow> Inr csv)
          else Inr csv))
       (\<lambda>csv. EnsureClusterServiceVersion A (managed (SetNamespace (ip_Namespace plan) csv)))"

definition executeSubscription :: "'s api \<Rightarrow> InstallPlan \<Rightarrow> Step \<Rightarrow> string \<Rightarrow> 's \<Rightarrow> 's ensured" where
  "executeSubscription A plan step manifest =
     ensureParsed (parseManifest A step manifest) (\<lambda>sub.
       EnsureSubscription A (managed (SetNamespace (ip_Namespace plan)
         (sub\<lparr>ko_Annotations := AList.update ''olm.generated-by'' (ip_Name plan) (ko_Annotations sub)\<rparr>))))"

definition executeBundleSecret :: "'s api \<Rightarrow> InstallPlan \<Rightarrow> Step \<Rightarrow> string \<Rightarrow> 's \<Rightarrow> 's ensured" where
  "executeBundleSecret A plan step manifest s =
     ensureParsed (bind_err (parseManifest A step manifest) (\<lambda>obj. ownedObject A s plan ''secret '' (addResolvingOwner plan step obj)))
       (EnsureBundleSecret A (ip_Namespace plan)) s"

definition executeClusterRole :: "'s api \<Rightarrow> Step \<Rightarrow> string \<Rightarrow> 's \<Rightarrow> 's ensured" where
  "executeClusterRole A step manifest =
     ensureParsed (parseManifest A step manifest) (\<lambda>cr. EnsureClusterRole A (managed cr) step)"

definition executeClusterRoleBinding :: "'s api \<Rightarrow> Step \<Rightarrow> string \<Rightarrow> 's \<Rightarrow> 's ensured" where
  "executeClusterRoleBinding A step manifest =
     ensureParsed (parseManifest A step manifest) (\<lambda>rb. EnsureClusterRoleBinding A (managed rb) step)"

definition executeRole :: "'s api \<Rightarrow> InstallPlan \<Rightarrow> Step \<Rightarrow> string \<Rightarrow> 's \<Rightarrow> 's ensured" where
  "executeRole A plan step manifest s =
     ensureParsed (bind_err (parseManifest A step manifest) (ownedObject A s plan ''role '')) (EnsureRole A (ip_Namespace plan)) s"

definition executeRoleBinding :: "'s api \<Rightarrow> InstallPlan \<Rightarrow> Step \<Rightarrow> string \<Rightarrow> 's \<Rightarrow> 's ensured" where
  "executeRoleBinding A plan step manifest s =
     ensureParsed (bind_err (parseManifest A step manifest) (ownedObject A s plan ''rolebinding ''))
       (EnsureRoleBinding A (ip_Namespace plan)) s"

definition executeServiceAccount :: "'s api \<Rightarrow> InstallPlan \<Rightarrow> Step \<Rightarrow> string \<Rightarrow> 's \<Rightarrow> 's ensured" where
  "executeServiceAccount A plan step manifest s =
     ensureParsed (bind_err (parseManifest A step manifest) (ownedObject A s plan ''service account: ''))
       (EnsureServiceAccount A (ip_Namespace plan)) s"

definition executeService :: "'s api \<Rightarrow> InstallPlan \<Rightarrow> Step \<Rightarrow> string \<Rightarrow> 's \<Rightarrow> 's ensured" where
  "executeService A plan step manifest s =
     ensureParsed (bind_err (parseManifest A step manifest) (\<lambda>obj. ownedObject A s plan ''service: '' (addResolvingOwner plan step obj)))
       (EnsureService A (ip_Namespace plan)) s"

definition executeConfigMap :: "'s api \<Rightarrow> InstallPlan \<Rightarrow> Step \<Rightarrow> string \<Rightarrow> 's \<Rightarrow> 's ensured" where
  "executeConfigMap A plan step manifest s =
     ensureParsed (bind_err (parseManifest A step manifest) (\<lambda>obj. ownedObject A s plan ''configmap: '' (addResolvingOwner plan step obj)))
       (EnsureConfigMap A (ip_Namespace plan)) s"

definition supportedKinds :: "string list" where
  "supportedKinds = [''PrometheusRule'', ''ServiceMonitor'', ''PodDisruptionBudget'', ''PriorityClass'', ''VerticalPodAutoscaler'',
     ''ConsoleYAMLSample'', ''ConsoleQuickStart'', ''ConsoleCLIDownload'', ''ConsoleLink'']"

text \<open>Any other supported kind; \<open>a_resource\<close> tells whether discovery finds the kind, and whether it
  is namespaced.\<close>

definition ownUnstructured :: "'s api \<Rightarrow> 's \<Rightarrow> InstallPlan \<Rightarrow> Step \<Rightarrow> bool \<Rightarrow> kobject \<Rightarrow> api_error + kobject" where
  "ownUnstructured A s plan step namespaced obj =
     (if st_Resolving step = [] then Inr obj
      else if namespaced then
        let obj' = addResolvingOwner plan step obj
        in (case getUpdatedOwnerReferences A s (ip_Namespace plan) (Obj_OwnerReferences (ko_Meta obj')) of
              Inl e \<Rightarrow> Inl (wrapErr (''error generating ownerrefs for unstructured object: '' @ ko_Name obj) e)
            | Inr updated \<Rightarrow> Inr (SetOwnerReferences updated obj'))
      else (case AddOwnerLabels (ko_Meta obj) (ownerCSV plan step) of
              None \<Rightarrow> Inl (plainErr ''object is not a known type'')
            | Some (meta, _) \<Rightarrow> Inr (obj\<lparr>ko_Meta := meta\<rparr>)))"

definition executeUnstructured :: "'s api \<Rightarrow> InstallPlan \<Rightarrow> Step \<Rightarrow> string \<Rightarrow> 's \<Rightarrow> 's ensured" where
  "executeUnstructured A plan step manifest s =
     (case a_decode A (st_Kind step) manifest of
        Inl e \<Rightarrow> (Inl (wrapErr (''error decoding '' @ st_Name step @ '' object to an unstructured object'') e), s)
      | Inr obj \<Rightarrow>
          (case a_resource A obj of
             Inl e \<Rightarrow> (Inl e, s)
           | Inr namespaced \<Rightarrow>
               (case ownUnstructured A s plan step namespaced obj of
                  Inl e \<Rightarrow> (Inl e, s)
                | Inr obj' \<Rightarrow>
                    EnsureUnstructuredObject A
                      (if namespaced then SetNamespace (ip_Namespace plan) (managed obj') else managed obj') s)))"

section \<open>The execution of a plan\<close>

definition executeKind :: "'s api \<Rightarrow> InstallPlan \<Rightarrow> (string \<Rightarrow> string list) \<Rightarrow> Step \<Rightarrow> string \<Rightarrow> 's \<Rightarrow> 's ensured" where
  "executeKind A plan owners step manifest s =
     (let k = st_Kind step
      in if k = ''ClusterServiceVersion'' then executeCSV A plan owners step manifest s
         else if k = ''Subscription'' then executeSubscription A plan step manifest s
         else if k = ''BundleSecret'' then executeBundleSecret A plan step manifest s
         else if k = ''Secret'' then EnsureSecret A (a_operatorNamespace A) (ip_Namespace plan) (st_Name step) s
         else if k = ''ClusterRole'' then executeClusterRole A step manifest s
         else if k = ''ClusterRoleBinding'' then executeClusterRoleBinding A step manifest s
         else if k = ''Role'' then executeRole A plan step manifest s
         else if k = ''RoleBinding'' then executeRoleBinding A plan step manifest s
         else if k = ''ServiceAccount'' then executeServiceAccount A plan step manifest s
         else if k = ''Service'' then executeService A plan step manifest s
         else if k = ''ConfigMap'' then executeConfigMap A plan step manifest s
         else executeUnstructured A plan step manifest s)"

text \<open>The kinds of the code's switch over the kind of a step.\<close>

definition switchKinds :: "string list" where
  "switchKinds = [''ClusterServiceVersion'', ''Subscription'', ''BundleSecret'', ''Secret'', ''ClusterRole'', ''ClusterRoleBinding'',
     ''Role'', ''RoleBinding'', ''ServiceAccount'', ''Service'', ''ConfigMap'']"

text \<open>One step: the status to record, the error, the cluster.\<close>

definition executeStep :: "'s api \<Rightarrow> InstallPlan \<Rightarrow> (string \<Rightarrow> string list) \<Rightarrow> Step \<Rightarrow> 's \<Rightarrow> StepStatus \<times> api_error option \<times> 's" where
  "executeStep A plan owners step s =
     (let record = (\<lambda>(r, s'). case r of Inl e \<Rightarrow> (st_Status step, Some e, s') | Inr status \<Rightarrow> (status, None, s'))
      in case builder_create A step s of
           builderError e \<Rightarrow> (st_Status step, Some e, s)
         | stepper r \<Rightarrow> record r
         | noStepper \<Rightarrow>
             if st_Status step \<in> {StepStatusPresent, StepStatusCreated, StepStatusWaitingForAPI} then (st_Status step, None, s)
             else if st_Status step \<in> {StepStatusUnknown, StepStatusNotPresent} then
               (case a_manifest A s step of
                  Inl e \<Rightarrow> (st_Status step, Some e, s)
                | Inr manifest \<Rightarrow>
                    if st_Kind step \<notin> set switchKinds \<and> st_Kind step \<notin> set supportedKinds
                    then (StepStatusUnsupportedResource, Some ErrInvalidInstallPlan, s)
                    else record (executeKind A plan owners step manifest s))
             else (st_Status step, Some ErrInvalidInstallPlan, s))"

text \<open>An error that says \<open>not found\<close> is replaced by that of discovery, if discovery does not know
  the kind of the step.\<close>

definition discovered :: "'s api \<Rightarrow> Step \<Rightarrow> api_error \<Rightarrow> api_error" where
  "discovered A step e = (if IsNotFound e then (case a_discovery A step of Some d \<Rightarrow> d | None \<Rightarrow> e) else e)"

fun executeSteps :: "'s api \<Rightarrow> InstallPlan \<Rightarrow> (string \<Rightarrow> string list) \<Rightarrow> Step list \<Rightarrow> 's \<Rightarrow> Step list \<times> api_error option \<times> 's" where
  "executeSteps A plan owners [] s = ([], None, s)"
| "executeSteps A plan owners (step # steps) s =
     (case executeStep A plan owners step s of
        (status, Some e, s') \<Rightarrow> (step\<lparr>st_Status := status\<rparr> # steps, Some (discovered A step e), s')
      | (status, None, s') \<Rightarrow>
          (case executeSteps A plan owners steps s' of
             (steps', e, s'') \<Rightarrow> (step\<lparr>st_Status := status\<rparr> # steps', e, s'')))"

text \<open>The loop over the statuses at the end of the code returns nil whatever it finds.\<close>

definition ExecutePlan :: "'s api \<Rightarrow> 's executor" where
  "ExecutePlan A plan s =
     (if ip_Phase plan \<noteq> InstallPlanPhaseInstalling then None
      else Some (case a_listCSVs A s (ip_Namespace plan) of
        Inl e \<Rightarrow> (plan, Some e, s)
      | Inr csvs \<Rightarrow>
          (case a_clients A s (ip_ServiceAccount plan) of
             Some e \<Rightarrow> (plan, Some e, s)
           | None \<Rightarrow>
               (case executeSteps A plan (getExistingAPIOwners csvs) (ip_Plan plan) s of
                  (steps, e, s') \<Rightarrow> (plan\<lparr>ip_Plan := steps\<rparr>, e, s')))))"

section \<open>The contract of the executor\<close>

lemma executeSteps_length: "executeSteps A plan owners steps s = (steps', e, s') \<Longrightarrow> length steps' = length steps"
  by (induction A plan owners steps s arbitrary: steps' e s' rule: executeSteps.induct) (auto split: prod.splits option.splits)

interpretation exec: plan_executor "ExecutePlan A" for A
proof
  show "ExecutePlan A p s \<noteq> None" if "ip_Phase p = InstallPlanPhaseInstalling" for p s
    using that by (simp add: ExecutePlan_def)
  show "p' = p\<lparr>ip_Plan := ip_Plan p'\<rparr>" if "ExecutePlan A p s = Some (p', e, s')" for p s p' e s'
    using that by (auto simp: ExecutePlan_def split: if_splits sum.splits option.splits prod.splits)
qed

text \<open>C12. Whatever happens to an InstallPlan that starts out unapproved or approved, resources are
  applied to the cluster only in a synchronisation of an approved plan that is installing.\<close>

theorem plan_run_approved:
  assumes "runs (ip_step (ExecutePlan A)) (p0, s0) h (p, s)" "approvedPlan p0"
    and "syncInstallPlans (ExecutePlan A) W p s = Some (e, eff, s')" "s' \<noteq> s"
  shows "ip_Phase p = InstallPlanPhaseInstalling \<and> ip_Approved p"
proof -
  have "ip_Phase p = InstallPlanPhaseInstalling" using exec.sync_keeps [OF assms(3)] assms(4) by blast
  moreover have "approvedPlan p" using exec.machine.run_wf [OF assms(1)] assms(2) by simp
  ultimately show ?thesis by (simp add: approvedPlan_def)
qed

text \<open>C28. An installing plan is marked as failed exactly when its execution fails with an error that
  is not a lack of permission and at least the timeout has passed since the execution first
  started; the transition never panics.\<close>

theorem transitionInstallPlanState_fails_iff:
  assumes "ip_Phase p = InstallPlanPhaseInstalling"
  shows "\<exists>p' err s'. transitionInstallPlanState (ExecutePlan A) p now timeout s = Some (p', err, s')
    \<and> (ip_Phase p' = InstallPlanPhaseFailed \<longleftrightarrow>
         (\<exists>e. err = Some e \<and> \<not> IsForbidden e \<and> int timeout \<le> int now - int (startTime now p)))"
proof -
  obtain p' err s' where t: "transitionInstallPlanState (ExecutePlan A) p now timeout s = Some (p', err, s')"
    using exec.transition_returns [of A p now timeout s] by auto
  from exec.transition_installing [OF t assms] obtain q where "ip_Phase q = InstallPlanPhaseInstalling"
    "p' = afterExecution now (startTime now p) timeout q err" .
  then have "ip_Phase p' = InstallPlanPhaseFailed \<longleftrightarrow>
      (\<exists>e. err = Some e \<and> \<not> IsForbidden e \<and> int timeout \<le> int now - int (startTime now p))"
    by (auto simp: afterExecution_def split: option.splits)
  with t show ?thesis by blast
qed

section \<open>What a successful execution leaves in the cluster\<close>

type_synonym key = "string \<times> string \<times> string"

definition keyOf :: "kobject \<Rightarrow> key" where
  "keyOf obj = (ko_Kind obj, Obj_Namespace (ko_Meta obj), ko_Name obj)"

text \<open>What is relied on of the API server: \<open>live s\<close> are the objects that exist. Creating and updating
  remove nothing; an object exists when its creation succeeds and when it fails because the object
  exists already; a read returns what was asked for.\<close>

definition serves :: "'s api \<Rightarrow> ('s \<Rightarrow> key set) \<Rightarrow> bool" where
  "serves A live \<longleftrightarrow>
     (\<forall>obj s e s'. a_create A obj s = (e, s') \<longrightarrow>
        live s \<subseteq> live s' \<and> ((case e of None \<Rightarrow> True | Some x \<Rightarrow> IsAlreadyExists x) \<longrightarrow> keyOf obj \<in> live s'))
     \<and> (\<forall>obj s e s'. a_update A obj s = (e, s') \<longrightarrow> live s \<subseteq> live s')
     \<and> (\<forall>s kind ns name obj. a_get A s kind ns name = Inr obj \<longrightarrow> ko_Kind obj = kind \<and> ko_Name obj = name)"

lemma servesD:
  assumes "serves A live"
  shows "a_create A obj s = (e, s') \<Longrightarrow> live s \<subseteq> live s'"
    "a_create A obj s = (None, s') \<Longrightarrow> keyOf obj \<in> live s'"
    "a_create A obj s = (Some x, s') \<Longrightarrow> IsAlreadyExists x \<Longrightarrow> keyOf obj \<in> live s'"
    "a_update A obj s = (e, s') \<Longrightarrow> live s \<subseteq> live s'"
    "a_get A s kind ns name = Inr obj \<Longrightarrow> ko_Kind obj = kind \<and> ko_Name obj = name"
  using assms unfolding serves_def by (fastforce+)

text \<open>The outcome of ensuring an object: it exists if the status is recorded, and nothing is lost.\<close>

definition ensuredIn :: "('s \<Rightarrow> key set) \<Rightarrow> 's \<Rightarrow> key \<Rightarrow> 's ensured \<Rightarrow> bool" where
  "ensuredIn live s k r \<longleftrightarrow> live s \<subseteq> live (snd r)
     \<and> (\<forall>status. fst r = Inr status \<longrightarrow> status \<in> {StepStatusCreated, StepStatusPresent} \<and> k \<in> live (snd r))"

text \<open>What is done to an object that exists keeps everything, and records nothing but its presence.\<close>

definition keepsIn :: "('s \<Rightarrow> key set) \<Rightarrow> 's \<Rightarrow> 's ensured \<Rightarrow> bool" where
  "keepsIn live s r \<longleftrightarrow> live s \<subseteq> live (snd r) \<and> (\<forall>status. fst r = Inr status \<longrightarrow> status = StepStatusPresent)"

lemma ensureWith_in:
  assumes "serves A live" "\<And>s. keepsIn live s (ex s)"
  shows "ensuredIn live s (keyOf obj) (ensureWith A m obj ex s)"
proof (cases "a_create A obj s")
  case (Pair e s')
  note c = servesD(1) [OF assms(1) Pair]
  show ?thesis
  proof (cases e)
    case None
    then show ?thesis using Pair c servesD(2) [OF assms(1)] by (auto simp: ensuredIn_def ensureWith_def)
  next
    case (Some x)
    show ?thesis
    proof (cases "IsAlreadyExists x")
      case True
      have "keyOf obj \<in> live s'" using servesD(3) [OF assms(1)] Pair Some True by blast
      then show ?thesis using assms(2) [of s'] Pair Some True c by (auto simp: ensuredIn_def keepsIn_def ensureWith_def)
    qed (use Pair Some c in \<open>auto simp: ensuredIn_def ensureWith_def\<close>)
  qed
qed

lemma updateExisting_keeps: "serves A live \<Longrightarrow> keepsIn live s (updateExisting A m obj s)"
  using servesD(4) [of A live obj s] by (auto simp: keepsIn_def updateExisting_def split: prod.splits option.splits)

lemma keepsIn_value [simp]: "keepsIn live s (Inr StepStatusPresent, s)" "keepsIn live s (Inl e, s)"
  by (simp_all add: keepsIn_def)

lemma Ensure_in:
  assumes "serves A live"
  shows "ensuredIn live s (keyOf obj) (EnsureClusterServiceVersion A obj s)"
    "ensuredIn live s (keyOf obj) (EnsureSubscription A obj s)"
    "ensuredIn live s (keyOf obj) (EnsureBundleSecret A ns obj s)"
    "ensuredIn live s (keyOf obj) (EnsureServiceAccount A ns obj s)"
    "ensuredIn live s (keyOf obj) (EnsureService A ns obj s)"
    "ensuredIn live s (keyOf obj) (EnsureClusterRole A obj step s)"
    "ensuredIn live s (keyOf obj) (EnsureClusterRoleBinding A obj step s)"
    "ensuredIn live s (keyOf obj) (EnsureRole A ns obj s)"
    "ensuredIn live s (keyOf obj) (EnsureRoleBinding A ns obj s)"
    "ensuredIn live s (keyOf obj) (EnsureConfigMap A ns obj s)"
    "ensuredIn live s (keyOf obj) (EnsureUnstructuredObject A obj s)"
  unfolding EnsureClusterServiceVersion_def EnsureSubscription_def EnsureBundleSecret_def EnsureServiceAccount_def
    EnsureService_def EnsureClusterRole_def EnsureClusterRoleBinding_def EnsureRole_def EnsureRoleBinding_def
    EnsureConfigMap_def EnsureUnstructuredObject_def
  by (rule ensureWith_in [OF assms], simp add: updateExisting_keeps [OF assms] Let_def split: sum.split)+

lemma keyOf_frame [simp]:
  "keyOf (managed obj) = keyOf obj" "keyOf (SetOwnerReferences refs obj) = keyOf obj"
  "keyOf (obj\<lparr>ko_Annotations := an\<rparr>) = keyOf obj"
  "keyOf (SetNamespace ns (managed obj)) = keyOf (SetNamespace ns obj)"
  "keyOf (SetNamespace ns (SetOwnerReferences refs obj)) = keyOf (SetNamespace ns obj)"
  "keyOf (SetNamespace ns (obj\<lparr>ko_Annotations := an\<rparr>)) = keyOf (SetNamespace ns obj)"
  "keyOf (addResolvingOwner plan step obj) = keyOf obj"
  "keyOf (SetNamespace ns (addResolvingOwner plan step obj)) = keyOf (SetNamespace ns obj)"
  by (simp_all add: keyOf_def managed_def setLabel_def SetOwnerReferences_def SetNamespace_def ko_Name_def addResolvingOwner_def
      AddNonBlockingOwner_def Let_def)

lemma ownedObject_key: "ownedObject A s plan what obj = Inr obj' \<Longrightarrow> keyOf obj' = keyOf (SetNamespace (ip_Namespace plan) obj)"
  by (auto simp: ownedObject_def split: sum.splits)

lemma ownUnstructured_key:
  assumes "ownUnstructured A s plan step namespaced obj = Inr obj'"
  shows "keyOf obj' = keyOf obj \<and> keyOf (SetNamespace ns obj') = keyOf (SetNamespace ns obj)"
  using assms
  by (auto simp: ownUnstructured_def Let_def AddOwnerLabels_def AddOwnerLabelsForKind_def keyOf_def SetNamespace_def ko_Name_def
      SetOwnerReferences_def addResolvingOwner_def AddNonBlockingOwner_def
      split: if_splits sum.splits option.splits prod.splits)

text \<open>The object a step is for: the secret it names, or the object of its manifest, in the namespace
  of the plan unless its kind belongs to no namespace.\<close>

definition clusterScoped :: "'s api \<Rightarrow> Step \<Rightarrow> kobject \<Rightarrow> bool" where
  "clusterScoped A step obj \<longleftrightarrow> st_Kind step \<in> {''ClusterRole'', ''ClusterRoleBinding''}
     \<or> st_Kind step \<notin> set switchKinds \<and> a_resource A obj = Inr False"

definition target :: "'s api \<Rightarrow> InstallPlan \<Rightarrow> Step \<Rightarrow> string \<Rightarrow> key option" where
  "target A plan step manifest =
     (if st_Kind step = ''Secret'' then Some (''Secret'', ip_Namespace plan, st_Name step)
      else case a_decode A (st_Kind step) manifest of
             Inl _ \<Rightarrow> None
           | Inr obj \<Rightarrow> Some (keyOf (if clusterScoped A step obj then obj else SetNamespace (ip_Namespace plan) obj)))"

definition targetIn :: "'s api \<Rightarrow> ('s \<Rightarrow> key set) \<Rightarrow> InstallPlan \<Rightarrow> Step \<Rightarrow> string \<Rightarrow> 's \<Rightarrow> 's ensured \<Rightarrow> bool" where
  "targetIn A live plan step manifest s r \<longleftrightarrow> live s \<subseteq> live (snd r)
     \<and> (\<forall>status. fst r = Inr status \<longrightarrow> status \<in> {StepStatusCreated, StepStatusPresent}
          \<and> target A plan step manifest \<in> Some ` live (snd r))"

lemma targetInI:
  assumes "\<And>obj. r = Inr obj \<Longrightarrow> target A plan step manifest = Some (keyOf (f obj))"
    and "\<And>obj. ensuredIn live s (keyOf (f obj)) (ensure obj s)"
  shows "targetIn A live plan step manifest s (ensureParsed r ensure s)"
  using assms by (cases r) (auto simp: targetIn_def ensureParsed_def ensuredIn_def)

lemma parseManifest_Inr: "parseManifest A step manifest = Inr obj \<longleftrightarrow> a_decode A (st_Kind step) manifest = Inr obj"
  by (auto simp: parseManifest_def split: sum.splits)

lemma target_decoded:
  assumes "a_decode A (st_Kind step) manifest = Inr obj" "st_Kind step \<noteq> ''Secret''"
  shows "target A plan step manifest = Some (keyOf (if clusterScoped A step obj then obj else SetNamespace (ip_Namespace plan) obj))"
  using assms by (simp add: target_def)

lemma namespaced_kinds:
  "st_Kind step \<in> set switchKinds \<Longrightarrow> st_Kind step \<notin> {''ClusterRole'', ''ClusterRoleBinding''} \<Longrightarrow> \<not> clusterScoped A step obj"
  by (auto simp: clusterScoped_def)

lemma EnsureSecret_in:
  assumes "serves A live"
  shows "ensuredIn live s (''Secret'', ns, name) (EnsureSecret A ons ns name s)"
proof (cases "a_get A s ''Secret'' ons name")
  case (Inr secret)
  have key: "ko_Kind secret = ''Secret''" "ko_Name secret = name" using servesD(5) [OF assms Inr] by simp_all
  define new where "new = secret\<lparr>ko_Annotations := [], ko_ResourceVersion := [],
      ko_Meta := (ko_Meta secret)\<lparr>Obj_Namespace := ns, Obj_UID := [], Obj_OwnerReferences := [],
        Obj_Labels := Some [(''olm.managed'', ''true'')]\<rparr>\<rparr>"
  have k: "keyOf new = (''Secret'', ns, name)" using key by (simp add: new_def keyOf_def ko_Name_def)
  obtain e s' where c: "a_create A new s = (e, s')" by (cases "a_create A new s")
  have "EnsureSecret A ons ns name s = (case e of
       Some x \<Rightarrow> ((if IsAlreadyExists x then Inr StepStatusPresent
                   else Inl (plainErr (''error creating secret '' @ ko_Name secret @ '' - '' @ apiErrorText x))), s')
     | None \<Rightarrow> (Inr StepStatusCreated, s'))"
    using c unfolding EnsureSecret_def Inr sum.case Let_def new_def by (simp split: option.splits)
  then show ?thesis
    using servesD(1-3) [OF assms, of new s] c k by (auto simp: ensuredIn_def split: option.splits)
qed (simp add: EnsureSecret_def ensuredIn_def)

lemma executeUnstructured_in:
  assumes "serves A live" "st_Kind step \<notin> set switchKinds"
  shows "targetIn A live plan step manifest s (executeUnstructured A plan step manifest s)"
proof -
  have fails: "targetIn A live plan step manifest s (Inl e, s)" for e by (simp add: targetIn_def)
  have ensured: "targetIn A live plan step manifest s (EnsureUnstructuredObject A out s)"
    if "a_decode A (st_Kind step) manifest = Inr obj" "a_resource A obj = Inr namespaced"
      "ownUnstructured A s plan step namespaced obj = Inr obj'"
      "out = (if namespaced then SetNamespace (ip_Namespace plan) (managed obj') else managed obj')" for obj namespaced obj' out
  proof -
    have "st_Kind step \<noteq> ''Secret''" "clusterScoped A step obj \<longleftrightarrow> \<not> namespaced"
      using assms(2) that(2) by (auto simp: clusterScoped_def switchKinds_def)
    with target_decoded [OF that(1), of plan] have "target A plan step manifest = Some (keyOf out)"
      using ownUnstructured_key [OF that(3), of "ip_Namespace plan"] that(4) by simp
    then show ?thesis using Ensure_in(11) [OF assms(1), of s out] by (auto simp: targetIn_def ensuredIn_def)
  qed
  show ?thesis
  proof (cases "a_decode A (st_Kind step) manifest")
    case (Inr obj)
    show ?thesis
    proof (cases "a_resource A obj")
      case res: (Inr namespaced)
      show ?thesis
        by (cases "ownUnstructured A s plan step namespaced obj")
          (simp_all add: executeUnstructured_def fails Inr res ensured [OF Inr res])
    qed (simp add: executeUnstructured_def fails Inr)
  qed (simp add: executeUnstructured_def fails)
qed

text \<open>The kinds of the switch whose manifests are put into the namespace of the plan.\<close>

lemma target_namespaced:
  assumes "st_Kind step \<in> set switchKinds - {''Secret'', ''ClusterRole'', ''ClusterRoleBinding''}"
    and "a_decode A (st_Kind step) manifest = Inr obj"
  shows "target A plan step manifest = Some (keyOf (SetNamespace (ip_Namespace plan) obj))"
  using assms target_decoded [of A step manifest obj plan] namespaced_kinds [of step A obj] by auto

lemma target_owned:
  assumes "st_Kind step \<in> set switchKinds - {''Secret'', ''ClusterRole'', ''ClusterRoleBinding''}"
    and "bind_err (parseManifest A step manifest) (\<lambda>obj. ownedObject A s plan what (addResolvingOwner plan step obj)) = Inr obj'
      \<or> bind_err (parseManifest A step manifest) (ownedObject A s plan what) = Inr obj'"
  shows "target A plan step manifest = Some (keyOf obj')"
  using assms(2) target_namespaced [OF assms(1)] by (auto simp: go_err parseManifest_Inr dest!: ownedObject_key)

lemma executeNamespaced_in:
  assumes "serves A live" "st_Kind step \<in> set switchKinds - {''Secret'', ''ClusterRole'', ''ClusterRoleBinding''}"
  shows "targetIn A live plan step manifest s (executeCSV A plan owners step manifest s)"
    "targetIn A live plan step manifest s (executeSubscription A plan step manifest s)"
    "targetIn A live plan step manifest s (executeBundleSecret A plan step manifest s)"
    "targetIn A live plan step manifest s (executeRole A plan step manifest s)"
    "targetIn A live plan step manifest s (executeRoleBinding A plan step manifest s)"
    "targetIn A live plan step manifest s (executeServiceAccount A plan step manifest s)"
    "targetIn A live plan step manifest s (executeService A plan step manifest s)"
    "targetIn A live plan step manifest s (executeConfigMap A plan step manifest s)"
proof -
  note ensured = Ensure_in [OF assms(1)]
  have put: "ensuredIn live s (keyOf (SetNamespace (ip_Namespace plan) obj)) (ensure obj' s)"
    if "ensuredIn live s (keyOf obj') (ensure obj' s)" "keyOf obj' = keyOf (SetNamespace (ip_Namespace plan) obj)" for obj obj' ensure
    using that by simp
  show "targetIn A live plan step manifest s (executeCSV A plan owners step manifest s)"
    unfolding executeCSV_def
    by (rule targetInI [where f = "SetNamespace (ip_Namespace plan)"])
      (auto simp: go_err parseManifest_Inr split: if_splits sum.splits bool.splits intro: target_namespaced [OF assms(2)] put ensured)
  show "targetIn A live plan step manifest s (executeSubscription A plan step manifest s)"
    unfolding executeSubscription_def
    by (rule targetInI [where f = "SetNamespace (ip_Namespace plan)"])
      (auto simp: parseManifest_Inr intro: target_namespaced [OF assms(2)] put ensured)
  show "targetIn A live plan step manifest s (executeBundleSecret A plan step manifest s)"
    "targetIn A live plan step manifest s (executeRole A plan step manifest s)"
    "targetIn A live plan step manifest s (executeRoleBinding A plan step manifest s)"
    "targetIn A live plan step manifest s (executeServiceAccount A plan step manifest s)"
    "targetIn A live plan step manifest s (executeService A plan step manifest s)"
    "targetIn A live plan step manifest s (executeConfigMap A plan step manifest s)"
    unfolding executeBundleSecret_def executeRole_def executeRoleBinding_def executeServiceAccount_def executeService_def
      executeConfigMap_def
    by (rule targetInI [where f = "\<lambda>x. x"], blast intro: target_owned [OF assms(2)], rule ensured)+
qed

lemma executeCluster_in:
  assumes "serves A live" "st_Kind step \<in> {''ClusterRole'', ''ClusterRoleBinding''}"
  shows "targetIn A live plan step manifest s (executeClusterRole A step manifest s)"
    "targetIn A live plan step manifest s (executeClusterRoleBinding A step manifest s)"
proof -
  have t: "target A plan step manifest = Some (keyOf (managed obj))" if "parseManifest A step manifest = Inr obj" for obj
    using that assms(2) target_decoded [of A step manifest obj plan] by (auto simp: parseManifest_Inr clusterScoped_def)
  show "targetIn A live plan step manifest s (executeClusterRole A step manifest s)"
    "targetIn A live plan step manifest s (executeClusterRoleBinding A step manifest s)"
    unfolding executeClusterRole_def executeClusterRoleBinding_def
    by (rule targetInI [where f = managed], erule t, rule Ensure_in [OF assms(1)])+
qed

lemma executeKind_in:
  assumes "serves A live"
  shows "targetIn A live plan step manifest s (executeKind A plan owners step manifest s)"
proof -
  consider "st_Kind step \<in> set switchKinds - {''Secret'', ''ClusterRole'', ''ClusterRoleBinding''}"
    | "st_Kind step \<in> {''ClusterRole'', ''ClusterRoleBinding''}" | "st_Kind step = ''Secret''" | "st_Kind step \<notin> set switchKinds"
    by blast
  then show ?thesis
  proof cases
    case 1
    note in_ns = executeNamespaced_in [OF assms 1]
    from 1 show ?thesis by (auto simp: executeKind_def Let_def switchKinds_def in_ns)
  next
    case 2
    note in_cluster = executeCluster_in [OF assms 2]
    from 2 show ?thesis by (auto simp: executeKind_def Let_def in_cluster)
  next
    case 3
    then show ?thesis
      using EnsureSecret_in [OF assms, of s "ip_Namespace plan" "st_Name step" "a_operatorNamespace A"]
      by (auto simp: executeKind_def targetIn_def ensuredIn_def target_def)
  next
    case 4
    then have "executeKind A plan owners step manifest s = executeUnstructured A plan step manifest s"
      by (simp add: executeKind_def Let_def switchKinds_def)
    then show ?thesis using executeUnstructured_in [OF assms 4] by simp
  qed
qed

text \<open>CRDs: an update keeps every object too.\<close>

lemma retryOnConflict_keeps:
  "(\<And>s. live s \<subseteq> live (snd (f s))) \<Longrightarrow> live s \<subseteq> live (snd (retryOnConflict n conflict f s))"
proof (induction n conflict f s rule: retryOnConflict.induct)
  case (2 n conflict f s)
  show ?case
  proof (cases "f s")
    case (Pair e s')
    then have "live s \<subseteq> live s'" using 2(2) [of s] by simp
    with Pair 2 show ?thesis by (cases e) (auto split: prod.splits)
  qed
qed simp

lemma upgradeCRD_keeps:
  assumes "serves A live"
  shows "live s \<subseteq> live (snd (upgradeCRD A v1 step crd s))"
  using servesD(4) [OF assms]
  by (auto simp: upgradeCRD_def Let_def split: option.split prod.split)

lemma crdStepper_keeps:
  assumes "serves A live"
  shows "live s \<subseteq> live (snd (crdStepper A v1 step manifest s))"
proof (cases "\<exists>crd. a_decode A ''CustomResourceDefinition'' manifest = Inr crd")
  case True
  then obtain crd where crd: "a_decode A ''CustomResourceDefinition'' manifest = Inr crd" ..
  obtain e s1 where c: "a_create A (managed crd) s = (e, s1)" by (cases "a_create A (managed crd) s")
  obtain u s2 where u: "retryOnConflict 5 (a_conflict A) (upgradeCRD A v1 step (managed crd)) s1 = (u, s2)"
    by (cases "retryOnConflict 5 (a_conflict A) (upgradeCRD A v1 step (managed crd)) s1")
  have "live s \<subseteq> live s1" "live s1 \<subseteq> live s2"
    using servesD(1) [OF assms c] u upgradeCRD_keeps [OF assms]
      retryOnConflict_keeps [of live "upgradeCRD A v1 step (managed crd)" s1 5 "a_conflict A"] by auto
  then show ?thesis
    by (auto simp: crdStepper_def crd c u split: StepStatus.splits option.splits sum.splits)
qed (auto simp: crdStepper_def split: StepStatus.splits sum.splits)

text \<open>A step that is done: its status says so, and if this execution did it, its object exists.\<close>

definition stepDone :: "'s api \<Rightarrow> ('s \<Rightarrow> key set) \<Rightarrow> InstallPlan \<Rightarrow> Step \<Rightarrow> StepStatus \<Rightarrow> 's \<Rightarrow> bool" where
  "stepDone A live plan step status s \<longleftrightarrow>
     status \<in> {StepStatusCreated, StepStatusPresent}
     \<and> (st_Status step \<in> {StepStatusUnknown, StepStatusNotPresent} \<longrightarrow>
          (\<exists>t manifest. a_manifest A t step = Inr manifest \<and> target A plan step manifest \<in> Some ` live s))"

lemma stepDone_mono: "stepDone A live plan step status s \<Longrightarrow> live s \<subseteq> live s' \<Longrightarrow> stepDone A live plan step status s'"
  unfolding stepDone_def by blast

lemma builder_create_other:
  "st_Kind step \<noteq> ''CustomResourceDefinition'' \<Longrightarrow>
     builder_create A step s = (case a_manifest A s step of Inl e \<Rightarrow> builderError e | Inr m \<Rightarrow> noStepper)"
  by (simp add: builder_create_def split: sum.split)

lemma executeStep_in:
  assumes "serves A live" "executeStep A plan owners step s = (status, e, s')"
  shows "live s \<subseteq> live s' \<and> (e = None \<longrightarrow> st_Kind step \<noteq> ''CustomResourceDefinition'' \<longrightarrow> status \<noteq> StepStatusWaitingForAPI \<longrightarrow>
    stepDone A live plan step status s')"
proof (cases "st_Kind step = ''CustomResourceDefinition''")
  case True
  then show ?thesis
    using assms crdStepper_keeps [OF assms(1), of s]
    by (auto simp: executeStep_def builder_create_def Let_def split: sum.splits prod.splits if_splits) (metis snd_conv subsetD)+
next
  case False
  show ?thesis
  proof (cases "a_manifest A s step")
    case (Inr m)
    have "targetIn A live plan step m s (executeKind A plan owners step m s)" by (rule executeKind_in [OF assms(1)])
    then show ?thesis
      using assms(2) False Inr
      by (cases "st_Status step") (auto simp: executeStep_def builder_create_other Let_def targetIn_def stepDone_def
          split: sum.splits prod.splits if_splits)
  qed (use assms(2) False in \<open>auto simp: executeStep_def builder_create_other\<close>)
qed

lemma executeSteps_keeps:
  assumes "serves A live"
  shows "executeSteps A plan owners steps s = (steps', e, s') \<Longrightarrow> live s \<subseteq> live s'"
proof (induction steps arbitrary: s steps' e)
  case (Cons step steps)
  obtain status e1 s1 where st: "executeStep A plan owners step s = (status, e1, s1)" by (cases "executeStep A plan owners step s")
  have "live s \<subseteq> live s1" using executeStep_in [OF assms st] by blast
  with Cons st show ?case by (cases e1) (fastforce split: prod.splits)+
qed simp

lemma executeSteps_in:
  assumes "serves A live" "executeSteps A plan owners steps s = (steps', None, s')" "i < length steps"
    and "st_Kind (steps ! i) \<noteq> ''CustomResourceDefinition''" "st_Status (steps' ! i) \<noteq> StepStatusWaitingForAPI"
  shows "stepDone A live plan (steps ! i) (st_Status (steps' ! i)) s'"
  using assms(2-5)
proof (induction steps arbitrary: s steps' i)
  case (Cons step steps)
  obtain status e s1 where st: "executeStep A plan owners step s = (status, e, s1)" by (cases "executeStep A plan owners step s")
  obtain steps1 e1 s2 where rest: "executeSteps A plan owners steps s1 = (steps1, e1, s2)"
    by (cases "executeSteps A plan owners steps s1")
  have eq: "e = None" "steps' = step\<lparr>st_Status := status\<rparr> # steps1" "e1 = None" "s2 = s'"
    using Cons.prems(1) st rest by (auto split: option.splits)
  have mono: "live s1 \<subseteq> live s'" using executeSteps_keeps [OF assms(1)] rest eq by blast
  show ?case
  proof (cases i)
    case 0
    then have "stepDone A live plan step status s1"
      using executeStep_in [OF assms(1) st] Cons.prems(3,4) eq by simp
    then show ?thesis using stepDone_mono mono 0 eq(2) by fastforce
  next
    case (Suc j)
    then show ?thesis using Cons.IH [of s1 steps1 j] Cons.prems rest eq by simp
  qed
qed simp

text \<open>C5. When an InstallPlan becomes complete, every step of it that is not a CRD is recorded as created
  or present, and the object of each step that was still to be done exists in the cluster: in the
  namespace of the plan, unless its kind belongs to no namespace. The hypothesis \<open>serves\<close> is what
  the API server promises of creating, updating and reading.\<close>

theorem completed_plan_applied:
  assumes "serves A live" "ip_Phase p = InstallPlanPhaseInstalling"
    and "transitionInstallPlanState (ExecutePlan A) p now timeout s = Some (p', err, s')" "ip_Phase p' = InstallPlanPhaseComplete"
    and "i < length (ip_Plan p)" "st_Kind (ip_Plan p ! i) \<noteq> ''CustomResourceDefinition''"
  shows "stepDone A live p (ip_Plan p ! i) (st_Status (ip_Plan p' ! i)) s'"
proof -
  let ?p = "p\<lparr>ip_StartTime := Some (startTime now p)\<rparr>"
  from exec.transition_installing [OF assms(3,2)] obtain q where q: "ExecutePlan A ?p s = Some (q, err, s')"
    "p' = afterExecution now (startTime now p) timeout q err" "ip_Phase q = InstallPlanPhaseInstalling" .
  have ok: "err = None" "\<not> NeedsRequeue q" "ip_Plan p' = ip_Plan q"
    using q(2,3) assms(4) by (auto simp: afterExecution_def split: option.splits if_splits)
  from q(1) ok(1) assms(2) obtain csvs where x: "executeSteps A ?p (getExistingAPIOwners csvs) (ip_Plan p) s = (ip_Plan q, None, s')"
    by (auto simp: ExecutePlan_def split: sum.splits option.splits prod.splits)
  have "st_Status (ip_Plan q ! i) \<noteq> StepStatusWaitingForAPI"
    using ok(2) executeSteps_length [OF x] assms(5) by (auto simp: NeedsRequeue_def list_ex_iff)
  then have "stepDone A live ?p (ip_Plan p ! i) (st_Status (ip_Plan q ! i)) s'"
    by (rule executeSteps_in [OF assms(1) x assms(5,6)])
  moreover have "target A ?p = target A p" by (intro ext) (simp add: target_def split: sum.split)
  ultimately show ?thesis using ok(3) by (simp add: stepDone_def)
qed

text \<open>A plan whose CRD was created but is not served yet is declared complete by the next
  synchronisation: the step is recorded as unknown instead of still waiting, and nothing asks for
  another round.\<close>

lemma unestablished_crd_completes:
  assumes "ip_Phase p = InstallPlanPhaseInstalling" "ip_Plan p = [step]"
    and "st_Kind step = ''CustomResourceDefinition''" "st_Status step = StepStatusWaitingForAPI"
    and "a_listCSVs A s (ip_Namespace p) = Inr csvs" "a_clients A s (ip_ServiceAccount p) = None"
    and "a_manifest A s step = Inr m" "a_crdVersion A m = Inr v1"
    and "a_get A s ''CustomResourceDefinition'' [] (st_Name step) = Inr crd"
    and "(''Established'', ConditionTrue) \<notin> set (co_Conditions (ko_CRD crd))"
  shows "\<exists>p'. transitionInstallPlanState (ExecutePlan A) p now timeout s = Some (p', None, s)
    \<and> ip_Phase p' = InstallPlanPhaseComplete \<and> ip_Plan p' = [step\<lparr>st_Status := StepStatusUnknown\<rparr>]"
  using assms
  by (simp add: transitionInstallPlanState_def ExecutePlan_def executeStep_def builder_create_def crdStepper_def
      afterExecution_def NeedsRequeue_def)

section \<open>A small cluster\<close>

text \<open>A cluster that is a list of objects, whose manifests name the kind and the object.\<close>

definition demoObject :: "string \<Rightarrow> string \<Rightarrow> kobject" where
  "demoObject kind name = emptyCRD\<lparr>ko_Kind := kind, ko_Meta := (ko_Meta emptyCRD)\<lparr>Obj_Name := name\<rparr>\<rparr>"

definition demoAPI :: "kobject list api" where
  "demoAPI = \<lparr>a_listCSVs = (\<lambda>s ns. Inr []), a_clients = (\<lambda>s sa. None), a_manifest = (\<lambda>s step. Inr (st_Manifest step)),
     a_decode = (\<lambda>kind m. Inr (demoObject kind m)), a_crdVersion = (\<lambda>m. Inr True),
     a_get = (\<lambda>s kind ns name. case find (\<lambda>x. keyOf x = (kind, ns, name)) s of None \<Rightarrow> Inl (apiNotFound name) | Some x \<Rightarrow> Inr x),
     a_create = (\<lambda>x s. if keyOf x \<in> keyOf ` set s then (Some (alreadyExists (ko_Name x)), s) else (None, x # s)),
     a_update = (\<lambda>x s. (None, map (\<lambda>y. if keyOf y = keyOf x then x else y) s)),
     a_conflict = (\<lambda>e. False), a_convert = (\<lambda>v. Inr []), a_validateCRs = (\<lambda>s crd vs. None), a_derivative = (=),
     a_resource = (\<lambda>x. Inr True), a_discovery = (\<lambda>step. None), a_operatorNamespace = ''olm''\<rparr>"

lemma demoAPI_serves: "serves demoAPI (\<lambda>s. keyOf ` set s)"
  by (auto simp: serves_def demoAPI_def keyOf_def find_Some_iff split: if_splits option.splits)

definition demoStep :: "string \<Rightarrow> string \<Rightarrow> StepStatus \<Rightarrow> Step" where
  "demoStep kind name status = \<lparr>st_Resolving = ''a.v1'', st_Kind = kind, st_Name = name, st_Group = [], st_Version = [],
     st_CatalogSource = [], st_CatalogSourceNamespace = [], st_Manifest = name, st_Status = status\<rparr>"

abbreviation demoInstalling :: "Step list \<Rightarrow> InstallPlan" where
  "demoInstalling \<equiv> demoPlan ''p'' 1 InstallPlanPhaseInstalling"

definition demoWorld :: ip_world where
  "demoWorld = \<lparr>iw_now = 7, iw_timeout = 60, iw_querier = Inr None, iw_updateStatus = (\<lambda>p. None)\<rparr>"

theorem completed_plan_applied_witness:
  "stepDone demoAPI (\<lambda>s. keyOf ` set s) (demoInstalling [demoStep ''Role'' ''c'' StepStatusUnknown])
     (demoStep ''Role'' ''c'' StepStatusUnknown) StepStatusCreated
     (snd (snd (the (ExecutePlan demoAPI (demoInstalling [demoStep ''Role'' ''c'' StepStatusUnknown]) []))))"
proof -
  let ?p = "demoInstalling [demoStep ''Role'' ''c'' StepStatusUnknown]"
  obtain p' err s' where t: "transitionInstallPlanState (ExecutePlan demoAPI) ?p 7 60 [] = Some (p', err, s')"
    using exec.transition_returns [of demoAPI ?p 7 60 "[]"] by auto
  have "ip_Phase (fst (the (transitionInstallPlanState (ExecutePlan demoAPI) ?p 7 60 []))) = InstallPlanPhaseComplete"
    "st_Status (ip_Plan (fst (the (transitionInstallPlanState (ExecutePlan demoAPI) ?p 7 60 []))) ! 0) = StepStatusCreated"
    "snd (snd (the (transitionInstallPlanState (ExecutePlan demoAPI) ?p 7 60 []))) = snd (snd (the (ExecutePlan demoAPI ?p [])))"
    by code_simp+
  with t completed_plan_applied [OF demoAPI_serves, of ?p 7 60 "[]" p' err s' 0] show ?thesis
    by (simp add: demoPlan_def demoStep_def)
qed

lemma unestablished_crd_completes_witness:
  "\<exists>p'. transitionInstallPlanState (ExecutePlan demoAPI)
       (demoInstalling [demoStep ''CustomResourceDefinition'' ''c'' StepStatusWaitingForAPI]) 7 60 [demoObject ''CustomResourceDefinition'' ''c''] =
     Some (p', None, [demoObject ''CustomResourceDefinition'' ''c''])
   \<and> ip_Phase p' = InstallPlanPhaseComplete \<and> ip_Plan p' = [demoStep ''CustomResourceDefinition'' ''c'' StepStatusUnknown]"
  using unestablished_crd_completes [of "demoInstalling [demoStep ''CustomResourceDefinition'' ''c'' StepStatusWaitingForAPI]"
      "demoStep ''CustomResourceDefinition'' ''c'' StepStatusWaitingForAPI" demoAPI "[demoObject ''CustomResourceDefinition'' ''c'']"
      "[]" "''c''" True "demoObject ''CustomResourceDefinition'' ''c''" 7 60]
  by (simp add: demoPlan_def demoStep_def demoAPI_def demoObject_def emptyCRD_def keyOf_def ko_Name_def)

theorem plan_run_approved_witness:
  "case syncInstallPlans (ExecutePlan demoAPI) demoWorld (demoInstalling [demoStep ''Role'' ''c'' StepStatusUnknown]) [] of
     None \<Rightarrow> False
   | Some (e, eff, s') \<Rightarrow> s' \<noteq> [] \<and> ip_Approved (demoInstalling [demoStep ''Role'' ''c'' StepStatusUnknown])"
proof -
  let ?p = "demoInstalling [demoStep ''Role'' ''c'' StepStatusUnknown]"
  have "case syncInstallPlans (ExecutePlan demoAPI) demoWorld ?p [] of None \<Rightarrow> False | Some (e, eff, s') \<Rightarrow> s' \<noteq> []"
    by code_simp
  then obtain e eff s' where s: "syncInstallPlans (ExecutePlan demoAPI) demoWorld ?p [] = Some (e, eff, s')" "s' \<noteq> []"
    by (auto split: option.splits prod.splits)
  have "approvedPlan ?p" by code_simp
  from plan_run_approved [OF runs_start this s] s show ?thesis by simp
qed

theorem transitionInstallPlanState_fails_iff_witness:
  "\<exists>p' err s'. transitionInstallPlanState (ExecutePlan demoAPI) (demoInstalling [demoStep ''Foo'' ''c'' StepStatusUnknown]) 7 0 [] =
       Some (p', err, s') \<and> ip_Phase p' = InstallPlanPhaseFailed"
proof -
  let ?p = "demoInstalling [demoStep ''Foo'' ''c'' StepStatusUnknown]"
  have "ip_Phase ?p = InstallPlanPhaseInstalling" by code_simp
  from transitionInstallPlanState_fails_iff [OF this, of demoAPI 7 0 "[]"] obtain p' err s' where
    t: "transitionInstallPlanState (ExecutePlan demoAPI) ?p 7 0 [] = Some (p', err, s')"
    and "ip_Phase p' = InstallPlanPhaseFailed \<longleftrightarrow>
      (\<exists>e. err = Some e \<and> \<not> IsForbidden e \<and> int 0 \<le> int 7 - int (startTime 7 ?p))" by blast
  moreover have "fst (snd (the (transitionInstallPlanState (ExecutePlan demoAPI) ?p 7 0 []))) = Some ErrInvalidInstallPlan"
    "startTime 7 ?p = 7" by code_simp+
  ultimately show ?thesis by simp
qed

section \<open>Stored versions\<close>

lemma SafeStorageVersionUpgrade_iff:
  "fst (SafeStorageVersionUpgrade v1 old new) \<longleftrightarrow> set (co_StoredVersions old) \<subseteq> set (newSpecVersions v1 new)"
  by (auto simp: SafeStorageVersionUpgrade_def find_None_iff find_Some_iff split: option.splits)
    (metis nth_mem subsetD)

lemma crdRefused_None: "crdRefused A v1 step cur crd s = None \<Longrightarrow> fst (SafeStorageVersionUpgrade v1 (ko_CRD cur) (ko_CRD crd))"
  by (cases "SafeStorageVersionUpgrade v1 (ko_CRD cur) (ko_CRD crd)")
    (auto simp: crdRefused_def Let_def split: option.splits crd_fault.splits if_splits bool.splits)

text \<open>An attempt to update a CRD touches the cluster only if every version the existing CRD has stored
  objects in is still a version of the new CRD; otherwise it fails.\<close>

lemma upgradeCRD_keeps_stored:
  assumes "upgradeCRD A v1 step crd s = (e, s')" "s' \<noteq> s \<or> e = None"
    and "a_get A s ''CustomResourceDefinition'' [] (ko_Name crd) = Inr cur"
  shows "set (co_StoredVersions (ko_CRD cur)) \<subseteq> set (newSpecVersions v1 (ko_CRD crd))"
proof -
  let ?crd = "crd\<lparr>ko_ResourceVersion := ko_ResourceVersion cur\<rparr>"
  have "crdRefused A v1 step cur ?crd s = None"
    using assms by (auto simp: upgradeCRD_def Let_def split: option.splits)
  from crdRefused_None [OF this] show ?thesis by (simp add: SafeStorageVersionUpgrade_iff)
qed

lemma upgradeCRD_keeps_stored_witness:
  "set (co_StoredVersions (ko_CRD (demoObject ''CustomResourceDefinition'' ''c'')))
     \<subseteq> set (newSpecVersions True (ko_CRD (demoObject ''CustomResourceDefinition'' ''c'')))"
proof (rule upgradeCRD_keeps_stored)
  show "upgradeCRD demoAPI True (demoStep ''CustomResourceDefinition'' ''c'' StepStatusUnknown) (demoObject ''CustomResourceDefinition'' ''c'')
      [demoObject ''CustomResourceDefinition'' ''c''] = (None, [demoObject ''CustomResourceDefinition'' ''c''])"
    "a_get demoAPI [demoObject ''CustomResourceDefinition'' ''c''] ''CustomResourceDefinition'' []
       (ko_Name (demoObject ''CustomResourceDefinition'' ''c'')) = Inr (demoObject ''CustomResourceDefinition'' ''c'')"
    by code_simp+
qed simp

section \<open>Merging owner references\<close>

text \<open>References with their pointers set, as \<open>NonBlockingOwner\<close> writes them and the cluster returns
  them, are never merged, not even with themselves.\<close>

lemma mergedOwnerReferences_duplicates:
  "list_all (\<lambda>ref. \<not> sameKey ref) (a @ b) \<Longrightarrow> mergedOwnerReferences a b = a @ b"
  by (simp add: mergedOwnerReferences_def list_all_iff)

lemma NonBlockingOwner_not_sameKey: "\<not> sameKey (NonBlockingOwner ownr)"
  by (simp add: sameKey_def NonBlockingOwner_def Let_def)

end
