(* ===== verification/Operator_Permissions.thy ===== *)
theory Operator_Permissions
  imports Rule_Checker
begin

text \<open>
  The service accounts, roles and bindings that an operator gets, \<open>resolver/rbac.go\<close>:
  generated names, hashes of contents, and \<open>RBACForClusterServiceVersion\<close>. SHA-224 of the JSON of
  a value is a parameter with the value it yields, or the error of the encoder; its printed form
  to the base 62 is modelled.
\<close>

section \<open>Names and hashes\<close>

definition digits62 :: string where
  "digits62 = ''0123456789abcdefghijklmnopqrstuvwxyzABCDEFGHIJKLMNOPQRSTUVWXYZ''"

fun toBase62 :: "nat \<Rightarrow> string" where
  "toBase62 n = (if n < 62 then [digits62 ! n] else toBase62 (n div 62) @ [digits62 ! (n mod 62)])"

declare toBase62.simps [simp del]

definition maxNameLength :: nat where
  "maxNameLength = 63"

text \<open>\<open>None\<close> is the panic of a slice with a negative bound.\<close>

definition generateName :: "string \<Rightarrow> string \<Rightarrow> string option" where
  "generateName base hash =
     (if length base + length hash > maxNameLength then
        (if length hash + 1 > maxNameLength then None
         else Some (take (maxNameLength - length hash - 1) base @ ''-'' @ hash))
      else Some (base @ ''-'' @ hash))"

definition ContentHashLabelKey :: string where
  "ContentHashLabelKey = ''olm.permissions.hash''"

section \<open>Permissions\<close>

record Permission =
  pm_ServiceAccountName :: string
  pm_Rules :: "PolicyRule list"

record rbacHashes =
  rh_permission :: "string \<times> string option \<times> Permission \<Rightarrow> string + nat"
  rh_rules :: "PolicyRule list \<Rightarrow> string + nat"
  rh_binding :: "RoleRef \<times> Subject list \<Rightarrow> string + nat"

record roleObject =
  ro_Meta :: Object
  ro_Rules :: "PolicyRule list"

record bindingObject =
  bo_Meta :: Object
  bo_RoleRef :: RoleRef
  bo_Subjects :: "Subject list"

record OperatorPermissions =
  op_ServiceAccount :: Object
  op_Roles :: "roleObject list"
  op_RoleBindings :: "bindingObject list"
  op_ClusterRoles :: "roleObject list"
  op_ClusterRoleBindings :: "bindingObject list"

definition NewOperatorPermissions :: "Object \<Rightarrow> OperatorPermissions" where
  "NewOperatorPermissions serviceAccount = \<lparr>op_ServiceAccount = serviceAccount, op_Roles = [], op_RoleBindings = [],
     op_ClusterRoles = [], op_ClusterRoleBindings = []\<rparr>"

definition AddRole :: "roleObject \<Rightarrow> OperatorPermissions \<Rightarrow> OperatorPermissions" where
  "AddRole role o' = o'\<lparr>op_Roles := op_Roles o' @ [role]\<rparr>"

definition AddRoleBinding :: "bindingObject \<Rightarrow> OperatorPermissions \<Rightarrow> OperatorPermissions" where
  "AddRoleBinding rb o' = o'\<lparr>op_RoleBindings := op_RoleBindings o' @ [rb]\<rparr>"

definition AddClusterRole :: "roleObject \<Rightarrow> OperatorPermissions \<Rightarrow> OperatorPermissions" where
  "AddClusterRole role o' = o'\<lparr>op_ClusterRoles := op_ClusterRoles o' @ [role]\<rparr>"

definition AddClusterRoleBinding :: "bindingObject \<Rightarrow> OperatorPermissions \<Rightarrow> OperatorPermissions" where
  "AddClusterRoleBinding rb o' = o'\<lparr>op_ClusterRoleBindings := op_ClusterRoleBindings o' @ [rb]\<rparr>"

definition PolicyRuleHashLabelValue :: "rbacHashes \<Rightarrow> PolicyRule list \<Rightarrow> string + string" where
  "PolicyRuleHashLabelValue H rules = bind_err (rh_rules H rules) (\<lambda>n. Inr (toBase62 n))"

definition RoleReferenceAndSubjectHashLabelValue :: "rbacHashes \<Rightarrow> RoleRef \<Rightarrow> Subject list \<Rightarrow> string + string" where
  "RoleReferenceAndSubjectHashLabelValue H ref subjects = bind_err (rh_binding H (ref, subjects)) (\<lambda>n. Inr (toBase62 n))"

section \<open>The objects of a CSV\<close>

type_synonym permissionMap = "(string \<times> OperatorPermissions) list"

definition newObject :: "GoType \<Rightarrow> string \<Rightarrow> string \<Rightarrow> OwnerReference list \<Rightarrow> (string \<times> string) list option \<Rightarrow> Object" where
  "newObject t name ns refs labels = \<lparr>Obj_Type = t, Obj_GVK = \<lparr>GVK_Group = [], GVK_Version = [], GVK_Kind = []\<rparr>,
     Obj_Name = name, Obj_Namespace = ns, Obj_UID = [], Obj_OwnerReferences = refs, Obj_Labels = labels\<rparr>"

definition contentLabels :: "Object \<Rightarrow> string \<Rightarrow> (string \<times> string) list option" where
  "contentLabels csv hash = Some (AList.update ContentHashLabelKey hash (OwnerLabel csv ''ClusterServiceVersion''))"

definition hashErr :: "string \<Rightarrow> string + 'a \<Rightarrow> string + 'a" where
  "hashErr what r = (case r of Inl e \<Rightarrow> Inl (''failed to hash '' @ what @ '': '' @ e) | Inr x \<Rightarrow> Inr x)"

text \<open>\<open>None\<close> is a panic here too.\<close>

definition roleName :: "rbacHashes \<Rightarrow> string \<Rightarrow> string \<times> string option \<times> Permission \<Rightarrow> (string + string) option" where
  "roleName H base hashed =
     (case rh_permission H hashed of
        Inl e \<Rightarrow> Some (Inl (''couldn'' @ [CHR 0x27] @ ''t encode object: '' @ e))
      | Inr n \<Rightarrow> map_option Inr (generateName base (toBase62 n)))"

definition roleAndBinding :: "rbacHashes \<Rightarrow> Object \<Rightarrow> bool \<Rightarrow> Permission \<Rightarrow> string \<Rightarrow> string + roleObject \<times> bindingObject" where
  "roleAndBinding H csv clustered p name =
     (let ns = Obj_Namespace csv;
          refs = (if clustered then [] else [NonBlockingOwner csv]);
          ref = \<lparr>RoleRef_Kind = (if clustered then ''ClusterRole'' else ''Role''), RoleRef_Name = name\<rparr>;
          subjects = [\<lparr>Subject_Kind = ''ServiceAccount'', Subject_Name = pm_ServiceAccountName p, Subject_Namespace = ns\<rparr>]
      in bind_err (hashErr ''permission rules'' (PolicyRuleHashLabelValue H (pm_Rules p))) (\<lambda>hash.
         bind_err (hashErr ''binding content'' (RoleReferenceAndSubjectHashLabelValue H ref subjects)) (\<lambda>bindingHash.
           Inr (\<lparr>ro_Meta = newObject (if clustered then T_ClusterRole else T_Role) name (if clustered then [] else ns) refs (contentLabels csv hash),
                  ro_Rules = pm_Rules p\<rparr>,
                \<lparr>bo_Meta = newObject (if clustered then T_ClusterRoleBinding else T_RoleBinding) name ns refs (contentLabels csv bindingHash),
                  bo_RoleRef = ref, bo_Subjects = subjects\<rparr>))))"

definition ensureServiceAccount :: "(string \<Rightarrow> Object) \<Rightarrow> string \<Rightarrow> permissionMap \<Rightarrow> permissionMap" where
  "ensureServiceAccount new name m =
     (case map_of m name of None \<Rightarrow> AList.update name (NewOperatorPermissions (new name)) m | Some _ \<Rightarrow> m)"

definition addTo :: "string \<Rightarrow> (OperatorPermissions \<Rightarrow> OperatorPermissions) \<Rightarrow> permissionMap \<Rightarrow> permissionMap" where
  "addTo name f m = (case map_of m name of None \<Rightarrow> m | Some o' \<Rightarrow> AList.update name (f o') m)"

definition addPermission :: "rbacHashes \<Rightarrow> Object \<Rightarrow> Permission \<Rightarrow> permissionMap \<Rightarrow> (string + permissionMap) option" where
  "addPermission H csv p m =
     (let sa = pm_ServiceAccountName p;
          m' = ensureServiceAccount (\<lambda>n. AddNonBlockingOwner (newObject T_ServiceAccount n (Obj_Namespace csv) [] None) csv) sa m
      in map_option (\<lambda>name. bind_err name (\<lambda>name. bind_err (roleAndBinding H csv False p name) (\<lambda>(role, rb).
           Inr (addTo sa (AddRoleBinding rb \<circ> AddRole role) m'))))
         (roleName H (Obj_Name csv @ ''-'' @ sa) (Obj_Name csv, None, p)))"

definition addClusterPermission :: "rbacHashes \<Rightarrow> Object \<Rightarrow> Permission \<Rightarrow> permissionMap \<Rightarrow> (string + permissionMap) option" where
  "addClusterPermission H csv p m =
     (let sa = pm_ServiceAccountName p;
          m' = ensureServiceAccount (\<lambda>n. (AddOwner (newObject T_ServiceAccount [] [] [] None) csv False False)\<lparr>Obj_Name := n\<rparr>) sa m
      in map_option (\<lambda>name. bind_err name (\<lambda>name. bind_err (roleAndBinding H csv True p name) (\<lambda>(role, rb).
           Inr (addTo sa (AddClusterRoleBinding rb \<circ> AddClusterRole role) m'))))
         (roleName H (Obj_Name csv) (Obj_Name csv, Some (Obj_Namespace csv), p)))"

fun addAll :: "(Permission \<Rightarrow> permissionMap \<Rightarrow> (string + permissionMap) option) \<Rightarrow> Permission list \<Rightarrow> permissionMap
    \<Rightarrow> (string + permissionMap) option" where
  "addAll add [] m = Some (Inr m)"
| "addAll add (p # ps) m =
     (case add p m of None \<Rightarrow> None | Some (Inl e) \<Rightarrow> Some (Inl e) | Some (Inr m') \<Rightarrow> addAll add ps m')"

record installStrategy =
  is_Name :: string
  is_Permissions :: "Permission list"
  is_ClusterPermissions :: "Permission list"

definition UnmarshalStrategy :: "installStrategy \<Rightarrow> string + installStrategy" where
  "UnmarshalStrategy s = (if is_Name s = ''deployment'' then Inr s else Inl ''unrecognized install strategy'')"

definition RBACForClusterServiceVersion :: "rbacHashes \<Rightarrow> Object \<Rightarrow> installStrategy \<Rightarrow> (string + permissionMap) option" where
  "RBACForClusterServiceVersion H csv s =
     (case UnmarshalStrategy s of
        Inl e \<Rightarrow> Some (Inl e)
      | Inr d \<Rightarrow>
          (case addAll (addPermission H csv) (is_Permissions d) [] of
             None \<Rightarrow> None
           | Some (Inl e) \<Rightarrow> Some (Inl e)
           | Some (Inr m) \<Rightarrow> addAll (addClusterPermission H csv) (is_ClusterPermissions d) m))"

section \<open>The length of a name\<close>

lemma toBase62_length: "n < 62 ^ Suc k \<Longrightarrow> length (toBase62 n) \<le> Suc k"
proof (induction k arbitrary: n)
  case (Suc k)
  then have "n div 62 < 62 ^ Suc k" by (simp add: div_less_iff_less_mult algebra_simps)
  from Suc.IH [OF this] show ?case by (subst toBase62.simps) simp
qed (simp add: toBase62.simps)

lemma sha224_length: "n < 2 ^ 224 \<Longrightarrow> length (toBase62 n) \<le> 38"
  by (rule toBase62_length [of n 37, simplified]) simp

lemma digits62_ok: "i < 62 \<Longrightarrow> digits62 ! i \<noteq> CHR ''-''" "i < 62 \<Longrightarrow> j < 62 \<Longrightarrow> digits62 ! i = digits62 ! j \<longleftrightarrow> i = j"
proof -
  have l: "length digits62 = 62" "distinct digits62" "CHR ''-'' \<notin> set digits62" by (simp_all add: digits62_def)
  show "digits62 ! i \<noteq> CHR ''-''" if "i < 62" using l that nth_mem [of i digits62] by metis
  show "digits62 ! i = digits62 ! j \<longleftrightarrow> i = j" if "i < 62" "j < 62" using l that by (simp add: nth_eq_iff_index_eq)
qed

lemma toBase62_plain: "CHR ''-'' \<notin> set (toBase62 n)"
proof (induction n rule: toBase62.induct)
  case (1 n)
  then show ?case using digits62_ok(1) [of "n mod 62"] digits62_ok(1) [of n] by (subst toBase62.simps) auto
qed

lemma toBase62_nonempty: "toBase62 n \<noteq> []"
  by (subst toBase62.simps) simp

lemma toBase62_inj: "toBase62 m = toBase62 n \<longleftrightarrow> m = n"
proof -
  have "toBase62 m = toBase62 n \<Longrightarrow> m = n"
  proof (induction m arbitrary: n rule: toBase62.induct)
    case (1 m)
    show ?case
    proof (cases "m < 62"; cases "n < 62")
      assume "m < 62" "n < 62"
      with 1(2) show ?thesis using digits62_ok(2) by (simp add: toBase62.simps [of m] toBase62.simps [of n])
    next
      assume "m < 62" "\<not> n < 62"
      with 1(2) show ?thesis using toBase62_nonempty [of "n div 62"] by (simp add: toBase62.simps [of m] toBase62.simps [of n])
    next
      assume "\<not> m < 62" "n < 62"
      with 1(2) show ?thesis using toBase62_nonempty [of "m div 62"] by (simp add: toBase62.simps [of m] toBase62.simps [of n])
    next
      assume a: "\<not> m < 62" "\<not> n < 62"
      with 1(2) have "toBase62 (m div 62) = toBase62 (n div 62)" "digits62 ! (m mod 62) = digits62 ! (n mod 62)"
        by (simp_all add: toBase62.simps [of m] toBase62.simps [of n])
      with 1(1) [OF a(1)] have "m div 62 = n div 62" "m mod 62 = n mod 62" using digits62_ok(2) by simp_all
      then show ?thesis by (metis div_mult_mod_eq)
    qed
  qed
  then show ?thesis by blast
qed

text \<open>The names generated for roles end in the whole hash and are built without a panic. They are
  at most 64 characters long, one more than the limit that the code names: that length is reached
  exactly when base and hash have 63 characters together, because the dash is not counted.\<close>

lemma generateName_length:
  assumes "n < 2 ^ 224"
  shows "\<exists>name. generateName base (toBase62 n) = Some name \<and> suffix (''-'' @ toBase62 n) name \<and> length name \<le> maxNameLength + 1
    \<and> (length name = maxNameLength + 1 \<longleftrightarrow> length base + length (toBase62 n) = maxNameLength)"
  using sha224_length [OF assms] by (auto simp: generateName_def maxNameLength_def suffix_def)

lemma generateName_length_witness: "\<exists>name. generateName (replicate 62 CHR ''a'') (toBase62 0) = Some name \<and> length name = 64"
  using generateName_length [of 0 "replicate 62 CHR ''a''"] by (auto simp: maxNameLength_def toBase62.simps)

section \<open>What the permission map holds\<close>

text \<open>The objects of one kind that the map holds for any service account.\<close>

definition parts :: "(OperatorPermissions \<Rightarrow> 'a set) \<Rightarrow> permissionMap \<Rightarrow> 'a set" where
  "parts f m = \<Union> (f ` ran (map_of m))"

lemma parts_addTo:
  assumes "map_of m name = Some o'" "f (g o') = S \<union> f o'"
  shows "parts f (addTo name g m) = S \<union> parts f m"
proof -
  let ?rest = "(map_of m)(name := None)"
  have "map_of (addTo name g m) = ?rest(name \<mapsto> g o')" "map_of m = ?rest(name \<mapsto> o')"
    using assms(1) by (auto simp: addTo_def update_conv')
  then have "ran (map_of (addTo name g m)) = insert (g o') (ran ?rest)" "ran (map_of m) = insert o' (ran ?rest)"
    by (metis fun_upd_same ran_map_upd)+
  then show ?thesis using assms(2) by (simp add: parts_def) blast
qed

lemma parts_ensure:
  assumes "\<And>x. f (NewOperatorPermissions x) = {}"
  shows "parts f (ensureServiceAccount new name m) = parts f m"
  using assms by (simp add: parts_def ensureServiceAccount_def update_conv' ran_map_upd split: option.split)

lemma map_of_ensure: "\<exists>o'. map_of (ensureServiceAccount new name m) name = Some o'"
  by (auto simp: ensureServiceAccount_def update_conv' split: option.splits)

lemma distinct_ensure: "distinct (map fst m) \<Longrightarrow> distinct (map fst (ensureServiceAccount new name m))"
  by (auto simp: ensureServiceAccount_def intro: distinct_update split: option.splits)

lemma distinct_addTo: "distinct (map fst m) \<Longrightarrow> distinct (map fst (addTo name f m))"
  by (auto simp: addTo_def intro: distinct_update split: option.splits)

abbreviation rolesIn :: "OperatorPermissions \<Rightarrow> roleObject set" where
  "rolesIn o' \<equiv> set (op_Roles o')"

abbreviation bindingsIn :: "OperatorPermissions \<Rightarrow> bindingObject set" where
  "bindingsIn o' \<equiv> set (op_RoleBindings o')"

abbreviation clusterRolesIn :: "OperatorPermissions \<Rightarrow> roleObject set" where
  "clusterRolesIn o' \<equiv> set (op_ClusterRoles o')"

abbreviation clusterBindingsIn :: "OperatorPermissions \<Rightarrow> bindingObject set" where
  "clusterBindingsIn o' \<equiv> set (op_ClusterRoleBindings o')"

text \<open>The role and the binding made for a permission.\<close>

definition hashedAs :: "Object \<Rightarrow> bool \<Rightarrow> Permission \<Rightarrow> string \<times> string option \<times> Permission" where
  "hashedAs csv clustered p = (Obj_Name csv, (if clustered then Some (Obj_Namespace csv) else None), p)"

definition made :: "rbacHashes \<Rightarrow> Object \<Rightarrow> bool \<Rightarrow> Permission \<Rightarrow> roleObject \<Rightarrow> bindingObject \<Rightarrow> bool" where
  "made H csv clustered p role rb \<longleftrightarrow> (\<exists>name.
     roleName H (if clustered then Obj_Name csv else Obj_Name csv @ ''-'' @ pm_ServiceAccountName p) (hashedAs csv clustered p) = Some (Inr name)
     \<and> roleAndBinding H csv clustered p name = Inr (role, rb))"

lemma made_fields:
  assumes "made H csv clustered p role rb"
  shows "ro_Rules role = pm_Rules p" "Obj_Namespace (ro_Meta role) = (if clustered then [] else Obj_Namespace csv)"
    "Obj_Namespace (bo_Meta rb) = Obj_Namespace csv"
    "bo_RoleRef rb = \<lparr>RoleRef_Kind = (if clustered then ''ClusterRole'' else ''Role''), RoleRef_Name = Obj_Name (ro_Meta role)\<rparr>"
    "bo_Subjects rb = [\<lparr>Subject_Kind = ''ServiceAccount'', Subject_Name = pm_ServiceAccountName p, Subject_Namespace = Obj_Namespace csv\<rparr>]"
  using assms by (auto simp: made_def roleAndBinding_def Let_def go_err newObject_def)

text \<open>Names tell permissions apart as far as their hashes do.\<close>

lemma last_dash: "a @ CHR ''-'' # x = b @ CHR ''-'' # y \<Longrightarrow> CHR ''-'' \<notin> set x \<Longrightarrow> CHR ''-'' \<notin> set y \<Longrightarrow> x = y"
  by (induction a arbitrary: b) (auto simp: Cons_eq_append_conv append_eq_Cons_conv)

lemma made_name:
  assumes "made H csv clustered p role rb" "made H csv clustered q role' rb'" "Obj_Name (ro_Meta role) = Obj_Name (ro_Meta role')"
  shows "rh_permission H (hashedAs csv clustered p) = rh_permission H (hashedAs csv clustered q)"
proof -
  have name: "\<exists>n a. rh_permission H (hashedAs csv clustered x) = Inr n \<and> Obj_Name (ro_Meta r) = a @ CHR ''-'' # toBase62 n"
    if "made H csv clustered x r b" for x r b
    using that by (auto simp: made_def roleName_def generateName_def roleAndBinding_def Let_def go_err newObject_def
        split: sum.splits if_splits)
  from name [OF assms(1)] name [OF assms(2)] assms(3) show ?thesis
    using last_dash toBase62_plain toBase62_inj by metis
qed

lemma addPermission_parts:
  assumes "addPermission H csv p m = Some (Inr m')" "distinct (map fst m)"
  obtains role rb where "made H csv False p role rb" "parts rolesIn m' = {role} \<union> parts rolesIn m"
    "parts bindingsIn m' = {rb} \<union> parts bindingsIn m" "parts clusterRolesIn m' = parts clusterRolesIn m"
    "parts clusterBindingsIn m' = parts clusterBindingsIn m" "distinct (map fst m')"
proof -
  let ?sa = "pm_ServiceAccountName p"
  let ?m = "ensureServiceAccount (\<lambda>n. AddNonBlockingOwner (newObject T_ServiceAccount n (Obj_Namespace csv) [] None) csv) ?sa m"
  obtain role rb where r: "made H csv False p role rb" "m' = addTo ?sa (AddRoleBinding rb \<circ> AddRole role) ?m"
    using assms(1) by (auto simp: addPermission_def Let_def made_def hashedAs_def go_err)
  obtain o' where o': "map_of ?m ?sa = Some o'" using map_of_ensure by blast
  note add = parts_addTo [OF o', of _ "AddRoleBinding rb \<circ> AddRole role"]
  show thesis
    by (rule that [OF r(1)])
      (simp_all add: r(2) add [where S = "{role}"] add [where S = "{rb}"] add [where S = "{}"] parts_ensure
        AddRoleBinding_def AddRole_def NewOperatorPermissions_def distinct_addTo distinct_ensure assms(2))
qed

lemma addClusterPermission_parts:
  assumes "addClusterPermission H csv p m = Some (Inr m')" "distinct (map fst m)"
  obtains role rb where "made H csv True p role rb" "parts clusterRolesIn m' = {role} \<union> parts clusterRolesIn m"
    "parts clusterBindingsIn m' = {rb} \<union> parts clusterBindingsIn m" "parts rolesIn m' = parts rolesIn m"
    "parts bindingsIn m' = parts bindingsIn m" "distinct (map fst m')"
proof -
  let ?sa = "pm_ServiceAccountName p"
  let ?m = "ensureServiceAccount (\<lambda>n. (AddOwner (newObject T_ServiceAccount [] [] [] None) csv False False)\<lparr>Obj_Name := n\<rparr>) ?sa m"
  obtain role rb where r: "made H csv True p role rb" "m' = addTo ?sa (AddClusterRoleBinding rb \<circ> AddClusterRole role) ?m"
    using assms(1) by (auto simp: addClusterPermission_def Let_def made_def hashedAs_def go_err)
  obtain o' where o': "map_of ?m ?sa = Some o'" using map_of_ensure by blast
  note add = parts_addTo [OF o', of _ "AddClusterRoleBinding rb \<circ> AddClusterRole role"]
  show thesis
    by (rule that [OF r(1)])
      (simp_all add: r(2) add [where S = "{role}"] add [where S = "{rb}"] add [where S = "{}"] parts_ensure
        AddClusterRoleBinding_def AddClusterRole_def NewOperatorPermissions_def distinct_addTo distinct_ensure assms(2))
qed

text \<open>The roles and bindings of a whole list of permissions: each permission has its pair, and
  there is nothing else.\<close>

definition allMade :: "rbacHashes \<Rightarrow> Object \<Rightarrow> bool \<Rightarrow> Permission list \<Rightarrow> roleObject set \<Rightarrow> bindingObject set \<Rightarrow> bool" where
  "allMade H csv clustered ps roles bindings \<longleftrightarrow>
     (\<forall>p \<in> set ps. \<exists>role \<in> roles. \<exists>rb \<in> bindings. made H csv clustered p role rb)
     \<and> (\<forall>role \<in> roles. \<exists>p \<in> set ps. \<exists>rb. made H csv clustered p role rb)
     \<and> (\<forall>rb \<in> bindings. \<exists>p \<in> set ps. \<exists>role \<in> roles. made H csv clustered p role rb)"

lemma allMadeD:
  assumes "allMade H csv c ps roles bindings"
  shows "p \<in> set ps \<Longrightarrow> \<exists>role rb. role \<in> roles \<and> rb \<in> bindings \<and> made H csv c p role rb"
    "role \<in> roles \<Longrightarrow> \<exists>p rb. p \<in> set ps \<and> made H csv c p role rb"
    "rb \<in> bindings \<Longrightarrow> \<exists>p role. p \<in> set ps \<and> role \<in> roles \<and> made H csv c p role rb"
  using assms unfolding allMade_def by (meson bexE)+

lemma allMade_snoc:
  assumes "allMade H csv c ps roles bindings" "made H csv c p role rb"
  shows "allMade H csv c (ps @ [p]) ({role} \<union> roles) ({rb} \<union> bindings)"
  using assms unfolding allMade_def by (simp add: ball_Un bex_Un) blast

lemma addAll_permissions:
  assumes "addAll (addPermission H csv) ps m = Some (Inr m')" "distinct (map fst m)"
    and "allMade H csv False qs (parts rolesIn m) (parts bindingsIn m)"
  shows "allMade H csv False (qs @ ps) (parts rolesIn m') (parts bindingsIn m') \<and> distinct (map fst m')
    \<and> parts clusterRolesIn m' = parts clusterRolesIn m \<and> parts clusterBindingsIn m' = parts clusterBindingsIn m"
  using assms
proof (induction ps arbitrary: m qs)
  case (Cons p ps)
  then obtain m1 where m1: "addPermission H csv p m = Some (Inr m1)" "addAll (addPermission H csv) ps m1 = Some (Inr m')"
    by (auto split: option.splits sum.splits)
  from m1(1) Cons.prems(2) obtain role rb where made: "made H csv False p role rb"
    "parts rolesIn m1 = {role} \<union> parts rolesIn m" "parts bindingsIn m1 = {rb} \<union> parts bindingsIn m"
    "parts clusterRolesIn m1 = parts clusterRolesIn m" "parts clusterBindingsIn m1 = parts clusterBindingsIn m" "distinct (map fst m1)"
    by (rule addPermission_parts)
  from allMade_snoc [OF Cons.prems(3) made(1)] Cons.IH [OF m1(2) made(6), of "qs @ [p]"] show ?case
    by (simp add: made(2-5))
qed simp

lemma addAll_clusterPermissions:
  assumes "addAll (addClusterPermission H csv) ps m = Some (Inr m')" "distinct (map fst m)"
    and "allMade H csv True qs (parts clusterRolesIn m) (parts clusterBindingsIn m)"
  shows "allMade H csv True (qs @ ps) (parts clusterRolesIn m') (parts clusterBindingsIn m') \<and> distinct (map fst m')
    \<and> parts rolesIn m' = parts rolesIn m \<and> parts bindingsIn m' = parts bindingsIn m"
  using assms
proof (induction ps arbitrary: m qs)
  case (Cons p ps)
  then obtain m1 where m1: "addClusterPermission H csv p m = Some (Inr m1)" "addAll (addClusterPermission H csv) ps m1 = Some (Inr m')"
    by (auto split: option.splits sum.splits)
  from m1(1) Cons.prems(2) obtain role rb where made: "made H csv True p role rb"
    "parts clusterRolesIn m1 = {role} \<union> parts clusterRolesIn m" "parts clusterBindingsIn m1 = {rb} \<union> parts clusterBindingsIn m"
    "parts rolesIn m1 = parts rolesIn m" "parts bindingsIn m1 = parts bindingsIn m" "distinct (map fst m1)"
    by (rule addClusterPermission_parts)
  from allMade_snoc [OF Cons.prems(3) made(1)] Cons.IH [OF m1(2) made(6), of "qs @ [p]"] show ?case
    by (simp add: made(2-5))
qed simp

lemma RBAC_parts:
  assumes "RBACForClusterServiceVersion H csv s = Some (Inr m)"
  shows "allMade H csv False (is_Permissions s) (parts rolesIn m) (parts bindingsIn m)"
    "allMade H csv True (is_ClusterPermissions s) (parts clusterRolesIn m) (parts clusterBindingsIn m)"
    "distinct (map fst m)"
proof -
  obtain m1 where m1: "addAll (addPermission H csv) (is_Permissions s) [] = Some (Inr m1)"
    "addAll (addClusterPermission H csv) (is_ClusterPermissions s) m1 = Some (Inr m)"
    using assms by (auto simp: RBACForClusterServiceVersion_def UnmarshalStrategy_def split: if_splits option.splits sum.splits)
  have none: "parts f [] = {}" for f :: "OperatorPermissions \<Rightarrow> 'x set" by (simp add: parts_def)
  have start: "allMade H csv c [] {} {}" for c by (simp add: allMade_def)
  from addAll_permissions [OF m1(1), of "[]"] start have one:
    "allMade H csv False (is_Permissions s) (parts rolesIn m1) (parts bindingsIn m1)" "distinct (map fst m1)"
    "parts clusterRolesIn m1 = {}" "parts clusterBindingsIn m1 = {}" by (simp_all add: none)
  from addAll_clusterPermissions [OF m1(2) one(2), of "[]"] one start
  show "allMade H csv False (is_Permissions s) (parts rolesIn m) (parts bindingsIn m)"
    "allMade H csv True (is_ClusterPermissions s) (parts clusterRolesIn m) (parts clusterBindingsIn m)"
    "distinct (map fst m)" by simp_all
qed

section \<open>What the objects grant\<close>

text \<open>A cluster with just these roles and bindings.\<close>

definition listed :: "(OperatorPermissions \<Rightarrow> 'a list) \<Rightarrow> permissionMap \<Rightarrow> 'a list" where
  "listed f m = concat (map (f \<circ> snd) m)"

definition storedRole :: "roleObject option \<Rightarrow> rbac_error + Role" where
  "storedRole r = (case r of None \<Rightarrow> Inl (ListerError ''not found'')
     | Some x \<Rightarrow> Inr \<lparr>Role_OwnerReferences = Obj_OwnerReferences (ro_Meta x), Role_Rules = ro_Rules x\<rparr>)"

definition storedBinding :: "bindingObject \<Rightarrow> Binding" where
  "storedBinding b = \<lparr>Binding_Name = Obj_Name (bo_Meta b), Binding_Namespace = Obj_Namespace (bo_Meta b),
     Binding_OwnerReferences = Obj_OwnerReferences (bo_Meta b), Binding_Subjects = bo_Subjects b, Binding_RoleRef = bo_RoleRef b\<rparr>"

definition installed :: "permissionMap \<Rightarrow> rule_sources" where
  "installed m =
     \<lparr>GetRole = (\<lambda>ns name. storedRole (find (\<lambda>r. Obj_Namespace (ro_Meta r) = ns \<and> Obj_Name (ro_Meta r) = name) (listed op_Roles m))),
      ListRoleBindings = (\<lambda>ns. Inr (map storedBinding (filter (\<lambda>b. Obj_Namespace (bo_Meta b) = ns) (listed op_RoleBindings m)))),
      GetClusterRole = (\<lambda>name. storedRole (find (\<lambda>r. Obj_Name (ro_Meta r) = name) (listed op_ClusterRoles m))),
      ListClusterRoleBindings = Inr (map storedBinding (listed op_ClusterRoleBindings m))\<rparr>"

lemma set_listed: "distinct (map fst m) \<Longrightarrow> set (listed f m) = parts (\<lambda>o'. set (f o')) m"
  by (auto simp: listed_def parts_def ran_distinct)

text \<open>The rules of a user are those of the bindings that apply to it.\<close>

definition bindingRules :: "rule_sources \<Rightarrow> UserInfo \<Rightarrow> string \<Rightarrow> Binding \<Rightarrow> PolicyRule set" where
  "bindingRules r u ns b =
     (if appliesTo u (Binding_Subjects b) ns = None then {}
      else case GetRoleReferenceRules r (Binding_RoleRef b) ns of Inl _ \<Rightarrow> {} | Inr rules \<Rightarrow> set rules)"

definition rulesOf :: "(describer option \<times> PolicyRule option \<times> rbac_error option) list \<Rightarrow> PolicyRule set" where
  "rulesOf es = set (List.map_filter (\<lambda>(d, x, e). x) es)"

lemma rulesOf_simps [simp]:
  "rulesOf [] = {}" "rulesOf (es @ es') = rulesOf es \<union> rulesOf es'" "rulesOf (concat ess) = \<Union> (rulesOf ` set ess)"
  "rulesOf (map (\<lambda>x. (d, Some x, e)) xs) = set xs" "rulesOf [(d, None, e)] = {}"
proof -
  show app: "rulesOf (es @ es') = rulesOf es \<union> rulesOf es'" for es es' by (simp add: rulesOf_def List.map_filter_def)
  show nil: "rulesOf [] = {}" by (simp add: rulesOf_def List.map_filter_def)
  show "rulesOf (concat ess) = \<Union> (rulesOf ` set ess)" by (induction ess) (simp_all add: app nil)
qed (simp_all add: rulesOf_def List.map_filter_def comp_def)

lemma bindingEvents_rules: "rulesOf (bindingEvents r u ns desc b) = bindingRules r u ns b"
  by (simp add: bindingEvents_def bindingRules_def split: option.split sum.split)

lemma RulesFor_bindings:
  assumes "ListClusterRoleBindings r = Inr cbs" "ListRoleBindings r ns = Inr bs"
  shows "set (fst (RulesFor r u ns)) =
    (\<Union>b \<in> set cbs. bindingRules r u [] b) \<union> (if ns = [] then {} else \<Union>b \<in> set bs. bindingRules r u ns b)"
proof -
  have "set (fst (RulesFor r u ns)) = rulesOf (ruleEvents r u ns)" by (simp add: RulesFor_events rulesOf_def)
  then show ?thesis by (simp add: ruleEvents_def assms bindingEvents_rules)
qed

abbreviation account :: "string \<Rightarrow> string \<Rightarrow> string \<Rightarrow> UserInfo" where
  "account ns sa uid \<equiv> toDefaultInfo \<lparr>SA_Namespace = ns, SA_Name = sa, SA_UID = uid\<rparr>"

lemma MatchesUsername_account: "MatchesUsername ns name (UserName (account ns sa uid)) \<longleftrightarrow> name = sa"
  by (auto simp: MatchesUsername_def toDefaultInfo_def MakeUsername_def HasPrefix_iff_prefix Let_def)

text \<open>The rules a binding of the map grants are those of its permission, if it is for the account.\<close>

definition trueToNames :: "rbacHashes \<Rightarrow> Object \<Rightarrow> bool \<Rightarrow> Permission list \<Rightarrow> bool" where
  "trueToNames H csv clustered ps \<longleftrightarrow> (\<forall>p \<in> set ps. \<forall>q \<in> set ps.
     rh_permission H (hashedAs csv clustered p) = rh_permission H (hashedAs csv clustered q) \<longrightarrow> pm_Rules p = pm_Rules q)"

lemma storedRole_found:
  assumes "\<And>r. r \<in> set roles \<Longrightarrow> P r \<Longrightarrow> ro_Rules r = rules" "role \<in> set roles" "P role"
  shows "\<exists>refs. storedRole (find P roles) = Inr \<lparr>Role_OwnerReferences = refs, Role_Rules = rules\<rparr>"
proof -
  obtain x where "find P roles = Some x" using assms(2,3) by (cases "find P roles") (auto simp: find_None_iff)
  moreover from this have "ro_Rules x = rules" using assms(1) [of x] by (auto simp: find_Some_iff)
  ultimately show ?thesis by (simp add: storedRole_def)
qed

lemma installed_binding:
  assumes all: "allMade H csv c ps roles bindings" and true: "trueToNames H csv c ps" and ns: "Obj_Namespace csv \<noteq> []"
    and roles: "roles = set (listed (if c then op_ClusterRoles else op_Roles) m)"
    and made: "made H csv c p role rb" "p \<in> set ps" "role \<in> roles"
  shows "bindingRules (installed m) (account (Obj_Namespace csv) sa uid) (if c then [] else Obj_Namespace csv) (storedBinding rb) =
    (if pm_ServiceAccountName p = sa then set (pm_Rules p) else {})"
proof -
  note f = made_fields [OF made(1)]
  have same: "ro_Rules r = pm_Rules p" if r: "r \<in> roles" "Obj_Name (ro_Meta r) = Obj_Name (ro_Meta role)" for r
  proof -
    obtain q rb' where q: "q \<in> set ps" "made H csv c q r rb'" using allMadeD(2) [OF all r(1)] by auto
    have "pm_Rules q = pm_Rules p"
      by (rule true [unfolded trueToNames_def, rule_format, OF q(1) made(2) made_name [OF q(2) made(1) r(2)]])
    then show ?thesis using made_fields(1) [OF q(2)] by simp
  qed
  have "GetRoleReferenceRules (installed m) (bo_RoleRef rb) (if c then [] else Obj_Namespace csv) = Inr (pm_Rules p)"
  proof (cases c)
    case True
    have "\<exists>refs. storedRole (find (\<lambda>r. Obj_Name (ro_Meta r) = Obj_Name (ro_Meta role)) (listed op_ClusterRoles m)) =
        Inr \<lparr>Role_OwnerReferences = refs, Role_Rules = pm_Rules p\<rparr>"
      by (rule storedRole_found [where role = role]) (use True roles same made(3) in auto)
    then show ?thesis using True f(4) by (auto simp: GetRoleReferenceRules_def installed_def)
  next
    case False
    have "\<exists>refs. storedRole (find (\<lambda>r. Obj_Namespace (ro_Meta r) = Obj_Namespace csv \<and> Obj_Name (ro_Meta r) = Obj_Name (ro_Meta role))
        (listed op_Roles m)) = Inr \<lparr>Role_OwnerReferences = refs, Role_Rules = pm_Rules p\<rparr>"
      by (rule storedRole_found [where role = role]) (use False roles same made(3) f(2) in auto)
    then show ?thesis using False f(4) by (auto simp: GetRoleReferenceRules_def installed_def)
  qed
  then show ?thesis
    using f(5) ns by (simp add: bindingRules_def storedBinding_def appliesToUser_def MatchesUsername_account)
qed

lemma installed_rules:
  assumes all: "allMade H csv c ps roles (set bindings)" and true: "trueToNames H csv c ps" and ns: "Obj_Namespace csv \<noteq> []"
    and roles: "roles = set (listed (if c then op_ClusterRoles else op_Roles) m)"
  shows "(\<Union>b \<in> set (map storedBinding bindings).
      bindingRules (installed m) (account (Obj_Namespace csv) sa uid) (if c then [] else Obj_Namespace csv) b) =
    (\<Union>p \<in> {p \<in> set ps. pm_ServiceAccountName p = sa}. set (pm_Rules p))"
    (is "?granted = ?asked")
proof
  show "?granted \<subseteq> ?asked"
  proof
    fix w
    assume "w \<in> ?granted"
    then obtain rb where rb: "rb \<in> set bindings" "w \<in> bindingRules (installed m) (account (Obj_Namespace csv) sa uid)
        (if c then [] else Obj_Namespace csv) (storedBinding rb)" by auto
    from allMadeD(3) [OF all rb(1)] obtain p role where p: "p \<in> set ps" "role \<in> roles" "made H csv c p role rb" by auto
    from rb(2) installed_binding [OF all true ns roles p(3,1,2)] p(1) show "w \<in> ?asked" by (auto split: if_splits)
  qed
  show "?asked \<subseteq> ?granted"
  proof
    fix w
    assume "w \<in> ?asked"
    then obtain p where p: "p \<in> set ps" "pm_ServiceAccountName p = sa" "w \<in> set (pm_Rules p)" by auto
    from allMadeD(1) [OF all p(1)] obtain role rb where r: "role \<in> roles" "rb \<in> set bindings" "made H csv c p role rb" by auto
    have "w \<in> bindingRules (installed m) (account (Obj_Namespace csv) sa uid) (if c then [] else Obj_Namespace csv) (storedBinding rb)"
      using installed_binding [OF all true ns roles r(3) p(1) r(1), of sa uid] p(2,3) by simp
    with r(2) show "w \<in> ?granted" by (intro UN_I) simp_all
  qed
qed

text \<open>C11. In a cluster with exactly the service accounts, roles and bindings that OLM makes for a CSV, the
  authorizer allows a service account of the CSV's namespace a request exactly if a cluster
  permission of the CSV for that account allows it, or a permission does and the request is for the
  CSV's namespace: the operator gets what it asked for and nothing else. The hypotheses
  \<open>trueToNames\<close> say that the hashes of permissions with different rules differ.\<close>

theorem RBAC_grants_exactly:
  assumes "RBACForClusterServiceVersion H csv s = Some (Inr m)" "Obj_Namespace csv \<noteq> []"
    and "trueToNames H csv False (is_Permissions s)" "trueToNames H csv True (is_ClusterPermissions s)"
    and "GetUser a = account (Obj_Namespace csv) sa uid"
  shows "fst (Authorize (installed m) a) = DecisionAllow \<longleftrightarrow>
    (\<exists>p \<in> set (is_ClusterPermissions s). pm_ServiceAccountName p = sa \<and> RulesAllow a (pm_Rules p))
    \<or> GetNamespace a = Obj_Namespace csv \<and> (\<exists>p \<in> set (is_Permissions s). pm_ServiceAccountName p = sa \<and> RulesAllow a (pm_Rules p))"
proof -
  note parts = RBAC_parts [OF assms(1)]
  note sets = set_listed [OF parts(3)]
  let ?ns = "GetNamespace a" and ?csv = "Obj_Namespace csv"
  let ?bs = "filter (\<lambda>b. Obj_Namespace (bo_Meta b) = ?ns) (listed op_RoleBindings m)"
  have bs: "?bs = (if ?ns = ?csv then listed op_RoleBindings m else [])"
  proof -
    have "Obj_Namespace (bo_Meta b) = ?csv" if "b \<in> set (listed op_RoleBindings m)" for b
      using that allMadeD(3) [OF parts(1), of b] made_fields(3) [of H csv False] by (auto simp: sets)
    then show ?thesis by (auto simp: filter_empty_conv filter_id_conv)
  qed
  have cluster: "(\<Union>b \<in> set (map storedBinding (listed op_ClusterRoleBindings m)). bindingRules (installed m) (account ?csv sa uid) [] b) =
      (\<Union>p \<in> {p \<in> set (is_ClusterPermissions s). pm_ServiceAccountName p = sa}. set (pm_Rules p))"
    using installed_rules [OF parts(2) [folded sets] assms(4,2), of m sa uid] by (simp only: if_True)
  have own: "(\<Union>b \<in> set (map storedBinding (listed op_RoleBindings m)). bindingRules (installed m) (account ?csv sa uid) ?csv b) =
      (\<Union>p \<in> {p \<in> set (is_Permissions s). pm_ServiceAccountName p = sa}. set (pm_Rules p))"
    using installed_rules [OF parts(1) [folded sets] assms(3,2), of m sa uid] by (simp only: if_False)
  have "set (fst (RulesFor (installed m) (GetUser a) ?ns)) =
      (\<Union>p \<in> {p \<in> set (is_ClusterPermissions s). pm_ServiceAccountName p = sa}. set (pm_Rules p))
      \<union> (if ?ns = ?csv then \<Union>p \<in> {p \<in> set (is_Permissions s). pm_ServiceAccountName p = sa}. set (pm_Rules p) else {})"
  proof -
    have "ListClusterRoleBindings (installed m) = Inr (map storedBinding (listed op_ClusterRoleBindings m))"
      "ListRoleBindings (installed m) ?ns = Inr (map storedBinding ?bs)" by (simp_all add: installed_def)
    note rules = RulesFor_bindings [OF this, of "GetUser a", unfolded assms(5) cluster bs]
    show ?thesis unfolding assms(5) rules using own assms(2) by (cases "?ns = ?csv") simp_all
  qed
  then show ?thesis unfolding Authorize_allow RulesAllow_iff by (auto split: if_splits)
qed

definition demoHashes :: rbacHashes where
  "demoHashes = \<lparr>rh_permission = (\<lambda>(name, ns, p). Inr (length (pm_Rules p))), rh_rules = (\<lambda>rules. Inr (length rules)), rh_binding = (\<lambda>b. Inr 7)\<rparr>"

definition demoStrategy :: installStrategy where
  "demoStrategy = \<lparr>is_Name = ''deployment'', is_Permissions = [\<lparr>pm_ServiceAccountName = ''op'', pm_Rules =
     [\<lparr>Verbs = [''get''], APIGroups = [''apps''], Resources = [''deployments''], ResourceNames = [], NonResourceURLs = []\<rparr>]\<rparr>],
     is_ClusterPermissions = []\<rparr>"

abbreviation demoCSVObject :: Object where
  "demoCSVObject \<equiv> newObject T_ClusterServiceVersion ''a.v1'' ''ns'' [] None"

definition demoRequest :: "string \<Rightarrow> Attributes" where
  "demoRequest ns = attributesRecord (account ''ns'' ''op'' ''1'') ns ''get'' ''apps'' ''deployments'' ''d'' []"

theorem RBAC_grants_exactly_witness:
  "case RBACForClusterServiceVersion demoHashes demoCSVObject demoStrategy of
     Some (Inr m) \<Rightarrow> fst (Authorize (installed m) (demoRequest ''ns'')) = DecisionAllow
   | _ \<Rightarrow> False"
proof -
  have "case RBACForClusterServiceVersion demoHashes demoCSVObject demoStrategy of Some (Inr m) \<Rightarrow> True | _ \<Rightarrow> False" by code_simp
  then obtain m where m: "RBACForClusterServiceVersion demoHashes demoCSVObject demoStrategy = Some (Inr m)"
    by (auto split: option.splits sum.splits)
  have t: "trueToNames demoHashes demoCSVObject c (is_Permissions demoStrategy)" "trueToNames demoHashes demoCSVObject c []" for c
    by (simp_all add: trueToNames_def demoStrategy_def)
  have "\<exists>p \<in> set (is_Permissions demoStrategy). pm_ServiceAccountName p = ''op'' \<and> RulesAllow (demoRequest ''ns'') (pm_Rules p)"
    by code_simp
  moreover have "GetUser (demoRequest ''ns'') = account ''ns'' ''op'' ''1''" "GetNamespace (demoRequest ''ns'') = ''ns''"
    "is_ClusterPermissions demoStrategy = []" "Obj_Namespace demoCSVObject = ''ns''" by code_simp+
  ultimately show ?thesis
    using RBAC_grants_exactly [OF m _ t(1), of "demoRequest ''ns''" "''op''" "''1''"] t(2) m by simp
qed

end
