(* ===== verification/Resolve_Steps.thy ===== *)
theory Resolve_Steps
  imports Resolve Operator_Permissions Install_Plan Fail_Forward
begin

text \<open>
  From a resolution to the steps of an InstallPlan: \<open>resolver/steps.go\<close>, \<open>ResolveSteps\<close> in
  \<open>resolver/step_resolver.go\<close> and \<open>OrderSteps\<close> of the API. The decoders and encoders of manifests
  are parameters. A step resource is a step of which neither the resolving CSV nor the status is
  set. The value \<open>None\<close> is a panic or a resolution that does not return.
\<close>

section \<open>Resources as steps\<close>

record csvDocument =
  cd_APIVersion :: string
  cd_Kind :: string
  cd_Meta :: Object
  cd_Annotations :: "(string \<times> string) list"
  cd_Replaces :: string
  cd_Strategy :: installStrategy

datatype content = csvContent csvDocument | subscriptionContent Subscription Approval | accountContent
  | roleContent "PolicyRule list" | bindingContent RoleRef "Subject list" | otherContent string

record stepObject =
  so_Meta :: Object
  so_GenerateName :: string
  so_Content :: content

record api_bundle =
  bn_CsvName :: string
  bn_CsvJson :: string
  bn_Objects :: "string list"
  bn_Properties :: "Property list"

record codecs =
  k_decodeCSV :: "string \<Rightarrow> string + csvDocument"
  k_decodeObject :: "string \<Rightarrow> string + stepObject"
  k_encode :: "stepObject \<Rightarrow> string + string"
  k_properties :: "Property list \<Rightarrow> string + string"
  k_hashes :: rbacHashes
  k_order :: "permissionMap \<Rightarrow> permissionMap"

datatype step_error = FatalError string | stepError string

fun stepErrorText :: "step_error \<Rightarrow> string" where
  "stepErrorText (FatalError t) = t"
| "stepErrorText (stepError t) = t"

fun IsFatal :: "step_error \<Rightarrow> bool" where
  "IsFatal (FatalError t) = True"
| "IsFatal (stepError t) = False"

definition failed :: "string + 'a \<Rightarrow> step_error + 'a" where
  "failed r = (case r of Inl e \<Rightarrow> Inl (stepError e) | Inr x \<Rightarrow> Inr x)"

definition NewStepResourceFromObject :: "codecs \<Rightarrow> stepObject \<Rightarrow> string \<Rightarrow> string \<Rightarrow> step_error + Step" where
  "NewStepResourceFromObject K obj catalogSourceName catalogSourceNamespace =
     bind_err (failed (k_encode K obj)) (\<lambda>manifest.
       case InferGroupVersionKind (so_Meta obj) of
         (False, _) \<Rightarrow> Inl (stepError ''object is not a known type'')
       | (True, meta) \<Rightarrow>
           let gvk = Obj_GVK meta;
               name = (if Obj_Name meta = [] then so_GenerateName obj else Obj_Name meta)
           in Inr \<lparr>st_Resolving = [], st_Kind = (if GVK_Kind gvk = ''Secret'' then ''BundleSecret'' else GVK_Kind gvk),
                   st_Name = name, st_Group = GVK_Group gvk, st_Version = GVK_Version gvk,
                   st_CatalogSource = catalogSourceName, st_CatalogSourceNamespace = catalogSourceNamespace,
                   st_Manifest = manifest, st_Status = StepStatusUnknown\<rparr>)"

definition NewSubscriptionStepResource :: "codecs \<Rightarrow> string \<Rightarrow> OperatorSourceInfo \<Rightarrow> step_error + Step" where
  "NewSubscriptionStepResource K namespace info =
     (let cat = SI_Catalog info;
          name = Join [SI_Package info, SI_Channel info, SK_Name cat, SK_Namespace cat] ''-''
      in NewStepResourceFromObject K
           \<lparr>so_Meta = newObject T_Subscription name namespace [] None, so_GenerateName = [],
            so_Content = subscriptionContent \<lparr>sub_Name = name, sub_Namespace = namespace, sub_CatalogSource = SK_Name cat,
              sub_CatalogSourceNamespace = SK_Namespace cat, sub_Package = SI_Package info, sub_Channel = SI_Channel info,
              sub_StartingCSV = SI_StartingCSV info, sub_InstalledCSV = []\<rparr> ApprovalAutomatic\<rparr>
           (SK_Name cat) (SK_Namespace cat))"

definition accountObject :: "Object \<Rightarrow> stepObject" where
  "accountObject meta = \<lparr>so_Meta = meta, so_GenerateName = [], so_Content = accountContent\<rparr>"

definition roleStepObject :: "roleObject \<Rightarrow> stepObject" where
  "roleStepObject r = \<lparr>so_Meta = ro_Meta r, so_GenerateName = [], so_Content = roleContent (ro_Rules r)\<rparr>"

definition bindingStepObject :: "bindingObject \<Rightarrow> stepObject" where
  "bindingStepObject b = \<lparr>so_Meta = bo_Meta b, so_GenerateName = [], so_Content = bindingContent (bo_RoleRef b) (bo_Subjects b)\<rparr>"

definition permissionObjects :: "OperatorPermissions \<Rightarrow> stepObject list" where
  "permissionObjects perms =
     (if Obj_Name (op_ServiceAccount perms) \<noteq> ''default'' then [accountObject (op_ServiceAccount perms)] else [])
     @ map roleStepObject (op_Roles perms) @ map bindingStepObject (op_RoleBindings perms)
     @ map roleStepObject (op_ClusterRoles perms) @ map bindingStepObject (op_ClusterRoleBindings perms)"

definition NewServiceAccountStepResources :: "codecs \<Rightarrow> csvDocument \<Rightarrow> string \<Rightarrow> string \<Rightarrow> (step_error + Step list) option" where
  "NewServiceAccountStepResources K csv cat catNs =
     map_option (\<lambda>r. bind_err (failed r) (\<lambda>m.
         map_err (\<lambda>obj. NewStepResourceFromObject K obj cat catNs) (concat (map (permissionObjects \<circ> snd) (k_order K m)))))
       (RBACForClusterServiceVersion (k_hashes K) (cd_Meta csv) (cd_Strategy csv))"

text \<open>An object of the bundle; the CSV itself is left out.\<close>

definition objectStep :: "codecs \<Rightarrow> string \<Rightarrow> string \<Rightarrow> string \<Rightarrow> step_error + Step list" where
  "objectStep K cat catNs raw =
     bind_err (failed (k_decodeObject K raw)) (\<lambda>unst.
       if GVK_Kind (Obj_GVK (so_Meta unst)) = ''ClusterServiceVersion'' then Inr []
       else bind_err (NewStepResourceFromObject K unst cat catNs) (\<lambda>step. Inr [step]))"

definition csvForStep :: "codecs \<Rightarrow> api_bundle \<Rightarrow> string \<Rightarrow> string \<Rightarrow> step_error + csvDocument" where
  "csvForStep K b namespace replaces =
     bind_err (failed (k_decodeCSV K (bn_CsvJson b))) (\<lambda>csv.
       if cd_APIVersion csv = [] then Inl (FatalError (''bundle CSV '' @ Obj_Name (cd_Meta csv) @ '' missing APIVersion''))
       else if cd_Kind csv = [] then Inl (FatalError (''bundle CSV '' @ Obj_Name (cd_Meta csv) @ '' missing Kind''))
       else case k_properties K (bn_Properties b) of
         Inl e \<Rightarrow> Inl (stepError (''failed to construct properties annotation for '' @ quoted (Obj_Name (cd_Meta csv)) @ '': '' @ e))
       | Inr anno \<Rightarrow>
           Inr (csv\<lparr>cd_Meta := (cd_Meta csv)\<lparr>Obj_Namespace := namespace\<rparr>, cd_Replaces := replaces,
                    cd_Annotations := AList.update ''operatorframework.io/properties'' anno (cd_Annotations csv)\<rparr>))"

definition NewStepResourceFromBundle :: "codecs \<Rightarrow> api_bundle \<Rightarrow> string \<Rightarrow> string \<Rightarrow> string \<Rightarrow> string \<Rightarrow> (step_error + Step list) option" where
  "NewStepResourceFromBundle K b namespace replaces cat catNs =
     (case bind_err (csvForStep K b namespace replaces) (\<lambda>csv.
             bind_err (NewStepResourceFromObject K \<lparr>so_Meta = cd_Meta csv, so_GenerateName = [], so_Content = csvContent csv\<rparr> cat catNs) (\<lambda>step.
             bind_err (map_err (objectStep K cat catNs) (bn_Objects b)) (\<lambda>objects.
               Inr (csv, step # concat objects)))) of
        Inl e \<Rightarrow> Some (Inl e)
      | Inr (csv, steps) \<Rightarrow>
          map_option (\<lambda>r. bind_err r (\<lambda>rbac. Inr (steps @ rbac))) (NewServiceAccountStepResources K csv cat catNs))"

definition NewStepsFromBundle :: "codecs \<Rightarrow> api_bundle \<Rightarrow> string \<Rightarrow> string \<Rightarrow> string \<Rightarrow> string \<Rightarrow> (step_error + Step list) option" where
  "NewStepsFromBundle K b namespace replaces cat catNs =
     map_option (\<lambda>r. bind_err r (\<lambda>steps. Inr (map (\<lambda>s. s\<lparr>st_Resolving := bn_CsvName b, st_Status := StepStatusUnknown\<rparr>) steps)))
       (NewStepResourceFromBundle K b namespace replaces cat catNs)"

section \<open>The order of steps\<close>

fun sortSteps :: "Step list \<Rightarrow> Step list \<times> Step list \<times> Step list \<Rightarrow> Step list \<times> Step list \<times> Step list" where
  "sortSteps [] acc = acc"
| "sortSteps (step # steps) (csvList, crdList, others) =
     sortSteps steps
       (if st_Kind step = ''CustomResourceDefinition'' then (csvList, crdList @ [step], others)
        else if st_Kind step = ''ClusterServiceVersion'' then (csvList @ [step], crdList, others)
        else (csvList, crdList, others @ [step]))"

definition OrderSteps :: "Step list \<Rightarrow> Step list" where
  "OrderSteps steps = (case sortSteps steps ([], [], []) of (csvList, crdList, others) \<Rightarrow> csvList @ crdList @ others)"

section \<open>Subscriptions with their status\<close>

datatype SubscriptionState = SubscriptionStateNone | SubscriptionStateFailed | SubscriptionStateUpgradeAvailable
  | SubscriptionStateUpgradePending | SubscriptionStateAtLatest

record SubscriptionCondition =
  sc_Type :: string
  sc_Status :: ConditionStatus
  sc_Reason :: string
  sc_Message :: string

text \<open>A reference to an InstallPlan is its name: plan and subscription share the namespace.\<close>

record Sub = Subscription +
  sb_GeneratedBy :: "string option"
  sb_Approval :: Approval
  sb_CurrentCSV :: string
  sb_Install :: "string option"
  sb_State :: SubscriptionState
  sb_InstallPlanRef :: "string option"
  sb_InstallPlanGeneration :: int
  sb_Conditions :: "SubscriptionCondition list"
  sb_LastUpdated :: nat

record nsGroup =
  ng_Strategy :: UpgradeStrategy
  ng_Annotations :: "(string \<times> string) list"

section \<open>ResolveSteps\<close>

record resolve_world =
  rw_subs :: "string + Sub list"
  rw_groups :: "string + nsGroup list"
  rw_global :: string
  rw_cache :: "string list \<Rightarrow> snapshots"
  rw_csv :: "string \<Rightarrow> string \<Rightarrow> api_error option"
  rw_bundle :: "Entry \<Rightarrow> api_bundle option"
  rw_order :: "(nat \<times> bool) list \<Rightarrow> (nat \<times> bool) list"
  rw_codecs :: codecs

datatype steps_error = resolverError rerror | stepsError string

definition hasExistingCurrentCSV :: "resolve_world \<Rightarrow> Sub \<Rightarrow> string + bool" where
  "hasExistingCurrentCSV W sub =
     (if sb_CurrentCSV sub = [] then Inr False
      else case rw_csv W (sub_Namespace sub) (sb_CurrentCSV sub) of
             None \<Rightarrow> Inr True
           | Some (apiNotFound _) \<Rightarrow> Inr False
           | Some e \<Rightarrow> Inl (apiErrorText e))"

definition resolvesTo :: "Sub \<Rightarrow> OperatorSourceInfo \<Rightarrow> bool" where
  "resolvesTo sub info \<longleftrightarrow>
     sub_Package sub = SI_Package info
     \<and> (sub_Channel sub = [] \<or> sub_Channel sub = SI_Channel info)
     \<and> (let key = subCatalog (Subscription.truncate sub) in SourceKey_Empty key \<or> key = SI_Catalog info)"

fun existingSubscriptions :: "resolve_world \<Rightarrow> OperatorSourceInfo \<Rightarrow> (nat \<times> Sub) list \<Rightarrow> steps_error + (nat \<times> bool) list" where
  "existingSubscriptions W info [] = Inr []"
| "existingSubscriptions W info ((i, sub) # subs) =
     (if \<not> resolvesTo sub info then existingSubscriptions W info subs
      else case hasExistingCurrentCSV W sub of
             Inl _ \<Rightarrow> Inl (stepsError (''unable to determine whether subscription '' @ sub_Name sub @ '' has a preexisting CSV''))
           | Inr exists \<Rightarrow> bind_err (existingSubscriptions W info subs) (\<lambda>es. Inr ((i, exists) # es)))"

definition bundleLookupFor :: "Entry \<Rightarrow> OperatorSourceInfo \<Rightarrow> string \<Rightarrow> BundleLookup" where
  "bundleLookupFor op info anno = \<lparr>bl_Path = E_BundlePath op, bl_Identifier = E_Name op, bl_Replaces = E_Replaces op,
     bl_CatalogSource = (SK_Namespace (SI_Catalog info), SK_Name (SI_Catalog info)),
     bl_Conditions = [\<lparr>bc_Type = ''BundleLookupNotPersisted'', bc_Status = ConditionTrue, bc_Reason = ''BundleNotUnpacked'',
                        bc_Message = ''bundle contents have not yet been persisted to installplan status''\<rparr>,
                      \<lparr>bc_Type = ''BundleLookupPending'', bc_Status = ConditionTrue, bc_Reason = ''JobNotStarted'',
                        bc_Message = ''unpack job not yet started''\<rparr>],
     bl_Properties = anno\<rparr>"

record resolved =
  rv_subs :: "Sub list"
  rv_steps :: "Step list"
  rv_lookups :: "BundleLookup list"
  rv_updated :: "nat list"

definition bundleStepsFor :: "resolve_world \<Rightarrow> string \<Rightarrow> Entry \<Rightarrow> OperatorSourceInfo
    \<Rightarrow> (steps_error + Step list \<times> BundleLookup list) option" where
  "bundleStepsFor W namespace op info =
     (case rw_bundle W op of
        Some b \<Rightarrow>
          map_option (\<lambda>r. case r of Inl e \<Rightarrow> Inl (stepsError (''failed to turn bundle into steps: '' @ stepErrorText e)) | Inr steps \<Rightarrow> Inr (steps, []))
            (NewStepsFromBundle (rw_codecs W) b namespace (E_Replaces op) (SK_Name (SI_Catalog info)) (SK_Namespace (SI_Catalog info)))
      | None \<Rightarrow>
          Some (case k_properties (rw_codecs W) (E_Properties op) of
                  Inl e \<Rightarrow> Inl (stepsError (''failed to serialize operator properties for '' @ quoted (E_Name op) @ '': '' @ e))
                | Inr anno \<Rightarrow> Inr ([], [bundleLookupFor op info anno])))"

definition subscriptionStepFor :: "resolve_world \<Rightarrow> string \<Rightarrow> Entry \<Rightarrow> OperatorSourceInfo \<Rightarrow> steps_error + Step list" where
  "subscriptionStepFor W namespace op info =
     (case NewSubscriptionStepResource (rw_codecs W) namespace (info\<lparr>SI_StartingCSV := E_Name op\<rparr>) of
        Inl e \<Rightarrow> Inl (stepsError (stepErrorText e))
      | Inr step \<Rightarrow> Inr [step\<lparr>st_Resolving := E_Name op, st_Status := StepStatusUnknown\<rparr>])"

text \<open>The status of a subscription is changed in place, so later operators see it.\<close>

definition moveTo :: "string \<Rightarrow> nat \<Rightarrow> resolved \<Rightarrow> resolved" where
  "moveTo name i st =
     (if sb_CurrentCSV (rv_subs st ! i) = name then st
      else st\<lparr>rv_subs := (rv_subs st)[i := (rv_subs st ! i)\<lparr>sb_CurrentCSV := name\<rparr>], rv_updated := rv_updated st @ [i]\<rparr>)"

definition stepsForOperator :: "resolve_world \<Rightarrow> string \<Rightarrow> Entry \<Rightarrow> resolved \<Rightarrow> (steps_error + resolved) option" where
  "stepsForOperator W namespace op st =
     (case E_SourceInfo op of
        None \<Rightarrow> None
      | Some info \<Rightarrow>
          (case existingSubscriptions W info (enumerate 0 (rv_subs st)) of
             Inl e \<Rightarrow> Some (Inl e)
           | Inr existing \<Rightarrow>
               if existing \<noteq> [] \<and> list_all (\<lambda>(i, exists). exists \<and> sb_CurrentCSV (rv_subs st ! i) = E_Name op) existing
               then Some (Inr st)
               else map_option (\<lambda>r.
                   bind_err r (\<lambda>(steps, lookups).
                   bind_err (if existing = [] then subscriptionStepFor W namespace op info else Inr []) (\<lambda>subSteps.
                     Inr (fold (moveTo (E_Name op)) (map fst (rw_order W existing))
                       (st\<lparr>rv_steps := rv_steps st @ steps @ subSteps, rv_lookups := rv_lookups st @ lookups\<rparr>)))))
                 (bundleStepsFor W namespace op info)))"

fun stepsForOperators :: "resolve_world \<Rightarrow> string \<Rightarrow> Entry list \<Rightarrow> resolved \<Rightarrow> (steps_error + resolved) option" where
  "stepsForOperators W namespace [] st = Some (Inr st)"
| "stepsForOperators W namespace (op # ops) st =
     (case stepsForOperator W namespace op st of
        None \<Rightarrow> None
      | Some (Inl e) \<Rightarrow> Some (Inl e)
      | Some (Inr st') \<Rightarrow> stepsForOperators W namespace ops st')"

definition exclusionAnnotation :: string where
  "exclusionAnnotation = ''olm.operatorframework.io/exclude-global-namespace-resolution''"

definition resolutionNamespaces :: "resolve_world \<Rightarrow> string \<Rightarrow> nsGroup \<Rightarrow> string list" where
  "resolutionNamespaces W namespace og =
     (if map_of (ng_Annotations og) exclusionAnnotation = Some ''true'' then [namespace] else [namespace, rw_global W])"

definition ResolveSteps :: "env \<Rightarrow> mapOrders \<Rightarrow> ('c, 's, 'k) gini \<Rightarrow> 's \<Rightarrow> resolve_world \<Rightarrow> string
    \<Rightarrow> (steps_error + Step list \<times> BundleLookup list \<times> Sub list) option" where
  "ResolveSteps E R G s0 W namespace =
     (case rw_subs W of
        Inl e \<Rightarrow> Some (Inl (stepsError e))
      | Inr subs \<Rightarrow>
          (case rw_groups W of
             Inl e \<Rightarrow> Some (Inl (stepsError (''listing operatorgroups in namespace '' @ namespace @ '': '' @ e)))
           | Inr ogs \<Rightarrow>
               if length ogs \<noteq> 1
               then Some (Inl (stepsError (''expected 1 OperatorGroup in the namespace, found '' @ showNat (length ogs))))
               else let namespaces = resolutionNamespaces W namespace (ogs ! 0)
                    in (case Resolve E R (rw_cache W namespaces) G s0 namespaces (map Subscription.truncate subs) of
                          None \<Rightarrow> None
                        | Some (Inl e) \<Rightarrow> Some (Inl (resolverError e))
                        | Some (Inr operators) \<Rightarrow>
                            map_option (\<lambda>r. bind_err r (\<lambda>st.
                                Inr (OrderSteps (rv_steps st), rv_lookups st, map (\<lambda>i. rv_subs st ! i) (rv_updated st))))
                              (stepsForOperators W namespace operators
                                \<lparr>rv_subs = subs, rv_steps = [], rv_lookups = [], rv_updated = []\<rparr>))))"

section \<open>Steps are ordered\<close>

definition stepRank :: "Step \<Rightarrow> nat" where
  "stepRank step = (if st_Kind step = ''ClusterServiceVersion'' then 0 else if st_Kind step = ''CustomResourceDefinition'' then 1 else 2)"

lemma sortSteps_filter:
  "sortSteps steps (a, b, c) =
     (a @ filter (\<lambda>s. stepRank s = 0) steps, b @ filter (\<lambda>s. stepRank s = 1) steps, c @ filter (\<lambda>s. stepRank s = 2) steps)"
  by (induction steps arbitrary: a b c) (auto simp: stepRank_def)

lemma OrderSteps_filter:
  "OrderSteps steps = filter (\<lambda>s. stepRank s = 0) steps @ filter (\<lambda>s. stepRank s = 1) steps @ filter (\<lambda>s. stepRank s = 2) steps"
  by (simp add: OrderSteps_def sortSteps_filter)

text \<open>CSVs come first, CRDs second, and nothing is lost or swapped otherwise.\<close>

lemma OrderSteps_stable:
  "mset (OrderSteps steps) = mset steps" "sorted (map stepRank (OrderSteps steps))"
  "filter (\<lambda>s. stepRank s = k) (OrderSteps steps) = filter (\<lambda>s. stepRank s = k) steps"
proof -
  have rank: "stepRank s = 0 \<or> stepRank s = 1 \<or> stepRank s = 2" for s by (simp add: stepRank_def)
  show "mset (OrderSteps steps) = mset steps"
  proof (induction steps)
    case (Cons s steps)
    then show ?case using rank [of s] by (auto simp: OrderSteps_filter)
  qed (simp add: OrderSteps_filter)
  have same: "sorted (map stepRank (filter (\<lambda>s. stepRank s = n) steps))" for n
    using sorted_map_same [of stepRank "\<lambda>_. n" steps] .
  show "sorted (map stepRank (OrderSteps steps))"
    unfolding OrderSteps_filter map_append sorted_append by (intro conjI same) auto
  consider "k = 0" | "k = 1" | "k = 2" | "2 < k" by linarith
  then show "filter (\<lambda>s. stepRank s = k) (OrderSteps steps) = filter (\<lambda>s. stepRank s = k) steps"
  proof cases
    case 4
    then have "stepRank s \<noteq> k" for s using rank [of s] by linarith
    then show ?thesis by simp
  qed (auto simp: OrderSteps_filter filter_empty_conv)
qed

section \<open>Which subscriptions move\<close>

text \<open>The subscriptions after some operators have been looked at: those updated point to an
  operator they resolve to, the others are as they were.\<close>

definition fits :: "Sub \<Rightarrow> OperatorSourceInfo \<Rightarrow> bool" where
  "fits sub info \<longleftrightarrow> SI_Package info = sub_Package sub \<and> sub_Channel sub \<in> {[], SI_Channel info}
     \<and> (sub_CatalogSource sub, sub_CatalogSourceNamespace sub) \<in> {([], []), (SK_Name (SI_Catalog info), SK_Namespace (SI_Catalog info))}"

definition movedTo :: "Entry set \<Rightarrow> Sub \<Rightarrow> Sub \<Rightarrow> bool" where
  "movedTo ops sub sub' \<longleftrightarrow> (\<exists>op \<in> ops. \<exists>info. E_SourceInfo op = Some info \<and> fits sub info \<and> sub' = sub\<lparr>sb_CurrentCSV := E_Name op\<rparr>)"

lemma resolvesTo_fits: "resolvesTo sub info \<longleftrightarrow> fits sub info"
  by (cases "SI_Catalog info") (auto simp: resolvesTo_def fits_def Let_def subCatalog_def Subscription.defs SourceKey_Empty_def)

definition progressed :: "Sub list \<Rightarrow> Entry set \<Rightarrow> resolved \<Rightarrow> bool" where
  "progressed subs ops st \<longleftrightarrow> length (rv_subs st) = length subs \<and> set (rv_updated st) \<subseteq> {..<length subs}
     \<and> (\<forall>i < length subs. if i \<in> set (rv_updated st) then movedTo ops (subs ! i) (rv_subs st ! i) else rv_subs st ! i = subs ! i)"

lemma resolvesTo_moved [simp]: "resolvesTo (sub\<lparr>sb_CurrentCSV := x\<rparr>) info = resolvesTo sub info"
  by (simp add: resolvesTo_def subCatalog_def Subscription.defs Subscription.truncate_def Let_def)

lemma progressed_moveTo:
  assumes "progressed subs ops st" "i < length subs" "resolvesTo (subs ! i) info" "E_SourceInfo op = Some info" "op \<in> ops"
  shows "progressed subs ops (moveTo (E_Name op) i st)"
proof -
  have upd: "(rv_subs st ! i)\<lparr>sb_CurrentCSV := n\<rparr> = (subs ! i)\<lparr>sb_CurrentCSV := n\<rparr>" for n
    using assms(1,2) by (auto simp: progressed_def movedTo_def split: if_splits)
  have "movedTo ops (subs ! i) ((subs ! i)\<lparr>sb_CurrentCSV := E_Name op\<rparr>)"
    using assms(3-5) by (auto simp: movedTo_def resolvesTo_fits)
  then show ?thesis
    using assms(1,2) upd by (auto simp: progressed_def moveTo_def nth_list_update)
qed

lemma existingSubscriptions_resolve:
  assumes "existingSubscriptions W info xs = Inr existing" "(i, e) \<in> set existing"
  shows "\<exists>sub. (i, sub) \<in> set xs \<and> resolvesTo sub info"
  using assms
proof (induction xs arbitrary: existing)
  case (Cons x xs)
  obtain j sub where x: "x = (j, sub)" by (cases x)
  show ?case
  proof (cases "resolvesTo sub info")
    case True
    with Cons.prems(1) x obtain b es where "existing = (j, b) # es" "existingSubscriptions W info xs = Inr es"
      by (auto simp: go_err split: sum.splits)
    with Cons.IH [of es] Cons.prems(2) x True show ?thesis by auto
  next
    case False
    with Cons.IH [of existing] Cons.prems x show ?thesis by auto
  qed
qed simp

lemma progressed_moves:
  assumes "progressed subs ops st" "\<And>i. i \<in> set is' \<Longrightarrow> i < length subs \<and> resolvesTo (subs ! i) info"
    and "E_SourceInfo op = Some info" "op \<in> ops"
  shows "progressed subs ops (fold (moveTo (E_Name op)) is' st)"
  using assms(1,2)
proof (induction is' arbitrary: st)
  case (Cons i is')
  then show ?case using progressed_moveTo [OF Cons.prems(1), of i info op] assms(3,4) by simp
qed simp

lemma progressed_resolves:
  assumes "progressed subs ops st" "i < length subs" "resolvesTo (rv_subs st ! i) info"
  shows "resolvesTo (subs ! i) info"
  using assms by (auto simp: progressed_def movedTo_def split: if_splits)

lemma progressed_frame [simp]:
  "progressed subs ops (st\<lparr>rv_steps := x, rv_lookups := y\<rparr>) = progressed subs ops st"
  by (simp add: progressed_def)

lemma stepsForOperator_progressed:
  assumes "stepsForOperator W namespace op st = Some (Inr st')" "progressed subs ops st" "op \<in> ops"
    and "\<And>es. mset (rw_order W es) = mset es"
  shows "progressed subs ops st'"
proof -
  obtain info where info: "E_SourceInfo op = Some info"
    using assms(1) by (auto simp: stepsForOperator_def split: option.splits)
  obtain existing where ex: "existingSubscriptions W info (enumerate 0 (rv_subs st)) = Inr existing"
    using assms(1) info by (auto simp: stepsForOperator_def split: sum.splits)
  have ok: "i < length subs \<and> resolvesTo (subs ! i) info" if i: "i \<in> set (map fst (rw_order W existing))" for i
  proof -
    obtain e where "(i, e) \<in> set existing" using i mset_eq_setD [OF assms(4)] by auto
    then obtain sub where "(i, sub) \<in> set (enumerate 0 (rv_subs st))" "resolvesTo sub info"
      using existingSubscriptions_resolve [OF ex] by blast
    then show ?thesis using progressed_resolves [OF assms(2)] assms(2)
      by (auto simp: progressed_def in_set_enumerate_eq)
  qed
  consider "st' = st" | x y where "st' = fold (moveTo (E_Name op)) (map fst (rw_order W existing)) (st\<lparr>rv_steps := x, rv_lookups := y\<rparr>)"
    using assms(1) info ex by (auto simp: stepsForOperator_def go_err split: if_splits)
  then show ?thesis
  proof cases
    case 2
    show ?thesis unfolding 2 by (rule progressed_moves [OF _ ok info assms(3)]) (simp_all add: assms(2))
  qed (simp add: assms(2))
qed

lemma stepsForOperators_progressed:
  assumes "stepsForOperators W namespace ops st = Some (Inr st')" "progressed subs all st" "set ops \<subseteq> all"
    and "\<And>es. mset (rw_order W es) = mset es"
  shows "progressed subs all st'"
  using assms(1-3)
proof (induction ops arbitrary: st)
  case (Cons op ops)
  then obtain st1 where st1: "stepsForOperator W namespace op st = Some (Inr st1)" "stepsForOperators W namespace ops st1 = Some (Inr st')"
    by (auto split: option.splits sum.splits)
  from Cons.IH [OF st1(2) stepsForOperator_progressed [OF st1(1) Cons.prems(2) _ assms(4)]] Cons.prems(3) show ?case by simp
qed simp

text \<open>C31. What a resolution in a namespace yields: the steps are ordered, CSVs first and CRDs second, and
  each subscription to be updated is one of the namespace with nothing changed but its current CSV,
  which is now the name of a resolved operator that fits the package, the channel and the catalog
  of the subscription.\<close>

theorem ResolveSteps_updates:
  assumes "ResolveSteps E R G s0 W namespace = Some (Inr (steps, lookups, updated))" "rw_subs W = Inr subs"
    and "\<And>es. mset (rw_order W es) = mset es"
  shows "\<exists>namespaces operators. Resolve E R (rw_cache W namespaces) G s0 namespaces (map Subscription.truncate subs) = Some (Inr operators)
    \<and> sorted (map stepRank steps) \<and> (\<forall>u \<in> set updated. \<exists>sub \<in> set subs. movedTo (set operators) sub u)"
proof -
  obtain namespaces operators st where r:
    "Resolve E R (rw_cache W namespaces) G s0 namespaces (map Subscription.truncate subs) = Some (Inr operators)"
    "stepsForOperators W namespace operators \<lparr>rv_subs = subs, rv_steps = [], rv_lookups = [], rv_updated = []\<rparr> = Some (Inr st)"
    "steps = OrderSteps (rv_steps st)" "updated = map (\<lambda>i. rv_subs st ! i) (rv_updated st)"
    using assms(1,2) by (auto simp: ResolveSteps_def Let_def go_err split: sum.splits if_splits option.splits)
  have "progressed subs (set operators) st"
    by (rule stepsForOperators_progressed [OF r(2) _ subset_refl assms(3)]) (simp add: progressed_def)
  then have "\<forall>u \<in> set updated. \<exists>sub \<in> set subs. movedTo (set operators) sub u"
    unfolding r(4) progressed_def by (auto simp: subset_iff) (metis nth_mem)
  with r(1,3) OrderSteps_stable(2) show ?thesis by blast
qed

definition demoCodecs :: codecs where
  "demoCodecs = \<lparr>k_decodeCSV = (\<lambda>s. Inl s), k_decodeObject = (\<lambda>s. Inl s), k_encode = (\<lambda>obj. Inr (Obj_Name (so_Meta obj))),
     k_properties = (\<lambda>ps. Inr (concat (map P_Value ps))), k_hashes = demoHashes, k_order = (\<lambda>m. m)\<rparr>"

definition demoSub :: Sub where
  "demoSub = Subscription.extend demoSubscription
     \<lparr>sb_GeneratedBy = None, sb_Approval = ApprovalManual, sb_CurrentCSV = [], sb_Install = None, sb_State = SubscriptionStateNone,
      sb_InstallPlanRef = None, sb_InstallPlanGeneration = 0, sb_Conditions = [], sb_LastUpdated = 0\<rparr>"

definition demoResolveWorld :: resolve_world where
  "demoResolveWorld = \<lparr>rw_subs = Inr [demoSub],
     rw_groups = Inr [\<lparr>ng_Strategy = UpgradeStrategyDefault, ng_Annotations = [(exclusionAnnotation, ''true'')]\<rparr>], rw_global = ''olm'',
     rw_cache = (\<lambda>_. packageCache), rw_csv = (\<lambda>ns name. Some (apiNotFound name)), rw_bundle = (\<lambda>e. None), rw_order = (\<lambda>m. m),
     rw_codecs = demoCodecs\<rparr>"

declare Subscription.defs [code]

theorem ResolveSteps_updates_witness:
  "case ResolveSteps packageEnv demoOrders refGini rNew demoResolveWorld ''ns'' of
     Some (Inr (steps, lookups, updated)) \<Rightarrow>
       map bl_Identifier lookups = [''a.v1''] \<and> updated = [demoSub\<lparr>sb_CurrentCSV := ''a.v1''\<rparr>]
       \<and> (\<exists>ops. movedTo ops demoSub (hd updated))
   | _ \<Rightarrow> False"
proof -
  let ?r = "ResolveSteps packageEnv demoOrders refGini rNew demoResolveWorld ''ns''"
  have "case ?r of Some (Inr (steps, lookups, updated)) \<Rightarrow>
      map bl_Identifier lookups = [''a.v1''] \<and> updated = [demoSub\<lparr>sb_CurrentCSV := ''a.v1''\<rparr>] | _ \<Rightarrow> False"
    by code_simp
  then obtain steps lookups updated where r: "?r = Some (Inr (steps, lookups, updated))"
    "map bl_Identifier lookups = [''a.v1'']" "updated = [demoSub\<lparr>sb_CurrentCSV := ''a.v1''\<rparr>]"
    by (auto split: option.splits sum.splits prod.splits)
  have "rw_subs demoResolveWorld = Inr [demoSub]" "mset (rw_order demoResolveWorld es) = mset es" for es
    by (simp_all add: demoResolveWorld_def)
  from ResolveSteps_updates [OF r(1) this] r show ?thesis by auto
qed

end
