(* ===== verification/Namespace_Sync.thy ===== *)
theory Namespace_Sync
  imports Resolve_Steps
begin

text \<open>
  The synchronisation of a namespace by the catalog operator, \<open>syncResolvingNamespace\<close> and what it
  calls in \<open>operators/catalog/operator.go\<close>: the references and states of subscriptions, the
  unpacking of bundles, the creation of InstallPlans, and the conditions of subscriptions. The
  answers of the API server and of the bundle unpacker are fields of \<open>ns_world\<close>; the resolution is
  the model of \<open>ResolveSteps\<close>. What is written is the list of effects. Attempts that are repeated
  because of a conflict are one attempt here, the last.
\<close>

section \<open>Conditions of subscriptions\<close>

definition Sub_GetCondition :: "Sub \<Rightarrow> string \<Rightarrow> SubscriptionCondition" where
  "Sub_GetCondition sub t =
     (case find (\<lambda>c. sc_Type c = t) (sb_Conditions sub) of
        Some c \<Rightarrow> c
      | None \<Rightarrow> \<lparr>sc_Type = t, sc_Status = ConditionUnknown, sc_Reason = [], sc_Message = []\<rparr>)"

fun Sub_SetCondition :: "SubscriptionCondition \<Rightarrow> SubscriptionCondition list \<Rightarrow> SubscriptionCondition list" where
  "Sub_SetCondition cond [] = [cond]"
| "Sub_SetCondition cond (c # cs) = (if sc_Type c = sc_Type cond then cond # cs else c # Sub_SetCondition cond cs)"

definition RemoveConditions :: "string \<Rightarrow> Sub \<Rightarrow> Sub" where
  "RemoveConditions t sub = sub\<lparr>sb_Conditions := filter (\<lambda>c. sc_Type c \<noteq> t) (sb_Conditions sub)\<rparr>"

text \<open>The subscriptions changed in place, and those of them that are to be written.\<close>

definition setSubCond :: "nat \<Rightarrow> SubscriptionCondition \<Rightarrow> Sub \<Rightarrow> Sub option" where
  "setSubCond now cond sub =
     (if Sub_GetCondition sub (sc_Type cond) = cond then None
      else Some (sub\<lparr>sb_LastUpdated := now, sb_Conditions := Sub_SetCondition cond (sb_Conditions sub)\<rparr>))"

definition setSubsCond :: "nat \<Rightarrow> Sub list \<Rightarrow> SubscriptionCondition \<Rightarrow> Sub list" where
  "setSubsCond now subs cond = List.map_filter (setSubCond now cond) subs"

definition removeSubCond :: "nat \<Rightarrow> string \<Rightarrow> Sub \<Rightarrow> Sub" where
  "removeSubCond now t sub =
     (if sc_Status (Sub_GetCondition sub t) = ConditionUnknown then sub
      else RemoveConditions t (sub\<lparr>sb_LastUpdated := now\<rparr>))"

definition removeSubsCond :: "nat \<Rightarrow> string \<Rightarrow> Sub list \<Rightarrow> Sub list" where
  "removeSubsCond now t subs = map (removeSubCond now t) subs"

section \<open>The world and its effects\<close>

record UnpackedBundleReference =
  ub_Name :: string
  ub_Namespace :: string
  ub_CatalogSourceName :: string
  ub_CatalogSourceNamespace :: string
  ub_Replaces :: string
  ub_Properties :: string

record unpackResult =
  un_Lookup :: BundleLookup
  un_Bundle :: api_bundle
  un_Name :: string

record ns_world = resolve_world +
  nw_now :: nat
  nw_subs :: "string + Sub list"
  nw_parseDuration :: "string \<Rightarrow> string + int"
  nw_getPlan :: "string \<Rightarrow> string + InstallPlan"
  nw_getCSV :: "string \<Rightarrow> string option"
  nw_updateStatus :: "Sub \<Rightarrow> string + Sub"
  nw_latest :: "Sub \<Rightarrow> string + Sub"
  nw_putStatus :: "Sub \<Rightarrow> string option"
  nw_unpack :: "BundleLookup \<Rightarrow> int \<Rightarrow> int \<Rightarrow> string + unpackResult"
  nw_marshal :: "UnpackedBundleReference \<Rightarrow> string + string"
  nw_plans :: "string + InstallPlan list"
  nw_plansAgain :: "string + InstallPlan list"
  nw_createPlan :: "InstallPlan \<Rightarrow> string + InstallPlan"
  nw_planStatus :: "InstallPlan \<Rightarrow> string option"
  nw_errorText :: "rerror \<Rightarrow> string"

datatype ns_effect = deletePlan InstallPlan | writeSub Sub | createPlan InstallPlan | requeueNamespace nat

type_synonym ns_result = "string option \<times> ns_effect list"

text \<open>The status of a subscription is put on its latest revision.\<close>

definition withStatus :: "Sub \<Rightarrow> Sub \<Rightarrow> Sub" where
  "withStatus sub latest = latest\<lparr>sub_InstalledCSV := sub_InstalledCSV sub, sb_CurrentCSV := sb_CurrentCSV sub, sb_Install := sb_Install sub,
     sb_State := sb_State sub, sb_InstallPlanRef := sb_InstallPlanRef sub, sb_InstallPlanGeneration := sb_InstallPlanGeneration sub,
     sb_Conditions := sb_Conditions sub, sb_LastUpdated := sb_LastUpdated sub\<rparr>"

definition updateSubStatus :: "ns_world \<Rightarrow> Sub \<Rightarrow> string + Sub" where
  "updateSubStatus W sub =
     bind_err (nw_latest W sub) (\<lambda>latest.
       case nw_putStatus W (withStatus sub latest) of Some e \<Rightarrow> Inl e | None \<Rightarrow> Inr (withStatus sub latest))"

definition updateSubscriptionStatuses :: "ns_world \<Rightarrow> Sub list \<Rightarrow> ns_result" where
  "updateSubscriptionStatuses W subs =
     (aggregateText (List.map_filter (\<lambda>sub. case updateSubStatus W sub of Inl e \<Rightarrow> Some e | Inr _ \<Rightarrow> None) subs),
      List.map_filter (\<lambda>sub. case updateSubStatus W sub of Inl _ \<Rightarrow> None | Inr new \<Rightarrow> Some (writeSub new)) subs)"

text \<open>A condition is set on all subscriptions; an error of the writes wins over the result.\<close>

definition reportOn :: "ns_world \<Rightarrow> Sub list \<Rightarrow> string \<Rightarrow> string \<Rightarrow> string \<Rightarrow> string option \<Rightarrow> ns_result" where
  "reportOn W subs t reason message result =
     (case updateSubscriptionStatuses W
             (setSubsCond (nw_now W) subs \<lparr>sc_Type = t, sc_Status = ConditionTrue, sc_Reason = reason, sc_Message = message\<rparr>) of
        (Some e, eff) \<Rightarrow> (Some e, eff)
      | (None, eff) \<Rightarrow> (result, eff))"

section \<open>The state of a subscription\<close>

definition nothingToUpdate :: "Sub \<Rightarrow> bool" where
  "nothingToUpdate sub \<longleftrightarrow> sb_InstallPlanRef sub \<noteq> None \<and> sb_State sub = SubscriptionStateUpgradePending"

definition ensureSubscriptionInstallPlanState :: "ns_world \<Rightarrow> Sub \<Rightarrow> bool \<Rightarrow> string + Sub \<times> bool" where
  "ensureSubscriptionInstallPlanState W sub failForwardEnabled =
     (if sb_InstallPlanRef sub \<noteq> None \<or> sb_Install sub \<noteq> None then Inr (sub, False)
      else case sb_GeneratedBy sub of
        None \<Rightarrow> Inr (sub, False)
      | Some ipName \<Rightarrow>
          bind_err (nw_getPlan W ipName) (\<lambda>ip.
            Inr (sub\<lparr>sb_InstallPlanRef := Some (ip_Name ip), sb_Install := Some (ip_Name ip),
                   sb_State := (if failForwardEnabled \<and> ip_Phase ip = InstallPlanPhaseFailed then SubscriptionStateFailed
                                else SubscriptionStateUpgradePending),
                   sb_CurrentCSV := sub_StartingCSV sub, sb_LastUpdated := nw_now W\<rparr>, True)))"

definition csvState :: "ns_world \<Rightarrow> Sub \<Rightarrow> bool \<Rightarrow> Sub" where
  "csvState W sub failForwardEnabled =
     (case nw_getCSV W (sb_CurrentCSV sub) of
        Some _ \<Rightarrow>
          sub\<lparr>sb_State := (case sb_InstallPlanRef sub of
                Some ref \<Rightarrow> if failForwardEnabled \<and> (case nw_getPlan W ref of Inl _ \<Rightarrow> False | Inr ip \<Rightarrow> ip_Phase ip = InstallPlanPhaseFailed)
                             then SubscriptionStateFailed else SubscriptionStateUpgradePending
              | None \<Rightarrow> SubscriptionStateUpgradePending)\<rparr>
      | None \<Rightarrow> sub\<lparr>sb_State := SubscriptionStateAtLatest, sub_InstalledCSV := sb_CurrentCSV sub\<rparr>)"

definition ensureSubscriptionCSVState :: "ns_world \<Rightarrow> Sub \<Rightarrow> bool \<Rightarrow> string + Sub \<times> bool \<times> ns_effect list" where
  "ensureSubscriptionCSVState W sub failForwardEnabled =
     (if sb_CurrentCSV sub = [] then Inr (sub, False, [])
      else let out = csvState W sub failForwardEnabled
           in if sb_State sub = sb_State out then Inr (sub, False, [])
              else (case nw_updateStatus W (out\<lparr>sb_LastUpdated := nw_now W\<rparr>) of
                      Inl e \<Rightarrow> Inl (''error updating Subscription status: '' @ e)
                    | Inr new \<Rightarrow> Inr (new, True, [writeSub new])))"

text \<open>The loop over the subscriptions: the error, if any, the subscriptions, whether one was
  updated, and the effects.\<close>

fun ensureSubscriptions :: "ns_world \<Rightarrow> bool \<Rightarrow> Sub list \<Rightarrow> (string + Sub list \<times> bool) \<times> ns_effect list" where
  "ensureSubscriptions W failForwardEnabled [] = (Inr ([], False), [])"
| "ensureSubscriptions W failForwardEnabled (sub # subs) =
     (case ensureSubscriptionInstallPlanState W sub failForwardEnabled of
        Inl e \<Rightarrow> (Inl e, [])
      | Inr (sub1, changedIP) \<Rightarrow>
          (case ensureSubscriptionCSVState W sub1 failForwardEnabled of
             Inl e \<Rightarrow> (Inl e, [])
           | Inr (sub2, changedCSV, eff) \<Rightarrow>
               (case ensureSubscriptions W failForwardEnabled subs of
                  (Inl e, eff') \<Rightarrow> (Inl e, eff @ eff')
                | (Inr (subs', updated), eff') \<Rightarrow> (Inr (sub2 # subs', changedIP \<or> changedCSV \<or> updated), eff @ eff'))))"

section \<open>Unpacking\<close>

definition BL_GetCondition :: "BundleLookup \<Rightarrow> string \<Rightarrow> ConditionStatus" where
  "BL_GetCondition l t = (case find (\<lambda>c. bc_Type c = t) (bl_Conditions l) of Some c \<Rightarrow> bc_Status c | None \<Rightarrow> ConditionUnknown)"

fun removeFirst :: "('a \<Rightarrow> bool) \<Rightarrow> 'a list \<Rightarrow> 'a list" where
  "removeFirst P [] = []"
| "removeFirst P (x # xs) = (if P x then xs else x # removeFirst P xs)"

definition RemoveCondition :: "string \<Rightarrow> BundleLookup \<Rightarrow> BundleLookup" where
  "RemoveCondition t l = l\<lparr>bl_Conditions := removeFirst (\<lambda>c. bc_Type c = t) (bl_Conditions l)\<rparr>"

definition hasBundleLookupFailureCondition :: "BundleLookup list \<Rightarrow> BundleLookupCondition option" where
  "hasBundleLookupFailureCondition lookups =
     find (\<lambda>c. bc_Type c = ''BundleLookupFailed'' \<and> bc_Status c = ConditionTrue) (concat (map bl_Conditions lookups))"

text \<open>The manifests of the steps are replaced by references to the configmap that holds them. A
  step whose reference cannot be made keeps its manifest and is an error.\<close>

definition referSteps :: "ns_world \<Rightarrow> unpackResult \<Rightarrow> Step list \<Rightarrow> string list \<times> Step list" where
  "referSteps W res steps =
     (case nw_marshal W \<lparr>ub_Name = un_Name res, ub_Namespace = fst (bl_CatalogSource (un_Lookup res)),
             ub_CatalogSourceName = snd (bl_CatalogSource (un_Lookup res)), ub_CatalogSourceNamespace = fst (bl_CatalogSource (un_Lookup res)),
             ub_Replaces = bl_Replaces (un_Lookup res), ub_Properties = bl_Properties (un_Lookup res)\<rparr> of
        Inl e \<Rightarrow> (map (\<lambda>_. ''failed to generate reference for configmap: '' @ e) steps, steps)
      | Inr r \<Rightarrow> ([], map (\<lambda>s. s\<lparr>st_Manifest := r\<rparr>) steps))"

record unpackState =
  us_unpacked :: bool
  us_steps :: "Step list"
  us_lookups :: "BundleLookup list"
  us_errs :: "string list"

text \<open>One lookup. The outer option is a panic, the inner sum the fatal error that ends the loop.\<close>

definition unpackBundle :: "ns_world \<Rightarrow> string \<Rightarrow> int \<Rightarrow> int \<Rightarrow> BundleLookup \<Rightarrow> unpackState \<Rightarrow> (step_error + unpackState) option" where
  "unpackBundle W namespace timeout interval lookup st =
     (case nw_unpack W lookup timeout interval of
        Inl e \<Rightarrow> Some (Inr (st\<lparr>us_lookups := us_lookups st @ [lookup], us_errs := us_errs st @ [e]\<rparr>))
      | Inr res \<Rightarrow>
          let l = un_Lookup res; kept = st\<lparr>us_lookups := us_lookups st @ [l]\<rparr>
          in if BL_GetCondition l ''BundleLookupFailed'' = ConditionTrue \<or> BL_GetCondition l ''BundleLookupPending'' = ConditionTrue
             then Some (Inr (kept\<lparr>us_unpacked := False\<rparr>))
             else if BL_GetCondition l ''BundleLookupNotPersisted'' = ConditionUnknown then Some (Inr kept)
             else map_option (\<lambda>r. case r of
                 Inl e \<Rightarrow> if IsFatal e then Inl e
                          else Inr (kept\<lparr>us_unpacked := False, us_errs := us_errs st @ [''failed to turn bundle into steps: '' @ stepErrorText e]\<rparr>)
               | Inr steps \<Rightarrow>
                   (case referSteps W res steps of
                      (errors, steps') \<Rightarrow>
                        Inr (st\<lparr>us_unpacked := (us_unpacked st \<and> errors = []), us_errs := us_errs st @ errors,
                               us_lookups := us_lookups st @ [RemoveCondition ''BundleLookupNotPersisted'' l], us_steps := us_steps st @ steps'\<rparr>)))
               (NewStepsFromBundle (rw_codecs W) (un_Bundle res) namespace (bl_Replaces l) (snd (bl_CatalogSource l)) (fst (bl_CatalogSource l))))"

fun unpackAll :: "ns_world \<Rightarrow> string \<Rightarrow> int \<Rightarrow> int \<Rightarrow> BundleLookup list \<Rightarrow> unpackState \<Rightarrow> (step_error + unpackState) option" where
  "unpackAll W namespace timeout interval [] st = Some (Inr st)"
| "unpackAll W namespace timeout interval (l # ls) st =
     (case unpackBundle W namespace timeout interval l st of
        None \<Rightarrow> None
      | Some (Inl e) \<Rightarrow> Some (Inl e)
      | Some (Inr st') \<Rightarrow> unpackAll W namespace timeout interval ls st')"

definition unpackBundles :: "ns_world \<Rightarrow> string \<Rightarrow> Step list \<Rightarrow> BundleLookup list \<Rightarrow> int \<Rightarrow> int
    \<Rightarrow> (step_error + bool \<times> Step list \<times> BundleLookup list) option" where
  "unpackBundles W namespace steps lookups timeout interval =
     map_option (\<lambda>r. bind_err r (\<lambda>st.
         case aggregateText (us_errs st) of
           Some e \<Rightarrow> Inl (stepError e)
         | None \<Rightarrow> Inr (us_unpacked st, us_steps st, us_lookups st)))
       (unpackAll W namespace timeout interval lookups \<lparr>us_unpacked = True, us_steps = steps, us_lookups = [], us_errs = []\<rparr>)"

section \<open>InstallPlans\<close>

definition addOwner :: "string \<Rightarrow> string list \<Rightarrow> string list" where
  "addOwner name owners = (if name \<in> set owners then owners else owners @ [name])"

definition newInstallPlan :: "string \<Rightarrow> int \<Rightarrow> Sub list \<Rightarrow> Approval \<Rightarrow> Step list \<Rightarrow> InstallPlan" where
  "newInstallPlan namespace gen subs approval steps =
     \<lparr>ip_Name = [], ip_Namespace = namespace, ip_Created = 0, ip_Owners = fold addOwner (map sub_Name subs) [],
      ip_CSVNames = map st_Name (filter (\<lambda>s. st_Kind s = ''ClusterServiceVersion'') steps), ip_Approval = approval,
      ip_Approved = (approval = ApprovalAutomatic), ip_Generation = gen, ip_Phase = InstallPlanPhaseNone, ip_Conditions = [],
      ip_CatalogSources = [], ip_Plan = [], ip_BundleLookups = [], ip_ServiceAccount = None, ip_StartTime = None, ip_Message = []\<rparr>"

text \<open>The plan as its status is written. The catalog sources are the keys of a map.\<close>

definition startedPlan :: "Approval \<Rightarrow> Step list \<Rightarrow> BundleLookup list \<Rightarrow> InstallPlan \<Rightarrow> InstallPlan" where
  "startedPlan approval steps lookups res = res\<lparr>
     ip_Phase := (if approval = ApprovalManual then InstallPlanPhaseRequiresApproval else InstallPlanPhaseInstalling),
     ip_Plan := steps, ip_CatalogSources := remdups (map st_CatalogSource steps), ip_BundleLookups := lookups,
     ip_Conditions := [], ip_ServiceAccount := None, ip_StartTime := None, ip_Message := []\<rparr>"

definition createInstallPlan :: "ns_world \<Rightarrow> string \<Rightarrow> int \<Rightarrow> Sub list \<Rightarrow> Approval \<Rightarrow> Step list \<Rightarrow> BundleLookup list
    \<Rightarrow> (string + string option) \<times> ns_effect list" where
  "createInstallPlan W namespace gen subs approval steps lookups =
     (if length steps = 0 \<and> length lookups = 0 then (Inr None, [])
      else case nw_createPlan W (newInstallPlan namespace gen subs approval steps) of
        Inl e \<Rightarrow> (Inl e, [])
      | Inr res \<Rightarrow>
          (case nw_planStatus W (startedPlan approval steps lookups res) of
             Some e \<Rightarrow> (Inl e, [createPlan res])
           | None \<Rightarrow> (Inr (Some (ip_Name res)), [createPlan (startedPlan approval steps lookups res)])))"

text \<open>What happens under the lock, with the plans listed before.\<close>

definition ensureListed :: "ns_world \<Rightarrow> InstallPlan list \<Rightarrow> string \<Rightarrow> int \<Rightarrow> Sub list \<Rightarrow> Approval \<Rightarrow> Step list \<Rightarrow> BundleLookup list
    \<Rightarrow> (string + string option) \<times> ns_effect list" where
  "ensureListed W installPlans namespace gen subs approval steps lookups =
     (case find (\<lambda>ip. ip_Generation ip = gen) installPlans of
        Some ip \<Rightarrow> (Inr (Some (ip_Name ip)), [])
      | None \<Rightarrow> createInstallPlan W namespace gen subs approval steps lookups)"

definition ensureInstallPlan :: "ns_world \<Rightarrow> string \<Rightarrow> int \<Rightarrow> Sub list \<Rightarrow> Approval \<Rightarrow> Step list \<Rightarrow> BundleLookup list
    \<Rightarrow> (string + string option) \<times> ns_effect list" where
  "ensureInstallPlan W namespace gen subs approval steps lookups =
     (if length steps = 0 \<and> length lookups = 0 then (Inr None, [])
      else case nw_plansAgain W of
        Inl e \<Rightarrow> (Inl e, [])
      | Inr installPlans \<Rightarrow> ensureListed W installPlans namespace gen subs approval steps lookups)"

definition setIPReference :: "nat \<Rightarrow> int \<Rightarrow> string option \<Rightarrow> Sub list \<Rightarrow> Sub list" where
  "setIPReference now gen ref subs =
     map (\<lambda>sub. case ref of
        None \<Rightarrow> sub\<lparr>sb_LastUpdated := now\<rparr>
      | Some name \<Rightarrow> sub\<lparr>sb_LastUpdated := now, sb_InstallPlanRef := Some name, sb_Install := Some name,
                        sb_State := SubscriptionStateUpgradePending, sb_InstallPlanGeneration := gen\<rparr>) subs"

section \<open>The handler\<close>

definition maxGeneration :: "Sub list \<Rightarrow> int" where
  "maxGeneration subs = fold (\<lambda>sub m. if sb_InstallPlanGeneration sub > m then sb_InstallPlanGeneration sub else m) subs 0"

definition maxPlanGeneration :: "int \<Rightarrow> InstallPlan list \<Rightarrow> int" where
  "maxPlanGeneration m plans = fold (\<lambda>ip m. if ip_Generation ip > m then ip_Generation ip else m) plans m"

definition installPlanApproval :: "Sub list \<Rightarrow> Approval" where
  "installPlanApproval subs = (if list_ex (\<lambda>sub. sb_Approval sub = ApprovalManual) subs then ApprovalManual else ApprovalAutomatic)"

fun replaceSub :: "Sub \<Rightarrow> Sub list \<Rightarrow> Sub list" where
  "replaceSub u [] = [u]"
| "replaceSub u (sub # subs) =
     (if sub_Name sub = sub_Name u \<and> sub_Namespace sub = sub_Namespace u then u # subs else sub # replaceSub u subs)"

abbreviation ResolutionFailed :: string where "ResolutionFailed \<equiv> ''ResolutionFailed''"
abbreviation BundleUnpacking :: string where "BundleUnpacking \<equiv> ''BundleUnpacking''"
abbreviation BundleUnpackFailed :: string where "BundleUnpackFailed \<equiv> ''BundleUnpackFailed''"

definition finishNamespace :: "ns_world \<Rightarrow> Sub list \<Rightarrow> Sub list \<Rightarrow> ns_result" where
  "finishNamespace W subs updatedSubs =
     (let cleaned = fold (removeSubsCond (nw_now W)) [BundleUnpacking, BundleUnpackFailed, ResolutionFailed] subs;
          merged = fold (\<lambda>u. replaceSub (RemoveConditions ResolutionFailed u)) updatedSubs cleaned
      in updateSubscriptionStatuses W merged)"

definition installResolved :: "ns_world \<Rightarrow> string \<Rightarrow> int \<Rightarrow> Sub list \<Rightarrow> Step list \<Rightarrow> BundleLookup list \<Rightarrow> Sub list \<Rightarrow> ns_result" where
  "installResolved W namespace maxGen subs steps lookups updatedSubs =
     (if updatedSubs = [] then finishNamespace W subs []
      else case nw_plans W of
        Inl e \<Rightarrow> (Some e, [])
      | Inr plans \<Rightarrow>
          let gen = maxPlanGeneration maxGen plans + 1
          in (case ensureInstallPlan W namespace gen subs (installPlanApproval subs) steps lookups of
                (Inl e, eff) \<Rightarrow>
                  let err = ''error ensuring InstallPlan: '' @ e
                  in (case reportOn W subs BundleUnpackFailed ''EnsureInstallPlanFailed'' err (Some err) of (r, eff') \<Rightarrow> (r, eff @ eff'))
              | (Inr ref, eff) \<Rightarrow>
                  (case finishNamespace W subs (setIPReference (nw_now W) gen ref updatedSubs) of (r, eff') \<Rightarrow> (r, eff @ eff'))))"

definition unpackAndInstall :: "ns_world \<Rightarrow> string \<Rightarrow> int \<Rightarrow> int \<Rightarrow> int \<Rightarrow> Sub list \<Rightarrow> Step list \<Rightarrow> BundleLookup list \<Rightarrow> Sub list
    \<Rightarrow> ns_result option" where
  "unpackAndInstall W namespace maxGen timeout interval subs steps lookups updatedSubs =
     (if lookups = [] then Some (installResolved W namespace maxGen subs steps lookups updatedSubs)
      else map_option (\<lambda>r. case r of
          Inl e \<Rightarrow>
            if IsFatal e then reportOn W subs BundleUnpackFailed ''ErrorPreventedUnpacking'' (stepErrorText e) None
            else (Some (''bundle unpacking failed with an error: '' @ stepErrorText e), [])
        | Inr (unpacked, steps', lookups') \<Rightarrow>
            (case hasBundleLookupFailureCondition lookups' of
               Some cond \<Rightarrow>
                 reportOn W subs BundleUnpackFailed ''BundleUnpackFailed''
                   (''bundle unpacking failed. Reason: '' @ bc_Reason cond @ '', and Message: '' @ bc_Message cond) None
             | None \<Rightarrow>
                 if \<not> unpacked then
                   (case reportOn W subs BundleUnpacking ''UnpackingInProgress'' [] None of
                      (Some e, eff) \<Rightarrow> (Some e, eff)
                    | (None, eff) \<Rightarrow> (None, eff @ [requeueNamespace 5]))
                 else installResolved W namespace maxGen subs steps' lookups' updatedSubs))
        (unpackBundles W namespace steps lookups timeout interval))"

fun notSatisfiable :: "steps_error \<Rightarrow> bool" where
  "notSatisfiable (resolverError (solverError (NotSatisfiable cs))) = True"
| "notSatisfiable _ = False"

fun stepsErrorText :: "ns_world \<Rightarrow> steps_error \<Rightarrow> string" where
  "stepsErrorText W (resolverError e) = nw_errorText W e"
| "stepsErrorText W (stepsError t) = t"

definition resolveNamespace :: "env \<Rightarrow> mapOrders \<Rightarrow> ('c, 's, 'k) gini \<Rightarrow> 's \<Rightarrow> ns_world \<Rightarrow> string \<Rightarrow> int \<Rightarrow> int \<Rightarrow> int \<Rightarrow> Sub list
    \<Rightarrow> ns_result option" where
  "resolveNamespace E R G s0 W namespace maxGen timeout interval subs =
     (case ResolveSteps E R G s0 (resolve_world.truncate W) namespace of
        None \<Rightarrow> None
      | Some (Inl e) \<Rightarrow>
          let err = stepsErrorText W e
          in Some (if notSatisfiable e then reportOn W subs ResolutionFailed ''ConstraintsNotSatisfiable'' err None
                   else reportOn W subs ResolutionFailed ''ErrorPreventedResolution'' err (Some err))
      | Some (Inr (steps, lookups, updatedSubs)) \<Rightarrow>
          unpackAndInstall W namespace maxGen timeout interval subs steps lookups updatedSubs)"

definition groupDuration :: "ns_world \<Rightarrow> string \<Rightarrow> string \<Rightarrow> int \<Rightarrow> string + int" where
  "groupDuration W key what absent =
     bind_err (rw_groups W) (\<lambda>ogs.
       if length ogs \<noteq> 1 then Inl (''found '' @ showNat (length ogs) @ '' operatorGroups, expected 1'')
       else case map_of (ng_Annotations (ogs ! 0)) key of
              None \<Rightarrow> Inr absent
            | Some t \<Rightarrow>
                (case nw_parseDuration W t of
                   Inl e \<Rightarrow> Inl (''failed to parse unpack '' @ what @ '' annotation('' @ key @ '': '' @ t @ ''): '' @ e)
                 | Inr d \<Rightarrow> Inr d))"

definition OperatorGroupBundleUnpackTimeout :: "ns_world \<Rightarrow> string + int" where
  "OperatorGroupBundleUnpackTimeout W = groupDuration W ''operatorframework.io/bundle-unpack-timeout'' ''timeout'' (- 60)"

definition OperatorGroupBundleUnpackRetryInterval :: "ns_world \<Rightarrow> string + int" where
  "OperatorGroupBundleUnpackRetryInterval W =
     groupDuration W ''operatorframework.io/bundle-unpack-min-retry-interval'' ''retry'' 0"

definition failForward :: "ns_world \<Rightarrow> string + bool" where
  "failForward W =
     (case IsFailForwardEnabled (case rw_groups W of Inl e \<Rightarrow> Inl (listError e) | Inr ogs \<Rightarrow> Inr (map ng_Strategy ogs)) of
        Inl (wrongGroupCount n) \<Rightarrow> Inl (''found '' @ showNat n @ '' operatorGroups, expected 1'')
      | Inl _ \<Rightarrow> Inl (case rw_groups W of Inl e \<Rightarrow> e | Inr _ \<Rightarrow> [])
      | Inr b \<Rightarrow> Inr b)"

text \<open>The value \<open>None\<close> is a panic or a resolution that does not return.\<close>

definition syncSubscriptionsOf :: "env \<Rightarrow> mapOrders \<Rightarrow> ('c, 's, 'k) gini \<Rightarrow> 's \<Rightarrow> ns_world \<Rightarrow> string \<Rightarrow> Sub list \<Rightarrow> ns_result option" where
  "syncSubscriptionsOf E R G s0 W namespace subs =
     (case bind_err (failForward W) (\<lambda>ff.
             bind_err (OperatorGroupBundleUnpackTimeout W) (\<lambda>timeout.
             bind_err (OperatorGroupBundleUnpackRetryInterval W) (\<lambda>interval. Inr (ff, timeout, interval)))) of
        Inl e \<Rightarrow> Some (Some e, [])
      | Inr (ff, timeout, interval) \<Rightarrow>
          (case ensureSubscriptions W ff subs of
             (Inl e, eff) \<Rightarrow> Some (Some e, eff)
           | (Inr (subs', subscriptionUpdated), eff) \<Rightarrow>
               if subscriptionUpdated \<or> list_all nothingToUpdate subs' then Some (None, eff)
               else map_option (\<lambda>(r, eff'). (r, eff @ eff'))
                 (resolveNamespace E R G s0 W namespace (maxGeneration subs) timeout interval subs')))"

definition syncResolvingNamespace :: "env \<Rightarrow> mapOrders \<Rightarrow> ('c, 's, 'k) gini \<Rightarrow> 's
    \<Rightarrow> ((InstallPlan \<Rightarrow> InstallPlan \<Rightarrow> bool) \<Rightarrow> InstallPlan list \<Rightarrow> InstallPlan list) \<Rightarrow> string + InstallPlan list
    \<Rightarrow> ns_world \<Rightarrow> string \<Rightarrow> ns_result option" where
  "syncResolvingNamespace E R G s0 srt cached W namespace =
     (let gc = map deletePlan (gcInstallPlans srt cached)
      in map_option (\<lambda>(r, eff). (r, gc @ eff))
           (case nw_subs W of
              Inl e \<Rightarrow> Some (Some e, [])
            | Inr subs \<Rightarrow> if length subs = 0 then Some (None, []) else syncSubscriptionsOf E R G s0 W namespace subs))"

section \<open>What the handler leaves alone\<close>

lemma ensureInstallPlanState_unchanged:
  "ensureSubscriptionInstallPlanState W sub ff = Inr (sub', False) \<Longrightarrow> sub' = sub"
  by (auto simp: ensureSubscriptionInstallPlanState_def go_err split: if_splits option.splits)

lemma ensureCSVState_unchanged:
  "ensureSubscriptionCSVState W sub ff = Inr (sub', False, eff) \<Longrightarrow> sub' = sub \<and> eff = []"
  by (auto simp: ensureSubscriptionCSVState_def Let_def split: if_splits sum.splits)

lemma ensureSubscriptions_unchanged:
  "ensureSubscriptions W ff subs = (Inr (subs', False), eff) \<Longrightarrow> subs' = subs \<and> eff = []"
proof (induction subs arbitrary: subs' eff)
  case (Cons sub subs)
  from Cons.prems obtain sub1 sub2 eff1 subs1 eff2 where
    "ensureSubscriptionInstallPlanState W sub ff = Inr (sub1, False)" "ensureSubscriptionCSVState W sub1 ff = Inr (sub2, False, eff1)"
    "ensureSubscriptions W ff subs = (Inr (subs1, False), eff2)" "subs' = sub2 # subs1" "eff = eff1 @ eff2"
    by (auto split: sum.splits prod.splits)
  with Cons.IH show ?case using ensureInstallPlanState_unchanged ensureCSVState_unchanged by fastforce
qed simp

text \<open>Nothing but the creation of a plan creates plans.\<close>

definition noPlans :: "ns_effect list \<Rightarrow> bool" where
  "noPlans eff \<longleftrightarrow> (\<forall>p. createPlan p \<notin> set eff)"

lemma noPlans_simps [simp]: "noPlans []" "noPlans (a @ b) \<longleftrightarrow> noPlans a \<and> noPlans b" "noPlans (map deletePlan ps)"
  "noPlans [requeueNamespace n]" "noPlans [writeSub u]"
  by (auto simp: noPlans_def)

lemma updateStatuses_noPlans: "updateSubscriptionStatuses W subs = (r, eff) \<Longrightarrow> noPlans eff"
  by (auto simp: noPlans_def updateSubscriptionStatuses_def List.map_filter_def split: sum.splits)

lemma reportOn_noPlans: "reportOn W subs t reason message r = (r', eff) \<Longrightarrow> noPlans eff"
  by (auto simp: reportOn_def split: prod.splits option.splits dest: updateStatuses_noPlans)

lemma finishNamespace_noPlans: "finishNamespace W subs us = (r, eff) \<Longrightarrow> noPlans eff"
  unfolding finishNamespace_def Let_def by (rule updateStatuses_noPlans)

lemma ensureSubscriptions_noPlans: "ensureSubscriptions W ff subs = (r, eff) \<Longrightarrow> noPlans eff"
proof (induction subs arbitrary: r eff)
  case (Cons sub subs)
  obtain r' eff' where rest: "ensureSubscriptions W ff subs = (r', eff')" by (cases "ensureSubscriptions W ff subs")
  have "noPlans eff1" if "ensureSubscriptionCSVState W x ff = Inr (y, b, eff1)" for x y b eff1
    using that by (auto simp: ensureSubscriptionCSVState_def Let_def split: if_splits sum.splits)
  with Cons.prems Cons.IH [OF rest] rest show ?case by (auto split: sum.splits prod.splits)
qed simp

section \<open>The plans it creates\<close>

text \<open>What is relied on of the API server: a created plan is the given one with a name and a time.\<close>

definition createsAsGiven :: "ns_world \<Rightarrow> bool" where
  "createsAsGiven W \<longleftrightarrow> (\<forall>p res. nw_createPlan W p = Inr res \<longrightarrow> (\<exists>name t. res = p\<lparr>ip_Name := name, ip_Created := t\<rparr>))"

text \<open>A plan starts out in the phase of its approval, or without a phase if its status could not be
  written after it was created.\<close>

definition startPhase :: "Sub list \<Rightarrow> InstallPlanPhase" where
  "startPhase subs = (if \<exists>sub \<in> set subs. sb_Approval sub = ApprovalManual then InstallPlanPhaseRequiresApproval else InstallPlanPhaseInstalling)"

definition planFor :: "ns_world \<Rightarrow> int \<Rightarrow> Sub list \<Rightarrow> InstallPlan \<Rightarrow> bool" where
  "planFor W gen subs p \<longleftrightarrow> ip_Generation p = gen
     \<and> (ip_Approved p \<longleftrightarrow> (\<forall>sub \<in> set subs. sb_Approval sub \<noteq> ApprovalManual))
     \<and> (ip_Phase p = startPhase subs \<or> ip_Phase p = InstallPlanPhaseNone \<and> (\<exists>q e. nw_planStatus W q = Some e))"

lemma planFor_approved: "planFor W gen subs p \<Longrightarrow> approvedPlan p"
  by (auto simp: planFor_def approvedPlan_def startPhase_def split: if_splits)

lemma createInstallPlan_planFor:
  assumes "createsAsGiven W" "createInstallPlan W ns gen subs (installPlanApproval subs) steps lookups = (r, eff)" "createPlan p \<in> set eff"
  shows "planFor W gen subs p"
proof -
  obtain res where res: "nw_createPlan W (newInstallPlan ns gen subs (installPlanApproval subs) steps) = Inr res"
    "p = res \<and> nw_planStatus W (startedPlan (installPlanApproval subs) steps lookups res) \<noteq> None \<or> p = startedPlan (installPlanApproval subs) steps lookups res"
    using assms(2,3) by (auto simp: createInstallPlan_def split: if_splits sum.splits option.splits)
  then obtain name t where "res = (newInstallPlan ns gen subs (installPlanApproval subs) steps)\<lparr>ip_Name := name, ip_Created := t\<rparr>"
    using assms(1) unfolding createsAsGiven_def by blast
  with res(2) show ?thesis
    by (auto simp: planFor_def startPhase_def startedPlan_def newInstallPlan_def installPlanApproval_def list_ex_iff split: if_splits)
qed

lemma ensureInstallPlan_planFor:
  assumes "createsAsGiven W" "ensureInstallPlan W ns gen subs (installPlanApproval subs) steps lookups = (r, eff)" "createPlan p \<in> set eff"
  shows "planFor W gen subs p"
  using assms(2,3) createInstallPlan_planFor [OF assms(1)]
  by (auto simp: ensureInstallPlan_def ensureListed_def split: if_splits sum.splits option.splits)

lemma fold_larger:
  fixes f :: "'a \<Rightarrow> int"
  defines "larger \<equiv> \<lambda>x m. if f x > m then f x else m"
  shows "m \<le> fold larger xs m \<and> (\<forall>x \<in> set xs. f x \<le> fold larger xs m)"
proof (induction xs arbitrary: m)
  case (Cons x xs)
  have "m \<le> larger x m" "f x \<le> larger x m" by (simp_all add: larger_def)
  with Cons.IH [of "larger x m"] show ?case by (auto intro: order_trans)
qed simp

lemma maxGeneration_ge: "\<forall>sub \<in> set subs. sb_InstallPlanGeneration sub \<le> maxGeneration subs"
  using fold_larger [of 0 sb_InstallPlanGeneration subs] by (simp add: maxGeneration_def)

lemma maxPlanGeneration_ge: "m \<le> maxPlanGeneration m plans \<and> (\<forall>ip \<in> set plans. ip_Generation ip \<le> maxPlanGeneration m plans)"
  using fold_larger [of m ip_Generation plans] by (simp add: maxPlanGeneration_def)

definition plansOk :: "ns_world \<Rightarrow> int \<Rightarrow> Sub list \<Rightarrow> ns_effect list \<Rightarrow> bool" where
  "plansOk W maxGen subs eff \<longleftrightarrow> (\<forall>p. createPlan p \<in> set eff \<longrightarrow>
     (\<exists>plans. nw_plans W = Inr plans \<and> planFor W (maxPlanGeneration maxGen plans + 1) subs p))"

lemma noPlans_ok: "noPlans eff \<Longrightarrow> plansOk W maxGen subs eff"
  by (simp add: noPlans_def plansOk_def)

lemma installResolved_ok:
  assumes "createsAsGiven W" "installResolved W ns maxGen subs steps lookups us = (r, eff)"
  shows "plansOk W maxGen subs eff"
proof (cases "us = [] \<or> (\<exists>e. nw_plans W = Inl e)")
  case True
  then show ?thesis using assms(2) by (auto simp: installResolved_def intro!: noPlans_ok dest: finishNamespace_noPlans split: if_splits)
next
  case False
  then obtain plans where plans: "nw_plans W = Inr plans" by (cases "nw_plans W") auto
  let ?gen = "maxPlanGeneration maxGen plans + 1"
  obtain q eff1 where e: "ensureInstallPlan W ns ?gen subs (installPlanApproval subs) steps lookups = (q, eff1)"
    by (cases "ensureInstallPlan W ns ?gen subs (installPlanApproval subs) steps lookups")
  have "\<exists>eff2. eff = eff1 @ eff2 \<and> noPlans eff2"
    using assms(2) False plans e
    by (auto simp: installResolved_def Let_def split: sum.splits prod.splits dest: finishNamespace_noPlans reportOn_noPlans)
  then show ?thesis
    using ensureInstallPlan_planFor [OF assms(1) e] plans by (auto simp: plansOk_def noPlans_def)
qed

lemma unpackAndInstall_ok:
  assumes "createsAsGiven W" "unpackAndInstall W ns maxGen timeout interval subs steps lookups us = Some (r, eff)"
  shows "plansOk W maxGen subs eff"
proof (cases "lookups = []")
  case True
  then show ?thesis using assms installResolved_ok by (auto simp: unpackAndInstall_def)
next
  case False
  then obtain u where u: "unpackBundles W ns steps lookups timeout interval = Some u" using assms(2) by (auto simp: unpackAndInstall_def)
  show ?thesis
  proof (cases u)
    case (Inl e)
    then show ?thesis using assms(2) u False
      by (auto simp: unpackAndInstall_def intro!: noPlans_ok split: if_splits dest: reportOn_noPlans)
  next
    case (Inr x)
    obtain unpacked steps' lookups' where x: "x = (unpacked, steps', lookups')" by (cases x)
    consider c where "hasBundleLookupFailureCondition lookups' = Some c" | "hasBundleLookupFailureCondition lookups' = None" "\<not> unpacked"
      | "hasBundleLookupFailureCondition lookups' = None" "unpacked" by (cases "hasBundleLookupFailureCondition lookups'") auto
    then show ?thesis
    proof cases
      case 3
      then show ?thesis using assms u False Inr x installResolved_ok by (auto simp: unpackAndInstall_def)
    qed (use assms(2) u False Inr x in \<open>auto simp: unpackAndInstall_def intro!: noPlans_ok split: prod.splits option.splits
        dest: reportOn_noPlans\<close>)
  qed
qed

lemma resolveNamespace_ok:
  assumes "createsAsGiven W" "resolveNamespace E R G s0 W ns maxGen timeout interval subs = Some (r, eff)"
  shows "plansOk W maxGen subs eff"
  using assms(2)
  by (auto simp: resolveNamespace_def Let_def split: option.splits sum.splits prod.splits if_splits
      intro: noPlans_ok reportOn_noPlans unpackAndInstall_ok [OF assms(1)])

text \<open>A synchronisation that gets as far as the resolution has changed no subscription.\<close>

lemma syncSubscriptionsOf_stages:
  assumes "syncSubscriptionsOf E R G s0 W namespace subs = Some (r, eff)"
  obtains "noPlans eff"
    | timeout interval where "resolveNamespace E R G s0 W namespace (maxGeneration subs) timeout interval subs = Some (r, eff)"
proof -
  define g where "g = bind_err (failForward W) (\<lambda>ff. bind_err (OperatorGroupBundleUnpackTimeout W) (\<lambda>timeout.
    bind_err (OperatorGroupBundleUnpackRetryInterval W) (\<lambda>interval. Inr (ff, timeout, interval))))"
  show thesis
  proof (cases g)
    case (Inl e)
    with assms that(1) show thesis unfolding syncSubscriptionsOf_def g_def [symmetric] by simp
  next
    case (Inr x)
    obtain ff timeout interval where x: "x = (ff, timeout, interval)" by (cases x)
    obtain q eff2 where q: "ensureSubscriptions W ff subs = (q, eff2)" by (cases "ensureSubscriptions W ff subs")
    have no: "noPlans eff2" by (rule ensureSubscriptions_noPlans [OF q])
    show thesis
    proof (cases "\<exists>subs'. q = Inr (subs', False) \<and> \<not> list_all nothingToUpdate subs'")
      case True
      with q have "q = Inr (subs, False)" "eff2 = []" "\<not> list_all nothingToUpdate subs"
        using ensureSubscriptions_unchanged by (metis Inr_inject prod.inject)+
      with assms Inr x q that(2) show thesis unfolding syncSubscriptionsOf_def g_def [symmetric] by auto
    next
      case False
      with assms Inr x q have "eff = eff2" unfolding syncSubscriptionsOf_def g_def [symmetric]
        by (auto split: sum.splits prod.splits if_splits)
      with no that(1) show thesis by simp
    qed
  qed
qed

lemma created_planFor:
  assumes "createsAsGiven W" "syncResolvingNamespace E R G s0 srt cached W namespace = Some (r, eff)" "createPlan p \<in> set eff"
    and "nw_subs W = Inr subs"
  obtains plans where "nw_plans W = Inr plans" "planFor W (maxPlanGeneration (maxGeneration subs) plans + 1) subs p"
proof -
  from assms(2-4) obtain eff1 where "syncSubscriptionsOf E R G s0 W namespace subs = Some (r, eff1)" "createPlan p \<in> set eff1"
    by (auto simp: syncResolvingNamespace_def Let_def split: if_splits)
  then obtain timeout interval where "resolveNamespace E R G s0 W namespace (maxGeneration subs) timeout interval subs = Some (r, eff1)"
    "createPlan p \<in> set eff1" by (cases rule: syncSubscriptionsOf_stages) (auto simp: noPlans_def)
  moreover from this(1) have "plansOk W (maxGeneration subs) subs eff1" by (rule resolveNamespace_ok [OF assms(1)])
  ultimately show thesis using that by (auto simp: plansOk_def)
qed

text \<open>C30. An InstallPlan that the synchronisation of a namespace creates has a generation above those of all
  plans and subscriptions of the namespace. If no subscription of the namespace asks for manual
  approval it is approved from the start and its phase is Installing; otherwise it is not approved
  and its phase is RequiresApproval. If the write of its status fails it may be left without a
  phase. The API server stores what it is given.\<close>

theorem sync_creates_plan:
  assumes "createsAsGiven W" "syncResolvingNamespace E R G s0 srt cached W namespace = Some (r, eff)" "createPlan p \<in> set eff"
    and "nw_subs W = Inr subs"
  shows "\<exists>plans. nw_plans W = Inr plans
    \<and> (if \<exists>sub \<in> set subs. sb_Approval sub = ApprovalManual
       then \<not> ip_Approved p \<and> ip_Phase p \<in> {InstallPlanPhaseRequiresApproval, InstallPlanPhaseNone}
       else ip_Approved p \<and> ip_Phase p \<in> {InstallPlanPhaseInstalling, InstallPlanPhaseNone})
    \<and> (ip_Phase p = InstallPlanPhaseNone \<longrightarrow> (\<exists>q e. nw_planStatus W q = Some e))
    \<and> (\<forall>ip \<in> set plans. ip_Generation ip < ip_Generation p) \<and> (\<forall>sub \<in> set subs. sb_InstallPlanGeneration sub < ip_Generation p)"
proof -
  from assms obtain plans where plans: "nw_plans W = Inr plans" "planFor W (maxPlanGeneration (maxGeneration subs) plans + 1) subs p"
    by (rule created_planFor)
  moreover have "ip_Generation ip < maxPlanGeneration (maxGeneration subs) plans + 1" if "ip \<in> set plans" for ip
    using maxPlanGeneration_ge [of "maxGeneration subs" plans] that by fastforce
  moreover have "sb_InstallPlanGeneration sub < maxPlanGeneration (maxGeneration subs) plans + 1" if "sub \<in> set subs" for sub
    using maxPlanGeneration_ge [of "maxGeneration subs" plans] maxGeneration_ge [of subs] that by fastforce
  ultimately show ?thesis by (auto simp: planFor_def startPhase_def split: if_splits)
qed

section \<open>What subscriptions are told\<close>

lemma SetCondition_get: "Sub_GetCondition (sub\<lparr>sb_Conditions := Sub_SetCondition c cs\<rparr>) (sc_Type c) = c"
  by (induction cs) (auto simp: Sub_GetCondition_def)

lemma GetCondition_cong: "sb_Conditions a = sb_Conditions b \<Longrightarrow> Sub_GetCondition a t = Sub_GetCondition b t"
  by (simp add: Sub_GetCondition_def)

text \<open>Writes that all succeed, on revisions of the same names.\<close>

definition writable :: "ns_world \<Rightarrow> bool" where
  "writable W \<longleftrightarrow> (\<forall>sub. nw_putStatus W sub = None \<and> (\<exists>latest. nw_latest W sub = Inr latest \<and> sub_Name latest = sub_Name sub))"

lemma updateSubStatus_writable:
  assumes "writable W"
  obtains new where "updateSubStatus W sub = Inr new" "sub_Name new = sub_Name sub" "sb_Conditions new = sb_Conditions sub"
    "sb_State new = sb_State sub" "sb_InstallPlanRef new = sb_InstallPlanRef sub"
proof -
  obtain latest where "nw_latest W sub = Inr latest" "sub_Name latest = sub_Name sub"
    using assms unfolding writable_def by blast
  with assms that [of "withStatus sub latest"] show thesis by (simp add: updateSubStatus_def withStatus_def writable_def)
qed

lemma updateStatuses_writable:
  assumes "writable W"
  shows "\<exists>eff. updateSubscriptionStatuses W subs = (None, eff)
    \<and> (\<forall>sub \<in> set subs. \<exists>new. writeSub new \<in> set eff \<and> sub_Name new = sub_Name sub \<and> sb_Conditions new = sb_Conditions sub)"
proof -
  have "List.map_filter (\<lambda>sub. case updateSubStatus W sub of Inl e \<Rightarrow> Some e | Inr _ \<Rightarrow> None) subs = []"
  proof -
    have "(case updateSubStatus W sub of Inl e \<Rightarrow> Some e | Inr _ \<Rightarrow> None) = None" for sub
      by (rule updateSubStatus_writable [OF assms, of sub]) simp
    then show ?thesis by (simp add: List.map_filter_def)
  qed
  moreover have "\<exists>new. writeSub new \<in> set (List.map_filter (\<lambda>sub. case updateSubStatus W sub of Inl _ \<Rightarrow> None | Inr new \<Rightarrow> Some (writeSub new)) subs)
      \<and> sub_Name new = sub_Name sub \<and> sb_Conditions new = sb_Conditions sub" if "sub \<in> set subs" for sub
  proof -
    obtain new where new: "updateSubStatus W sub = Inr new" "sub_Name new = sub_Name sub" "sb_Conditions new = sb_Conditions sub"
      using updateSubStatus_writable [OF assms] by metis
    with that show ?thesis by (intro exI [of _ new]) (force simp: List.map_filter_def)
  qed
  ultimately show ?thesis by (simp add: updateSubscriptionStatuses_def aggregateText_def)
qed

lemma reportOn_writable:
  assumes "writable W"
  defines "cond \<equiv> \<lambda>t reason message. \<lparr>sc_Type = t, sc_Status = ConditionTrue, sc_Reason = reason, sc_Message = message\<rparr>"
  shows "\<exists>eff. reportOn W subs t reason message r = (r, eff)
    \<and> (\<forall>sub \<in> set subs. Sub_GetCondition sub t = cond t reason message
         \<or> (\<exists>new. writeSub new \<in> set eff \<and> sub_Name new = sub_Name sub \<and> Sub_GetCondition new t = cond t reason message))"
proof -
  let ?c = "cond t reason message"
  obtain eff where eff: "updateSubscriptionStatuses W (setSubsCond (nw_now W) subs ?c) = (None, eff)"
    "\<And>sub. sub \<in> set (setSubsCond (nw_now W) subs ?c) \<Longrightarrow>
       \<exists>new. writeSub new \<in> set eff \<and> sub_Name new = sub_Name sub \<and> sb_Conditions new = sb_Conditions sub"
    using updateStatuses_writable [OF assms(1)] by blast
  have "\<exists>new. writeSub new \<in> set eff \<and> sub_Name new = sub_Name sub \<and> Sub_GetCondition new t = ?c"
    if sub: "sub \<in> set subs" "Sub_GetCondition sub t \<noteq> ?c" for sub
  proof -
    let ?s = "sub\<lparr>sb_LastUpdated := nw_now W, sb_Conditions := Sub_SetCondition ?c (sb_Conditions sub)\<rparr>"
    have t: "sc_Type ?c = t" by (simp add: cond_def)
    have "?s \<in> set (setSubsCond (nw_now W) subs ?c)"
      using sub t by (force simp: setSubsCond_def setSubCond_def List.map_filter_def)
    from eff(2) [OF this] obtain new where "writeSub new \<in> set eff" "sub_Name new = sub_Name sub" "sb_Conditions new = sb_Conditions ?s"
      by auto
    moreover have "Sub_GetCondition ?s t = ?c" using SetCondition_get [where c = ?c and sub = "sub\<lparr>sb_LastUpdated := nw_now W\<rparr>"] t by simp
    ultimately show ?thesis using GetCondition_cong by metis
  qed
  with eff(1) show ?thesis unfolding reportOn_def cond_def by auto
qed

text \<open>When the resolution fails, every subscription of the namespace is told why, and the failure is an
  error of the synchronisation, and so tried again, exactly if the constraints could have been
  satisfied: an unsatisfiable namespace waits for a change instead.\<close>

lemma failed_resolution_reported:
  assumes "ResolveSteps E R G s0 (resolve_world.truncate W) namespace = Some (Inl e)" "writable W"
  shows "\<exists>r eff. resolveNamespace E R G s0 W namespace maxGen timeout interval subs = Some (r, eff)
    \<and> (r = None \<longleftrightarrow> notSatisfiable e)
    \<and> (\<forall>sub \<in> set subs. \<exists>new. (new = sub \<or> writeSub new \<in> set eff \<and> sub_Name new = sub_Name sub)
         \<and> sc_Status (Sub_GetCondition new ResolutionFailed) = ConditionTrue
         \<and> sc_Message (Sub_GetCondition new ResolutionFailed) = stepsErrorText W e)"
proof (cases "notSatisfiable e")
  case True
  from reportOn_writable [OF assms(2), of subs ResolutionFailed "''ConstraintsNotSatisfiable''" "stepsErrorText W e" None] True
  show ?thesis by (fastforce simp: resolveNamespace_def assms(1) Let_def)
next
  case False
  from reportOn_writable [OF assms(2), of subs ResolutionFailed "''ErrorPreventedResolution''" "stepsErrorText W e" "Some (stepsErrorText W e)"]
    False
  show ?thesis by (fastforce simp: resolveNamespace_def assms(1) Let_def)
qed

section \<open>A subscription that keeps its namespace from being resolved\<close>

text \<open>The reference to the plan that generated a subscription is computed but never written.\<close>

lemma generated_not_written:
  assumes "sb_InstallPlanRef sub = None" "sb_Install sub = None" "sb_GeneratedBy sub = Some name"
    and "nw_getPlan W name = Inr ip" "ip_Name ip = name" "sub_StartingCSV sub = [] \<or> nw_getCSV W (sub_StartingCSV sub) \<noteq> None"
  obtains sub1 where "ensureSubscriptionInstallPlanState W sub ff = Inr (sub1, True)" "ensureSubscriptionCSVState W sub1 ff = Inr (sub1, False, [])"
  using assms
  by (auto simp: ensureSubscriptionInstallPlanState_def ensureSubscriptionCSVState_def csvState_def Let_def)

text \<open>A subscription generated by an InstallPlan, without a reference to that plan yet and with its CSV
  missing, stops the synchronisation of its whole namespace: as long as that is so, nothing is
  resolved, the reference is not stored, and no error is reported, even after the plan has failed.\<close>

lemma generated_subscription_stalls:
  assumes "sub \<in> set subs" "sb_InstallPlanRef sub = None" "sb_Install sub = None" "sb_GeneratedBy sub = Some name"
    and "nw_getPlan W name = Inr ip" "ip_Name ip = name" "sub_StartingCSV sub = [] \<or> nw_getCSV W (sub_StartingCSV sub) \<noteq> None"
    and "failForward W = Inr ff" "OperatorGroupBundleUnpackTimeout W = Inr timeout" "OperatorGroupBundleUnpackRetryInterval W = Inr interval"
    and "ensureSubscriptions W ff subs = (Inr (subs', updated), eff)"
  shows "syncSubscriptionsOf E R G s0 W namespace subs = Some (None, eff)"
proof -
  have "updated" using assms(1,11)
  proof (induction subs arbitrary: subs' updated eff)
    case (Cons x subs)
    show ?case
    proof (cases "x = sub")
      case True
      then obtain sub1 where "ensureSubscriptionInstallPlanState W x ff = Inr (sub1, True)" "ensureSubscriptionCSVState W sub1 ff = Inr (sub1, False, [])"
        using generated_not_written [OF assms(2-7), where ff = ff] by metis
      with Cons.prems(2) show ?thesis by (auto split: sum.splits prod.splits)
    next
      case False
      then have sub: "sub \<in> set subs" using Cons.prems(1) by simp
      from Cons.prems(2) obtain subs1 updated1 eff1 where
        "ensureSubscriptions W ff subs = (Inr (subs1, updated1), eff1)" "updated1 \<Longrightarrow> updated"
        by (auto split: sum.splits prod.splits)
      with Cons.IH [OF sub] show ?thesis by blast
    qed
  qed simp
  with assms(8-11) show ?thesis by (simp add: syncSubscriptionsOf_def)
qed

section \<open>Two workers\<close>

text \<open>Two workers ensure the same InstallPlan. Each lists the plans, and then takes the lock to look
  for the plan in its list and create it; what happens under the lock is one step.\<close>

datatype worker = idle | listing "InstallPlan list" | finished

definition createdPlans :: "ns_effect list \<Rightarrow> InstallPlan list" where
  "createdPlans eff = List.map_filter (\<lambda>e. case e of createPlan p \<Rightarrow> Some p | _ \<Rightarrow> None) eff"

inductive ensure_step :: "(InstallPlan list \<Rightarrow> ns_effect list) \<Rightarrow> InstallPlan list \<times> worker \<times> worker \<Rightarrow> InstallPlan list \<times> worker \<times> worker \<Rightarrow> bool"
  for locked where
  list1: "ensure_step locked (plans, idle, w) (plans, listing plans, w)"
| list2: "ensure_step locked (plans, w, idle) (plans, w, listing plans)"
| lock1: "ensure_step locked (plans, listing ips, w) (plans @ createdPlans (locked ips), finished, w)"
| lock2: "ensure_step locked (plans, w, listing ips) (plans @ createdPlans (locked ips), w, finished)"

lemma ensureListed_creates:
  assumes "createsAsGiven W" "steps \<noteq> []" "\<forall>p \<in> set ips. ip_Generation p \<noteq> gen"
    and "nw_createPlan W (newInstallPlan ns gen subs approval steps) = Inr res"
  shows "\<exists>p. createdPlans (snd (ensureListed W ips ns gen subs approval steps lookups)) = [p] \<and> ip_Generation p = gen"
proof -
  have "find (\<lambda>ip. ip_Generation ip = gen) ips = None" using assms(3) by (simp add: find_None_iff)
  moreover have "ip_Generation res = gen" using assms(1,4) unfolding createsAsGiven_def by (fastforce simp: newInstallPlan_def)
  ultimately show ?thesis
    using assms(2,4) by (auto simp: ensureListed_def createInstallPlan_def createdPlans_def startedPlan_def List.map_filter_simps split: option.split)
qed

text \<open>C32. The lock around the creation of an InstallPlan does not keep two workers from creating the plan
  twice, although a comment says that it does: the plans are listed before the lock is taken, so both
  may look into lists without it.\<close>

theorem ensureInstallPlan_race:
  assumes "createsAsGiven W" "steps \<noteq> []" "\<forall>p \<in> set plans. ip_Generation p \<noteq> gen"
    and "nw_createPlan W (newInstallPlan ns gen subs approval steps) = Inr res"
  shows "\<exists>plans'. (ensure_step (\<lambda>ips. snd (ensureListed W ips ns gen subs approval steps lookups)))\<^sup>*\<^sup>* (plans, idle, idle) (plans', finished, finished)
    \<and> length (filter (\<lambda>p. ip_Generation p = gen) plans') = 2"
proof -
  let ?locked = "\<lambda>ips. snd (ensureListed W ips ns gen subs approval steps lookups)"
  obtain p where p: "createdPlans (?locked plans) = [p]" "ip_Generation p = gen" using ensureListed_creates [OF assms] by blast
  note more = rtranclp.rtrancl_into_rtrancl
  have "(ensure_step ?locked)\<^sup>*\<^sup>* (plans, idle, idle) (plans, listing plans, idle)" by (rule r_into_rtranclp, rule list1)
  from more [OF this list2] have "(ensure_step ?locked)\<^sup>*\<^sup>* (plans, idle, idle) (plans, listing plans, listing plans)" .
  from more [OF more [OF this lock1] lock2] have
    "(ensure_step ?locked)\<^sup>*\<^sup>* (plans, idle, idle) ((plans @ [p]) @ [p], finished, finished)" using p(1) by simp
  moreover have "filter (\<lambda>p. ip_Generation p = gen) ((plans @ [p]) @ [p]) = [p, p]" using assms(3) p(2) by (simp add: filter_empty_conv)
  ultimately show ?thesis by (intro exI [of _ "(plans @ [p]) @ [p]"]) simp
qed

section \<open>Conditions that stay\<close>

lemma replaceSub_in: "u \<in> set (replaceSub u subs)"
  by (induction subs) auto

lemma GetCondition_RemoveConditions: "t \<noteq> t' \<Longrightarrow> Sub_GetCondition (RemoveConditions t' u) t = Sub_GetCondition u t"
proof -
  assume "t \<noteq> t'"
  then have "find (\<lambda>c. sc_Type c = t) (filter (\<lambda>c. sc_Type c \<noteq> t') cs) = find (\<lambda>c. sc_Type c = t) cs" for cs :: "SubscriptionCondition list"
    by (induction cs) auto
  then show ?thesis by (simp add: Sub_GetCondition_def RemoveConditions_def)
qed

text \<open>At the end of a synchronisation the conditions about unpacking are removed from the
  subscriptions the handler listed; a subscription that the resolution updated replaces its
  namesake and keeps them.\<close>

lemma unpacking_condition_stays:
  assumes "writable W" "sc_Status (Sub_GetCondition u BundleUnpacking) = ConditionTrue"
  shows "\<exists>new. writeSub new \<in> set (snd (finishNamespace W subs [u])) \<and> sub_Name new = sub_Name u
    \<and> sc_Status (Sub_GetCondition new BundleUnpacking) = ConditionTrue"
proof -
  let ?u = "RemoveConditions ResolutionFailed u"
  let ?merged = "replaceSub ?u (fold (removeSubsCond (nw_now W)) [BundleUnpacking, BundleUnpackFailed, ResolutionFailed] subs)"
  obtain eff where eff: "updateSubscriptionStatuses W ?merged = (None, eff)"
    "\<forall>sub \<in> set ?merged. \<exists>new. writeSub new \<in> set eff \<and> sub_Name new = sub_Name sub \<and> sb_Conditions new = sb_Conditions sub"
    using updateStatuses_writable [OF assms(1), of ?merged] by blast
  obtain new where new: "writeSub new \<in> set eff" "sub_Name new = sub_Name ?u" "sb_Conditions new = sb_Conditions ?u"
    using eff(2) replaceSub_in by blast
  have "Sub_GetCondition new BundleUnpacking = Sub_GetCondition u BundleUnpacking"
    using GetCondition_cong [OF new(3), of BundleUnpacking] GetCondition_RemoveConditions [of BundleUnpacking ResolutionFailed u] by simp
  moreover have "snd (finishNamespace W subs [u]) = eff" using eff(1) by (simp add: finishNamespace_def Let_def)
  ultimately show ?thesis using new(1,2) assms(2) by (intro exI [of _ new]) (simp add: RemoveConditions_def)
qed

section \<open>Examples\<close>

definition demoNamespace :: "Sub list \<Rightarrow> ns_world" where
  "demoNamespace subs = resolve_world.extend demoResolveWorld
     \<lparr>nw_now = 9, nw_subs = Inr subs, nw_parseDuration = (\<lambda>s. Inl s),
      nw_getPlan = (\<lambda>name. Inr (demoPlan name 0 InstallPlanPhaseFailed [])), nw_getCSV = (\<lambda>name. Some ''not found''),
      nw_updateStatus = Inr, nw_latest = Inr, nw_putStatus = (\<lambda>_. None),
      nw_unpack = (\<lambda>l _ _. Inr \<lparr>un_Lookup = l\<lparr>bl_Conditions := []\<rparr>,
         un_Bundle = \<lparr>bn_CsvName = [], bn_CsvJson = [], bn_Objects = [], bn_Properties = []\<rparr>, un_Name = []\<rparr>),
      nw_marshal = (\<lambda>r. Inr []), nw_plans = Inr [], nw_plansAgain = Inr [],
      nw_createPlan = (\<lambda>p. Inr (p\<lparr>ip_Name := ''install-1'', ip_Created := 1\<rparr>)), nw_planStatus = (\<lambda>_. None), nw_errorText = (\<lambda>_. [])\<rparr>"

declare resolve_world.defs [code]

lemma demo_creates: "createsAsGiven (demoNamespace subs)"
  by (auto simp: createsAsGiven_def demoNamespace_def resolve_world.defs)

lemma demo_writable: "writable (demoNamespace subs)"
  by (simp add: writable_def demoNamespace_def resolve_world.defs)

theorem sync_creates_plan_witness:
  "case syncResolvingNamespace packageEnv demoOrders refGini rNew SliceStable (Inr []) (demoNamespace [demoSub]) ''ns'' of
     Some (r, eff) \<Rightarrow> (case createdPlans eff of
       [p] \<Rightarrow> \<not> ip_Approved p \<and> ip_Phase p = InstallPlanPhaseRequiresApproval \<and> ip_Generation p > 0 | _ \<Rightarrow> False)
   | None \<Rightarrow> False"
proof -
  let ?r = "syncResolvingNamespace packageEnv demoOrders refGini rNew SliceStable (Inr []) (demoNamespace [demoSub]) ''ns''"
  have "case ?r of Some (r, eff) \<Rightarrow> length (createdPlans eff) = 1 | None \<Rightarrow> False" by code_simp
  then obtain r eff p where r: "?r = Some (r, eff)" "createdPlans eff = [p]"
    by (auto split: option.splits prod.splits simp: length_Suc_conv)
  have "createPlan p \<in> set eff"
  proof -
    have "p \<in> set (createdPlans eff)" using r(2) by simp
    then show ?thesis unfolding createdPlans_def List.map_filter_def by (auto split: ns_effect.splits)
  qed
  moreover have "nw_subs (demoNamespace [demoSub]) = Inr [demoSub]" "sb_Approval demoSub = ApprovalManual" "sb_InstallPlanGeneration demoSub = 0"
    by (simp_all add: demoNamespace_def resolve_world.defs demoSub_def Subscription.defs)
  moreover have "nw_planStatus (demoNamespace [demoSub]) q = None" for q
    by (simp add: demoNamespace_def resolve_world.defs)
  ultimately have "\<not> ip_Approved p \<and> ip_Phase p = InstallPlanPhaseRequiresApproval \<and> 0 < ip_Generation p"
    using sync_creates_plan [OF demo_creates r(1), of p "[demoSub]"] by auto
  with r show ?thesis by simp
qed

lemma failed_resolution_reported_witness:
  "case resolveNamespace packageEnv demoOrders refGini rNew ((demoNamespace [demoSub])\<lparr>rw_groups := Inr []\<rparr>) ''ns'' 0 0 0 [demoSub] of
     Some (r, eff) \<Rightarrow> r \<noteq> None \<and> (\<exists>new. (new = demoSub \<or> writeSub new \<in> set eff) \<and> sc_Status (Sub_GetCondition new ResolutionFailed) = ConditionTrue)
   | None \<Rightarrow> False"
proof -
  let ?W = "(demoNamespace [demoSub])\<lparr>rw_groups := Inr []\<rparr>"
  let ?e = "stepsError (''expected 1 OperatorGroup in the namespace, found '' @ showNat 0)"
  have "ResolveSteps packageEnv demoOrders refGini rNew (resolve_world.truncate ?W) ''ns'' = Some (Inl ?e)"
    by (simp add: ResolveSteps_def demoNamespace_def resolve_world.defs demoResolveWorld_def)
  moreover have "writable ?W" by (simp add: writable_def demoNamespace_def resolve_world.defs)
  ultimately obtain r eff where r: "resolveNamespace packageEnv demoOrders refGini rNew ?W ''ns'' 0 0 0 [demoSub] = Some (r, eff)"
    "r = None \<longleftrightarrow> notSatisfiable ?e"
    "\<forall>sub \<in> set [demoSub]. \<exists>new. (new = sub \<or> writeSub new \<in> set eff \<and> sub_Name new = sub_Name sub)
       \<and> sc_Status (Sub_GetCondition new ResolutionFailed) = ConditionTrue \<and> sc_Message (Sub_GetCondition new ResolutionFailed) = stepsErrorText ?W ?e"
    using failed_resolution_reported [of packageEnv demoOrders refGini rNew ?W "''ns''" ?e 0 0 0 "[demoSub]"] by blast
  then show ?thesis by auto
qed

lemma generated_subscription_stalls_witness:
  "syncSubscriptionsOf packageEnv demoOrders refGini rNew (demoNamespace []) ''ns'' [demoSub\<lparr>sb_GeneratedBy := Some ''p''\<rparr>] = Some (None, [])"
proof -
  let ?W = "demoNamespace []" and ?sub = "demoSub\<lparr>sb_GeneratedBy := Some ''p''\<rparr>"
  obtain q eff where q: "ensureSubscriptions ?W False [?sub] = (q, eff)" by (cases "ensureSubscriptions ?W False [?sub]")
  have "case ensureSubscriptions ?W False [?sub] of (Inr x, eff) \<Rightarrow> eff = [] | _ \<Rightarrow> False" by code_simp
  then obtain x where "q = Inr x" "eff = []" unfolding q by (cases q) auto
  then obtain subs' updated where e: "ensureSubscriptions ?W False [?sub] = (Inr (subs', updated), [])" using q by (cases x) simp
  have g: "failForward ?W = Inr False" "OperatorGroupBundleUnpackTimeout ?W = Inr (- 60)" "OperatorGroupBundleUnpackRetryInterval ?W = Inr 0"
    by code_simp+
  have f: "sb_InstallPlanRef ?sub = None" "sb_Install ?sub = None" "sb_GeneratedBy ?sub = Some ''p''"
    "nw_getPlan ?W ''p'' = Inr (demoPlan ''p'' 0 InstallPlanPhaseFailed [])" "ip_Name (demoPlan ''p'' 0 InstallPlanPhaseFailed []) = ''p''"
    "sub_StartingCSV ?sub = [] \<or> nw_getCSV ?W (sub_StartingCSV ?sub) \<noteq> None"
    by (simp_all add: demoSub_def Subscription.defs demoNamespace_def resolve_world.defs demoPlan_def)
  show ?thesis by (rule generated_subscription_stalls [OF _ f g e]) simp
qed

definition demoRoleStep :: Step where
  "demoRoleStep = \<lparr>st_Resolving = ''a'', st_Kind = ''Role'', st_Name = ''r'', st_Group = [], st_Version = [], st_CatalogSource = [],
     st_CatalogSourceNamespace = [], st_Manifest = [], st_Status = StepStatusUnknown\<rparr>"

theorem ensureInstallPlan_race_witness:
  "\<exists>plans'. (ensure_step (\<lambda>ips. snd (ensureListed (demoNamespace []) ips ''ns'' 1 [demoSub] ApprovalManual [demoRoleStep] [])))\<^sup>*\<^sup>*
      ([], idle, idle) (plans', finished, finished)
    \<and> length (filter (\<lambda>p. ip_Generation p = 1) plans') = 2"
  by (rule ensureInstallPlan_race [OF demo_creates]) (simp_all add: demoNamespace_def resolve_world.defs)

end
