(* ===== verification/Subscription_Sync.thy ===== *)
theory Subscription_Sync
  imports Namespace_Sync Execute_Plan
begin

text \<open>
  The syncer of subscriptions, \<open>operators/catalog/subscription\<close>: the typestates of a subscription
  (\<open>state.go\<close>), the reconcilers of its InstallPlan and of the health of its catalogs
  (\<open>reconciler.go\<close>), their chain (\<open>lib/kubestate\<close>) and the syncer with its notifications
  (\<open>syncer.go\<close>). The API server is a parameter that stores subscriptions in a cluster of any type.
  Times of transitions of conditions are not kept: all comparisons leave them out.
\<close>

section \<open>Subscriptions with their catalogs\<close>

record ObjectReference =
  or_Namespace :: string
  or_Name :: string
  or_UID :: string

record CatalogHealth =
  ch_Ref :: ObjectReference
  ch_LastUpdated :: nat
  ch_Healthy :: bool

record SSub = Sub +
  su_CatalogHealth :: "CatalogHealth list"
  su_ResourceVersion :: nat

definition condOf :: "SubscriptionCondition list \<Rightarrow> string \<Rightarrow> SubscriptionCondition" where
  "condOf conds t =
     (case find (\<lambda>c. sc_Type c = t) conds of
        Some c \<Rightarrow> c
      | None \<Rightarrow> \<lparr>sc_Type = t, sc_Status = ConditionUnknown, sc_Reason = [], sc_Message = []\<rparr>)"

definition without :: "string list \<Rightarrow> SubscriptionCondition list \<Rightarrow> SubscriptionCondition list" where
  "without ts conds = filter (\<lambda>c. sc_Type c \<notin> set ts) conds"

abbreviation CatalogSourcesUnhealthy :: string where "CatalogSourcesUnhealthy \<equiv> ''CatalogSourcesUnhealthy''"
abbreviation InstallPlanMissing :: string where "InstallPlanMissing \<equiv> ''InstallPlanMissing''"
abbreviation InstallPlanPending :: string where "InstallPlanPending \<equiv> ''InstallPlanPending''"
abbreviation InstallPlanFailed :: string where "InstallPlanFailed \<equiv> ''InstallPlanFailed''"

text \<open>The typestates: which interfaces a state implements depends on its outermost type only,
  because what it embeds is an interface.\<close>

datatype typestate = subscriptionState | subscriptionExistsState | subscriptionAddedState | subscriptionUpdatedState
  | subscriptionDeletedState | catalogHealthState | catalogHealthKnownState | catalogHealthyState | catalogUnhealthyState
  | installPlanState | noInstallPlanReferencedState | installPlanReferencedState | installPlanKnownState
  | installPlanMissingState | installPlanPendingState | installPlanFailedState | installPlanInstalledState

definition isSubscriptionExistsState :: "typestate \<Rightarrow> bool" where
  "isSubscriptionExistsState t \<longleftrightarrow> t \<notin> {subscriptionState, subscriptionDeletedState}"

definition isCatalogHealthKnownState :: "typestate \<Rightarrow> bool" where
  "isCatalogHealthKnownState t \<longleftrightarrow> t \<in> {catalogHealthKnownState, catalogHealthyState, catalogUnhealthyState}"

definition isCatalogHealthState :: "typestate \<Rightarrow> bool" where
  "isCatalogHealthState t \<longleftrightarrow> t = catalogHealthState \<or> isCatalogHealthKnownState t"

definition isInstallPlanKnownState :: "typestate \<Rightarrow> bool" where
  "isInstallPlanKnownState t \<longleftrightarrow>
     t \<in> {installPlanKnownState, installPlanMissingState, installPlanPendingState, installPlanFailedState, installPlanInstalledState}"

definition isInstallPlanReferencedState :: "typestate \<Rightarrow> bool" where
  "isInstallPlanReferencedState t \<longleftrightarrow> t = installPlanReferencedState \<or> isInstallPlanKnownState t"

definition isInstallPlanState :: "typestate \<Rightarrow> bool" where
  "isInstallPlanState t \<longleftrightarrow> t \<in> {installPlanState, noInstallPlanReferencedState} \<or> isInstallPlanReferencedState t"

record subState =
  ss_type :: typestate
  ss_sub :: SSub

definition NewSubscriptionState :: "SSub \<Rightarrow> subState" where
  "NewSubscriptionState sub = \<lparr>ss_type = subscriptionState, ss_sub = sub\<rparr>"

section \<open>The parameters\<close>

record CatalogSource =
  cs_Name :: string
  cs_Namespace :: string
  cs_UID :: string
  cs_Reason :: string

record Deprecations =
  dp_Package :: "string option"
  dp_Channel :: "string option"
  dp_Bundle :: "string option"

text \<open>The context may be closed at any turn of a reconciler's loop. The registry's reconciler for a
  catalog may be missing. The provider of sources may be missing, and a key may have no source. A
  catalog is printed by its name.\<close>

record 'c sub_world =
  sw_now :: nat
  sw_global :: string
  sw_hash :: "SubscriptionCondition list \<Rightarrow> 64 word"
  sw_planDone :: "nat \<Rightarrow> bool"
  sw_healthDone :: "nat \<Rightarrow> bool"
  sw_updateStatus :: "SSub \<Rightarrow> 'c \<Rightarrow> (string + SSub) \<times> 'c"
  sw_enqueue :: "string \<Rightarrow> 'c \<Rightarrow> 'c"
  sw_getPlan :: "string \<Rightarrow> api_error + InstallPlan"
  sw_catalogs :: "string \<Rightarrow> string + CatalogSource list"
  sw_sort :: "(CatalogSource \<Rightarrow> CatalogSource \<Rightarrow> bool) \<Rightarrow> CatalogSource list \<Rightarrow> CatalogSource list"
  sw_registry :: "CatalogSource \<Rightarrow> (string + bool) option"
  sw_reference :: "CatalogSource \<Rightarrow> string + ObjectReference"
  sw_sources :: "(string \<Rightarrow> SourceKey \<Rightarrow> (string + Entry list) option) option"
  sw_deprecations :: "nat \<Rightarrow> Deprecations"

definition hashEqual :: "'c sub_world \<Rightarrow> SubscriptionCondition list \<Rightarrow> SubscriptionCondition list \<Rightarrow> bool" where
  "hashEqual W a b \<longleftrightarrow> sw_hash W a = sw_hash W b"

section \<open>The health of catalogs\<close>

definition targets :: "SSub \<Rightarrow> CatalogHealth \<Rightarrow> bool" where
  "targets sub h \<longleftrightarrow> or_Namespace (ch_Ref h) = sub_CatalogSourceNamespace sub \<and> or_Name (ch_Ref h) = sub_CatalogSource sub"

definition uid :: "CatalogHealth \<Rightarrow> string" where
  "uid h = or_UID (ch_Ref h)"

definition healthSet :: "CatalogHealth list \<Rightarrow> string \<Rightarrow> CatalogHealth option" where
  "healthSet hs = map_of (rev (map (\<lambda>h. (uid h, h)) hs))"

definition sameHealth :: "CatalogHealth \<Rightarrow> CatalogHealth \<Rightarrow> bool" where
  "sameHealth h h' \<longleftrightarrow> ch_Healthy h = ch_Healthy h' \<and> uid h = uid h'"

text \<open>The state that the health of the catalogs amounts to, with its condition.\<close>

definition judgeHealth :: "SSub \<Rightarrow> CatalogHealth list \<Rightarrow> typestate \<times> SubscriptionCondition" where
  "judgeHealth sub hs =
     (let target = sub_CatalogSourceNamespace sub @ ''/'' @ sub_CatalogSource sub;
          cond0 = condOf (sb_Conditions sub) CatalogSourcesUnhealthy;
          cond = (if list_ex (\<lambda>h. targets sub h \<and> \<not> ch_Healthy h) hs
                  then cond0\<lparr>sc_Message := ''targeted catalogsource '' @ target @ '' unhealthy''\<rparr> else cond0)
      in if \<not> list_ex (targets sub) hs
         then (catalogUnhealthyState, cond\<lparr>sc_Message := ''targeted catalogsource '' @ target @ '' missing'',
                 sc_Status := ConditionTrue, sc_Reason := ''UnhealthyCatalogSourceFound''\<rparr>)
         else if \<not> list_all ch_Healthy hs
         then (catalogUnhealthyState, cond\<lparr>sc_Status := ConditionTrue, sc_Reason := ''UnhealthyCatalogSourceFound''\<rparr>)
         else (catalogHealthyState, cond\<lparr>sc_Status := ConditionFalse, sc_Reason := ''AllCatalogSourcesHealthy'',
                 sc_Message := ''all available catalogsources are healthy''\<rparr>))"

text \<open>The comparison with the recorded health: the condition, and whether to update in any case.\<close>

definition compareHealth :: "SSub \<Rightarrow> CatalogHealth list \<Rightarrow> SubscriptionCondition \<Rightarrow> SubscriptionCondition \<times> bool" where
  "compareHealth sub hs cond =
     (let numNew = length (remdups (map uid hs)); numOld = length (su_CatalogHealth sub)
      in if numNew > numOld then (cond\<lparr>sc_Reason := ''CatalogSourcesAdded''\<rparr>, True)
         else if numNew < numOld then (cond\<lparr>sc_Reason := ''CatalogSourcesDeleted''\<rparr>, True)
         else if numNew = 0 then (cond\<lparr>sc_Reason := ''NoCatalogSourcesFound'',
                sc_Message := ''dependency resolution requires at least one catalogsource''\<rparr>, True)
         else if list_all (\<lambda>old. case healthSet hs (uid old) of None \<Rightarrow> False | Some new \<Rightarrow> sameHealth new old) (su_CatalogHealth sub)
         then (cond, False)
         else (cond\<lparr>sc_Reason := ''CatalogSourcesUpdated''\<rparr>, False))"

definition UpdateHealth :: "nat \<Rightarrow> CatalogHealth list \<Rightarrow> SSub \<Rightarrow> typestate \<times> SSub \<times> bool" where
  "UpdateHealth now hs sub =
     (case judgeHealth sub hs of
        (known, judged) \<Rightarrow>
          (case compareHealth sub hs judged of
             (cond, update) \<Rightarrow>
               if \<not> update \<and> cond = condOf (sb_Conditions sub) CatalogSourcesUnhealthy then (known, sub, False)
               else (known, sub\<lparr>sb_LastUpdated := now, sb_Conditions := Sub_SetCondition cond (sb_Conditions sub),
                       su_CatalogHealth := hs\<rparr>, True)))"

definition healthy :: "'c sub_world \<Rightarrow> CatalogSource \<Rightarrow> string + bool" where
  "healthy W catalog =
     (if cs_Reason catalog = ''SpecInvalidError'' then Inr False
      else case sw_registry W catalog of
        None \<Rightarrow> Inl (''could not get reconciler for catalog: '' @ cs_Name catalog)
      | Some r \<Rightarrow> r)"

definition health :: "'c sub_world \<Rightarrow> CatalogSource \<Rightarrow> string + CatalogHealth" where
  "health W catalog =
     bind_err (healthy W catalog) (\<lambda>ok.
     bind_err (sw_reference W catalog) (\<lambda>ref.
       Inr \<lparr>ch_Ref = ref, ch_LastUpdated = sw_now W, ch_Healthy = ok\<rparr>))"

definition catalogHealth :: "'c sub_world \<Rightarrow> string \<Rightarrow> string + CatalogHealth list" where
  "catalogHealth W namespace =
     bind_err (sw_catalogs W namespace) (\<lambda>own.
     bind_err (if namespace \<noteq> sw_global W then sw_catalogs W (sw_global W) else Inr []) (\<lambda>globals.
       let results = map (health W)
             (sw_sort W (\<lambda>a b. cs_Namespace a @ cs_Name a < cs_Namespace b @ cs_Name b) (own @ globals))
       in case aggregateText (List.map_filter (\<lambda>r. case r of Inl e \<Rightarrow> Some e | Inr _ \<Rightarrow> None) results) of
            Some e \<Rightarrow> Inl e
          | None \<Rightarrow> Inr (List.map_filter (\<lambda>r. case r of Inl _ \<Rightarrow> None | Inr h \<Rightarrow> Some h) results)))"

section \<open>Deprecations\<close>

abbreviation PackageDeprecated :: string where "PackageDeprecated \<equiv> ''PackageDeprecated''"
abbreviation ChannelDeprecated :: string where "ChannelDeprecated \<equiv> ''ChannelDeprecated''"
abbreviation BundleDeprecated :: string where "BundleDeprecated \<equiv> ''BundleDeprecated''"

text \<open>One kind of deprecation: the conditions, the messages so far and whether something changed.\<close>

definition deprecate :: "string \<Rightarrow> string \<times> string option \<Rightarrow> SubscriptionCondition list \<times> string list \<times> bool
    \<Rightarrow> SubscriptionCondition list \<times> string list \<times> bool" where
  "deprecate channel = (\<lambda>(t, deprecation) (conds, rollup, changed).
     let old = condOf conds t
     in case deprecation of
          Some message \<Rightarrow>
            if t = ChannelDeprecated \<and> channel = [] then (without [t] conds, rollup, changed \<or> sc_Status old = ConditionTrue)
            else if sc_Message old \<noteq> message
            then (Sub_SetCondition \<lparr>sc_Type = t, sc_Status = ConditionTrue, sc_Reason = [], sc_Message = message\<rparr> conds, rollup @ [message], True)
            else (conds, rollup @ [message], changed)
        | None \<Rightarrow>
            if sc_Status old = ConditionTrue then (without [t] conds, rollup, True) else (conds, rollup, changed))"

definition applyDeprecations :: "Deprecations \<Rightarrow> SSub \<Rightarrow> bool \<times> SSub" where
  "applyDeprecations d sub =
     (case fold (deprecate (sub_Channel sub)) [(PackageDeprecated, dp_Package d), (ChannelDeprecated, dp_Channel d), (BundleDeprecated, dp_Bundle d)]
             (sb_Conditions sub, [], False) of
        (conds, rollup, changed) \<Rightarrow>
          if \<not> changed then (False, sub\<lparr>sb_Conditions := conds\<rparr>)
          else (True, sub\<lparr>sb_Conditions :=
                 (if rollup \<noteq> [] then Sub_SetCondition \<lparr>sc_Type = ''Deprecated'', sc_Status = ConditionTrue, sc_Reason = [],
                                         sc_Message = Join rollup ''; ''\<rparr> conds
                  else without [''Deprecated''] conds)\<rparr>))"

definition matchesSub :: "SSub \<Rightarrow> Entry \<Rightarrow> bool" where
  "matchesSub sub entry \<longleftrightarrow> E_SourceInfo entry \<noteq> None \<and> Entry_Package entry = sub_Package sub
     \<and> (sub_Channel sub = [] \<or> Entry_Channel entry = sub_Channel sub) \<and> sub_InstalledCSV sub = E_Name entry"

definition entryDeprecations :: "'c sub_world \<Rightarrow> Entry \<Rightarrow> Deprecations" where
  "entryDeprecations W entry =
     (case E_SourceInfo entry of
        Some si \<Rightarrow> (case SI_Deprecations si of Some a \<Rightarrow> sw_deprecations W a | None \<Rightarrow> \<lparr>dp_Package = None, dp_Channel = None, dp_Bundle = None\<rparr>)
      | None \<Rightarrow> \<lparr>dp_Package = None, dp_Channel = None, dp_Bundle = None\<rparr>)"

definition updateDeprecatedStatus :: "'c sub_world \<Rightarrow> SSub \<Rightarrow> string + bool \<times> SSub" where
  "updateDeprecatedStatus W sub =
     (case sw_sources W of
        None \<Rightarrow> Inr (False, sub)
      | Some sources \<Rightarrow>
          (case sources (sub_CatalogSourceNamespace sub)
                  \<lparr>SK_Name = sub_CatalogSource sub, SK_Namespace = sub_CatalogSourceNamespace sub\<rparr> of
             None \<Rightarrow> Inr (False, sub)
           | Some snapshot \<Rightarrow>
               bind_err snapshot (\<lambda>entries.
                 case find (matchesSub sub) entries of
                   None \<Rightarrow> Inr (False, sub)
                 | Some entry \<Rightarrow> Inr (applyDeprecations (entryDeprecations W entry) sub))))"

section \<open>The InstallPlan\<close>

fun ipPhaseText :: "InstallPlanPhase \<Rightarrow> string" where
  "ipPhaseText InstallPlanPhaseNone = []"
| "ipPhaseText InstallPlanPhasePlanning = ''Planning''"
| "ipPhaseText InstallPlanPhaseRequiresApproval = ''RequiresApproval''"
| "ipPhaseText InstallPlanPhaseInstalling = ''Installing''"
| "ipPhaseText InstallPlanPhaseComplete = ''Complete''"
| "ipPhaseText InstallPlanPhaseFailed = ''Failed''"

definition lookupMessage :: "BundleLookup \<Rightarrow> string option" where
  "lookupMessage l =
     (case find (\<lambda>c. bc_Type c = ''BundleLookupPending'') (bl_Conditions l) of
        Some c \<Rightarrow> if bc_Status c \<noteq> ConditionUnknown \<and> bc_Message c \<noteq> [] then Some (bc_Message c @ ''.'') else None
      | None \<Rightarrow> None)"

definition extractMessage :: "InstallPlan \<Rightarrow> string" where
  "extractMessage plan =
     (let cond = GetCondition (ip_Conditions plan) InstallPlanInstalled
      in if ic_Status cond \<noteq> ConditionUnknown \<and> ic_Message cond \<noteq> [] then ic_Message cond
         else Join (List.map_filter lookupMessage (ip_BundleLookups plan)) '' '')"

text \<open>The state and the condition, if any, that the phase of a plan gives its subscriptions.\<close>

definition planCondition :: "InstallPlan \<Rightarrow> typestate \<times> SubscriptionCondition option" where
  "planCondition plan =
     (case ip_Phase plan of
        InstallPlanPhaseFailed \<Rightarrow>
          let installed = GetCondition (ip_Conditions plan) InstallPlanInstalled
          in (installPlanFailedState, Some \<lparr>sc_Type = InstallPlanFailed, sc_Status = ConditionTrue,
                sc_Reason = (if ic_Status installed = ConditionFalse then ic_Reason installed else ''InstallPlanFailed''),
                sc_Message = extractMessage plan\<rparr>)
      | InstallPlanPhaseComplete \<Rightarrow> (installPlanInstalledState, None)
      | phase \<Rightarrow> (installPlanPendingState, Some \<lparr>sc_Type = InstallPlanPending, sc_Status = ConditionTrue,
                sc_Reason = (if phase = InstallPlanPhaseNone then ''InstallPlanNotYetReconciled'' else ipPhaseText phase),
                sc_Message = extractMessage plan\<rparr>))"

text \<open>The end of both checks: nothing is written if the hash of the conditions is the same.\<close>

definition writeConditions :: "'c sub_world \<Rightarrow> typestate \<Rightarrow> SSub \<Rightarrow> SSub \<Rightarrow> 'c \<Rightarrow> (string + subState) \<times> 'c" where
  "writeConditions W known sub out c =
     (if hashEqual W (sb_Conditions out) (sb_Conditions sub) then (Inr \<lparr>ss_type = known, ss_sub = sub\<rparr>, c)
      else case sw_updateStatus W (out\<lparr>sb_LastUpdated := sw_now W\<rparr>) c of
        (Inl e, c') \<Rightarrow> (Inl e, c')
      | (Inr updated, c') \<Rightarrow> (Inr \<lparr>ss_type = known, ss_sub = updated\<rparr>, c'))"

definition InstallPlanNotFound :: "'c sub_world \<Rightarrow> SSub \<Rightarrow> 'c \<Rightarrow> (string + subState) \<times> 'c" where
  "InstallPlanNotFound W sub c =
     (let conds = without [InstallPlanPending, InstallPlanFailed] (sb_Conditions sub);
          out = (if sb_State sub = SubscriptionStateUpgradePending
                 then sub\<lparr>sb_Conditions := conds, sb_InstallPlanRef := None, sb_Install := None, sb_CurrentCSV := [],
                        sb_State := SubscriptionStateNone, sb_LastUpdated := sw_now W\<rparr>
                 else sub\<lparr>sb_Conditions := Sub_SetCondition ((condOf conds InstallPlanMissing)\<lparr>sc_Status := ConditionTrue,
                        sc_Reason := ''ReferencedInstallPlanNotFound''\<rparr>) conds\<rparr>)
      in writeConditions W installPlanMissingState sub out c)"

definition CheckInstallPlanStatus :: "'c sub_world \<Rightarrow> InstallPlan \<Rightarrow> SSub \<Rightarrow> 'c \<Rightarrow> (string + subState) \<times> 'c" where
  "CheckInstallPlanStatus W plan sub c =
     (let conds = without [InstallPlanMissing, InstallPlanPending, InstallPlanFailed] (sb_Conditions sub);
          (known, cond) = planCondition plan
      in writeConditions W known sub
           (sub\<lparr>sb_Conditions := (case cond of None \<Rightarrow> conds | Some cond \<Rightarrow> Sub_SetCondition cond conds)\<rparr>) c)"

section \<open>The reconcilers\<close>

text \<open>One turn of a reconciler's loop stays, moves to another state, ends with an error and the
  state, if any, that is returned with it, or panics.\<close>

datatype turn = toSelf | goTo subState | endWith "subState option" string | panics

definition healthTurn :: "'c sub_world \<Rightarrow> subState \<Rightarrow> 'c \<Rightarrow> turn \<times> 'c" where
  "healthTurn W s c =
     (if isCatalogHealthKnownState (ss_type s) then (toSelf, c)
      else if isCatalogHealthState (ss_type s) then
        (case catalogHealth W (sub_Namespace (ss_sub s)) of
           Inl e \<Rightarrow> (endWith (Some s) e, c)
         | Inr hs \<Rightarrow>
             (case UpdateHealth (sw_now W) hs (ss_sub s) of
                (known, sub1, healthUpdated) \<Rightarrow>
                  (case (if healthUpdated then sw_updateStatus W sub1 c else (Inr sub1, c)) of
                     (Inl e, c1) \<Rightarrow> (endWith None e, c1)
                   | (Inr _, c1) \<Rightarrow>
                       (case updateDeprecatedStatus W sub1 of
                          Inl e \<Rightarrow> (endWith (Some \<lparr>ss_type = known, ss_sub = sub1\<rparr>) e, c1)
                        | Inr (deprecationUpdated, sub2) \<Rightarrow>
                            let next = \<lparr>ss_type = known, ss_sub = sub2\<rparr>
                            in (case (if deprecationUpdated then sw_updateStatus W sub2 c1 else (Inr sub2, c1)) of
                                  (Inl e, c2) \<Rightarrow> (endWith (Some next) e, c2)
                                | (Inr _, c2) \<Rightarrow> (goTo next, c2))))))
      else if isSubscriptionExistsState (ss_type s) then (goTo (s\<lparr>ss_type := catalogHealthState\<rparr>), c)
      else (toSelf, c))"

definition checkPlan :: "'c sub_world \<Rightarrow> string \<Rightarrow> SSub \<Rightarrow> 'c \<Rightarrow> (string + subState) \<times> 'c" where
  "checkPlan W ref sub c =
     (case sw_getPlan W ref of
        Inr plan \<Rightarrow> CheckInstallPlanStatus W plan sub c
      | Inl e \<Rightarrow> if IsNotFound e then InstallPlanNotFound W sub c else (Inl (apiErrorText e), c))"

definition planTurn :: "'c sub_world \<Rightarrow> subState \<Rightarrow> 'c \<Rightarrow> turn \<times> 'c" where
  "planTurn W s c =
     (if ss_type s = noInstallPlanReferencedState \<or> isInstallPlanKnownState (ss_type s) then (toSelf, c)
      else if isInstallPlanReferencedState (ss_type s) then
        (case sb_InstallPlanRef (ss_sub s) of
           None \<Rightarrow> (panics, c)
         | Some ref \<Rightarrow>
             (case checkPlan W ref (ss_sub s) c of
                (Inl e, c') \<Rightarrow> (endWith (Some s) e, c')
              | (Inr s', c') \<Rightarrow> (goTo s', c')))
      else if isInstallPlanState (ss_type s) then
        (goTo (s\<lparr>ss_type := (if sb_InstallPlanRef (ss_sub s) \<noteq> None then installPlanReferencedState else noInstallPlanReferencedState)\<rparr>), c)
      else if isSubscriptionExistsState (ss_type s) then (goTo (s\<lparr>ss_type := installPlanState\<rparr>), c)
      else (toSelf, c))"

text \<open>The loop of a reconciler. \<open>None\<close> is a panic or a loop that does not end.\<close>

type_synonym 'c reconciled = "(subState option \<times> string option) \<times> 'c"

partial_function (option) reconcileLoop :: "(nat \<Rightarrow> bool) \<Rightarrow> string \<Rightarrow> (subState \<Rightarrow> 'c \<Rightarrow> turn \<times> 'c) \<Rightarrow> nat \<Rightarrow> subState \<Rightarrow> 'c
    \<Rightarrow> 'c reconciled option" where
  [code]: "reconcileLoop ctxDone what take_turn n s c =
     (if ctxDone n then Some ((Some s, Some (''subscription '' @ what @ '' reconciliation context closed'')), c)
      else case take_turn s c of
        (toSelf, c') \<Rightarrow> Some ((Some s, None), c')
      | (goTo s', c') \<Rightarrow> reconcileLoop ctxDone what take_turn (Suc n) s' c'
      | (endWith out e, c') \<Rightarrow> Some ((out, Some e), c')
      | (panics, c') \<Rightarrow> None)"

definition planReconcile :: "'c sub_world \<Rightarrow> subState \<Rightarrow> 'c \<Rightarrow> 'c reconciled option" where
  "planReconcile W s c = reconcileLoop (sw_planDone W) ''installplan'' (planTurn W) 0 s c"

definition healthReconcile :: "'c sub_world \<Rightarrow> subState \<Rightarrow> 'c \<Rightarrow> 'c reconciled option" where
  "healthReconcile W s c = reconcileLoop (sw_healthDone W) ''catalog health'' (healthTurn W) 0 s c"

definition syncSubscriptions :: "'c sub_world \<Rightarrow> SSub \<Rightarrow> 'c \<Rightarrow> string option \<times> 'c" where
  "syncSubscriptions W sub c = (None, sw_enqueue W (sub_Namespace sub) c)"

definition ReconcilerFromLegacySyncHandler :: "(SSub \<Rightarrow> 'c \<Rightarrow> string option \<times> 'c) option \<Rightarrow> (SSub \<Rightarrow> 'c \<Rightarrow> 'c) option
    \<Rightarrow> subState \<Rightarrow> 'c \<Rightarrow> 'c reconciled option" where
  "ReconcilerFromLegacySyncHandler sync onDelete s c =
     (if ss_type s = subscriptionDeletedState
      then Some ((Some s, None), (case onDelete of None \<Rightarrow> c | Some f \<Rightarrow> f (ss_sub s) c))
      else case sync of
        None \<Rightarrow> Some ((Some s, None), c)
      | Some f \<Rightarrow> (case f (ss_sub s) c of (err, c') \<Rightarrow> Some ((Some s, err), c')))"

fun ReconcilerChain :: "(subState \<Rightarrow> 'c \<Rightarrow> 'c reconciled option) list \<Rightarrow> subState \<Rightarrow> 'c \<Rightarrow> 'c reconciled option" where
  "ReconcilerChain [] s c = Some ((Some s, None), c)"
| "ReconcilerChain (r # rs) s c =
     (case r s c of
        Some ((Some s', None), c') \<Rightarrow> ReconcilerChain rs s' c'
      | result \<Rightarrow> result)"

section \<open>The syncer\<close>

datatype event_type = ResourceAdded | ResourceUpdated | ResourceDeleted | otherEvent string

text \<open>The parts of the configuration that may be missing, and the global namespace.\<close>

record syncerConfig =
  cf_logger :: bool
  cf_clock :: bool
  cf_client :: bool
  cf_lister :: bool
  cf_subscriptionInformer :: bool
  cf_catalogInformer :: bool
  cf_installPlanInformer :: bool
  cf_subscriptionQueue :: bool
  cf_reconcilers :: nat
  cf_registryReconcilerFactory :: bool
  cf_globalCatalogNamespace :: string

definition validate :: "syncerConfig \<Rightarrow> string option" where
  "validate s = map_option (\<lambda>msg. ''invalid subscription syncer config: '' @ msg)
     (if \<not> cf_logger s then Some ''nil logger''
      else if \<not> cf_clock s then Some ''nil clock''
      else if \<not> cf_client s then Some ''nil client''
      else if \<not> cf_lister s then Some ''nil lister''
      else if \<not> cf_subscriptionInformer s then Some ''nil subscription informer''
      else if \<not> cf_catalogInformer s then Some ''nil catalog informer''
      else if \<not> cf_installPlanInformer s then Some ''nil installplan informer''
      else if \<not> cf_subscriptionQueue s then Some ''nil subscription queue''
      else if cf_reconcilers s = 0 then Some ''no reconcilers''
      else if \<not> cf_registryReconcilerFactory s then Some ''nil reconciler factory''
      else if cf_globalCatalogNamespace s = [] then Some ''global catalog namespace cannot be namespace all''
      else None)"

text \<open>The syncer and its health reconciler each have a field for the global namespace; the
  constructor sets that of the reconciler. The first component is the syncer's.\<close>

definition newSyncerWithConfig :: "syncerConfig \<Rightarrow> string + string \<times> string" where
  "newSyncerWithConfig config =
     (case validate config of
        Some e \<Rightarrow> Inl e
      | None \<Rightarrow> Inr ([], cf_globalCatalogNamespace config))"

definition initialState :: "event_type \<Rightarrow> SSub \<Rightarrow> subState" where
  "initialState ev sub = (NewSubscriptionState sub)\<lparr>ss_type :=
     (case ev of ResourceAdded \<Rightarrow> subscriptionAddedState | ResourceUpdated \<Rightarrow> subscriptionUpdatedState
      | ResourceDeleted \<Rightarrow> subscriptionDeletedState | otherEvent _ \<Rightarrow> subscriptionState)\<rparr>"

definition Sync :: "'c sub_world \<Rightarrow> event_type \<Rightarrow> string + SSub \<Rightarrow> 'c \<Rightarrow> (string option \<times> 'c) option" where
  "Sync W ev resource c =
     (case resource of
        Inl e \<Rightarrow> Some (Some e, c)
      | Inr sub \<Rightarrow>
          map_option (\<lambda>((out, err), c'). (err, c'))
            (ReconcilerChain [planReconcile W, healthReconcile W, ReconcilerFromLegacySyncHandler (Some (syncSubscriptions W)) None]
               (initialState ev sub) c))"

text \<open>A key is a namespace and a name; all keys of the cache, or those of a namespace.\<close>

definition catalogSubscriptionKeys :: "string \<Rightarrow> (string \<times> string) list \<Rightarrow> string \<Rightarrow> (string \<times> string) list" where
  "catalogSubscriptionKeys globalCatalogNamespace cached namespace =
     (if namespace = globalCatalogNamespace then cached else filter (\<lambda>k. fst k = namespace) cached)"

definition notifyOnCatalog :: "string \<Rightarrow> (string \<times> string) list \<Rightarrow> CatalogSource \<Rightarrow> (event_type \<times> string \<times> string) list" where
  "notifyOnCatalog globalCatalogNamespace cached catalog =
     map (Pair ResourceUpdated) (catalogSubscriptionKeys globalCatalogNamespace cached (cs_Namespace catalog))"

text \<open>A plan, or a tombstone with a plan, or the key of a plan.\<close>

datatype planObject = livePlan InstallPlan | planTombstone "InstallPlan option" | planKey string string

definition notifyOnInstallPlan :: "(string \<Rightarrow> string \<Rightarrow> string + InstallPlan) \<Rightarrow> planObject \<Rightarrow> (event_type \<times> string \<times> string) list" where
  "notifyOnInstallPlan getPlan obj =
     (case (case obj of livePlan plan \<Rightarrow> Some plan | planTombstone plan \<Rightarrow> plan
            | planKey ns name \<Rightarrow> (case getPlan ns name of Inl _ \<Rightarrow> None | Inr plan \<Rightarrow> Some plan)) of
        None \<Rightarrow> []
      | Some plan \<Rightarrow> map (\<lambda>owner. (ResourceUpdated, ip_Namespace plan, owner)) (ip_Owners plan))"

section \<open>A synchronisation returns\<close>

lemma reconcileLoop_toSelf:
  "\<not> ctxDone n \<Longrightarrow> take_turn s c = (toSelf, c') \<Longrightarrow> reconcileLoop ctxDone what take_turn n s c = Some ((Some s, None), c')"
  by (simp add: reconcileLoop.simps)

text \<open>The loop ends if every move lowers a rank of the states.\<close>

lemma reconcileLoop_returns:
  assumes "\<And>s c s' c'. ok s \<Longrightarrow> take_turn s c = (goTo s', c') \<Longrightarrow> ok s' \<and> height s' < (height s :: nat)"
    and "\<And>s c. ok s \<Longrightarrow> fst (take_turn s c) \<noteq> panics" and "ok s"
  shows "\<exists>r. reconcileLoop ctxDone what take_turn n s c = Some r"
  using assms(3)
proof (induction "height s" arbitrary: n s c rule: less_induct)
  case less
  obtain t c' where t: "take_turn s c = (t, c')" by fastforce
  show ?case
  proof (cases t)
    case (goTo s')
    with assms(1) [OF less.prems] t less.hyps [of s' "Suc n" c'] show ?thesis
      by (subst reconcileLoop.simps) auto
  qed (use t assms(2) [OF less.prems, of c] in \<open>simp_all add: reconcileLoop.simps\<close>)
qed

definition planRank :: "subState \<Rightarrow> nat" where
  "planRank s = (if isInstallPlanKnownState (ss_type s) \<or> ss_type s = noInstallPlanReferencedState then 0
     else if isInstallPlanReferencedState (ss_type s) then 1 else if isInstallPlanState (ss_type s) then 2 else 3)"

definition healthRank :: "subState \<Rightarrow> nat" where
  "healthRank s = (if isCatalogHealthKnownState (ss_type s) then 0 else if isCatalogHealthState (ss_type s) then 1 else 2)"

text \<open>A state that is said to have a reference to a plan has one.\<close>

definition referenced :: "subState \<Rightarrow> bool" where
  "referenced s \<longleftrightarrow> (ss_type s = installPlanReferencedState \<longrightarrow> sb_InstallPlanRef (ss_sub s) \<noteq> None)"

lemmas typestates = isSubscriptionExistsState_def isCatalogHealthKnownState_def isCatalogHealthState_def isInstallPlanKnownState_def
  isInstallPlanReferencedState_def isInstallPlanState_def

lemma checked_known:
  "checkPlan W ref sub c = (Inr s, c') \<Longrightarrow> isInstallPlanKnownState (ss_type s)"
  by (auto simp: checkPlan_def CheckInstallPlanStatus_def InstallPlanNotFound_def writeConditions_def planCondition_def Let_def typestates
      split: if_splits prod.splits sum.splits InstallPlanPhase.splits)

lemma planTurn_moves:
  assumes "planTurn W s c = (goTo s', c')" "referenced s"
  shows "referenced s' \<and> planRank s' < planRank s"
proof (cases "ss_type s = installPlanReferencedState")
  case True
  with assms have "isInstallPlanKnownState (ss_type s')"
    by (auto simp: planTurn_def typestates split: option.splits prod.splits sum.splits dest!: checked_known)
  then show ?thesis using True by (auto simp: referenced_def planRank_def typestates)
next
  case False
  with assms show ?thesis by (auto simp: planTurn_def referenced_def planRank_def typestates split: if_splits)
qed

lemma planTurn_no_panic: "referenced s \<Longrightarrow> fst (planTurn W s c) \<noteq> panics"
  by (auto simp: planTurn_def referenced_def typestates split: option.splits prod.splits sum.splits)

lemma healthTurn_moves: "healthTurn W s c = (goTo s', c') \<Longrightarrow> healthRank s' < healthRank s"
  by (auto simp: healthTurn_def healthRank_def typestates UpdateHealth_def judgeHealth_def Let_def
      split: if_splits sum.splits prod.splits)

lemma healthTurn_no_panic: "fst (healthTurn W s c) \<noteq> panics"
  by (auto simp: healthTurn_def Let_def split: sum.splits prod.splits)

lemma planReconcile_returns: "referenced s \<Longrightarrow> \<exists>r. planReconcile W s c = Some r"
  unfolding planReconcile_def
  by (rule reconcileLoop_returns [where ok = referenced and height = planRank]) (auto dest: planTurn_moves planTurn_no_panic)

lemma healthReconcile_returns: "\<exists>r. healthReconcile W s c = Some r"
  unfolding healthReconcile_def
  by (rule reconcileLoop_returns [where ok = "\<lambda>_. True" and height = healthRank]) (auto dest: healthTurn_moves simp: healthTurn_no_panic)

lemma referenced_initial: "referenced (initialState ev sub)"
  by (simp add: referenced_def initialState_def split: event_type.split)

text \<open>A synchronisation of a subscription returns, for every event and whatever the API server,
  the catalogs and the context do: the reconcilers never look for the InstallPlan of a
  subscription without a reference, and their loops end.\<close>

lemma Sync_returns: "\<exists>err c'. Sync W ev resource c = Some (err, c')"
proof (cases resource)
  case (Inr sub)
  obtain out err c1 where p: "planReconcile W (initialState ev sub) c = Some ((out, err), c1)"
    using planReconcile_returns [OF referenced_initial] by (metis surj_pair)
  show ?thesis
  proof (cases "\<exists>s. out = Some s \<and> err = None")
    case True
    then obtain s where s: "out = Some s" "err = None" by blast
    obtain out2 err2 c2 where "healthReconcile W s c1 = Some ((out2, err2), c2)"
      using healthReconcile_returns by (metis surj_pair)
    then show ?thesis using p s Inr
      by (auto simp: Sync_def ReconcilerFromLegacySyncHandler_def syncSubscriptions_def split: option.splits)
  next
    case False
    then show ?thesis using p Inr by (cases out; cases err) (auto simp: Sync_def)
  qed
qed (simp add: Sync_def)

section \<open>Conditions\<close>

lemma condOf_set: "condOf (Sub_SetCondition c cs) t = (if sc_Type c = t then c else condOf cs t)"
  by (induction c cs rule: Sub_SetCondition.induct) (auto simp: condOf_def)

lemma condOf_without: "condOf (without ts cs) t = (if t \<in> set ts then condOf [] t else condOf cs t)"
proof -
  have "find (\<lambda>c. sc_Type c = t) (without ts cs) = (if t \<in> set ts then None else find (\<lambda>c. sc_Type c = t) cs)"
    by (induction cs) (auto simp: without_def)
  then show ?thesis by (simp add: condOf_def)
qed

lemma without_set: "without ts (Sub_SetCondition c cs) = (if sc_Type c \<in> set ts then without ts cs else Sub_SetCondition c (without ts cs))"
  by (induction c cs rule: Sub_SetCondition.induct) (auto simp: without_def)

lemma without_without: "set ts \<subseteq> set us \<Longrightarrow> without us (without ts cs) = without us cs"
  by (auto simp: without_def intro: filter_cong)

lemma without_idem [simp]: "without ts (without ts cs) = without ts cs"
  by (simp add: without_def)

lemma set_set: "Sub_SetCondition c (Sub_SetCondition c cs) = Sub_SetCondition c cs"
  by (induction c cs rule: Sub_SetCondition.induct) auto

lemma condOf_type [simp]: "sc_Type (condOf cs t) = t"
  by (auto simp: condOf_def find_Some_iff split: option.split)

lemmas conditions = condOf_set condOf_without

section \<open>A cluster that stores a subscription\<close>

text \<open>The API server refuses the update of a revision that is not the latest, and gives the
  stored one a new revision.\<close>

record subStore =
  sr_sub :: SSub
  sr_queue :: "string list"

definition storeStatus :: "SSub \<Rightarrow> subStore \<Rightarrow> (string + SSub) \<times> subStore" where
  "storeStatus sub c =
     (if su_ResourceVersion sub = su_ResourceVersion (sr_sub c)
      then let stored = sub\<lparr>su_ResourceVersion := Suc (su_ResourceVersion sub)\<rparr> in (Inr stored, c\<lparr>sr_sub := stored\<rparr>)
      else (Inl ''the object has been modified'', c))"

definition stores :: "subStore sub_world \<Rightarrow> bool" where
  "stores W \<longleftrightarrow> sw_updateStatus W = storeStatus \<and> (\<forall>ns c. sr_sub (sw_enqueue W ns c) = sr_sub c)
     \<and> (\<forall>n. \<not> sw_planDone W n \<and> \<not> sw_healthDone W n)"

definition at :: "'c sub_world \<Rightarrow> nat \<Rightarrow> 'c sub_world" where
  "at W t = W\<lparr>sw_now := t\<rparr>"

text \<open>The latest revision is synchronised; what remains of it is the stored subscription.\<close>

definition syncStored :: "subStore sub_world \<Rightarrow> subStore \<Rightarrow> subStore" where
  "syncStored W c = (case Sync W ResourceUpdated (Inr (sr_sub c)) c of Some (err, c') \<Rightarrow> c' | None \<Rightarrow> c)"

text \<open>What a synchronisation writes: first for the InstallPlan, then for the catalogs, then for
  the deprecations unless the health of the catalogs was written.\<close>

definition blocked :: "'c sub_world \<Rightarrow> SSub \<Rightarrow> bool" where
  "blocked W sub \<longleftrightarrow> (\<exists>ref e. sb_InstallPlanRef sub = Some ref \<and> sw_getPlan W ref = Inl e \<and> \<not> IsNotFound e)"

definition planConds :: "'c sub_world \<Rightarrow> string \<Rightarrow> SSub \<Rightarrow> SSub" where
  "planConds W ref sub =
     (case sw_getPlan W ref of
        Inr plan \<Rightarrow>
          let conds = without [InstallPlanMissing, InstallPlanPending, InstallPlanFailed] (sb_Conditions sub)
          in sub\<lparr>sb_Conditions := (case snd (planCondition plan) of None \<Rightarrow> conds | Some cond \<Rightarrow> Sub_SetCondition cond conds)\<rparr>
      | Inl _ \<Rightarrow>
          let conds = without [InstallPlanPending, InstallPlanFailed] (sb_Conditions sub)
          in if sb_State sub = SubscriptionStateUpgradePending
             then sub\<lparr>sb_Conditions := conds, sb_InstallPlanRef := None, sb_Install := None, sb_CurrentCSV := [],
                    sb_State := SubscriptionStateNone, sb_LastUpdated := sw_now W\<rparr>
             else sub\<lparr>sb_Conditions := Sub_SetCondition ((condOf conds InstallPlanMissing)\<lparr>sc_Status := ConditionTrue,
                    sc_Reason := ''ReferencedInstallPlanNotFound''\<rparr>) conds\<rparr>)"

definition planPart :: "'c sub_world \<Rightarrow> SSub \<Rightarrow> SSub" where
  "planPart W sub =
     (case sb_InstallPlanRef sub of
        None \<Rightarrow> sub
      | Some ref \<Rightarrow>
          if hashEqual W (sb_Conditions (planConds W ref sub)) (sb_Conditions sub) then sub
          else (planConds W ref sub)\<lparr>sb_LastUpdated := sw_now W, su_ResourceVersion := Suc (su_ResourceVersion sub)\<rparr>)"

definition deprecationPart :: "'c sub_world \<Rightarrow> SSub \<Rightarrow> SSub" where
  "deprecationPart W sub =
     (case updateDeprecatedStatus W sub of
        Inr (True, sub') \<Rightarrow> sub'\<lparr>su_ResourceVersion := Suc (su_ResourceVersion sub')\<rparr>
      | _ \<Rightarrow> sub)"

definition healthPart :: "'c sub_world \<Rightarrow> SSub \<Rightarrow> SSub" where
  "healthPart W sub =
     (case catalogHealth W (sub_Namespace sub) of
        Inl _ \<Rightarrow> sub
      | Inr hs \<Rightarrow>
          (case UpdateHealth (sw_now W) hs sub of
             (known, sub', updated) \<Rightarrow>
               if updated then sub'\<lparr>su_ResourceVersion := Suc (su_ResourceVersion sub')\<rparr> else deprecationPart W sub))"

lemma applyDeprecations_keeps: "\<exists>conds. snd (applyDeprecations d sub) = sub\<lparr>sb_Conditions := conds\<rparr>"
  by (auto simp: applyDeprecations_def split: prod.splits)

lemma updateDeprecatedStatus_keeps: "updateDeprecatedStatus W sub = Inr (b, sub') \<Longrightarrow> \<exists>conds. sub' = sub\<lparr>sb_Conditions := conds\<rparr>"
proof -
  assume "updateDeprecatedStatus W sub = Inr (b, sub')"
  then consider "sub' = sub" | d where "applyDeprecations d sub = (b, sub')"
    by (auto simp: updateDeprecatedStatus_def go_err split: option.splits)
  then show ?thesis
  proof cases
    case 1
    then show ?thesis by (intro exI [of _ "sb_Conditions sub"]) simp
  next
    case 2
    then show ?thesis using applyDeprecations_keeps [of d sub] by simp
  qed
qed

lemma UpdateHealth_keeps:
  "UpdateHealth now hs sub = (known, sub', b) \<Longrightarrow>
     \<exists>conds. sub' = (if b then sub\<lparr>sb_LastUpdated := now, sb_Conditions := conds, su_CatalogHealth := hs\<rparr> else sub)"
  by (auto simp: UpdateHealth_def split: prod.splits if_splits)

lemma UpdateHealth_known: "UpdateHealth now hs sub = (known, sub', b) \<Longrightarrow> isCatalogHealthKnownState known"
  by (auto simp: UpdateHealth_def judgeHealth_def typestates Let_def split: prod.splits if_splits)

lemma reconcileLoop_goTo:
  "\<not> ctxDone n \<Longrightarrow> take_turn s c = (goTo s', c') \<Longrightarrow>
    reconcileLoop ctxDone what take_turn n s c = reconcileLoop ctxDone what take_turn (Suc n) s' c'"
  by (subst reconcileLoop.simps) simp

lemma reconcileLoop_endWith:
  "\<not> ctxDone n \<Longrightarrow> take_turn s c = (endWith out e, c') \<Longrightarrow> reconcileLoop ctxDone what take_turn n s c = Some ((out, Some e), c')"
  by (subst reconcileLoop.simps) simp

lemmas reconcileLoop_step = reconcileLoop_goTo reconcileLoop_endWith reconcileLoop_toSelf

text \<open>The check of a referenced plan against a cluster that stores the subscription.\<close>

lemma storeStatus_latest:
  "su_ResourceVersion sub = su_ResourceVersion (sr_sub c) \<Longrightarrow>
    storeStatus sub c = (Inr (sub\<lparr>su_ResourceVersion := Suc (su_ResourceVersion sub)\<rparr>), c\<lparr>sr_sub := sub\<lparr>su_ResourceVersion := Suc (su_ResourceVersion sub)\<rparr>\<rparr>)"
  by (simp add: storeStatus_def Let_def)

lemma planTurn_referenced:
  assumes "stores W" "sr_sub c = sub" "sb_InstallPlanRef sub = Some ref" "\<not> blocked W sub"
  obtains known where "planTurn W \<lparr>ss_type = installPlanReferencedState, ss_sub = sub\<rparr> c
     = (goTo \<lparr>ss_type = known, ss_sub = planPart W sub\<rparr>, c\<lparr>sr_sub := planPart W sub\<rparr>)" "isInstallPlanKnownState known"
proof -
  have put: "writeConditions W known sub (planConds W ref sub) c = (Inr \<lparr>ss_type = known, ss_sub = planPart W sub\<rparr>, c\<lparr>sr_sub := planPart W sub\<rparr>)" for known
  proof -
    have "su_ResourceVersion (planConds W ref sub) = su_ResourceVersion (sr_sub c)"
      using assms(2) by (auto simp: planConds_def Let_def split: sum.split)
    then show ?thesis using assms(1-3)
      by (auto simp: writeConditions_def planPart_def stores_def storeStatus_latest)
  qed
  have "\<exists>known. checkPlan W ref sub c = writeConditions W known sub (planConds W ref sub) c"
  proof (cases "sw_getPlan W ref")
    case (Inr plan)
    then show ?thesis by (auto simp: checkPlan_def CheckInstallPlanStatus_def planConds_def Let_def split: prod.split)
  next
    case (Inl e)
    with assms(3,4) have "IsNotFound e" by (auto simp: blocked_def)
    with Inl show ?thesis by (auto simp: checkPlan_def InstallPlanNotFound_def planConds_def Let_def)
  qed
  then obtain known where known: "checkPlan W ref sub c = (Inr \<lparr>ss_type = known, ss_sub = planPart W sub\<rparr>, c\<lparr>sr_sub := planPart W sub\<rparr>)"
    using put by metis
  then have "planTurn W \<lparr>ss_type = installPlanReferencedState, ss_sub = sub\<rparr> c = (goTo \<lparr>ss_type = known, ss_sub = planPart W sub\<rparr>, c\<lparr>sr_sub := planPart W sub\<rparr>)"
    using assms(3) by (simp add: planTurn_def typestates)
  then show thesis using that checked_known [OF known] by simp
qed

lemma planReconcile_blocked:
  assumes "stores W" "blocked W sub"
  shows "\<exists>s e. planReconcile W \<lparr>ss_type = subscriptionUpdatedState, ss_sub = sub\<rparr> c = Some ((Some s, Some e), c)"
proof -
  obtain ref e where "sb_InstallPlanRef sub = Some ref" "sw_getPlan W ref = Inl e" "\<not> IsNotFound e"
    using assms(2) by (auto simp: blocked_def)
  then show ?thesis using assms(1)
    by (simp add: planReconcile_def reconcileLoop_step stores_def planTurn_def checkPlan_def typestates)
qed

lemma planReconcile_stored:
  assumes "stores W" "sr_sub c = sub" "\<not> blocked W sub"
  obtains s where "planReconcile W \<lparr>ss_type = subscriptionUpdatedState, ss_sub = sub\<rparr> c = Some ((Some s, None), c\<lparr>sr_sub := planPart W sub\<rparr>)"
    "ss_sub s = planPart W sub" "isInstallPlanState (ss_type s)"
proof (cases "sb_InstallPlanRef sub")
  case None
  then have "planReconcile W \<lparr>ss_type = subscriptionUpdatedState, ss_sub = sub\<rparr> c
      = Some ((Some \<lparr>ss_type = noInstallPlanReferencedState, ss_sub = sub\<rparr>, None), c)"
    using assms(1) by (simp add: planReconcile_def reconcileLoop_step stores_def planTurn_def typestates)
  with None show thesis using that assms(2) by (auto simp: planPart_def typestates)
next
  case (Some ref)
  from planTurn_referenced [OF assms(1,2) Some assms(3)] obtain known where
    k: "planTurn W \<lparr>ss_type = installPlanReferencedState, ss_sub = sub\<rparr> c
     = (goTo \<lparr>ss_type = known, ss_sub = planPart W sub\<rparr>, c\<lparr>sr_sub := planPart W sub\<rparr>)" "isInstallPlanKnownState known" .
  have "planTurn W \<lparr>ss_type = known, ss_sub = planPart W sub\<rparr> d = (toSelf, d)" for d
    using k(2) by (simp add: planTurn_def)
  then have "planReconcile W \<lparr>ss_type = subscriptionUpdatedState, ss_sub = sub\<rparr> c
      = Some ((Some \<lparr>ss_type = known, ss_sub = planPart W sub\<rparr>, None), c\<lparr>sr_sub := planPart W sub\<rparr>)"
    using assms(1) Some k(1)
    by (simp add: planReconcile_def reconcileLoop_step stores_def planTurn_def [of W "\<lparr>ss_type = subscriptionUpdatedState, ss_sub = sub\<rparr>"]
        planTurn_def [of W "\<lparr>ss_type = installPlanState, ss_sub = sub\<rparr>"] typestates)
  then show thesis using that k(2) by (auto simp: isInstallPlanState_def isInstallPlanReferencedState_def)
qed

text \<open>After the health was written the revision at hand is an old one, and what follows is refused.\<close>

lemma storeStatus_stale:
  "su_ResourceVersion sub \<noteq> su_ResourceVersion (sr_sub c) \<Longrightarrow> storeStatus sub c = (Inl ''the object has been modified'', c)"
  by (simp add: storeStatus_def)

lemma healthTurn_stored:
  assumes "stores W" "sr_sub c = sub"
  obtains (moves) s where "healthTurn W \<lparr>ss_type = catalogHealthState, ss_sub = sub\<rparr> c = (goTo s, c\<lparr>sr_sub := healthPart W sub\<rparr>)"
      "isCatalogHealthKnownState (ss_type s)"
    | (ends) out e where "healthTurn W \<lparr>ss_type = catalogHealthState, ss_sub = sub\<rparr> c = (endWith out e, c\<lparr>sr_sub := healthPart W sub\<rparr>)"
proof (cases "catalogHealth W (sub_Namespace sub)")
  case (Inl e)
  then show thesis using ends assms(2) by (simp add: healthTurn_def typestates healthPart_def)
next
  case (Inr hs)
  obtain known sub1 b where u: "UpdateHealth (sw_now W) hs sub = (known, sub1, b)" by (metis surj_pair)
  note known = UpdateHealth_known [OF u] and keeps = UpdateHealth_keeps [OF u]
  have sub1: "su_ResourceVersion sub1 = su_ResourceVersion sub" using keeps by (auto split: if_splits)
  have api: "sw_updateStatus W = storeStatus" using assms(1) by (simp add: stores_def)
  show thesis
  proof (cases "updateDeprecatedStatus W sub1")
    case (Inl e)
    with u Inr sub1 assms(2) keeps show thesis
      by (intro ends [of "Some \<lparr>ss_type = known, ss_sub = sub1\<rparr>" e])
        (auto simp: healthTurn_def typestates healthPart_def api storeStatus_latest deprecationPart_def)
  next
    case d: (Inr r)
    obtain b' sub2 where r: "r = (b', sub2)" by fastforce
    then have sub2: "su_ResourceVersion sub2 = su_ResourceVersion sub"
      using updateDeprecatedStatus_keeps [of W sub1 b' sub2] d sub1 by auto
    show thesis
    proof (cases "b \<and> b'")
      case True
      with u Inr d r sub1 sub2 assms(2) show thesis
        by (intro ends [of "Some \<lparr>ss_type = known, ss_sub = sub2\<rparr>" "''the object has been modified''"])
          (auto simp: healthTurn_def typestates healthPart_def api storeStatus_latest storeStatus_stale Let_def)
    next
      case False
      with u Inr d r sub1 sub2 assms(2) known keeps show thesis
        by (intro moves [of "\<lparr>ss_type = known, ss_sub = sub2\<rparr>"]) (auto simp: healthTurn_def isCatalogHealthState_def isCatalogHealthKnownState_def healthPart_def api
            storeStatus_latest deprecationPart_def Let_def)
    qed
  qed
qed

lemma healthReconcile_stored:
  assumes "stores W" "sr_sub c = sub" "isInstallPlanState t"
  shows "\<exists>out err. healthReconcile W \<lparr>ss_type = t, ss_sub = sub\<rparr> c = Some ((out, err), c\<lparr>sr_sub := healthPart W sub\<rparr>)"
proof -
  have "healthTurn W \<lparr>ss_type = t, ss_sub = sub\<rparr> c = (goTo \<lparr>ss_type = catalogHealthState, ss_sub = sub\<rparr>, c)"
    using assms(3) by (auto simp: healthTurn_def typestates)
  then have first: "healthReconcile W \<lparr>ss_type = t, ss_sub = sub\<rparr> c
      = reconcileLoop (sw_healthDone W) ''catalog health'' (healthTurn W) (Suc 0) \<lparr>ss_type = catalogHealthState, ss_sub = sub\<rparr> c"
    using assms(1) by (simp add: healthReconcile_def reconcileLoop_step stores_def)
  show ?thesis
  proof (cases rule: healthTurn_stored [OF assms(1,2)])
    case (1 s)
    then have "healthTurn W s d = (toSelf, d)" for d by (simp add: healthTurn_def)
    with 1 first assms(1) show ?thesis by (simp add: reconcileLoop_step stores_def)
  next
    case 2
    with first assms(1) show ?thesis by (simp add: reconcileLoop_step stores_def)
  qed
qed

lemma syncStored_blocked: "stores W \<Longrightarrow> blocked W (sr_sub c) \<Longrightarrow> syncStored W c = c"
  using planReconcile_blocked [of W "sr_sub c" c]
  by (auto simp: syncStored_def Sync_def initialState_def NewSubscriptionState_def)

lemma syncStored_parts:
  assumes "stores W" "\<not> blocked W (sr_sub c)"
  shows "sr_sub (syncStored W c) = healthPart W (planPart W (sr_sub c))"
proof -
  obtain s where s: "planReconcile W \<lparr>ss_type = subscriptionUpdatedState, ss_sub = sr_sub c\<rparr> c = Some ((Some s, None), c\<lparr>sr_sub := planPart W (sr_sub c)\<rparr>)"
    "ss_sub s = planPart W (sr_sub c)" "isInstallPlanState (ss_type s)"
    using planReconcile_stored [OF assms(1) refl assms(2)] .
  let ?sub = "planPart W (sr_sub c)"
  have "s = \<lparr>ss_type = ss_type s, ss_sub = ?sub\<rparr>" using s(2) by simp
  with healthReconcile_stored [OF assms(1) _ s(3), of "c\<lparr>sr_sub := ?sub\<rparr>" ?sub]
  obtain out err where h: "healthReconcile W s (c\<lparr>sr_sub := ?sub\<rparr>) = Some ((out, err), c\<lparr>sr_sub := healthPart W ?sub\<rparr>)" by auto
  have "sr_sub (sw_enqueue W ns d) = sr_sub d" for ns d using assms(1) by (simp add: stores_def)
  then show ?thesis using s(1) h
    by (cases out; cases err) (auto simp: syncStored_def Sync_def initialState_def NewSubscriptionState_def
        ReconcilerFromLegacySyncHandler_def syncSubscriptions_def)
qed

section \<open>Synchronisations come to rest\<close>

lemma at_simps [simp]:
  "sw_now (at W t) = t" "sw_global (at W t) = sw_global W" "sw_hash (at W t) = sw_hash W" "sw_planDone (at W t) = sw_planDone W"
  "sw_healthDone (at W t) = sw_healthDone W" "sw_updateStatus (at W t) = sw_updateStatus W" "sw_enqueue (at W t) = sw_enqueue W"
  "sw_getPlan (at W t) = sw_getPlan W" "sw_catalogs (at W t) = sw_catalogs W" "sw_sort (at W t) = sw_sort W"
  "sw_registry (at W t) = sw_registry W" "sw_reference (at W t) = sw_reference W" "sw_sources (at W t) = sw_sources W"
  "sw_deprecations (at W t) = sw_deprecations W"
  by (simp_all add: at_def)

lemma stores_at [simp]: "stores (at W t) = stores W"
  by (simp add: stores_def)

lemma at_same [simp]: "blocked (at W t) = blocked W" "hashEqual (at W t) = hashEqual W"
  "updateDeprecatedStatus (at W t) = updateDeprecatedStatus W" "deprecationPart (at W t) = deprecationPart W"
proof -
  show "updateDeprecatedStatus (at W t) = updateDeprecatedStatus W"
    by (rule ext) (simp add: updateDeprecatedStatus_def entryDeprecations_def cong: option.case_cong)
  then show "deprecationPart (at W t) = deprecationPart W" by (intro ext) (simp add: deprecationPart_def)
qed (auto simp: blocked_def hashEqual_def fun_eq_iff)

definition retime :: "nat \<Rightarrow> CatalogHealth list \<Rightarrow> CatalogHealth list" where
  "retime t hs = map (\<lambda>h. h\<lparr>ch_LastUpdated := t\<rparr>) hs"

lemma health_at: "health (at W t) x = map_sum id (\<lambda>h. h\<lparr>ch_LastUpdated := t\<rparr>) (health W x)"
proof -
  have "healthy (at W t) x = healthy W x" by (simp add: healthy_def)
  then show ?thesis by (cases "healthy W x"; cases "sw_reference W x") (simp_all add: health_def)
qed

lemma catalogHealth_at: "catalogHealth (at W t) ns = map_sum id (retime t) (catalogHealth W ns)"
proof -
  have "List.map_filter (\<lambda>r. case r of Inl e \<Rightarrow> Some e | Inr _ \<Rightarrow> None) (map (health (at W t)) xs)
      = List.map_filter (\<lambda>r. case r of Inl e \<Rightarrow> Some e | Inr _ \<Rightarrow> None) (map (health W) xs)"
    "List.map_filter (\<lambda>r. case r of Inl _ \<Rightarrow> None | Inr h \<Rightarrow> Some h) (map (health (at W t)) xs)
      = retime t (List.map_filter (\<lambda>r. case r of Inl _ \<Rightarrow> None | Inr h \<Rightarrow> Some h) (map (health W) xs))" for xs
    by (induction xs) (auto simp: health_at retime_def map_filter_simps split: sum.split)
  then show ?thesis
    by (auto simp: catalogHealth_def Let_def bind_err_def split: sum.split option.split)
qed

definition quietHealth :: "CatalogHealth list \<Rightarrow> SSub \<Rightarrow> bool" where
  "quietHealth hs sub \<longleftrightarrow> \<not> snd (snd (UpdateHealth 0 hs sub))"

definition sameCatalogs :: "SSub \<Rightarrow> SSub \<Rightarrow> bool" where
  "sameCatalogs a b \<longleftrightarrow> sub_CatalogSource a = sub_CatalogSource b \<and> sub_CatalogSourceNamespace a = sub_CatalogSourceNamespace b
     \<and> condOf (sb_Conditions a) CatalogSourcesUnhealthy = condOf (sb_Conditions b) CatalogSourcesUnhealthy
     \<and> su_CatalogHealth a = su_CatalogHealth b"

lemma sameCatalogs_parts: "sameCatalogs a b \<Longrightarrow> judgeHealth a hs = judgeHealth b hs \<and> compareHealth a hs cond = compareHealth b hs cond"
  by (simp add: sameCatalogs_def judgeHealth_def compareHealth_def targets_def [abs_def] Let_def)

lemma quietHealth_same: "sameCatalogs a b \<Longrightarrow> quietHealth hs a = quietHealth hs b"
  using sameCatalogs_parts [of a b hs]
  by (auto simp: quietHealth_def UpdateHealth_def sameCatalogs_def split: prod.splits)

lemma healthSet_retime: "healthSet (retime t hs) u = map_option (\<lambda>h. h\<lparr>ch_LastUpdated := t\<rparr>) (healthSet hs u)"
proof -
  have "map_of (map (\<lambda>h. (uid h, h\<lparr>ch_LastUpdated := t\<rparr>)) hs) u = map_option (\<lambda>h. h\<lparr>ch_LastUpdated := t\<rparr>) (map_of (map (\<lambda>h. (uid h, h)) hs) u)" for hs
    by (induction hs) (auto simp: uid_def)
  from this [of "rev hs"] show ?thesis by (simp add: healthSet_def retime_def rev_map comp_def uid_def)
qed

lemma judgeHealth_retime [simp]: "judgeHealth sub (retime t hs) = judgeHealth sub hs"
proof -
  have "list_ex (targets sub) (retime t hs) = list_ex (targets sub) hs" "list_all ch_Healthy (retime t hs) = list_all ch_Healthy hs"
    "list_ex (\<lambda>h. targets sub h \<and> \<not> ch_Healthy h) (retime t hs) = list_ex (\<lambda>h. targets sub h \<and> \<not> ch_Healthy h) hs"
    by (auto simp: retime_def list_ex_iff list_all_iff targets_def)
  then show ?thesis by (simp only: judgeHealth_def)
qed

lemma compareHealth_retime [simp]: "compareHealth sub (retime t hs) cond = compareHealth sub hs cond"
proof -
  have "map uid (retime t hs) = map uid hs" by (simp add: retime_def uid_def)
  moreover have "(case healthSet (retime t hs) u of None \<Rightarrow> False | Some new \<Rightarrow> sameHealth new old)
      = (case healthSet hs u of None \<Rightarrow> False | Some new \<Rightarrow> sameHealth new old)" for u old
    by (auto simp: healthSet_retime sameHealth_def uid_def split: option.split)
  ultimately show ?thesis by (simp add: compareHealth_def)
qed

text \<open>What an update of the health does, at any time.\<close>

lemma UpdateHealth_quiet: "quietHealth hs sub \<Longrightarrow> \<exists>known. UpdateHealth t (retime t hs) sub = (known, sub, False)"
  by (auto simp: quietHealth_def UpdateHealth_def split: prod.splits if_splits)

lemma UpdateHealth_loud:
  assumes "\<not> quietHealth hs sub"
  obtains known judged cond update where "judgeHealth sub hs = (known, judged)" "compareHealth sub hs judged = (cond, update)"
    "UpdateHealth t (retime t hs) sub = (known, sub\<lparr>sb_LastUpdated := t, sb_Conditions := Sub_SetCondition cond (sb_Conditions sub),
       su_CatalogHealth := retime t hs\<rparr>, True)"
proof -
  obtain known judged cond update where j: "judgeHealth sub hs = (known, judged)" "compareHealth sub hs judged = (cond, update)"
    by (metis surj_pair)
  with assms have "update \<or> cond \<noteq> condOf (sb_Conditions sub) CatalogSourcesUnhealthy"
    by (auto simp: quietHealth_def UpdateHealth_def)
  then show thesis using that [OF j] j by (simp add: UpdateHealth_def)
qed

lemma healthSet_own: "distinct (map uid hs) \<Longrightarrow> h \<in> set hs \<Longrightarrow> healthSet hs (uid h) = Some h"
  unfolding healthSet_def by (intro map_of_is_SomeI) (auto simp: comp_def distinct_rev rev_map [symmetric])

lemma compareHealth_recorded:
  assumes "su_CatalogHealth sub = retime t hs" "distinct (map uid hs)" "hs \<noteq> []"
  shows "compareHealth sub hs cond = (cond, False)"
proof -
  have "length (remdups (map uid hs)) = length (su_CatalogHealth sub)" "su_CatalogHealth sub \<noteq> []"
    using assms by (simp_all add: retime_def distinct_remdups_id)
  moreover have "list_all (\<lambda>old. case healthSet hs (uid old) of None \<Rightarrow> False | Some new \<Rightarrow> sameHealth new old) (su_CatalogHealth sub)"
  proof -
    have "healthSet hs (or_UID (ch_Ref h)) = Some h" if "h \<in> set hs" for h
      using healthSet_own [OF assms(2) that] by (simp add: uid_def)
    then show ?thesis by (auto simp: assms(1) retime_def list_all_iff sameHealth_def uid_def)
  qed
  ultimately show ?thesis by (simp add: compareHealth_def Let_def)
qed

lemma judgeHealth_again:
  assumes "judgeHealth sub hs = (known, judged)" "condOf (sb_Conditions sub') CatalogSourcesUnhealthy = judged"
    "sub_CatalogSource sub' = sub_CatalogSource sub" "sub_CatalogSourceNamespace sub' = sub_CatalogSourceNamespace sub"
  shows "judgeHealth sub' hs = (known, judged)"
  using assms(1) by (auto simp: judgeHealth_def Let_def targets_def [abs_def] assms(2-4) split: if_splits)

lemma judgeHealth_type: "judgeHealth sub hs = (known, judged) \<Longrightarrow> sc_Type judged = CatalogSourcesUnhealthy"
  by (auto simp: judgeHealth_def Let_def split: if_splits)

lemma recorded_then_quiet:
  assumes "su_CatalogHealth sub = retime t' hs" "distinct (map uid hs)" "hs \<noteq> []" "\<not> quietHealth hs sub"
    "UpdateHealth t (retime t hs) sub = (known, sub', b)"
  shows "quietHealth hs sub'"
proof -
  obtain judged where j: "judgeHealth sub hs = (known, judged)" "sub' = sub\<lparr>sb_LastUpdated := t,
      sb_Conditions := Sub_SetCondition judged (sb_Conditions sub), su_CatalogHealth := retime t hs\<rparr>"
    using UpdateHealth_loud [OF assms(4), of t] compareHealth_recorded [OF assms(1-3)] assms(5) by force
  then have c: "condOf (sb_Conditions sub') CatalogSourcesUnhealthy = judged" using judgeHealth_type [OF j(1)] by (simp add: condOf_set)
  with j have "judgeHealth sub' hs = (known, judged)" by (intro judgeHealth_again [OF j(1)]) auto
  moreover have "compareHealth sub' hs judged = (judged, False)" using j(2) assms(2,3) by (intro compareHealth_recorded [of _ t]) auto
  ultimately show ?thesis using c by (simp add: quietHealth_def UpdateHealth_def)
qed

text \<open>Deprecations: which of the three kinds changes something, and that nothing is left to change.\<close>

definition depChanges :: "string \<Rightarrow> string \<Rightarrow> string option \<Rightarrow> SubscriptionCondition \<Rightarrow> bool" where
  "depChanges channel t deprecation old \<longleftrightarrow>
     (case deprecation of
        Some message \<Rightarrow> if t = ChannelDeprecated \<and> channel = [] then sc_Status old = ConditionTrue else sc_Message old \<noteq> message
      | None \<Rightarrow> sc_Status old = ConditionTrue)"

lemma deprecate_flag: "snd (snd (deprecate ch (t, d) x)) \<longleftrightarrow> snd (snd x) \<or> depChanges ch t d (condOf (fst x) t)"
  by (auto simp: deprecate_def depChanges_def Let_def split: prod.split option.split)

lemma deprecate_other: "t' \<noteq> t \<Longrightarrow> condOf (fst (deprecate ch (t, d) x)) t' = condOf (fst x) t'"
  by (auto simp: deprecate_def Let_def conditions split: prod.split option.split)

lemma deprecate_done: "\<not> depChanges ch t d (condOf (fst (deprecate ch (t, d) x)) t)"
  by (auto simp: deprecate_def depChanges_def Let_def conditions condOf_def [of "[]"] split: prod.split option.split)

definition deprecated :: "SSub \<Rightarrow> Deprecations \<Rightarrow> SubscriptionCondition list \<times> string list \<times> bool" where
  "deprecated sub d = fold (deprecate (sub_Channel sub)) [(PackageDeprecated, dp_Package d), (ChannelDeprecated, dp_Channel d), (BundleDeprecated, dp_Bundle d)]
     (sb_Conditions sub, [], False)"

definition depLeft :: "SSub \<Rightarrow> Deprecations \<Rightarrow> bool" where
  "depLeft sub d \<longleftrightarrow> depChanges (sub_Channel sub) PackageDeprecated (dp_Package d) (condOf (sb_Conditions sub) PackageDeprecated)
     \<or> depChanges (sub_Channel sub) ChannelDeprecated (dp_Channel d) (condOf (sb_Conditions sub) ChannelDeprecated)
     \<or> depChanges (sub_Channel sub) BundleDeprecated (dp_Bundle d) (condOf (sb_Conditions sub) BundleDeprecated)"

lemma deprecated_flag: "snd (snd (deprecated sub d)) = depLeft sub d"
  by (simp add: deprecated_def depLeft_def deprecate_flag deprecate_other)

lemma applyDeprecations_flag: "fst (applyDeprecations d sub) = depLeft sub d"
  using deprecated_flag [of sub d] by (auto simp: applyDeprecations_def deprecated_def split: prod.splits)

lemma applyDeprecations_conds:
  "t \<noteq> ''Deprecated'' \<Longrightarrow> condOf (sb_Conditions (snd (applyDeprecations d sub))) t = condOf (fst (deprecated sub d)) t"
  by (auto simp: applyDeprecations_def deprecated_def conditions split: prod.splits)

lemma applyDeprecations_done: "\<not> depLeft (snd (applyDeprecations d sub)) d"
proof -
  have "sub_Channel (snd (applyDeprecations d sub)) = sub_Channel sub" using applyDeprecations_keeps [of d sub] by auto
  then show ?thesis
    by (simp add: depLeft_def applyDeprecations_conds) (simp add: deprecated_def deprecate_done deprecate_other)
qed

lemma applyDeprecations_other:
  "t \<notin> {PackageDeprecated, ChannelDeprecated, BundleDeprecated, ''Deprecated''} \<Longrightarrow>
    condOf (sb_Conditions (snd (applyDeprecations d sub))) t = condOf (sb_Conditions sub) t"
  by (simp add: applyDeprecations_conds) (simp add: deprecated_def deprecate_other)

text \<open>The deprecations that apply to a subscription.\<close>

definition depOf :: "'c sub_world \<Rightarrow> SSub \<Rightarrow> Deprecations option" where
  "depOf W sub =
     (case sw_sources W of
        None \<Rightarrow> None
      | Some sources \<Rightarrow>
          (case sources (sub_CatalogSourceNamespace sub)
                  \<lparr>SK_Name = sub_CatalogSource sub, SK_Namespace = sub_CatalogSourceNamespace sub\<rparr> of
             Some (Inr entries) \<Rightarrow> map_option (entryDeprecations W) (find (matchesSub sub) entries)
           | _ \<Rightarrow> None))"

lemma deprecationPart_eq:
  "deprecationPart W sub = (case depOf W sub of
     Some d \<Rightarrow> if depLeft sub d then (snd (applyDeprecations d sub))\<lparr>su_ResourceVersion := Suc (su_ResourceVersion sub)\<rparr> else sub
   | None \<Rightarrow> sub)"
proof (cases "depOf W sub")
  case None
  then have "(\<exists>e. updateDeprecatedStatus W sub = Inl e) \<or> updateDeprecatedStatus W sub = Inr (False, sub)"
    by (auto simp: updateDeprecatedStatus_def depOf_def split: option.splits sum.splits)
  with None show ?thesis by (auto simp: deprecationPart_def)
next
  case (Some d)
  obtain b sub' where a: "applyDeprecations d sub = (b, sub')" by fastforce
  have "updateDeprecatedStatus W sub = Inr (b, sub')"
    using Some a by (auto simp: updateDeprecatedStatus_def depOf_def split: option.splits sum.splits)
  moreover have "b = depLeft sub d" "su_ResourceVersion sub' = su_ResourceVersion sub"
    using applyDeprecations_flag [of d sub] applyDeprecations_keeps [of d sub] a by auto
  ultimately show ?thesis using Some a by (auto simp: deprecationPart_def split: bool.split)
qed

lemma planCondition_type: "snd (planCondition plan) = Some cond \<Longrightarrow> sc_Type cond \<in> {InstallPlanPending, InstallPlanFailed}"
  by (auto simp: planCondition_def Let_def split: InstallPlanPhase.splits)

lemma planConds_other:
  "t \<notin> {InstallPlanMissing, InstallPlanPending, InstallPlanFailed} \<Longrightarrow> condOf (sb_Conditions (planConds W ref sub)) t = condOf (sb_Conditions sub) t"
  by (cases "sw_getPlan W ref") (auto simp: planConds_def Let_def conditions split: option.split dest!: planCondition_type)

lemma planConds_fields:
  "sub_Namespace (planConds W ref sub) = sub_Namespace sub" "sub_CatalogSource (planConds W ref sub) = sub_CatalogSource sub"
  "sub_CatalogSourceNamespace (planConds W ref sub) = sub_CatalogSourceNamespace sub" "sub_Package (planConds W ref sub) = sub_Package sub"
  "sub_Channel (planConds W ref sub) = sub_Channel sub" "sub_InstalledCSV (planConds W ref sub) = sub_InstalledCSV sub"
  "su_CatalogHealth (planConds W ref sub) = su_CatalogHealth sub" "sb_InstallPlanRef (planConds W ref sub) \<in> {None, sb_InstallPlanRef sub}"
  by (auto simp: planConds_def Let_def split: sum.split)

lemma planPart_fields:
  "sub_Namespace (planPart W sub) = sub_Namespace sub" "sameCatalogs (planPart W sub) sub" "depOf W (planPart W sub) = depOf W sub"
  "depLeft (planPart W sub) d = depLeft sub d" "su_CatalogHealth (planPart W sub) = su_CatalogHealth sub"
  by (auto simp: planPart_def sameCatalogs_def depOf_def depLeft_def matchesSub_def [abs_def] planConds_fields planConds_other
      split: option.split sum.split)

lemma planPart_blocked: "\<not> blocked W sub \<Longrightarrow> \<not> blocked W (planPart W sub)"
  using planConds_fields(8) [of W "the (sb_InstallPlanRef sub)" sub] by (auto simp: blocked_def planPart_def split: option.splits if_splits)

lemma planConds_again:
  assumes "sb_InstallPlanRef (planConds W ref sub) = Some ref" "sw_getPlan W' = sw_getPlan W"
    "sb_Conditions sub' = sb_Conditions (planConds W ref sub)" "sb_State sub' = sb_State sub"
  shows "sb_Conditions (planConds W' ref sub') = sb_Conditions sub'"
proof (cases "sw_getPlan W ref")
  case (Inr plan)
  then show ?thesis using assms(2,3)
    by (auto simp: planConds_def Let_def without_set set_set split: option.split dest!: planCondition_type)
next
  case (Inl e)
  let ?conds = "without [InstallPlanPending, InstallPlanFailed] (sb_Conditions sub)"
  let ?cond = "(condOf ?conds InstallPlanMissing)\<lparr>sc_Status := ConditionTrue, sc_Reason := ''ReferencedInstallPlanNotFound''\<rparr>"
  have "sb_State sub \<noteq> SubscriptionStateUpgradePending" using assms(1) Inl by (auto simp: planConds_def Let_def)
  with Inl assms(2-4) show ?thesis by (simp add: planConds_def Let_def without_set condOf_set set_set)
qed

lemma planPart_again: "planPart (at W t') (planPart (at W t) sub) = planPart (at W t) sub"
proof (cases "sb_InstallPlanRef sub")
  case (Some ref)
  let ?out = "planConds (at W t) ref sub"
  let ?new = "?out\<lparr>sb_LastUpdated := t, su_ResourceVersion := Suc (su_ResourceVersion sub)\<rparr>"
  have conds: "sb_Conditions (planConds (at W t') ref sub) = sb_Conditions ?out"
    by (simp add: planConds_def Let_def split: sum.split)
  show ?thesis
  proof (cases "hashEqual W (sb_Conditions ?out) (sb_Conditions sub)")
    case True
    with conds Some have "planPart (at W t) sub = sub" "planPart (at W t') sub = sub" by (simp_all add: planPart_def)
    then show ?thesis by simp
  next
    case False
    with Some have new: "planPart (at W t) sub = ?new" by (simp add: planPart_def)
    show ?thesis
    proof (cases "sb_InstallPlanRef ?out")
      case None
      with new show ?thesis by (simp add: planPart_def)
    next
      case (Some ref')
      with planConds_fields(8) [of "at W t" ref sub] \<open>sb_InstallPlanRef sub = Some ref\<close> have ref: "sb_InstallPlanRef ?out = Some ref" by auto
      then have "sb_State ?out = sb_State sub" by (auto simp: planConds_def Let_def split: sum.splits if_splits)
      then have "sb_Conditions (planConds (at W t') ref ?new) = sb_Conditions ?new"
        by (intro planConds_again [OF ref]) auto
      with new ref show ?thesis by (simp add: planPart_def [of "at W t'"] hashEqual_def)
    qed
  qed
qed (simp add: planPart_def)

definition syncPure :: "'c sub_world \<Rightarrow> SSub \<Rightarrow> SSub" where
  "syncPure W sub = (if blocked W sub then sub else healthPart W (planPart W sub))"

lemma syncStored_pure: "stores W \<Longrightarrow> sr_sub (syncStored W c) = syncPure W (sr_sub c)"
  using syncStored_parts syncStored_blocked by (simp add: syncPure_def)

lemma entryDeprecations_at [simp]: "entryDeprecations (at W t) = entryDeprecations W"
  by (rule ext) (simp add: entryDeprecations_def split: option.split)

lemma depOf_at [simp]: "depOf (at W t) = depOf W"
  by (rule ext) (simp add: depOf_def split: option.split sum.split)

lemma healthPart_at:
  "healthPart (at W t) s = (case catalogHealth W (sub_Namespace s) of
     Inl _ \<Rightarrow> s
   | Inr hs \<Rightarrow> if quietHealth hs s then deprecationPart W s
               else case UpdateHealth t (retime t hs) s of (known, s', b) \<Rightarrow> s'\<lparr>su_ResourceVersion := Suc (su_ResourceVersion s')\<rparr>)"
proof (cases "catalogHealth W (sub_Namespace s)")
  case (Inr hs)
  show ?thesis
  proof (cases "quietHealth hs s")
    case True
    with UpdateHealth_quiet obtain known where "UpdateHealth t (retime t hs) s = (known, s, False)" by blast
    with True Inr show ?thesis by (simp add: healthPart_def catalogHealth_at)
  next
    case False
    then obtain known s' where "UpdateHealth t (retime t hs) s = (known, s', True)" using UpdateHealth_loud by metis
    with False Inr show ?thesis by (simp add: healthPart_def catalogHealth_at)
  qed
qed (simp add: healthPart_def catalogHealth_at)

lemma deprecationPart_fields:
  "sub_Namespace (deprecationPart W s) = sub_Namespace s" "sameCatalogs (deprecationPart W s) s" "su_CatalogHealth (deprecationPart W s) = su_CatalogHealth s"
  "sb_InstallPlanRef (deprecationPart W s) = sb_InstallPlanRef s" "depOf W (deprecationPart W s) = depOf W s"
proof -
  obtain conds n where d: "deprecationPart W s = s\<lparr>sb_Conditions := conds, su_ResourceVersion := n\<rparr>"
    and c: "condOf conds CatalogSourcesUnhealthy = condOf (sb_Conditions s) CatalogSourcesUnhealthy"
  proof (cases "\<exists>d. depOf W s = Some d \<and> depLeft s d")
    case True
    then obtain d where "deprecationPart W s = (snd (applyDeprecations d s))\<lparr>su_ResourceVersion := Suc (su_ResourceVersion s)\<rparr>"
      by (auto simp: deprecationPart_eq)
    moreover obtain conds where "snd (applyDeprecations d s) = s\<lparr>sb_Conditions := conds\<rparr>" using applyDeprecations_keeps by blast
    ultimately show thesis
      using applyDeprecations_other [of CatalogSourcesUnhealthy d s] by (intro that [of "Suc (su_ResourceVersion s)" conds]) simp_all
  next
    case False
    then have "deprecationPart W s = s" by (auto simp: deprecationPart_eq split: option.split)
    then show thesis using that [of "su_ResourceVersion s" "sb_Conditions s"] by simp
  qed
  then show "sub_Namespace (deprecationPart W s) = sub_Namespace s" "sameCatalogs (deprecationPart W s) s" "su_CatalogHealth (deprecationPart W s) = su_CatalogHealth s"
    "sb_InstallPlanRef (deprecationPart W s) = sb_InstallPlanRef s" "depOf W (deprecationPart W s) = depOf W s"
    by (simp_all add: sameCatalogs_def depOf_def matchesSub_def [abs_def] split: option.split sum.split)
qed

lemma healthPart_fields: "sub_Namespace (healthPart W s) = sub_Namespace s" "sb_InstallPlanRef (healthPart W s) = sb_InstallPlanRef s"
proof -
  have "healthPart W s \<in> {s, deprecationPart W s} \<or> (\<exists>t conds hs n. healthPart W s = s\<lparr>sb_LastUpdated := t, sb_Conditions := conds,
      su_CatalogHealth := hs, su_ResourceVersion := n\<rparr>)"
  proof (cases "catalogHealth W (sub_Namespace s)")
    case (Inr hs)
    obtain known s' b where u: "UpdateHealth (sw_now W) hs s = (known, s', b)" by (metis surj_pair)
    from UpdateHealth_keeps [OF u] Inr u show ?thesis by (cases b) (auto simp: healthPart_def)
  qed (simp add: healthPart_def)
  then show "sub_Namespace (healthPart W s) = sub_Namespace s" "sb_InstallPlanRef (healthPart W s) = sb_InstallPlanRef s"
    using deprecationPart_fields(1,4) [of W s] by auto
qed

lemma syncPure_fields: "sub_Namespace (syncPure W s) = sub_Namespace s" "\<not> blocked W s \<Longrightarrow> \<not> blocked W (syncPure W s)"
proof -
  have "blocked W (healthPart W x) = blocked W x" for x by (simp add: blocked_def healthPart_fields)
  then show "\<not> blocked W s \<Longrightarrow> \<not> blocked W (syncPure W s)" using planPart_blocked [of W s] by (simp add: syncPure_def)
qed (simp add: syncPure_def healthPart_fields planPart_fields)

text \<open>Four stages: the health is recorded, then its condition is settled, then the deprecations,
  then the InstallPlan.\<close>

definition recorded :: "'c sub_world \<Rightarrow> SSub \<Rightarrow> bool" where
  "recorded W s \<longleftrightarrow> (\<forall>hs. catalogHealth W (sub_Namespace s) = Inr hs \<longrightarrow> quietHealth hs s \<or> (\<exists>t. su_CatalogHealth s = retime t hs))"

definition settled :: "'c sub_world \<Rightarrow> SSub \<Rightarrow> bool" where
  "settled W s \<longleftrightarrow> (\<forall>hs. catalogHealth W (sub_Namespace s) = Inr hs \<longrightarrow> quietHealth hs s)"

definition undeprecated :: "'c sub_world \<Rightarrow> SSub \<Rightarrow> bool" where
  "undeprecated W s \<longleftrightarrow> (\<forall>hs d. catalogHealth W (sub_Namespace s) = Inr hs \<longrightarrow> depOf W s = Some d \<longrightarrow> \<not> depLeft s d)"

definition goodCatalogs :: "'c sub_world \<Rightarrow> string \<Rightarrow> bool" where
  "goodCatalogs W ns \<longleftrightarrow> (\<forall>hs. catalogHealth W ns = Inr hs \<longrightarrow> hs \<noteq> [] \<and> distinct (map uid hs))"

lemma planPart_stages:
  "recorded W s \<Longrightarrow> recorded W (planPart (at W t) s)" "settled W s \<Longrightarrow> settled W (planPart (at W t) s)"
  "undeprecated W s \<Longrightarrow> undeprecated W (planPart (at W t) s)"
  using planPart_fields [of "at W t" s] quietHealth_same [OF planPart_fields(2) [of "at W t" s]]
  by (simp_all add: recorded_def settled_def undeprecated_def)

lemma deprecationPart_stages: "settled W s \<Longrightarrow> settled W (deprecationPart W s)" "undeprecated W (deprecationPart W s)"
proof -
  show "settled W s \<Longrightarrow> settled W (deprecationPart W s)"
    using deprecationPart_fields [of W s] quietHealth_same [OF deprecationPart_fields(2) [of W s]] by (simp add: settled_def)
  have "\<not> depLeft (deprecationPart W s) d" if "depOf W s = Some d" for d
    using that applyDeprecations_done [of d s] by (simp add: deprecationPart_eq depLeft_def)
  then show "undeprecated W (deprecationPart W s)" using deprecationPart_fields(5) [of W s] by (simp add: undeprecated_def)
qed

lemma healthPart_settled: "settled W s \<Longrightarrow> healthPart (at W t) s = (case catalogHealth W (sub_Namespace s) of Inl _ \<Rightarrow> s | Inr hs \<Rightarrow> deprecationPart W s)"
  by (auto simp: healthPart_at settled_def split: sum.split)

lemma stage_recorded:
  assumes "\<not> blocked W s"
  shows "recorded W (syncPure (at W t) s)"
proof -
  let ?p = "planPart (at W t) s"
  have "recorded W (healthPart (at W t) ?p)"
  proof (cases "settled W ?p")
    case True
    then have "settled W (healthPart (at W t) ?p)" by (auto simp: healthPart_settled deprecationPart_stages(1) split: sum.split)
    then show ?thesis by (simp add: settled_def recorded_def)
  next
    case False
    then obtain hs where hs: "catalogHealth W (sub_Namespace ?p) = Inr hs" "\<not> quietHealth hs ?p" by (auto simp: settled_def)
    from UpdateHealth_loud [OF hs(2), of t] obtain known cond where "UpdateHealth t (retime t hs) ?p = (known, ?p\<lparr>sb_LastUpdated := t,
        sb_Conditions := Sub_SetCondition cond (sb_Conditions ?p), su_CatalogHealth := retime t hs\<rparr>, True)" by metis
    with hs show ?thesis by (auto simp: healthPart_at recorded_def)
  qed
  with assms show ?thesis by (simp add: syncPure_def)
qed

lemma stage_settled:
  assumes "\<not> blocked W s" "recorded W s" "goodCatalogs W (sub_Namespace s)"
  shows "settled W (syncPure (at W t) s)"
proof -
  let ?p = "planPart (at W t) s"
  have p: "recorded W ?p" "sub_Namespace ?p = sub_Namespace s" using assms(2) planPart_stages(1) planPart_fields(1) by auto
  have "settled W (healthPart (at W t) ?p)"
  proof (cases "settled W ?p")
    case True
    then show ?thesis by (auto simp: healthPart_settled deprecationPart_stages(1) split: sum.split)
  next
    case False
    then obtain hs where hs: "catalogHealth W (sub_Namespace ?p) = Inr hs" "\<not> quietHealth hs ?p" by (auto simp: settled_def)
    then obtain t' where "su_CatalogHealth ?p = retime t' hs" "hs \<noteq> []" "distinct (map uid hs)"
      using p assms(3) by (auto simp: recorded_def goodCatalogs_def)
    moreover obtain known s' b where u: "UpdateHealth t (retime t hs) ?p = (known, s', b)" by (metis surj_pair)
    ultimately have "quietHealth hs s'" using recorded_then_quiet hs(2) by blast
    moreover have "sameCatalogs (s'\<lparr>su_ResourceVersion := n\<rparr>) s'" for n by (simp add: sameCatalogs_def)
    ultimately have "quietHealth hs (s'\<lparr>su_ResourceVersion := n\<rparr>)" for n using quietHealth_same by blast
    moreover have "sub_Namespace s' = sub_Namespace ?p" using UpdateHealth_keeps [OF u] by (auto split: if_splits)
    ultimately show ?thesis using hs u by (simp add: healthPart_at settled_def)
  qed
  with assms(1) show ?thesis by (simp add: syncPure_def)
qed

lemma stage_undeprecated:
  assumes "\<not> blocked W s" "settled W s"
  shows "settled W (syncPure (at W t) s) \<and> undeprecated W (syncPure (at W t) s)"
proof -
  let ?p = "planPart (at W t) s"
  have "settled W ?p" using assms(2) by (rule planPart_stages)
  then have "settled W (healthPart (at W t) ?p) \<and> undeprecated W (healthPart (at W t) ?p)"
    by (cases "catalogHealth W (sub_Namespace ?p)") (simp_all add: healthPart_settled deprecationPart_stages undeprecated_def [of W ?p])
  with assms(1) show ?thesis by (simp add: syncPure_def)
qed

lemma healthPart_still: "settled W s \<Longrightarrow> undeprecated W s \<Longrightarrow> healthPart (at W t) s = s"
  by (auto simp: healthPart_settled undeprecated_def deprecationPart_eq split: sum.split option.split)

lemma stage_rest:
  assumes "\<not> blocked W s" "settled W s" "undeprecated W s"
  shows "syncPure (at W t') (syncPure (at W t) s) = syncPure (at W t) s"
proof -
  let ?p = "planPart (at W t) s"
  have "settled W ?p" "undeprecated W ?p" using assms(2,3) by (auto intro: planPart_stages)
  then have "syncPure (at W t) s = ?p" "syncPure (at W t') ?p = ?p"
    using assms(1) planPart_blocked [of "at W t" s] by (simp_all add: syncPure_def healthPart_still planPart_again)
  then show ?thesis by simp
qed

lemma four_syncs_rest:
  assumes "goodCatalogs W (sub_Namespace s)"
  shows "syncPure (at W t) (fold (\<lambda>t. syncPure (at W t)) [a, b, c, d] s) = fold (\<lambda>t. syncPure (at W t)) [a, b, c, d] s"
proof (cases "blocked W s")
  case True
  then have "syncPure (at W t) s = s" for t by (simp add: syncPure_def)
  then show ?thesis by simp
next
  case False
  define s1 s2 s3 where s: "s1 = syncPure (at W a) s" "s2 = syncPure (at W b) s1" "s3 = syncPure (at W c) s2"
  have nb: "\<not> blocked W s1" "\<not> blocked W s2" "\<not> blocked W s3" and "sub_Namespace s1 = sub_Namespace s"
    using False syncPure_fields(2) [of "at W _"] by (simp_all add: s syncPure_fields(1))
  then have "settled W s2" using stage_settled [OF nb(1)] stage_recorded [OF False, of a] assms by (simp add: s)
  then have "settled W s3 \<and> undeprecated W s3" using stage_undeprecated [OF nb(2)] by (simp add: s)
  then show ?thesis using stage_rest [OF nb(3)] by (simp add: s)
qed

lemma fold_stays: "(\<And>t. f t s = s) \<Longrightarrow> fold f ts s = s"
  by (induction ts) auto

text \<open>C38. A subscription comes to rest. Let the API server store subscriptions, let the catalogs of the
  namespace not change and be at least one, with different UIDs, and let its InstallPlan not change.
  Then after four synchronisations, at whatever times, no further synchronisation writes the
  subscription. (The health is recorded by the first, its condition is final after the second,
  the deprecations are written by the third, and the fourth may put the conditions in order.)\<close>

theorem sync_comes_to_rest:
  assumes "stores W" "goodCatalogs W (sub_Namespace (sr_sub c))" "length ts \<ge> 4"
  shows "\<forall>t. sr_sub (syncStored (at W t) (fold (\<lambda>t. syncStored (at W t)) ts c)) = sr_sub (fold (\<lambda>t. syncStored (at W t)) ts c)"
proof -
  have pure: "sr_sub (fold (\<lambda>t. syncStored (at W t)) us c) = fold (\<lambda>t. syncPure (at W t)) us (sr_sub c)" for us c
    by (induction us arbitrary: c) (simp_all add: syncStored_pure assms(1))
  obtain a b d e us where ts: "ts = [a, b, d, e] @ us"
    using assms(3) by (auto simp: numeral_eq_Suc Suc_le_length_iff)
  let ?s = "fold (\<lambda>t. syncPure (at W t)) [a, b, d, e] (sr_sub c)"
  have rest: "syncPure (at W t) ?s = ?s" for t by (rule four_syncs_rest [OF assms(2)])
  then have "fold (\<lambda>t. syncPure (at W t)) us ?s = ?s" by (rule fold_stays)
  then have "fold (\<lambda>t. syncPure (at W t)) ts (sr_sub c) = ?s" unfolding ts fold_append comp_def .
  then show ?thesis using rest by (simp only: syncStored_pure stores_at assms(1) pure simp_thms)
qed

section \<open>The conditions say what the plan's phase is\<close>

lemma deprecationPart_conds:
  "t \<notin> {PackageDeprecated, ChannelDeprecated, BundleDeprecated, ''Deprecated''} \<Longrightarrow>
    condOf (sb_Conditions (deprecationPart W s)) t = condOf (sb_Conditions s) t"
  by (simp add: deprecationPart_eq applyDeprecations_other split: option.split)

lemma healthPart_conds:
  assumes "t \<notin> {PackageDeprecated, ChannelDeprecated, BundleDeprecated, ''Deprecated'', CatalogSourcesUnhealthy}"
  shows "condOf (sb_Conditions (healthPart W s)) t = condOf (sb_Conditions s) t"
proof (cases "catalogHealth W (sub_Namespace s)")
  case (Inr hs)
  obtain known judged cond update where "judgeHealth s hs = (known, judged)" "compareHealth s hs judged = (cond, update)"
    by (metis surj_pair)
  moreover from this have "sc_Type cond = CatalogSourcesUnhealthy"
    using judgeHealth_type by (auto simp: compareHealth_def Let_def split: if_splits)
  ultimately show ?thesis using Inr assms by (auto simp: healthPart_def UpdateHealth_def condOf_set deprecationPart_conds)
qed (simp add: healthPart_def)

text \<open>C39. The conditions of a subscription follow its InstallPlan. A synchronisation of a subscription
  whose plan can be read leaves it with the condition that the plan is pending exactly if the plan
  is neither complete nor failed, with the condition that it failed exactly if it did, and without
  the condition that it is missing. The only thing assumed of the hash of conditions is that it
  tells the new conditions from the old ones.\<close>

theorem sync_plan_conditions:
  assumes "stores W" "sb_InstallPlanRef (sr_sub c) = Some ref" "sw_getPlan W ref = Inr plan"
    and "hashEqual W (sb_Conditions (planConds W ref (sr_sub c))) (sb_Conditions (sr_sub c))
           \<Longrightarrow> sb_Conditions (planConds W ref (sr_sub c)) = sb_Conditions (sr_sub c)"
  shows "let conds = sb_Conditions (sr_sub (syncStored W c)) in
    (sc_Status (condOf conds InstallPlanPending) = ConditionTrue \<longleftrightarrow> ip_Phase plan \<notin> {InstallPlanPhaseComplete, InstallPlanPhaseFailed})
    \<and> (sc_Status (condOf conds InstallPlanFailed) = ConditionTrue \<longleftrightarrow> ip_Phase plan = InstallPlanPhaseFailed)
    \<and> sc_Status (condOf conds InstallPlanMissing) = ConditionUnknown"
proof -
  let ?sub = "sr_sub c"
  have nb: "\<not> blocked W ?sub" using assms(2,3) by (simp add: blocked_def)
  have "sb_Conditions (planPart W ?sub) = sb_Conditions (planConds W ref ?sub)"
    using assms(2,4) by (auto simp: planPart_def)
  then have "condOf (sb_Conditions (sr_sub (syncStored W c))) t = condOf (sb_Conditions (planConds W ref ?sub)) t"
    if "t \<in> {InstallPlanMissing, InstallPlanPending, InstallPlanFailed}" for t
    using that by (simp only: syncStored_parts [OF assms(1) nb]) (subst healthPart_conds, auto)
  then show ?thesis
    using assms(3) by (cases "ip_Phase plan")
      (simp_all add: Let_def planConds_def planCondition_def conditions condOf_def [of "[]"])
qed

section \<open>A plan that is gone\<close>

definition free :: "SubscriptionCondition list \<Rightarrow> bool" where
  "free conds \<longleftrightarrow> (\<forall>c \<in> set conds. sc_Type c \<notin> {InstallPlanPending, InstallPlanFailed})"

lemma free_set: "free cs \<Longrightarrow> sc_Type c \<notin> {InstallPlanPending, InstallPlanFailed} \<Longrightarrow> free (Sub_SetCondition c cs)"
  by (induction c cs rule: Sub_SetCondition.induct) (auto simp: free_def)

lemma free_without: "free cs \<Longrightarrow> free (without ts cs)"
  by (auto simp: free_def without_def)

lemma without_free: "free cs \<Longrightarrow> without [InstallPlanPending, InstallPlanFailed] cs = cs"
  by (auto simp: free_def without_def intro: filter_True)

lemma free_deprecate: "free (fst x) \<Longrightarrow> t \<notin> {InstallPlanPending, InstallPlanFailed} \<Longrightarrow> free (fst (deprecate ch (t, d) x))"
  by (cases x; cases d) (simp_all add: deprecate_def Let_def free_set free_without)

lemma free_applyDeprecations: "free (sb_Conditions s) \<Longrightarrow> free (sb_Conditions (snd (applyDeprecations d s)))"
proof -
  assume "free (sb_Conditions s)"
  then have "free (fst (deprecated s d))" by (simp add: deprecated_def free_deprecate)
  then show ?thesis by (auto simp: applyDeprecations_def deprecated_def free_set free_without split: prod.splits)
qed

definition stuck :: "string \<Rightarrow> string \<Rightarrow> SSub \<Rightarrow> bool" where
  "stuck ref csv s \<longleftrightarrow> sb_InstallPlanRef s = Some ref \<and> sb_CurrentCSV s = csv \<and> sb_State s = SubscriptionStateUpgradePending \<and> free (sb_Conditions s)"

lemma stuck_deprecationPart: "stuck ref csv s \<Longrightarrow> stuck ref csv (deprecationPart W s)"
proof (cases "\<exists>d. depOf W s = Some d \<and> depLeft s d")
  case True
  assume s: "stuck ref csv s"
  from True obtain d where d: "deprecationPart W s = (snd (applyDeprecations d s))\<lparr>su_ResourceVersion := Suc (su_ResourceVersion s)\<rparr>"
    by (auto simp: deprecationPart_eq)
  obtain conds where "snd (applyDeprecations d s) = s\<lparr>sb_Conditions := conds\<rparr>" using applyDeprecations_keeps by blast
  then show ?thesis using s d free_applyDeprecations [of s d] by (simp add: stuck_def)
qed (auto simp: deprecationPart_eq split: option.split)

lemma stuck_healthPart:
  assumes "stuck ref csv s"
  shows "stuck ref csv (healthPart W s)"
proof (cases "catalogHealth W (sub_Namespace s)")
  case (Inr hs)
  obtain known judged cond update where "judgeHealth s hs = (known, judged)" "compareHealth s hs judged = (cond, update)"
    by (metis surj_pair)
  moreover from this have "sc_Type cond = CatalogSourcesUnhealthy"
    using judgeHealth_type by (auto simp: compareHealth_def Let_def split: if_splits)
  ultimately show ?thesis using Inr assms stuck_deprecationPart [OF assms]
    by (auto simp: healthPart_def UpdateHealth_def stuck_def free_set)
qed (use assms in \<open>simp add: healthPart_def\<close>)

lemma stuck_planPart:
  assumes "stuck ref csv s" "sw_getPlan W ref = Inl e"
  shows "planPart W s = s"
  using assms by (simp add: stuck_def planPart_def planConds_def Let_def without_free hashEqual_def)

lemma stuck_syncs:
  assumes "stores W" "sw_getPlan W ref = Inl (apiNotFound m)" "stuck ref csv (sr_sub c)"
  shows "stuck ref csv (sr_sub (fold (\<lambda>t. syncStored (at W t)) ts c))"
  using assms(3)
proof (induction ts arbitrary: c)
  case (Cons t ts)
  have "planPart (at W t) (sr_sub c) = sr_sub c" using stuck_planPart [OF Cons.prems, of "at W t"] assms(2) by simp
  moreover have "\<not> blocked W (sr_sub c)" using Cons.prems assms(2) by (simp add: blocked_def stuck_def)
  ultimately have "sr_sub (syncStored (at W t) c) = healthPart (at W t) (sr_sub c)"
    using syncStored_parts [of "at W t" c] assms(1) by simp
  then have "stuck ref csv (sr_sub (syncStored (at W t) c))" using stuck_healthPart [OF Cons.prems] by simp
  from Cons.IH [OF this] show ?case by simp
qed simp

text \<open>A namespace with this subscription only, which is stuck, whose version and plan cannot be read: its
  synchronisation collects old plans and does nothing else.\<close>

lemma stuck_not_resolved:
  assumes "nw_subs V = Inr [Sub.truncate s]" "stuck ref csv s" "nw_getCSV V csv = Some e" "nw_getPlan V ref = Inl e'"
  shows "\<exists>r. syncResolvingNamespace E R G s0 srt cached V namespace = Some (r, map deletePlan (gcInstallPlans srt cached))"
proof -
  have s: "sb_InstallPlanRef (Sub.truncate s) = Some ref" "sb_CurrentCSV (Sub.truncate s) = csv"
    "sb_State (Sub.truncate s) = SubscriptionStateUpgradePending"
    using assms(2) by (simp_all add: stuck_def Sub.defs)
  then have "ensureSubscriptions V ff [Sub.truncate s] = (Inr ([Sub.truncate s], False), [])" for ff
    using assms(3,4) by (auto simp: ensureSubscriptionInstallPlanState_def ensureSubscriptionCSVState_def csvState_def Let_def)
  then have "\<exists>r. syncSubscriptionsOf E R G s0 V namespace [Sub.truncate s] = Some (r, [])"
    using s by (auto simp: syncSubscriptionsOf_def nothingToUpdate_def split: sum.split prod.split)
  then show ?thesis using assms(1) by (auto simp: syncResolvingNamespace_def Let_def)
qed

section \<open>Turns of the syncer and of the namespace\<close>

text \<open>The two controllers that write a subscription take turns in any order: the syncer at some time, and
  the synchronisation of the namespace against what it reads, with the plans it has cached. The
  subscription is the only one of its namespace. The state is the stored subscription and the plans
  that were created.\<close>

datatype sub_turn = syncerTurn nat | namespaceTurn ns_world "string + InstallPlan list"

definition statusWritten :: "ns_effect \<Rightarrow> subStore \<Rightarrow> subStore" where
  "statusWritten e c = (case e of
     writeSub new \<Rightarrow> c\<lparr>sr_sub := Sub.extend new (SSub.fields (su_CatalogHealth (sr_sub c)) (Suc (su_ResourceVersion (sr_sub c))))\<rparr>
   | _ \<Rightarrow> c)"

inductive sub_step :: "(ns_world \<Rightarrow> string + InstallPlan list \<Rightarrow> ns_result option) \<Rightarrow> subStore sub_world
    \<Rightarrow> sub_turn \<Rightarrow> subStore \<times> InstallPlan list \<Rightarrow> subStore \<times> InstallPlan list \<Rightarrow> bool" for handler W where
  step_syncer: "sub_step handler W (syncerTurn t) (c, ps) (syncStored (at W t) c, ps)"
| step_namespace: "nw_subs V = Inr [Sub.truncate (sr_sub c)] \<Longrightarrow> handler V cached = Some (r, eff)
    \<Longrightarrow> sub_step handler W (namespaceTurn V cached) (c, ps) (fold statusWritten eff c, ps @ createdPlans eff)"

inductive_cases sub_stepE: "sub_step handler W u s s'"

lemma deletes_write_nothing: "fold statusWritten (map deletePlan ps) c = c" "createdPlans (map deletePlan ps) = []"
  by (induction ps) (simp_all add: statusWritten_def createdPlans_def map_filter_simps)

abbreviation (input) unreadable :: "string \<Rightarrow> string \<Rightarrow> sub_turn \<Rightarrow> bool" where
  "unreadable ref csv u \<equiv> (\<forall>V cached. u = namespaceTurn V cached \<longrightarrow> nw_getCSV V csv \<noteq> None \<and> (\<exists>e. nw_getPlan V ref = Inl e))"

lemma stuck_step:
  assumes "sub_step (\<lambda>V cached. syncResolvingNamespace E R G s0 srt cached V namespace) W u (c, ps) (c', ps')"
    and "stores W" "sw_getPlan W ref = Inl (apiNotFound m)" "stuck ref csv (sr_sub c)" "unreadable ref csv u"
  shows "stuck ref csv (sr_sub c') \<and> ps' = ps"
  using assms(1)
proof cases
  case (step_syncer t)
  then show ?thesis using stuck_syncs [OF assms(2-4), of "[t]"] by simp
next
  case (step_namespace V cached r eff)
  moreover obtain e where "nw_getCSV V csv = Some e" using assms(5) step_namespace(1) by auto
  moreover obtain e' where "nw_getPlan V ref = Inl e'" using assms(5) step_namespace(1) by auto
  ultimately have "eff = map deletePlan (gcInstallPlans srt cached)"
    using stuck_not_resolved [OF step_namespace(4) assms(4), of e e' E R G s0 srt cached namespace] by simp
  then show ?thesis using step_namespace assms(4) deletes_write_nothing by simp
qed

text \<open>C40. A subscription whose InstallPlan is gone can be stuck. The code means to clear the reference to
  a plan that is missing while the upgrade is pending, so that the namespace is resolved again;
  but it does not write the subscription if its conditions stay the same. Take a subscription with
  a pending upgrade, the only one of its namespace, without the conditions that its plan is pending or
  failed, whose plan is not found. Over every sequence of turns of the syncer and of the
  synchronisation of the namespace in which the namespace reads neither its version nor its plan, it
  keeps the reference and its state, and no plan is created.\<close>

theorem missing_plan_stuck:
  assumes "runs (sub_step (\<lambda>V cached. syncResolvingNamespace E R G s0 srt cached V namespace) W) (c, []) h (d, created)"
    and "stores W" "sb_InstallPlanRef (sr_sub c) = Some ref" "sw_getPlan W ref = Inl (apiNotFound m)"
    and "sb_State (sr_sub c) = SubscriptionStateUpgradePending" "free (sb_Conditions (sr_sub c))"
    and "\<And>V cached s. (namespaceTurn V cached, s) \<in> set h \<Longrightarrow>
           nw_getCSV V (sb_CurrentCSV (sr_sub c)) \<noteq> None \<and> (\<exists>e. nw_getPlan V ref = Inl e)"
  shows "sb_InstallPlanRef (sr_sub d) = Some ref \<and> sb_State (sr_sub d) = SubscriptionStateUpgradePending \<and> created = []"
proof -
  have "stuck ref (sb_CurrentCSV (sr_sub c)) (sr_sub d) \<and> created = []"
    using assms(1,7)
  proof (induction h "(d, created)" arbitrary: d created rule: runs.induct)
    case runs_start
    then show ?case using assms(3,5,6) by (simp add: stuck_def)
  next
    case (runs_sync h s u)
    obtain c1 ps1 where s: "s = (c1, ps1)" by (cases s)
    have "stuck ref (sb_CurrentCSV (sr_sub c)) (sr_sub c1) \<and> ps1 = []"
      by (rule runs_sync(2) [OF s]) (use runs_sync(4) in \<open>meson list.set_intros(2)\<close>)
    moreover have "unreadable ref (sb_CurrentCSV (sr_sub c)) u" using runs_sync(4) by (meson list.set_intros(1))
    ultimately show ?case using stuck_step [OF runs_sync(3) [unfolded s] assms(2,4), of "sb_CurrentCSV (sr_sub c)"] by blast
  qed
  then show ?thesis by (simp add: stuck_def)
qed

section \<open>No catalogs, and catalogs of all\<close>

lemma no_catalogs_loud: "\<not> quietHealth [] s"
  by (auto simp: quietHealth_def UpdateHealth_def judgeHealth_def compareHealth_def Let_def)

text \<open>Without catalogs a subscription never comes to rest: every synchronisation writes it. The
  case of no catalogs before and after is the only one in which the code writes although nothing
  has changed.\<close>

lemma no_catalogs_no_rest:
  assumes "stores W" "catalogHealth W (sub_Namespace (sr_sub c)) = Inr []" "\<not> blocked W (sr_sub c)"
  shows "su_ResourceVersion (sr_sub (fold (\<lambda>t. syncStored (at W t)) ts c)) \<ge> su_ResourceVersion (sr_sub c) + length ts"
  using assms(2,3)
proof (induction ts arbitrary: c)
  case (Cons t ts)
  let ?p = "planPart (at W t) (sr_sub c)"
  have s: "sr_sub (syncStored (at W t) c) = syncPure (at W t) (sr_sub c)" by (simp add: syncStored_pure assms(1))
  have hs: "catalogHealth W (sub_Namespace ?p) = Inr []" using Cons.prems(1) by (simp add: planPart_fields)
  from UpdateHealth_loud [OF no_catalogs_loud, of ?p t] obtain known cond where
    "UpdateHealth t (retime t []) ?p = (known, ?p\<lparr>sb_LastUpdated := t, sb_Conditions := Sub_SetCondition cond (sb_Conditions ?p),
       su_CatalogHealth := retime t []\<rparr>, True)" by metis
  then have "su_ResourceVersion (syncPure (at W t) (sr_sub c)) = Suc (su_ResourceVersion ?p)"
    using Cons.prems(2) hs by (simp add: syncPure_def healthPart_at no_catalogs_loud)
  moreover have "su_ResourceVersion ?p \<ge> su_ResourceVersion (sr_sub c)"
    by (auto simp: planPart_def split: option.split)
  moreover have "su_ResourceVersion (sr_sub (fold (\<lambda>t. syncStored (at W t)) ts (syncStored (at W t) c)))
      \<ge> su_ResourceVersion (sr_sub (syncStored (at W t) c)) + length ts"
    using Cons.prems syncPure_fields [of "at W t" "sr_sub c"] by (intro Cons.IH) (simp_all add: s)
  ultimately show ?case by (simp add: s)
qed simp

lemma aggregateText_None: "aggregateText es = None \<longleftrightarrow> es = []"
  by (auto simp: aggregateText_def split: list.split)

lemma catalogHealth_member:
  assumes "catalogHealth W ns = Inr hs" "\<And>lt xs. set (sw_sort W lt xs) = set xs" "ns \<noteq> h" "sw_global W = h" "sw_catalogs W h = Inr globals"
    "catalog \<in> set globals"
  shows "\<exists>x \<in> set hs. health W catalog = Inr x"
proof -
  obtain own where own: "sw_catalogs W ns = Inr own" using assms(1) by (auto simp: catalogHealth_def go_err)
  define xs where "xs = sw_sort W (\<lambda>a b. cs_Namespace a @ cs_Name a < cs_Namespace b @ cs_Name b) (own @ globals)"
  have "List.map_filter (\<lambda>r. case r of Inl e \<Rightarrow> Some e | Inr _ \<Rightarrow> None) (map (health W) xs) = []"
    "hs = List.map_filter (\<lambda>r. case r of Inl _ \<Rightarrow> None | Inr h \<Rightarrow> Some h) (map (health W) xs)"
    using assms(1,3-5) own by (auto simp: catalogHealth_def Let_def aggregateText_None xs_def split: option.splits)
  moreover have "catalog \<in> set xs" using assms(2,6) by (simp add: xs_def)
  ultimately show ?thesis by (induction xs arbitrary: hs) (auto simp: map_filter_simps split: sum.splits)
qed

text \<open>A change of a global catalog does not reach the subscriptions it matters to. The catalogs of the
  global namespace enter the health of every subscription, but the constructor of the syncer does
  not hand the global namespace to the syncer's own field, so when such a catalog changes only
  the subscriptions in the global namespace itself are notified.\<close>

lemma global_catalog_unnotified:
  assumes "newSyncerWithConfig config = Inr (g, h)" "cs_Namespace catalog = h"
    and "sw_global W = h" "\<And>lt xs. set (sw_sort W lt xs) = set xs" "sw_catalogs W h = Inr globals" "catalog \<in> set globals"
    and "k \<in> set cached" "fst k \<noteq> h" "catalogHealth W (fst k) = Inr hs"
  shows "(\<exists>x \<in> set hs. health W catalog = Inr x) \<and> (ResourceUpdated, k) \<notin> set (notifyOnCatalog g cached catalog)"
proof -
  have "g = []" "h \<noteq> []" using assms(1) by (auto simp: newSyncerWithConfig_def validate_def split: option.splits if_splits)
  then have "(ResourceUpdated, k) \<notin> set (notifyOnCatalog g cached catalog)"
    using assms(2,8) by (auto simp: notifyOnCatalog_def catalogSubscriptionKeys_def)
  moreover have "\<exists>x \<in> set hs. health W catalog = Inr x"
    by (rule catalogHealth_member [OF assms(9) assms(4) assms(8) assms(3,5) assms(6)])
  ultimately show ?thesis by blast
qed

section \<open>A cluster with a subscription\<close>

definition demoStore :: "string option \<Rightarrow> subStore" where
  "demoStore ref = \<lparr>sr_sub = Sub.extend (demoSub\<lparr>sb_InstallPlanRef := ref, sb_State := SubscriptionStateUpgradePending\<rparr>)
     \<lparr>su_CatalogHealth = [], su_ResourceVersion = 1\<rparr>, sr_queue = []\<rparr>"

definition demoGlobal :: CatalogSource where
  "demoGlobal = \<lparr>cs_Name = ''cat'', cs_Namespace = ''olm'', cs_UID = ''u'', cs_Reason = []\<rparr>"

definition demoSubWorld :: "CatalogSource list \<Rightarrow> (string \<Rightarrow> api_error + InstallPlan) \<Rightarrow> subStore sub_world" where
  "demoSubWorld globals getPlan = \<lparr>sw_now = 1, sw_global = ''olm'', sw_hash = (\<lambda>cs. of_nat (length cs)), sw_planDone = (\<lambda>_. False),
     sw_healthDone = (\<lambda>_. False), sw_updateStatus = storeStatus, sw_enqueue = (\<lambda>ns c. c\<lparr>sr_queue := sr_queue c @ [ns]\<rparr>), sw_getPlan = getPlan,
     sw_catalogs = (\<lambda>ns. Inr (if ns = ''olm'' then globals else [])), sw_sort = SliceStable, sw_registry = (\<lambda>_. Some (Inr True)),
     sw_reference = (\<lambda>c. Inr \<lparr>or_Namespace = cs_Namespace c, or_Name = cs_Name c, or_UID = cs_UID c\<rparr>), sw_sources = None,
     sw_deprecations = (\<lambda>_. \<lparr>dp_Package = None, dp_Channel = None, dp_Bundle = None\<rparr>)\<rparr>"

definition installing :: "string \<Rightarrow> api_error + InstallPlan" where
  "installing name = Inr (demoPlan name 0 InstallPlanPhaseInstalling [])"

declare Sub.defs [code]

lemma demo_stores: "stores (demoSubWorld globals getPlan)"
  by (simp add: stores_def demoSubWorld_def)

lemma demo_hash: "sw_hash (demoSubWorld globals getPlan) cs = of_nat (length cs)"
  by (simp add: demoSubWorld_def)

lemma demo_namespace: "sub_Namespace (sr_sub (demoStore ref)) = ''ns''" "sb_InstallPlanRef (sr_sub (demoStore ref)) = ref"
  "sb_State (sr_sub (demoStore ref)) = SubscriptionStateUpgradePending" "sb_Conditions (sr_sub (demoStore ref)) = []"
  "sb_CurrentCSV (sr_sub (demoStore ref)) = []"
  by (simp_all add: demoStore_def Sub.defs demoSub_def Subscription.defs demoSubscription_def)

lemma demo_health: "catalogHealth (demoSubWorld [demoGlobal] getPlan) ''ns'' = Inr [\<lparr>ch_Ref = \<lparr>or_Namespace = ''olm'', or_Name = ''cat'', or_UID = ''u''\<rparr>,
    ch_LastUpdated = 1, ch_Healthy = True\<rparr>]" "catalogHealth (demoSubWorld [] getPlan) ''ns'' = Inr []"
  by (simp_all add: catalogHealth_def demoSubWorld_def demoGlobal_def SliceStable_def health_def healthy_def map_filter_simps aggregateText_def)

theorem sync_comes_to_rest_witness:
  "\<forall>t. sr_sub (syncStored (at (demoSubWorld [demoGlobal] installing) t)
      (fold (\<lambda>t. syncStored (at (demoSubWorld [demoGlobal] installing) t)) [1, 2, 3, 4] (demoStore (Some ''p''))))
    = sr_sub (fold (\<lambda>t. syncStored (at (demoSubWorld [demoGlobal] installing) t)) [1, 2, 3, 4] (demoStore (Some ''p'')))"
  by (rule sync_comes_to_rest) (simp_all add: demo_stores goodCatalogs_def demo_namespace demo_health)

theorem sync_plan_conditions_witness:
  "sc_Status (condOf (sb_Conditions (sr_sub (syncStored (demoSubWorld [demoGlobal] installing) (demoStore (Some ''p''))))) InstallPlanPending) = ConditionTrue"
proof -
  have plan: "sw_getPlan (demoSubWorld [demoGlobal] installing) ''p'' = Inr (demoPlan ''p'' 0 InstallPlanPhaseInstalling [])"
    by (simp add: demoSubWorld_def installing_def)
  have "\<not> hashEqual (demoSubWorld [demoGlobal] installing) (sb_Conditions (planConds (demoSubWorld [demoGlobal] installing) ''p'' (sr_sub (demoStore (Some ''p'')))))
      (sb_Conditions (sr_sub (demoStore (Some ''p''))))"
    by (simp add: planConds_def plan demo_namespace without_def planCondition_def demoPlan_def Let_def hashEqual_def demo_hash)
  then show ?thesis
    using sync_plan_conditions [OF demo_stores _ plan, of "demoStore (Some ''p'')"] by (simp add: demo_namespace demoPlan_def Let_def)
qed

theorem missing_plan_stuck_witness:
  "\<exists>h d created. length h = 2
    \<and> runs (sub_step (\<lambda>V cached. syncResolvingNamespace packageEnv demoOrders refGini rNew SliceStable cached V ''ns'')
        (demoSubWorld [demoGlobal] (\<lambda>name. Inl (apiNotFound name)))) (demoStore (Some ''p''), []) h (d, created)
    \<and> sb_InstallPlanRef (sr_sub d) = Some ''p'' \<and> created = []"
proof -
  let ?W = "demoSubWorld [demoGlobal] (\<lambda>name. Inl (apiNotFound name))" and ?c = "demoStore (Some ''p'')"
  let ?step = "sub_step (\<lambda>V cached. syncResolvingNamespace packageEnv demoOrders refGini rNew SliceStable cached V ''ns'') ?W"
  let ?d = "syncStored (at ?W 1) ?c"
  let ?V = "(demoNamespace [Sub.truncate (sr_sub ?d)])\<lparr>nw_getPlan := Inl\<rparr>"
  have plan: "sw_getPlan ?W ''p'' = Inl (apiNotFound ''p'')" by (simp add: demoSubWorld_def)
  have V: "nw_subs ?V = Inr [Sub.truncate (sr_sub ?d)]" "nw_getCSV ?V [] \<noteq> None" "nw_getPlan ?V ''p'' = Inl ''p''"
    by (simp_all add: demoNamespace_def resolve_world.defs)
  have "stuck ''p'' [] (sr_sub ?c)" by (simp add: stuck_def demo_namespace free_def)
  then have d: "stuck ''p'' [] (sr_sub ?d)" using stuck_syncs [OF demo_stores plan, of "[]" ?c "[1]"] by simp
  obtain e where e: "nw_getCSV ?V [] = Some e" using V(2) by blast
  from stuck_not_resolved [OF V(1) d e V(3), where E = packageEnv and R = demoOrders and G = refGini and srt = SliceStable]
  obtain r eff where "syncResolvingNamespace packageEnv demoOrders refGini rNew SliceStable (Inr []) ?V ''ns'' = Some (r, eff)"
    by blast
  then have "?step (namespaceTurn ?V (Inr [])) (?d, []) (fold statusWritten eff ?d, [] @ createdPlans eff)"
    by (intro step_namespace V(1)) simp
  then have run: "runs ?step (?c, []) [(namespaceTurn ?V (Inr []), ?d, []), (syncerTurn 1, ?c, [])]
      (fold statusWritten eff ?d, [] @ createdPlans eff)"
    by (intro runs_sync runs_start step_syncer)
  have "sb_InstallPlanRef (sr_sub (fold statusWritten eff ?d)) = Some ''p'' \<and> sb_State (sr_sub (fold statusWritten eff ?d)) = SubscriptionStateUpgradePending
      \<and> [] @ createdPlans eff = []"
    by (rule missing_plan_stuck [OF run demo_stores _ plan]) (use V in \<open>auto simp: demo_namespace free_def\<close>)
  moreover have "length [(namespaceTurn ?V (Inr []), ?d, []), (syncerTurn 1, ?c, [])] = 2" by simp
  ultimately show ?thesis using run by blast
qed

lemma no_catalogs_no_rest_witness:
  "su_ResourceVersion (sr_sub (fold (\<lambda>t. syncStored (at (demoSubWorld [] installing) t)) [1, 2, 3, 4, 5] (demoStore (Some ''p'')))) \<ge> 6"
proof -
  have "\<not> blocked (demoSubWorld [] installing) (sr_sub (demoStore (Some ''p'')))"
    by (simp add: blocked_def demo_namespace demoSubWorld_def installing_def)
  from no_catalogs_no_rest [OF demo_stores _ this, of "[1, 2, 3, 4, 5]"] show ?thesis
    by (simp add: demo_namespace demo_health) (simp add: demoStore_def Sub.defs)
qed

lemma global_catalog_unnotified_witness:
  "(ResourceUpdated, (''ns'', ''s'')) \<notin> set (notifyOnCatalog [] [(''ns'', ''s''), (''olm'', ''s'')] demoGlobal)
    \<and> (\<exists>hs. catalogHealth (demoSubWorld [demoGlobal] installing) ''ns'' = Inr hs \<and> hs \<noteq> [])"
proof -
  let ?config = "\<lparr>cf_logger = True, cf_clock = True, cf_client = True, cf_lister = True, cf_subscriptionInformer = True, cf_catalogInformer = True,
    cf_installPlanInformer = True, cf_subscriptionQueue = True, cf_reconcilers = 1, cf_registryReconcilerFactory = True,
    cf_globalCatalogNamespace = ''olm''\<rparr>"
  have "newSyncerWithConfig ?config = Inr ([], ''olm'')" by (simp add: newSyncerWithConfig_def validate_def)
  from global_catalog_unnotified [OF this, of demoGlobal "demoSubWorld [demoGlobal] installing" "[demoGlobal]" "(''ns'', ''s'')"
      "[(''ns'', ''s''), (''olm'', ''s'')]"]
  show ?thesis by (auto simp: demo_health) (auto simp: demoSubWorld_def demoGlobal_def)
qed

text \<open>A change of the health of catalogs that leaves their number and the condition as they are is not
  recorded: two other catalogs than the targeted one have swapped their health since it was.\<close>

definition demoHealth :: "string \<Rightarrow> bool \<Rightarrow> CatalogHealth" where
  "demoHealth name b = \<lparr>ch_Ref = \<lparr>or_Namespace = ''ns'', or_Name = name, or_UID = name\<rparr>, ch_LastUpdated = 1, ch_Healthy = b\<rparr>"

definition demoUnhealthy :: SSub where
  "demoUnhealthy = (sr_sub (demoStore None))\<lparr>sb_Conditions := [\<lparr>sc_Type = CatalogSourcesUnhealthy, sc_Status = ConditionTrue,
     sc_Reason = ''CatalogSourcesUpdated'', sc_Message = []\<rparr>], su_CatalogHealth := [demoHealth ''cat'' True, demoHealth ''a'' False, demoHealth ''b'' True]\<rparr>"

lemma swapped_health_unrecorded:
  "UpdateHealth 9 [demoHealth ''cat'' True, demoHealth ''a'' True, demoHealth ''b'' False] demoUnhealthy = (catalogUnhealthyState, demoUnhealthy, False)"
  by code_simp

end
