(* ===== verification/Alongside.thy ===== *)
theory Alongside
  imports API_Set CSV_Replacement
begin

text \<open>
  Annotations of an object that name the versions it was installed alongside,
  \<open>operators/internal/alongside/alongside.go\<close>, how the execution of a plan sets them
  (\<open>operators/catalog/step.go\<close>) and how the check of requirements reads them
  (\<open>operators/olm/requirements.go\<close>). Annotations are an association list in the order of Go's
  iteration, or \<open>None\<close> for a nil map.
\<close>

definition AnnotationPrefix :: string where
  "AnnotationPrefix = ''operatorframework.io/installed-alongside-''"

record NamespacedName =
  nn_Namespace :: string
  nn_Name :: string

definition fromAnnotation :: "string \<times> string \<Rightarrow> NamespacedName option" where
  "fromAnnotation = (\<lambda>(k, v).
     if \<not> HasPrefix k AnnotationPrefix then None
     else case Split CHR ''/'' v of [ns, name] \<Rightarrow> Some \<lparr>nn_Namespace = ns, nn_Name = name\<rparr> | _ \<Rightarrow> None)"

definition FromObject :: "(string \<times> string) list option \<Rightarrow> NamespacedName list" where
  "FromObject annotations = (case annotations of None \<Rightarrow> [] | Some as \<Rightarrow> List.map_filter fromAnnotation as)"

definition nnText :: "NamespacedName \<Rightarrow> string" where
  "nnText nn = nn_Namespace nn @ ''/'' @ nn_Name nn"

definition nnKey :: "NamespacedName \<Rightarrow> string" where
  "nnKey n = AnnotationPrefix @ showHex (unat (fnv64a (nnText n)))"

definition ToObject :: "(string \<times> string) list option \<Rightarrow> NamespacedName list \<Rightarrow> (string \<times> string) list option" where
  "ToObject annotations nns =
     (let kept = filter (\<lambda>(k, v). \<not> HasPrefix k AnnotationPrefix) (case annotations of None \<Rightarrow> [] | Some as \<Rightarrow> as)
      in if nns = [] then (if kept = [] then None else Some kept)
         else Some (fold (\<lambda>nn. AList.update (nnKey nn) (nnText nn)) nns kept))"

text \<open>The versions are those named before that still exist, or may exist, and are not copies, and
  the one that is being installed. The lister says \<open>None\<close> for a version that is not found.\<close>

definition keepAlongside :: "(string \<Rightarrow> string \<Rightarrow> (string + CSV) option) \<Rightarrow> string \<Rightarrow> string \<Rightarrow> NamespacedName \<Rightarrow> bool" where
  "keepAlongside get namespace name nn \<longleftrightarrow>
     \<not> (nn_Namespace nn = namespace \<and> nn_Name nn = name)
     \<and> (case get (nn_Namespace nn) (nn_Name nn) of None \<Rightarrow> False | Some (Inl e) \<Rightarrow> True | Some (Inr csv) \<Rightarrow> \<not> IsCopied csv)"

definition setInstalledAlongsideAnnotation :: "(string \<Rightarrow> string \<Rightarrow> (string + CSV) option) \<Rightarrow> string \<Rightarrow> string
    \<Rightarrow> (string \<times> string) list option list \<Rightarrow> (string \<times> string) list option \<Rightarrow> (string \<times> string) list option" where
  "setInstalledAlongsideAnnotation get namespace name srcs dst =
     ToObject dst (filter (keepAlongside get namespace name) (concat (map FromObject srcs))
       @ (if namespace \<noteq> [] \<and> name \<noteq> [] then [\<lparr>nn_Namespace = namespace, nn_Name = name\<rparr>] else []))"

text \<open>The versions of the target's namespace that an object was installed alongside, by name, or
  \<open>None\<close> if the target is one of them.\<close>

fun alongsideCSVs :: "CSV \<Rightarrow> (string \<Rightarrow> string + CSV) \<Rightarrow> NamespacedName list \<Rightarrow> (string \<times> CSV) list \<Rightarrow> (string \<times> CSV) list option" where
  "alongsideCSVs target get [] csvsByName = Some csvsByName"
| "alongsideCSVs target get (nn # nns) csvsByName =
     (if nn_Namespace nn \<noteq> C_Namespace target then alongsideCSVs target get nns csvsByName
      else if nn_Name nn = C_Name target then None
      else case get (nn_Name nn) of
        Inl e \<Rightarrow> alongsideCSVs target get nns csvsByName
      | Inr csv \<Rightarrow> if IsCopied csv then alongsideCSVs target get nns csvsByName
                    else alongsideCSVs target get nns (AList.update (C_Name csv) csv csvsByName))"

definition replaceesOf :: "CSV \<Rightarrow> (string \<times> CSV) list \<Rightarrow> (string \<times> string) list" where
  "replaceesOf target csvsByName =
     (let within = List.map_filter (\<lambda>(current, csv). if map_of csvsByName (C_Replaces csv) \<noteq> None then Some (current, C_Replaces csv) else None) csvsByName
      in if C_Replaces target \<noteq> [] then AList.update (C_Name target) (C_Replaces target) within else within)"

function ancestorsOf :: "(string \<times> string) list \<Rightarrow> string \<Rightarrow> string list" where
  "ancestorsOf replacees current =
     (if current = [] then []
      else case map_of replacees current of
        None \<Rightarrow> []
      | Some replacee \<Rightarrow> replacee # ancestorsOf (AList.delete current replacees) replacee)"
  by pat_completeness auto

termination
proof (relation "measure (length \<circ> fst)")
  fix replacees :: "(string \<times> string) list" and current replacee
  assume "map_of replacees current = Some replacee"
  then show "((AList.delete current replacees, replacee), replacees, current) \<in> measure (length \<circ> fst)"
    by (auto simp: AList.delete_eq dest!: map_of_SomeD intro!: length_filter_less)
qed simp

declare ancestorsOf.simps [simp del]

definition othersInstalledAlongside :: "(string \<times> string) list option \<Rightarrow> CSV \<Rightarrow> (string \<Rightarrow> string + CSV) \<Rightarrow> string list" where
  "othersInstalledAlongside annotations target get =
     (case alongsideCSVs target get (FromObject annotations) [] of
        None \<Rightarrow> []
      | Some csvsByName \<Rightarrow>
          let ancestors = ancestorsOf (replaceesOf target csvsByName) (C_Name target)
          in filter (\<lambda>each. each \<in> set ancestors \<and> each \<noteq> C_Name target) (map fst csvsByName))"

section \<open>Round trip\<close>

definition the_map :: "(string \<times> string) list option \<Rightarrow> (string \<times> string) list" where
  "the_map annotations = (case annotations of None \<Rightarrow> [] | Some as \<Rightarrow> as)"

lemma fromAnnotation_own:
  assumes "CHR ''/'' \<notin> set (nn_Namespace nn)" "CHR ''/'' \<notin> set (nn_Name nn)"
  shows "fromAnnotation (nnKey nn, nnText nn) = Some nn"
  using assms by (simp add: fromAnnotation_def nnKey_def nnText_def Split_append)

lemma AList_update_pairs: "(k, v) \<in> set (AList.update k' v' as) \<Longrightarrow> (k, v) = (k', v') \<or> (k, v) \<in> set as"
  by (induction as) (auto split: if_splits)

lemma fold_update_pairs:
  "(k, v) \<in> set (fold (\<lambda>x. AList.update (f x) (g x)) xs as) \<Longrightarrow> (k, v) \<in> set as \<or> (\<exists>x \<in> set xs. k = f x \<and> v = g x)"
  by (induction xs arbitrary: as) (fastforce dest: AList_update_pairs)+

lemma fold_update_lookup:
  "inj_on f (set xs) \<Longrightarrow> map_of (fold (\<lambda>x. AList.update (f x) (g x)) xs as) k =
     (if k \<in> f ` set xs then Some (g (the_inv_into (set xs) f k)) else map_of as k)"
proof (induction xs rule: rev_induct)
  case (snoc x xs)
  then have inj: "inj_on f (insert x (set xs))" by simp
  show ?case
  proof (cases "k \<in> f ` set (xs @ [x])")
    case True
    then obtain y where y: "y \<in> insert x (set xs)" "k = f y" by auto
    then have t: "the_inv_into (set (xs @ [x])) f k = y" using the_inv_into_f_f [OF inj, of y] by simp
    show ?thesis
    proof (cases "y = x")
      case True
      with y t show ?thesis by (simp add: update_conv')
    next
      case False
      with y inj have "f y \<noteq> f x" "y \<in> set xs" by (auto simp: inj_on_def)
      moreover from this have "the_inv_into (set xs) f k = y" using the_inv_into_f_f [of f "set xs" y] inj y by (auto intro: inj_on_subset)
      ultimately show ?thesis using snoc.IH inj y t by (simp add: update_conv')
    qed
  next
    case False
    with snoc.IH inj show ?thesis by (simp add: update_conv')
  qed
qed simp

lemma alongside_read:
  assumes "\<And>nn. nn \<in> set nns \<Longrightarrow> CHR ''/'' \<notin> set (nn_Namespace nn) \<and> CHR ''/'' \<notin> set (nn_Name nn)" "inj_on nnKey (set nns)"
  shows "set (FromObject (ToObject annotations nns)) = set nns"
    "\<not> HasPrefix k AnnotationPrefix \<Longrightarrow> map_of (the_map (ToObject annotations nns)) k = map_of (the_map annotations) k"
proof -
  let ?kept = "filter (\<lambda>(k, v). \<not> HasPrefix k AnnotationPrefix) (the_map annotations)"
  let ?as = "fold (\<lambda>nn. AList.update (nnKey nn) (nnText nn)) nns ?kept"
  have to: "the_map (ToObject annotations nns) = ?as" by (cases annotations) (auto simp: ToObject_def the_map_def Let_def)
  have reads: "FromObject b = List.map_filter fromAnnotation (the_map b)" for b
    by (cases b) (simp_all add: FromObject_def the_map_def map_filter_simps)
  have own: "fromAnnotation (nnKey nn, nnText nn) = Some nn" if "nn \<in> set nns" for nn
    using assms(1) [OF that] by (intro fromAnnotation_own) auto
  have "nn \<in> set nns" if "(k, v) \<in> set ?as" "fromAnnotation (k, v) = Some nn" for k v nn
  proof -
    have "HasPrefix k AnnotationPrefix" using that(2) by (auto simp: fromAnnotation_def split: if_splits)
    with fold_update_pairs [OF that(1)] obtain x where "x \<in> set nns" "(k, v) = (nnKey x, nnText x)" by auto
    with own that(2) show ?thesis by auto
  qed
  moreover have "(nnKey nn, nnText nn) \<in> set ?as" if "nn \<in> set nns" for nn
    using fold_update_lookup [OF assms(2), of nnText ?kept "nnKey nn"] the_inv_into_f_f [OF assms(2) that] that by (auto dest: map_of_SomeD)
  ultimately show "set (FromObject (ToObject annotations nns)) = set nns"
    unfolding reads to using own by (fastforce simp: List.map_filter_def image_iff)
  show "map_of (the_map (ToObject annotations nns)) k = map_of (the_map annotations) k" if "\<not> HasPrefix k AnnotationPrefix"
  proof -
    have "k \<notin> nnKey ` set nns" using that by (auto simp: nnKey_def)
    moreover have "map_of (filter (\<lambda>(k, v). \<not> HasPrefix k AnnotationPrefix) bs) k = map_of bs k" for bs :: "(string \<times> string) list"
      using that by (induction bs) auto
    ultimately show ?thesis using fold_update_lookup [OF assms(2), of nnText ?kept k] by (simp add: to)
  qed
qed

text \<open>What is written is read back: after an object was annotated with some versions, exactly
  these are read from it, and its other annotations are kept. The names of namespaces and
  versions have no CHR ''/'', and no two of the versions have the same key.\<close>

lemma alongside_roundtrip:
  assumes "\<And>nn. nn \<in> set nns \<Longrightarrow> CHR ''/'' \<notin> set (nn_Namespace nn) \<and> CHR ''/'' \<notin> set (nn_Name nn)" "inj_on nnKey (set nns)"
  shows "set (FromObject (ToObject annotations nns)) = set nns
    \<and> (\<forall>k. \<not> HasPrefix k AnnotationPrefix \<longrightarrow> map_of (the_map (ToObject annotations nns)) k = map_of (the_map annotations) k)"
  using alongside_read [OF assms] by blast

section \<open>Which versions are reported\<close>

lemma in_map_filter: "y \<in> set (List.map_filter f xs) \<longleftrightarrow> (\<exists>x \<in> set xs. f x = Some y)"
  by (induction xs) (auto simp: map_filter_simps split: option.split)

definition edges :: "(string \<times> string) list \<Rightarrow> (string \<times> string) set" where
  "edges m = {(a, b). a \<noteq> [] \<and> map_of m a = Some b}"

text \<open>The walk forgets where it has been, which loses nothing.\<close>

lemma trancl_forget:
  assumes "(r, y) \<in> (edges m)\<^sup>+" "map_of m current = Some r"
  shows "y = r \<or> (r, y) \<in> (edges (AList.delete current m))\<^sup>+"
  using assms(1)
proof induction
  case (base y)
  then show ?case using assms(2) by (cases "r = current") (auto simp: edges_def delete_conv' intro!: r_into_trancl)
next
  case (step y z)
  show ?case
  proof (cases "y = current")
    case False
    with step have "(y, z) \<in> edges (AList.delete current m)" by (simp add: edges_def delete_conv')
    with step.IH show ?thesis by (auto intro: trancl_into_trancl)
  qed (use step assms(2) in \<open>simp add: edges_def\<close>)
qed

lemma ancestorsOf_trancl: "set (ancestorsOf m current) = {y. (current, y) \<in> (edges m)\<^sup>+}"
proof (induction m current rule: ancestorsOf.induct)
  case (1 m current)
  show ?case
  proof (cases "current \<noteq> [] \<and> map_of m current \<noteq> None")
    case True
    then obtain r where r: "current \<noteq> []" "map_of m current = Some r" by blast
    have sub: "(edges (AList.delete current m))\<^sup>+ \<subseteq> (edges m)\<^sup>+"
      by (intro trancl_mono_subset) (auto simp: edges_def delete_conv' split: if_splits)
    have e: "(current, r) \<in> edges m" using r by (simp add: edges_def)
    have "{y. (current, y) \<in> (edges m)\<^sup>+} = insert r {y. (r, y) \<in> (edges (AList.delete current m))\<^sup>+}"
    proof (intro set_eqI iffI)
      fix y
      assume "y \<in> {y. (current, y) \<in> (edges m)\<^sup>+}"
      then have "(current, y) \<in> (edges m)\<^sup>+" by simp
      then obtain z where "(current, z) \<in> edges m" "(z, y) \<in> (edges m)\<^sup>*" by (meson tranclD)
      moreover from this have "z = r" using r by (simp add: edges_def)
      ultimately show "y \<in> insert r {y. (r, y) \<in> (edges (AList.delete current m))\<^sup>+}"
        using trancl_forget [OF _ r(2), of y] by (auto simp: rtrancl_eq_or_trancl)
    next
      fix y
      assume "y \<in> insert r {y. (r, y) \<in> (edges (AList.delete current m))\<^sup>+}"
      then show "y \<in> {y. (current, y) \<in> (edges m)\<^sup>+}" using e sub by (auto intro: trancl_into_trancl2)
    qed
    with 1 [OF r] r show ?thesis by (subst ancestorsOf.simps) simp
  next
    case False
    then have "(current, y) \<notin> (edges m)\<^sup>+" for y by (auto simp: edges_def dest: tranclD)
    with False show ?thesis by (subst ancestorsOf.simps) auto
  qed
qed

text \<open>The versions of the target's namespace that are named, exist and are not copies.\<close>

definition alongsideSet :: "CSV \<Rightarrow> (string \<Rightarrow> string + CSV) \<Rightarrow> NamespacedName list \<Rightarrow> CSV set" where
  "alongsideSet target get nns =
     {csv. \<exists>nn \<in> set nns. nn_Namespace nn = C_Namespace target \<and> get (nn_Name nn) = Inr csv \<and> \<not> IsCopied csv}"

definition alongsideOne :: "CSV \<Rightarrow> (string \<Rightarrow> string + CSV) \<Rightarrow> NamespacedName \<Rightarrow> CSV option" where
  "alongsideOne target get nn = (if nn_Namespace nn = C_Namespace target then
     (case get (nn_Name nn) of Inl e \<Rightarrow> None | Inr csv \<Rightarrow> if IsCopied csv then None else Some csv) else None)"

lemma alongsideOne_iff:
  "alongsideOne target get nn = Some csv \<longleftrightarrow> nn_Namespace nn = C_Namespace target \<and> get (nn_Name nn) = Inr csv \<and> \<not> IsCopied csv"
  by (auto simp: alongsideOne_def split: sum.splits)

lemma alongsideCSVs_iff:
  assumes "\<And>n csv. get n = Inr csv \<Longrightarrow> C_Name csv = n"
  shows "alongsideCSVs target get nns m =
    (if \<lparr>nn_Namespace = C_Namespace target, nn_Name = C_Name target\<rparr> \<in> set nns then None
     else Some (fold (\<lambda>csv. AList.update (C_Name csv) csv) (List.map_filter (alongsideOne target get) nns) m))"
  by (induction nns arbitrary: m) (auto simp: map_filter_simps alongsideOne_def split: sum.split)

lemma alongsideCSVs_map:
  assumes "\<And>n csv. get n = Inr csv \<Longrightarrow> C_Name csv = n" "alongsideCSVs target get nns [] = Some m"
  shows "map_of m name = Some csv \<longleftrightarrow> csv \<in> alongsideSet target get nns \<and> C_Name csv = name"
proof -
  let ?xs = "List.map_filter (alongsideOne target get) nns"
  have m: "m = fold (\<lambda>csv. AList.update (C_Name csv) csv) ?xs []"
    using assms(2) alongsideCSVs_iff [of get target nns "[]"] assms(1) by (simp split: if_splits)
  have xs: "set ?xs = alongsideSet target get nns"
    by (auto simp: alongsideSet_def in_map_filter alongsideOne_iff)
  have inj: "inj_on C_Name (set ?xs)"
    unfolding xs inj_on_def alongsideSet_def using assms(1) by fastforce
  have "csv = the_inv_into (set ?xs) C_Name (C_Name csv)" if "csv \<in> set ?xs" for csv
    using the_inv_into_f_f [OF inj that] by simp
  then show ?thesis
    unfolding m fold_update_lookup [OF inj, of "\<lambda>x. x", simplified] xs [symmetric] using inj by (auto simp: inj_on_def)
qed

lemma map_of_map_filter:
  assumes "distinct (map fst m)"
  shows "map_of (List.map_filter (\<lambda>(k, v). if P v then Some (k, f v) else None) m) k =
    (case map_of m k of None \<Rightarrow> None | Some v \<Rightarrow> if P v then Some (f v) else None)"
  using assms
proof (induction m)
  case (Cons x m)
  obtain a v where x: "x = (a, v)" by fastforce
  with Cons.prems have "map_of m a = None" by (simp add: map_of_eq_None_iff)
  with Cons x show ?case by (auto simp: map_filter_simps)
qed (simp add: map_filter_simps)

lemma lookup_Some: "(case x of None \<Rightarrow> None | Some v \<Rightarrow> if P v then Some (f v) else None) = Some b \<longleftrightarrow> (\<exists>v. x = Some v \<and> P v \<and> f v = b)"
  by (simp split: option.split)

text \<open>The relation along which the target's ancestors are found.\<close>

definition olderThan :: "CSV \<Rightarrow> CSV set \<Rightarrow> (string \<times> string) set" where
  "olderThan target A = {(a, b). a = C_Name target \<and> b = C_Replaces target \<and> b \<noteq> []
     \<or> (\<exists>csv \<in> A. C_Name csv = a \<and> C_Replaces csv = b \<and> b \<in> C_Name ` A)}"

lemma distinct_alongside: "alongsideCSVs target get nns m = Some m' \<Longrightarrow> distinct (map fst m) \<Longrightarrow> distinct (map fst m')"
  by (induction target get nns m rule: alongsideCSVs.induct) (auto simp: distinct_update split: if_splits sum.splits)

text \<open>The versions reported as installed alongside an object, against a target version, are exactly
  those that are named on the object for the target's namespace, exist, are not copies, are not
  the target, and are replaced by it directly or through further versions named on the object.
  None is reported if the target itself is named.\<close>

lemma othersInstalledAlongside_iff:
  assumes "\<And>n csv. get n = Inr csv \<Longrightarrow> C_Name csv = n" "C_Name target \<noteq> []" "\<And>csv. get [] \<noteq> Inr csv"
  shows "name \<in> set (othersInstalledAlongside annotations target get) \<longleftrightarrow>
    \<lparr>nn_Namespace = C_Namespace target, nn_Name = C_Name target\<rparr> \<notin> set (FromObject annotations)
    \<and> name \<in> C_Name ` alongsideSet target get (FromObject annotations)
    \<and> (C_Name target, name) \<in> (olderThan target (alongsideSet target get (FromObject annotations)))\<^sup>+ \<and> name \<noteq> C_Name target"
proof (cases "alongsideCSVs target get (FromObject annotations) []")
  case None
  then have "\<lparr>nn_Namespace = C_Namespace target, nn_Name = C_Name target\<rparr> \<in> set (FromObject annotations)"
    using alongsideCSVs_iff [of get target "FromObject annotations" "[]"] assms(1) by (simp split: if_splits)
  with None show ?thesis by (simp add: othersInstalledAlongside_def)
next
  case (Some m)
  let ?A = "alongsideSet target get (FromObject annotations)"
  have named: "\<lparr>nn_Namespace = C_Namespace target, nn_Name = C_Name target\<rparr> \<notin> set (FromObject annotations)"
    using alongsideCSVs_iff [of get target "FromObject annotations" "[]"] assms(1) Some by (simp split: if_splits)
  have look: "map_of m n = Some csv \<longleftrightarrow> csv \<in> ?A \<and> C_Name csv = n" for n csv
    by (rule alongsideCSVs_map [OF _ Some]) (use assms(1) in blast)
  have d: "distinct (map fst m)" using distinct_alongside [OF Some] by simp
  have dom: "fst ` set m = C_Name ` ?A"
    using look by (auto simp: image_iff) (metis d map_of_eq_Some_iff fst_conv eq_fst_iff)+
  have nonempty: "csv \<in> ?A \<Longrightarrow> C_Name csv \<noteq> []" for csv using assms(1,3) by (auto simp: alongsideSet_def)
  have target: "csv \<in> ?A \<Longrightarrow> C_Name csv \<noteq> C_Name target" for csv
    using named assms(1) by (auto simp: alongsideSet_def) (metis (full_types) NamespacedName.surjective old.unit.exhaust)
  have "edges (replaceesOf target m) = olderThan target ?A"
  proof -
    have within: "map_of (List.map_filter (\<lambda>(current, csv). if map_of m (C_Replaces csv) \<noteq> None then Some (current, C_Replaces csv) else None) m) a = Some b
        \<longleftrightarrow> (\<exists>csv \<in> ?A. C_Name csv = a \<and> C_Replaces csv = b \<and> b \<in> C_Name ` ?A)" for a b
    proof -
      have some: "map_of m n \<noteq> None \<longleftrightarrow> n \<in> C_Name ` ?A" for n using dom by (simp add: map_of_eq_None_iff)
      show ?thesis
        unfolding some map_of_map_filter [OF d, of "\<lambda>csv. C_Replaces csv \<in> C_Name ` ?A" C_Replaces] lookup_Some look by blast
    qed
    have "map_of (replaceesOf target m) a = Some b \<longleftrightarrow> (if a = C_Name target \<and> C_Replaces target \<noteq> [] then b = C_Replaces target
        else \<exists>csv \<in> ?A. C_Name csv = a \<and> C_Replaces csv = b \<and> b \<in> C_Name ` ?A)" for a b
      unfolding within [symmetric] by (auto simp: replaceesOf_def Let_def update_conv')
    note rep = this
    have "(a, b) \<in> edges (replaceesOf target m) \<longleftrightarrow> (a, b) \<in> olderThan target ?A" for a b
    proof (cases "a = C_Name target")
      case True
      then have "\<not> (\<exists>csv \<in> ?A. C_Name csv = a)" using target by blast
      with True assms(2) show ?thesis unfolding edges_def olderThan_def mem_Collect_eq prod.case rep by (cases "C_Replaces target = []") auto
    next
      case False
      then show ?thesis unfolding edges_def olderThan_def mem_Collect_eq prod.case rep using nonempty by auto
    qed
    then show ?thesis by auto
  qed
  then show ?thesis
    using Some named dom ancestorsOf_trancl [of "replaceesOf target m" "C_Name target"]
    by (auto simp: othersInstalledAlongside_def Let_def)
qed

lemma alongsideCSVs_own:
  "\<lparr>nn_Namespace = C_Namespace target, nn_Name = C_Name target\<rparr> \<in> set nns \<Longrightarrow> alongsideCSVs target get nns m = None"
  by (induction target get nns m rule: alongsideCSVs.induct) (auto split: sum.split)

text \<open>An object that a plan has installed for a version is not reported against that version.\<close>

lemma own_installation_unreported:
  assumes "namespace \<noteq> []" "C_Name target \<noteq> []" "C_Namespace target = namespace"
    and "CHR ''/'' \<notin> set namespace" "CHR ''/'' \<notin> set (C_Name target)"
    and "as = setInstalledAlongsideAnnotation get' namespace (C_Name target) srcs dst"
    and "\<And>nn. nn \<in> set (concat (map FromObject srcs)) \<Longrightarrow> CHR ''/'' \<notin> set (nn_Namespace nn) \<and> CHR ''/'' \<notin> set (nn_Name nn)"
    and "inj_on nnKey (insert \<lparr>nn_Namespace = namespace, nn_Name = C_Name target\<rparr> (set (concat (map FromObject srcs))))"
  shows "othersInstalledAlongside as target get = []"
proof -
  let ?nn = "\<lparr>nn_Namespace = namespace, nn_Name = C_Name target\<rparr>"
  let ?nns = "filter (keepAlongside get' namespace (C_Name target)) (concat (map FromObject srcs)) @ [?nn]"
  have "inj_on nnKey (set ?nns)" by (rule inj_on_subset [OF assms(8)]) auto
  then have "set (FromObject (ToObject dst ?nns)) = set ?nns"
    using assms(4,5,7) by (intro alongside_read) auto
  then have "?nn \<in> set (FromObject as)" using assms(1,2) by (simp add: assms(6) setInstalledAlongsideAnnotation_def)
  then have "alongsideCSVs target get (FromObject as) m = None" for m
    using assms(3) by (intro alongsideCSVs_own) simp
  then show ?thesis by (simp add: othersInstalledAlongside_def)
qed

definition demoNames :: "NamespacedName list" where
  "demoNames = [\<lparr>nn_Namespace = ''ns'', nn_Name = ''a.v1''\<rparr>, \<lparr>nn_Namespace = ''ns'', nn_Name = ''a.v2''\<rparr>]"

definition demoAnnotations :: "(string \<times> string) list" where
  "demoAnnotations = [(AnnotationPrefix @ ''1'', ''ns/a.v1''), (AnnotationPrefix @ ''2'', ''ns/a.v2'')]"

lemma alongside_roundtrip_witness:
  "set (FromObject (ToObject (Some ((''x'', ''y'') # demoAnnotations)) [hd demoNames])) = {hd demoNames}
    \<and> map_of (the_map (ToObject (Some ((''x'', ''y'') # demoAnnotations)) [hd demoNames])) ''x'' = Some ''y''"
proof -
  have "\<not> HasPrefix ''x'' AnnotationPrefix" by code_simp
  then show ?thesis
    using alongside_roundtrip [of "[hd demoNames]" "Some ((''x'', ''y'') # demoAnnotations)"] by (simp add: demoNames_def the_map_def)
qed

definition demoLister :: "string \<Rightarrow> string + CSV" where
  "demoLister name = (if name = ''a.v1'' then Inr (demoCSV ''a.v1'' [] CSVPhaseSucceeded)
     else if name = ''a.v2'' then Inr (demoCSV ''a.v2'' ''a.v1'' CSVPhaseSucceeded) else Inl ''not found'')"

lemma othersInstalledAlongside_iff_witness:
  "''a.v1'' \<in> set (othersInstalledAlongside (Some demoAnnotations) (demoCSV ''a.v3'' ''a.v2'' CSVPhasePending) demoLister)"
proof -
  let ?target = "demoCSV ''a.v3'' ''a.v2'' CSVPhasePending"
  have "FromObject (Some demoAnnotations) = demoNames" by code_simp
  note names = this
  have A: "alongsideSet ?target demoLister demoNames = {demoCSV ''a.v1'' [] CSVPhaseSucceeded, demoCSV ''a.v2'' ''a.v1'' CSVPhaseSucceeded}"
    by (auto simp: alongsideSet_def demoNames_def demoLister_def demoCSV_def IsCopied_def split: if_splits)
  have "(''a.v3'', ''a.v2'') \<in> olderThan ?target (alongsideSet ?target demoLister demoNames)"
    "(''a.v2'', ''a.v1'') \<in> olderThan ?target (alongsideSet ?target demoLister demoNames)"
    unfolding A olderThan_def by (simp_all add: demoCSV_def)
  then have "(C_Name ?target, ''a.v1'') \<in> (olderThan ?target (alongsideSet ?target demoLister demoNames))\<^sup>+"
    by (simp add: demoCSV_def)
  moreover have "C_Name csv = n" if "demoLister n = Inr csv" for n csv using that by (auto simp: demoLister_def demoCSV_def split: if_splits)
  ultimately show ?thesis
    using othersInstalledAlongside_iff [of demoLister ?target "''a.v1''" "Some demoAnnotations"]
    by (simp add: names A) (simp add: demoNames_def demoCSV_def demoLister_def)
qed

end
