(* ===== verification/Requirements.thy ===== *)
theory Requirements
  imports Alongside Operator_Permissions CSV_Machine
begin

text \<open>
  The requirements and permissions of a ClusterServiceVersion, \<open>operators/olm/requirements.go\<close>: the
  version of Kubernetes, CRDs, API services and native APIs, and the permissions of service
  accounts, with the statuses that are reported. The API server, its listers and discovery are the
  fields of \<open>req_world\<close>; the check of rules is the model of the rule checker.
\<close>

section \<open>Versions with their requirements\<close>

record ownedAPI = apiDesc +
  oa_DeploymentName :: string

record requirements =
  rs_Object :: Object
  rs_CSV :: CSV
  rs_MinKubeVersion :: string
  rs_OwnedAPIServices :: "ownedAPI list"
  rs_NativeAPIs :: "apiDesc list"
  rs_DeploymentSpecs :: "string list"
  rs_InstallStrategy :: installStrategy

datatype RequirementReason = ReasonPresent | ReasonNotPresent | ReasonPresentNotSatisfied | ReasonNotAvailable
  | DeploymentFound | DeploymentNotFound

record DependentStatus =
  ds_Satisfied :: bool
  ds_Message :: string

record RequirementStatus =
  rt_Group :: string
  rt_Version :: string
  rt_Kind :: string
  rt_Name :: string
  rt_Status :: RequirementReason
  rt_Message :: string
  rt_UUID :: string
  rt_Dependents :: "DependentStatus list"

record CustomResource =
  cr_Name :: string
  cr_UID :: string
  cr_Annotations :: "(string \<times> string) list option"
  cr_Versions :: "(string \<times> bool) list"
  cr_Conditions :: "(string \<times> bool) list"

record APIService =
  as_UID :: string
  as_Conditions :: "(string \<times> bool) list"

text \<open>A condition is its type and whether its status is true. Versions of Kubernetes are of any type
  \<open>'v\<close>. A missing rule checker is \<open>None\<close>.\<close>

record 'v req_world =
  rq_serverVersion :: "string + string"
  rq_NewVersion :: "string \<Rightarrow> string + 'v"
  rq_Compare :: "'v \<Rightarrow> 'v \<Rightarrow> int"
  rq_showVersion :: "'v \<Rightarrow> string"
  rq_crd :: "string \<Rightarrow> string + CustomResource"
  rq_csv :: "string \<Rightarrow> string + CSV"
  rq_kinds :: "string \<Rightarrow> string + string list"
  rq_apiService :: "string \<Rightarrow> string + APIService"
  rq_serviceAccount :: "string \<Rightarrow> string + Object"
  rq_informersFiltered :: bool
  rq_hashes :: rbacHashes
  rq_roles :: "string + roleObject list"
  rq_roleBindings :: "string + bindingObject list"
  rq_clusterRoles :: "string + roleObject list"
  rq_clusterRoleBindings :: "string + bindingObject list"
  rq_marshal :: "PolicyRule \<Rightarrow> string + string"
  rq_ruleChecker :: "rule_sources option"
  rq_attributesOrder :: "(string \<times> Attributes) list \<Rightarrow> (string \<times> Attributes) list"
  rq_statusOrder :: "(string \<times> RequirementStatus) list \<Rightarrow> (string \<times> RequirementStatus) list"
  rq_rbacError :: "rbac_error \<Rightarrow> string"

definition newStatus :: "string \<Rightarrow> string \<Rightarrow> string \<Rightarrow> string \<Rightarrow> RequirementReason \<Rightarrow> string \<Rightarrow> RequirementStatus" where
  "newStatus g v k name reason message = \<lparr>rt_Group = g, rt_Version = v, rt_Kind = k, rt_Name = name, rt_Status = reason,
     rt_Message = message, rt_UUID = [], rt_Dependents = []\<rparr>"

section \<open>The version of Kubernetes\<close>

definition TrimPrefix :: "string \<Rightarrow> string \<Rightarrow> string" where
  "TrimPrefix s p = (if HasPrefix s p then drop (length p) s else s)"

definition minKubeVersionStatus :: "'v req_world \<Rightarrow> string \<Rightarrow> string \<Rightarrow> bool \<times> RequirementStatus list" where
  "minKubeVersionStatus W name minKubeVersion =
     (let status = newStatus ''operators.coreos.com'' ''v1alpha1'' ''ClusterServiceVersion'' name;
          unmet = (\<lambda>message. (False, [status ReasonPresentNotSatisfied message]))
      in if minKubeVersion = [] then (True, [])
         else case rq_serverVersion W of
           Inl e \<Rightarrow> unmet ''Server version discovery error''
         | Inr serverVersionInfo \<Rightarrow>
             (case rq_NewVersion W (hd (Split (CHR ''-'') (TrimPrefix serverVersionInfo ''v''))) of
                Inl e \<Rightarrow> unmet ''Server version parsing error''
              | Inr serverVersion \<Rightarrow>
                  (case rq_NewVersion W (TrimPrefix minKubeVersion ''v'') of
                     Inl e \<Rightarrow> unmet ''CSV version parsing error''
                   | Inr csvVersionInfo \<Rightarrow>
                       if rq_Compare W csvVersionInfo serverVersion > 0
                       then unmet (''CSV version requirement not met: minKubeVersion ('' @ minKubeVersion @ '') > server version ('' @ rq_showVersion W serverVersion @ '')'')
                       else (True, [status ReasonPresent (''CSV minKubeVersion ('' @ minKubeVersion @ '') less than server version ('' @ serverVersionInfo @ '')'')]))))"

section \<open>CRDs and APIs\<close>

text \<open>Descriptions by key, the last of a key, in the order of the keys.\<close>

definition sortedByKey :: "('a \<Rightarrow> string) \<Rightarrow> 'a list \<Rightarrow> 'a list" where
  "sortedByKey key xs =
     (let m = fold (\<lambda>x. AList.update (key x) x) xs []
      in map (\<lambda>k. the (map_of m k)) (sort (map fst m)))"

definition GetAllCRDDescriptions :: "CSV \<Rightarrow> crdDesc list" where
  "GetAllCRDDescriptions csv = sortedByKey cd_Name (csv_RequiredCRDs csv @ csv_OwnedCRDs csv)"

definition apiName :: "'a apiDesc_scheme \<Rightarrow> string" where
  "apiName r = ad_Version r @ ''.'' @ ad_Group r"

definition GetRequiredAPIServiceDescriptions :: "requirements \<Rightarrow> apiDesc list" where
  "GetRequiredAPIServiceDescriptions r =
     sortedByKey apiName (filter (\<lambda>d. apiName d \<notin> set (map apiName (rs_OwnedAPIServices r))) (csv_RequiredAPIServices (rs_CSV r)))"

definition GetOwnedAPIServiceDescriptions :: "requirements \<Rightarrow> ownedAPI list" where
  "GetOwnedAPIServiceDescriptions r = sortedByKey apiName (rs_OwnedAPIServices r)"

text \<open>Whether the first version of the name is served, and the two conditions.\<close>

definition versionServed :: "CustomResource \<Rightarrow> string \<Rightarrow> bool" where
  "versionServed crd version = (case find (\<lambda>v. fst v = version) (cr_Versions crd) of Some v \<Rightarrow> snd v | None \<Rightarrow> False)"

definition conditionTrue :: "(string \<times> bool) list \<Rightarrow> string \<Rightarrow> bool" where
  "conditionTrue conds t = list_ex (\<lambda>c. fst c = t \<and> snd c) conds"

definition crdStatus :: "'v req_world \<Rightarrow> requirements \<Rightarrow> crdDesc \<Rightarrow> bool \<times> RequirementStatus" where
  "crdStatus W r d =
     (let status = newStatus ''apiextensions.k8s.io'' ''v1'' ''CustomResourceDefinition'' (cd_Name d)
      in case rq_crd W (cd_Name d) of
           Inl e \<Rightarrow> (False, status ReasonNotPresent ''CRD is not present'')
         | Inr crd \<Rightarrow>
             let others = othersInstalledAlongside (cr_Annotations crd) (rs_CSV r) (rq_csv W)
             in if others \<noteq> [] \<and> OwnsCRD (rs_CSV r) (cr_Name crd)
                then (False, status ReasonPresentNotSatisfied (''CRD installed alongside other CSV(s): '' @ Join others '', ''))
                else if \<not> versionServed crd (cd_Version d) then (False, status ReasonNotPresent ''CRD version not served'')
                else if conditionTrue (cr_Conditions crd) ''Established'' \<and> conditionTrue (cr_Conditions crd) ''NamesAccepted''
                then (True, (status ReasonPresent ''CRD is present and Established condition is true'')\<lparr>rt_UUID := cr_UID crd\<rparr>)
                else (False, status ReasonNotAvailable ''CRD is present but the Established condition is False (not available)''))"

definition gvString :: "string \<Rightarrow> string \<Rightarrow> string" where
  "gvString g v = (if g \<noteq> [] then g @ ''/'' @ v else v)"

definition isGVKRegistered :: "'v req_world \<Rightarrow> string \<Rightarrow> string \<Rightarrow> string \<Rightarrow> string + bool" where
  "isGVKRegistered W g v k = bind_err (rq_kinds W (gvString g v)) (\<lambda>kinds. Inr (k \<in> set kinds))"

definition IsAPIServiceAvailable :: "APIService \<Rightarrow> bool" where
  "IsAPIServiceAvailable s = conditionTrue (as_Conditions s) ''Available''"

definition requiredAPIStatus :: "'v req_world \<Rightarrow> apiDesc \<Rightarrow> bool \<times> RequirementStatus" where
  "requiredAPIStatus W d =
     (let status = newStatus ''apiregistration.k8s.io'' ''v1'' ''APIService'' (apiName d)
      in if isGVKRegistered W (ad_Group d) (ad_Version d) (ad_Kind d) \<noteq> Inr True then (False, status ReasonNotPresent [])
         else case rq_apiService W (apiName d) of
           Inl e \<Rightarrow> (False, status ReasonNotPresent [])
         | Inr s \<Rightarrow> if IsAPIServiceAvailable s then (True, (status ReasonPresent [])\<lparr>rt_UUID := as_UID s\<rparr>)
                    else (False, status ReasonNotPresent []))"

definition ownedAPIStatus :: "requirements \<Rightarrow> ownedAPI \<Rightarrow> bool \<times> RequirementStatus" where
  "ownedAPIStatus r d =
     (let ok = oa_DeploymentName d \<in> set (rs_DeploymentSpecs r)
      in (ok, newStatus ''apiregistration.k8s.io'' ''v1'' ''APIService'' (apiName d) (if ok then DeploymentFound else DeploymentNotFound) []))"

definition nativeAPIStatus :: "'v req_world \<Rightarrow> apiDesc \<Rightarrow> bool \<times> RequirementStatus" where
  "nativeAPIStatus W d =
     (let status = newStatus (ad_Group d) (ad_Version d) (ad_Kind d) (apiName d)
      in if isGVKRegistered W (ad_Group d) (ad_Version d) (ad_Kind d) \<noteq> Inr True then (False, status ReasonNotPresent ''Native API does not exist'')
         else (True, status ReasonPresent ''Native API exists''))"

definition requirementStatus :: "'v req_world \<Rightarrow> requirements \<Rightarrow> bool \<times> RequirementStatus list" where
  "requirementStatus W r =
     (let results = map (crdStatus W r) (GetAllCRDDescriptions (rs_CSV r)) @ map (requiredAPIStatus W) (GetRequiredAPIServiceDescriptions r)
            @ map (ownedAPIStatus r) (GetOwnedAPIServiceDescriptions r) @ map (nativeAPIStatus W) (rs_NativeAPIs r)
      in (list_all fst results, map snd results))"

section \<open>Permissions\<close>

text \<open>A selector of labels, and the search for roles and bindings made before.\<close>

definition selects :: "(string \<times> string) list \<Rightarrow> Object \<Rightarrow> bool" where
  "selects wanted obj \<longleftrightarrow> list_all (\<lambda>(k, v). (case Obj_Labels obj of None \<Rightarrow> None | Some ls \<Rightarrow> map_of ls k) = Some v) wanted"

definition permissionsPreviouslyCreated :: "rbacHashes \<Rightarrow> Permission \<Rightarrow> Object \<Rightarrow> string + roleObject list \<Rightarrow> string + bindingObject list \<Rightarrow> string + bool" where
  "permissionsPreviouslyCreated H p csv listRoles listBindings =
     (case PolicyRuleHashLabelValue H (pm_Rules p) of
        Inl e \<Rightarrow> Inl (''failed to hash permission rules: '' @ e)
      | Inr ruleHash \<Rightarrow>
          bind_err listRoles (\<lambda>roles.
            case filter (\<lambda>r. selects (AList.update ContentHashLabelKey ruleHash (OwnerLabel csv ''ClusterServiceVersion'')) (ro_Meta r)) roles of
              [] \<Rightarrow> Inr False
            | role # _ \<Rightarrow>
                (case RoleReferenceAndSubjectHashLabelValue H \<lparr>RoleRef_Kind = ''Role'', RoleRef_Name = Obj_Name (ro_Meta role)\<rparr>
                        [\<lparr>Subject_Kind = ''ServiceAccount'', Subject_Name = pm_ServiceAccountName p, Subject_Namespace = Obj_Namespace csv\<rparr>] of
                   Inl e \<Rightarrow> Inl (''failed to hash binding content: '' @ e)
                 | Inr bindingHash \<Rightarrow>
                     bind_err listBindings (\<lambda>bindings.
                       Inr (list_ex (\<lambda>b. selects (AList.update ContentHashLabelKey bindingHash (OwnerLabel csv ''ClusterServiceVersion'')) (bo_Meta b)) bindings)))))"

definition previouslyCreated :: "'v req_world \<Rightarrow> requirements \<Rightarrow> Permission \<Rightarrow> string \<Rightarrow> string + bool" where
  "previouslyCreated W r p namespace =
     (if namespace = [] then permissionsPreviouslyCreated (rq_hashes W) p (rs_Object r) (rq_clusterRoles W) (rq_clusterRoleBindings W)
      else permissionsPreviouslyCreated (rq_hashes W) p (rs_Object r)
             (bind_err (rq_roles W) (\<lambda>rs. Inr (filter (\<lambda>x. Obj_Namespace (ro_Meta x) = namespace) rs)))
             (bind_err (rq_roleBindings W) (\<lambda>bs. Inr (filter (\<lambda>x. Obj_Namespace (bo_Meta x) = namespace) bs))))"

definition saOf :: "Object \<Rightarrow> ServiceAccount" where
  "saOf obj = \<lparr>SA_Namespace = Obj_Namespace obj, SA_Name = Obj_Name obj, SA_UID = Obj_UID obj\<rparr>"

text \<open>The rules of one permission: the status and whether all are satisfied so far.\<close>

fun checkRules :: "'v req_world \<Rightarrow> rule_sources \<Rightarrow> Object \<Rightarrow> string \<Rightarrow> PolicyRule list \<Rightarrow> RequirementStatus \<times> bool \<Rightarrow> string + RequirementStatus \<times> bool" where
  "checkRules W checker sa namespace [] (status, met) = Inr (status, met)"
| "checkRules W checker sa namespace (rule # rules) (status, met) =
     (case rq_marshal W rule of
        Inl e \<Rightarrow> checkRules W checker sa namespace rules
                  (status\<lparr>rt_Dependents := rt_Dependents status @ [\<lparr>ds_Satisfied = False, ds_Message = ''rule unmarshallable''\<rparr>]\<rparr>, met)
      | Inr marshalled \<Rightarrow>
          let message = (if namespace = [] then ''cluster'' else ''namespaced'') @ '' rule:'' @ marshalled
          in (case RuleSatisfied (rq_attributesOrder W) checker (saOf sa) namespace rule of
                Inl e \<Rightarrow> Inl (rq_rbacError W e)
              | Inr False \<Rightarrow> checkRules W checker sa namespace rules
                    (status\<lparr>rt_Status := ReasonPresentNotSatisfied, rt_Message := ''Policy rule not satisfied for service account'',
                       rt_Dependents := rt_Dependents status @ [\<lparr>ds_Satisfied = False, ds_Message = message\<rparr>]\<rparr>, False)
              | Inr True \<Rightarrow> checkRules W checker sa namespace rules
                    (status\<lparr>rt_Dependents := rt_Dependents status @ [\<lparr>ds_Satisfied = True, ds_Message = message\<rparr>]\<rparr>, met)))"

text \<open>The status that the turn of a permission starts from.\<close>

definition startStatus :: "(string \<times> RequirementStatus) list \<Rightarrow> string \<Rightarrow> RequirementStatus" where
  "startStatus ss sa = (case map_of ss sa of Some stored \<Rightarrow> stored | None \<Rightarrow> newStatus [] ''v1'' ''ServiceAccount'' sa ReasonPresent [])"

text \<open>One permission: the statuses by service account, and whether all is met so far. A permission
  that was created before ends its turn without its status being stored.\<close>

definition checkPermission :: "'v req_world \<Rightarrow> requirements \<Rightarrow> string \<Rightarrow> Permission \<Rightarrow> (string \<times> RequirementStatus) list \<times> bool
    \<Rightarrow> string + (string \<times> RequirementStatus) list \<times> bool" where
  "checkPermission W r namespace p = (\<lambda>(statusesSet, met).
     let saName = pm_ServiceAccountName p;
         status = startStatus statusesSet saName
     in case rq_serviceAccount W saName of
          Inl e \<Rightarrow> Inr (AList.update saName (status\<lparr>rt_Status := ReasonNotPresent, rt_Message := ''Service account does not exist''\<rparr>) statusesSet, False)
        | Inr sa \<Rightarrow>
            if IsOwnedByKind sa ''ClusterServiceVersion'' \<and> \<not> IsOwnedBy sa (rs_Object r)
            then Inr (AList.update saName (status\<lparr>rt_Status := ReasonPresentNotSatisfied,
                        rt_Message := ''Service account is owned by another ClusterServiceVersion''\<rparr>) statusesSet, False)
            else bind_err (if rq_informersFiltered W then previouslyCreated W r p namespace else Inr False) (\<lambda>permissionMet.
              if permissionMet then Inr (statusesSet, met)
              else case rq_ruleChecker W of
                None \<Rightarrow> Inl ''could not create a rule checker (are we shutting down?)''
              | Some sources \<Rightarrow>
                  bind_err (checkRules W (CSVRuleChecker sources (rs_Object r)) sa namespace (pm_Rules p) (status, met)) (\<lambda>(status', met').
                    Inr (AList.update saName status' statusesSet, met'))))"

fun checkPermissions :: "'v req_world \<Rightarrow> requirements \<Rightarrow> string \<Rightarrow> Permission list \<Rightarrow> (string \<times> RequirementStatus) list \<times> bool
    \<Rightarrow> string + (string \<times> RequirementStatus) list \<times> bool" where
  "checkPermissions W r namespace [] st = Inr st"
| "checkPermissions W r namespace (p # ps) st = bind_err (checkPermission W r namespace p st) (checkPermissions W r namespace ps)"

definition permissionStatus :: "'v req_world \<Rightarrow> requirements \<Rightarrow> string \<Rightarrow> installStrategy \<Rightarrow> string + bool \<times> RequirementStatus list" where
  "permissionStatus W r targetNamespace s =
     bind_err (checkPermissions W r targetNamespace (is_Permissions s) ([], True)) (\<lambda>(statusesSet, permMet).
     bind_err (checkPermissions W r [] (is_ClusterPermissions s) (statusesSet, True)) (\<lambda>(statusesSet', clusterPermMet).
       Inr (permMet \<and> clusterPermMet, map snd (rq_statusOrder W statusesSet'))))"

definition requirementAndPermissionStatus :: "'v req_world \<Rightarrow> requirements \<Rightarrow> string + bool \<times> RequirementStatus list" where
  "requirementAndPermissionStatus W r =
     bind_err (UnmarshalStrategy (rs_InstallStrategy r)) (\<lambda>s.
       case minKubeVersionStatus W (C_Name (rs_CSV r)) (rs_MinKubeVersion r) of
         (minKubeMet, minKubeStatus) \<Rightarrow>
           (case requirementStatus W r of
              (reqMet, reqStatuses) \<Rightarrow>
                bind_err (permissionStatus W r (C_Namespace (rs_CSV r)) s) (\<lambda>(permMet, permStatuses).
                  Inr (minKubeMet \<and> reqMet \<and> permMet, minKubeStatus @ reqStatuses @ permStatuses))))"

section \<open>When the requirements are met\<close>

definition kubeRecent :: "'v req_world \<Rightarrow> string \<Rightarrow> bool" where
  "kubeRecent W minKubeVersion \<longleftrightarrow> minKubeVersion = [] \<or>
     (\<exists>info server wanted. rq_serverVersion W = Inr info \<and> rq_NewVersion W (hd (Split (CHR ''-'') (TrimPrefix info ''v''))) = Inr server
       \<and> rq_NewVersion W (TrimPrefix minKubeVersion ''v'') = Inr wanted \<and> rq_Compare W wanted server \<le> 0)"

lemma minKubeVersionStatus_met: "fst (minKubeVersionStatus W name v) = kubeRecent W v"
  by (auto simp: minKubeVersionStatus_def kubeRecent_def Let_def split: sum.splits)

definition crdReady :: "'v req_world \<Rightarrow> CSV \<Rightarrow> crdDesc \<Rightarrow> bool" where
  "crdReady W csv d \<longleftrightarrow> (\<exists>crd. rq_crd W (cd_Name d) = Inr crd \<and> versionServed crd (cd_Version d)
     \<and> conditionTrue (cr_Conditions crd) ''Established'' \<and> conditionTrue (cr_Conditions crd) ''NamesAccepted''
     \<and> (OwnsCRD csv (cr_Name crd) \<longrightarrow> othersInstalledAlongside (cr_Annotations crd) csv (rq_csv W) = []))"

lemma crdStatus_met: "fst (crdStatus W r d) = crdReady W (rs_CSV r) d"
  by (auto simp: crdStatus_def crdReady_def Let_def split: sum.splits)

definition apiServed :: "'v req_world \<Rightarrow> apiDesc \<Rightarrow> bool" where
  "apiServed W d \<longleftrightarrow> (\<exists>kinds. rq_kinds W (gvString (ad_Group d) (ad_Version d)) = Inr kinds \<and> ad_Kind d \<in> set kinds)"

lemma isGVKRegistered_served: "isGVKRegistered W (ad_Group d) (ad_Version d) (ad_Kind d) = Inr True \<longleftrightarrow> apiServed W d"
  by (auto simp: isGVKRegistered_def apiServed_def go_err)

lemma requiredAPIStatus_met:
  "fst (requiredAPIStatus W d) \<longleftrightarrow> apiServed W d \<and> (\<exists>s. rq_apiService W (apiName d) = Inr s \<and> conditionTrue (as_Conditions s) ''Available'')"
  by (auto simp: requiredAPIStatus_def isGVKRegistered_served IsAPIServiceAvailable_def Let_def split: sum.split)

definition requirementsMet :: "'v req_world \<Rightarrow> requirements \<Rightarrow> bool" where
  "requirementsMet W r \<longleftrightarrow> kubeRecent W (rs_MinKubeVersion r)
     \<and> (\<forall>d \<in> set (GetAllCRDDescriptions (rs_CSV r)). crdReady W (rs_CSV r) d)
     \<and> (\<forall>d \<in> set (GetRequiredAPIServiceDescriptions r). apiServed W d
          \<and> (\<exists>s. rq_apiService W (apiName d) = Inr s \<and> conditionTrue (as_Conditions s) ''Available''))
     \<and> (\<forall>d \<in> set (GetOwnedAPIServiceDescriptions r). oa_DeploymentName d \<in> set (rs_DeploymentSpecs r))
     \<and> (\<forall>d \<in> set (rs_NativeAPIs r). apiServed W d)"

lemma requirementStatus_met: "kubeRecent W (rs_MinKubeVersion r) \<and> fst (requirementStatus W r) \<longleftrightarrow> requirementsMet W r"
proof -
  have "fst (ownedAPIStatus r d) \<longleftrightarrow> oa_DeploymentName d \<in> set (rs_DeploymentSpecs r)" for d by (simp add: ownedAPIStatus_def Let_def)
  moreover have "fst (nativeAPIStatus W d) \<longleftrightarrow> apiServed W d" for d by (simp add: nativeAPIStatus_def isGVKRegistered_served Let_def)
  ultimately show ?thesis
    unfolding requirementStatus_def Let_def fst_conv list_all_append list.pred_map
    by (simp add: requirementsMet_def list_all_iff crdStatus_met requiredAPIStatus_met)
qed

text \<open>Every owned and every required CRD is among the descriptions that are checked.\<close>

lemma sortedByKey_keys: "set (map key (sortedByKey key xs)) = key ` set xs"
proof -
  let ?m = "fold (\<lambda>x. AList.update (key x) x) xs []"
  have m: "k \<in> fst ` set ?m \<longleftrightarrow> k \<in> key ` set xs" for k
  proof -
    have "fst ` set (fold (\<lambda>x. AList.update (key x) x) ys m) = fst ` set m \<union> key ` set ys" for ys and m :: "(string \<times> 'a) list"
      by (induction ys arbitrary: m) (auto simp: dom_update)
    from this [of xs "[]"] show ?thesis by simp
  qed
  have own: "key (the (map_of ?m k)) = k" if k: "k \<in> fst ` set ?m" for k
  proof -
    have ind: "map_of (fold (\<lambda>x. AList.update (key x) x) ys m) k = Some x \<Longrightarrow> (\<And>y. map_of m k = Some y \<Longrightarrow> key y = k) \<Longrightarrow> key x = k"
      for ys and m :: "(string \<times> 'a) list" and x
    proof (induction ys arbitrary: m)
      case (Cons y ys)
      show ?case by (rule Cons.IH) (use Cons.prems in \<open>auto simp: update_conv' split: if_splits\<close>)
    qed simp
    obtain x where "map_of ?m k = Some x" 
    proof (cases "map_of ?m k")
      case None
      then have "k \<notin> fst ` set ?m" by (simp only: map_of_eq_None_iff not_False_eq_True)
      with k show thesis by contradiction
    qed
    then show ?thesis using ind [of xs "[]" x] by simp
  qed
  have "set (map key (sortedByKey key xs)) = (\<lambda>k. key (the (map_of ?m k))) ` (fst ` set ?m)"
    by (simp add: sortedByKey_def Let_def image_comp comp_def)
  also have "\<dots> = (\<lambda>k. k) ` (fst ` set ?m)" by (rule image_cong [OF refl own])
  finally show ?thesis unfolding image_ident using m by (metis subsetI subset_antisym)
qed

text \<open>What it takes for one permission to be met.\<close>

definition permissionOK :: "'v req_world \<Rightarrow> requirements \<Rightarrow> string \<Rightarrow> Permission \<Rightarrow> bool" where
  "permissionOK W r namespace p \<longleftrightarrow> (\<exists>sa. rq_serviceAccount W (pm_ServiceAccountName p) = Inr sa
     \<and> (IsOwnedByKind sa ''ClusterServiceVersion'' \<longrightarrow> IsOwnedBy sa (rs_Object r))
     \<and> (rq_informersFiltered W \<and> previouslyCreated W r p namespace = Inr True
        \<or> (\<exists>sources. rq_ruleChecker W = Some sources \<and> (\<forall>rule \<in> set (pm_Rules p). (\<exists>e. rq_marshal W rule = Inl e)
             \<or> RuleSatisfied (rq_attributesOrder W) (CSVRuleChecker sources (rs_Object r)) (saOf sa) namespace rule = Inr True))))"

lemma checkRules_met:
  "checkRules W checker sa namespace rules (status, met) = Inr (status', met') \<Longrightarrow>
    met' \<longleftrightarrow> met \<and> (\<forall>rule \<in> set rules. (\<exists>e. rq_marshal W rule = Inl e) \<or> RuleSatisfied (rq_attributesOrder W) checker (saOf sa) namespace rule = Inr True)"
proof (induction rules arbitrary: status met)
  case (Cons rule rules)
  show ?case
  proof (cases "rq_marshal W rule")
    case (Inl e)
    with Cons show ?thesis by auto
  next
    case (Inr m)
    with Cons.prems obtain b where b: "RuleSatisfied (rq_attributesOrder W) checker (saOf sa) namespace rule = Inr b"
      by (auto simp: Let_def split: sum.splits)
    with Inr Cons show ?thesis by (cases b) (auto simp: Let_def)
  qed
qed simp

lemma checkPermission_met:
  assumes "checkPermission W r namespace p (ss, met) = Inr (ss', met')"
  shows "met' \<longleftrightarrow> met \<and> permissionOK W r namespace p"
proof (cases "rq_serviceAccount W (pm_ServiceAccountName p)")
  case (Inl e)
  with assms show ?thesis by (auto simp: checkPermission_def permissionOK_def Let_def)
next
  case sa: (Inr sa)
  show ?thesis
  proof (cases "IsOwnedByKind sa ''ClusterServiceVersion'' \<and> \<not> IsOwnedBy sa (rs_Object r)")
    case True
    with sa assms show ?thesis by (auto simp: checkPermission_def permissionOK_def Let_def)
  next
    case False
    with sa assms obtain b where b: "(if rq_informersFiltered W then previouslyCreated W r p namespace else Inr False) = Inr b"
      by (auto simp: checkPermission_def Let_def go_err)
    show ?thesis
    proof (cases b)
      case True
      with b have "rq_informersFiltered W" "previouslyCreated W r p namespace = Inr True" by (auto split: if_splits)
      with sa False assms show ?thesis by (auto simp: checkPermission_def permissionOK_def Let_def)
    next
      case nb: False
      then have no: "\<not> (rq_informersFiltered W \<and> previouslyCreated W r p namespace = Inr True)" using b by auto
      from sa False b nb assms obtain sources status status' where "rq_ruleChecker W = Some sources"
        "checkRules W (CSVRuleChecker sources (rs_Object r)) sa namespace (pm_Rules p) (status, met) = Inr (status', met')"
        by (auto simp: checkPermission_def Let_def go_err split: option.splits)
      with checkRules_met [OF this(2)] sa False no show ?thesis by (auto simp: permissionOK_def)
    qed
  qed
qed

lemma checkPermissions_met:
  "checkPermissions W r namespace ps (ss, met) = Inr (ss', met') \<Longrightarrow> met' \<longleftrightarrow> met \<and> (\<forall>p \<in> set ps. permissionOK W r namespace p)"
  by (induction ps arbitrary: ss met) (auto simp: go_err dest!: checkPermission_met)

lemma requirements_hold_iff:
  assumes "requirementAndPermissionStatus W r = Inr (met, statuses)"
  shows "met \<longleftrightarrow> requirementsMet W r \<and> (\<forall>p \<in> set (is_Permissions (rs_InstallStrategy r)). permissionOK W r (C_Namespace (rs_CSV r)) p)
    \<and> (\<forall>p \<in> set (is_ClusterPermissions (rs_InstallStrategy r)). permissionOK W r [] p)"
proof -
  let ?s = "rs_InstallStrategy r"
  have s: "UnmarshalStrategy ?s = Inr ?s" using assms by (auto simp: requirementAndPermissionStatus_def UnmarshalStrategy_def split: if_splits)
  obtain permMet permStatuses where p: "permissionStatus W r (C_Namespace (rs_CSV r)) ?s = Inr (permMet, permStatuses)"
    "met \<longleftrightarrow> fst (minKubeVersionStatus W (C_Name (rs_CSV r)) (rs_MinKubeVersion r)) \<and> fst (requirementStatus W r) \<and> permMet"
    using assms s by (auto simp: requirementAndPermissionStatus_def go_err split: prod.splits)
  obtain ss m1 ss' m2 where c: "checkPermissions W r (C_Namespace (rs_CSV r)) (is_Permissions ?s) ([], True) = Inr (ss, m1)"
    "checkPermissions W r [] (is_ClusterPermissions ?s) (ss, True) = Inr (ss', m2)" "permMet \<longleftrightarrow> m1 \<and> m2"
    using p(1) by (auto simp: permissionStatus_def go_err)
  show ?thesis
    unfolding p(2) c(3) minKubeVersionStatus_met using checkPermissions_met [OF c(1)] checkPermissions_met [OF c(2)] requirementStatus_met [of W r] by blast
qed


section \<open>Permissions that were created before\<close>

text \<open>What was made for a permission carries its labels, and there is one pair for each.\<close>

lemma made_unique: "made H csv c p role rb \<Longrightarrow> made H csv c p role' rb' \<Longrightarrow> role' = role \<and> rb' = rb"
  by (auto simp: made_def)

lemma hashErr_Inr: "hashErr what r = Inr x \<longleftrightarrow> r = Inr x"
  by (simp add: hashErr_def split: sum.split)

lemma made_hashes:
  assumes "made H csv c p role rb"
  obtains n k where "rh_rules H (pm_Rules p) = Inr n" "Obj_Labels (ro_Meta role) = contentLabels csv (toBase62 n)"
    "rh_binding H (bo_RoleRef rb, bo_Subjects rb) = Inr k" "Obj_Labels (bo_Meta rb) = contentLabels csv (toBase62 k)"
  using assms by (auto simp: made_def roleAndBinding_def Let_def go_err newObject_def hashErr_Inr PolicyRuleHashLabelValue_def
      RoleReferenceAndSubjectHashLabelValue_def)

lemma selects_content:
  assumes "Obj_Labels obj = contentLabels csv (toBase62 k)"
  shows "selects (AList.update ContentHashLabelKey (toBase62 n) (OwnerLabel csv ''ClusterServiceVersion'')) obj \<longleftrightarrow> n = k"
proof -
  define labels where "labels n = AList.update ContentHashLabelKey (toBase62 n) (OwnerLabel csv ''ClusterServiceVersion'')" for n
  have d: "distinct (map fst (labels n))" for n unfolding labels_def by (intro distinct_update) (simp add: OwnerLabel_def)
  have hash: "map_of (labels n) ContentHashLabelKey = Some (toBase62 n)" for n by (simp add: labels_def update_conv')
  have sel: "selects (labels n) obj \<longleftrightarrow> (\<forall>(x, v) \<in> set (labels n). map_of (labels k) x = Some v)" for n
    using assms by (simp add: selects_def list_all_iff contentLabels_def labels_def)
  have "n = k" if "selects (labels n) obj"
    using that map_of_SomeD [OF hash [of n]] hash [of k] unfolding sel by (auto simp: toBase62_inj)
  moreover have "selects (labels k) obj" using d unfolding sel by auto
  ultimately show ?thesis unfolding labels_def by blast
qed

lemma filter_singleton_hd: "x \<in> set xs \<Longrightarrow> P x \<Longrightarrow> (\<And>y. y \<in> set xs \<Longrightarrow> P y \<Longrightarrow> y = x) \<Longrightarrow> \<exists>ys. filter P xs = x # ys"
proof (induction xs)
  case (Cons z zs)
  show ?case
  proof (cases "P z")
    case True
    then show ?thesis using Cons.prems(3) [of z] by simp
  next
    case False
    with Cons.prems(1,2) have "x \<in> set zs" by auto
    then have "\<exists>ys. filter P zs = x # ys" by (rule Cons.IH) (simp add: Cons.prems(2), rule Cons.prems(3), simp_all)
    with False show ?thesis by simp
  qed
qed simp

text \<open>C33. With filtered informers, the check looks for the roles and bindings that were made for the version
  itself. It recognises those of a permission in the namespace if no other permission of the version
  in the namespace has rules of the same hash. It never recognises those of a cluster permission: it
  computes the hash of a binding to a \<open>Role\<close>, and the bindings of the cluster refer to a
  \<open>ClusterRole\<close>; the hash is assumed to tell bindings to the two kinds apart.\<close>

theorem created_permissions_recognised:
  assumes "RBACForClusterServiceVersion H csv s = Some (Inr m)"
    and "set roles = parts rolesIn m" "set bindings = parts bindingsIn m"
    and "set clusterRoles = parts clusterRolesIn m" "set clusterBindings = parts clusterBindingsIn m"
    and "\<And>n n' x y k. rh_binding H (\<lparr>RoleRef_Kind = ''Role'', RoleRef_Name = n\<rparr>, x) = Inr k
           \<Longrightarrow> rh_binding H (\<lparr>RoleRef_Kind = ''ClusterRole'', RoleRef_Name = n'\<rparr>, y) \<noteq> Inr k"
  shows "(\<forall>p \<in> set (is_Permissions s).
      (\<forall>q \<in> set (is_Permissions s). rh_rules H (pm_Rules q) = rh_rules H (pm_Rules p) \<longrightarrow> q = p)
      \<longrightarrow> permissionsPreviouslyCreated H p csv (Inr roles) (Inr bindings) = Inr True)
    \<and> (\<forall>p. permissionsPreviouslyCreated H p csv (Inr clusterRoles) (Inr clusterBindings) \<noteq> Inr True)"
proof (intro conjI ballI impI allI)
  note all = RBAC_parts(1,2) [OF assms(1), folded assms(2-5)]
  fix p
  assume p: "p \<in> set (is_Permissions s)"
    and only: "\<forall>q \<in> set (is_Permissions s). rh_rules H (pm_Rules q) = rh_rules H (pm_Rules p) \<longrightarrow> q = p"
  obtain role rb where r: "role \<in> set roles" "rb \<in> set bindings" "made H csv False p role rb"
    using allMadeD(1) [OF all(1) p] by blast
  obtain n k where h: "rh_rules H (pm_Rules p) = Inr n" "Obj_Labels (ro_Meta role) = contentLabels csv (toBase62 n)"
    "rh_binding H (bo_RoleRef rb, bo_Subjects rb) = Inr k" "Obj_Labels (bo_Meta rb) = contentLabels csv (toBase62 k)"
    using made_hashes [OF r(3)] .
  let ?sel = "\<lambda>n. selects (AList.update ContentHashLabelKey (toBase62 n) (OwnerLabel csv ''ClusterServiceVersion''))"
  have same: "y = role" if y: "y \<in> set roles" "?sel n (ro_Meta y)" for y
  proof -
    obtain q rb' where q: "q \<in> set (is_Permissions s)" "made H csv False q y rb'" using allMadeD(2) [OF all(1) y(1)] by blast
    obtain n' where n': "rh_rules H (pm_Rules q) = Inr n'" "Obj_Labels (ro_Meta y) = contentLabels csv (toBase62 n')"
      using made_hashes [OF q(2)] by metis
    have "n = n'" using y(2) selects_content [OF n'(2), of n] by simp
    then have "q = p" using only q(1) h(1) n'(1) by auto
    then show ?thesis using made_unique [OF r(3)] q(2) by blast
  qed
  have "?sel n (ro_Meta role)" "?sel k (bo_Meta rb)" using selects_content [OF h(2)] selects_content [OF h(4)] by simp_all
  moreover from this(1) obtain rs where "filter (\<lambda>r. ?sel n (ro_Meta r)) roles = role # rs"
    using filter_singleton_hd [of role roles "\<lambda>r. ?sel n (ro_Meta r)"] r(1) same by blast
  ultimately show "permissionsPreviouslyCreated H p csv (Inr roles) (Inr bindings) = Inr True"
    using h(1,3) r(2) made_fields(4,5) [OF r(3)]
    by (auto simp: permissionsPreviouslyCreated_def PolicyRuleHashLabelValue_def RoleReferenceAndSubjectHashLabelValue_def list_ex_iff)
next
  note all = RBAC_parts(2) [OF assms(1), folded assms(4,5)]
  fix p
  show "permissionsPreviouslyCreated H p csv (Inr clusterRoles) (Inr clusterBindings) \<noteq> Inr True"
  proof
    assume "permissionsPreviouslyCreated H p csv (Inr clusterRoles) (Inr clusterBindings) = Inr True"
    then obtain n x k b where k: "rh_binding H (\<lparr>RoleRef_Kind = ''Role'', RoleRef_Name = n\<rparr>, x) = Inr k" "b \<in> set clusterBindings"
      "selects (AList.update ContentHashLabelKey (toBase62 k) (OwnerLabel csv ''ClusterServiceVersion'')) (bo_Meta b)"
      by (auto simp: permissionsPreviouslyCreated_def RoleReferenceAndSubjectHashLabelValue_def go_err list_ex_iff split: sum.splits list.splits)
    obtain q role where q: "made H csv True q role b" using allMadeD(3) [OF all k(2)] by blast
    obtain k' where k': "rh_binding H (bo_RoleRef b, bo_Subjects b) = Inr k'" "Obj_Labels (bo_Meta b) = contentLabels csv (toBase62 k')"
      using made_hashes [OF q] by metis
    have "k = k'" using k(3) selects_content [OF k'(2), of k] by simp
    with assms(6) [OF k(1)] k'(1) made_fields(4) [OF q] show False by simp
  qed
qed

section \<open>What is reported\<close>

definition namedByKey :: "(string \<times> RequirementStatus) list \<Rightarrow> bool" where
  "namedByKey ss \<longleftrightarrow> (\<forall>(k, status) \<in> set ss. rt_Name status = k)"

lemma checkRules_name: "checkRules W checker sa ns rules (status, met) = Inr (status', met') \<Longrightarrow> rt_Name status' = rt_Name status"
proof (induction rules arbitrary: status met)
  case (Cons rule rules)
  from Cons.prems show ?case by (auto simp: Let_def dest!: Cons.IH split: sum.splits bool.splits)
qed simp

lemma set_update_subset: "set (AList.update k v m) \<subseteq> insert (k, v) (set m)"
  by (induction m) auto

lemma namedByKey_update: "namedByKey ss \<Longrightarrow> rt_Name status = k \<Longrightarrow> namedByKey (AList.update k status ss)"
  using set_update_subset [of k status ss] by (fastforce simp: namedByKey_def)

definition createdBefore :: "'v req_world \<Rightarrow> requirements \<Rightarrow> string \<Rightarrow> Permission \<Rightarrow> bool" where
  "createdBefore W r namespace p \<longleftrightarrow> rq_informersFiltered W \<and> previouslyCreated W r p namespace = Inr True
     \<and> (\<exists>sa. rq_serviceAccount W (pm_ServiceAccountName p) = Inr sa \<and> (IsOwnedByKind sa ''ClusterServiceVersion'' \<longrightarrow> IsOwnedBy sa (rs_Object r)))"

lemma updated_status: "rt_Name status = sa \<Longrightarrow> \<exists>status'. rt_Name status' = sa \<and> AList.update sa status ss = AList.update sa status' ss"
  by blast

lemma checkPermission_stored:
  assumes "checkPermission W r namespace p (ss, met) = Inr (ss', met')" "rt_Name (startStatus ss (pm_ServiceAccountName p)) = pm_ServiceAccountName p"
  shows "ss' = ss \<and> createdBefore W r namespace p \<or> (\<exists>status'. rt_Name status' = pm_ServiceAccountName p \<and> ss' = AList.update (pm_ServiceAccountName p) status' ss \<and> \<not> createdBefore W r namespace p)"
proof (cases "rq_serviceAccount W (pm_ServiceAccountName p)")
  case (Inl e)
  with assms show ?thesis unfolding checkPermission_def Let_def by (auto simp: createdBefore_def intro!: updated_status)
next
  case sa: (Inr sa)
  show ?thesis
  proof (cases "IsOwnedByKind sa ''ClusterServiceVersion'' \<and> \<not> IsOwnedBy sa (rs_Object r)")
    case True
    with assms sa show ?thesis unfolding checkPermission_def Let_def by (auto simp: createdBefore_def intro!: updated_status)
  next
    case False
    with assms(1) sa obtain b where b: "(if rq_informersFiltered W then previouslyCreated W r p namespace else Inr False) = Inr b"
      unfolding checkPermission_def Let_def by (auto simp: go_err)
    with sa False have created: "createdBefore W r namespace p \<longleftrightarrow> b" by (auto simp: createdBefore_def split: if_splits)
    show ?thesis
    proof (cases b)
      case True
      with assms(1) sa False b created show ?thesis unfolding checkPermission_def Let_def by simp
    next
      case nb: False
      with assms(1) sa False b obtain sources status' where
        "checkRules W (CSVRuleChecker sources (rs_Object r)) sa namespace (pm_Rules p) (startStatus ss (pm_ServiceAccountName p), met) = Inr (status', met')"
        "ss' = AList.update (pm_ServiceAccountName p) status' ss"
        unfolding checkPermission_def Let_def by (auto simp: go_err split: option.splits)
      with checkRules_name [OF this(1)] assms(2) nb created show ?thesis by auto
    qed
  qed
qed

lemma checkPermission_keys:
  assumes "checkPermission W r namespace p (ss, met) = Inr (ss', met')" "namedByKey ss"
  shows "namedByKey ss' \<and> fst ` set ss' = fst ` set ss \<union> (if createdBefore W r namespace p then {} else {pm_ServiceAccountName p})"
proof -
  have "rt_Name (startStatus ss sa) = sa" for sa
    using assms(2) by (auto simp: startStatus_def newStatus_def namedByKey_def split: option.split dest!: map_of_SomeD)
  from checkPermission_stored [OF assms(1) this] show ?thesis
  proof (elim disjE exE conjE)
    fix status'
    assume u: "rt_Name status' = pm_ServiceAccountName p" "ss' = AList.update (pm_ServiceAccountName p) status' ss" "\<not> createdBefore W r namespace p"
    have "fst ` set ss' = insert (pm_ServiceAccountName p) (fst ` set ss)" unfolding u(2) by (simp add: dom_update)
    with u namedByKey_update [OF assms(2) u(1)] show ?thesis by simp
  qed (use assms(2) in simp)
qed

lemma checkPermissions_keys:
  "checkPermissions W r namespace ps (ss, met) = Inr (ss', met') \<Longrightarrow> namedByKey ss \<Longrightarrow>
    namedByKey ss' \<and> fst ` set ss' = fst ` set ss \<union> pm_ServiceAccountName ` {p \<in> set ps. \<not> createdBefore W r namespace p}"
proof (induction ps arbitrary: ss met)
  case (Cons p ps)
  from Cons.prems(1) obtain ss1 met1 where one: "checkPermission W r namespace p (ss, met) = Inr (ss1, met1)"
    "checkPermissions W r namespace ps (ss1, met1) = Inr (ss', met')" by (auto simp: go_err)
  from Cons.IH [OF one(2)] checkPermission_keys [OF one(1) Cons.prems(2)] show ?case by auto
qed simp

text \<open>A status is reported exactly for the service accounts with a permission that was not created
  before. An account whose permissions were all created before is not reported, although the
  code builds a status for it with its rules.\<close>

lemma reported_accounts:
  assumes "permissionStatus W r ns s = Inr (met, statuses)" "\<And>ss. set (rq_statusOrder W ss) = set ss"
  shows "rt_Name ` set statuses = pm_ServiceAccountName ` ({p \<in> set (is_Permissions s). \<not> createdBefore W r ns p}
     \<union> {p \<in> set (is_ClusterPermissions s). \<not> createdBefore W r [] p})"
proof -
  obtain ss m1 ss' m2 where c: "checkPermissions W r ns (is_Permissions s) ([], True) = Inr (ss, m1)"
    "checkPermissions W r [] (is_ClusterPermissions s) (ss, True) = Inr (ss', m2)" "statuses = map snd (rq_statusOrder W ss')"
    using assms(1) by (auto simp: permissionStatus_def go_err)
  have n: "namedByKey ss" "fst ` set ss = pm_ServiceAccountName ` {p \<in> set (is_Permissions s). \<not> createdBefore W r ns p}"
    using checkPermissions_keys [OF c(1)] by (simp_all add: namedByKey_def)
  have "rt_Name ` set statuses = fst ` set ss'"
    unfolding c(3) set_map assms(2) image_image
    by (rule image_cong [OF refl]) (use checkPermissions_keys [OF c(2) n(1)] in \<open>auto simp: namedByKey_def\<close>)
  then show ?thesis using checkPermissions_keys [OF c(2) n(1)] n(2) by (simp add: image_Un)
qed

section \<open>Installed versions\<close>

text \<open>How the state machine of versions calls the check.\<close>

definition checkedRequirements :: "(RequirementStatus \<Rightarrow> string) \<Rightarrow> 'v req_world \<Rightarrow> requirements \<Rightarrow> bool \<times> string list \<times> string option" where
  "checkedRequirements render W r =
     (case requirementAndPermissionStatus W r of Inl e \<Rightarrow> (False, [], Some e) | Inr (met, statuses) \<Rightarrow> (met, map render statuses, None))"

text \<open>Rules for which the check of rules is sound (as for the rule checker itself), and requests by a
  service account that are granted.\<close>

definition plainRules :: "'v req_world \<Rightarrow> requirements \<Rightarrow> string \<Rightarrow> Permission \<Rightarrow> bool" where
  "plainRules W r ns p \<longleftrightarrow> (\<forall>rule \<in> set (pm_Rules p). barFree rule \<and> [] \<notin> set (NonResourceURLs rule) \<and> (\<forall>e. rq_marshal W rule \<noteq> Inl e))
     \<and> (\<forall>sources sa w. rq_ruleChecker W = Some sources \<longrightarrow> rq_serviceAccount W (pm_ServiceAccountName p) = Inr sa
          \<longrightarrow> w \<in> set (fst (RulesFor (CSVRuleChecker sources (rs_Object r)) (toDefaultInfo (saOf sa)) ns)) \<longrightarrow> [] \<notin> set (ResourceNames w))"

definition granted :: "'v req_world \<Rightarrow> requirements \<Rightarrow> string \<Rightarrow> Permission \<Rightarrow> bool" where
  "granted W r ns p \<longleftrightarrow> (\<exists>sa sources. rq_serviceAccount W (pm_ServiceAccountName p) = Inr sa \<and> rq_ruleChecker W = Some sources
     \<and> (\<forall>a. \<forall>rule \<in> set (pm_Rules p). GetUser a = toDefaultInfo (saOf sa) \<longrightarrow> GetNamespace a = ns \<longrightarrow> RuleAllows a rule
          \<longrightarrow> fst (Authorize (CSVRuleChecker sources (rs_Object r)) a) = DecisionAllow))"

lemma permissionOK_granted:
  assumes "permissionOK W r ns p" "\<not> createdBefore W r ns p" "plainRules W r ns p" "\<And>m. set (rq_attributesOrder W m) = set m"
  shows "granted W r ns p"
proof -
  obtain sa sources where sa: "rq_serviceAccount W (pm_ServiceAccountName p) = Inr sa" "rq_ruleChecker W = Some sources"
    and sat: "\<And>rule. rule \<in> set (pm_Rules p) \<Longrightarrow> (\<exists>e. rq_marshal W rule = Inl e)
      \<or> RuleSatisfied (rq_attributesOrder W) (CSVRuleChecker sources (rs_Object r)) (saOf sa) ns rule = Inr True"
    using assms(1,2) by (auto simp: permissionOK_def createdBefore_def)
  have "fst (Authorize (CSVRuleChecker sources (rs_Object r)) a) = DecisionAllow"
    if rule: "rule \<in> set (pm_Rules p)" and a: "GetUser a = toDefaultInfo (saOf sa)" "GetNamespace a = ns" "RuleAllows a rule" for a rule
    by (rule RuleSatisfied_authorizes [where rule = rule and ord = "rq_attributesOrder W" and sa = "saOf sa" and ns = ns])
      (use rule a sat [OF rule] sa assms(3,4) in \<open>auto simp: plainRules_def\<close>)
  with sa show ?thesis by (auto simp: granted_def)
qed

lemma requirements_hold:
  assumes "requirementAndPermissionStatus W r = Inr (True, statuses)"
  shows "requirementsMet W r \<and> (\<forall>p \<in> set (is_Permissions (rs_InstallStrategy r)). permissionOK W r (C_Namespace (rs_CSV r)) p)
    \<and> (\<forall>p \<in> set (is_ClusterPermissions (rs_InstallStrategy r)). permissionOK W r [] p)"
  using requirements_hold_iff [OF assms] by simp

text \<open>C7. A version that is being installed, or is installed, has been through a synchronisation at which
  its requirements were met and each of its permissions was either granted or, with filtered
  informers only, recognised by the labels of a role and a binding that exist for it. Granted means
  that whatever request a rule of the permission allows, in the namespace of the version or for a
  cluster permission in the cluster, the authorizer allowed to the service account. The rules are
  those for which the rule checker is sound: their parts have no bar, their URLs are not empty,
  they can be marshalled, and no rule that applies to the account names the empty resource.\<close>

theorem installed_version_granted:
  assumes "csv_run c0 h c" "C_Phase c0 = CSVPhaseNone" "C_Phase c \<in> installPhases"
    and "\<And>W d. (W, d) \<in> set h \<Longrightarrow> w_requirements W d = checkedRequirements render (RW W) (R d)"
    and "\<And>W d p. (W, d) \<in> set h \<Longrightarrow> p \<in> set (is_Permissions (rs_InstallStrategy (R d))) \<Longrightarrow> plainRules (RW W) (R d) (C_Namespace (rs_CSV (R d))) p"
    and "\<And>W d p. (W, d) \<in> set h \<Longrightarrow> p \<in> set (is_ClusterPermissions (rs_InstallStrategy (R d))) \<Longrightarrow> plainRules (RW W) (R d) [] p"
    and "\<And>W m. set (rq_attributesOrder (RW W) m) = set m"
  shows "\<exists>(W, d) \<in> set h. C_Phase d \<in> {CSVPhasePending, CSVPhaseFailed} \<and> requirementsMet (RW W) (R d)
    \<and> (\<forall>p \<in> set (is_Permissions (rs_InstallStrategy (R d))).
         createdBefore (RW W) (R d) (C_Namespace (rs_CSV (R d))) p \<or> granted (RW W) (R d) (C_Namespace (rs_CSV (R d))) p)
    \<and> (\<forall>p \<in> set (is_ClusterPermissions (rs_InstallStrategy (R d))). createdBefore (RW W) (R d) [] p \<or> granted (RW W) (R d) [] p)"
proof -
  have start: "C_Phase c0 \<notin> installPhases" using assms(2) by (simp add: installPhases_def)
  have "\<exists>(W, d) \<in> set h. C_Phase d \<in> {CSVPhasePending, CSVPhaseFailed} \<and> fst (w_requirements W d)"
    by (rule csv.run_entered [OF assms(1) start assms(3)])
      (use assms(2) in \<open>auto simp: csv_step_def dest: transitionCSVState_gate\<close>)
  then obtain W d where d: "(W, d) \<in> set h" "C_Phase d \<in> {CSVPhasePending, CSVPhaseFailed}" "fst (w_requirements W d)" by auto
  then obtain statuses where "requirementAndPermissionStatus (RW W) (R d) = Inr (True, statuses)"
    using assms(4) [OF d(1)] by (auto simp: checkedRequirements_def split: sum.splits)
  note hold = requirements_hold [OF this]
  have "createdBefore (RW W) (R d) ns p \<or> granted (RW W) (R d) ns p"
    if "permissionOK (RW W) (R d) ns p" "plainRules (RW W) (R d) ns p" for ns p
    using permissionOK_granted [OF that(1) _ that(2)] assms(7) by blast
  with hold assms(5,6) [OF d(1)] d(1,2) show ?thesis by (intro bexI [of _ "(W, d)"]) auto
qed

section \<open>A cluster that meets the requirements\<close>

definition demoReqWorld :: "nat req_world" where
  "demoReqWorld = \<lparr>rq_serverVersion = Inr ''v1.30'', rq_NewVersion = (\<lambda>s. Inr (length s)), rq_Compare = (\<lambda>a b. int a - int b),
     rq_showVersion = (\<lambda>_. []), rq_crd = (\<lambda>_. Inl ''not found''), rq_csv = (\<lambda>_. Inl ''not found''), rq_kinds = (\<lambda>_. Inr [''Pod'']),
     rq_apiService = (\<lambda>_. Inl ''not found''), rq_serviceAccount = (\<lambda>n. Inr (newObject T_ServiceAccount n ''ns'' [] None)),
     rq_informersFiltered = False, rq_hashes = demoHashes, rq_roles = Inr [], rq_roleBindings = Inr [], rq_clusterRoles = Inr [],
     rq_clusterRoleBindings = Inr [], rq_marshal = (\<lambda>_. Inr ''rule''), rq_ruleChecker = Some exampleSources, rq_attributesOrder = id,
     rq_statusOrder = id, rq_rbacError = (\<lambda>_. [])\<rparr>"

definition demoPermission :: Permission where
  "demoPermission = \<lparr>pm_ServiceAccountName = ''sa'', pm_Rules = [podReader]\<rparr>"

definition demoRequirements :: "CSV \<Rightarrow> requirements" where
  "demoRequirements c = \<lparr>rs_Object = demoCSVObject, rs_CSV = c, rs_MinKubeVersion = [], rs_OwnedAPIServices = [], rs_NativeAPIs = [],
     rs_DeploymentSpecs = [],
     rs_InstallStrategy = \<lparr>is_Name = ''deployment'', is_Permissions = [demoPermission], is_ClusterPermissions = []\<rparr>\<rparr>"

abbreviation demoMore :: requirements where
  "demoMore \<equiv> (demoRequirements demoPending)\<lparr>rs_MinKubeVersion := ''v1.2'',
     rs_NativeAPIs := [\<lparr>ad_Name = ''pods'', ad_Group = [], ad_Version = ''v1'', ad_Kind = ''Pod''\<rparr>]\<rparr>"


definition kindHashes :: rbacHashes where
  "kindHashes = demoHashes\<lparr>rh_binding := (\<lambda>(ref, subjects). Inr (if RoleRef_Kind ref = ''Role'' then 1 else 2))\<rparr>"

theorem created_permissions_recognised_witness:
  "\<exists>m. RBACForClusterServiceVersion kindHashes demoCSVObject demoStrategy = Some (Inr m)
    \<and> permissionsPreviouslyCreated kindHashes (hd (is_Permissions demoStrategy)) demoCSVObject
        (Inr (listed op_Roles m)) (Inr (listed op_RoleBindings m)) = Inr True"
proof -
  have "case RBACForClusterServiceVersion kindHashes demoCSVObject demoStrategy of Some (Inr m) \<Rightarrow> True | _ \<Rightarrow> False" by code_simp
  then obtain m where m: "RBACForClusterServiceVersion kindHashes demoCSVObject demoStrategy = Some (Inr m)"
    by (auto split: option.splits sum.splits)
  note sets = set_listed [OF RBAC_parts(3) [OF m]]
  have "rh_binding kindHashes (\<lparr>RoleRef_Kind = ''Role'', RoleRef_Name = n\<rparr>, x) = Inr k \<Longrightarrow>
      rh_binding kindHashes (\<lparr>RoleRef_Kind = ''ClusterRole'', RoleRef_Name = n'\<rparr>, y) \<noteq> Inr k" for n n' x y k
    by (auto simp: kindHashes_def)
  from created_permissions_recognised [OF m sets sets sets sets this] m show ?thesis by (auto simp: demoStrategy_def)
qed

text \<open>The condition that no other permission has the same rules is needed: of two service accounts with the
  same rules, the second is not recognised, because the check takes the first role of that hash.\<close>

definition sharedHashes :: rbacHashes where
  "sharedHashes = demoHashes\<lparr>rh_permission := (\<lambda>(name, ns, p). Inr (length (pm_ServiceAccountName p))),
     rh_binding := (\<lambda>(ref, subjects). Inr (of_char (last (RoleRef_Name ref)) + 1000 * length (Subject_Name (hd subjects))))\<rparr>"

lemma shared_rules_unrecognised:
  "let one = demoPermission\<lparr>pm_ServiceAccountName := ''x''\<rparr>; two = demoPermission\<lparr>pm_ServiceAccountName := ''yy''\<rparr>
   in case RBACForClusterServiceVersion sharedHashes demoCSVObject (demoStrategy\<lparr>is_Permissions := [one, two]\<rparr>) of
        Some (Inr m) \<Rightarrow> permissionsPreviouslyCreated sharedHashes one demoCSVObject (Inr (listed op_Roles m)) (Inr (listed op_RoleBindings m)) = Inr True
          \<and> permissionsPreviouslyCreated sharedHashes two demoCSVObject (Inr (listed op_Roles m)) (Inr (listed op_RoleBindings m)) = Inr False
      | _ \<Rightarrow> False"
  by code_simp

lemma reported_accounts_witness:
  "\<exists>met statuses. permissionStatus demoReqWorld (demoRequirements demoPending) ''ns'' (rs_InstallStrategy (demoRequirements demoPending)) = Inr (met, statuses)
    \<and> rt_Name ` set statuses = {''sa''}"
proof -
  let ?r = "demoRequirements demoPending"
  have "map_sum id fst (permissionStatus demoReqWorld ?r ''ns'' (rs_InstallStrategy ?r)) = Inr True" by code_simp
  then obtain statuses where s: "permissionStatus demoReqWorld ?r ''ns'' (rs_InstallStrategy ?r) = Inr (True, statuses)"
    by (cases "permissionStatus demoReqWorld ?r ''ns'' (rs_InstallStrategy ?r)") auto
  have "\<not> createdBefore demoReqWorld ?r ns p" for ns p by (simp add: createdBefore_def demoReqWorld_def)
  with reported_accounts [OF s] have "rt_Name ` set statuses = {''sa''}"
    by (simp add: demoReqWorld_def demoRequirements_def demoPermission_def)
  with s show ?thesis by blast
qed

lemma demo_plain: "plainRules demoReqWorld (demoRequirements d) ''ns'' demoPermission"
proof -
  have rules: "list_all (\<lambda>w. [] \<notin> set (ResourceNames w))
      (fst (RulesFor (CSVRuleChecker exampleSources demoCSVObject) (toDefaultInfo \<lparr>SA_Namespace = ''ns'', SA_Name = ''sa'', SA_UID = []\<rparr>) ''ns''))" by code_simp
  have "barFree podReader" "[] \<notin> set (NonResourceURLs podReader)" by code_simp+
  then show ?thesis using rules
    by (simp add: plainRules_def demoReqWorld_def demoRequirements_def demoPermission_def saOf_def newObject_def list_all_iff)
qed

theorem installed_version_granted_witness:
  "granted demoReqWorld (demoRequirements demoPending) ''ns'' demoPermission \<or> granted demoReqWorld (demoRequirements demoNew) ''ns'' demoPermission"
proof -
  have new: "\<not> createdBefore demoReqWorld r ns p" for r ns p by (simp add: createdBefore_def demoReqWorld_def)
  let ?h = "[(demoAlone, demoPending), (demoAlone, demoNew)]"
  have check: "checkedRequirements (\<lambda>_. ''present'') demoReqWorld (demoRequirements demoPending) = (True, [''present''], None)"
    "checkedRequirements (\<lambda>_. ''present'') demoReqWorld (demoRequirements demoNew) = (True, [''present''], None)" by code_simp+
  have ns: "C_Namespace (rs_CSV (demoRequirements demoPending)) = ''ns''" "C_Namespace (rs_CSV (demoRequirements demoNew)) = ''ns''" by code_simp+
  have perms: "is_Permissions (rs_InstallStrategy (demoRequirements d)) = [demoPermission]" for d by (simp add: demoRequirements_def)
  have "\<exists>(W, d) \<in> set ?h. C_Phase d \<in> {CSVPhasePending, CSVPhaseFailed} \<and> requirementsMet demoReqWorld (demoRequirements d)
    \<and> (\<forall>p \<in> set (is_Permissions (rs_InstallStrategy (demoRequirements d))). createdBefore demoReqWorld (demoRequirements d) (C_Namespace (rs_CSV (demoRequirements d))) p
         \<or> granted demoReqWorld (demoRequirements d) (C_Namespace (rs_CSV (demoRequirements d))) p)
    \<and> (\<forall>p \<in> set (is_ClusterPermissions (rs_InstallStrategy (demoRequirements d))). createdBefore demoReqWorld (demoRequirements d) [] p
         \<or> granted demoReqWorld (demoRequirements d) [] p)"
  proof (rule installed_version_granted [OF demo_ready_run, where render = "\<lambda>_. ''present''" and RW = "\<lambda>_. demoReqWorld"])
    show "C_Phase demoReady \<in> installPhases" by (simp add: demoReady_def installPhases_def)
    show "w_requirements W d = checkedRequirements (\<lambda>_. ''present'') demoReqWorld (demoRequirements d)" if "(W, d) \<in> set ?h" for W d
      using that check by (auto simp: demoWorld_def)
    show "plainRules demoReqWorld (demoRequirements d) (C_Namespace (rs_CSV (demoRequirements d))) p"
      if "(W, d) \<in> set ?h" "p \<in> set (is_Permissions (rs_InstallStrategy (demoRequirements d)))" for W d p
      using that(1,2) demo_plain [of d] ns perms [of d] by auto
  qed (simp_all add: demoVersion_def demoRequirements_def demoReqWorld_def)
  then show ?thesis using ns perms new by auto
qed

end
