(* ===== verification/Copied_Versions.thy ===== *)
theory Copied_Versions
  imports Requirements
begin

text \<open>
  Copies of a ClusterServiceVersion in the namespaces that its operator group targets, and the roles
  of its operator there: \<open>ensureCSVsInNamespaces\<close> and what it calls in
  \<open>operators/olm/operatorgroup.go\<close>, and \<open>syncCopyCSV\<close>, the collection of copies and the
  configuration of copying in \<open>operators/olm/operator.go\<close>. Reads of the API server and its
  listers are fields of \<open>copy_world\<close>, writes that succeed are a list of effects, which \<open>applyEffect\<close>
  turns into a new state of the cluster.
\<close>

section \<open>Prototypes and the state of the cluster\<close>

definition nonstatusHashKey :: string where
  "nonstatusHashKey = ''$copyhash-nonstatus''"

definition statusHashKey :: string where
  "statusHashKey = ''$copyhash-status''"

definition ComponentLabelKeyPrefix :: string where
  "ComponentLabelKeyPrefix = ''operators.coreos.com/''"

definition csvCopyPrototype :: "CSV \<Rightarrow> CSV" where
  "csvCopyPrototype src = src\<lparr>C_Namespace := [],
     csv_Annotations := filter (\<lambda>(k, v). k \<noteq> OperatorGroupTargetsAnnotationKey \<and> k \<noteq> ''kubectl.kubernetes.io/last-applied-configuration'')
       (csv_Annotations src),
     csv_Labels := AList.update CopiedLabelKey (C_Namespace src)
       (filter (\<lambda>(k, v). \<not> HasPrefix k ComponentLabelKeyPrefix) (csv_Labels src)),
     csv_Reason := CSVReasonCopied,
     csv_Message := ''The operator is running in '' @ C_Namespace src @ '' but is managing this namespace''\<rparr>"

text \<open>A version without its status, and with the status of another.\<close>

definition withStatusOf :: "CSV \<Rightarrow> CSV \<Rightarrow> CSV" where
  "withStatusOf s c = c\<lparr>C_Phase := C_Phase s, csv_Reason := csv_Reason s, csv_Message := csv_Message s,
     csv_LastUpdateTime := csv_LastUpdateTime s, csv_LastTransitionTime := csv_LastTransitionTime s,
     csv_RequirementStatus := csv_RequirementStatus s, csv_Conditions := csv_Conditions s,
     csv_CertsLastUpdated := csv_CertsLastUpdated s, csv_CertsRotateAt := csv_CertsRotateAt s\<rparr>"

definition noStatus :: "CSV \<Rightarrow> CSV" where
  "noStatus c = c\<lparr>C_Phase := CSVPhaseNone, csv_Reason := CSVReasonNone, csv_Message := [], csv_LastUpdateTime := None,
     csv_LastTransitionTime := None, csv_RequirementStatus := [], csv_Conditions := [], csv_CertsLastUpdated := None,
     csv_CertsRotateAt := None\<rparr>"

datatype copy_effect = createCopy CSV | updateCopy CSV | updateCopyStatus CSV | requeueGC string string | deleteCopy string string
  | createTenantRole roleObject | updateTenantRole roleObject | createTenantBinding bindingObject
  | deleteEvent string | createEvent | requeueConfig

type_synonym store = "string \<times> string \<Rightarrow> CSV option"

text \<open>The API server keeps the status apart: a creation ignores it, an update keeps the old one.\<close>

fun applyEffect :: "copy_effect \<Rightarrow> store \<Rightarrow> store" where
  "applyEffect (createCopy c) st = st((C_Namespace c, C_Name c) \<mapsto> noStatus c)"
| "applyEffect (updateCopy c) st =
     st((C_Namespace c, C_Name c) := map_option (\<lambda>old. withStatusOf old c) (st (C_Namespace c, C_Name c)))"
| "applyEffect (updateCopyStatus c) st =
     st((C_Namespace c, C_Name c) := map_option (withStatusOf c) (st (C_Namespace c, C_Name c)))"
| "applyEffect (deleteCopy ns name) st = st((ns, name) := None)"
| "applyEffect _ st = st"

abbreviation applyEffects :: "copy_effect list \<Rightarrow> store \<Rightarrow> store" where
  "applyEffects \<equiv> fold applyEffect"

record copyEvent =
  ev_Namespace :: string
  ev_Name :: string
  ev_ObjectNamespace :: string
  ev_ObjectName :: string
  ev_ObjectUID :: string
  ev_Reason :: string

text \<open>The lister of copies reads metadata only, and of these the annotations with hashes. A creation
  and an update answer the UID.\<close>

record 'v copy_world =
  cw_req :: "'v req_world"
  cw_namespaces :: "string + string list"
  cw_copy :: "string \<Rightarrow> string \<Rightarrow> CSV lookup"
  cw_uid :: "string \<Rightarrow> string \<Rightarrow> string"
  cw_copiesIn :: "string \<Rightarrow> string + CSV list"
  cw_allCopies :: "string + CSV list"
  cw_hash :: "CSV \<Rightarrow> string + string"
  cw_statusHash :: "CSV \<Rightarrow> string + string"
  cw_create :: "CSV \<Rightarrow> string + string"
  cw_update :: "CSV \<Rightarrow> string + string"
  cw_updateStatus :: "CSV \<Rightarrow> string option"
  cw_requeueGC :: "string \<Rightarrow> string \<Rightarrow> string option"
  cw_delete :: "string \<Rightarrow> string \<Rightarrow> update_result"
  cw_createRole :: "roleObject \<Rightarrow> string option"
  cw_updateRole :: "roleObject \<Rightarrow> string option"
  cw_createBinding :: "bindingObject \<Rightarrow> string option"
  cw_olmConfig :: "bool option lookup"
  cw_group :: "string \<Rightarrow> Group lookup"
  cw_protected :: "string list"
  cw_events :: "string + copyEvent list"
  cw_deleteEvent :: "copyEvent \<Rightarrow> update_result"

section \<open>Copies\<close>

definition copyableCSVHash :: "'v copy_world \<Rightarrow> CSV \<Rightarrow> string + string \<times> string" where
  "copyableCSVHash W original =
     bind_err (cw_hash W (noStatus (original\<lparr>C_Namespace := []\<rparr>))) (\<lambda>newHash.
     bind_err (cw_statusHash W original) (\<lambda>originalHash. Inr (newHash, originalHash)))"

definition recorded :: "string \<Rightarrow> CSV \<Rightarrow> string" where
  "recorded key c = (case map_of (csv_Annotations c) key of None \<Rightarrow> [] | Some h \<Rightarrow> h)"

definition copyRef :: "CSV \<Rightarrow> string \<Rightarrow> Object" where
  "copyRef c uid = (newObject T_ClusterServiceVersion (C_Name c) (C_Namespace c) [] None)\<lparr>Obj_UID := uid\<rparr>"

definition copyToNamespace :: "'v copy_world \<Rightarrow> CSV \<Rightarrow> string \<Rightarrow> string \<Rightarrow> string \<Rightarrow> string \<Rightarrow> (string + Object) \<times> copy_effect list" where
  "copyToNamespace W prototype nsFrom nsTo nonstatus status =
     (if nsFrom = nsTo then (Inl (''bug: can not copy to active namespace '' @ nsFrom), [])
      else let p = prototype\<lparr>C_Namespace := nsTo\<rparr>
        in case cw_copy W nsTo (C_Name p) of
          notFound \<Rightarrow>
            (case cw_create W p of
               Inl e \<Rightarrow> (Inl (''failed to create new CSV: '' @ e), [])
             | Inr uid \<Rightarrow>
                 (case cw_updateStatus W p of
                    Some e \<Rightarrow> (Inl (''failed to update status on new CSV: '' @ e), [createCopy p])
                  | None \<Rightarrow> (Inr (copyRef p uid), [createCopy p, updateCopyStatus p])))
        | lookupError e \<Rightarrow> (Inl e, [])
        | present existing \<Rightarrow>
            let existingNonStatus = recorded nonstatusHashKey existing;
                existingStatus = recorded statusHashKey existing;
                finish = (\<lambda>uid eff.
                  if existingStatus \<noteq> status then
                    (case cw_updateStatus W p of
                       Some e \<Rightarrow> (Inl (''failed to update status: '' @ e), eff)
                     | None \<Rightarrow> (Inr (copyRef p uid), eff @ [updateCopyStatus p]))
                  else (Inr (copyRef p uid), eff))
            in if existingNonStatus \<noteq> nonstatus then
                 (case cw_update W p of
                    Inl e \<Rightarrow> (Inl (''failed to update: '' @ e), [])
                  | Inr uid \<Rightarrow> finish uid [updateCopy p])
               else finish (cw_uid W nsTo (C_Name p)) [])"

definition metaIsCopied :: "CSV \<Rightarrow> bool" where
  "metaIsCopied c \<longleftrightarrow> (case map_of (csv_Annotations c) OperatorGroupNamespaceAnnotationKey of
       Some operatorNamespace \<Rightarrow> C_Namespace c \<noteq> operatorNamespace | None \<Rightarrow> False)
     \<or> map_of (csv_Labels c) CopiedLabelKey \<noteq> None"

fun pruneLoop :: "'v copy_world \<Rightarrow> string \<Rightarrow> CSV list \<Rightarrow> string option \<times> copy_effect list" where
  "pruneLoop W groupName [] = (None, [])"
| "pruneLoop W groupName (csv # csvs) =
     (if metaIsCopied csv \<and> recorded OperatorGroupAnnotationKey csv = groupName
      then case cw_requeueGC W (C_Namespace csv) (C_Name csv) of
             Some e \<Rightarrow> (Some e, [])
           | None \<Rightarrow> (case pruneLoop W groupName csvs of (err, eff) \<Rightarrow> (err, requeueGC (C_Namespace csv) (C_Name csv) # eff))
      else pruneLoop W groupName csvs)"

definition pruneFromNamespace :: "'v copy_world \<Rightarrow> string \<Rightarrow> string \<Rightarrow> string option \<times> copy_effect list" where
  "pruneFromNamespace W groupName namespace =
     (case cw_copiesIn W namespace of Inl e \<Rightarrow> (Some e, []) | Inr csvs \<Rightarrow> pruneLoop W groupName csvs)"

fun copyLoop :: "'v copy_world \<Rightarrow> CSV \<Rightarrow> string \<Rightarrow> string \<Rightarrow> string \<Rightarrow> string \<Rightarrow> string \<Rightarrow> NamespaceSet \<Rightarrow> string list
    \<Rightarrow> (string \<times> Object) list \<times> copy_effect list" where
  "copyLoop W prototype nsFrom groupName groupNs nonstatus status targets [] = ([], [])"
| "copyLoop W prototype nsFrom groupName groupNs nonstatus status targets (ns # namespaces) =
     (case copyLoop W prototype nsFrom groupName groupNs nonstatus status targets namespaces of
        (targetCSVs, eff) \<Rightarrow>
          if ns = groupNs then (targetCSVs, eff)
          else if NS_Contains targets ns then
            (case copyToNamespace W prototype nsFrom ns nonstatus status of
               (Inl e, eff1) \<Rightarrow> (targetCSVs, eff1 @ eff)
             | (Inr targetCSV, eff1) \<Rightarrow> ((ns, targetCSV) # targetCSVs, eff1 @ eff))
          else (targetCSVs, snd (pruneFromNamespace W groupName ns) @ eff))"

section \<open>Roles in target namespaces\<close>

text \<open>The metadata of an object that is copied for the copy of a version.\<close>

definition tenantMeta :: "Object \<Rightarrow> string \<Rightarrow> string \<Rightarrow> Object \<Rightarrow> Object option" where
  "tenantMeta meta operatorNamespace targetNamespace targetCSV =
     (case AddOwnerLabels (meta\<lparr>Obj_Namespace := targetNamespace, Obj_OwnerReferences := [NonBlockingOwner targetCSV]\<rparr>) targetCSV of
        None \<Rightarrow> None
      | Some (obj, _) \<Rightarrow>
          let labels = (case Obj_Labels obj of None \<Rightarrow> [] | Some ls \<Rightarrow> ls)
          in Some (obj\<lparr>Obj_Labels := Some (AList.update ''olm.managed'' ''true'' (AList.update CopiedLabelKey operatorNamespace labels))\<rparr>))"

definition gvkError :: string where
  "gvkError = ''could not infer GVK for object''"

fun tenantRoles :: "'v copy_world \<Rightarrow> string \<Rightarrow> string \<Rightarrow> Object \<Rightarrow> Object \<Rightarrow> roleObject list \<Rightarrow> roleObject list \<Rightarrow> string option \<times> copy_effect list" where
  "tenantRoles W operatorNamespace targetNamespace csv targetCSV targetRoles [] = (None, [])"
| "tenantRoles W operatorNamespace targetNamespace csv targetCSV targetRoles (ownedRole # roles) =
     (let rest = tenantRoles W operatorNamespace targetNamespace csv targetCSV targetRoles roles;
          wrote = (\<lambda>eff failed. case failed of Some e \<Rightarrow> (Some e, []) | None \<Rightarrow> (fst rest, eff # snd rest))
      in if \<not> IsOwnedBy (ro_Meta ownedRole) csv then rest
         else case find (\<lambda>r. Obj_Name (ro_Meta r) = Obj_Name (ro_Meta ownedRole)) (rev targetRoles) of
           Some existing \<Rightarrow>
             let updatedRole = existing\<lparr>ro_Rules := ro_Rules ownedRole\<rparr>
             in wrote (updateTenantRole updatedRole) (cw_updateRole W updatedRole)
         | None \<Rightarrow>
             (case tenantMeta (ro_Meta ownedRole) operatorNamespace targetNamespace targetCSV of
                None \<Rightarrow> (Some gvkError, [])
              | Some meta \<Rightarrow>
                  let targetRole = ownedRole\<lparr>ro_Meta := meta\<rparr>
                  in wrote (createTenantRole targetRole) (cw_createRole W targetRole)))"

fun tenantBindings :: "'v copy_world \<Rightarrow> string \<Rightarrow> string \<Rightarrow> Object \<Rightarrow> Object \<Rightarrow> bindingObject list \<Rightarrow> bindingObject list \<Rightarrow> string option \<times> copy_effect list" where
  "tenantBindings W operatorNamespace targetNamespace csv targetCSV targetBindings [] = (None, [])"
| "tenantBindings W operatorNamespace targetNamespace csv targetCSV targetBindings (owned # bindings) =
     (let rest = tenantBindings W operatorNamespace targetNamespace csv targetCSV targetBindings bindings
      in if \<not> IsOwnedBy (bo_Meta owned) csv then rest
         else if Obj_Name (bo_Meta owned) \<in> (Obj_Name \<circ> bo_Meta) ` set targetBindings then rest
         else case tenantMeta (bo_Meta owned) operatorNamespace targetNamespace targetCSV of
           None \<Rightarrow> (Some gvkError, [])
         | Some meta \<Rightarrow>
             let binding = owned\<lparr>bo_Meta := meta\<rparr>
             in (case cw_createBinding W binding of
                   Some e \<Rightarrow> (Some e, [])
                 | None \<Rightarrow> (fst rest, createTenantBinding binding # snd rest)))"

text \<open>The roles and the bindings of a namespace that carry the labels of a version.\<close>

definition ownedRoles :: "'v req_world \<Rightarrow> string \<Rightarrow> Object \<Rightarrow> string + roleObject list" where
  "ownedRoles R namespace csv = bind_err (rq_roles R) (\<lambda>rs.
     Inr (filter (\<lambda>r. Obj_Namespace (ro_Meta r) = namespace \<and> selects (OwnerLabel csv ''ClusterServiceVersion'') (ro_Meta r)) rs))"

definition ownedBindings :: "'v req_world \<Rightarrow> string \<Rightarrow> Object \<Rightarrow> string + bindingObject list" where
  "ownedBindings R namespace csv = bind_err (rq_roleBindings R) (\<lambda>bs.
     Inr (filter (\<lambda>b. Obj_Namespace (bo_Meta b) = namespace \<and> selects (OwnerLabel csv ''ClusterServiceVersion'') (bo_Meta b)) bs))"

definition ensureTenantRBAC :: "'v copy_world \<Rightarrow> string \<Rightarrow> string \<Rightarrow> Object \<Rightarrow> Object \<Rightarrow> string option \<times> copy_effect list" where
  "ensureTenantRBAC W operatorNamespace targetNamespace csv targetCSV =
     (if operatorNamespace = targetNamespace then (None, [])
      else case ownedRoles (cw_req W) operatorNamespace csv of
        Inl e \<Rightarrow> (Some e, [])
      | Inr [] \<Rightarrow> (Some ''owned roles not found in cache'', [])
      | Inr roles \<Rightarrow>
          (case ownedRoles (cw_req W) targetNamespace targetCSV of
             Inl e \<Rightarrow> (Some e, [])
           | Inr targetRoles \<Rightarrow>
               (case tenantRoles W operatorNamespace targetNamespace csv targetCSV targetRoles roles of
                  (Some e, eff) \<Rightarrow> (Some e, eff)
                | (None, eff) \<Rightarrow>
                    (case ownedBindings (cw_req W) operatorNamespace csv of
                       Inl e \<Rightarrow> (Some e, eff)
                     | Inr bindings \<Rightarrow>
                         (case ownedBindings (cw_req W) targetNamespace targetCSV of
                            Inl e \<Rightarrow> (Some e, eff)
                          | Inr targetBindings \<Rightarrow>
                              (case tenantBindings W operatorNamespace targetNamespace csv targetCSV targetBindings bindings of
                                 (err, eff') \<Rightarrow> (err, eff @ eff')))))))"

fun rbacLoop :: "'v copy_world \<Rightarrow> requirements \<Rightarrow> Group \<Rightarrow> (string \<times> Object) list \<Rightarrow> string list \<Rightarrow> string option \<times> copy_effect list" where
  "rbacLoop W r grp targetCSVs [] = (None, [])"
| "rbacLoop W r grp targetCSVs (ns # targetNamespaces) =
     (case permissionStatus (cw_req W) r ns (rs_InstallStrategy r) of
        Inl e \<Rightarrow> (Some e, [])
      | Inr (True, _) \<Rightarrow> rbacLoop W r grp targetCSVs targetNamespaces
      | Inr (False, _) \<Rightarrow>
          (case map_of targetCSVs ns of
             None \<Rightarrow> (Some (''bug: no target CSV for namespace '' @ ns), [])
           | Some targetCSV \<Rightarrow>
               (case ensureTenantRBAC W (og_Namespace grp) ns (rs_Object r) targetCSV of
                  (Some e, eff) \<Rightarrow> (Some e, eff)
                | (None, eff) \<Rightarrow> (case rbacLoop W r grp targetCSVs targetNamespaces of (err, eff') \<Rightarrow> (err, eff @ eff')))))"

definition ensureCSVsInNamespaces :: "'v copy_world \<Rightarrow> requirements \<Rightarrow> Group \<Rightarrow> NamespaceSet \<Rightarrow> string option \<times> copy_effect list" where
  "ensureCSVsInNamespaces W r operatorGroup targets =
     (case cw_namespaces W of
        Inl e \<Rightarrow> (Some e, [])
      | Inr namespaces \<Rightarrow>
          let csv = rs_CSV r; copyPrototype = csvCopyPrototype csv
          in (case copyableCSVHash W copyPrototype of
                Inl e \<Rightarrow> (Some e, [])
              | Inr (nonstatus, status) \<Rightarrow>
                  (case copyLoop W copyPrototype (C_Namespace csv) (og_Name operatorGroup) (og_Namespace operatorGroup) nonstatus status targets namespaces of
                     (targetCSVs, eff) \<Rightarrow>
                       let targetNamespaces = og_StatusNamespaces operatorGroup
                       in if targetNamespaces = [] then (None, eff)
                          else if length targetNamespaces = 1 \<and> targetNamespaces ! 0 = [] then (None, eff)
                          else (case rbacLoop W r operatorGroup targetCSVs targetNamespaces of (err, eff') \<Rightarrow> (err, eff @ eff')))))"

section \<open>The handler\<close>

definition operatorGroupFromAnnotations :: "'v copy_world \<Rightarrow> CSV \<Rightarrow> Group option" where
  "operatorGroupFromAnnotations W csv =
     (if recorded OperatorGroupNamespaceAnnotationKey csv \<noteq> C_Namespace csv then None
      else case map_of (csv_Annotations csv) OperatorGroupAnnotationKey of
        None \<Rightarrow> None
      | Some operatorGroupName \<Rightarrow>
          (case cw_group W operatorGroupName of
             present operatorGroup \<Rightarrow>
               (case map_of (csv_Annotations csv) OperatorGroupTargetsAnnotationKey of
                  None \<Rightarrow> None
                | Some targets \<Rightarrow> if targets \<noteq> BuildTargetNamespaces operatorGroup then None else Some operatorGroup)
           | _ \<Rightarrow> None))"

text \<open>The configuration \<open>None\<close> says nothing about copies, otherwise whether they are disabled.\<close>

definition CopiedCSVsAreEnabled :: "bool option \<Rightarrow> bool" where
  "CopiedCSVsAreEnabled disable = (case disable of None \<Rightarrow> True | Some d \<Rightarrow> \<not> d)"

definition copiedCSVsAreEnabled :: "'v copy_world \<Rightarrow> string + bool" where
  "copiedCSVsAreEnabled W =
     (case cw_olmConfig W of notFound \<Rightarrow> Inr True | lookupError e \<Rightarrow> Inl e | present olmConfig \<Rightarrow> Inr (CopiedCSVsAreEnabled olmConfig))"

definition getCopiedCSVDisabledEventsForCSV :: "'v copy_world \<Rightarrow> Object \<Rightarrow> string + copyEvent list" where
  "getCopiedCSVDisabledEventsForCSV W csv = bind_err (cw_events W) (\<lambda>events.
     Inr (filter (\<lambda>e. ev_ObjectNamespace e = Obj_Namespace csv \<and> ev_ObjectName e = Obj_Name csv \<and> ev_ObjectUID e = Obj_UID csv
       \<and> ev_Reason e = ''DisabledCopiedCSVs'') events))"

fun deleteEvents :: "'v copy_world \<Rightarrow> copyEvent list \<Rightarrow> string option \<times> copy_effect list" where
  "deleteEvents W [] = (None, [])"
| "deleteEvents W (event # events) =
     (case cw_deleteEvent W event of
        updateFailed e \<Rightarrow> (Some e, [])
      | updateNotFound \<Rightarrow> deleteEvents W events
      | updated \<Rightarrow> (case deleteEvents W events of (err, eff) \<Rightarrow> (err, deleteEvent (ev_Name event) # eff)))"

definition deleteCSVCopyingDisabledEvent :: "'v copy_world \<Rightarrow> Object \<Rightarrow> string option \<times> copy_effect list" where
  "deleteCSVCopyingDisabledEvent W csv =
     (case getCopiedCSVDisabledEventsForCSV W csv of Inl e \<Rightarrow> (Some e, []) | Inr events \<Rightarrow> deleteEvents W events)"

definition createCSVCopyingDisabledEvent :: "'v copy_world \<Rightarrow> Object \<Rightarrow> string option \<times> copy_effect list" where
  "createCSVCopyingDisabledEvent W csv =
     (case getCopiedCSVDisabledEventsForCSV W csv of
        Inl e \<Rightarrow> (Some e, [])
      | Inr events \<Rightarrow>
          if length events = 1 then (None, [])
          else case (if length events > 1 then deleteEvents W events else (None, [])) of
            (Some e, eff) \<Rightarrow> (Some e, eff)
          | (None, eff) \<Rightarrow> (None, eff @ [createEvent]))"

fun deleteUnprotected :: "'v copy_world \<Rightarrow> CSV list \<Rightarrow> string option \<times> copy_effect list" where
  "deleteUnprotected W [] = (None, [])"
| "deleteUnprotected W (copied # copies) =
     (if C_Namespace copied \<in> set (cw_protected W) then deleteUnprotected W copies
      else case cw_delete W (C_Namespace copied) (C_Name copied) of
        updateFailed e \<Rightarrow> (Some e, [])
      | updateNotFound \<Rightarrow> deleteUnprotected W copies
      | updated \<Rightarrow> (case deleteUnprotected W copies of (err, eff) \<Rightarrow> (err, deleteCopy (C_Namespace copied) (C_Name copied) # eff)))"

text \<open>One computation after another, as long as there is no error.\<close>

definition andThen :: "string option \<times> 'e list \<Rightarrow> string option \<times> 'e list \<Rightarrow> string option \<times> 'e list" where
  "andThen a b = (case a of (Some e, eff) \<Rightarrow> (Some e, eff) | (None, eff) \<Rightarrow> (fst b, eff @ snd b))"

definition syncCopyCSV :: "'v copy_world \<Rightarrow> requirements \<Rightarrow> string option \<times> copy_effect list" where
  "syncCopyCSV W r =
     (let csv = rs_CSV r; 
          queued = (case cw_olmConfig W of present _ \<Rightarrow> [requeueConfig] | _ \<Rightarrow> [])
      in case cw_olmConfig W of
        lookupError e \<Rightarrow> (Some e, [])
      | _ \<Rightarrow>
        andThen (None, queued)
        (case operatorGroupFromAnnotations W csv of
           None \<Rightarrow> (Some (''operatorGroup for csv '' @ [CHR 0x27] @ C_Name csv @ [CHR 0x27] @ '' should have annotations''), [])
         | Some operatorGroup \<Rightarrow>
           (case copiedCSVsAreEnabled W of
              Inl e \<Rightarrow> (Some e, [])
            | Inr enabled \<Rightarrow>
                let namespaceSet = NewNamespaceSet (og_StatusNamespaces operatorGroup)
                in if enabled \<or> \<not> IsAllNamespaces namespaceSet then
                     (case ensureCSVsInNamespaces W r operatorGroup namespaceSet of
                        (err, eff) \<Rightarrow>
                          if IsAllNamespaces namespaceSet then
                            (case deleteCSVCopyingDisabledEvent W (rs_Object r) of
                               (Some e, eff') \<Rightarrow> (Some e, eff @ eff')
                             | (None, eff') \<Rightarrow> (err, eff @ eff'))
                          else (err, eff))
                   else (case cw_allCopies W of
                       Inl e \<Rightarrow> (Some e, [])
                     | Inr all \<Rightarrow>
                         let copiedCSVs = filter (\<lambda>c. map_of (csv_Labels c) CopiedLabelKey = Some (C_Namespace csv)) all;
                             protectedNamespaces = filter (\<lambda>ns. ns \<noteq> C_Namespace csv) (cw_protected W)
                         in andThen (ensureCSVsInNamespaces W r operatorGroup (NewNamespaceSet protectedNamespaces))
                              (andThen (deleteUnprotected W copiedCSVs) (createCSVCopyingDisabledEvent W (rs_Object r)))))))"

section \<open>Collection of copies\<close>

definition deleteChild :: "'v copy_world \<Rightarrow> CSV \<Rightarrow> string option \<times> copy_effect list" where
  "deleteChild W csv =
     (case cw_delete W (C_Namespace csv) (C_Name csv) of
        updated \<Rightarrow> (None, [deleteCopy (C_Namespace csv) (C_Name csv)])
      | updateNotFound \<Rightarrow> (Some ''not found'', [])
      | updateFailed e \<Rightarrow> (Some e, []))"

definition removeDanglingChildCSVs :: "'v copy_world \<Rightarrow> (string \<Rightarrow> string \<Rightarrow> CSV lookup) \<Rightarrow> CSV \<Rightarrow> string option \<times> copy_effect list" where
  "removeDanglingChildCSVs W parentOf csv =
     (if \<not> metaIsCopied csv then (None, [])
      else case map_of (csv_Annotations csv) OperatorGroupNamespaceAnnotationKey of
        None \<Rightarrow> deleteChild W csv
      | Some operatorNamespace \<Rightarrow>
          (case parentOf operatorNamespace (C_Name csv) of
             present parent \<Rightarrow>
               if C_Phase parent = CSVPhaseFailed \<and> csv_Reason parent = CSVReasonInterOperatorGroupOwnerConflict then deleteChild W csv
               else if \<not> NS_Contains (NewNamespaceSetFromString (recorded OperatorGroupTargetsAnnotationKey parent)) (C_Namespace csv)
               then deleteChild W csv
               else if C_Namespace parent = C_Namespace csv then deleteChild W csv
               else (None, [])
           | _ \<Rightarrow> deleteChild W csv))"

definition syncGcCsv :: "'v copy_world \<Rightarrow> (string \<Rightarrow> string \<Rightarrow> CSV lookup) \<Rightarrow> CSV \<Rightarrow> string option \<times> copy_effect list" where
  "syncGcCsv W parentOf csv = (if metaIsCopied csv then removeDanglingChildCSVs W parentOf csv else (None, []))"

section \<open>The configuration of copying\<close>

record namespaceObject =
  no_Name :: string
  no_Active :: bool

text \<open>Whether the namespaces that hold copies of a version, without repetition, are those expected.\<close>

definition getCopiedCSVEvaluatorFunc :: "bool \<Rightarrow> namespaceObject list \<Rightarrow> string list \<Rightarrow> string list \<Rightarrow> bool" where
  "getCopiedCSVEvaluatorFunc copiedCSVsEnabled namespaces protectedNamespaces m =
     (if copiedCSVsEnabled then int (length (filter no_Active namespaces)) - 1 = int (length m)
      else length protectedNamespaces = length m \<and> (\<forall>protectedNS \<in> set protectedNamespaces. protectedNS \<in> set m))"

record copiesCondition =
  cn_Status :: bool
  cn_Reason :: string
  cn_Message :: string

definition getCopiedCSVsCondition :: "bool \<Rightarrow> bool \<Rightarrow> copiesCondition" where
  "getCopiedCSVsCondition enabled csvIsRequeued =
     (if enabled then \<lparr>cn_Status = False, cn_Reason = ''CopiedCSVsEnabled'',
        cn_Message = (if csvIsRequeued then ''Copied CSVs are enabled and at least one copied CSVs is missing''
          else ''Copied CSVs are enabled and present across the cluster'')\<rparr>
      else if csvIsRequeued then \<lparr>cn_Status = False, cn_Reason = ''CopiedCSVsDisabled'',
        cn_Message = ''Copied CSVs are disabled and at least one unexpected copied CSV was found for an operator installed in AllNamespace mode''\<rparr>
      else \<lparr>cn_Status = True, cn_Reason = ''CopiedCSVsDisabled'',
        cn_Message = ''Copied CSVs are disabled and no unexpected copied CSVs were found for operators installed in AllNamespace mode''\<rparr>)"

record config_world =
  fw_groups :: "string + Group list"
  fw_copies :: "string + CSV list"
  fw_csvs :: "string \<Rightarrow> string + CSV list"
  fw_namespaces :: "string + namespaceObject list"
  fw_protected :: "string list"
  fw_condition :: "copiesCondition option"
  fw_updateStatus :: "copiesCondition \<Rightarrow> string option"

datatype config_effect = requeueVersion string string | writeCondition copiesCondition

definition allNamespaceOperatorGroups :: "config_world \<Rightarrow> string + Group list" where
  "allNamespaceOperatorGroups W = bind_err (fw_groups W) (\<lambda>groups.
     Inr (filter (\<lambda>g. IsAllNamespaces (NewNamespaceSet (og_StatusNamespaces g))) groups))"

text \<open>The namespaces of the copies of one name, and the versions of a group that are requeued. A
  failure to requeue is only logged.\<close>

definition copyNamespaces :: "CSV list \<Rightarrow> string \<Rightarrow> string list" where
  "copyNamespaces copies name = remdups (map C_Namespace (filter (\<lambda>c. C_Name c = name) copies))"

definition requeuedOf :: "config_world \<Rightarrow> bool \<Rightarrow> Group \<Rightarrow> string + CSV list" where
  "requeuedOf W enabled og =
     bind_err (fw_copies W) (\<lambda>all.
     bind_err (fw_csvs W (og_Namespace og)) (\<lambda>csvs.
     bind_err (fw_namespaces W) (\<lambda>namespaces.
       let copies = filter (\<lambda>c. map_of (csv_Labels c) CopiedLabelKey = Some (og_Namespace og)) all
       in Inr (filter (\<lambda>csv. \<not> getCopiedCSVEvaluatorFunc enabled namespaces (fw_protected W) (copyNamespaces copies (C_Name csv)))
            (filter (\<lambda>c. map_of (csv_Labels c) CopiedLabelKey = None) csvs)))))"

fun requeuedOfAll :: "config_world \<Rightarrow> bool \<Rightarrow> Group list \<Rightarrow> CSV list \<Rightarrow> string option \<times> CSV list" where
  "requeuedOfAll W enabled [] csvs = (None, csvs)"
| "requeuedOfAll W enabled (og # groups) csvs =
     (case requeuedOf W enabled og of Inl e \<Rightarrow> (Some e, csvs) | Inr csvs' \<Rightarrow> requeuedOfAll W enabled groups (csvs @ csvs'))"

definition syncOLMConfig :: "config_world \<Rightarrow> bool option \<Rightarrow> string option \<times> config_effect list" where
  "syncOLMConfig W olmConfig =
     (let enabled = CopiedCSVsAreEnabled olmConfig
      in case allNamespaceOperatorGroups W of
           Inl e \<Rightarrow> (Some e, [])
         | Inr groups \<Rightarrow>
             (case requeuedOfAll W enabled groups [] of
                (err, csvs) \<Rightarrow>
                  let eff = map (\<lambda>c. requeueVersion (C_Namespace c) (C_Name c)) csvs;
                      condition = getCopiedCSVsCondition enabled (csvs \<noteq> [])
                  in if err \<noteq> None then (err, eff)
                     else if fw_condition W = Some condition then (None, eff)
                     else (case fw_updateStatus W condition of
                             Some e \<Rightarrow> (Some e, eff) | None \<Rightarrow> (None, eff @ [writeCondition condition]))))"

section \<open>Copies follow the targets\<close>

lemma status_laws:
  "withStatusOf c (noStatus c) = c" "withStatusOf c (withStatusOf d c) = c" "withStatusOf c c = c"
  "C_Name (noStatus c) = C_Name c" "C_Namespace (noStatus c) = C_Namespace c"
  "C_Name (withStatusOf d c) = C_Name c" "C_Namespace (withStatusOf d c) = C_Namespace c"
  by (simp_all add: withStatusOf_def noStatus_def)

lemma same_nonstatus: "noStatus d = noStatus c \<Longrightarrow> withStatusOf c d = c"
  by (cases c; cases d) (simp add: withStatusOf_def noStatus_def)

lemma same_version: "noStatus d = noStatus c \<Longrightarrow> withStatusOf d c = c \<Longrightarrow> d = c"
  by (cases c; cases d) (simp add: withStatusOf_def noStatus_def)

text \<open>An API server that accepts every write, and caches that agree with the state of the cluster.\<close>

definition faultless :: "'v copy_world \<Rightarrow> bool" where
  "faultless W \<longleftrightarrow> (\<forall>c. \<exists>uid. cw_create W c = Inr uid) \<and> (\<forall>c. \<exists>uid. cw_update W c = Inr uid) \<and> (\<forall>c. cw_updateStatus W c = None)
     \<and> (\<forall>ns n. cw_requeueGC W ns n = None)"

definition cachedAt :: "'v copy_world \<Rightarrow> store \<Rightarrow> string \<times> string \<Rightarrow> bool" where
  "cachedAt W st k \<longleftrightarrow> cw_copy W (fst k) (snd k) = (case st k of None \<Rightarrow> notFound | Some c \<Rightarrow> present c)"

definition upToDate :: "'v copy_world \<Rightarrow> store \<Rightarrow> bool" where
  "upToDate W st \<longleftrightarrow> (\<forall>k. cachedAt W st k)
     \<and> (\<forall>ns. \<exists>cs. cw_copiesIn W ns = Inr cs \<and> (\<forall>n c. st (ns, n) = Some c \<longrightarrow> c \<in> set cs))
     \<and> (\<forall>ns n c. st (ns, n) = Some c \<longrightarrow> C_Namespace c = ns \<and> C_Name c = n)"

text \<open>Where a recorded hash agrees, the copy does.\<close>

definition truthful :: "store \<Rightarrow> CSV \<Rightarrow> string \<Rightarrow> string \<Rightarrow> string \<Rightarrow> bool" where
  "truthful st p nonstatus status ns \<longleftrightarrow> (\<forall>c. st (ns, C_Name p) = Some c \<longrightarrow>
     (recorded nonstatusHashKey c = nonstatus \<longrightarrow> noStatus c = noStatus (p\<lparr>C_Namespace := ns\<rparr>))
     \<and> (recorded statusHashKey c = status \<longrightarrow> withStatusOf c (p\<lparr>C_Namespace := ns\<rparr>) = p\<lparr>C_Namespace := ns\<rparr>))"

lemma copyToNamespace_copies:
  assumes "faultless W" "cachedAt W st (ns, C_Name p)" "truthful st p nonstatus status ns" "from' \<noteq> ns"
    and "copyToNamespace W p from' ns nonstatus status = (res, eff)"
  shows "(\<exists>ref. res = Inr ref) \<and> applyEffects eff st = st((ns, C_Name p) \<mapsto> p\<lparr>C_Namespace := ns\<rparr>)"
proof (cases "st (ns, C_Name p)")
  case None
  obtain uid where "cw_create W (p\<lparr>C_Namespace := ns\<rparr>) = Inr uid" "cw_updateStatus W (p\<lparr>C_Namespace := ns\<rparr>) = None"
    using assms(1) unfolding faultless_def by meson
  with assms(2,4,5) None show ?thesis by (auto simp: copyToNamespace_def cachedAt_def Let_def status_laws)
next
  case (Some c)
  let ?p = "p\<lparr>C_Namespace := ns\<rparr>"
  obtain uid where u: "cw_update W ?p = Inr uid" using assms(1) unfolding faultless_def by meson
  have ok: "cw_updateStatus W ?p = None" using assms(1) by (simp add: faultless_def)
  have t: "recorded nonstatusHashKey c = nonstatus \<Longrightarrow> noStatus c = noStatus ?p"
    "recorded statusHashKey c = status \<Longrightarrow> withStatusOf c ?p = ?p" using assms(3) Some by (auto simp: truthful_def)
  have copy: "cw_copy W ns (C_Name p) = present c" using assms(2) Some by (simp add: cachedAt_def)
  show ?thesis
  proof (cases "recorded nonstatusHashKey c = nonstatus"; cases "recorded statusHashKey c = status")
    assume a: "recorded nonstatusHashKey c = nonstatus" "recorded statusHashKey c = status"
    then have "c = ?p" using t same_version by blast
    then show ?thesis using assms(4,5) copy Some a by (auto simp: copyToNamespace_def Let_def)
  next
    assume a: "recorded nonstatusHashKey c = nonstatus" "recorded statusHashKey c \<noteq> status"
    then have "withStatusOf ?p c = ?p" using t(1) same_nonstatus by blast
    then show ?thesis using assms(4,5) copy Some a ok by (auto simp: copyToNamespace_def Let_def)
  next
    assume a: "recorded nonstatusHashKey c \<noteq> nonstatus" "recorded statusHashKey c = status"
    then show ?thesis using assms(4,5) copy Some u t(2) by (auto simp: copyToNamespace_def Let_def)
  next
    assume a: "recorded nonstatusHashKey c \<noteq> nonstatus" "recorded statusHashKey c \<noteq> status"
    then show ?thesis using assms(4,5) copy Some u ok by (auto simp: copyToNamespace_def Let_def status_laws)
  qed
qed

lemma pruneFromNamespace_requeues:
  assumes "faultless W" "cw_copiesIn W ns = Inr cs"
  shows "fst (pruneFromNamespace W groupName ns) = None"
    "set (snd (pruneFromNamespace W groupName ns)) =
      {requeueGC (C_Namespace c) (C_Name c) | c. c \<in> set cs \<and> metaIsCopied c \<and> recorded OperatorGroupAnnotationKey c = groupName}"
proof -
  have "fst (pruneLoop W groupName xs) = None \<and> set (snd (pruneLoop W groupName xs)) =
      {requeueGC (C_Namespace c) (C_Name c) | c. c \<in> set xs \<and> metaIsCopied c \<and> recorded OperatorGroupAnnotationKey c = groupName}" for xs
    using assms(1) by (induction xs) (auto simp: faultless_def split: prod.splits)
  then show "fst (pruneFromNamespace W groupName ns) = None"
    "set (snd (pruneFromNamespace W groupName ns)) =
      {requeueGC (C_Namespace c) (C_Name c) | c. c \<in> set cs \<and> metaIsCopied c \<and> recorded OperatorGroupAnnotationKey c = groupName}"
    using assms(2) by (simp_all add: pruneFromNamespace_def)
qed

text \<open>Effects that change no version.\<close>

fun inert :: "copy_effect \<Rightarrow> bool" where
  "inert (createCopy c) = False"
| "inert (updateCopy c) = False"
| "inert (updateCopyStatus c) = False"
| "inert (deleteCopy ns n) = False"
| "inert _ = True"

lemma apply_inert: "\<forall>e \<in> set eff. inert e \<Longrightarrow> applyEffects eff st = st"
proof (induction eff arbitrary: st)
  case (Cons e eff)
  then show ?case by (cases e) auto
qed simp

lemma copyLoop_copies:
  assumes "faultless W" "distinct namespaces" "nsFrom = groupNs"
    and "\<And>ns. ns \<in> set namespaces \<Longrightarrow> cachedAt W st (ns, C_Name p) \<and> truthful st p nonstatus status ns \<and> (\<exists>cs. cw_copiesIn W ns = Inr cs)"
    and "copyLoop W p nsFrom groupName groupNs nonstatus status targets namespaces = (tc, eff)"
  shows "applyEffects eff st k = (if fst k \<in> set namespaces - {groupNs} \<and> NS_Contains targets (fst k) \<and> snd k = C_Name p
      then Some (p\<lparr>C_Namespace := fst k\<rparr>) else st k)
    \<and> fst ` set tc = {ns \<in> set namespaces - {groupNs}. NS_Contains targets ns}
    \<and> (\<forall>ns \<in> set namespaces - {groupNs}. \<not> NS_Contains targets ns \<longrightarrow> set (snd (pruneFromNamespace W groupName ns)) \<subseteq> set eff)"
  using assms(2,4,5)
proof (induction namespaces arbitrary: st tc eff)
  case (Cons ns namespaces)
  obtain tc' eff' where rest: "copyLoop W p nsFrom groupName groupNs nonstatus status targets namespaces = (tc', eff')" by fastforce
  note loop = Cons.prems(3) [unfolded copyLoop.simps rest prod.case]
  have others: "\<And>m. m \<in> set namespaces \<Longrightarrow> cachedAt W st (m, C_Name p) \<and> truthful st p nonstatus status m \<and> (\<exists>cs. cw_copiesIn W m = Inr cs)"
    using Cons.prems(2) by simp
  consider (own) "ns = groupNs" | (target) "ns \<noteq> groupNs" "NS_Contains targets ns" | (other) "ns \<noteq> groupNs" "\<not> NS_Contains targets ns" by blast
  then show ?case
  proof cases
    case own
    with loop Cons.IH [OF _ others rest] Cons.prems(1) show ?thesis by auto
  next
    case target
    obtain res eff1 where one: "copyToNamespace W p nsFrom ns nonstatus status = (res, eff1)" by fastforce
    have new: "(\<exists>ref. res = Inr ref) \<and> applyEffects eff1 st = st((ns, C_Name p) \<mapsto> p\<lparr>C_Namespace := ns\<rparr>)"
      by (rule copyToNamespace_copies [OF assms(1) _ _ _ one]) (use Cons.prems(2) [of ns] assms(3) target in auto)
    let ?st = "st((ns, C_Name p) \<mapsto> p\<lparr>C_Namespace := ns\<rparr>)"
    have "\<And>m. m \<in> set namespaces \<Longrightarrow> cachedAt W ?st (m, C_Name p) \<and> truthful ?st p nonstatus status m \<and> (\<exists>cs. cw_copiesIn W m = Inr cs)"
      using others Cons.prems(1) by (auto simp: cachedAt_def truthful_def)
    moreover have "distinct namespaces" using Cons.prems(1) by simp
    ultimately have IH: "applyEffects eff' ?st k = (if fst k \<in> set namespaces - {groupNs} \<and> NS_Contains targets (fst k) \<and> snd k = C_Name p
        then Some (p\<lparr>C_Namespace := fst k\<rparr>) else ?st k)"
      "fst ` set tc' = {ns \<in> set namespaces - {groupNs}. NS_Contains targets ns}"
      "\<forall>ns \<in> set namespaces - {groupNs}. \<not> NS_Contains targets ns \<longrightarrow> set (snd (pruneFromNamespace W groupName ns)) \<subseteq> set eff'"
      using Cons.IH [OF _ _ rest, of ?st] by blast+
    from new loop target one obtain ref where r: "tc = (ns, ref) # tc'" "eff = eff1 @ eff'" by auto
    have "applyEffects eff st k = applyEffects eff' ?st k" using new by (simp add: r(2))
    moreover have "?st k = (if k = (ns, C_Name p) then Some (p\<lparr>C_Namespace := ns\<rparr>) else st k)" by simp
    ultimately show ?thesis using IH target Cons.prems(1) by (cases k) (auto simp: r)
  next
    case other
    obtain cs where cs: "cw_copiesIn W ns = Inr cs" using Cons.prems(2) [of ns] by auto
    have inert: "applyEffects (snd (pruneFromNamespace W groupName ns)) st = st"
      by (rule apply_inert) (auto simp: pruneFromNamespace_requeues(2) [OF assms(1) cs])
    from loop other have "tc = tc'" "eff = snd (pruneFromNamespace W groupName ns) @ eff'" by auto
    with Cons.IH [OF _ others rest] Cons.prems(1) other inert show ?thesis by auto
  qed
qed simp

lemma tenantRoles_inert: "tenantRoles W opns tns csv tcsv troles roles = (err, eff) \<Longrightarrow> e \<in> set eff \<Longrightarrow> inert e"
proof (induction roles arbitrary: err eff)
  case (Cons x roles)
  then show ?case by (cases "tenantRoles W opns tns csv tcsv troles roles") (auto simp: Let_def split: if_splits option.splits)
qed simp

lemma tenantBindings_inert: "tenantBindings W opns tns csv tcsv tbindings bindings = (err, eff) \<Longrightarrow> e \<in> set eff \<Longrightarrow> inert e"
proof (induction bindings arbitrary: err eff)
  case (Cons x bindings)
  then show ?case by (cases "tenantBindings W opns tns csv tcsv tbindings bindings") (auto simp: Let_def split: if_splits option.splits)
qed simp

lemma ensureTenantRBAC_inert: "ensureTenantRBAC W opns tns csv tcsv = (err, eff) \<Longrightarrow> e \<in> set eff \<Longrightarrow> inert e"
  by (auto simp: ensureTenantRBAC_def simp del: tenantRoles.simps tenantBindings.simps
      split: if_splits sum.splits list.splits prod.splits option.splits dest: tenantRoles_inert tenantBindings_inert)

lemma rbacLoop_inert: "rbacLoop W r grp tc nss = (err, eff) \<Longrightarrow> e \<in> set eff \<Longrightarrow> inert e"
proof (induction nss arbitrary: eff)
  case (Cons ns nss)
  then show ?case by (auto split: sum.splits bool.splits option.splits prod.splits dest: ensureTenantRBAC_inert)
qed simp

text \<open>The names of namespaces in the status of a group, as its annotation on a version can express
  them: at least one, without a comma, and the empty name only for all namespaces.\<close>

definition readableTargets :: "string list \<Rightarrow> bool" where
  "readableTargets nss \<longleftrightarrow> nss \<noteq> [] \<and> (\<forall>ns \<in> set nss. CHR '','' \<notin> set ns) \<and> ([] \<in> set nss \<longrightarrow> nss = [[]])"

lemma NS_Contains_new: "NS_Contains (NewNamespaceSet nss) ns \<longleftrightarrow> set nss = {[]} \<or> ns \<in> set nss"
  by (simp add: NS_Contains_def singleton_list)

lemma targets_read_back:
  assumes "readableTargets (og_StatusNamespaces grp)"
  shows "NS_Contains (NewNamespaceSetFromString (BuildTargetNamespaces grp)) ns \<longleftrightarrow> NS_Contains (NewNamespaceSet (og_StatusNamespaces grp)) ns"
proof -
  let ?nss = "SliceStable (<) (og_StatusNamespaces grp)"
  have "?nss \<noteq> []" using assms by (metis readableTargets_def set_SliceStable set_empty)
  then have "Split CHR '','' (BuildTargetNamespaces grp) = ?nss"
    unfolding BuildTargetNamespaces_def using assms by (intro Split_Join) (auto simp: readableTargets_def)
  then show ?thesis by (simp add: NewNamespaceSetFromString_def NS_Contains_new)
qed

lemma prototype_annotations:
  "map_of (csv_Annotations (csvCopyPrototype csv)) k =
    (if k = OperatorGroupTargetsAnnotationKey \<or> k = ''kubectl.kubernetes.io/last-applied-configuration'' then None else map_of (csv_Annotations csv) k)"
proof -
  have "map_of (filter (\<lambda>(k, v). k \<noteq> a \<and> k \<noteq> b) xs) k = (if k = a \<or> k = b then None else map_of xs k)" for a b and xs :: "(string \<times> string) list"
    by (induction xs) auto
  then show ?thesis by (simp add: csvCopyPrototype_def)
qed

text \<open>What the collection decides about a copy whose parent belongs to its group.\<close>

lemma gc_decides:
  assumes "\<not> operatorGroupAnnotationsDiffer csv grp" "C_Namespace csv = og_Namespace grp" "readableTargets (og_StatusNamespaces grp)"
    and "\<not> (C_Phase csv = CSVPhaseFailed \<and> csv_Reason csv = CSVReasonInterOperatorGroupOwnerConflict)"
    and "parentOf (og_Namespace grp) (C_Name csv) = present csv" "\<And>ns n. cw_delete W ns n = updated"
    and "metaIsCopied c" "map_of (csv_Annotations c) OperatorGroupNamespaceAnnotationKey = Some (og_Namespace grp)"
    and "C_Name c = C_Name csv" "C_Namespace c \<noteq> og_Namespace grp"
  shows "syncGcCsv W parentOf c =
    (None, if NS_Contains (NewNamespaceSet (og_StatusNamespaces grp)) (C_Namespace c) then [] else [deleteCopy (C_Namespace c) (C_Name csv)])"
proof -
  have "recorded OperatorGroupTargetsAnnotationKey csv = BuildTargetNamespaces grp"
    using assms(1) by (simp add: operatorGroupAnnotationsDiffer_def recorded_def)
  then show ?thesis using assms targets_read_back [OF assms(3)]
    by (auto simp: syncGcCsv_def removeDanglingChildCSVs_def deleteChild_def)
qed

lemma ensureCSVsInNamespaces_copies:
  assumes "faultless W" "upToDate W st" "cw_namespaces W = Inr namespaces" "distinct namespaces"
    and "copyableCSVHash W (csvCopyPrototype (rs_CSV r)) = Inr (nonstatus, status)"
    and "\<And>ns. truthful st (csvCopyPrototype (rs_CSV r)) nonstatus status ns"
    and "C_Namespace (rs_CSV r) = og_Namespace grp" "ensureCSVsInNamespaces W r grp targets = (err, eff)"
  shows "applyEffects eff st k = (if fst k \<in> set namespaces - {og_Namespace grp} \<and> NS_Contains targets (fst k) \<and> snd k = C_Name (rs_CSV r)
      then Some ((csvCopyPrototype (rs_CSV r))\<lparr>C_Namespace := fst k\<rparr>) else st k)"
    "ns \<in> set namespaces - {og_Namespace grp} \<Longrightarrow> \<not> NS_Contains targets ns \<Longrightarrow> set (snd (pruneFromNamespace W (og_Name grp) ns)) \<subseteq> set eff"
proof -
  let ?p = "csvCopyPrototype (rs_CSV r)"
  have name: "C_Name ?p = C_Name (rs_CSV r)" by (simp add: csvCopyPrototype_def)
  obtain tc eff1 where loop: "copyLoop W ?p (C_Namespace (rs_CSV r)) (og_Name grp) (og_Namespace grp) nonstatus status targets namespaces = (tc, eff1)"
    by fastforce
  obtain eff2 where eff: "eff = eff1 @ eff2" "\<forall>e \<in> set eff2. inert e"
    using assms(8) unfolding ensureCSVsInNamespaces_def assms(3) sum.case Let_def assms(5) prod.case loop
    by (auto split: if_splits prod.splits dest: rbacLoop_inert)
  have "\<And>m. m \<in> set namespaces \<Longrightarrow> cachedAt W st (m, C_Name ?p) \<and> truthful st ?p nonstatus status m \<and> (\<exists>cs. cw_copiesIn W m = Inr cs)"
    using assms(2,6) unfolding upToDate_def by blast
  note all = copyLoop_copies [OF assms(1,4,7) this loop]
  have "applyEffects eff st = applyEffects eff1 st" using apply_inert [OF eff(2)] by (simp add: eff(1))
  then show "applyEffects eff st k = (if fst k \<in> set namespaces - {og_Namespace grp} \<and> NS_Contains targets (fst k) \<and> snd k = C_Name (rs_CSV r)
      then Some (?p\<lparr>C_Namespace := fst k\<rparr>) else st k)" using all unfolding name by presburger
  show "ns \<in> set namespaces - {og_Namespace grp} \<Longrightarrow> \<not> NS_Contains targets ns \<Longrightarrow> set (snd (pruneFromNamespace W (og_Name grp) ns)) \<subseteq> set eff"
    using all unfolding eff(1) set_append by blast
qed


section \<open>What does not go as meant\<close>

text \<open>A copy is written again by every synchronisation, also when it is already as it should be: the
  hashes that would tell are looked up in annotations of the copy that the prototype never has.\<close>

lemma copies_rewritten:
  assumes "faultless W" "map_of (csv_Annotations csv) nonstatusHashKey = None" "map_of (csv_Annotations csv) statusHashKey = None"
    and "copyableCSVHash W (csvCopyPrototype csv) = Inr (nonstatus, status)" "nonstatus \<noteq> []" "status \<noteq> []"
    and "p = (csvCopyPrototype csv)\<lparr>C_Namespace := ns\<rparr>" "cw_copy W ns (C_Name csv) = present p" "C_Namespace csv \<noteq> ns"
  shows "snd (copyToNamespace W (csvCopyPrototype csv) (C_Namespace csv) ns nonstatus status) = [updateCopy p, updateCopyStatus p]"
proof -
  have "recorded nonstatusHashKey p = []" "recorded statusHashKey p = []"
    using assms(2,3) prototype_annotations [of csv] by (simp_all add: assms(7) recorded_def)
  moreover obtain uid where "cw_update W p = Inr uid" "cw_updateStatus W p = None" using assms(1) unfolding faultless_def by meson
  moreover have "C_Name (csvCopyPrototype csv) = C_Name csv" by (simp add: csvCopyPrototype_def)
  ultimately show ?thesis using assms(5-9) by (simp add: copyToNamespace_def Let_def)
qed

fun tenantEffect :: "copy_effect \<Rightarrow> bool" where
  "tenantEffect (createTenantRole r) = True"
| "tenantEffect (updateTenantRole r) = True"
| "tenantEffect (createTenantBinding b) = True"
| "tenantEffect _ = False"

lemma rbacLoop_blocked:
  assumes "\<And>m. m \<in> set pre \<Longrightarrow> \<exists>ss. permissionStatus (cw_req W) r m (rs_InstallStrategy r) = Inr (True, ss)"
    and "permissionStatus (cw_req W) r ns (rs_InstallStrategy r) = Inr (False, statuses)" "map_of tc ns = None"
  shows "rbacLoop W r grp tc (pre @ ns # post) = (Some (''bug: no target CSV for namespace '' @ ns), [])"
  using assms(1)
proof (induction pre)
  case (Cons m pre)
  then obtain ss where "permissionStatus (cw_req W) r m (rs_InstallStrategy r) = Inr (True, ss)" by auto
  with Cons show ?case by simp
qed (use assms(2,3) in simp)

lemma copyLoop_keys:
  "copyLoop W p nsFrom groupName groupNs nonstatus status targets namespaces = (tc, eff) \<Longrightarrow>
    fst ` set tc \<subseteq> set namespaces - {groupNs} \<and> (\<forall>e \<in> set eff. \<not> tenantEffect e)"
proof (induction namespaces arbitrary: tc eff)
  case (Cons ns namespaces)
  obtain tc' eff' where rest: "copyLoop W p nsFrom groupName groupNs nonstatus status targets namespaces = (tc', eff')" by fastforce
  have prune: "\<forall>e \<in> set (snd (pruneLoop W groupName cs)). \<not> tenantEffect e" for cs
    by (induction cs) (auto split: option.splits prod.splits)
  have one: "\<forall>e \<in> set (snd (copyToNamespace W p nsFrom ns nonstatus status)). \<not> tenantEffect e"
    by (auto simp: copyToNamespace_def Let_def split: lookup.splits sum.splits option.splits)
  obtain res eff1 where c: "copyToNamespace W p nsFrom ns nonstatus status = (res, eff1)" by fastforce
  with Cons.prems rest Cons.IH [OF rest] prune one show ?case
    by (fastforce simp: pruneFromNamespace_def split: if_splits sum.splits)
qed simp

text \<open>A target namespace without a copy blocks the others. If the group targets a namespace that does
  not exist, or its own, and the operator lacks a permission there, the synchronisation ends
  with an error that calls it a bug, and no role or binding is made in the targets that come
  after it.\<close>

lemma missing_target_blocks:
  assumes "cw_namespaces W = Inr namespaces" "copyableCSVHash W (csvCopyPrototype (rs_CSV r)) = Inr (nonstatus, status)"
    and "og_StatusNamespaces grp = pre @ ns # post" "ns \<noteq> []" "ns \<notin> set namespaces \<or> ns = og_Namespace grp"
    and "\<And>m. m \<in> set pre \<Longrightarrow> \<exists>ss. permissionStatus (cw_req W) r m (rs_InstallStrategy r) = Inr (True, ss)"
    and "permissionStatus (cw_req W) r ns (rs_InstallStrategy r) = Inr (False, statuses)"
  shows "\<exists>eff. ensureCSVsInNamespaces W r grp targets = (Some (''bug: no target CSV for namespace '' @ ns), eff) \<and> (\<forall>e \<in> set eff. \<not> tenantEffect e)"
proof -
  obtain tc eff where loop: "copyLoop W (csvCopyPrototype (rs_CSV r)) (C_Namespace (rs_CSV r)) (og_Name grp) (og_Namespace grp) nonstatus status targets namespaces = (tc, eff)"
    by fastforce
  have "map_of tc ns = None" using copyLoop_keys [OF loop] assms(5) by (auto simp: map_of_eq_None_iff)
  from rbacLoop_blocked [OF assms(6,7) this] have "rbacLoop W r grp tc (og_StatusNamespaces grp) = (Some (''bug: no target CSV for namespace '' @ ns), [])"
    by (simp add: assms(3))
  moreover have "\<not> (length (og_StatusNamespaces grp) = 1 \<and> og_StatusNamespaces grp ! 0 = [])" "og_StatusNamespaces grp \<noteq> []"
    using assms(3,4) by (cases pre; auto)+
  ultimately show ?thesis using copyLoop_keys [OF loop] by (simp add: ensureCSVsInNamespaces_def assms(1,2) Let_def loop)
qed

section \<open>Roles of the operator in a target namespace\<close>

lemma tenantMeta_made:
  assumes "tenantMeta meta opNs tNs (copyRef c uid) = m"
  obtains m' where "m = Some m'" "Obj_Name m' = Obj_Name meta" "Obj_Namespace m' = tNs" "IsOwnedBy m' (copyRef c uid)"
    "selects (OwnerLabel (copyRef c uid) ''ClusterServiceVersion'') m'"
proof -
  note defs = tenantMeta_def AddOwnerLabels_def AddOwnerLabelsForKind_def InferGroupVersionKind_def copyRef_def newObject_def gvk_empty_def
    NonBlockingOwner_def IsOwnedBy_def Let_def selects_def OwnerLabel_def CopiedLabelKey_def
  show thesis
  proof (cases m)
    case (Some m')
    show thesis by (rule that [OF Some]) (use assms Some in \<open>auto simp: defs update_conv'\<close>)
  qed (use assms in \<open>simp add: defs\<close>)
qed

lemma tenantRoles_mirror:
  assumes "tenantRoles W opNs tNs csv (copyRef c uid) targets roles = (None, eff)" "ro \<in> set roles" "IsOwnedBy (ro_Meta ro) csv"
    and "\<And>t. t \<in> set targets \<Longrightarrow> Obj_Namespace (ro_Meta t) = tNs \<and> selects (OwnerLabel (copyRef c uid) ''ClusterServiceVersion'') (ro_Meta t)"
  shows "\<exists>role. (createTenantRole role \<in> set eff \<or> updateTenantRole role \<in> set eff) \<and> Obj_Name (ro_Meta role) = Obj_Name (ro_Meta ro)
    \<and> ro_Rules role = ro_Rules ro \<and> Obj_Namespace (ro_Meta role) = tNs \<and> selects (OwnerLabel (copyRef c uid) ''ClusterServiceVersion'') (ro_Meta role)"
  using assms(1,2)
proof (induction roles arbitrary: eff)
  case (Cons x roles)
  obtain err eff' where rest: "tenantRoles W opNs tNs csv (copyRef c uid) targets roles = (err, eff')" by fastforce
  obtain m where m: "tenantMeta (ro_Meta x) opNs tNs (copyRef c uid) = Some m" "Obj_Name m = Obj_Name (ro_Meta x)" "Obj_Namespace m = tNs"
    "selects (OwnerLabel (copyRef c uid) ''ClusterServiceVersion'') m" by (rule tenantMeta_made [OF refl, of "ro_Meta x" opNs tNs c uid]) blast
  have none: "err = None" using Cons.prems(1) rest by (auto simp: Let_def split: if_splits option.splits)
  have sub: "set eff' \<subseteq> set eff" using Cons.prems(1) rest by (auto simp: Let_def split: if_splits option.splits)
  show ?case
  proof (cases "ro \<in> set roles")
    case True
    with Cons.IH [OF rest [unfolded none]] sub show ?thesis by blast
  next
    case False
    then have x: "x = ro" using Cons.prems(2) by simp
    show ?thesis
    proof (cases "find (\<lambda>r. Obj_Name (ro_Meta r) = Obj_Name (ro_Meta x)) (rev targets)")
      case None
      then show ?thesis using Cons.prems(1) assms(3) m x rest by (auto simp: Let_def split: option.splits)
    next
      case (Some t)
      then have "t \<in> set targets" "Obj_Name (ro_Meta t) = Obj_Name (ro_Meta x)" by (auto simp: find_Some_iff) (metis length_rev nth_mem set_rev)
      with Some assms(4) [of t] show ?thesis using Cons.prems(1) assms(3) x rest
        by (auto simp: Let_def split: option.splits intro: exI [of _ "t\<lparr>ro_Rules := ro_Rules x\<rparr>"])
    qed
  qed
qed simp

lemma tenantBindings_mirror:
  assumes "tenantBindings W opNs tNs csv (copyRef c uid) targets bindings = (None, eff)" "b \<in> set bindings" "IsOwnedBy (bo_Meta b) csv"
  shows "(\<exists>t \<in> set targets. Obj_Name (bo_Meta t) = Obj_Name (bo_Meta b))
    \<or> (\<exists>t. createTenantBinding t \<in> set eff \<and> Obj_Name (bo_Meta t) = Obj_Name (bo_Meta b) \<and> bo_RoleRef t = bo_RoleRef b \<and> bo_Subjects t = bo_Subjects b
        \<and> Obj_Namespace (bo_Meta t) = tNs \<and> selects (OwnerLabel (copyRef c uid) ''ClusterServiceVersion'') (bo_Meta t))"
  using assms(1,2)
proof (induction bindings arbitrary: eff)
  case (Cons x bindings)
  obtain err eff' where rest: "tenantBindings W opNs tNs csv (copyRef c uid) targets bindings = (err, eff')" by fastforce
  obtain m where m: "tenantMeta (bo_Meta x) opNs tNs (copyRef c uid) = Some m" "Obj_Name m = Obj_Name (bo_Meta x)" "Obj_Namespace m = tNs"
    "selects (OwnerLabel (copyRef c uid) ''ClusterServiceVersion'') m" by (rule tenantMeta_made [OF refl, of "bo_Meta x" opNs tNs c uid]) blast
  have none: "err = None" using Cons.prems(1) rest by (auto simp: Let_def split: if_splits option.splits)
  have sub: "set eff' \<subseteq> set eff" using Cons.prems(1) rest by (auto simp: Let_def split: if_splits option.splits)
  show ?case
  proof (cases "b \<in> set bindings")
    case True
    with Cons.IH [OF rest [unfolded none]] sub show ?thesis by blast
  next
    case False
    then have "x = b" using Cons.prems(2) by simp
    then show ?thesis using Cons.prems(1) assms(3) m rest by (auto simp: Let_def split: if_splits option.splits)
  qed
qed simp

text \<open>C34. If roles are ensured in a target namespace without an error, every role of the version is created
  or updated there with the same name and the same rules. Every binding of the version is copied with
  its role and its subjects, unless the namespace already has a binding of that name for the copy,
  which is kept as it is, whatever its role and subjects. What is made carries the labels by which
  the next synchronisation finds it.\<close>

theorem tenant_rbac_mirrors:
  assumes "ensureTenantRBAC W opNs tNs csv (copyRef c uid) = (None, eff)" "opNs \<noteq> tNs"
    and "ownedRoles (cw_req W) opNs csv = Inr roles" "ownedBindings (cw_req W) opNs csv = Inr bindings"
    and "ownedBindings (cw_req W) tNs (copyRef c uid) = Inr targetBindings"
  shows "(\<forall>ro \<in> set roles. IsOwnedBy (ro_Meta ro) csv \<longrightarrow>
      (\<exists>role. (createTenantRole role \<in> set eff \<or> updateTenantRole role \<in> set eff) \<and> Obj_Name (ro_Meta role) = Obj_Name (ro_Meta ro)
        \<and> ro_Rules role = ro_Rules ro \<and> Obj_Namespace (ro_Meta role) = tNs \<and> selects (OwnerLabel (copyRef c uid) ''ClusterServiceVersion'') (ro_Meta role)))
    \<and> (\<forall>b \<in> set bindings. IsOwnedBy (bo_Meta b) csv \<longrightarrow> (\<exists>t \<in> set targetBindings. Obj_Name (bo_Meta t) = Obj_Name (bo_Meta b))
      \<or> (\<exists>t. createTenantBinding t \<in> set eff \<and> Obj_Name (bo_Meta t) = Obj_Name (bo_Meta b) \<and> bo_RoleRef t = bo_RoleRef b \<and> bo_Subjects t = bo_Subjects b
        \<and> Obj_Namespace (bo_Meta t) = tNs \<and> selects (OwnerLabel (copyRef c uid) ''ClusterServiceVersion'') (bo_Meta t)))"
proof -
  obtain targets eff1 eff2 where p: "ownedRoles (cw_req W) tNs (copyRef c uid) = Inr targets"
    "tenantRoles W opNs tNs csv (copyRef c uid) targets roles = (None, eff1)"
    "tenantBindings W opNs tNs csv (copyRef c uid) targetBindings bindings = (None, eff2)" "eff = eff1 @ eff2"
    using assms by (auto simp: ensureTenantRBAC_def simp del: tenantRoles.simps tenantBindings.simps split: list.splits sum.splits prod.splits option.splits)
  have "Obj_Namespace (ro_Meta t) = tNs \<and> selects (OwnerLabel (copyRef c uid) ''ClusterServiceVersion'') (ro_Meta t)" if "t \<in> set targets" for t
    using p(1) that by (auto simp: ownedRoles_def go_err)
  note roles = tenantRoles_mirror [OF p(2) _ _ this]
  have "set eff1 \<subseteq> set eff" "set eff2 \<subseteq> set eff" by (simp_all add: p(4))
  with roles tenantBindings_mirror [OF p(3)] show ?thesis by blast
qed

section \<open>Copying disabled\<close>

text \<open>With copying disabled, an operator that is installed in a protected namespace never counts as
  settled. Whatever copies it has in other namespaces, all the other protected ones included, the
  check expects one in its own namespace too, where the handler of copies makes none: the version is queued again by every synchronisation
  of the configuration, and the condition reports an unexpected copy.\<close>

lemma protected_home_unsettled:
  assumes "allNamespaceOperatorGroups W = Inr [og]" "og_Namespace og \<in> set (fw_protected W)" "distinct (fw_protected W)"
    and "fw_copies W = Inr copies" "fw_csvs W (og_Namespace og) = Inr [csv]" "fw_namespaces W = Inr namespaces"
    and "C_Namespace csv = og_Namespace og" "map_of (csv_Labels csv) CopiedLabelKey = None"
    and "\<And>c. c \<in> set copies \<Longrightarrow> C_Namespace c \<noteq> og_Namespace og" "fw_updateStatus W = (\<lambda>_. None)" "fw_condition W = None"
  shows "syncOLMConfig W (Some True) = (None, [requeueVersion (og_Namespace og) (C_Name csv), writeCondition (getCopiedCSVsCondition False True)])"
proof -
  have "\<not> getCopiedCSVEvaluatorFunc False namespaces (fw_protected W) (copyNamespaces (filter P copies) name)" for P name
    using assms(2,9) by (force simp: getCopiedCSVEvaluatorFunc_def copyNamespaces_def)
  then have "requeuedOf W False og = Inr [csv]" using assms(4-6,8) by (simp add: requeuedOf_def Let_def)
  with assms(1,7,10,11) show ?thesis by (simp add: syncOLMConfig_def CopiedCSVsAreEnabled_def Let_def)
qed

section \<open>A cluster with copies\<close>

definition copyGroup :: Group where
  "copyGroup = (demoGroup UpgradeStrategyDefault)\<lparr>og_StatusNamespaces := [''t'', ''gone'']\<rparr>"

definition copySource :: CSV where
  "copySource = setOperatorGroupAnnotations (demoVersion ''a.v1'' CSVPhaseSucceeded []) copyGroup True"

definition leftCopy :: CSV where
  "leftCopy = (csvCopyPrototype copySource)\<lparr>C_Namespace := ''u''\<rparr>"

definition copyStore :: store where
  "copyStore k = (if k = (''u'', ''a.v1'') then Some leftCopy else None)"

definition unboundSources :: rule_sources where
  "unboundSources = exampleSources\<lparr>ListRoleBindings := \<lambda>ns. Inr []\<rparr>"

definition demoRole :: roleObject where
  "demoRole = \<lparr>ro_Meta = newObject T_Role ''r'' ''ns'' [NonBlockingOwner demoCSVObject] (Some (OwnerLabel demoCSVObject ''ClusterServiceVersion'')),
     ro_Rules = [podReader]\<rparr>"

definition demoCopies :: "store \<Rightarrow> string list \<Rightarrow> nat copy_world" where
  "demoCopies st namespaces = \<lparr>cw_req = demoReqWorld\<lparr>rq_ruleChecker := Some unboundSources, rq_roles := Inr [demoRole]\<rparr>,
     cw_namespaces = Inr namespaces,
     cw_copy = (\<lambda>ns n. case st (ns, n) of None \<Rightarrow> notFound | Some c \<Rightarrow> present c), cw_uid = (\<lambda>ns n. ''uid''),
     cw_copiesIn = (\<lambda>ns. Inr (case st (ns, ''a.v1'') of None \<Rightarrow> [] | Some c \<Rightarrow> [c])), cw_allCopies = Inr [],
     cw_hash = (\<lambda>c. Inr ''h''), cw_statusHash = (\<lambda>c. Inr ''s''), cw_create = (\<lambda>c. Inr ''uid''), cw_update = (\<lambda>c. Inr ''uid''),
     cw_updateStatus = (\<lambda>c. None), cw_requeueGC = (\<lambda>ns n. None), cw_delete = (\<lambda>ns n. updated), cw_createRole = (\<lambda>r. None),
     cw_updateRole = (\<lambda>r. None), cw_createBinding = (\<lambda>b. None), cw_olmConfig = notFound, cw_group = (\<lambda>n. present copyGroup),
     cw_protected = [], cw_events = Inr [], cw_deleteEvent = (\<lambda>e. updated)\<rparr>"

abbreviation copyWorld :: "nat copy_world" where
  "copyWorld \<equiv> demoCopies copyStore [''ns'', ''t'', ''u'']"

lemma copyWorld_ok:
  "faultless (demoCopies st nss)" "upToDate copyWorld copyStore"
  "copyableCSVHash (demoCopies st nss) (csvCopyPrototype c) = Inr (''h'', ''s'')" "cw_delete (demoCopies st nss) ns n = updated"
proof -
  show "faultless (demoCopies st nss)" by (simp add: faultless_def demoCopies_def)
  have "C_Namespace leftCopy = ''u''" "C_Name leftCopy = ''a.v1''" by code_simp+
  then show "upToDate copyWorld copyStore" by (auto simp: upToDate_def demoCopies_def cachedAt_def copyStore_def split: if_splits)
qed (simp_all add: copyableCSVHash_def demoCopies_def)

lemma copyStore_truthful: "truthful copyStore (csvCopyPrototype copySource) ''h'' ''s'' ns"
proof -
  have "recorded nonstatusHashKey leftCopy \<noteq> ''h''" "recorded statusHashKey leftCopy \<noteq> ''s''" by code_simp+
  then show ?thesis by (simp add: truthful_def copyStore_def)
qed


lemma copies_rewritten_witness:
  "snd (copyToNamespace (demoCopies (\<lambda>_. Some leftCopy) []) (csvCopyPrototype copySource) ''ns'' ''u'' ''h'' ''s'') = [updateCopy leftCopy, updateCopyStatus leftCopy]"
proof -
  have "map_of (csv_Annotations copySource) nonstatusHashKey = None" "map_of (csv_Annotations copySource) statusHashKey = None" "C_Namespace copySource = ''ns''"
    by code_simp+
  then show ?thesis
    using copies_rewritten [OF copyWorld_ok(1) _ _ copyWorld_ok(3) _ _ leftCopy_def, of "\<lambda>_. Some leftCopy" "[]"] by (simp add: demoCopies_def)
qed

lemma missing_target_blocks_witness:
  "\<exists>eff. ensureCSVsInNamespaces copyWorld (demoRequirements copySource) (copyGroup\<lparr>og_StatusNamespaces := [''gone'', ''t'']\<rparr>) (NewNamespaceSet [''t'', ''gone''])
    = (Some ''bug: no target CSV for namespace gone'', eff) \<and> (\<forall>e \<in> set eff. \<not> tenantEffect e)"
proof -
  let ?grp = "copyGroup\<lparr>og_StatusNamespaces := [''gone'', ''t'']\<rparr>" and ?r = "demoRequirements copySource"
  have "map_sum id fst (permissionStatus (cw_req copyWorld) ?r ''gone'' (rs_InstallStrategy ?r)) = Inr False" by code_simp
  then obtain statuses where "permissionStatus (cw_req copyWorld) ?r ''gone'' (rs_InstallStrategy ?r) = Inr (False, statuses)"
    by (cases "permissionStatus (cw_req copyWorld) ?r ''gone'' (rs_InstallStrategy ?r)") auto
  from missing_target_blocks [OF _ copyWorld_ok(3) _ _ _ _ this, of "[''ns'', ''t'', ''u'']" ?grp "[]" "[''t'']"] show ?thesis
    by (simp add: demoCopies_def)
qed

theorem tenant_rbac_mirrors_witness:
  "\<exists>eff role. ensureTenantRBAC copyWorld ''ns'' ''t'' demoCSVObject (copyRef leftCopy ''uid'') = (None, eff)
    \<and> createTenantRole role \<in> set eff \<and> ro_Rules role = [podReader] \<and> Obj_Namespace (ro_Meta role) = ''t''"
proof -
  have "(case ensureTenantRBAC copyWorld ''ns'' ''t'' demoCSVObject (copyRef leftCopy ''uid'') of
      (err, eff) \<Rightarrow> (err, list_all (\<lambda>e. case e of createTenantRole r \<Rightarrow> True | _ \<Rightarrow> False) eff)) = (None, True)" by code_simp
  then obtain eff where e: "ensureTenantRBAC copyWorld ''ns'' ''t'' demoCSVObject (copyRef leftCopy ''uid'') = (None, eff)"
    "list_all (\<lambda>e. case e of createTenantRole r \<Rightarrow> True | _ \<Rightarrow> False) eff" by (auto split: prod.splits)
  have l: "ownedRoles (cw_req copyWorld) ''ns'' demoCSVObject = Inr [demoRole]" "ownedBindings (cw_req copyWorld) ns x = Inr []" for ns x
    by (simp_all add: ownedRoles_def ownedBindings_def demoCopies_def demoReqWorld_def demoRole_def newObject_def selects_def OwnerLabel_def)
  have "IsOwnedBy (ro_Meta demoRole) demoCSVObject" "ro_Rules demoRole = [podReader]" by code_simp+
  with tenant_rbac_mirrors [OF e(1) _ l(1) l(2) l(2)] obtain role where
    "createTenantRole role \<in> set eff \<or> updateTenantRole role \<in> set eff" "ro_Rules role = [podReader]" "Obj_Namespace (ro_Meta role) = ''t''" by auto
  with e show ?thesis by (auto simp: list_all_iff)
qed

definition demoConfig :: config_world where
  "demoConfig = \<lparr>fw_groups = Inr [(demoGroup UpgradeStrategyDefault)\<lparr>og_StatusNamespaces := [[]]\<rparr>], fw_copies = Inr [leftCopy],
     fw_csvs = (\<lambda>ns. Inr [demoVersion ''a.v1'' CSVPhaseSucceeded []]), fw_namespaces = Inr [], fw_protected = [''ns'', ''u''],
     fw_condition = None, fw_updateStatus = (\<lambda>_. None)\<rparr>"

lemma protected_home_unsettled_witness:
  "syncOLMConfig demoConfig (Some True) = (None, [requeueVersion ''ns'' ''a.v1'', writeCondition (getCopiedCSVsCondition False True)])"
proof -
  let ?og = "(demoGroup UpgradeStrategyDefault)\<lparr>og_StatusNamespaces := [[]]\<rparr>"
  have "C_Namespace leftCopy = ''u''" by code_simp
  moreover have "allNamespaceOperatorGroups demoConfig = Inr [?og]"
    by (simp add: allNamespaceOperatorGroups_def demoConfig_def NewNamespaceSet_def)
  ultimately show ?thesis
    using protected_home_unsettled [of demoConfig ?og "[leftCopy]" "demoVersion ''a.v1'' CSVPhaseSucceeded []" "[]"]
    by (simp add: demoConfig_def demoGroup_def demoVersion_def)
qed

end
