(* ===== verification/Group_Controller.thy ===== *)
theory Group_Controller
  imports Copied_Versions
begin

text \<open>
  The controller of operator groups, \<open>operators/olm/operatorgroup.go\<close>: target namespaces, the
  annotations of members, provided APIs and the cluster roles of a group; the service account
  of a group (\<open>lib/scoped/syncer.go\<close>, \<open>querier.go\<close>, \<open>attenuator.go\<close>); and the labels of
  namespaces (\<open>operators/olm/operator.go\<close>). Reads are the fields of \<open>group_world\<close>, writes that
  succeed a list of effects.
\<close>

section \<open>Groups and their world\<close>

text \<open>A selector of namespaces as the code tells them apart: one that does not parse, one that
  selects nothing in particular (nil or empty), and any other.\<close>

datatype nsSelector = badSelector string | noSelector | labelSelector string

text \<open>Conditions are pairs of a type and its reason and message, all of status true.\<close>

record GroupObject = Group +
  gp_UID :: string
  gp_TargetNamespaces :: "string list"
  gp_Selector :: nsSelector
  gp_ServiceAccountName :: string
  gp_ServiceAccountRef :: "string option"
  gp_Conditions :: "(string \<times> string \<times> string) list"
  gp_LastUpdated :: "nat option"

definition asGroup :: "GroupObject \<Rightarrow> Group" where
  "asGroup op = Group.truncate op"

record clusterRoleObject =
  cl_Meta :: Object
  cl_Rules :: "PolicyRule list"
  cl_Aggregation :: "string list option"

datatype group_effect = writeGroupStatus GroupObject | writeGroup GroupObject | writeCSVStatus CSV | writeCSV CSV
  | queueCSV string string | queueNamespace string | createClusterRole clusterRoleObject | updateClusterRole clusterRoleObject
  | deleteClusterRole string | labelServiceAccount string | createClusterBinding bindingObject

record group_world =
  gw_now :: nat
  gw_groups :: "string + GroupObject list"
  gw_updateStatus :: "GroupObject \<Rightarrow> update_result"
  gw_updateGroup :: "GroupObject \<Rightarrow> update_result"
  gw_serviceAccount :: "string \<Rightarrow> string lookup"
  gw_labelServiceAccount :: "string \<Rightarrow> string option"
  gw_csvs :: "string + CSV list"
  gw_members :: "string + CSV list"
  gw_getCSV :: "string \<Rightarrow> string \<Rightarrow> CSV lookup"
  gw_deleting :: "CSV \<Rightarrow> bool"
  gw_updateCSV :: "CSV \<Rightarrow> update_result"
  gw_updateCSVStatus :: "CSV \<Rightarrow> string option"
  gw_requeueCSV :: "string \<Rightarrow> string \<Rightarrow> string option"
  gw_selected :: "string \<Rightarrow> string + string list"
  gw_namespaces :: "string + string list"
  gw_order :: "string list \<Rightarrow> string list"
  gw_apiOrder :: "APIKey list \<Rightarrow> APIKey list"
  gw_sum224 :: "string \<Rightarrow> nat"
  gw_clusterRole :: "string \<Rightarrow> clusterRoleObject lookup"
  gw_createClusterRole :: "clusterRoleObject \<Rightarrow> string option"
  gw_updateClusterRole :: "clusterRoleObject \<Rightarrow> string option"
  gw_clusterBinding :: "string \<Rightarrow> bindingObject lookup"
  gw_createClusterBinding :: "bindingObject \<Rightarrow> string option"

text \<open>Writes that are only logged when they fail, and writes whose failure ends the handler, unless
  the object is gone.\<close>

definition tryStatus :: "group_world \<Rightarrow> GroupObject \<Rightarrow> group_effect list" where
  "tryStatus W og = (case gw_updateStatus W og of updated \<Rightarrow> [writeGroupStatus og] | _ \<Rightarrow> [])"

section \<open>Several groups in a namespace\<close>

definition MultipleOperatorGroup :: string where
  "MultipleOperatorGroup = ''MultipleOperatorGroup''"

definition multipleGroups :: "string \<times> string" where
  "multipleGroups = (''MultipleOperatorGroupsFound'', ''Multiple OperatorGroup found in the same namespace'')"

definition setCondition :: "string \<Rightarrow> string \<times> string \<Rightarrow> GroupObject \<Rightarrow> GroupObject" where
  "setCondition t c og = og\<lparr>gp_Conditions := AList.update t c (gp_Conditions og)\<rparr>"

definition removeCondition :: "string \<Rightarrow> GroupObject \<Rightarrow> GroupObject" where
  "removeCondition t og = og\<lparr>gp_Conditions := filter (\<lambda>(k, v). k \<noteq> t) (gp_Conditions og)\<rparr>"

fun markGroups :: "group_world \<Rightarrow> GroupObject list \<Rightarrow> GroupObject \<Rightarrow> GroupObject \<times> group_effect list" where
  "markGroups W [] op = (op, [])"
| "markGroups W (og # groups) op =
     (if map_of (gp_Conditions og) MultipleOperatorGroup \<noteq> None then markGroups W groups op
      else let op1 = (if og_Name og = og_Name op then setCondition MultipleOperatorGroup multipleGroups op else op)
        in (case markGroups W groups op1 of (op2, eff) \<Rightarrow> (op2, tryStatus W (setCondition MultipleOperatorGroup multipleGroups og) @ eff)))"

definition checkMultiple :: "group_world \<Rightarrow> GroupObject \<Rightarrow> GroupObject \<times> group_effect list" where
  "checkMultiple W op =
     (case (case gw_groups W of Inl e \<Rightarrow> [] | Inr groups \<Rightarrow> groups) of
        [] \<Rightarrow> (op, [])
      | [og] \<Rightarrow>
          if map_of (gp_Conditions og) MultipleOperatorGroup \<noteq> None
          then ((if og_Name og = og_Name op then removeCondition MultipleOperatorGroup op else op), tryStatus W (removeCondition MultipleOperatorGroup og))
          else (op, [])
      | groups \<Rightarrow> markGroups W groups op)"

section \<open>The service account of a group\<close>

definition ServiceAccountCondition :: string where
  "ServiceAccountCondition = ''OperatorGroupServiceAccount''"

definition updateRef :: "group_world \<Rightarrow> GroupObject \<Rightarrow> string option \<Rightarrow> string + GroupObject \<times> group_effect list" where
  "updateRef W op ref =
     (let op1 = op\<lparr>gp_ServiceAccountRef := ref, gp_LastUpdated := Some (gw_now W)\<rparr>
      in case gw_updateStatus W op1 of
           updated \<Rightarrow> Inr (op1, [writeGroupStatus op1])
         | updateNotFound \<Rightarrow> Inl ''not found''
         | updateFailed e \<Rightarrow> Inl e)"

text \<open>The result is the group with its status, or an error, and the writes.\<close>

definition SyncOperatorGroup :: "group_world \<Rightarrow> GroupObject \<Rightarrow> (string + GroupObject) \<times> group_effect list" where
  "SyncOperatorGroup W op =
     (let sa = gp_ServiceAccountName op
      in if sa = [] then
           (if gp_ServiceAccountRef op = None then (Inr op, [])
            else case updateRef W (removeCondition ServiceAccountCondition op) None of
              Inl e \<Rightarrow> (Inl (''failed to reset status.serviceAccount, sa='' @ sa @ '' '' @ e), [])
            | Inr (op1, eff) \<Rightarrow> (Inr op1, eff))
         else case gw_serviceAccount W sa of
           notFound \<Rightarrow>
             (Inl (''failed to get service account, sa='' @ sa @ '' not found''),
              (case updateRef W (setCondition ServiceAccountCondition (''ServiceAccountNotFound'', ''ServiceAccount '' @ sa @ '' not found'') op) None of
                 Inl e \<Rightarrow> [] | Inr (_, eff) \<Rightarrow> eff))
         | lookupError e \<Rightarrow> (Inl (''failed to get service account, sa='' @ sa @ '' '' @ e), [])
         | present ref \<Rightarrow>
             (case gw_labelServiceAccount W sa of
                Some e \<Rightarrow> (Inl (''failed to apply labels[olm.managed]=true to serviceaccount '' @ og_Namespace op @ ''/'' @ sa @ '': '' @ e), [])
              | None \<Rightarrow>
                  if gp_ServiceAccountRef op = Some ref then (Inr op, [labelServiceAccount sa])
                  else case updateRef W (removeCondition ServiceAccountCondition op) (Some ref) of
                    Inl e \<Rightarrow> (Inl (''failed to set status.serviceAccount, sa='' @ sa @ '' '' @ e), [labelServiceAccount sa])
                  | Inr (op1, eff) \<Rightarrow> (Inr op1, labelServiceAccount sa # eff)))"

text \<open>Which service account the clients for a namespace are scoped to: an error, none, or one.\<close>

definition queryServiceAccountFromNamespace :: "string + GroupObject list \<Rightarrow> string + string option" where
  "queryServiceAccountFromNamespace found_groups = bind_err found_groups (\<lambda>items.
     case filter (\<lambda>og. og_StatusNamespaces og \<noteq> []) items of
       [] \<Rightarrow> Inl ''no operator group found that is managing this namespace''
     | [grp] \<Rightarrow>
         if gp_ServiceAccountName grp = [] then Inr None
         else (case gp_ServiceAccountRef grp of
                 None \<Rightarrow> Inl (''please make sure the service account exists. sa='' @ gp_ServiceAccountName grp @ '' operatorgroup='' @ og_Namespace grp @ ''/'' @ og_Name grp)
               | Some ref \<Rightarrow> Inr (Some ref))
     | groups \<Rightarrow> Inl (''more than one operator group(s) are managing this namespace count='' @ showNat (length groups)))"

datatype client_scope = ownIdentity | asServiceAccount string

definition AttenuateToServiceAccount :: "(string \<Rightarrow> string + string) \<Rightarrow> string + string option \<Rightarrow> string + client_scope" where
  "AttenuateToServiceAccount token querier = bind_err querier (\<lambda>ref.
     case ref of None \<Rightarrow> Inr ownIdentity | Some ref \<Rightarrow> bind_err (token ref) (\<lambda>t. Inr (asServiceAccount t)))"

section \<open>Target namespaces\<close>

definition getOperatorGroupTargets :: "group_world \<Rightarrow> GroupObject \<Rightarrow> string + string list" where
  "getOperatorGroupTargets W op =
     (case gp_Selector op of
        badSelector e \<Rightarrow> Inl e
      | selector \<Rightarrow>
          if gp_TargetNamespaces op \<noteq> [] then
            (if [] \<in> set (gp_TargetNamespaces op)
             then Inl (''TargetNamespaces cannot contain NamespaceAll: ['' @ Join (gp_TargetNamespaces op) '' '' @ '']'')
             else Inr (fold List.insert (gp_TargetNamespaces op) []))
          else (case selector of
                  labelSelector s \<Rightarrow> bind_err (gw_selected W s) (\<lambda>matched. Inr (fold List.insert matched []))
                | _ \<Rightarrow> Inr [[]]))"

definition updateNamespaceList :: "group_world \<Rightarrow> GroupObject \<Rightarrow> string + string list" where
  "updateNamespaceList W op = bind_err (getOperatorGroupTargets W op) (\<lambda>namespaceSet. Inr (gw_order W namespaceSet))"

definition namespacesChanged :: "string list \<Rightarrow> string list \<Rightarrow> bool" where
  "namespacesChanged clusterNamespaces statusNamespaces \<longleftrightarrow>
     length clusterNamespaces \<noteq> length statusNamespaces \<or> list_ex (\<lambda>v. v \<notin> set clusterNamespaces) statusNamespaces"

definition namespacesAddedOrRemoved :: "group_world \<Rightarrow> string list \<Rightarrow> string list \<Rightarrow> string list" where
  "namespacesAddedOrRemoved W a b =
     (let check = fold List.insert a [];
          check = fold (\<lambda>namespace check. if namespace \<notin> set check then List.insert namespace check else removeAll namespace check) b check
      in gw_order W (removeAll [] check))"

section \<open>Members of a group\<close>

definition requeueEach :: "group_world \<Rightarrow> string list \<Rightarrow> string \<Rightarrow> group_effect list" where
  "requeueEach W namespaces name =
     concat (map (\<lambda>ns. case gw_requeueCSV W ns name of None \<Rightarrow> [queueCSV ns name] | Some e \<Rightarrow> []) namespaces)"

text \<open>The namespaces are only used when the list of namespaces fails, and a failed list is empty.\<close>

definition requeueMember :: "group_world \<Rightarrow> NamespaceSet \<Rightarrow> NamespaceSet \<Rightarrow> CSV \<Rightarrow> group_effect list" where
  "requeueMember W original targets csv =
     (let requeueNamespaces = NS_Union original targets
      in (if \<not> IsAllNamespaces requeueNamespaces then requeueEach W requeueNamespaces (C_Name csv) else [])
         @ (case gw_namespaces W of Inl e \<Rightarrow> requeueEach W [] (C_Name csv) | Inr namespaces \<Rightarrow> []))"

fun annotateLoop :: "group_world \<Rightarrow> Group \<Rightarrow> NamespaceSet \<Rightarrow> CSV list \<Rightarrow> string list \<times> group_effect list" where
  "annotateLoop W grp targets [] = ([], [])"
| "annotateLoop W grp targets (csv # csvs) =
     (case annotateLoop W grp targets csvs of
        (errs', eff) \<Rightarrow>
          if IsCopied csv then (errs', eff)
          else let original = NewNamespaceSetFromString (recorded OperatorGroupTargetsAnnotationKey csv);
                   csv1 = setOperatorGroupAnnotations csv grp True
               in if operatorGroupAnnotationsDiffer csv grp then
                    (case gw_updateCSV W csv1 of
                       updateFailed e \<Rightarrow> (e # errs', eff)
                     | updated \<Rightarrow> (errs', writeCSV csv1 # requeueMember W original targets csv @ eff)
                     | updateNotFound \<Rightarrow> (errs', requeueMember W original targets csv @ eff))
                  else (errs', requeueMember W original targets csv @ eff))"

definition annotateCSVs :: "group_world \<Rightarrow> Group \<Rightarrow> string list \<Rightarrow> string option \<times> group_effect list" where
  "annotateCSVs W grp targetNamespaces =
     (case annotateLoop W grp (NewNamespaceSet targetNamespaces) (csvSet_with (gw_members W) None) of
        (updateErrs, eff) \<Rightarrow> (aggregateText updateErrs, eff))"

definition providedAPIsFromCSVs :: "group_world \<Rightarrow> (APIKey \<times> CSV) list" where
  "providedAPIsFromCSVs W =
     fold (\<lambda>csv m. if IsCopied csv then m
        else case apiSurfaceOfCSV csv of
          Inl e \<Rightarrow> m
        | Inr surface \<Rightarrow> fold (\<lambda>api. AList.update api csv) (APISet_StripPlural (os_ProvidedAPIs surface)) m)
       (csvSet_with (gw_members W) None) []"

text \<open>\<open>None\<close> if a member that is still to be installed stops the pruning.\<close>

fun prunedAPIs :: "group_world \<Rightarrow> APISet \<Rightarrow> (APIKey \<times> CSV) list \<Rightarrow> APISet \<Rightarrow> APISet option" where
  "prunedAPIs W groupProvidedAPIs [] intersection = Some intersection"
| "prunedAPIs W groupProvidedAPIs ((api, csv) # provided) intersection =
     (if api \<in> set groupProvidedAPIs then prunedAPIs W groupProvidedAPIs provided (List.insert api intersection)
      else if gw_getCSV W (C_Namespace csv) (C_Name csv) = notFound then prunedAPIs W groupProvidedAPIs provided intersection
      else if \<not> gw_deleting W csv \<and> (C_Phase csv = CSVPhaseNone \<or> C_Phase csv = CSVPhasePending) then None
      else prunedAPIs W groupProvidedAPIs provided intersection)"

definition pruneProvidedAPIs :: "group_world \<Rightarrow> GroupObject \<Rightarrow> APISet \<Rightarrow> (APIKey \<times> CSV) list \<Rightarrow> group_effect list" where
  "pruneProvidedAPIs W grp groupProvidedAPIs provided =
     (if gr_StaticProvidedAPIs grp then []
      else case prunedAPIs W groupProvidedAPIs provided [] of
        None \<Rightarrow> []
      | Some intersection \<Rightarrow>
          if length intersection < length groupProvidedAPIs then
            let grp1 = grp\<lparr>og_ProvidedAPIs := APISet_String intersection\<rparr>
            in (case gw_updateGroup W grp1 of updated \<Rightarrow> [writeGroup grp1] | _ \<Rightarrow> [])
          else [])"

definition findCSVsThatProvideAnyOf :: "group_world \<Rightarrow> APISet \<Rightarrow> string + CSV list" where
  "findCSVsThatProvideAnyOf W provide = bind_err (gw_csvs W) (\<lambda>csvs.
     Inr (filter (\<lambda>csv. \<not> IsCopied csv \<and> (case apiSurfaceOfCSV csv of Inl e \<Rightarrow> False
       | Inr surface \<Rightarrow> length (APISet_Intersection (APISet_StripPlural (os_ProvidedAPIs surface)) [provide]) > 0)) csvs))"

section \<open>Cluster roles\<close>

definition kubeResourceNameLimit :: nat where
  "kubeResourceNameLimit = 253"

definition Suffices :: "string list" where
  "Suffices = [''admin'', ''edit'', ''view'']"

definition VerbsForSuffix :: "(string \<times> string list) list" where
  "VerbsForSuffix = [(''admin'', [''*'']), (''edit'', [''create'', ''update'', ''patch'', ''delete'']), (''view'', [''get'', ''list'', ''watch''])]"

definition aggregationLabelFromAPIKey :: "APIKey \<Rightarrow> string \<Rightarrow> string" where
  "aggregationLabelFromAPIKey k suf = ''olm.opgroup.permissions/aggregate-to-'' @ APIKeyToGVKHash k @ ''-'' @ suf"

definition getClusterRoleName :: "group_world \<Rightarrow> string \<Rightarrow> string \<Rightarrow> string \<Rightarrow> string" where
  "getClusterRoleName W namespace name roleType =
     (let roleSuffix = toBase62 (gw_sum224 W (namespace @ ''/'' @ name @ ''/'' @ roleType));
          nameLimit = kubeResourceNameLimit - length ''olm.og..-'' - length roleType - length roleSuffix
      in ''olm.og.'' @ (if length name < nameLimit then name else take nameLimit name) @ ''.'' @ roleType @ ''-'' @ roleSuffix)"

definition getClusterRoleAggregationRule :: "group_world \<Rightarrow> APISet \<Rightarrow> string \<Rightarrow> string list option" where
  "getClusterRoleAggregationRule W apis suf =
     (let selectors = map (\<lambda>api. aggregationLabelFromAPIKey api suf) (gw_apiOrder W apis)
      in if length selectors > 0 then Some selectors else None)"

definition groupMeta :: "GroupObject \<Rightarrow> Object" where
  "groupMeta op = (newObject T_OperatorGroup (og_Name op) (og_Namespace op) [] None)\<lparr>Obj_UID := gp_UID op\<rparr>"

definition labelsOf :: "Object \<Rightarrow> (string \<times> string) list" where
  "labelsOf obj = (case Obj_Labels obj of None \<Rightarrow> [] | Some ls \<Rightarrow> ls)"

text \<open>A failed update of an existing role is logged, and the error that is returned is that of the
  lookup before, which is nil.\<close>

definition ensureOpGroupClusterRole :: "group_world \<Rightarrow> GroupObject \<Rightarrow> string \<Rightarrow> APISet \<Rightarrow> string option \<times> group_effect list" where
  "ensureOpGroupClusterRole W op suf apis =
     (let name = getClusterRoleName W (og_Namespace op) (og_Name op) suf;
          aggregationRule = getClusterRoleAggregationRule W apis suf
      in case gw_clusterRole W name of
           lookupError e \<Rightarrow> (Some e, [])
         | present existing \<Rightarrow>
             (case AddOwnerLabels (cl_Meta existing) (groupMeta op) of
                None \<Rightarrow> (Some gvkError, [])
              | Some (meta, _) \<Rightarrow>
                  if labels_Equals (labelsOf (cl_Meta existing)) (labelsOf meta) \<and> cl_Aggregation existing = aggregationRule then (None, [])
                  else let cp = existing\<lparr>cl_Meta := meta, cl_Aggregation := aggregationRule\<rparr>
                    in (None, case gw_updateClusterRole W cp of None \<Rightarrow> [updateClusterRole cp] | Some e \<Rightarrow> []))
         | notFound \<Rightarrow>
             (case AddOwnerLabels (newObject T_ClusterRole name [] [] None) (groupMeta op) of
                None \<Rightarrow> (Some gvkError, [])
              | Some (meta, _) \<Rightarrow>
                  let role = \<lparr>cl_Meta = meta\<lparr>Obj_Labels := Some (AList.update ''olm.managed'' ''true'' (labelsOf meta))\<rparr>,
                        cl_Rules = [], cl_Aggregation = aggregationRule\<rparr>
                  in (case gw_createClusterRole W role of Some e \<Rightarrow> (Some e, []) | None \<Rightarrow> (None, [createClusterRole role]))))"

fun ensureAll :: "('a \<Rightarrow> string option \<times> 'e list) \<Rightarrow> 'a list \<Rightarrow> string option \<times> 'e list" where
  "ensureAll f [] = (None, [])"
| "ensureAll f (x # xs) = andThen (f x) (ensureAll f xs)"

definition ensureOpGroupClusterRoles :: "group_world \<Rightarrow> GroupObject \<Rightarrow> APISet \<Rightarrow> string option \<times> group_effect list" where
  "ensureOpGroupClusterRoles W op apis = ensureAll (\<lambda>suf. ensureOpGroupClusterRole W op suf apis) Suffices"

definition ensureProvidedAPIClusterRole :: "group_world \<Rightarrow> string \<Rightarrow> string \<Rightarrow> string list \<Rightarrow> string \<Rightarrow> string \<Rightarrow> string list \<Rightarrow> Object \<Rightarrow> APIKey
    \<Rightarrow> string option \<times> group_effect list" where
  "ensureProvidedAPIClusterRole W namePrefix suf verbs grp resource resourceNames api key =
     (let labels = AList.update ''olm.managed'' ''true'' (AList.update (aggregationLabelFromAPIKey key suf) ''true''
            [(''rbac.authorization.k8s.io/aggregate-to-'' @ suf, ''true'')]);
          clusterRole = \<lparr>cl_Meta = newObject T_ClusterRole (namePrefix @ suf) [] [NonBlockingOwner api] (Some labels),
            cl_Rules = [\<lparr>Verbs = verbs, APIGroups = [grp], Resources = [resource], ResourceNames = resourceNames, NonResourceURLs = []\<rparr>],
            cl_Aggregation = None\<rparr>;
          finish = (\<lambda>existing eff.
            if cl_Rules existing = cl_Rules clusterRole \<and> IsOwnedBy (cl_Meta existing) api \<and> labels_Equals (labelsOf (cl_Meta existing)) labels
            then (None, eff)
            else case gw_updateClusterRole W clusterRole of Some e \<Rightarrow> (Some e, eff) | None \<Rightarrow> (None, eff @ [updateClusterRole clusterRole]))
      in case gw_clusterRole W (namePrefix @ suf) of
           lookupError e \<Rightarrow> (Some e, [])
         | notFound \<Rightarrow> (case gw_createClusterRole W clusterRole of Some e \<Rightarrow> (Some e, []) | None \<Rightarrow> finish clusterRole [createClusterRole clusterRole])
         | present existing \<Rightarrow> finish existing [])"

text \<open>The CRD or API service is looked up by its name and is the owner of the roles.\<close>

definition rolesForCRD :: "group_world \<Rightarrow> (string \<Rightarrow> string + Object) \<Rightarrow> crdDesc \<Rightarrow> string option \<times> group_effect list" where
  "rolesForCRD W getCRD desc =
     (case getCRD (cd_Name desc) of
        Inl e \<Rightarrow> (Some (''crd '' @ [CHR 0x22] @ cd_Name desc @ [CHR 0x22] @ '' not found: '' @ e), [])
      | Inr crd \<Rightarrow>
          (case SplitN2 CHR ''.'' (cd_Name desc) of
             [plural, grp] \<Rightarrow>
               let namePrefix = cd_Name desc @ ''-'' @ cd_Version desc @ ''-'';
                   key = \<lparr>Key_Group = grp, Key_Version = cd_Version desc, Key_Kind = cd_Kind desc, Key_Plural = plural\<rparr>
               in andThen (ensureAll (\<lambda>(suf, verbs). ensureProvidedAPIClusterRole W namePrefix suf verbs grp plural [] crd key) VerbsForSuffix)
                    (ensureProvidedAPIClusterRole W (namePrefix @ ''crd'') ''view'' [''get''] ''apiextensions.k8s.io'' ''customresourcedefinitions''
                       [cd_Name desc] crd key)
           | parts' \<Rightarrow> (Some (''invalid parsing of name '' @ [CHR 0x27] @ cd_Name desc @ [CHR 0x27] @ '', got ['' @ Join parts' '' '' @ '']''), [])))"

definition rolesForAPIService :: "group_world \<Rightarrow> (string \<Rightarrow> string + Object) \<Rightarrow> apiDesc \<Rightarrow> string option \<times> group_effect list" where
  "rolesForAPIService W getService desc =
     (case getService (apiName desc) of
        Inl e \<Rightarrow> (Some (''apiservice '' @ [CHR 0x22] @ apiName desc @ [CHR 0x22] @ '' not found: '' @ e), [])
      | Inr svc \<Rightarrow>
          let namePrefix = ad_Name desc @ ''-'' @ ad_Version desc @ ''-'';
              key = \<lparr>Key_Group = ad_Group desc, Key_Version = ad_Version desc, Key_Kind = ad_Kind desc, Key_Plural = []\<rparr>
          in ensureAll (\<lambda>(suf, verbs). ensureProvidedAPIClusterRole W namePrefix suf verbs (ad_Group desc) (ad_Name desc) [] svc key) VerbsForSuffix)"

definition ensureClusterRolesForCSV :: "group_world \<Rightarrow> (string \<Rightarrow> string + Object) \<Rightarrow> (string \<Rightarrow> string + Object) \<Rightarrow> CSV \<Rightarrow> string option \<times> group_effect list" where
  "ensureClusterRolesForCSV W getCRD getService csv =
     andThen (ensureAll (rolesForCRD W getCRD) (csv_OwnedCRDs csv)) (ensureAll (rolesForAPIService W getService) (csv_OwnedAPIServices csv))"

section \<open>Operators of all namespaces\<close>

definition liftRole :: "roleObject \<Rightarrow> clusterRoleObject" where
  "liftRole r = \<lparr>cl_Meta = newObject T_ClusterRole (Obj_Name (ro_Meta r)) [] [] (Obj_Labels (ro_Meta r)),
     cl_Rules = ro_Rules r @ [\<lparr>Verbs = [''get'', ''list'', ''watch''], APIGroups = [[]], Resources = [''namespaces''], ResourceNames = [], NonResourceURLs = []\<rparr>],
     cl_Aggregation = None\<rparr>"

definition liftBinding :: "bindingObject \<Rightarrow> bindingObject" where
  "liftBinding b = \<lparr>bo_Meta = newObject T_ClusterRoleBinding (Obj_Name (bo_Meta b)) [] [] (Obj_Labels (bo_Meta b)),
     bo_RoleRef = \<lparr>RoleRef_Kind = ''ClusterRole'', RoleRef_Name = RoleRef_Name (bo_RoleRef b)\<rparr>, bo_Subjects = bo_Subjects b\<rparr>"

definition ensureLifted :: "('a \<Rightarrow> 'c lookup) \<Rightarrow> ('b \<Rightarrow> string option) \<Rightarrow> ('b \<Rightarrow> group_effect) \<Rightarrow> ('a \<Rightarrow> 'b) \<Rightarrow> 'a \<Rightarrow> string option \<times> group_effect list" where
  "ensureLifted get create wrote lift x =
     (case get x of
        present y \<Rightarrow> (None, [])
      | _ \<Rightarrow> (case create (lift x) of Some e \<Rightarrow> (Some e, []) | None \<Rightarrow> (None, [wrote (lift x)])))"

definition ensureSingletonRBAC :: "group_world \<Rightarrow> 'v req_world \<Rightarrow> string \<Rightarrow> Object \<Rightarrow> string option \<times> group_effect list" where
  "ensureSingletonRBAC W R operatorNamespace csv =
     (case ownedRoles R operatorNamespace csv of
        Inl e \<Rightarrow> (Some e, [])
      | Inr roles \<Rightarrow>
          if roles = [] then (Some ''no owned roles found'', [])
          else andThen (ensureAll (ensureLifted (\<lambda>r. gw_clusterRole W (Obj_Name (ro_Meta r))) (gw_createClusterRole W) createClusterRole liftRole) roles)
            (case ownedBindings R operatorNamespace csv of
               Inl e \<Rightarrow> (Some e, [])
             | Inr bindings \<Rightarrow>
                 if bindings = [] then (Some ''no owned rolebindings found'', [])
                 else ensureAll (ensureLifted (\<lambda>b. gw_clusterBinding W (Obj_Name (bo_Meta b))) (gw_createClusterBinding W) createClusterBinding liftBinding) bindings))"

definition ensureRBACInTargetNamespace :: "group_world \<Rightarrow> 'v req_world \<Rightarrow> requirements \<Rightarrow> Group \<Rightarrow> string option \<times> group_effect list" where
  "ensureRBACInTargetNamespace W R r operatorGroup =
     (let targetNamespaces = og_StatusNamespaces operatorGroup
      in if targetNamespaces = [] then (None, [])
         else case UnmarshalStrategy (rs_InstallStrategy r) of
           Inl e \<Rightarrow> (Some e, [])
         | Inr s \<Rightarrow>
             if length targetNamespaces = 1 \<and> targetNamespaces ! 0 = [] then
               (case permissionStatus R r [] (s\<lparr>is_ClusterPermissions := is_ClusterPermissions s @ is_Permissions s, is_Permissions := []\<rparr>) of
                  Inl e \<Rightarrow> (Some e, [])
                | Inr (permMet, _) \<Rightarrow> if permMet then (None, []) else ensureSingletonRBAC W R (og_Namespace operatorGroup) (rs_Object r))
             else (None, []))"

section \<open>The handler\<close>

text \<open>Failed members start again when the group has a service account: the two references are
  compared as pointers, one of them to a fresh copy, so they are equal only if both are nil.\<close>

fun restartFailed :: "group_world \<Rightarrow> GroupObject \<Rightarrow> CSV list \<Rightarrow> string option \<times> group_effect list" where
  "restartFailed W op [] = (None, [])"
| "restartFailed W op (csv # csvs) =
     (if map_of (csv_Annotations csv) OperatorGroupAnnotationKey \<noteq> Some (og_Name op) \<or> csv_Reason csv \<noteq> CSVReasonComponentFailedNoRetry
      then restartFailed W op csvs
      else let csv1 = SetPhase CSVPhasePending CSVReasonDetectedClusterChange ''Cluster resources changed state'' (gw_now W) csv
        in case gw_updateCSVStatus W csv1 of
             Some e \<Rightarrow> (Some e, [])
           | None \<Rightarrow>
               (case gw_requeueCSV W (C_Namespace csv) (C_Name csv) of
                  Some e \<Rightarrow> (Some e, [writeCSVStatus csv1])
                | None \<Rightarrow> andThen (None, [writeCSVStatus csv1, queueCSV (C_Namespace csv) (C_Name csv)]) (restartFailed W op csvs)))"

definition syncAccount :: "group_world \<Rightarrow> GroupObject \<Rightarrow> (string + GroupObject) \<times> group_effect list" where
  "syncAccount W op =
     (let previousRef = gp_ServiceAccountRef op
      in case SyncOperatorGroup W op of
           (Inl e, eff) \<Rightarrow> (Inl e, eff)
         | (Inr op1, eff) \<Rightarrow>
             if gp_ServiceAccountRef op1 = None \<and> previousRef = None then (Inr op1, eff)
             else (case gw_csvs W of
                     Inl e \<Rightarrow> (Inl e, eff)
                   | Inr csvs \<Rightarrow> (case restartFailed W op1 csvs of (Some e, eff') \<Rightarrow> (Inl e, eff @ eff') | (None, eff') \<Rightarrow> (Inr op1, eff @ eff'))))"

definition syncTargets :: "group_world \<Rightarrow> GroupObject \<Rightarrow> string option \<times> group_effect list" where
  "syncTargets W op =
     (case updateNamespaceList W op of
        Inl e \<Rightarrow> (Some e, [])
      | Inr targetNamespaces \<Rightarrow>
          if namespacesChanged targetNamespaces (og_StatusNamespaces op) then
            let outOfSyncNamespaces = namespacesAddedOrRemoved W (og_StatusNamespaces op) targetNamespaces;
                op1 = op\<lparr>og_StatusNamespaces := targetNamespaces, gp_LastUpdated := Some (gw_now W), gp_ServiceAccountRef := None\<rparr>
            in (case gw_updateStatus W op1 of
                  updateFailed e \<Rightarrow> (Some e, [])
                | updated \<Rightarrow> (None, writeGroupStatus op1 # map queueNamespace outOfSyncNamespaces)
                | updateNotFound \<Rightarrow> (None, map queueNamespace outOfSyncNamespaces))
          else andThen (annotateCSVs W (asGroup op) targetNamespaces)
            (let groupProvidedAPIs = g_providedAPIs (NewOperatorGroup (og_resource.truncate op));
                 provided = providedAPIsFromCSVs W;
                 providedAPIsForGroup = fold List.insert groupProvidedAPIs (map fst provided)
             in andThen (ensureOpGroupClusterRoles W op providedAPIsForGroup)
                  (None, (case findCSVsThatProvideAnyOf W providedAPIsForGroup of
                            Inl e \<Rightarrow> [] | Inr csvs \<Rightarrow> concat (map (\<lambda>csv. requeueEach W [C_Namespace csv] (C_Name csv)) csvs))
                         @ pruneProvidedAPIs W op groupProvidedAPIs provided)))"

definition syncOperatorGroups :: "group_world \<Rightarrow> GroupObject \<Rightarrow> string option \<times> group_effect list" where
  "syncOperatorGroups W op =
     (case checkMultiple W op of
        (op1, eff1) \<Rightarrow>
          (case syncAccount W op1 of
             (Inl e, eff2) \<Rightarrow> (Some e, eff1 @ eff2)
           | (Inr op2, eff2) \<Rightarrow> andThen (None, eff1 @ eff2) (syncTargets W op2)))"

definition operatorGroupDeleted :: "string + clusterRoleObject list \<Rightarrow> (string \<Rightarrow> string option) \<Rightarrow> GroupObject \<Rightarrow> group_effect list" where
  "operatorGroupDeleted clusterRoles del op =
     (case clusterRoles of
        Inl e \<Rightarrow> []
      | Inr roles \<Rightarrow>
          concat (map (\<lambda>r. case del (Obj_Name (cl_Meta r)) of None \<Rightarrow> [deleteClusterRole (Obj_Name (cl_Meta r))] | Some e \<Rightarrow> [])
            (filter (\<lambda>r. selects (OwnerLabel (groupMeta op) ''OperatorGroup'') (cl_Meta r)) roles))
          @ map queueNamespace (og_StatusNamespaces op))"

section \<open>Labels of namespaces\<close>

definition OperatorGroupLabelPrefix :: string where
  "OperatorGroupLabelPrefix = ''olm.operatorgroup.uid/''"

definition OGLabelKeyAndValue :: "GroupObject \<Rightarrow> string + string \<times> string" where
  "OGLabelKeyAndValue op = (if gp_UID op = [] then Inl ''Missing UID'' else Inr (OperatorGroupLabelPrefix @ gp_UID op, []))"

definition IsOperatorGroupLabel :: "string \<Rightarrow> bool" where
  "IsOperatorGroupLabel label = HasPrefix label OperatorGroupLabelPrefix"

fun desiredGroupLabels :: "string \<Rightarrow> GroupObject list \<Rightarrow> (string \<times> string) list \<Rightarrow> string + (string \<times> string) list" where
  "desiredGroupLabels namespace [] labels = Inr labels"
| "desiredGroupLabels namespace (grp # groups) labels =
     (let namespaceSet = NewNamespaceSet (og_StatusNamespaces grp)
      in if NS_Contains namespaceSet namespace \<and> \<not> IsAllNamespaces namespaceSet
         then bind_err (OGLabelKeyAndValue grp) (\<lambda>(k, v). desiredGroupLabels namespace groups (AList.update k v labels))
         else desiredGroupLabels namespace groups labels)"

definition labelsChanged :: "(string \<times> string) list \<Rightarrow> (string \<times> string) list \<Rightarrow> bool" where
  "labelsChanged current desired \<longleftrightarrow>
     list_ex (\<lambda>(ke, ve). IsOperatorGroupLabel ke \<and> map_of desired ke \<noteq> Some ve) current
     \<or> list_ex (\<lambda>(kd, vd). map_of current kd \<noteq> Some vd) desired"

text \<open>The labels to be written, or \<open>None\<close> if they are as they should be.\<close>

definition syncNamespace :: "string + GroupObject list \<Rightarrow> string \<Rightarrow> (string \<times> string) list \<Rightarrow> string + (string \<times> string) list option" where
  "syncNamespace groups namespace labels =
     bind_err groups (\<lambda>operatorGroupList.
     bind_err (desiredGroupLabels namespace operatorGroupList []) (\<lambda>desired.
       if \<not> labelsChanged labels desired then Inr None
       else Inr (Some (fold (\<lambda>(k, v). AList.update k v) desired (filter (\<lambda>(k, v). \<not> IsOperatorGroupLabel k) labels)))))"

text \<open>The groups that are queued when a namespace comes or goes.\<close>

definition namespaceAddedOrRemoved :: "string + GroupObject list \<Rightarrow> (string \<Rightarrow> string \<Rightarrow> string option) \<Rightarrow> string \<Rightarrow> (string \<times> string) list" where
  "namespaceAddedOrRemoved groups requeue namespace =
     (case groups of
        Inl e \<Rightarrow> []
      | Inr operatorGroupList \<Rightarrow>
          map (\<lambda>g. (og_Namespace g, og_Name g))
            (filter (\<lambda>g. NS_Contains (NewNamespaceSet (og_StatusNamespaces g)) namespace \<and> requeue (og_Namespace g) (og_Name g) = None) operatorGroupList))"

section \<open>Names of cluster roles\<close>

text \<open>The name of the cluster role of a group is never longer than a name in Kubernetes may be,
  whatever the name of the group, and two groups or levels that get the same name have the same
  hash.\<close>

lemma getClusterRoleName_bounded:
  assumes "\<And>s. gw_sum224 W s < 2 ^ 224" "roleType \<in> set Suffices" "roleType' \<in> set Suffices"
  shows "length (getClusterRoleName W namespace name roleType) \<le> kubeResourceNameLimit
    \<and> (getClusterRoleName W namespace name roleType = getClusterRoleName W namespace' name' roleType'
        \<longrightarrow> roleType = roleType' \<and> gw_sum224 W (namespace @ ''/'' @ name @ ''/'' @ roleType) = gw_sum224 W (namespace' @ ''/'' @ name' @ ''/'' @ roleType'))"
proof (intro conjI impI)
  have t: "length roleType \<le> 5" "CHR ''-'' \<notin> set roleType" "CHR ''-'' \<notin> set roleType'" "CHR ''.'' \<notin> set roleType" "CHR ''.'' \<notin> set roleType'"
    using assms(2,3) by (auto simp: Suffices_def)
  show "length (getClusterRoleName W namespace name roleType) \<le> kubeResourceNameLimit"
    using sha224_length [OF assms(1), of "namespace @ ''/'' @ name @ ''/'' @ roleType"] t(1)
    by (auto simp: getClusterRoleName_def kubeResourceNameLimit_def Let_def)
  assume eq: "getClusterRoleName W namespace name roleType = getClusterRoleName W namespace' name' roleType'"
  let ?h = "\<lambda>ns n t. toBase62 (gw_sum224 W (ns @ ''/'' @ n @ ''/'' @ t))"
  have shape: "\<exists>a. getClusterRoleName W ns n t = (a @ CHR ''.'' # t) @ CHR ''-'' # ?h ns n t" for ns n t
    by (simp add: getClusterRoleName_def Let_def)
  obtain a b where ab: "getClusterRoleName W namespace name roleType = (a @ CHR ''.'' # roleType) @ CHR ''-'' # ?h namespace name roleType"
    "getClusterRoleName W namespace' name' roleType' = (b @ CHR ''.'' # roleType') @ CHR ''-'' # ?h namespace' name' roleType'"
    using shape by meson
  have h: "?h namespace name roleType = ?h namespace' name' roleType'"
    by (rule last_dash [where a = "a @ CHR ''.'' # roleType" and b = "b @ CHR ''.'' # roleType'"]) (use eq ab toBase62_plain in auto)
  then show "gw_sum224 W (namespace @ ''/'' @ name @ ''/'' @ roleType) = gw_sum224 W (namespace' @ ''/'' @ name' @ ''/'' @ roleType')"
    by (simp only: toBase62_inj)
  have "a @ CHR ''.'' # roleType = b @ CHR ''.'' # roleType'" using eq ab h by simp
  then have "rev roleType @ CHR ''.'' # rev a = rev roleType' @ CHR ''.'' # rev b" by (metis rev.simps(2) rev_append append.assoc append_Cons append_Nil)
  then have "takeWhile (\<lambda>c. c \<noteq> CHR ''.'') (rev roleType @ CHR ''.'' # rev a) = takeWhile (\<lambda>c. c \<noteq> CHR ''.'') (rev roleType' @ CHR ''.'' # rev b)" by simp
  moreover have "takeWhile (\<lambda>c. c \<noteq> CHR ''.'') (rev x) = rev x" if "CHR ''.'' \<notin> set x" for x
    using that by (auto simp: takeWhile_eq_all_conv)
  ultimately show "roleType = roleType'" using t(4,5) by (simp add: takeWhile_tail)
qed

section \<open>Which client a namespace gets\<close>

text \<open>C36. Clients for a namespace act with OLM's own identity only if the group that manages it names no
  service account. If the group names one they act as the service account that is recorded in its
  status, and there is no client while none is recorded or while several groups manage the
  namespace.\<close>

theorem scoped_client:
  assumes "AttenuateToServiceAccount token (queryServiceAccountFromNamespace (Inr items)) = Inr scope"
  shows "\<exists>grp. filter (\<lambda>og. og_StatusNamespaces og \<noteq> []) items = [grp]
    \<and> (if gp_ServiceAccountName grp = [] then scope = ownIdentity
       else \<exists>ref t. gp_ServiceAccountRef grp = Some ref \<and> token ref = Inr t \<and> scope = asServiceAccount t)"
proof -
  obtain ref where q: "queryServiceAccountFromNamespace (Inr items) = Inr ref" using assms by (auto simp: AttenuateToServiceAccount_def go_err)
  then obtain grp where g: "filter (\<lambda>og. og_StatusNamespaces og \<noteq> []) items = [grp]"
    by (auto simp: queryServiceAccountFromNamespace_def go_err split: list.splits)
  then show ?thesis using q assms
    by (auto simp: queryServiceAccountFromNamespace_def AttenuateToServiceAccount_def go_err split: if_splits option.splits)
qed

section \<open>Labels of a namespace\<close>

text \<open>The groups that put a label on a namespace.\<close>

definition labelsNamespace :: "string \<Rightarrow> GroupObject \<Rightarrow> bool" where
  "labelsNamespace namespace grp \<longleftrightarrow> NS_Contains (NewNamespaceSet (og_StatusNamespaces grp)) namespace \<and> set (og_StatusNamespaces grp) \<noteq> {[]}"

lemma desiredGroupLabels_map:
  "desiredGroupLabels namespace groups labels = Inr desired \<Longrightarrow>
    map_of desired k = (if \<exists>grp \<in> set groups. labelsNamespace namespace grp \<and> k = OperatorGroupLabelPrefix @ gp_UID grp then Some [] else map_of labels k)"
proof (induction groups arbitrary: labels)
  case (Cons grp groups)
  have all: "IsAllNamespaces (NewNamespaceSet (og_StatusNamespaces grp)) \<longleftrightarrow> set (og_StatusNamespaces grp) = {[]}" by (simp add: singleton_list)
  show ?case
  proof (cases "labelsNamespace namespace grp")
    case True
    with Cons.prems all have "desiredGroupLabels namespace groups (AList.update (OperatorGroupLabelPrefix @ gp_UID grp) [] labels) = Inr desired"
      by (auto simp: labelsNamespace_def OGLabelKeyAndValue_def Let_def go_err split: if_splits)
    note IH = Cons.IH [OF this]
    show ?thesis
    proof (cases "\<exists>g \<in> set groups. labelsNamespace namespace g \<and> k = OperatorGroupLabelPrefix @ gp_UID g")
      case True
      with IH show ?thesis by simp
    next
      case False
      with IH have "map_of desired k = map_of (AList.update (OperatorGroupLabelPrefix @ gp_UID grp) [] labels) k" by simp
      with False True show ?thesis unfolding update_conv' by auto
    qed
  next
    case False
    with Cons.prems all have "desiredGroupLabels namespace groups labels = Inr desired" unfolding labelsNamespace_def by (simp add: Let_def split: if_splits)
    note IH = Cons.IH [OF this]
    show ?thesis unfolding IH using False by simp
  qed
qed simp

lemma fold_update_map_of: "map_of (fold (\<lambda>(k, v). AList.update k v) ds m) k = (case map_of (rev ds) k of Some v \<Rightarrow> Some v | None \<Rightarrow> map_of m k)"
  by (induction ds arbitrary: m) (auto simp: update_conv' map_add_def split: option.splits)

lemma desired_distinct: "desiredGroupLabels namespace groups labels = Inr desired \<Longrightarrow> distinct (map fst labels) \<Longrightarrow> distinct (map fst desired)"
  by (induction groups arbitrary: labels) (auto simp: Let_def go_err distinct_update split: if_splits)

text \<open>C16. After a namespace was synchronised without an error, its labels for operator groups are exactly
  those of the groups that have it among their targets without targeting all namespaces, and its
  other labels are as they were. If nothing is written they were so before. Labels are a map: no key
  occurs twice.\<close>

theorem namespace_labels:
  assumes "syncNamespace (Inr groups) namespace labels = Inr res" "distinct (map fst labels)"
  shows "map_of (case res of Some written \<Rightarrow> written | None \<Rightarrow> labels) k = (if IsOperatorGroupLabel k
    then (if \<exists>grp \<in> set groups. labelsNamespace namespace grp \<and> k = OperatorGroupLabelPrefix @ gp_UID grp then Some [] else None)
    else map_of labels k)"
proof -
  define final where "final = (case res of Some written \<Rightarrow> written | None \<Rightarrow> labels)"
  obtain desired where d: "desiredGroupLabels namespace groups [] = Inr desired" using assms(1) by (auto simp: syncNamespace_def go_err)
  have want: "map_of desired k = (if \<exists>grp \<in> set groups. labelsNamespace namespace grp \<and> k = OperatorGroupLabelPrefix @ gp_UID grp then Some [] else None)" for k
    using desiredGroupLabels_map [OF d, of k] by simp
  have prefix: "IsOperatorGroupLabel k" if "map_of desired k \<noteq> None" for k
    using that want [of k] by (auto simp: IsOperatorGroupLabel_def split: if_splits)
  have dd: "distinct (map fst desired)" using desired_distinct [OF d] by simp
  show ?thesis
  proof (cases "labelsChanged labels desired")
    case True
    then have "final = fold (\<lambda>(k, v). AList.update k v) desired (filter (\<lambda>(k, v). \<not> IsOperatorGroupLabel k) labels)"
      using assms(1) d by (auto simp: syncNamespace_def final_def)
    moreover have "map_of (rev desired) k = map_of desired k" using dd map_of_inject_set [of "rev desired" desired] by (simp add: rev_map [symmetric])
    moreover have "map_of (filter (\<lambda>(k, v). \<not> IsOperatorGroupLabel k) labels) k = (if IsOperatorGroupLabel k then None else map_of labels k)"
      by (induction labels) auto
    ultimately show ?thesis using want [of k] prefix [of k] by (auto simp: fold_update_map_of simp flip: final_def)
  next
    case False
    then have "final = labels" using assms(1) d by (auto simp: syncNamespace_def final_def)
    moreover have "map_of labels k = map_of desired k" if "IsOperatorGroupLabel k"
    proof -
      have "map_of desired k = Some v" if "map_of labels k = Some v" for v
        using False \<open>IsOperatorGroupLabel k\<close> map_of_SomeD [OF that] by (fastforce simp: labelsChanged_def list_ex_iff)
      moreover have "map_of labels k = Some v" if "map_of desired k = Some v" for v
        using False map_of_SomeD [OF that] by (fastforce simp: labelsChanged_def list_ex_iff)
      ultimately show ?thesis by (cases "map_of labels k"; cases "map_of desired k") auto
    qed
    ultimately show ?thesis using want [of k] by (simp flip: final_def)
  qed
qed

section \<open>Aggregation of cluster roles\<close>

text \<open>What the control plane adds to a role with an aggregation rule: the rules of every role with one
  of the labels.\<close>

definition aggregates :: "clusterRoleObject \<Rightarrow> clusterRoleObject \<Rightarrow> bool" where
  "aggregates agg role \<longleftrightarrow> (case cl_Aggregation agg of None \<Rightarrow> False
     | Some selectors \<Rightarrow> \<exists>label \<in> set selectors. map_of (labelsOf (cl_Meta role)) label = Some ''true'')"

lemma aggregationLabel_inj:
  assumes "aggregationLabelFromAPIKey k suf = aggregationLabelFromAPIKey k' suf'" "suf \<in> set Suffices" "suf' \<in> set Suffices"
  shows "suf = suf' \<and> APIKeyToGVKHash k = APIKeyToGVKHash k'"
proof -
  have "CHR ''-'' \<notin> set suf" "CHR ''-'' \<notin> set suf'" using assms(2,3) by (auto simp: Suffices_def)
  moreover have "APIKeyToGVKHash k @ CHR ''-'' # suf = APIKeyToGVKHash k' @ CHR ''-'' # suf'"
    using assms(1) by (simp add: aggregationLabelFromAPIKey_def)
  ultimately have "suf = suf'" by (rule last_dash [rotated])
  with \<open>APIKeyToGVKHash k @ CHR ''-'' # suf = APIKeyToGVKHash k' @ CHR ''-'' # suf'\<close> show ?thesis by simp
qed

lemma aggregationLabel_own: "aggregationLabelFromAPIKey k suf \<noteq> ''olm.managed''"
  "aggregationLabelFromAPIKey k suf \<noteq> ''rbac.authorization.k8s.io/aggregate-to-'' @ suf'"
  by (simp_all add: aggregationLabelFromAPIKey_def)

lemma opGroupRole_aggregation:
  assumes "ensureOpGroupClusterRole W op suf apis = (err, eff)" "createClusterRole agg \<in> set eff \<or> updateClusterRole agg \<in> set eff"
  shows "cl_Aggregation agg = getClusterRoleAggregationRule W apis suf"
  using assms by (auto simp: ensureOpGroupClusterRole_def Let_def split: lookup.splits option.splits if_splits prod.splits)

lemma providedRole_labels:
  assumes "ensureProvidedAPIClusterRole W namePrefix suf verbs grp resource names api key = (err, eff)"
    and "createClusterRole role \<in> set eff \<or> updateClusterRole role \<in> set eff"
  shows "labelsOf (cl_Meta role) = AList.update ''olm.managed'' ''true'' (AList.update (aggregationLabelFromAPIKey key suf) ''true''
      [(''rbac.authorization.k8s.io/aggregate-to-'' @ suf, ''true'')])"
    and "cl_Rules role = [\<lparr>Verbs = verbs, APIGroups = [grp], Resources = [resource], ResourceNames = names, NonResourceURLs = []\<rparr>]"
  using assms by (auto simp: ensureProvidedAPIClusterRole_def Let_def newObject_def labelsOf_def split: lookup.splits option.splits if_splits)

text \<open>C37. The admin, edit and view roles of a group collect what was made for its APIs and nothing else: a
  role that was ensured for a provided API is aggregated into the group's role exactly if both are
  of the same level and an API of the group has the same hash.\<close>

theorem group_role_collects:
  assumes "ensureOpGroupClusterRole W op suf apis = (err, eff)" "createClusterRole agg \<in> set eff \<or> updateClusterRole agg \<in> set eff"
    and "ensureProvidedAPIClusterRole W' namePrefix suf' verbs grp resource names api key = (err', eff')"
    and "createClusterRole role \<in> set eff' \<or> updateClusterRole role \<in> set eff'"
    and "suf \<in> set Suffices" "suf' \<in> set Suffices" "\<And>xs. set (gw_apiOrder W xs) = set xs"
  shows "aggregates agg role \<longleftrightarrow> suf = suf' \<and> (\<exists>a \<in> set apis. APIKeyToGVKHash a = APIKeyToGVKHash key)"
proof -
  have rule: "cl_Aggregation agg = (if apis = [] then None else Some (map (\<lambda>a. aggregationLabelFromAPIKey a suf) (gw_apiOrder W apis)))"
  proof -
    have "gw_apiOrder W apis = [] \<longleftrightarrow> apis = []" using assms(7) [of apis] by (metis set_empty)
    then show ?thesis using opGroupRole_aggregation [OF assms(1,2)] by (simp add: getClusterRoleAggregationRule_def Let_def)
  qed
  have lookup: "map_of (labelsOf (cl_Meta role)) (aggregationLabelFromAPIKey a suf) = Some ''true'' \<longleftrightarrow>
      aggregationLabelFromAPIKey a suf = aggregationLabelFromAPIKey key suf'" for a
    using aggregationLabel_own [of a suf] by (simp add: providedRole_labels(1) [OF assms(3,4)] update_conv')
  have "aggregates agg role \<longleftrightarrow> (\<exists>a \<in> set apis. aggregationLabelFromAPIKey a suf = aggregationLabelFromAPIKey key suf')"
    unfolding aggregates_def rule by (cases "apis = []") (auto simp: lookup assms(7))
  moreover have "aggregationLabelFromAPIKey a suf = aggregationLabelFromAPIKey key suf' \<longleftrightarrow> suf = suf' \<and> APIKeyToGVKHash a = APIKeyToGVKHash key" for a
    using aggregationLabel_inj [OF _ assms(5,6), of a key] by (metis aggregationLabelFromAPIKey_def)
  ultimately show ?thesis by blast
qed

text \<open>The update of a group's role goes wrong without an error, and is made anew when Go ranges over the
  APIs in another order.\<close>

lemma opGroupRole_update_lost:
  assumes "gw_clusterRole W (getClusterRoleName W (og_Namespace op) (og_Name op) suf) = present existing"
    and "cl_Aggregation existing \<noteq> getClusterRoleAggregationRule W apis suf" "\<And>r. gw_updateClusterRole W r = Some e"
  shows "ensureOpGroupClusterRole W op suf apis = (None, [])"
proof -
  obtain m g where "AddOwnerLabels (cl_Meta existing) (groupMeta op) = Some (m, g)"
    by (simp add: AddOwnerLabels_def groupMeta_def newObject_def InferGroupVersionKind_def gvk_empty_def)
  then show ?thesis using assms by (simp add: ensureOpGroupClusterRole_def Let_def)
qed

lemma aggregation_order_matters:
  assumes "a \<noteq> b" "APIKeyToGVKHash a \<noteq> APIKeyToGVKHash b" "gw_apiOrder W [a, b] = [a, b]" "gw_apiOrder W' [a, b] = [b, a]"
  shows "getClusterRoleAggregationRule W [a, b] suf \<noteq> getClusterRoleAggregationRule W' [a, b] suf"
  using assms by (auto simp: getClusterRoleAggregationRule_def Let_def aggregationLabelFromAPIKey_def)

section \<open>Synchronisation of the targets\<close>

lemma namespacesChanged_iff: "distinct a \<Longrightarrow> distinct b \<Longrightarrow> namespacesChanged a b \<longleftrightarrow> set a \<noteq> set b"
proof -
  assume d: "distinct a" "distinct b"
  have "namespacesChanged a b \<longleftrightarrow> card (set a) \<noteq> card (set b) \<or> \<not> set b \<subseteq> set a"
    using d by (auto simp: namespacesChanged_def distinct_card list_ex_iff)
  then show ?thesis by (metis List.finite_set card_subset_eq order_refl)
qed

lemma toggle_set:
  "distinct b \<Longrightarrow> set (fold (\<lambda>n c. if n \<notin> set c then List.insert n c else removeAll n c) b c) = (set c - set b) \<union> (set b - set c)"
  by (induction b arbitrary: c) auto

lemma namespacesAddedOrRemoved_set:
  assumes "distinct b" "\<And>xs. set (gw_order W xs) = set xs"
  shows "set (namespacesAddedOrRemoved W a b) = (set a - set b) \<union> (set b - set a) - {[]}"
  using assms toggle_set [OF assms(1), of "fold List.insert a []"] by (auto simp: namespacesAddedOrRemoved_def Let_def)

lemma requeueMember_only: "e \<in> set (requeueMember W original targets csv) \<Longrightarrow> \<exists>ns. e = queueCSV ns (C_Name csv)"
  by (auto simp: requeueMember_def requeueEach_def Let_def split: if_splits option.splits sum.splits)

lemma annotateLoop_writes:
  assumes "\<And>c. gw_updateCSV W c = updated" "annotateLoop W grp targets csvs = (es, eff)"
  shows "es = [] \<and> (writeCSV c' \<in> set eff \<longleftrightarrow>
      (\<exists>c \<in> set csvs. \<not> IsCopied c \<and> operatorGroupAnnotationsDiffer c grp \<and> c' = setOperatorGroupAnnotations c grp True))
    \<and> (\<forall>g. writeGroupStatus g \<notin> set eff)"
  using assms(2)
proof (induction csvs arbitrary: es eff)
  case (Cons c csvs)
  obtain es1 eff1 where rest: "annotateLoop W grp targets csvs = (es1, eff1)" by fastforce
  have "writeCSV x \<notin> set (requeueMember W o1 targets c)" "writeGroupStatus g \<notin> set (requeueMember W o1 targets c)" for x g o1
    using requeueMember_only by blast+
  then show ?case using Cons.prems Cons.IH [OF rest] rest assms(1) by (auto simp: Let_def split: if_splits)
qed simp

lemma annotated_agrees:
  "og_StatusNamespaces grp \<noteq> [] \<Longrightarrow> \<not> operatorGroupAnnotationsDiffer (setOperatorGroupAnnotations csv grp True) grp"
  by (auto simp: operatorGroupAnnotationsDiffer_def setOperatorGroupAnnotations_def Let_def update_conv'
      OperatorGroupNamespaceAnnotationKey_def OperatorGroupAnnotationKey_def OperatorGroupTargetsAnnotationKey_def)

lemma snd_andThen: "e \<in> set (snd (andThen a b)) \<longleftrightarrow> e \<in> set (snd a) \<or> fst a = None \<and> e \<in> set (snd b)"
  by (auto simp: andThen_def split: prod.splits option.splits)

lemma later_effects:
  "e \<in> set (snd (ensureOpGroupClusterRoles W op apis)) \<Longrightarrow> (\<forall>c. e \<noteq> writeCSV c) \<and> (\<forall>g. e \<noteq> writeGroupStatus g)"
  "e \<in> set (pruneProvidedAPIs W op a b) \<Longrightarrow> (\<forall>c. e \<noteq> writeCSV c) \<and> (\<forall>g. e \<noteq> writeGroupStatus g)"
  "e \<in> set (requeueEach W nss n) \<Longrightarrow> (\<forall>c. e \<noteq> writeCSV c) \<and> (\<forall>g. e \<noteq> writeGroupStatus g)"
proof -
  have "(\<forall>c. e \<noteq> writeCSV c) \<and> (\<forall>g. e \<noteq> writeGroupStatus g)" if "e \<in> set (snd (ensureOpGroupClusterRole W op suf apis))" for suf
    using that by (auto simp: ensureOpGroupClusterRole_def Let_def split: lookup.splits option.splits if_splits prod.splits)
  then have "e \<in> set (snd (ensureAll (\<lambda>suf. ensureOpGroupClusterRole W op suf apis) sufs)) \<Longrightarrow> (\<forall>c. e \<noteq> writeCSV c) \<and> (\<forall>g. e \<noteq> writeGroupStatus g)" for sufs
    by (induction sufs) (auto simp: snd_andThen)
  then show "e \<in> set (snd (ensureOpGroupClusterRoles W op apis)) \<Longrightarrow> (\<forall>c. e \<noteq> writeCSV c) \<and> (\<forall>g. e \<noteq> writeGroupStatus g)"
    by (simp add: ensureOpGroupClusterRoles_def)
qed (auto simp: pruneProvidedAPIs_def requeueEach_def Let_def split: if_splits option.splits update_result.splits)

lemma syncTargets_steady:
  assumes "updateNamespaceList W op = Inr T" "\<not> namespacesChanged T (og_StatusNamespaces op)"
    and "gw_members W = Inr csvs" "\<And>c. gw_updateCSV W c = updated"
  shows "writeCSV c' \<in> set (snd (syncTargets W op)) \<longleftrightarrow>
      (\<exists>c \<in> set csvs. \<not> IsCopied c \<and> operatorGroupAnnotationsDiffer c (asGroup op) \<and> c' = setOperatorGroupAnnotations c (asGroup op) True)"
    "writeGroupStatus g \<notin> set (snd (syncTargets W op))"
proof -
  obtain es eff where loop: "annotateLoop W (asGroup op) (NewNamespaceSet T) csvs = (es, eff)" by fastforce
  have csvs: "csvSet_with (gw_members W) None = csvs" using assms(3) by (simp add: csvSet_with_def)
  have ann: "annotateCSVs W (asGroup op) T = (None, eff)"
    using annotateLoop_writes [OF assms(4) loop] loop by (simp add: annotateCSVs_def csvs aggregateText_def)
  note w = annotateLoop_writes [OF assms(4) loop]
  have only: "e \<in> set (snd (syncTargets W op)) \<longleftrightarrow> e \<in> set eff" if "(\<exists>c. e = writeCSV c) \<or> (\<exists>g. e = writeGroupStatus g)" for e
    using that assms(1,2) by (auto simp: syncTargets_def Let_def snd_andThen ann dest: later_effects split: sum.splits)
  show "writeCSV c' \<in> set (snd (syncTargets W op)) \<longleftrightarrow>
      (\<exists>c \<in> set csvs. \<not> IsCopied c \<and> operatorGroupAnnotationsDiffer c (asGroup op) \<and> c' = setOperatorGroupAnnotations c (asGroup op) True)"
    using w only by blast
  show "writeGroupStatus g \<notin> set (snd (syncTargets W op))" using w only by blast
qed

text \<open>A member that was just annotated for its group differs from it only if the group has no targets and
  the member is not annotated with the empty list of targets.\<close>

lemma annotated_differs_iff:
  "operatorGroupAnnotationsDiffer (setOperatorGroupAnnotations c grp True) grp \<longleftrightarrow>
     og_StatusNamespaces grp = [] \<and> map_of (csv_Annotations c) OperatorGroupTargetsAnnotationKey \<noteq> Some []"
proof (cases "og_StatusNamespaces grp = []")
  case True
  have keys: "OperatorGroupTargetsAnnotationKey \<noteq> OperatorGroupNamespaceAnnotationKey" "OperatorGroupTargetsAnnotationKey \<noteq> OperatorGroupAnnotationKey"
    "OperatorGroupAnnotationKey \<noteq> OperatorGroupNamespaceAnnotationKey" by code_simp+
  with True show ?thesis
    by (auto simp: operatorGroupAnnotationsDiffer_def setOperatorGroupAnnotations_def Let_def BuildTargetNamespaces_def SliceStable_def update_conv')
qed (use annotated_agrees in simp)

text \<open>C35. The targets of a group settle in two synchronisations if the writes succeed. As long as its status
  lists other namespaces than it targets, the status is written and exactly the namespaces that come
  or go are queued. Once the status is right it is not written again, and exactly the members
  whose annotations differ are annotated. After that a member does not differ any more, unless the
  group targets no namespace: then every member that is not annotated with an empty list of targets
  still differs.\<close>

theorem group_targets_settle:
  assumes "updateNamespaceList W op = Inr T" "distinct T" "distinct (og_StatusNamespaces op)" "\<And>xs. set (gw_order W xs) = set xs"
    and "gw_members W = Inr csvs" "\<And>c. gw_updateCSV W c = updated" "\<And>g. gw_updateStatus W g = updated"
  shows "if set T \<noteq> set (og_StatusNamespaces op)
    then \<exists>op' out. syncTargets W op = (None, writeGroupStatus op' # map queueNamespace out) \<and> og_StatusNamespaces op' = T
      \<and> set out = (set (og_StatusNamespaces op) - set T) \<union> (set T - set (og_StatusNamespaces op)) - {[]}
    else (\<forall>g. writeGroupStatus g \<notin> set (snd (syncTargets W op)))
      \<and> (\<forall>c'. writeCSV c' \<in> set (snd (syncTargets W op)) \<longleftrightarrow>
           (\<exists>c \<in> set csvs. \<not> IsCopied c \<and> operatorGroupAnnotationsDiffer c (asGroup op) \<and> c' = setOperatorGroupAnnotations c (asGroup op) True))
      \<and> (\<forall>c. operatorGroupAnnotationsDiffer (setOperatorGroupAnnotations c (asGroup op) True) (asGroup op)
           \<longleftrightarrow> T = [] \<and> map_of (csv_Annotations c) OperatorGroupTargetsAnnotationKey \<noteq> Some [])"
proof (cases "set T = set (og_StatusNamespaces op)")
  case True
  then have same: "\<not> namespacesChanged T (og_StatusNamespaces op)" using namespacesChanged_iff [OF assms(2,3)] by simp
  have "og_StatusNamespaces (asGroup op) = [] \<longleftrightarrow> T = []" using True by (auto simp: asGroup_def Group.defs)
  then show ?thesis using True syncTargets_steady [OF assms(1) same assms(5,6)] annotated_differs_iff by simp
next
  case False
  then have "namespacesChanged T (og_StatusNamespaces op)" using namespacesChanged_iff [OF assms(2,3)] by simp
  moreover have "set (namespacesAddedOrRemoved W (og_StatusNamespaces op) T) =
      (set (og_StatusNamespaces op) - set T) \<union> (set T - set (og_StatusNamespaces op)) - {[]}"
    by (rule namespacesAddedOrRemoved_set [OF assms(2,4)])
  ultimately show ?thesis using False assms(1,7)
    by (auto simp: syncTargets_def Let_def intro!: exI [of _ "namespacesAddedOrRemoved W (og_StatusNamespaces op) T"])
qed

section \<open>What does not settle\<close>

text \<open>A group that selects no namespace any more keeps its copies. The status is stored without its
  empty list, so the members keep the annotation with the former targets: they are annotated again by
  every synchronisation without ever agreeing with the group, and the collection keeps the copies in
  the former targets.\<close>

lemma empty_targets_keep_copies:
  assumes "og_StatusNamespaces grp = []" "map_of (csv_Annotations csv) OperatorGroupTargetsAnnotationKey = Some former" "former \<noteq> []"
    and "csv' = setOperatorGroupAnnotations csv grp True" "C_Namespace csv = og_Namespace grp"
    and "\<not> (C_Phase csv = CSVPhaseFailed \<and> csv_Reason csv = CSVReasonInterOperatorGroupOwnerConflict)"
    and "parentOf (og_Namespace grp) (C_Name csv) = present csv'"
    and "map_of (csv_Annotations c) OperatorGroupNamespaceAnnotationKey = Some (og_Namespace grp)" "C_Name c = C_Name csv"
    and "C_Namespace c \<noteq> og_Namespace grp" "C_Namespace c \<in> set (Split CHR '','' former)"
  shows "operatorGroupAnnotationsDiffer csv' grp \<and> syncGcCsv W parentOf c = (None, [])"
proof -
  have keys: "OperatorGroupTargetsAnnotationKey \<noteq> OperatorGroupNamespaceAnnotationKey" "OperatorGroupTargetsAnnotationKey \<noteq> OperatorGroupAnnotationKey"
    by (simp_all add: OperatorGroupNamespaceAnnotationKey_def OperatorGroupAnnotationKey_def OperatorGroupTargetsAnnotationKey_def)
  have targets: "map_of (csv_Annotations csv') OperatorGroupTargetsAnnotationKey = Some former"
    using assms(1,2) keys by (simp add: assms(4) setOperatorGroupAnnotations_def Let_def update_conv')
  moreover have "BuildTargetNamespaces grp = []" using assms(1) by (simp add: BuildTargetNamespaces_def SliceStable_def)
  ultimately have "operatorGroupAnnotationsDiffer csv' grp" using assms(3) by (simp add: operatorGroupAnnotationsDiffer_def)
  moreover have same: "C_Namespace csv' = C_Namespace csv" "C_Phase csv' = C_Phase csv" "csv_Reason csv' = csv_Reason csv"
    by (simp_all add: assms(4) setOperatorGroupAnnotations_def Let_def)
  moreover have "NS_Contains (NewNamespaceSetFromString former) (C_Namespace c)"
    unfolding NewNamespaceSetFromString_def NS_Contains_new using assms(11) by blast
  then have "syncGcCsv W parentOf c = (None, [])"
    using assms(5-10) same targets by (auto simp: syncGcCsv_def removeDanglingChildCSVs_def recorded_def)
  ultimately show ?thesis by blast
qed

lemma restartFailed_writes:
  assumes "\<And>c. gw_updateCSVStatus W c = None" "\<And>ns n. gw_requeueCSV W ns n = None" "c \<in> set csvs"
    and "map_of (csv_Annotations c) OperatorGroupAnnotationKey = Some (og_Name op)" "csv_Reason c = CSVReasonComponentFailedNoRetry"
  shows "writeCSVStatus (SetPhase CSVPhasePending CSVReasonDetectedClusterChange ''Cluster resources changed state'' (gw_now W) c)
    \<in> set (snd (restartFailed W op csvs))"
  using assms(3-5) by (induction csvs) (auto simp: Let_def snd_andThen assms(1,2))

text \<open>A group with a service account restarts its failed members by every synchronisation, also when the
  service account has not changed: a member that failed without a retry becomes pending again. The
  code means to do so only after a change, but compares two pointers.\<close>

lemma account_restarts_members:
  assumes "gp_ServiceAccountName op \<noteq> []" "gw_serviceAccount W (gp_ServiceAccountName op) = present ref" "gp_ServiceAccountRef op = Some ref"
    and "gw_labelServiceAccount W (gp_ServiceAccountName op) = None" "gw_groups W = Inr [op]" "map_of (gp_Conditions op) MultipleOperatorGroup = None"
    and "\<And>c. gw_updateCSVStatus W c = None" "\<And>ns n. gw_requeueCSV W ns n = None" "gw_csvs W = Inr csvs" "c \<in> set csvs"
    and "map_of (csv_Annotations c) OperatorGroupAnnotationKey = Some (og_Name op)" "csv_Reason c = CSVReasonComponentFailedNoRetry"
  shows "writeCSVStatus (SetPhase CSVPhasePending CSVReasonDetectedClusterChange ''Cluster resources changed state'' (gw_now W) c)
    \<in> set (snd (syncOperatorGroups W op))"
proof -
  have "SyncOperatorGroup W op = (Inr op, [labelServiceAccount (gp_ServiceAccountName op)])"
    using assms(1-4) by (simp add: SyncOperatorGroup_def Let_def)
  then have "writeCSVStatus (SetPhase CSVPhasePending CSVReasonDetectedClusterChange ''Cluster resources changed state'' (gw_now W) c)
      \<in> set (snd (syncAccount W op))"
    using restartFailed_writes [OF assms(7,8,10-12)] assms(3,9) by (auto simp: syncAccount_def Let_def split: prod.splits option.splits)
  then show ?thesis using assms(5,6)
    by (auto simp: syncOperatorGroups_def checkMultiple_def snd_andThen split: prod.splits sum.splits)
qed

text \<open>A condition that reports a missing service account stays when the group stops naming one.\<close>

lemma account_condition_stays:
  assumes "gp_ServiceAccountName op = []" "gp_ServiceAccountRef op = None" "map_of (gp_Conditions op) ServiceAccountCondition = Some c"
  shows "SyncOperatorGroup W op = (Inr op, [])"
  using assms by (simp add: SyncOperatorGroup_def)

text \<open>A change of targets forgets the recorded service account.\<close>

lemma targets_forget_account:
  assumes "updateNamespaceList W op = Inr T" "namespacesChanged T (og_StatusNamespaces op)" "writeGroupStatus op' \<in> set (snd (syncTargets W op))"
  shows "gp_ServiceAccountRef op' = None"
  using assms by (auto simp: syncTargets_def Let_def split: update_result.splits)

text \<open>Members of a group that targets, or has targeted, all namespaces are queued nowhere.\<close>

lemma all_namespaces_unqueued:
  assumes "NS_Union original targets = [[]]"
  shows "requeueMember W original targets csv = []"
  using assms by (simp add: requeueMember_def requeueEach_def Let_def split: sum.split)

section \<open>Pruning of provided APIs\<close>

lemma prunedAPIs_set:
  "prunedAPIs W groupAPIs provided acc = Some res \<Longrightarrow>
    set res = set acc \<union> (fst ` set provided \<inter> set groupAPIs) \<and> (distinct acc \<longrightarrow> distinct res)"
  by (induction W groupAPIs provided acc rule: prunedAPIs.induct) (auto split: if_splits)

text \<open>What is written is the part of the annotated APIs that members provide, and it is only written if
  some are not provided any more.\<close>

lemma pruneProvidedAPIs_writes:
  assumes "writeGroup g \<in> set (pruneProvidedAPIs W grp groupAPIs provided)" "distinct groupAPIs"
  shows "\<not> gr_StaticProvidedAPIs grp \<and> (\<exists>kept. og_ProvidedAPIs g = APISet_String kept \<and> set kept = fst ` set provided \<inter> set groupAPIs
    \<and> \<not> set groupAPIs \<subseteq> fst ` set provided)"
proof -
  obtain kept where k: "Some kept = prunedAPIs W groupAPIs provided []" "length kept < length groupAPIs" "og_ProvidedAPIs g = APISet_String kept" "\<not> gr_StaticProvidedAPIs grp"
    using assms(1) by (auto simp: pruneProvidedAPIs_def Let_def split: if_splits option.splits update_result.splits)
  have s: "set kept = fst ` set provided \<inter> set groupAPIs" "distinct kept" using prunedAPIs_set [OF k(1) [symmetric]] by auto
  have "\<not> set groupAPIs \<subseteq> fst ` set provided"
  proof
    assume "set groupAPIs \<subseteq> fst ` set provided"
    then have "set kept = set groupAPIs" using s(1) by blast
    then show False using k(2) s(2) assms(2) by (metis distinct_card less_irrefl)
  qed
  with k s show ?thesis by blast
qed

section \<open>Lifted roles\<close>

lemma andThen_None: "fst (andThen r s) = None \<longleftrightarrow> fst r = None \<and> fst s = None"
  "fst (andThen r s) = None \<Longrightarrow> snd (andThen r s) = snd r @ snd s"
  by (cases r; cases s; cases "fst r"; simp add: andThen_def)+

lemma ensureAll_effects:
  "fst (ensureAll f xs) = None \<Longrightarrow> x \<in> set xs \<Longrightarrow> fst (f x) = None \<and> set (snd (f x)) \<subseteq> set (snd (ensureAll f xs))"
  by (induction xs) (auto simp: andThen_None)

text \<open>The roles of an operator of all namespaces are lifted: without an error, each of its roles whose name
  no cluster role has is created for the cluster with its rules, and each of its bindings with its
  subjects.\<close>

lemma singleton_rbac_lifts:
  assumes "ensureSingletonRBAC W R ns csv = (None, eff)" "ownedRoles R ns csv = Inr roles" "ownedBindings R ns csv = Inr bindings"
  shows "r \<in> set roles \<Longrightarrow> gw_clusterRole W (Obj_Name (ro_Meta r)) = notFound \<Longrightarrow> createClusterRole (liftRole r) \<in> set eff"
    "b \<in> set bindings \<Longrightarrow> gw_clusterBinding W (Obj_Name (bo_Meta b)) = notFound \<Longrightarrow> createClusterBinding (liftBinding b) \<in> set eff"
proof -
  let ?f = "ensureLifted (\<lambda>r. gw_clusterRole W (Obj_Name (ro_Meta r))) (gw_createClusterRole W) createClusterRole liftRole"
  let ?g = "ensureLifted (\<lambda>b. gw_clusterBinding W (Obj_Name (bo_Meta b))) (gw_createClusterBinding W) createClusterBinding liftBinding"
  have "bindings \<noteq> []"
  proof
    assume "bindings = []"
    then have "fst (andThen (ensureAll ?f roles) (Some ''no owned rolebindings found'', [])) = None"
      using assms by (auto simp: ensureSingletonRBAC_def split: if_splits)
    then show False by (simp add: andThen_None)
  qed
  then have "andThen (ensureAll ?f roles) (ensureAll ?g bindings) = (None, eff)"
    using assms by (auto simp: ensureSingletonRBAC_def split: if_splits)
  then have e: "fst (ensureAll ?f roles) = None \<and> fst (ensureAll ?g bindings) = None" "eff = snd (ensureAll ?f roles) @ snd (ensureAll ?g bindings)"
    using andThen_None [of "ensureAll ?f roles" "ensureAll ?g bindings"] by simp_all
  show "createClusterRole (liftRole r) \<in> set eff" if "r \<in> set roles" "gw_clusterRole W (Obj_Name (ro_Meta r)) = notFound"
    using ensureAll_effects [of ?f roles r] e that by (auto simp: ensureLifted_def split: option.splits)
  show "createClusterBinding (liftBinding b) \<in> set eff" if "b \<in> set bindings" "gw_clusterBinding W (Obj_Name (bo_Meta b)) = notFound"
    using ensureAll_effects [of ?g bindings b] e that by (auto simp: ensureLifted_def split: option.splits)
qed

section \<open>A group and its members\<close>

definition demoOG :: GroupObject where
  "demoOG = Group.extend copyGroup \<lparr>gp_UID = ''og-uid'', gp_TargetNamespaces = [''t''], gp_Selector = noSelector, gp_ServiceAccountName = ''sa'',
     gp_ServiceAccountRef = Some ''ns/sa'', gp_Conditions = [], gp_LastUpdated = None\<rparr>"

definition failedMember :: CSV where
  "failedMember = copySource\<lparr>csv_Reason := CSVReasonComponentFailedNoRetry, C_Phase := CSVPhaseFailed\<rparr>"

definition demoGroupWorld :: group_world where
  "demoGroupWorld = \<lparr>gw_now = 1, gw_groups = Inr [demoOG], gw_updateStatus = (\<lambda>g. updated), gw_updateGroup = (\<lambda>g. updated),
     gw_serviceAccount = (\<lambda>n. present ''ns/sa''), gw_labelServiceAccount = (\<lambda>n. None), gw_csvs = Inr [failedMember], gw_members = Inr [failedMember],
     gw_getCSV = (\<lambda>ns n. notFound), gw_deleting = (\<lambda>c. False), gw_updateCSV = (\<lambda>c. updated), gw_updateCSVStatus = (\<lambda>c. None),
     gw_requeueCSV = (\<lambda>ns n. None), gw_selected = (\<lambda>s. Inr []), gw_namespaces = Inr [''ns'', ''t''], gw_order = id, gw_apiOrder = id,
     gw_sum224 = length, gw_clusterRole = (\<lambda>n. notFound), gw_createClusterRole = (\<lambda>r. None), gw_updateClusterRole = (\<lambda>r. None),
     gw_clusterBinding = (\<lambda>n. notFound), gw_createClusterBinding = (\<lambda>b. None)\<rparr>"

lemma demoOG_fields: "og_StatusNamespaces demoOG = [''t'', ''gone'']" "og_Name demoOG = ''og''" "gp_ServiceAccountName demoOG = ''sa''"
  "gp_ServiceAccountRef demoOG = Some ''ns/sa''" "gp_Conditions demoOG = []" "gp_UID demoOG = ''og-uid''"
  by (simp_all add: demoOG_def Group.extend_def copyGroup_def demoGroup_def)

lemma getClusterRoleName_bounded_witness:
  "length (getClusterRoleName (demoGroupWorld\<lparr>gw_sum224 := \<lambda>s. 5\<rparr>) ''ns'' (replicate 300 CHR ''a'') ''admin'') \<le> 253"
  using getClusterRoleName_bounded [of "demoGroupWorld\<lparr>gw_sum224 := \<lambda>s. 5\<rparr>" "''admin''" "''admin''" "''ns''" "replicate 300 CHR ''a''"]
  by (simp add: Suffices_def kubeResourceNameLimit_def)

theorem scoped_client_witness:
  "\<exists>scope. AttenuateToServiceAccount (\<lambda>ref. Inr ''token'') (queryServiceAccountFromNamespace (Inr [demoOG])) = Inr scope \<and> scope = asServiceAccount ''token''"
proof -
  have "AttenuateToServiceAccount (\<lambda>ref. Inr ''token'') (queryServiceAccountFromNamespace (Inr [demoOG])) = Inr (asServiceAccount ''token'')"
    by (simp add: AttenuateToServiceAccount_def queryServiceAccountFromNamespace_def demoOG_fields)
  from this scoped_client [OF this] show ?thesis by (auto simp: demoOG_fields)
qed

theorem namespace_labels_witness:
  "\<exists>written. syncNamespace (Inr [demoOG]) ''t'' [(''a'', ''b''), (''olm.operatorgroup.uid/old'', [])] = Inr (Some written)
    \<and> map_of written ''olm.operatorgroup.uid/og-uid'' = Some [] \<and> map_of written ''olm.operatorgroup.uid/old'' = None \<and> map_of written ''a'' = Some ''b''"
proof -
  let ?labels = "[(''a'', ''b''), (''olm.operatorgroup.uid/old'', [])]"
  have "case syncNamespace (Inr [demoOG]) ''t'' ?labels of Inr (Some w) \<Rightarrow> True | _ \<Rightarrow> False" by code_simp
  then obtain w where w: "syncNamespace (Inr [demoOG]) ''t'' ?labels = Inr (Some w)" by (auto split: sum.splits option.splits)
  have l: "labelsNamespace ''t'' demoOG" by (simp add: labelsNamespace_def demoOG_fields NS_Contains_new)
  have k: "IsOperatorGroupLabel ''olm.operatorgroup.uid/og-uid''" "IsOperatorGroupLabel ''olm.operatorgroup.uid/old''" "\<not> IsOperatorGroupLabel ''a''"
    by code_simp+
  have "map_of w k = (if IsOperatorGroupLabel k
      then (if \<exists>grp \<in> set [demoOG]. labelsNamespace ''t'' grp \<and> k = OperatorGroupLabelPrefix @ gp_UID grp then Some [] else None)
      else map_of ?labels k)" for k
    using namespace_labels [OF w, of k] by simp
  from this [of "''olm.operatorgroup.uid/og-uid''"] this [of "''olm.operatorgroup.uid/old''"] this [of "''a''"] k l w
  show ?thesis by (simp add: demoOG_fields OperatorGroupLabelPrefix_def)
qed

definition demoKey :: APIKey where
  "demoKey = \<lparr>Key_Group = ''g'', Key_Version = ''v1'', Key_Kind = ''K'', Key_Plural = []\<rparr>"

lemma demoGroup_roles: "gw_clusterRole demoGroupWorld n = notFound" "gw_createClusterRole demoGroupWorld r = None"
  by (simp_all add: demoGroupWorld_def)

lemma providedRole_created:
  assumes "gw_clusterRole W (namePrefix @ suf) = notFound" "\<And>r. gw_createClusterRole W r = None"
  shows "\<exists>role. createClusterRole role \<in> set (snd (ensureProvidedAPIClusterRole W namePrefix suf verbs grp resource names api key))"
  using assms by (simp add: ensureProvidedAPIClusterRole_def Let_def split: option.split)

theorem group_role_collects_witness:
  "\<exists>agg role. createClusterRole agg \<in> set (snd (ensureOpGroupClusterRole demoGroupWorld demoOG ''view'' [demoKey]))
    \<and> createClusterRole role \<in> set (snd (ensureProvidedAPIClusterRole demoGroupWorld ''p-'' ''view'' [''get''] ''g'' ''ks'' [] demoCSVObject demoKey))
    \<and> aggregates agg role"
proof -
  let ?e1 = "ensureOpGroupClusterRole demoGroupWorld demoOG ''view'' [demoKey]"
  let ?e2 = "ensureProvidedAPIClusterRole demoGroupWorld ''p-'' ''view'' [''get''] ''g'' ''ks'' [] demoCSVObject demoKey"
  obtain m g where "AddOwnerLabels (newObject T_ClusterRole (getClusterRoleName demoGroupWorld (og_Namespace demoOG) (og_Name demoOG) ''view'') [] [] None) (groupMeta demoOG) = Some (m, g)"
    by (simp add: AddOwnerLabels_def groupMeta_def newObject_def InferGroupVersionKind_def gvk_empty_def)
  then obtain agg where agg: "createClusterRole agg \<in> set (snd ?e1)" by (simp add: ensureOpGroupClusterRole_def demoGroupWorld_def Let_def)
  obtain role where role: "createClusterRole role \<in> set (snd ?e2)"
    using providedRole_created [of demoGroupWorld "''p-''" "''view''" "[''get'']" "''g''" "''ks''" "[]" demoCSVObject demoKey] demoGroup_roles by blast
  have "aggregates agg role"
    using group_role_collects [of demoGroupWorld demoOG "''view''" "[demoKey]" "fst ?e1" "snd ?e1" agg demoGroupWorld "''p-''" "''view''" "[''get'']" "''g''" "''ks''" "[]"
        demoCSVObject demoKey "fst ?e2" "snd ?e2" role] agg role by (simp add: Suffices_def demoGroupWorld_def)
  with agg role show ?thesis by blast
qed

theorem group_targets_settle_witness:
  "\<exists>op' out. syncTargets demoGroupWorld demoOG = (None, writeGroupStatus op' # map queueNamespace out) \<and> og_StatusNamespaces op' = [''t''] \<and> set out = {''gone''}"
proof -
  have T: "updateNamespaceList demoGroupWorld demoOG = Inr [''t'']"
    by (simp add: updateNamespaceList_def getOperatorGroupTargets_def demoOG_def Group.extend_def demoGroupWorld_def go_err)
  from group_targets_settle [OF T, of "[failedMember]"] show ?thesis by (simp add: demoOG_fields demoGroupWorld_def)
qed

lemma empty_targets_keep_copies_witness:
  "syncGcCsv copyWorld (\<lambda>ns n. present (setOperatorGroupAnnotations copySource (copyGroup\<lparr>og_StatusNamespaces := []\<rparr>) True))
     ((csvCopyPrototype copySource)\<lparr>C_Namespace := ''t''\<rparr>) = (None, [])"
proof -
  let ?grp = "copyGroup\<lparr>og_StatusNamespaces := []\<rparr>" and ?c = "(csvCopyPrototype copySource)\<lparr>C_Namespace := ''t''\<rparr>"
  have "map_of (csv_Annotations copySource) OperatorGroupTargetsAnnotationKey = Some ''gone,t''" "C_Namespace copySource = og_Namespace ?grp"
    "\<not> (C_Phase copySource = CSVPhaseFailed \<and> csv_Reason copySource = CSVReasonInterOperatorGroupOwnerConflict)"
    "map_of (csv_Annotations ?c) OperatorGroupNamespaceAnnotationKey = Some (og_Namespace ?grp)" "C_Name ?c = C_Name copySource"
    "C_Namespace ?c \<noteq> og_Namespace ?grp" "C_Namespace ?c \<in> set (Split CHR '','' ''gone,t'')" by code_simp+
  then show ?thesis
    using empty_targets_keep_copies [OF _ _ _ refl, of ?grp copySource "''gone,t''" "\<lambda>ns n. present (setOperatorGroupAnnotations copySource ?grp True)" ?c copyWorld]
    by simp
qed

lemma account_restarts_members_witness:
  "writeCSVStatus (SetPhase CSVPhasePending CSVReasonDetectedClusterChange ''Cluster resources changed state'' 1 failedMember)
    \<in> set (snd (syncOperatorGroups demoGroupWorld demoOG))"
proof -
  have "map_of (csv_Annotations failedMember) OperatorGroupAnnotationKey = Some ''og''" "csv_Reason failedMember = CSVReasonComponentFailedNoRetry"
    by code_simp+
  then show ?thesis
    using account_restarts_members [of demoOG demoGroupWorld "''ns/sa''" "[failedMember]" failedMember]
    by (simp add: demoOG_fields demoGroupWorld_def)
qed

end
