(* ===== verification/Spec2Isabelle.thy ===== *)
theory Spec2Isabelle
  imports Rule_Checker Gini_Reference Bundle_Variables Channel_Order Fail_Forward Resolve CSV_Machine Execute_Plan Namespace_Sync
    Subscription_Sync Group_Controller
begin

text \<open>
  A verification library for the Operator Lifecycle Manager (OLM): the programs that install
  operators into a Kubernetes cluster and keep them up to date. Paths are relative to \<open>src/pkg\<close>.

  The parts and how they interact. Users write Subscriptions. The catalog operator synchronises a
  namespace: it resolves the subscriptions of the namespace against the catalogs and the installed
  versions with a SAT solver, turns the result into the steps of an InstallPlan, and executes the
  plan once it is approved; a syncer keeps the conditions of each subscription. Among the resources it applies are ClusterServiceVersions (CSVs) with
  their roles and service accounts. The OLM operator takes each CSV through the phases of an
  installation, checks its requirements and permissions, and lets it replace its predecessor. It keeps the
  operator groups, which say for which namespaces an operator works, and copies its CSV and roles there.

  \<^bold>\<open>Foundations.\<close>
  \<^item> \<open>OLM_Prelude\<close>: Go's string functions, sums for errors, lists and maps; the locale \<open>go_sort\<close> is
    what \<open>sort.Slice\<close> promises, interpreted on a stable insertion sort.
  \<^item> \<open>Sync_Machine\<close>: runs of controllers with their history. The locale \<open>sync_machine\<close> lifts what a
    controller promises of one synchronisation to runs.

  \<^bold>\<open>Permissions.\<close>
  \<^item> \<open>RBAC\<close>: request matching, covering, breakdown and compaction of policy rules
    (\<open>lib/kubernetes/pkg/registry/rbac/validation\<close>, \<open>apis/rbac/v1\<close>). The cover check is sound for every request and
    compaction changes nothing.
  \<^item> \<open>Ownerutil\<close>: owner references and labels (\<open>lib/ownerutil/util.go\<close>); ensured owners stay, labels
    read back, and a conflict that is never seen.
  \<^item> \<open>Rule_Checker\<close>: the rule resolver, the authorizer and the check of a CSV's rules
    (\<open>install/rule_checker.go\<close>). A rule that is reported as satisfied is authorized request by request.
  \<^item> \<open>Operator_Permissions\<close>: the roles and bindings of a CSV (\<open>registry/resolver/rbac.go\<close>). On a cluster with
    them the modelled authorizer allows exactly what the CSV asks for.

  \<^bold>\<open>The dependency solver\<close> (\<open>registry/resolver/solver\<close>).
  \<^item> \<open>Lit_Mapping\<close>: constraints and their encoding as literals of the SAT library, which is a record of
    operations with a contract.
  \<^item> \<open>Solver_Search\<close>: the preference search with its deque of choices and stack of guesses, and a measure
    that bounds it.
  \<^item> \<open>Solver\<close>: \<open>Solve\<close>. Solutions satisfy every constraint, reported conflicts are real, errors are those of the
    input, and the search always returns.
  \<^item> \<open>Gini_Reference\<close>: a small solver that meets the contract, and an input on which a solution is lost.

  \<^bold>\<open>The resolver\<close> (\<open>registry/resolver\<close>).
  \<^item> \<open>API_Set\<close>, \<open>Resolver_Cache\<close>: API keys, catalog entries, predicates with their counters, snapshots and the
    cache with its two lookups (\<open>cache\<close>). The locale \<open>operator_finder\<close> is what the resolver relies on of a
    finder; it is interpreted on the three finders of the code.
  \<^item> \<open>Bundle_Variables\<close>, \<open>Channel_Order\<close>: the variables given to the solver (\<open>variable_types.go\<close>) and the order of
    the bundles of a channel along the unique chain of replacements.
  \<^item> \<open>Resolver\<close>, \<open>Resolve\<close>: dependencies as predicates, the traversal that collects the variables of bundles on a
    shared heap, subscriptions, invariants and \<open>Resolve\<close> (\<open>resolver.go\<close>). No two operators of a result share a
    package or an API.
  \<^item> \<open>Fail_Forward\<close>: chains of replacing versions (\<open>fail_forward.go\<close>).
  \<^item> \<open>Resolve_Steps\<close>: \<open>ResolveSteps\<close>, on the model of \<open>Resolve\<close>, and the steps of bundles (\<open>step_resolver.go\<close>,
    \<open>steps.go\<close>).

  \<^bold>\<open>The catalog operator\<close> (\<open>controller/operators/catalog\<close>).
  \<^item> \<open>Namespace_Sync\<close>: \<open>syncResolvingNamespace\<close>, on the model of \<open>ResolveSteps\<close>: the state of subscriptions, the
    unpacking of bundles, the creation of plans and the conditions that are reported. The reads are the fields
    of a record, the writes a list of effects. Two workers that ensure the same plan are a step relation.
  \<^item> \<open>Install_Plan\<close>: the phases of an InstallPlan, its handler, the retry after a change of permissions and the
    collection of old plans. The locale \<open>plan_executor\<close> is what the handler relies on of the execution; it is a
    \<open>sync_machine\<close> whose events are synchronisations, approvals, permission changes and other changes.
  \<^item> \<open>Execute_Plan\<close>: \<open>ExecutePlan\<close> with every kind of step (\<open>step.go\<close>, \<open>step_ensurer.go\<close>, \<open>lib/crd/storage.go\<close>) over a
    cluster of any type. It interprets \<open>plan_executor\<close>; a completed plan has been applied.
  \<^item> \<open>Subscription_Sync\<close>: the typestates of a subscription, the reconcilers of its catalogs and its plan, and the
    syncer with its notifications (\<open>subscription\<close>). A subscription comes to rest after four synchronisations, its
    conditions follow its plan, and a deleted plan can leave it stuck, also for \<open>Namespace_Sync\<close>.
  \<^item> This theory: manual approval from the subscription to the cluster, across the three.

  \<^bold>\<open>The OLM operator\<close> (\<open>controller/operators/olm\<close>).
  \<^item> \<open>Operator_Groups\<close>: target namespaces and provided APIs of operator groups (\<open>groups.go\<close>). The locale
    \<open>namespace_sets\<close> is the abstract specification of sets of namespaces; the code's sets refine it.
  \<^item> \<open>CSV_Replacement\<close>, \<open>CSV_Labels\<close>: replacement chains, owners of CRDs, labels of APIs (\<open>lib/csv\<close>, \<open>labeler.go\<close>).
  \<^item> \<open>CSV_Phases\<close>, \<open>CSV_Machine\<close>: \<open>transitionCSVState\<close> with its status, every phase, and the machine of
    repeated synchronisations, which interprets \<open>sync_machine\<close>: well-formed status, the exact graph of the phases,
    requirements met before an installation, deletions only after a replacement has succeeded, the panics, and a
    healthy cluster in which a version comes to run.
  \<^item> \<open>Alongside\<close>: the annotations that name the versions a CRD was installed with (\<open>internal/alongside\<close>); they
    read back, and it is characterised which versions the check of requirements reports.
  \<^item> \<open>Requirements\<close>: \<open>requirements.go\<close>, on the models of the rule checker and of the generated permissions. It
    decides what it should, and with it the machine of \<open>CSV_Machine\<close> installs only versions whose service accounts
    the authorizer grants every request they ask for.
  \<^item> \<open>Copied_Versions\<close>: copies of CSVs and of their roles in the target namespaces, their collection, and the
    configuration that switches copying off (\<open>operatorgroup.go\<close>, \<open>operator.go\<close>). Reads are fields of a record, writes
    effects on a store; copies follow the targets of the group.
  \<^item> \<open>Group_Controller\<close>: \<open>syncOperatorGroups\<close> with the targets, annotations, provided APIs and cluster roles of a
    group, its service account and the clients that act with it (\<open>lib/scoped\<close>), and the labels of namespaces.

  \<^bold>\<open>Conventions.\<close> Errors are values of sum types, a panic and a loop that does not return are \<open>None\<close>. Loops that
  need not end (\<open>searchLoop\<close>, \<open>bundleLoop\<close>, \<open>walk\<close>, \<open>finalCSV\<close>) are partial functions with theorems that say when they
  return; the others are recursions with measures. The only fuel is the five attempts that Kubernetes' retry
  makes on a conflict. Hashes of API keys are kept at 64 bits; Go's int elsewhere holds counts and generations that do
  not come near its bounds and is \<open>int\<close> or \<open>nat\<close>. The order in which Go ranges over a map is a parameter. Times are
  seconds.

  \<^bold>\<open>Parameters.\<close> The API server and its listers, JSON, YAML and CEL decoders, version ranges, the SAT library, SHA-224,
  discovery, the bundle unpacker, and the installer that the state machine of CSVs calls. (Its check of requirements
  is a parameter of \<open>CSV_Machine\<close> that \<open>Requirements\<close> instantiates.) Each hypothesis about one is a named definition: \<open>go_sort\<close>, \<open>resolvable\<close>, \<open>serves\<close>, \<open>createsAsGiven\<close>,
  \<open>writable\<close>, \<open>trueToNames\<close>, \<open>stores\<close>, \<open>faultless\<close>, \<open>upToDate\<close> and the contract of the SAT library among them, each with an instance in a witness.

  \<^bold>\<open>Not modelled.\<close> Catalog sources, registry pods and the bundle unpacker (they build resources and watch them), the
  sources that fill the operator cache, the overrides of subscriptions, the deployment installer with API services and
  certificates, the finalizer and the deletion handler of CSVs (they clean up what the installer makes), the package
  server, queues, informers, clients, fakes and generated code, commands, metrics, logs and events.
\<close>

section \<open>From the approval of a subscription to the cluster\<close>

text \<open>C4. If a subscription of a namespace asks for manual approval, no InstallPlan made for the namespace
  touches the cluster before its user has approved it: whatever synchronisations, changes of
  permissions and other changes happen after the plan was created, the history of a plan whose
  synchronisation changes the cluster has an approval in it.\<close>

theorem manual_approval_required:
  assumes "createsAsGiven W" "nw_subs W = Inr subs" "sub \<in> set subs" "sb_Approval sub = ApprovalManual"
    and "syncResolvingNamespace E R G s0 srt cached W namespace = Some (r, eff)" "createPlan p \<in> set eff"
    and "runs (ip_step (ExecutePlan A)) (p, c0) h (q, c)"
    and "syncInstallPlans (ExecutePlan A) V q c = Some (e, eff', c')" "c' \<noteq> c"
  shows "userApproves \<in> fst ` set h"
proof -
  from assms(1,5,6,2) obtain plans where p_for: "planFor W (maxPlanGeneration (maxGeneration subs) plans + 1) subs p"
    by (rule created_planFor)
  have "approvedPlan p" by (rule planFor_approved [OF p_for])
  have "\<not> ip_Approved p" using p_for assms(3,4) by (auto simp: planFor_def)
  have "ip_Phase q = InstallPlanPhaseInstalling" using exec.sync_keeps [OF assms(8)] assms(9) by blast
  moreover have "approvedPlan q" using exec.machine.run_wf [OF assms(7)] \<open>approvedPlan p\<close> by simp
  ultimately have "ip_Approved q" by (simp add: approvedPlan_def)
  from exec.run_approved [OF assms(7) this] \<open>\<not> ip_Approved p\<close> show ?thesis by blast
qed

text \<open>A namespace with a bundle in its catalog that holds a single CSV.\<close>

definition demoDocument :: csvDocument where
  "demoDocument = \<lparr>cd_APIVersion = ''operators.coreos.com/v1alpha1'', cd_Kind = ''ClusterServiceVersion'',
     cd_Meta = newObject T_ClusterServiceVersion ''a.v1'' [] [] None, cd_Annotations = [], cd_Replaces = [],
     cd_Strategy = \<lparr>is_Name = ''deployment'', is_Permissions = [], is_ClusterPermissions = []\<rparr>\<rparr>"

definition demoBundleNamespace :: ns_world where
  "demoBundleNamespace = (demoNamespace [demoSub])\<lparr>
     rw_bundle := (\<lambda>e. Some \<lparr>bn_CsvName = ''a.v1'', bn_CsvJson = [], bn_Objects = [], bn_Properties = []\<rparr>),
     rw_codecs := demoCodecs\<lparr>k_decodeCSV := (\<lambda>s. Inr demoDocument)\<rparr>\<rparr>"

definition demoCreated :: "InstallPlan list" where
  "demoCreated = (case syncResolvingNamespace packageEnv demoOrders refGini rNew SliceStable (Inr []) demoBundleNamespace ''ns'' of
     Some (r, eff) \<Rightarrow> createdPlans eff | None \<Rightarrow> [])"

definition demoAfter :: "InstallPlan \<Rightarrow> kobject list \<Rightarrow> (InstallPlan \<times> kobject list) option" where
  "demoAfter p c = map_option (\<lambda>(e, eff, c'). (stored p eff, c')) (syncInstallPlans (ExecutePlan demoAPI) Execute_Plan.demoWorld p c)"

theorem manual_approval_required_witness:
  "\<exists>p h q c q' c'. demoCreated = [p] \<and> runs (ip_step (ExecutePlan demoAPI)) (p, []) h (q, c)
     \<and> demoAfter q c = Some (q', c') \<and> c' \<noteq> c \<and> userApproves \<in> fst ` set h"
proof -
  have "case demoCreated of [p] \<Rightarrow> (case demoAfter (p\<lparr>ip_Approved := True\<rparr>) [] of
      Some (q, c) \<Rightarrow> (case demoAfter q c of Some (q', c') \<Rightarrow> c' \<noteq> c | None \<Rightarrow> False) | None \<Rightarrow> False) | _ \<Rightarrow> False" by code_simp
  then obtain p q c q' c' where d: "demoCreated = [p]" "demoAfter (p\<lparr>ip_Approved := True\<rparr>) [] = Some (q, c)"
    "demoAfter q c = Some (q', c')" "c' \<noteq> c"
    by (auto split: list.splits option.splits prod.splits)
  let ?p = "p\<lparr>ip_Approved := True\<rparr>"
  let ?h = "[(syncPlan Execute_Plan.demoWorld, ?p, []), (userApproves, p, [])]"
  have run: "runs (ip_step (ExecutePlan demoAPI)) (p, []) ?h (q, c)"
    using d(2) by (auto simp: demoAfter_def intro!: runs_sync runs_start step_approve step_sync)
  from d(1) obtain r eff where s: "syncResolvingNamespace packageEnv demoOrders refGini rNew SliceStable (Inr []) demoBundleNamespace ''ns'' = Some (r, eff)"
    "createdPlans eff = [p]" by (auto simp: demoCreated_def split: option.splits)
  have "p \<in> set (createdPlans eff)" using s(2) by simp
  then have c: "createPlan p \<in> set eff" unfolding createdPlans_def List.map_filter_def by (auto split: ns_effect.splits)
  have W: "createsAsGiven demoBundleNamespace" "nw_subs demoBundleNamespace = Inr [demoSub]" "demoSub \<in> set [demoSub]" "sb_Approval demoSub = ApprovalManual"
    by (auto simp: createsAsGiven_def demoBundleNamespace_def demoNamespace_def resolve_world.defs demoSub_def Subscription.defs)
  from d(3) obtain e eff' where "syncInstallPlans (ExecutePlan demoAPI) Execute_Plan.demoWorld q c = Some (e, eff', c')" by (auto simp: demoAfter_def)
  from manual_approval_required [OF W s(1) c run this d(4)] d run show ?thesis by blast
qed

end
